(* ===== verification/Prelude.thy ===== *)
theory Prelude
  imports Main "HOL-Library.Product_Lexorder" "HOL-Library.List_Lexorder"
    "HOL-Library.Option_ord" "HOL-Library.Multiset" "HOL-Library.Word"
    "HOL-Library.Code_Target_Nat"
begin

text \<open>
  What the components of the model share: the machine types, results of fallible code,
  the ordered maps of the Rust standard library with their entry interface, stable sorting
  by a key, and maximum and minimum searches in the order in which Rust's iterators break ties.
\<close>

section \<open>Types\<close>

text \<open>
  \<open>u64\<close> is kept at its width. A \<open>usize\<close> is an offset into or a length of something in
  memory and is a natural number. A \<open>Uuid\<close> is compared and stored, never computed with,
  and is a natural number (its 128 bits read as one).
\<close>

type_synonym u64 = "64 word"
type_synonym uuid = nat

definition u64_saturating_add :: "u64 \<Rightarrow> u64 \<Rightarrow> u64" where
  "u64_saturating_add a b = (if unat a + unat b < 2 ^ 64 then a + b else - 1)"

definition u64_checked_mul :: "u64 \<Rightarrow> u64 \<Rightarrow> u64 option" where
  "u64_checked_mul a b = (if unat a * unat b < 2 ^ 64 then Some (a * b) else None)"

lemma u64_checked_mul_Some:
  "u64_checked_mul a b = Some c \<Longrightarrow> unat c = unat a * unat b"
  by (auto simp: u64_checked_mul_def unat_word_ariths split: if_splits)

lemma u64_saturating_add_ge: "a \<le> u64_saturating_add a b"
proof (cases "unat a + unat b < 2 ^ 64")
  case True
  then show ?thesis
    by (simp add: u64_saturating_add_def word_le_nat_alt unat_word_ariths)
next
  case False
  then show ?thesis
    by (simp add: u64_saturating_add_def)
qed

section \<open>Results\<close>

text \<open>
  \<open>Result<T, E>\<close> is \<open>'e + 't\<close>. \<open>res_bind\<close> is the \<open>?\<close> operator, \<open>try_map\<close> is
  \<open>iter().map(f).collect::<Result<Vec<_>, _>>()\<close>: it stops at the first error.
\<close>

fun res_bind :: "'e + 'a \<Rightarrow> ('a \<Rightarrow> 'e + 'b) \<Rightarrow> 'e + 'b" where
  "res_bind (Inl e) f = Inl e"
| "res_bind (Inr a) f = f a"

fun map_err :: "('e \<Rightarrow> 'f) \<Rightarrow> 'e + 'a \<Rightarrow> 'f + 'a" where
  "map_err g (Inl e) = Inl (g e)"
| "map_err g (Inr a) = Inr a"

definition ok_or :: "'e \<Rightarrow> 'a option \<Rightarrow> 'e + 'a" where
  "ok_or e x = (case x of None \<Rightarrow> Inl e | Some a \<Rightarrow> Inr a)"

fun try_map :: "('a \<Rightarrow> 'e + 'b) \<Rightarrow> 'a list \<Rightarrow> 'e + 'b list" where
  "try_map f [] = Inr []"
| "try_map f (x # xs) =
     res_bind (f x) (\<lambda>y. res_bind (try_map f xs) (\<lambda>ys. Inr (y # ys)))"

definition is_ok :: "'e + 'a \<Rightarrow> bool" where
  "is_ok r = (case r of Inl _ \<Rightarrow> False | Inr _ \<Rightarrow> True)"

lemma is_ok_simps [simp]: "is_ok (Inr a)" "\<not> is_ok (Inl e)"
  by (simp_all add: is_ok_def)

lemma res_bind_Inr_iff [simp]:
  "res_bind r f = Inr b \<longleftrightarrow> (\<exists>a. r = Inr a \<and> f a = Inr b)"
  by (cases r) auto

lemma res_bind_Inl_iff:
  "res_bind r f = Inl e \<longleftrightarrow> r = Inl e \<or> (\<exists>a. r = Inr a \<and> f a = Inl e)"
  by (cases r) auto

lemma map_err_Inr_iff [simp]: "map_err g r = Inr b \<longleftrightarrow> r = Inr b"
  by (cases r) auto

lemma ok_or_Inr_iff [simp]: "ok_or e x = Inr a \<longleftrightarrow> x = Some a"
  by (cases x) (auto simp: ok_or_def)

lemma try_map_Inr_iff:
  "try_map f xs = Inr ys \<longleftrightarrow> list_all2 (\<lambda>x y. f x = Inr y) xs ys"
proof (induction xs arbitrary: ys)
  case Nil
  then show ?case by auto
next
  case (Cons x xs)
  then show ?case by (auto simp: list_all2_Cons1)
qed

lemma try_map_Inr_length: "try_map f xs = Inr ys \<Longrightarrow> length ys = length xs"
  by (auto simp: try_map_Inr_iff dest: list_all2_lengthD)

lemma try_map_Inr_mem:
  "try_map f xs = Inr ys \<Longrightarrow> y \<in> set ys \<Longrightarrow> \<exists>x \<in> set xs. f x = Inr y"
  by (auto simp: try_map_Inr_iff list_all2_conv_all_nth in_set_conv_nth) (metis nth_mem)

lemma try_map_all_ok: "(\<And>x. x \<in> set xs \<Longrightarrow> f x = Inr (g x)) \<Longrightarrow> try_map f xs = Inr (map g xs)"
  by (induction xs) auto

lemma try_map_Inl_mem: "try_map f xs = Inl e \<Longrightarrow> \<exists>x \<in> set xs. f x = Inl e"
  by (induction xs) (auto simp: res_bind_Inl_iff)

text \<open>A loop over a list whose body may panic: \<open>None\<close> is the panic.\<close>

fun fold_panic :: "('a \<Rightarrow> 's \<Rightarrow> 's option) \<Rightarrow> 'a list \<Rightarrow> 's \<Rightarrow> 's option" where
  "fold_panic f [] s = Some s"
| "fold_panic f (x # xs) s = Option.bind (f x s) (fold_panic f xs)"

lemma fold_panic_Some:
  "(\<And>x s. x \<in> set xs \<Longrightarrow> f x s = Some (g x s)) \<Longrightarrow> fold_panic f xs s = Some (fold g xs s)"
  by (induction xs arbitrary: s) auto

fun map_panic :: "('a \<Rightarrow> 'b option) \<Rightarrow> 'a list \<Rightarrow> 'b list option" where
  "map_panic f [] = Some []"
| "map_panic f (x # xs) = Option.bind (f x) (\<lambda>y. map_option ((#) y) (map_panic f xs))"

lemma map_panic_Some: "(\<And>x. x \<in> set xs \<Longrightarrow> f x = Some (g x)) \<Longrightarrow> map_panic f xs = Some (map g xs)"
  by (induction xs) auto

section \<open>Ordered maps\<close>

text \<open>
  A \<open>BTreeMap\<close> is the association list of its entries in ascending key order; iteration is
  the list itself and \<open>get\<close> is \<open>map_of\<close>. \<open>bt_entry k f\<close> is the entry interface: it stores
  \<open>f\<close> of what is there, in place.
\<close>

type_synonym ('k, 'v) btree_map = "('k \<times> 'v) list"

definition bt_wf :: "('k::linorder, 'v) btree_map \<Rightarrow> bool" where
  "bt_wf m \<longleftrightarrow> sorted_wrt (<) (map fst m)"

fun bt_entry :: "'k::linorder \<Rightarrow> ('v option \<Rightarrow> 'v) \<Rightarrow> ('k, 'v) btree_map \<Rightarrow> ('k, 'v) btree_map" where
  "bt_entry k f [] = [(k, f None)]"
| "bt_entry k f (e # m) =
     (if k < fst e then (k, f None) # e # m
      else if k = fst e then (k, f (Some (snd e))) # m
      else e # bt_entry k f m)"

definition bt_insert :: "'k::linorder \<Rightarrow> 'v \<Rightarrow> ('k, 'v) btree_map \<Rightarrow> ('k, 'v) btree_map" where
  "bt_insert k v = bt_entry k (\<lambda>_. v)"

definition bt_or_insert :: "'k::linorder \<Rightarrow> 'v \<Rightarrow> ('k, 'v) btree_map \<Rightarrow> ('k, 'v) btree_map" where
  "bt_or_insert k v = bt_entry k (\<lambda>old. case old of None \<Rightarrow> v | Some w \<Rightarrow> w)"

text \<open>\<open>map.entry(k).or_default().extend(vs)\<close> for a map of vectors.\<close>

definition bt_extend ::
  "'k::linorder \<Rightarrow> 'v list \<Rightarrow> ('k, 'v list) btree_map \<Rightarrow> ('k, 'v list) btree_map" where
  "bt_extend k vs = bt_entry k (\<lambda>old. case old of None \<Rightarrow> vs | Some ws \<Rightarrow> ws @ vs)"

definition bt_remove :: "'k \<Rightarrow> ('k, 'v) btree_map \<Rightarrow> ('k, 'v) btree_map" where
  "bt_remove k m = filter (\<lambda>e. fst e \<noteq> k) m"

definition bt_values :: "('k, 'v) btree_map \<Rightarrow> 'v list" where
  "bt_values m = map snd m"

lemma bt_wf_Nil [simp]: "bt_wf []"
  by (simp add: bt_wf_def)

lemma set_bt_entry_keys: "set (map fst (bt_entry k f m)) = insert k (set (map fst m))"
  by (induction m) auto

lemma bt_entry_wf: "bt_wf m \<Longrightarrow> bt_wf (bt_entry k f m)"
proof (induction m)
  case Nil
  then show ?case by (simp add: bt_wf_def)
next
  case (Cons e m)
  have keys: "\<And>j. j \<in> set (map fst (bt_entry k f m)) \<Longrightarrow> j = k \<or> j \<in> set (map fst m)"
    using set_bt_entry_keys [of k f m] by auto
  from Cons show ?case
    by (auto simp: bt_wf_def dest!: keys) (use keys in fastforce)+
qed

lemma bt_wf_distinct: "bt_wf m \<Longrightarrow> distinct (map fst m)"
  by (simp add: bt_wf_def strict_sorted_iff)

lemma bt_wf_less_None: "bt_wf (e # m) \<Longrightarrow> k < fst e \<Longrightarrow> map_of m k = None"
  by (fastforce simp: bt_wf_def map_of_eq_None_iff)

lemma map_of_bt_entry:
  "bt_wf m \<Longrightarrow> map_of (bt_entry k f m) = (map_of m)(k \<mapsto> f (map_of m k))"
proof (induction m)
  case Nil
  then show ?case by simp
next
  case (Cons e m)
  obtain j w where e: "e = (j, w)" by (cases e)
  from Cons.prems have wf: "bt_wf m" by (simp add: bt_wf_def)
  show ?case
  proof (cases "k < j")
    case True
    then have "map_of m k = None" using Cons.prems e bt_wf_less_None by fastforce
    with True e show ?thesis by auto
  next
    case False
    with Cons.IH [OF wf] e show ?thesis by (auto simp: fun_eq_iff)
  qed
qed

lemma bt_insert_wf [simp]: "bt_wf m \<Longrightarrow> bt_wf (bt_insert k v m)"
  and bt_or_insert_wf [simp]: "bt_wf m \<Longrightarrow> bt_wf (bt_or_insert k v m)"
  by (simp_all add: bt_insert_def bt_or_insert_def bt_entry_wf)

lemma bt_extend_wf [simp]: "bt_wf m \<Longrightarrow> bt_wf (bt_extend k vs m)"
  by (simp add: bt_extend_def bt_entry_wf)

lemma map_of_bt_insert [simp]: "bt_wf m \<Longrightarrow> map_of (bt_insert k v m) = (map_of m)(k \<mapsto> v)"
  by (simp add: bt_insert_def map_of_bt_entry)

lemma map_of_bt_or_insert [simp]:
  "bt_wf m \<Longrightarrow> map_of (bt_or_insert k v m) =
     (map_of m)(k \<mapsto> (case map_of m k of None \<Rightarrow> v | Some w \<Rightarrow> w))"
  by (simp add: bt_or_insert_def map_of_bt_entry)

lemma map_of_bt_extend [simp]:
  "bt_wf m \<Longrightarrow> map_of (bt_extend k vs m) =
     (map_of m)(k \<mapsto> (case map_of m k of None \<Rightarrow> vs | Some ws \<Rightarrow> ws @ vs))"
  by (simp add: bt_extend_def map_of_bt_entry)

lemma bt_remove_wf [simp]: "bt_wf m \<Longrightarrow> bt_wf (bt_remove k m)"
  by (induction m) (auto simp: bt_wf_def bt_remove_def)

lemma map_of_bt_remove [simp]: "map_of (bt_remove k m) = (map_of m)(k := None)"
  by (induction m) (auto simp: bt_remove_def fun_eq_iff)

lemma bt_wf_mem_iff: "bt_wf m \<Longrightarrow> (k, v) \<in> set m \<longleftrightarrow> map_of m k = Some v"
  by (simp add: bt_wf_distinct)

lemma bt_wf_eqI:
  assumes "bt_wf m" "bt_wf n" "map_of m = map_of n"
  shows "m = n"
proof -
  have keys: "set (map fst m) = set (map fst n)"
    using assms(3) by (metis dom_map_of_conv_image_fst set_map)
  have "map fst m = map fst n"
    using assms(1,2) keys by (auto simp: bt_wf_def intro: strict_sorted_equal)
  moreover have "set m = set n"
    using assms by (metis bt_wf_distinct map_of_inject_set)
  ultimately show ?thesis
    using assms by (metis bt_wf_distinct distinct_map map_inj_on sup.idem)
qed

lemma bt_wf_map_values: "bt_wf (map (\<lambda>e. (fst e, f (fst e) (snd e))) m) = bt_wf m"
  by (simp add: bt_wf_def o_def)

text \<open>
  Grouping: \<open>map.entry(key(x)).or_default().push(x)\<close> over a list. The group of a key is the list
  of the elements that have it, in order.
\<close>

definition bt_group_from ::
  "('a \<Rightarrow> 'k::linorder) \<Rightarrow> 'a list \<Rightarrow> ('k, 'a list) btree_map \<Rightarrow> ('k, 'a list) btree_map" where
  "bt_group_from key xs m = fold (\<lambda>x. bt_extend (key x) [x]) xs m"

lemma bt_group_from_simps [simp]:
  "bt_group_from key [] m = m"
  "bt_group_from key (x # xs) m = bt_group_from key xs (bt_extend (key x) [x] m)"
  "bt_group_from key (xs @ ys) m = bt_group_from key ys (bt_group_from key xs m)"
  by (simp_all add: bt_group_from_def)

lemma bt_group_from_wf [simp]: "bt_wf m \<Longrightarrow> bt_wf (bt_group_from key xs m)"
  by (induction xs arbitrary: m) simp_all

lemma map_of_bt_group:
  "map_of (bt_group_from key xs []) k =
     (case filter (\<lambda>x. key x = k) xs of [] \<Rightarrow> None | ys \<Rightarrow> Some ys)"
proof (induction xs rule: rev_induct)
  case (snoc x xs)
  then show ?case by (auto split: list.splits option.splits)
qed simp

lemma bt_group_mem_iff:
  "(k, ys) \<in> set (bt_group_from key xs []) \<longleftrightarrow> ys = filter (\<lambda>x. key x = k) xs \<and> ys \<noteq> []"
  by (auto simp: bt_wf_mem_iff map_of_bt_group split: list.splits)

lemma distinct_map_filter_iff:
  "distinct (map key xs) \<longleftrightarrow> (\<forall>k. length (filter (\<lambda>x. key x = k) xs) \<le> 1)"
proof (induction xs)
  case (Cons x xs)
  show ?case
  proof
    assume d: "distinct (map key (x # xs))"
    then have "filter (\<lambda>y. key y = key x) xs = []" by (auto simp: filter_empty_conv image_iff)
    with d Cons show "\<forall>k. length (filter (\<lambda>x. key x = k) (x # xs)) \<le> 1" by auto
  next
    assume a: "\<forall>k. length (filter (\<lambda>x. key x = k) (x # xs)) \<le> 1"
    have "length (filter (\<lambda>y. key y = k) xs) \<le> 1" for k
    proof -
      have "length (filter (\<lambda>y. key y = k) xs) \<le> length (filter (\<lambda>y. key y = k) (x # xs))" by simp
      also have "\<dots> \<le> 1" using a by blast
      finally show ?thesis .
    qed
    moreover from a have "length (filter (\<lambda>y. key y = key x) (x # xs)) \<le> 1" by blast
    then have "filter (\<lambda>y. key y = key x) xs = []" by simp
    ultimately show "distinct (map key (x # xs))"
      using Cons by (auto simp: filter_empty_conv image_iff)
  qed
qed simp

lemma bt_group_singletons_iff:
  "(\<forall>(k, ys) \<in> set (bt_group_from key xs []). length ys \<le> 1) \<longleftrightarrow> distinct (map key xs)"
proof -
  have "length (filter (\<lambda>x. key x = k) xs) \<le> 1"
    if "\<forall>(k, ys) \<in> set (bt_group_from key xs []). length ys \<le> 1" for k
    using that by (cases "filter (\<lambda>x. key x = k) xs = []") (fastforce simp: bt_group_mem_iff)+
  then show ?thesis
    unfolding distinct_map_filter_iff by (auto simp: bt_group_mem_iff)
qed

section \<open>Stable sorting and searches by key\<close>

text \<open>
  \<open>sort_by_key\<close> is stable, as HOL's \<open>sort_key\<close> is. When the keys are distinct the result
  does not depend on the order of the input.
\<close>

lemma sort_key_canonical:
  assumes "mset xs = mset ys" and "inj_on f (set xs)"
  shows "sort_key f xs = sort_key f ys"
  using assms by (intro sort_key_inj_key_eq) (auto dest: mset_eq_setD)

lemma inj_on_distinct_map: "distinct (map f xs) \<Longrightarrow> inj_on f (set xs)"
  by (simp add: distinct_map)

text \<open>\<open>Iterator::min_by_key\<close> returns the first of several minimal elements.\<close>

fun min_by_key :: "('a \<Rightarrow> 'k::linorder) \<Rightarrow> 'a list \<Rightarrow> 'a option" where
  "min_by_key f [] = None"
| "min_by_key f (x # xs) =
     (case min_by_key f xs of
        None \<Rightarrow> Some x
      | Some y \<Rightarrow> if f x \<le> f y then Some x else Some y)"

text \<open>\<open>Iterator::max_by_key\<close> and \<open>max_by\<close> return the last of several maximal elements.\<close>

fun max_by_key :: "('a \<Rightarrow> 'k::linorder) \<Rightarrow> 'a list \<Rightarrow> 'a option" where
  "max_by_key f [] = None"
| "max_by_key f (x # xs) =
     (case max_by_key f xs of
        None \<Rightarrow> Some x
      | Some y \<Rightarrow> if f y < f x then Some x else Some y)"

lemma min_by_key_None_iff [simp]: "min_by_key f xs = None \<longleftrightarrow> xs = []"
  by (induction xs) (auto split: option.splits)

lemma max_by_key_None_iff [simp]: "max_by_key f xs = None \<longleftrightarrow> xs = []"
  by (induction xs) (auto split: option.splits)

lemma min_by_key_Some:
  "min_by_key f xs = Some y \<Longrightarrow> y \<in> set xs \<and> (\<forall>x \<in> set xs. f y \<le> f x)"
proof (induction xs arbitrary: y)
  case Nil
  then show ?case by simp
next
  case (Cons x xs)
  show ?case
  proof (cases "min_by_key f xs")
    case None
    with Cons.prems show ?thesis by auto
  next
    case (Some z)
    with Cons.IH [OF Some] Cons.prems show ?thesis by (auto split: if_splits)
  qed
qed

lemma max_by_key_Some:
  "max_by_key f xs = Some y \<Longrightarrow> y \<in> set xs \<and> (\<forall>x \<in> set xs. f x \<le> f y)"
proof (induction xs arbitrary: y)
  case Nil
  then show ?case by simp
next
  case (Cons x xs)
  show ?case
  proof (cases "max_by_key f xs")
    case None
    with Cons.prems show ?thesis by auto
  next
    case (Some z)
    with Cons.IH [OF Some] Cons.prems show ?thesis by (auto split: if_splits)
  qed
qed

text \<open>\<open>Iterator::find_map\<close>.\<close>

fun find_map :: "('a \<Rightarrow> 'b option) \<Rightarrow> 'a list \<Rightarrow> 'b option" where
  "find_map f [] = None"
| "find_map f (x # xs) = (case f x of None \<Rightarrow> find_map f xs | Some y \<Rightarrow> Some y)"

lemma find_map_None_iff: "find_map f xs = None \<longleftrightarrow> (\<forall>x \<in> set xs. f x = None)"
  by (induction xs) (auto split: option.splits)

lemma find_map_Some: "find_map f xs = Some y \<Longrightarrow> \<exists>x \<in> set xs. f x = Some y"
  by (induction xs) (auto split: option.splits)

section \<open>Hash maps\<close>

text \<open>
  A \<open>HashMap\<close> or \<open>DashMap\<close> is an association list with distinct keys, in the order in which
  iteration yields its entries; nothing proved of a state depends on that order.
\<close>

type_synonym ('k, 'v) hash_map = "('k \<times> 'v) list"

definition hm_insert :: "'k \<Rightarrow> 'v \<Rightarrow> ('k, 'v) hash_map \<Rightarrow> ('k, 'v) hash_map" where
  "hm_insert k v m = (k, v) # filter (\<lambda>e. fst e \<noteq> k) m"

definition hm_remove :: "'k \<Rightarrow> ('k, 'v) hash_map \<Rightarrow> ('k, 'v) hash_map" where
  "hm_remove k m = filter (\<lambda>e. fst e \<noteq> k) m"

definition hm_wf :: "('k, 'v) hash_map \<Rightarrow> bool" where
  "hm_wf m \<longleftrightarrow> distinct (map fst m)"

lemma hm_wf_Nil [simp]: "hm_wf []"
  by (simp add: hm_wf_def)

lemma hm_wf_filter [simp]: "hm_wf m \<Longrightarrow> hm_wf (filter P m)"
  by (simp add: hm_wf_def distinct_map_filter)

lemma hm_remove_wf [simp]: "hm_wf m \<Longrightarrow> hm_wf (hm_remove k m)"
  by (simp add: hm_remove_def)

lemma hm_insert_wf [simp]: "hm_wf m \<Longrightarrow> hm_wf (hm_insert k v m)"
  using hm_wf_filter [of m "\<lambda>e. fst e \<noteq> k"] by (auto simp: hm_insert_def hm_wf_def)

lemma map_of_filter_neq: "map_of (filter (\<lambda>e. fst e \<noteq> k) m) = (map_of m)(k := None)"
  by (induction m) (auto simp: fun_eq_iff)

lemma map_of_hm_insert [simp]: "map_of (hm_insert k v m) = (map_of m)(k \<mapsto> v)"
  by (simp add: hm_insert_def map_of_filter_neq)

lemma map_of_hm_remove [simp]: "map_of (hm_remove k m) = (map_of m)(k := None)"
  by (simp add: hm_remove_def map_of_filter_neq)

lemma hm_wf_mem_iff: "hm_wf m \<Longrightarrow> (k, v) \<in> set m \<longleftrightarrow> map_of m k = Some v"
  by (simp add: hm_wf_def)

lemma length_hm_remove: "length (hm_remove k m) \<le> length m"
  by (simp add: hm_remove_def)

lemma length_hm_remove_mem: "map_of m k \<noteq> None \<Longrightarrow> length (hm_remove k m) < length m"
  by (auto simp: hm_remove_def intro!: length_filter_less dest: map_of_SomeD)

lemma length_hm_insert: "length (hm_insert k v m) \<le> Suc (length m)"
  by (simp add: hm_insert_def)

lemma hm_filter_map_of:
  "hm_wf m \<Longrightarrow> map_of (filter P m) k =
     (case map_of m k of None \<Rightarrow> None | Some v \<Rightarrow> if P (k, v) then Some v else None)"
  by (induction m) (auto simp: hm_wf_def map_of_eq_None_iff split: option.splits)

section \<open>Runs\<close>

text \<open>An invariant every operation of a component keeps holds after every sequence of operations.\<close>

locale invariant_steps =
  fixes step :: "'e \<Rightarrow> 's \<Rightarrow> 's"
    and inv :: "'s \<Rightarrow> bool"
  assumes step_inv: "inv s \<Longrightarrow> inv (step e s)"
begin

lemma run_inv: "inv s \<Longrightarrow> inv (fold step es s)"
  by (induction es arbitrary: s) (simp_all add: step_inv)

end

end
