(* ===== verification/RustStr.thy ===== *)
theory RustStr
  imports Prelude "HOL-Library.Sublist"
begin

text \<open>
  The strings of the Rust standard library as far as the program uses them. A \<open>char\<close> is a
  Unicode scalar value, a \<open>str\<close> the list of its scalar values. Offsets into a \<open>str\<close> are
  byte offsets into its UTF-8 encoding: \<open>byte_len\<close> is \<open>str::len\<close>, \<open>split_byte s n\<close> cuts
  at byte \<open>n\<close> and is \<open>None\<close> where the code would panic, because \<open>n\<close> is past the end
  or inside a scalar value. \<open>str_bytes\<close> is \<open>as_bytes\<close>.
\<close>

type_synonym rchar = nat
type_synonym rstr = "rchar list"
type_synonym byte = nat

definition lit :: "string \<Rightarrow> rstr" where
  "lit s = map of_char s"

abbreviation ch :: "char \<Rightarrow> rchar" where
  "ch c \<equiv> of_char c"

section \<open>Byte offsets\<close>

definition utf8_width :: "rchar \<Rightarrow> nat" where
  "utf8_width c = (if c < 0x80 then 1 else if c < 0x800 then 2 else if c < 0x10000 then 3 else 4)"

definition byte_len :: "rstr \<Rightarrow> nat" where
  "byte_len s = sum_list (map utf8_width s)"

fun split_byte :: "rstr \<Rightarrow> nat \<Rightarrow> (rstr \<times> rstr) option" where
  "split_byte s 0 = Some ([], s)"
| "split_byte [] (Suc n) = None"
| "split_byte (c # s) (Suc n) =
     (if utf8_width c \<le> Suc n
      then map_option (\<lambda>(a, b). (c # a, b)) (split_byte s (Suc n - utf8_width c))
      else None)"

lemma split_byte_code [code]:
  "split_byte s n =
     (if n = 0 then Some ([], s)
      else case s of
          [] \<Rightarrow> None
        | c # t \<Rightarrow>
            if utf8_width c \<le> n
            then map_option (\<lambda>(a, b). (c # a, b)) (split_byte t (n - utf8_width c)) else None)"
  by (cases n; cases s) simp_all

definition is_char_boundary :: "rstr \<Rightarrow> nat \<Rightarrow> bool" where
  "is_char_boundary s n \<longleftrightarrow> split_byte s n \<noteq> None"

text \<open>\<open>&s[..n]\<close>, \<open>&s[n..]\<close> and \<open>&s[a..b]\<close>; \<open>None\<close> is the panic.\<close>

definition str_to :: "rstr \<Rightarrow> nat \<Rightarrow> rstr option" where
  "str_to s n = map_option fst (split_byte s n)"

definition str_from :: "rstr \<Rightarrow> nat \<Rightarrow> rstr option" where
  "str_from s n = map_option snd (split_byte s n)"

definition str_slice :: "rstr \<Rightarrow> nat \<Rightarrow> nat \<Rightarrow> rstr option" where
  "str_slice s a b =
     (if a \<le> b then Option.bind (str_from s a) (\<lambda>t. str_to t (b - a)) else None)"

lemma utf8_width_pos [simp]: "0 < utf8_width c"
  by (simp add: utf8_width_def)

lemma utf8_width_ge1: "1 \<le> utf8_width c"
  by (simp add: utf8_width_def)

lemma utf8_width_ascii: "c < 0x80 \<Longrightarrow> utf8_width c = 1"
  by (simp add: utf8_width_def)

lemma byte_len_Nil [simp]: "byte_len [] = 0"
  and byte_len_Cons [simp]: "byte_len (c # s) = utf8_width c + byte_len s"
  and byte_len_append [simp]: "byte_len (s @ t) = byte_len s + byte_len t"
  by (simp_all add: byte_len_def)

lemma byte_len_0_iff [simp]: "byte_len s = 0 \<longleftrightarrow> s = []"
  by (cases s) (auto simp: utf8_width_def)

lemma byte_len_pos_iff [simp]: "0 < byte_len s \<longleftrightarrow> s \<noteq> []"
  by (cases s) auto

lemma byte_len_ge_length: "length s \<le> byte_len s"
proof (induction s)
  case (Cons c s)
  then show ?case using utf8_width_ge1 [of c] by simp
qed simp

lemma split_byte_Some_iff: "split_byte s n = Some (a, b) \<longleftrightarrow> s = a @ b \<and> byte_len a = n"
proof (induction s n arbitrary: a b rule: split_byte.induct)
  case (1 s)
  then show ?case by auto
next
  case (2 n)
  then show ?case by auto
next
  case (3 c s n)
  show ?case
  proof (cases "utf8_width c \<le> Suc n")
    case True
    then have "split_byte (c # s) (Suc n) = Some (a, b) \<longleftrightarrow>
        (\<exists>a'. a = c # a' \<and> split_byte s (Suc n - utf8_width c) = Some (a', b))"
      by (auto simp: map_option_case split: option.splits)
    also have "\<dots> \<longleftrightarrow> (\<exists>a'. a = c # a' \<and> s = a' @ b \<and> byte_len a' = Suc n - utf8_width c)"
      using "3.IH" [OF True] by simp
    also have "\<dots> \<longleftrightarrow> c # s = a @ b \<and> byte_len a = Suc n"
      using True by (cases a) auto
    finally show ?thesis .
  next
    case False
    then show ?thesis by (cases a) auto
  qed
qed

lemma split_byte_append [simp]: "split_byte (a @ b) (byte_len a) = Some (a, b)"
  by (simp add: split_byte_Some_iff)

lemma split_byte_all [simp]: "split_byte s (byte_len s) = Some (s, [])"
  using split_byte_append [of s "[]"] by simp

lemma is_char_boundary_iff:
  "is_char_boundary s n \<longleftrightarrow> (\<exists>a b. s = a @ b \<and> byte_len a = n)"
proof -
  have "is_char_boundary s n \<longleftrightarrow> (\<exists>p. split_byte s n = Some p)"
    by (auto simp: is_char_boundary_def)
  then show ?thesis by (auto simp: split_byte_Some_iff)
qed

lemma is_char_boundaryE:
  assumes "is_char_boundary s n"
  obtains a b where "s = a @ b" "byte_len a = n"
  using assms by (auto simp: is_char_boundary_iff)

lemma is_char_boundary_0 [simp]: "is_char_boundary s 0"
  by (simp add: is_char_boundary_def)

lemma is_char_boundary_len [simp]: "is_char_boundary s (byte_len s)"
  by (simp add: is_char_boundary_def)

lemma is_char_boundary_le: "is_char_boundary s n \<Longrightarrow> n \<le> byte_len s"
  by (auto simp: is_char_boundary_iff)

lemma byte_prefix_unique: "a @ b = c @ d \<Longrightarrow> byte_len a = byte_len c \<Longrightarrow> a = c"
  by (metis option.inject prod.inject split_byte_append)

lemma str_to_Some_iff: "str_to s n = Some a \<longleftrightarrow> (\<exists>b. s = a @ b \<and> byte_len a = n)"
  by (auto simp: str_to_def map_option_case split_byte_Some_iff split: option.splits)
     (metis byte_prefix_unique option.distinct(1) split_byte_append)+

lemma str_from_Some_iff: "str_from s n = Some b \<longleftrightarrow> (\<exists>a. s = a @ b \<and> byte_len a = n)"
  by (auto simp: str_from_def map_option_case split_byte_Some_iff split: option.splits)
     (metis byte_prefix_unique same_append_eq option.distinct(1) split_byte_append)+

lemma str_slice_Some_iff:
  "str_slice s a b = Some m \<longleftrightarrow>
     (\<exists>p q. s = p @ m @ q \<and> byte_len p = a \<and> byte_len (p @ m) = b)"
proof
  assume "str_slice s a b = Some m"
  then obtain t where ab: "a \<le> b" and t: "str_from s a = Some t" and m: "str_to t (b - a) = Some m"
    by (auto simp: str_slice_def bind_eq_Some_conv split: if_splits)
  from t obtain p where "s = p @ t" "byte_len p = a" by (auto simp: str_from_Some_iff)
  moreover from m obtain q where "t = m @ q" "byte_len m = b - a" by (auto simp: str_to_Some_iff)
  ultimately show "\<exists>p q. s = p @ m @ q \<and> byte_len p = a \<and> byte_len (p @ m) = b"
    using ab by auto
next
  assume "\<exists>p q. s = p @ m @ q \<and> byte_len p = a \<and> byte_len (p @ m) = b"
  then obtain p q where s: "s = p @ m @ q" and p: "byte_len p = a" and b: "byte_len (p @ m) = b"
    by blast
  have "str_from s a = Some (m @ q)" using s p by (auto simp: str_from_Some_iff)
  moreover have "str_to (m @ q) (b - a) = Some m" using p b by (auto simp: str_to_Some_iff)
  ultimately show "str_slice s a b = Some m" using p b by (simp add: str_slice_def)
qed

text \<open>Of two boundaries of one string the earlier one cuts a prefix of what the later one cuts.\<close>

lemma byte_prefix_le:
  assumes "a @ b = c @ d" and "byte_len a \<le> byte_len c"
  obtains m where "c = a @ m" "b = m @ d"
proof -
  from assms(1) consider m where "a = c @ m" "m @ b = d" | m where "c = a @ m" "b = m @ d"
    by (auto simp: append_eq_append_conv2)
  then show thesis
  proof cases
    case (1 m)
    with assms(2) have "m = []" by simp
    with 1 show ?thesis by (intro that [of "[]"]) simp_all
  next
    case 2
    then show ?thesis by (rule that)
  qed
qed

lemma str_slice_ex:
  assumes "is_char_boundary s a" "is_char_boundary s b" "a \<le> b"
  obtains p m q where "s = p @ m @ q" "byte_len p = a" "byte_len (p @ m) = b"
    "str_slice s a b = Some m"
proof -
  from assms(1) obtain p t where p: "s = p @ t" "byte_len p = a" by (auto simp: is_char_boundary_iff)
  from assms(2) obtain r q where r: "s = r @ q" "byte_len r = b" by (auto simp: is_char_boundary_iff)
  from p r assms(3) obtain m where m: "r = p @ m" "t = m @ q"
    by (metis byte_prefix_le)
  have "str_slice s a b = Some m"
    using p r m by (auto simp: str_slice_Some_iff)
  with p r m show thesis by (intro that [of p m q]) simp_all
qed

section \<open>Character offsets\<close>

text \<open>\<open>str::char_indices\<close>, from a start offset.\<close>

fun char_indices :: "nat \<Rightarrow> rstr \<Rightarrow> (nat \<times> rchar) list" where
  "char_indices off [] = []"
| "char_indices off (c # s) = (off, c) # char_indices (off + utf8_width c) s"

lemma char_indices_append [simp]:
  "char_indices off (s @ t) = char_indices off s @ char_indices (off + byte_len s) t"
  by (induction s arbitrary: off) (simp_all add: add.assoc)

lemma char_indices_bounds:
  "(i, c) \<in> set (char_indices off s) \<Longrightarrow> off \<le> i \<and> i + utf8_width c \<le> off + byte_len s"
  by (induction s arbitrary: off) fastforce+

lemma length_char_indices [simp]: "length (char_indices off s) = length s"
  by (induction s arbitrary: off) simp_all

lemma map_snd_char_indices [simp]: "map snd (char_indices off s) = s"
  by (induction s arbitrary: off) simp_all

lemma char_indices_nth:
  "k < length s \<Longrightarrow> char_indices off s ! k = (off + byte_len (take k s), s ! k)"
proof (induction s arbitrary: off k)
  case (Cons c s)
  then show ?case by (cases k) simp_all
qed simp

lemma char_indices_split:
  "(i, c) \<in> set (char_indices off s) \<Longrightarrow> \<exists>x y. s = x @ c # y \<and> i = off + byte_len x"
proof (induction s arbitrary: off)
  case (Cons d s)
  show ?case
  proof (cases "(i, c) = (off, d)")
    case True
    then show ?thesis by (intro exI [of _ "[]"] exI [of _ s]) auto
  next
    case False
    with Cons.prems have "(i, c) \<in> set (char_indices (off + utf8_width d) s)" by auto
    from Cons.IH [OF this] obtain x y where "s = x @ c # y" "i = off + utf8_width d + byte_len x" by blast
    then show ?thesis by (intro exI [of _ "d # x"] exI [of _ y]) auto
  qed
qed simp

lemma boundary_outside_char:
  assumes "is_char_boundary s n" "(i, c) \<in> set (char_indices 0 s)"
  shows "n \<le> i \<or> i + utf8_width c \<le> n"
proof -
  from char_indices_split [OF assms(2)] obtain x y where xy: "s = x @ c # y" "i = byte_len x" by auto
  from assms(1) obtain a b where ab: "s = a @ b" "byte_len a = n" by (auto simp: is_char_boundary_iff)
  show ?thesis
  proof (cases "n \<le> i")
    case False
    then have "x @ c # y = a @ b" "byte_len x \<le> byte_len a" using xy ab by auto
    from byte_prefix_le [OF this] obtain m where m: "a = x @ m" "c # y = m @ b" .
    then have "m \<noteq> []" using False xy ab by auto
    then obtain m' where "m = c # m'" using m(2) by (cases m) auto
    with m xy ab show ?thesis by auto
  qed simp
qed

section \<open>Bytes\<close>

definition char_bytes :: "rchar \<Rightarrow> byte list" where
  "char_bytes c =
     (if c < 0x80 then [c]
      else if c < 0x800 then [0xC0 + c div 64, 0x80 + c mod 64]
      else if c < 0x10000 then [0xE0 + c div 4096, 0x80 + c div 64 mod 64, 0x80 + c mod 64]
      else [0xF0 + c div 262144, 0x80 + c div 4096 mod 64, 0x80 + c div 64 mod 64, 0x80 + c mod 64])"

definition str_bytes :: "rstr \<Rightarrow> byte list" where
  "str_bytes s = concat (map char_bytes s)"

lemma str_bytes_simps [simp]:
  "str_bytes [] = []" "str_bytes (c # s) = char_bytes c @ str_bytes s"
  "str_bytes (s @ t) = str_bytes s @ str_bytes t"
  by (simp_all add: str_bytes_def)

lemma length_char_bytes [simp]: "length (char_bytes c) = utf8_width c"
  by (simp add: char_bytes_def utf8_width_def)

lemma length_str_bytes [simp]: "length (str_bytes s) = byte_len s"
  by (induction s) simp_all

lemma char_bytes_ascii: "c < 0x80 \<Longrightarrow> char_bytes c = [c]"
  by (simp add: char_bytes_def)

text \<open>A byte below 128 is the encoding of an ASCII scalar value of its own.\<close>

lemma char_bytes_low: "b \<in> set (char_bytes c) \<Longrightarrow> b < 0x80 \<Longrightarrow> c = b \<and> char_bytes c = [b]"
  by (auto simp: char_bytes_def split: if_splits)

definition utf8_class :: "byte \<Rightarrow> nat" where
  "utf8_class b = (if b < 0x80 then 1 else if b < 0xE0 then 2 else if b < 0xF0 then 3 else 4)"

lemma utf8_class_hd: "utf8_class (hd (char_bytes c)) = utf8_width c"
proof -
  have "c < 0x800 \<Longrightarrow> c div 64 < 32" "c < 0x10000 \<Longrightarrow> c div 4096 < 16"
    by (simp_all add: less_mult_imp_div_less)
  then show ?thesis by (simp add: utf8_class_def utf8_width_def char_bytes_def)
qed

lemma div_mod_inject: "c div k = d div k \<Longrightarrow> c mod k = d mod k \<Longrightarrow> c = d" for c d k :: nat
  by (metis div_mult_mod_eq)

lemma char_bytes_inject:
  assumes "char_bytes c = char_bytes d"
  shows "c = d"
proof -
  have w: "utf8_width c = utf8_width d" using assms by (metis length_char_bytes)
  have dd: "c div 64 div 64 = c div 4096" "d div 64 div 64 = d div 4096"
    "c div 4096 div 64 = c div 262144" "d div 4096 div 64 = d div 262144"
    by (simp_all add: div_mult2_eq [symmetric])
  consider "utf8_width c = 1" | "utf8_width c = 2" | "utf8_width c = 3" | "utf8_width c = 4"
    using utf8_width_def [of c] by presburger
  then show ?thesis
  proof cases
    case 1
    then have "c < 0x80" "d < 0x80" using w by (auto simp: utf8_width_def split: if_splits)
    with assms show ?thesis by (simp add: char_bytes_def)
  next
    case 2
    then have "c < 0x800" "d < 0x800" "\<not> c < 0x80" "\<not> d < 0x80"
      using w by (auto simp: utf8_width_def split: if_splits)
    with assms have "c div 64 = d div 64" "c mod 64 = d mod 64" by (simp_all add: char_bytes_def)
    then show ?thesis by (rule div_mod_inject)
  next
    case 3
    then have "c < 0x10000" "d < 0x10000" "\<not> c < 0x800" "\<not> d < 0x800"
      using w by (auto simp: utf8_width_def split: if_splits)
    with assms have "c div 4096 = d div 4096" "c div 64 mod 64 = d div 64 mod 64" "c mod 64 = d mod 64"
      by (simp_all add: char_bytes_def)
    then show ?thesis by (metis dd div_mod_inject)
  next
    case 4
    then have "\<not> c < 0x10000" "\<not> d < 0x10000"
      using w by (auto simp: utf8_width_def split: if_splits)
    with assms have "c div 262144 = d div 262144" "c div 4096 mod 64 = d div 4096 mod 64"
      "c div 64 mod 64 = d div 64 mod 64" "c mod 64 = d mod 64"
      by (simp_all add: char_bytes_def)
    then show ?thesis by (metis dd div_mod_inject)
  qed
qed

lemma char_bytes_cancel:
  assumes "char_bytes c @ x = char_bytes d @ y"
  shows "c = d \<and> x = y"
proof -
  have "char_bytes e \<noteq> []" for e by (simp add: char_bytes_def)
  then have "hd (char_bytes c) = hd (char_bytes d)" using assms by (metis hd_append2)
  then have "utf8_width c = utf8_width d" by (metis utf8_class_hd)
  then have "char_bytes c = char_bytes d" "x = y" using assms by (simp_all add: append_eq_append_conv)
  then show ?thesis using char_bytes_inject by blast
qed

lemma str_bytes_inject: "str_bytes s = str_bytes t \<Longrightarrow> s = t"
proof (induction s arbitrary: t)
  case Nil
  then have "byte_len t = 0" by (metis length_str_bytes list.size(3) str_bytes_simps(1))
  then show ?case by simp
next
  case (Cons c s)
  have "byte_len t \<noteq> 0" using Cons.prems by (metis length_str_bytes byte_len_0_iff list.distinct(1))
  then obtain d t' where t: "t = d # t'" by (cases t) auto
  have "c = d \<and> str_bytes s = str_bytes t'"
    by (rule char_bytes_cancel) (use Cons.prems t in auto)
  with Cons t show ?case by auto
qed

text \<open>
  UTF-8 is self-synchronising: a continuation byte is never the first byte of a character. The
  encoding of a nonempty string therefore occurs in that of another one only where the string
  itself occurs.
\<close>

definition continuation :: "byte \<Rightarrow> bool" where
  "continuation b \<longleftrightarrow> 0x80 \<le> b \<and> b < 0xC0"

lemma char_bytes_lead: "\<not> continuation (char_bytes c ! 0)"
  by (auto simp: char_bytes_def continuation_def)

lemma char_bytes_continuation:
  assumes "0 < i" "i < utf8_width c"
  shows "continuation (char_bytes c ! i)"
proof -
  have "0x80 + n mod 64 < 0xC0" for n :: nat
    using mod_less_divisor [of 64 n] by linarith
  then have "continuation b" if "b \<in> set (tl (char_bytes c))" for b
    using that by (auto simp: char_bytes_def continuation_def split: if_splits)
  moreover have "char_bytes c ! i = tl (char_bytes c) ! (i - 1)" "i - 1 < length (tl (char_bytes c))"
    using assms by (simp_all add: nth_tl)
  ultimately show ?thesis by (metis nth_mem)
qed

lemma str_bytes_prefix: "str_bytes t = str_bytes p @ y \<Longrightarrow> \<exists>b. t = p @ b \<and> str_bytes b = y"
proof (induction p arbitrary: t)
  case (Cons c p)
  have "0 < utf8_width c" by simp
  then have "str_bytes t \<noteq> []" using Cons.prems by (metis append_is_Nil_conv length_char_bytes length_greater_0_conv str_bytes_simps(2))
  then obtain d t' where t: "t = d # t'" by (cases t) auto
  have "d = c \<and> str_bytes t' = str_bytes p @ y"
    by (rule char_bytes_cancel) (use Cons.prems t in simp)
  with Cons.IH [of t'] t show ?case by auto
qed simp

lemma bytes_occurrence:
  "str_bytes t = x @ str_bytes p @ y \<Longrightarrow> p \<noteq> [] \<Longrightarrow> \<exists>a b. t = a @ p @ b \<and> str_bytes a = x \<and> str_bytes b = y"
proof (induction t arbitrary: x)
  case Nil
  then have "str_bytes p = []" by (metis Nil_is_append_conv str_bytes_simps(1))
  then show ?case using Nil.prems(2) by (metis byte_len_0_iff length_str_bytes list.size(3))
next
  case (Cons c t)
  show ?case
  proof (cases "x = []")
    case True
    with Cons.prems have "str_bytes (c # t) = str_bytes p @ y" by simp
    from str_bytes_prefix [OF this] True show ?thesis by (metis append_Nil str_bytes_simps(1))
  next
    case False
    have "utf8_width c \<le> length x"
    proof (rule ccontr)
      assume n: "\<not> utf8_width c \<le> length x"
      obtain d p' where p: "p = d # p'" using Cons.prems(2) by (cases p) auto
      have "str_bytes (c # t) ! length x = char_bytes d ! 0"
        unfolding Cons.prems(1) p by (simp add: nth_append)
      moreover have "str_bytes (c # t) ! length x = char_bytes c ! length x"
        using n by (simp add: nth_append)
      moreover have "continuation (char_bytes c ! length x)"
        using n False by (intro char_bytes_continuation) auto
      ultimately show False using char_bytes_lead [of d] by simp
    qed
    then obtain x' where x: "x = char_bytes c @ x'"
      using Cons.prems(1) by (metis append_eq_append_conv_if append_eq_conv_conj length_char_bytes str_bytes_simps(2) append_take_drop_id)
    then have "str_bytes t = x' @ str_bytes p @ y" using Cons.prems(1) by simp
    from Cons.IH [OF this Cons.prems(2)] obtain a b where "t = a @ p @ b" "str_bytes a = x'" "str_bytes b = y" by blast
    with x show ?thesis by (intro exI [of _ "c # a"] exI [of _ b]) simp
  qed
qed

definition is_ascii_digit :: "nat \<Rightarrow> bool" where
  "is_ascii_digit b \<longleftrightarrow> ch (CHR ''0'') \<le> b \<and> b \<le> ch (CHR ''9'')"

definition is_ascii_alphabetic :: "nat \<Rightarrow> bool" where
  "is_ascii_alphabetic b \<longleftrightarrow>
     ch (CHR ''A'') \<le> b \<and> b \<le> ch (CHR ''Z'') \<or> ch (CHR ''a'') \<le> b \<and> b \<le> ch (CHR ''z'')"

definition is_ascii_alphanumeric :: "nat \<Rightarrow> bool" where
  "is_ascii_alphanumeric b \<longleftrightarrow> is_ascii_alphabetic b \<or> is_ascii_digit b"

text \<open>\<open>u8::is_ascii_whitespace\<close>: space, tab, line feed, form feed and carriage return.\<close>

definition is_ascii_whitespace :: "nat \<Rightarrow> bool" where
  "is_ascii_whitespace b \<longleftrightarrow> b \<in> {9, 10, 12, 13, 32}"

definition is_ascii_punctuation :: "nat \<Rightarrow> bool" where
  "is_ascii_punctuation b \<longleftrightarrow>
     33 \<le> b \<and> b \<le> 47 \<or> 58 \<le> b \<and> b \<le> 64 \<or> 91 \<le> b \<and> b \<le> 96 \<or> 123 \<le> b \<and> b \<le> 126"

definition to_ascii_lowercase :: "nat \<Rightarrow> nat" where
  "to_ascii_lowercase b = (if ch (CHR ''A'') \<le> b \<and> b \<le> ch (CHR ''Z'') then b + 32 else b)"

definition eq_ignore_ascii_case :: "nat \<Rightarrow> nat \<Rightarrow> bool" where
  "eq_ignore_ascii_case a b \<longleftrightarrow> to_ascii_lowercase a = to_ascii_lowercase b"

section \<open>Whole strings\<close>

text \<open>\<open>char::is_whitespace\<close>: the \<open>White_Space\<close> property of Unicode.\<close>

definition is_whitespace :: "rchar \<Rightarrow> bool" where
  "is_whitespace c \<longleftrightarrow>
     9 \<le> c \<and> c \<le> 13 \<or> c = 32 \<or> c = 0x85 \<or> c = 0xA0 \<or> c = 0x1680 \<or>
     0x2000 \<le> c \<and> c \<le> 0x200A \<or> c = 0x2028 \<or> c = 0x2029 \<or> c = 0x202F \<or> c = 0x205F \<or> c = 0x3000"

definition trim_matches :: "(rchar \<Rightarrow> bool) \<Rightarrow> rstr \<Rightarrow> rstr" where
  "trim_matches p s = rev (dropWhile p (rev (dropWhile p s)))"

definition trim :: "rstr \<Rightarrow> rstr" where
  "trim s = trim_matches is_whitespace s"

text \<open>\<open>str::split\<close> with a character: one more piece than separators.\<close>

fun split_char :: "rchar \<Rightarrow> rstr \<Rightarrow> rstr list" where
  "split_char d [] = [[]]"
| "split_char d (c # s) =
     (if c = d then [] # split_char d s
      else case split_char d s of [] \<Rightarrow> [[c]] | p # ps \<Rightarrow> (c # p) # ps)"

definition strip_prefix_char :: "rchar \<Rightarrow> rstr \<Rightarrow> rstr option" where
  "strip_prefix_char c s = (case s of [] \<Rightarrow> None | d # t \<Rightarrow> if d = c then Some t else None)"

definition strip_suffix_char :: "rchar \<Rightarrow> rstr \<Rightarrow> rstr option" where
  "strip_suffix_char c s = (if s \<noteq> [] \<and> last s = c then Some (butlast s) else None)"

definition str_contains :: "rstr \<Rightarrow> rstr \<Rightarrow> bool" where
  "str_contains s t = sublist t s"

fun show_nat :: "nat \<Rightarrow> rstr" where
  "show_nat n = (if n < 10 then [48 + n] else show_nat (n div 10) @ [48 + n mod 10])"

declare show_nat.simps [simp del]

lemma split_char_nonempty [simp]: "split_char d s \<noteq> []"
  by (cases s) (auto split: list.splits)

lemma length_split_char: "length (split_char d s) = Suc (count_list s d)"
  by (induction s) (auto split: list.splits)

lemma trim_matches_Nil [simp]: "trim_matches p [] = []"
  by (simp add: trim_matches_def)

lemma trim_matches_empty_iff: "trim_matches p s = [] \<longleftrightarrow> (\<forall>c \<in> set s. p c)"
  by (metis dropWhile_eq_Nil_conv rev_is_Nil_conv rev_rev_ident set_rev trim_matches_def
      dropWhile_idem hd_dropWhile list.set_sel(1))

lemma set_trim_matches: "set (trim_matches p s) \<subseteq> set s"
  by (auto simp: trim_matches_def dest!: set_dropWhileD)

end
