(* ===== verification/Model.thy ===== *)
theory Model
  imports RustStr
begin

text \<open>
  The data of the native content policies (\<open>src/content_policy/model.rs\<close>): authorities and
  scopes, surfaces, pattern and action types, rules and policies, and the limits validation
  applies. Enums that the code orders by \<open>derive(Ord)\<close> are linear orders by declaration order.
\<close>

section \<open>Authorities and scopes\<close>

datatype authority = AuthGlobal | AuthHub | AuthServer

fun precedence :: "authority \<Rightarrow> nat" where
  "precedence AuthGlobal = 0"
| "precedence AuthHub = 1"
| "precedence AuthServer = 2"

fun may_punish :: "authority \<Rightarrow> bool" where
  "may_punish AuthServer = False"
| "may_punish _ = True"

lemma precedence_inject [simp]: "precedence a = precedence b \<longleftrightarrow> a = b"
  by (cases a; cases b) simp_all

instantiation authority :: linorder
begin

definition less_eq_authority :: "authority \<Rightarrow> authority \<Rightarrow> bool" where
  "a \<le> b \<longleftrightarrow> precedence a \<le> precedence b"

definition less_authority :: "authority \<Rightarrow> authority \<Rightarrow> bool" where
  "a < b \<longleftrightarrow> precedence a < precedence b"

instance
  by standard (auto simp: less_eq_authority_def less_authority_def)

end

datatype policy_scope = PolicyScope (sc_authority: authority) (sc_id: rstr)

text \<open>\<open>derive(PartialOrd, Ord)\<close> on the struct compares the fields in order.\<close>

instantiation policy_scope :: linorder
begin

definition less_eq_policy_scope :: "policy_scope \<Rightarrow> policy_scope \<Rightarrow> bool" where
  "a \<le> b \<longleftrightarrow> (sc_authority a, sc_id a) \<le> (sc_authority b, sc_id b)"

definition less_policy_scope :: "policy_scope \<Rightarrow> policy_scope \<Rightarrow> bool" where
  "a < b \<longleftrightarrow> (sc_authority a, sc_id a) < (sc_authority b, sc_id b)"

instance
proof
  fix a b c :: policy_scope
  show "a < b \<longleftrightarrow> a \<le> b \<and> \<not> b \<le> a"
    unfolding less_eq_policy_scope_def less_policy_scope_def by (rule less_le_not_le)
  show "a \<le> a"
    unfolding less_eq_policy_scope_def by (rule order_refl)
  show "a \<le> b \<or> b \<le> a"
    unfolding less_eq_policy_scope_def by (rule linear)
  show "a \<le> b \<Longrightarrow> b \<le> c \<Longrightarrow> a \<le> c"
    unfolding less_eq_policy_scope_def by (rule order_trans)
  show "a \<le> b \<Longrightarrow> b \<le> a \<Longrightarrow> a = b"
    unfolding less_eq_policy_scope_def by (drule (1) antisym) (simp add: policy_scope.expand)
qed

end

definition global :: policy_scope where
  "global = PolicyScope AuthGlobal []"

definition hub :: "rstr \<Rightarrow> policy_scope" where
  "hub i = PolicyScope AuthHub i"

definition server :: "rstr \<Rightarrow> policy_scope" where
  "server i = PolicyScope AuthServer i"

definition scope_validate :: "policy_scope \<Rightarrow> rstr + unit" where
  "scope_validate s = (case sc_authority s of
       AuthGlobal \<Rightarrow>
         if sc_id s = [] then Inr () else Inl (lit ''GLOBAL scope must not have an id'')
     | _ \<Rightarrow>
         if trim (sc_id s) = [] then Inl (lit ''non-GLOBAL scope requires an id'') else Inr ())"

lemma scope_validate_ok_iff:
  "scope_validate s = Inr () \<longleftrightarrow>
     s = global \<or> sc_authority s \<noteq> AuthGlobal \<and> \<not> (\<forall>c \<in> set (sc_id s). is_whitespace c)"
  by (cases s; cases "sc_authority s")
     (auto simp: scope_validate_def global_def trim_def trim_matches_empty_iff)

section \<open>Surfaces, patterns and actions\<close>

datatype surface = MessageContent | DisplayName | Username | ServerName | HubName | UrlDomain

fun surface_rank :: "surface \<Rightarrow> nat" where
  "surface_rank MessageContent = 0"
| "surface_rank DisplayName = 1"
| "surface_rank Username = 2"
| "surface_rank ServerName = 3"
| "surface_rank HubName = 4"
| "surface_rank UrlDomain = 5"

definition surface_ALL :: "surface list" where
  "surface_ALL = [MessageContent, DisplayName, Username, ServerName, HubName, UrlDomain]"

fun is_name :: "surface \<Rightarrow> bool" where
  "is_name DisplayName = True"
| "is_name Username = True"
| "is_name ServerName = True"
| "is_name HubName = True"
| "is_name _ = False"

lemma surface_rank_inject [simp]: "surface_rank a = surface_rank b \<longleftrightarrow> a = b"
  by (cases a; cases b) simp_all

instantiation surface :: linorder
begin

definition less_eq_surface :: "surface \<Rightarrow> surface \<Rightarrow> bool" where
  "a \<le> b \<longleftrightarrow> surface_rank a \<le> surface_rank b"

definition less_surface :: "surface \<Rightarrow> surface \<Rightarrow> bool" where
  "a < b \<longleftrightarrow> surface_rank a < surface_rank b"

instance
  by standard (auto simp: less_eq_surface_def less_surface_def)

end

lemma surface_ALL_complete: "set surface_ALL = UNIV"
  using surface.exhaust by (auto simp: surface_ALL_def)

lemma surface_ALL_sorted: "sorted_wrt (<) surface_ALL"
  by (simp add: surface_ALL_def less_surface_def)

datatype wildcard_pattern_type = ExactWord | Prefix | Suffix | Contains | Phrase

fun pattern_type_rank :: "wildcard_pattern_type \<Rightarrow> nat" where
  "pattern_type_rank ExactWord = 0"
| "pattern_type_rank Prefix = 1"
| "pattern_type_rank Suffix = 2"
| "pattern_type_rank Contains = 3"
| "pattern_type_rank Phrase = 4"

lemma pattern_type_rank_inject [simp]: "pattern_type_rank a = pattern_type_rank b \<longleftrightarrow> a = b"
  by (cases a; cases b) simp_all

instantiation wildcard_pattern_type :: linorder
begin

definition less_eq_wildcard_pattern_type ::
  "wildcard_pattern_type \<Rightarrow> wildcard_pattern_type \<Rightarrow> bool" where
  "a \<le> b \<longleftrightarrow> pattern_type_rank a \<le> pattern_type_rank b"

definition less_wildcard_pattern_type ::
  "wildcard_pattern_type \<Rightarrow> wildcard_pattern_type \<Rightarrow> bool" where
  "a < b \<longleftrightarrow> pattern_type_rank a < pattern_type_rank b"

instance
  by standard (auto simp: less_eq_wildcard_pattern_type_def less_wildcard_pattern_type_def)

end

datatype policy_action_type =
  Allow | Block | CensorMatch | StripLink | SuppressLinks | ReplaceName | Log
  | LobbyWarn | LobbyBan | Blacklist | HubWarn | HubMute | HubBan

fun action_type_rank :: "policy_action_type \<Rightarrow> nat" where
  "action_type_rank Allow = 0"
| "action_type_rank Block = 1"
| "action_type_rank CensorMatch = 2"
| "action_type_rank StripLink = 3"
| "action_type_rank SuppressLinks = 4"
| "action_type_rank ReplaceName = 5"
| "action_type_rank Log = 6"
| "action_type_rank LobbyWarn = 7"
| "action_type_rank LobbyBan = 8"
| "action_type_rank Blacklist = 9"
| "action_type_rank HubWarn = 10"
| "action_type_rank HubMute = 11"
| "action_type_rank HubBan = 12"

lemma action_type_rank_inject [simp]: "action_type_rank a = action_type_rank b \<longleftrightarrow> a = b"
  by (cases a; cases b) simp_all

instantiation policy_action_type :: linorder
begin

definition less_eq_policy_action_type :: "policy_action_type \<Rightarrow> policy_action_type \<Rightarrow> bool" where
  "a \<le> b \<longleftrightarrow> action_type_rank a \<le> action_type_rank b"

definition less_policy_action_type :: "policy_action_type \<Rightarrow> policy_action_type \<Rightarrow> bool" where
  "a < b \<longleftrightarrow> action_type_rank a < action_type_rank b"

instance
  by standard (auto simp: less_eq_policy_action_type_def less_policy_action_type_def)

end

definition is_delivery :: "policy_action_type \<Rightarrow> bool" where
  "is_delivery a \<longleftrightarrow>
     a \<in> {Allow, Block, CensorMatch, StripLink, SuppressLinks, ReplaceName}"

definition is_side_effect :: "policy_action_type \<Rightarrow> bool" where
  "is_side_effect a \<longleftrightarrow> \<not> is_delivery a"

definition is_hub_specific :: "policy_action_type \<Rightarrow> bool" where
  "is_hub_specific a \<longleftrightarrow> a \<in> {Log, HubWarn, HubMute, HubBan}"

definition is_global_specific :: "policy_action_type \<Rightarrow> bool" where
  "is_global_specific a \<longleftrightarrow> a \<in> {LobbyWarn, LobbyBan, Blacklist}"

definition needs_duration :: "policy_action_type \<Rightarrow> bool" where
  "needs_duration a \<longleftrightarrow> a \<in> {LobbyBan, Blacklist, HubMute}"

definition allows_duration :: "policy_action_type \<Rightarrow> bool" where
  "allows_duration a \<longleftrightarrow> needs_duration a"

text \<open>Every action is a delivery action, a Hub action or a global one, and only one of them.\<close>

lemma action_classes:
  "is_side_effect a \<longleftrightarrow> is_hub_specific a \<or> is_global_specific a"
  "\<not> (is_hub_specific a \<and> is_global_specific a)"
  "needs_duration a \<Longrightarrow> is_side_effect a"
  by (cases a; simp add: is_side_effect_def is_delivery_def is_hub_specific_def
      is_global_specific_def needs_duration_def)+

section \<open>Rules and policies\<close>

record rule_pattern =
  rp_id :: uuid
  rp_pattern :: rstr
  rp_type :: wildcard_pattern_type

record policy_action =
  pa_id :: uuid
  pa_type :: policy_action_type
  pa_duration :: "u64 option"
  pa_replacement :: "rstr option"

text \<open>The \<open>BTreeSet\<close> of surfaces is the ascending list of its elements.\<close>

record policy_rule =
  pr_id :: uuid
  pr_name :: rstr
  pr_description :: rstr
  pr_enabled :: bool
  pr_custom_reason :: "rstr option"
  pr_created_by :: rstr
  pr_patterns :: "rule_pattern list"
  pr_surfaces :: "surface list"
  pr_actions :: "policy_action list"

record content_policy =
  cp_id :: uuid
  cp_scope :: policy_scope
  cp_enabled :: bool
  cp_version :: u64
  cp_rules :: "policy_rule list"

section \<open>Limits\<close>

record policy_limits =
  hub_patterns :: nat
  server_patterns :: nat
  global_patterns :: nat
  pattern_characters :: nat
  rule_name_characters :: nat
  rule_description_characters :: nat
  custom_reason_characters :: nat
  replacement_characters :: nat
  maximum_duration_seconds :: u64

definition default_limits :: policy_limits where
  "default_limits =
     \<lparr>hub_patterns = 1000, server_patterns = 500, global_patterns = 10000,
      pattern_characters = 100, rule_name_characters = 100,
      rule_description_characters = 1000, custom_reason_characters = 500,
      replacement_characters = 100, maximum_duration_seconds = 365 * 24 * 60 * 60\<rparr>"

fun maximum_patterns :: "policy_limits \<Rightarrow> authority \<Rightarrow> nat" where
  "maximum_patterns l AuthGlobal = global_patterns l"
| "maximum_patterns l AuthHub = hub_patterns l"
| "maximum_patterns l AuthServer = server_patterns l"

end
