(* ===== verification/Spans.thy ===== *)
theory Spans
  imports Model
begin

text \<open>
  Byte spans (\<open>ByteSpan\<close> of \<open>src/content_policy/resolver.rs\<close>) and the merging of
  overlapping and touching spans. The source merges into a vector whose last element it
  extends in place; \<open>merge_loop\<close> is that loop, \<open>merge_rec\<close> a structural
  reference for it.
\<close>

datatype byte_span = Span (sp_start: nat) (sp_end: nat)

instantiation byte_span :: linorder
begin

definition less_eq_byte_span :: "byte_span \<Rightarrow> byte_span \<Rightarrow> bool" where
  "a \<le> b \<longleftrightarrow> (sp_start a, sp_end a) \<le> (sp_start b, sp_end b)"

definition less_byte_span :: "byte_span \<Rightarrow> byte_span \<Rightarrow> bool" where
  "a < b \<longleftrightarrow> (sp_start a, sp_end a) < (sp_start b, sp_end b)"

instance
proof
  fix a b c :: byte_span
  show "a < b \<longleftrightarrow> a \<le> b \<and> \<not> b \<le> a"
    unfolding less_eq_byte_span_def less_byte_span_def by (rule less_le_not_le)
  show "a \<le> a"
    unfolding less_eq_byte_span_def by (rule order_refl)
  show "a \<le> b \<or> b \<le> a"
    unfolding less_eq_byte_span_def by (rule linear)
  show "a \<le> b \<Longrightarrow> b \<le> c \<Longrightarrow> a \<le> c"
    unfolding less_eq_byte_span_def by (rule order_trans)
  show "a \<le> b \<Longrightarrow> b \<le> a \<Longrightarrow> a = b"
    unfolding less_eq_byte_span_def by (drule (1) antisym) (simp add: byte_span.expand)
qed

end

lemma byte_span_le_start: "s \<le> t \<Longrightarrow> sp_start s \<le> sp_start t" for s t :: byte_span
  by (auto simp: less_eq_byte_span_def)

definition byte_span_new :: "nat \<Rightarrow> nat \<Rightarrow> byte_span option" where
  "byte_span_new a b = (if a < b then Some (Span a b) else None)"

definition overlaps :: "byte_span \<Rightarrow> byte_span \<Rightarrow> bool" where
  "overlaps l r \<longleftrightarrow> sp_start l < sp_end r \<and> sp_start r < sp_end l"

section \<open>Merging\<close>

fun merge_loop :: "byte_span list \<Rightarrow> byte_span list \<Rightarrow> byte_span list" where
  "merge_loop merged [] = merged"
| "merge_loop merged (s # ss) =
     merge_loop
       (if merged \<noteq> [] \<and> sp_start s \<le> sp_end (last merged)
        then butlast merged @ [Span (sp_start (last merged)) (max (sp_end (last merged)) (sp_end s))]
        else merged @ [s]) ss"

definition merge_spans :: "byte_span list \<Rightarrow> byte_span list" where
  "merge_spans spans = merge_loop [] (sort spans)"

fun merge_rec :: "byte_span list \<Rightarrow> byte_span list" where
  "merge_rec [] = []"
| "merge_rec [s] = [s]"
| "merge_rec (s # t # ss) =
     (if sp_start t \<le> sp_end s
      then merge_rec (Span (sp_start s) (max (sp_end s) (sp_end t)) # ss)
      else s # merge_rec (t # ss))"

lemma merge_loop_snoc: "merge_loop (acc @ [s]) ss = acc @ merge_rec (s # ss)"
proof (induction ss arbitrary: acc s)
  case Nil
  then show ?case by simp
next
  case (Cons t ss)
  show ?case
  proof (cases "sp_start t \<le> sp_end s")
    case True
    then show ?thesis
      using Cons.IH [of acc "Span (sp_start s) (max (sp_end s) (sp_end t))"] by simp
  next
    case False
    then show ?thesis
      using Cons.IH [of "acc @ [s]" t] by simp
  qed
qed

lemma merge_loop_eq: "merge_loop [] ss = merge_rec ss"
proof (cases ss)
  case (Cons s ss')
  then show ?thesis using merge_loop_snoc [of "[]" s ss'] by simp
qed simp

lemma merge_spans_eq: "merge_spans ss = merge_rec (sort ss)"
  by (simp add: merge_spans_def merge_loop_eq)

lemma merge_spans_Nil [simp]: "merge_spans [] = []"
  by (simp add: merge_spans_eq)

text \<open>The bytes a list of spans covers.\<close>

definition covers :: "byte_span list \<Rightarrow> nat \<Rightarrow> bool" where
  "covers ss i \<longleftrightarrow> (\<exists>s \<in> set ss. sp_start s \<le> i \<and> i < sp_end s)"

lemma covers_simps [simp]:
  "\<not> covers [] i"
  "covers (s # ss) i \<longleftrightarrow> sp_start s \<le> i \<and> i < sp_end s \<or> covers ss i"
  "covers (ss @ ts) i \<longleftrightarrow> covers ss i \<or> covers ts i"
  by (auto simp: covers_def)

lemma covers_set_cong: "set ss = set ts \<Longrightarrow> covers ss i = covers ts i"
  by (simp add: covers_def)

definition starts_sorted :: "byte_span list \<Rightarrow> bool" where
  "starts_sorted ss \<longleftrightarrow> sorted (map sp_start ss)"

definition separated :: "byte_span list \<Rightarrow> bool" where
  "separated ss \<longleftrightarrow> sorted_wrt (\<lambda>s t. sp_end s < sp_start t) ss"

lemma sorted_starts_sorted: "sorted ss \<Longrightarrow> starts_sorted ss"
  unfolding starts_sorted_def sorted_map
  by (erule sorted_wrt_mono_rel [rotated]) (rule byte_span_le_start)

lemma sort_starts_sorted: "starts_sorted (sort ss)"
  by (rule sorted_starts_sorted [OF sorted_sort])

lemma merge_rec_covers: "starts_sorted ss \<Longrightarrow> covers (merge_rec ss) i = covers ss i"
  by (induction ss rule: merge_rec.induct) (auto simp: starts_sorted_def)

lemma merge_rec_start_ge:
  "starts_sorted ss \<Longrightarrow> ss \<noteq> [] \<Longrightarrow> s \<in> set (merge_rec ss) \<Longrightarrow> sp_start (hd ss) \<le> sp_start s"
  by (induction ss arbitrary: s rule: merge_rec.induct)
     (fastforce simp: starts_sorted_def split: if_splits)+

lemma merge_rec_separated: "starts_sorted ss \<Longrightarrow> separated (merge_rec ss)"
proof (induction ss rule: merge_rec.induct)
  case (3 s t ss)
  show ?case
  proof (cases "sp_start t \<le> sp_end s")
    case True
    with 3 show ?thesis by (auto simp: starts_sorted_def)
  next
    case False
    have st: "starts_sorted (t # ss)" using "3.prems" by (simp add: starts_sorted_def)
    have "\<forall>u \<in> set (merge_rec (t # ss)). sp_end s < sp_start u"
      using merge_rec_start_ge [OF st] False by fastforce
    with False "3.IH"(2) st show ?thesis by (simp add: separated_def)
  qed
qed (simp_all add: separated_def)

lemma merge_rec_starts_sorted: "starts_sorted ss \<Longrightarrow> starts_sorted (merge_rec ss)"
proof (induction ss rule: merge_rec.induct)
  case (3 s t ss)
  show ?case
  proof (cases "sp_start t \<le> sp_end s")
    case True
    with 3 show ?thesis by (auto simp: starts_sorted_def)
  next
    case False
    have st: "starts_sorted (t # ss)" using "3.prems" by (simp add: starts_sorted_def)
    have "\<forall>u \<in> set (merge_rec (t # ss)). sp_start s \<le> sp_start u"
      using merge_rec_start_ge [OF st] "3.prems" by (fastforce simp: starts_sorted_def)
    with False "3.IH"(2) st show ?thesis by (simp add: starts_sorted_def)
  qed
qed (simp_all add: starts_sorted_def)

text \<open>Separated spans are a fixed point of merging.\<close>

lemma merge_rec_separated_id: "separated ss \<Longrightarrow> merge_rec ss = ss"
  by (induction ss rule: merge_rec.induct) (auto simp: separated_def)

lemma merge_spans_covers [simp]: "covers (merge_spans ss) i = covers ss i"
  by (simp add: merge_spans_eq merge_rec_covers sort_starts_sorted covers_def)
     (metis covers_def merge_rec_covers set_sort sort_starts_sorted)

lemma merge_spans_separated: "separated (merge_spans ss)"
  by (simp add: merge_spans_eq merge_rec_separated sort_starts_sorted)

lemma merge_spans_starts_sorted: "starts_sorted (merge_spans ss)"
  by (simp add: merge_spans_eq merge_rec_starts_sorted sort_starts_sorted)

lemma merge_spans_perm: "mset ss = mset ts \<Longrightarrow> merge_spans ss = merge_spans ts"
  using sort_key_canonical [of ss ts "\<lambda>s. s"] by (simp add: merge_spans_eq)

text \<open>Every merged span starts where an original one starts, and ends where one ends.\<close>

lemma merge_rec_bounds:
  "s \<in> set (merge_rec ss) \<Longrightarrow>
     sp_start s \<in> sp_start ` set ss \<and> sp_end s \<in> sp_end ` set ss"
proof (induction ss arbitrary: s rule: merge_rec.induct)
  case (3 u t ss)
  show ?case
  proof (cases "sp_start t \<le> sp_end u")
    case True
    with "3.IH"(1) [OF True, of s] "3.prems" show ?thesis
      by (auto simp: max_def split: if_splits)
  next
    case False
    with "3.IH"(2) [OF False, of s] "3.prems" show ?thesis by auto
  qed
qed auto

lemma merge_spans_bounds:
  "s \<in> set (merge_spans ss) \<Longrightarrow>
     (\<exists>t \<in> set ss. sp_start s = sp_start t) \<and> (\<exists>t \<in> set ss. sp_end s = sp_end t)"
  using merge_rec_bounds [of s "sort ss"] by (auto simp: merge_spans_eq)

lemma merge_rec_nonempty_spans:
  "\<forall>s \<in> set ss. sp_start s < sp_end s \<Longrightarrow> s \<in> set (merge_rec ss) \<Longrightarrow> sp_start s < sp_end s"
  by (induction ss arbitrary: s rule: merge_rec.induct) (auto split: if_splits)

lemma merge_spans_nonempty_spans:
  "\<forall>s \<in> set ss. sp_start s < sp_end s \<Longrightarrow> s \<in> set (merge_spans ss) \<Longrightarrow> sp_start s < sp_end s"
  by (rule merge_rec_nonempty_spans [of "sort ss"]) (simp_all add: merge_spans_eq)

lemma merge_spans_Nil_iff [simp]: "merge_spans ss = [] \<longleftrightarrow> ss = []"
proof -
  have "merge_rec ts = [] \<longleftrightarrow> ts = []" for ts
    by (induction ts rule: merge_rec.induct) auto
  then show ?thesis by (simp add: merge_spans_eq) (metis length_0_conv length_sort)
qed

lemma merge_rec_ge:
  "u \<in> set (merge_rec ss) \<Longrightarrow> \<exists>x \<in> set ss. sp_start x = sp_start u \<and> sp_end x \<le> sp_end u"
proof (induction ss arbitrary: u rule: merge_rec.induct)
  case (3 s t ss)
  show ?case
  proof (cases "sp_start t \<le> sp_end s")
    case True
    with "3.IH"(1) [OF True, of u] "3.prems" show ?thesis by fastforce
  next
    case False
    with "3.IH"(2) [OF False, of u] "3.prems" show ?thesis by auto
  qed
qed auto

lemma merge_rec_sorted: "sorted ss \<Longrightarrow> sorted (merge_rec ss)"
proof (induction ss rule: merge_rec.induct)
  case (3 s t ss)
  show ?case
  proof (cases "sp_start t \<le> sp_end s")
    case True
    have st: "sorted ss" "\<forall>x \<in> set ss. s \<le> x \<and> t \<le> x" "sp_start s \<le> sp_start t"
      using "3.prems" by (auto dest: byte_span_le_start)
    then have "\<forall>x \<in> set ss. Span (sp_start s) (max (sp_end s) (sp_end t)) \<le> x"
      by (fastforce simp: less_eq_byte_span_def)
    with st(1) have "sorted (Span (sp_start s) (max (sp_end s) (sp_end t)) # ss)" by simp
    with True "3.IH"(1) show ?thesis by simp
  next
    case False
    have "s \<le> u" if u: "u \<in> set (merge_rec (t # ss))" for u
    proof -
      from merge_rec_ge [OF u] obtain x
        where x: "x \<in> set (t # ss)" "sp_start x = sp_start u" "sp_end x \<le> sp_end u" by blast
      then have "s \<le> x" using "3.prems" by auto
      with x show ?thesis by (auto simp: less_eq_byte_span_def)
    qed
    with False "3.IH"(2) "3.prems" show ?thesis by simp
  qed
qed auto

lemma merge_spans_sorted: "sorted (merge_spans ss)"
  by (simp add: merge_spans_eq merge_rec_sorted)

lemma merge_spans_idem: "merge_spans (merge_spans ss) = merge_spans ss"
  by (simp add: merge_spans_eq [of "merge_spans ss"] sort_key_id_if_sorted merge_spans_sorted
      merge_rec_separated_id merge_spans_separated)

section \<open>Spans of a string\<close>

definition valid_span :: "rstr \<Rightarrow> byte_span \<Rightarrow> bool" where
  "valid_span s x \<longleftrightarrow> sp_start x < sp_end x \<and> is_char_boundary s (sp_start x) \<and> is_char_boundary s (sp_end x)"

lemma valid_span_merge:
  assumes "\<forall>x \<in> set ss. valid_span s x" "y \<in> set (merge_spans ss)"
  shows "valid_span s y"
  using merge_spans_bounds [OF assms(2)] merge_spans_nonempty_spans [of ss y] assms
  by (auto simp: valid_span_def)

lemma separated_append:
  "separated (xs @ ys) \<longleftrightarrow> separated xs \<and> separated ys \<and> (\<forall>x \<in> set xs. \<forall>y \<in> set ys. sp_end x < sp_start y)"
  by (simp add: separated_def sorted_wrt_append)

end
