(* ===== verification/Resolver.thy ===== *)
theory Resolver
  imports Spans
begin

text \<open>
  Resolution of one authority layer and composition of layers
  (\<open>src/content_policy/resolver.rs\<close>). \<open>resolve_scope\<close> folds the actions of the matched
  rules, in ascending rule id, into the delivery effects and the requested side effects;
  \<open>compose_delivery\<close> joins the layers of one delivery path.
\<close>

section \<open>Data\<close>

record matched_surface =
  ms_surface :: surface
  ms_spans :: "byte_span list"
  ms_pattern_ids :: "uuid list"

record matched_rule =
  mr_policy_id :: uuid
  mr_policy_version :: u64
  mr_scope :: policy_scope
  mr_rule_id :: uuid
  mr_rule_name :: rstr
  mr_custom_reason :: "rstr option"
  mr_surfaces :: "matched_surface list"
  mr_actions :: "policy_action list"

record effect_attribution =
  ea_policy_id :: uuid
  ea_policy_version :: u64
  ea_scope :: policy_scope
  ea_rule_id :: uuid
  ea_rule_name :: rstr
  ea_custom_reason :: "rstr option"

definition attribution_of :: "matched_rule \<Rightarrow> effect_attribution" where
  "attribution_of r =
     \<lparr>ea_policy_id = mr_policy_id r, ea_policy_version = mr_policy_version r,
      ea_scope = mr_scope r, ea_rule_id = mr_rule_id r, ea_rule_name = mr_rule_name r,
      ea_custom_reason = mr_custom_reason r\<rparr>"

record name_replacement =
  nr_replacement :: rstr
  nr_attribution :: effect_attribution

record delivery_effects =
  de_blocked_by :: "effect_attribution list"
  de_censor_spans :: "(surface, byte_span list) btree_map"
  de_strip_links :: bool
  de_suppress_links :: bool
  de_name_replacements :: "(surface, name_replacement) btree_map"

definition default_delivery :: delivery_effects where
  "default_delivery =
     \<lparr>de_blocked_by = [], de_censor_spans = [], de_strip_links = False,
      de_suppress_links = False, de_name_replacements = []\<rparr>"

definition is_blocked :: "delivery_effects \<Rightarrow> bool" where
  "is_blocked d \<longleftrightarrow> de_blocked_by d \<noteq> []"

record side_effect_request =
  se_action_type :: policy_action_type
  se_duration :: "u64 option"
  se_attribution :: effect_attribution

record resolved_scope_decision =
  rs_scope :: policy_scope
  rs_matched_rules :: "matched_rule list"
  rs_delivery :: delivery_effects
  rs_side_effects :: "side_effect_request list"

definition DEFAULT_SAFE_NAME :: rstr where
  "DEFAULT_SAFE_NAME = lit ''InterChat User''"

section \<open>Side effects\<close>

definition side_effect_family :: "policy_action_type \<Rightarrow> nat" where
  "side_effect_family a =
     (if a = Log then 0
      else if a \<in> {LobbyWarn, LobbyBan, Blacklist} then 1
      else if a \<in> {HubWarn, HubMute, HubBan} then 2 else 3)"

definition side_effect_strength :: "policy_action_type \<Rightarrow> nat" where
  "side_effect_strength a =
     (if a \<in> {LobbyWarn, HubWarn} then 1
      else if a \<in> {LobbyBan, HubMute} then 2
      else if a \<in> {Blacklist, HubBan} then 3 else 0)"

definition duration_or_0 :: "side_effect_request \<Rightarrow> u64" where
  "duration_or_0 r = (case se_duration r of None \<Rightarrow> 0 | Some d \<Rightarrow> d)"

definition select_strongest ::
  "side_effect_request option \<Rightarrow> side_effect_request \<Rightarrow> side_effect_request option" where
  "select_strongest slot candidate = (case slot of
       None \<Rightarrow> Some candidate
     | Some current \<Rightarrow>
         let cs = side_effect_strength (se_action_type candidate);
             us = side_effect_strength (se_action_type current)
         in if us < cs
              \<or> cs = us \<and> duration_or_0 current < duration_or_0 candidate
              \<or> cs = us \<and> se_duration candidate = se_duration current
                 \<and> ea_rule_id (se_attribution candidate) < ea_rule_id (se_attribution current)
            then Some candidate else Some current)"

type_synonym side_slots =
  "(uuid, side_effect_request) btree_map \<times> side_effect_request option \<times> side_effect_request option"

definition collect_side_effect :: "side_effect_request \<Rightarrow> side_slots \<Rightarrow> side_slots" where
  "collect_side_effect r slots = (case slots of (logs, glob, hb) \<Rightarrow>
     if se_action_type r = Log then (bt_or_insert (ea_rule_id (se_attribution r)) r logs, glob, hb)
     else if se_action_type r \<in> {LobbyWarn, LobbyBan, Blacklist}
       then (logs, select_strongest glob r, hb)
     else if se_action_type r \<in> {HubWarn, HubMute, HubBan}
       then (logs, glob, select_strongest hb r)
     else slots)"

definition option_list :: "'a option \<Rightarrow> 'a list" where
  "option_list x = (case x of None \<Rightarrow> [] | Some a \<Rightarrow> [a])"

definition strongest_side_effects :: "side_effect_request list \<Rightarrow> side_effect_request list" where
  "strongest_side_effects requests =
     (case fold collect_side_effect requests ([], None, None) of (logs, glob, hb) \<Rightarrow>
        sort_key (\<lambda>r. (side_effect_family (se_action_type r), ea_rule_id (se_attribution r)))
          (bt_values logs @ option_list glob @ option_list hb))"

section \<open>One layer\<close>

definition replacement_text :: "policy_scope \<Rightarrow> policy_action \<Rightarrow> rstr" where
  "replacement_text scope a = (case pa_replacement a of
       Some r \<Rightarrow> if sc_authority scope = AuthGlobal then r else DEFAULT_SAFE_NAME
     | None \<Rightarrow> DEFAULT_SAFE_NAME)"

definition add_censor_spans ::
  "matched_surface list \<Rightarrow> (surface, byte_span list) btree_map \<Rightarrow> (surface, byte_span list) btree_map" where
  "add_censor_spans surfaces m = fold (\<lambda>s. bt_extend (ms_surface s) (ms_spans s)) surfaces m"

definition add_name_replacements ::
  "name_replacement \<Rightarrow> matched_surface list \<Rightarrow> (surface, name_replacement) btree_map
     \<Rightarrow> (surface, name_replacement) btree_map" where
  "add_name_replacements n surfaces m =
     fold (\<lambda>s. bt_or_insert (ms_surface s) n) (filter (\<lambda>s. is_name (ms_surface s)) surfaces) m"

definition apply_action ::
  "policy_scope \<Rightarrow> matched_rule \<Rightarrow> policy_action
     \<Rightarrow> delivery_effects \<times> side_effect_request list \<Rightarrow> delivery_effects \<times> side_effect_request list" where
  "apply_action scope rule action acc = (case acc of (d, side) \<Rightarrow>
     (case pa_type action of
        Allow \<Rightarrow> (d, side)
      | Block \<Rightarrow> (d\<lparr>de_blocked_by := de_blocked_by d @ [attribution_of rule]\<rparr>, side)
      | CensorMatch \<Rightarrow>
          (d\<lparr>de_censor_spans := add_censor_spans (mr_surfaces rule) (de_censor_spans d)\<rparr>, side)
      | StripLink \<Rightarrow> (d\<lparr>de_strip_links := True\<rparr>, side)
      | SuppressLinks \<Rightarrow> (d\<lparr>de_suppress_links := True\<rparr>, side)
      | ReplaceName \<Rightarrow>
          (d\<lparr>de_name_replacements :=
               add_name_replacements
                 \<lparr>nr_replacement = replacement_text scope action,
                  nr_attribution = attribution_of rule\<rparr>
                 (mr_surfaces rule) (de_name_replacements d)\<rparr>, side)
      | action_type \<Rightarrow>
          (d, side @ [\<lparr>se_action_type = action_type, se_duration = pa_duration action,
                      se_attribution = attribution_of rule\<rparr>])))"

text \<open>Blocking wins over censoring; otherwise the spans of every surface are merged.\<close>

definition finish_delivery :: "delivery_effects \<Rightarrow> delivery_effects" where
  "finish_delivery d =
     (if is_blocked d then d\<lparr>de_censor_spans := []\<rparr>
      else d\<lparr>de_censor_spans := map (\<lambda>e. (fst e, merge_spans (snd e))) (de_censor_spans d)\<rparr>)"

definition fold_rules ::
  "policy_scope \<Rightarrow> matched_rule list
     \<Rightarrow> delivery_effects \<times> side_effect_request list \<Rightarrow> delivery_effects \<times> side_effect_request list" where
  "fold_rules scope rules acc =
     fold (\<lambda>rule. fold (apply_action scope rule) (mr_actions rule)) rules acc"

definition resolve_scope :: "policy_scope \<Rightarrow> matched_rule list \<Rightarrow> resolved_scope_decision" where
  "resolve_scope scope matched_rules =
     (let rules = sort_key mr_rule_id matched_rules;
          res = fold_rules scope rules (default_delivery, []);
          d = (fst res)\<lparr>de_blocked_by := sort_key ea_rule_id (de_blocked_by (fst res))\<rparr>
      in \<lparr>rs_scope = scope, rs_matched_rules = rules, rs_delivery = finish_delivery d,
          rs_side_effects = strongest_side_effects (snd res)\<rparr>)"

section \<open>Composition of layers\<close>

definition compose_layer :: "delivery_effects \<Rightarrow> delivery_effects \<Rightarrow> delivery_effects" where
  "compose_layer layer out =
     \<lparr>de_blocked_by = de_blocked_by out @ de_blocked_by layer,
      de_censor_spans =
        fold (\<lambda>e. bt_extend (fst e) (snd e)) (de_censor_spans layer) (de_censor_spans out),
      de_strip_links = (de_strip_links out \<or> de_strip_links layer),
      de_suppress_links = (de_suppress_links out \<or> de_suppress_links layer),
      de_name_replacements =
        fold (\<lambda>e. bt_or_insert (fst e) (snd e)) (de_name_replacements layer)
          (de_name_replacements out)\<rparr>"

definition compose_delivery :: "delivery_effects list \<Rightarrow> delivery_effects" where
  "compose_delivery layers =
     (let out = fold compose_layer layers default_delivery
      in finish_delivery
           (out\<lparr>de_blocked_by :=
                  sort_key (\<lambda>i. (precedence (sc_authority (ea_scope i)), ea_policy_id i, ea_rule_id i))
                    (de_blocked_by out)\<rparr>))"

lemma sort_key_Nil_iff: "sort_key f xs = [] \<longleftrightarrow> xs = []"
  by (metis length_0_conv length_sort)

section \<open>Lemmas on the folds\<close>

definition spans_at :: "surface \<Rightarrow> (surface, byte_span list) btree_map \<Rightarrow> byte_span list" where
  "spans_at s m = (case map_of m s of None \<Rightarrow> [] | Some ss \<Rightarrow> ss)"

lemma spans_at_Nil [simp]: "spans_at s [] = []"
  by (simp add: spans_at_def)

lemma spans_at_extend [simp]:
  "bt_wf m \<Longrightarrow> spans_at s (bt_extend k vs m) = spans_at s m @ (if s = k then vs else [])"
  by (auto simp: spans_at_def split: option.splits)

lemma spans_at_map: "spans_at s (map (\<lambda>e. (fst e, merge_spans (snd e))) m) = merge_spans (spans_at s m)"
proof -
  have "map_of (map (\<lambda>e. (fst e, merge_spans (snd e))) m) s = map_option merge_spans (map_of m s)"
    by (induction m) auto
  then show ?thesis by (simp add: spans_at_def split: option.splits)
qed

definition surfaces_spans :: "surface \<Rightarrow> matched_surface list \<Rightarrow> byte_span list" where
  "surfaces_spans s ms = concat (map ms_spans (filter (\<lambda>m. ms_surface m = s) ms))"

lemma add_censor_spans_wf: "bt_wf m \<Longrightarrow> bt_wf (add_censor_spans ms m)"
  unfolding add_censor_spans_def by (induction ms arbitrary: m) auto

lemma spans_at_add_censor:
  "bt_wf m \<Longrightarrow> spans_at s (add_censor_spans ms m) = spans_at s m @ surfaces_spans s ms"
  unfolding add_censor_spans_def surfaces_spans_def
  by (induction ms arbitrary: m) auto

lemma add_name_replacements_wf: "bt_wf m \<Longrightarrow> bt_wf (add_name_replacements n ms m)"
  unfolding add_name_replacements_def by (induction ms arbitrary: m) auto

text \<open>The nested loops over rules and their actions are one fold over the pairs.\<close>

definition rule_actions :: "matched_rule list \<Rightarrow> (matched_rule \<times> policy_action) list" where
  "rule_actions rules = concat (map (\<lambda>r. map (Pair r) (mr_actions r)) rules)"

lemma fold_rules_pairs:
  "fold_rules scope rules acc = fold (\<lambda>(r, a). apply_action scope r a) (rule_actions rules) acc"
proof -
  have "fold (apply_action scope r) as acc = fold (\<lambda>(r, a). apply_action scope r a) (map (Pair r) as) acc"
    for r as acc
    by (induction as arbitrary: acc) auto
  then show ?thesis
    unfolding fold_rules_def rule_actions_def by (induction rules arbitrary: acc) auto
qed

lemma set_rule_actions: "(r, a) \<in> set (rule_actions rules) \<longleftrightarrow> r \<in> set rules \<and> a \<in> set (mr_actions r)"
  by (auto simp: rule_actions_def)

text \<open>What each component of the accumulator is after a run of actions.\<close>

abbreviation run_pairs where
  "run_pairs scope ps acc \<equiv> fold (\<lambda>(r, a). apply_action scope r a) ps acc"

lemma apply_action_fields:
  "de_blocked_by (fst (apply_action scope r a acc)) =
     de_blocked_by (fst acc) @ (if pa_type a = Block then [attribution_of r] else [])"
  "de_strip_links (fst (apply_action scope r a acc)) \<longleftrightarrow>
     de_strip_links (fst acc) \<or> pa_type a = StripLink"
  "de_suppress_links (fst (apply_action scope r a acc)) \<longleftrightarrow>
     de_suppress_links (fst acc) \<or> pa_type a = SuppressLinks"
  "de_censor_spans (fst (apply_action scope r a acc)) =
     (if pa_type a = CensorMatch then add_censor_spans (mr_surfaces r) (de_censor_spans (fst acc))
      else de_censor_spans (fst acc))"
  "snd (apply_action scope r a acc) = snd acc @
     (if is_side_effect (pa_type a)
      then [\<lparr>se_action_type = pa_type a, se_duration = pa_duration a, se_attribution = attribution_of r\<rparr>]
      else [])"
  by (cases acc; cases "pa_type a"; simp add: apply_action_def is_side_effect_def is_delivery_def)+

lemma run_pairs_blocked_by:
  "de_blocked_by (fst (run_pairs scope ps acc)) =
     de_blocked_by (fst acc) @ map (\<lambda>p. attribution_of (fst p)) (filter (\<lambda>p. pa_type (snd p) = Block) ps)"
  by (induction ps arbitrary: acc) (auto simp: apply_action_fields split_beta)

lemma run_pairs_links:
  "de_strip_links (fst (run_pairs scope ps acc)) \<longleftrightarrow>
     de_strip_links (fst acc) \<or> (\<exists>p \<in> set ps. pa_type (snd p) = StripLink)"
  "de_suppress_links (fst (run_pairs scope ps acc)) \<longleftrightarrow>
     de_suppress_links (fst acc) \<or> (\<exists>p \<in> set ps. pa_type (snd p) = SuppressLinks)"
  by (induction ps arbitrary: acc) (auto simp: apply_action_fields split_beta)

lemma run_pairs_censor_wf:
  "bt_wf (de_censor_spans (fst acc)) \<Longrightarrow> bt_wf (de_censor_spans (fst (run_pairs scope ps acc)))"
  by (induction ps arbitrary: acc) (auto simp: apply_action_fields split_beta add_censor_spans_wf)

lemma run_pairs_censor:
  "bt_wf (de_censor_spans (fst acc)) \<Longrightarrow>
   spans_at s (de_censor_spans (fst (run_pairs scope ps acc))) =
     spans_at s (de_censor_spans (fst acc)) @
     concat (map (\<lambda>p. surfaces_spans s (mr_surfaces (fst p)))
       (filter (\<lambda>p. pa_type (snd p) = CensorMatch) ps))"
  by (induction ps arbitrary: acc)
     (auto simp: apply_action_fields split_beta add_censor_spans_wf spans_at_add_censor)

definition request_of :: "matched_rule \<times> policy_action \<Rightarrow> side_effect_request" where
  "request_of p = \<lparr>se_action_type = pa_type (snd p), se_duration = pa_duration (snd p),
     se_attribution = attribution_of (fst p)\<rparr>"

lemma run_pairs_side:
  "snd (run_pairs scope ps acc) =
     snd acc @ map request_of (filter (\<lambda>p. is_side_effect (pa_type (snd p))) ps)"
  by (induction ps arbitrary: acc) (auto simp: apply_action_fields split_beta request_of_def)

section \<open>The decision of a layer\<close>

lemma finish_delivery_fields [simp]:
  "de_blocked_by (finish_delivery d) = de_blocked_by d"
  "de_strip_links (finish_delivery d) = de_strip_links d"
  "de_suppress_links (finish_delivery d) = de_suppress_links d"
  "de_name_replacements (finish_delivery d) = de_name_replacements d"
  "is_blocked (finish_delivery d) = is_blocked d"
  by (simp_all add: finish_delivery_def is_blocked_def)

lemma finish_delivery_spans:
  "spans_at s (de_censor_spans (finish_delivery d)) =
     (if is_blocked d then [] else merge_spans (spans_at s (de_censor_spans d)))"
  by (simp add: finish_delivery_def spans_at_map)

definition has_action :: "policy_action_type \<Rightarrow> matched_rule list \<Rightarrow> bool" where
  "has_action t rules \<longleftrightarrow> (\<exists>r \<in> set rules. \<exists>a \<in> set (mr_actions r). pa_type a = t)"

lemma ex_rule_actions:
  "(\<exists>p \<in> set (rule_actions rules). pa_type (snd p) = t) \<longleftrightarrow> has_action t rules"
  by (fastforce simp: has_action_def rule_actions_def)

lemma has_action_sort [simp]: "has_action t (sort_key f rules) = has_action t rules"
  by (simp add: has_action_def)

lemma resolve_scope_fields:
  "rs_scope (resolve_scope scope rules) = scope"
  "rs_matched_rules (resolve_scope scope rules) = sort_key mr_rule_id rules"
  "is_blocked (rs_delivery (resolve_scope scope rules)) \<longleftrightarrow> has_action Block rules"
  "de_strip_links (rs_delivery (resolve_scope scope rules)) \<longleftrightarrow> has_action StripLink rules"
  "de_suppress_links (rs_delivery (resolve_scope scope rules)) \<longleftrightarrow> has_action SuppressLinks rules"
proof -
  let ?ps = "rule_actions (sort_key mr_rule_id rules)"
  have ex: "(\<exists>p \<in> set ?ps. pa_type (snd p) = t) \<longleftrightarrow> has_action t rules" for t
    by (simp add: ex_rule_actions)
  have "filter (\<lambda>p. pa_type (snd p) = Block) ?ps \<noteq> [] \<longleftrightarrow> has_action Block rules"
    using ex [of Block] by (simp add: filter_empty_conv)
  then show "is_blocked (rs_delivery (resolve_scope scope rules)) \<longleftrightarrow> has_action Block rules"
    by (simp add: resolve_scope_def Let_def is_blocked_def fold_rules_pairs run_pairs_blocked_by
        default_delivery_def sort_key_Nil_iff)
  show "de_strip_links (rs_delivery (resolve_scope scope rules)) \<longleftrightarrow> has_action StripLink rules"
    "de_suppress_links (rs_delivery (resolve_scope scope rules)) \<longleftrightarrow> has_action SuppressLinks rules"
    by (simp_all add: resolve_scope_def Let_def fold_rules_pairs run_pairs_links ex default_delivery_def)
qed (simp_all add: resolve_scope_def Let_def)

text \<open>A blocked layer censors nothing; an open one covers exactly the bytes its rules censor.\<close>

definition censored_at :: "surface \<Rightarrow> matched_rule list \<Rightarrow> nat \<Rightarrow> bool" where
  "censored_at s rules i \<longleftrightarrow>
     (\<exists>r \<in> set rules. (\<exists>a \<in> set (mr_actions r). pa_type a = CensorMatch) \<and>
        (\<exists>m \<in> set (mr_surfaces r). ms_surface m = s \<and> covers (ms_spans m) i))"

lemma covers_concat: "covers (concat sss) i \<longleftrightarrow> (\<exists>ss \<in> set sss. covers ss i)"
  by (auto simp: covers_def)

lemma covers_surfaces_spans:
  "covers (surfaces_spans s ms) i \<longleftrightarrow> (\<exists>m \<in> set ms. ms_surface m = s \<and> covers (ms_spans m) i)"
  by (auto simp: surfaces_spans_def covers_concat)

lemma resolve_scope_censor_blocked:
  "has_action Block rules \<Longrightarrow> de_censor_spans (rs_delivery (resolve_scope scope rules)) = []"
proof -
  assume b: "has_action Block rules"
  then have "is_blocked (rs_delivery (resolve_scope scope rules))"
    by (simp add: resolve_scope_fields)
  then show ?thesis
    by (simp add: resolve_scope_def Let_def) (simp add: finish_delivery_def)
qed

lemma resolve_scope_censor_spans:
  assumes "\<not> has_action Block rules"
  shows "spans_at s (de_censor_spans (rs_delivery (resolve_scope scope rules))) =
    merge_spans (concat (map (\<lambda>p. surfaces_spans s (mr_surfaces (fst p)))
       (filter (\<lambda>p. pa_type (snd p) = CensorMatch) (rule_actions (sort_key mr_rule_id rules)))))"
proof -
  have "\<not> is_blocked (rs_delivery (resolve_scope scope rules))"
    using assms by (simp add: resolve_scope_fields)
  then show ?thesis
    by (simp add: resolve_scope_def Let_def finish_delivery_spans fold_rules_pairs run_pairs_censor
        default_delivery_def)
qed

lemma resolve_scope_censor_open:
  assumes "\<not> has_action Block rules"
  shows "covers (spans_at s (de_censor_spans (rs_delivery (resolve_scope scope rules)))) i
           \<longleftrightarrow> censored_at s rules i"
    and "separated (spans_at s (de_censor_spans (rs_delivery (resolve_scope scope rules))))"
  using assms
  by (auto simp: resolve_scope_censor_spans merge_spans_separated covers_concat
      covers_surfaces_spans censored_at_def set_rule_actions)


section \<open>Side effects of a layer\<close>

definition punishment_key :: "side_effect_request \<Rightarrow> nat \<times> u64" where
  "punishment_key r = (side_effect_strength (se_action_type r), duration_or_0 r)"

definition in_family :: "nat \<Rightarrow> side_effect_request \<Rightarrow> bool" where
  "in_family f r \<longleftrightarrow> side_effect_family (se_action_type r) = f"

lemma select_strongest_cases:
  "\<exists>w. select_strongest slot r = Some w \<and> (w = r \<or> slot = Some w) \<and>
     punishment_key r \<le> punishment_key w \<and>
     (\<forall>c. slot = Some c \<longrightarrow> punishment_key c \<le> punishment_key w)"
  by (cases slot) (auto simp: select_strongest_def punishment_key_def Let_def duration_or_0_def)

lemma fold_select_strongest:
  "rs \<noteq> [] \<or> slot \<noteq> None \<Longrightarrow>
   \<exists>w. fold (\<lambda>r s. select_strongest s r) rs slot = Some w \<and>
     (w \<in> set rs \<or> slot = Some w) \<and>
     (\<forall>r \<in> set rs. punishment_key r \<le> punishment_key w) \<and>
     (\<forall>c. slot = Some c \<longrightarrow> punishment_key c \<le> punishment_key w)"
proof (induction rs arbitrary: slot)
  case Nil
  then show ?case by auto
next
  case (Cons r rs)
  obtain w where w: "select_strongest slot r = Some w" "w = r \<or> slot = Some w"
    "punishment_key r \<le> punishment_key w" "\<forall>c. slot = Some c \<longrightarrow> punishment_key c \<le> punishment_key w"
    using select_strongest_cases [of slot r] by blast
  from Cons.IH [of "Some w"] obtain v where
    v: "fold (\<lambda>r s. select_strongest s r) rs (Some w) = Some v" "v \<in> set rs \<or> w = v"
      "\<forall>r \<in> set rs. punishment_key r \<le> punishment_key v" "punishment_key w \<le> punishment_key v"
    by auto
  then show ?case
    using w by (intro exI [of _ v]) (auto intro: order_trans)
qed

definition log_entry ::
  "side_effect_request \<Rightarrow> (uuid, side_effect_request) btree_map \<Rightarrow> (uuid, side_effect_request) btree_map" where
  "log_entry r = bt_or_insert (ea_rule_id (se_attribution r)) r"

lemma collect_side_effect_family:
  "collect_side_effect r (logs, glob, hb) =
     (if in_family 0 r then log_entry r logs else logs,
      if in_family 1 r then select_strongest glob r else glob,
      if in_family 2 r then select_strongest hb r else hb)"
  by (cases "se_action_type r")
     (simp_all add: collect_side_effect_def in_family_def side_effect_family_def log_entry_def)

lemma fold_collect_side_effect:
  "fold collect_side_effect rs (logs, glob, hb) =
     (fold log_entry (filter (in_family 0) rs) logs,
      fold (\<lambda>r s. select_strongest s r) (filter (in_family 1) rs) glob,
      fold (\<lambda>r s. select_strongest s r) (filter (in_family 2) rs) hb)"
  by (induction rs arbitrary: logs glob hb) (auto simp: collect_side_effect_family)

lemma fold_log_entry_wf: "bt_wf m \<Longrightarrow> bt_wf (fold log_entry rs m)"
  by (induction rs arbitrary: m) (auto simp: log_entry_def)

lemma fold_log_entry_values:
  "bt_wf m \<Longrightarrow> set (bt_values (fold log_entry rs m)) \<subseteq> set (bt_values m) \<union> set rs"
proof (induction rs arbitrary: m)
  case Nil
  then show ?case by simp
next
  case (Cons r rs)
  have sub: "set (bt_values (log_entry r n)) \<subseteq> set (bt_values n) \<union> {r}" for n
    by (induction n) (auto simp: log_entry_def bt_or_insert_def bt_values_def)
  from Cons.prems have "bt_wf (log_entry r m)" by (simp add: log_entry_def)
  from Cons.IH [OF this] sub [of m] show ?case by auto
qed

lemma fold_log_entry_keys:
  "set (map fst (fold log_entry rs m)) =
     set (map fst m) \<union> (\<lambda>r. ea_rule_id (se_attribution r)) ` set rs"
  by (induction rs arbitrary: m)
     (auto simp: log_entry_def bt_or_insert_def set_bt_entry_keys simp del: set_map)

lemma fold_log_entry_keyed:
  "\<forall>e \<in> set m. fst e = ea_rule_id (se_attribution (snd e)) \<Longrightarrow>
   \<forall>e \<in> set (fold log_entry rs m). fst e = ea_rule_id (se_attribution (snd e))"
proof (induction rs arbitrary: m)
  case (Cons r rs)
  have "\<forall>e \<in> set (log_entry r n). fst e = ea_rule_id (se_attribution (snd e))"
    if "\<forall>e \<in> set n. fst e = ea_rule_id (se_attribution (snd e))" for n
    using that by (induction n) (auto simp: log_entry_def bt_or_insert_def)
  from Cons.IH [OF this [OF Cons.prems]] show ?case by simp
qed simp

lemma strongest_family_mset:
  assumes "f \<in> {0, 1, 2}"
  shows "mset (filter (in_family f) (strongest_side_effects rs)) =
    mset (if f = 0 then bt_values (fold log_entry (filter (in_family 0) rs) [])
          else option_list (fold (\<lambda>r s. select_strongest s r) (filter (in_family f) rs) None))"
proof -
  have sel: "filter (in_family g) (option_list (fold (\<lambda>r s. select_strongest s r) (filter (in_family h) rs) None)) =
     (if g = h then option_list (fold (\<lambda>r s. select_strongest s r) (filter (in_family h) rs) None) else [])"
    for g h
  proof (cases "filter (in_family h) rs = []")
    case False
    then obtain w where "fold (\<lambda>r s. select_strongest s r) (filter (in_family h) rs) None = Some w"
      "w \<in> set (filter (in_family h) rs)"
      using fold_select_strongest [of "filter (in_family h) rs" None] by auto
    then show ?thesis by (auto simp: option_list_def in_family_def)
  qed (simp add: option_list_def)
  have vals: "set (bt_values (fold log_entry (filter (in_family 0) rs) [])) \<subseteq> set (filter (in_family 0) rs)"
    using fold_log_entry_values [of "[]" "filter (in_family 0) rs"] by (simp add: bt_values_def)
  then have log: "filter (in_family g) (bt_values (fold log_entry (filter (in_family 0) rs) [])) =
     (if g = 0 then bt_values (fold log_entry (filter (in_family 0) rs) []) else [])" for g
    by (auto simp: filter_empty_conv filter_id_conv in_family_def)
  have "mset (filter (in_family f) (strongest_side_effects rs)) =
    mset (filter (in_family f) (bt_values (fold log_entry (filter (in_family 0) rs) [])
      @ option_list (fold (\<lambda>r s. select_strongest s r) (filter (in_family 1) rs) None)
      @ option_list (fold (\<lambda>r s. select_strongest s r) (filter (in_family 2) rs) None)))"
    by (simp add: strongest_side_effects_def fold_collect_side_effect)
  then show ?thesis
    using assms by (simp only: filter_append sel log) auto
qed

lemma strongest_punishment:
  assumes "f \<in> {1, 2}" and "r \<in> set rs" and "in_family f r"
  obtains w where "filter (in_family f) (strongest_side_effects rs) = [w]"
    "w \<in> set rs" "punishment_key r \<le> punishment_key w"
proof -
  have ne: "filter (in_family f) rs \<noteq> []" using assms by (auto simp: filter_empty_conv)
  then obtain w where w: "fold (\<lambda>r s. select_strongest s r) (filter (in_family f) rs) None = Some w"
    "w \<in> set (filter (in_family f) rs)" "\<forall>r \<in> set (filter (in_family f) rs). punishment_key r \<le> punishment_key w"
    using fold_select_strongest [of "filter (in_family f) rs" None] by auto
  have "mset (filter (in_family f) (strongest_side_effects rs)) = {#w#}"
    using strongest_family_mset [of f rs] assms(1) w(1) by (auto simp: option_list_def)
  then have "filter (in_family f) (strongest_side_effects rs) = [w]"
    by (simp del: mset_filter)
  then show thesis using that w assms by auto
qed

lemma strongest_logs:
  "(\<lambda>r. ea_rule_id (se_attribution r)) ` set (filter (in_family 0) (strongest_side_effects rs)) =
     (\<lambda>r. ea_rule_id (se_attribution r)) ` set (filter (in_family 0) rs)"
  "distinct (map (\<lambda>r. ea_rule_id (se_attribution r)) (filter (in_family 0) (strongest_side_effects rs)))"
proof -
  let ?logs = "fold log_entry (filter (in_family 0) rs) []"
  let ?out = "filter (in_family 0) (strongest_side_effects rs)"
  let ?id = "\<lambda>r. ea_rule_id (se_attribution r)"
  have m: "mset ?out = mset (bt_values ?logs)"
    using strongest_family_mset [of 0 rs] by simp
  have keyed: "map ?id (bt_values ?logs) = map fst ?logs"
    using fold_log_entry_keyed [of "[]" "filter (in_family 0) rs"]
    by (auto simp: bt_values_def)
  have "set (map ?id ?out) = set (map ?id (bt_values ?logs))"
    using m by (metis mset_map set_mset_mset)
  also have "\<dots> = ?id ` set (filter (in_family 0) rs)"
    using fold_log_entry_keys [of "filter (in_family 0) rs" "[]"] by (simp only: keyed) simp
  finally show "?id ` set ?out = ?id ` set (filter (in_family 0) rs)" by simp
  have "mset (map ?id ?out) = mset (map fst ?logs)"
    using m keyed by (metis mset_map)
  moreover have "distinct (map fst ?logs)"
    by (intro bt_wf_distinct fold_log_entry_wf) simp
  ultimately show "distinct (map ?id ?out)"
    by (metis mset_eq_imp_distinct_iff)
qed

section \<open>Composition\<close>

definition delivery_wf :: "delivery_effects \<Rightarrow> bool" where
  "delivery_wf d \<longleftrightarrow> bt_wf (de_censor_spans d) \<and> bt_wf (de_name_replacements d)"

lemma fold_bt_extend_wf:
  "bt_wf m \<Longrightarrow> bt_wf (fold (\<lambda>e. bt_extend (fst e) (snd e)) es m)"
  by (induction es arbitrary: m) auto

lemma fold_bt_or_insert_wf:
  "bt_wf m \<Longrightarrow> bt_wf (fold (\<lambda>e. bt_or_insert (fst e) (snd e)) es m)"
  by (induction es arbitrary: m) auto

lemma spans_at_fold_extend:
  "bt_wf m \<Longrightarrow> distinct (map fst es) \<Longrightarrow>
   spans_at s (fold (\<lambda>e. bt_extend (fst e) (snd e)) es m) = spans_at s m @ spans_at s es"
proof (induction es arbitrary: m)
  case (Cons e es)
  have "spans_at s es = []" if "s = fst e"
    using Cons.prems(2) that by (auto simp: spans_at_def map_of_eq_None_iff split: option.splits
        dest: map_of_SomeD) (metis image_eqI map_of_SomeD prod.sel(1))
  then show ?case
    using Cons by (auto simp: spans_at_def split: option.splits)
qed simp

lemma map_of_fold_or_insert:
  "bt_wf m \<Longrightarrow>
   map_of (fold (\<lambda>e. bt_or_insert (fst e) (snd e)) es m) k =
     (case map_of m k of Some v \<Rightarrow> Some v | None \<Rightarrow> map_of es k)"
  by (induction es arbitrary: m) (auto split: option.splits)

lemma compose_layer_wf: "delivery_wf out \<Longrightarrow> delivery_wf (compose_layer l out)"
  by (simp add: delivery_wf_def compose_layer_def fold_bt_extend_wf fold_bt_or_insert_wf)

lemma default_delivery_wf [simp]: "delivery_wf default_delivery"
  by (simp add: delivery_wf_def default_delivery_def)

lemma fold_compose_wf: "delivery_wf out \<Longrightarrow> delivery_wf (fold compose_layer ls out)"
  by (induction ls arbitrary: out) (auto simp: compose_layer_wf)

lemma fold_compose_fields:
  assumes "delivery_wf out" and "\<forall>l \<in> set ls. delivery_wf l"
  shows "is_blocked (fold compose_layer ls out) \<longleftrightarrow> is_blocked out \<or> (\<exists>l \<in> set ls. is_blocked l)"
    and "de_strip_links (fold compose_layer ls out) \<longleftrightarrow> de_strip_links out \<or> (\<exists>l \<in> set ls. de_strip_links l)"
    and "de_suppress_links (fold compose_layer ls out) \<longleftrightarrow>
           de_suppress_links out \<or> (\<exists>l \<in> set ls. de_suppress_links l)"
    and "map_of (de_name_replacements (fold compose_layer ls out)) s =
           (case map_of (de_name_replacements out) s of
              Some n \<Rightarrow> Some n
            | None \<Rightarrow> find_map (\<lambda>l. map_of (de_name_replacements l) s) ls)"
    and "spans_at s (de_censor_spans (fold compose_layer ls out)) =
           spans_at s (de_censor_spans out) @ concat (map (\<lambda>l. spans_at s (de_censor_spans l)) ls)"
    and "de_blocked_by (fold compose_layer ls out) = de_blocked_by out @ concat (map de_blocked_by ls)"
proof -
  note wf = compose_layer_wf
  show "is_blocked (fold compose_layer ls out) \<longleftrightarrow> is_blocked out \<or> (\<exists>l \<in> set ls. is_blocked l)"
    by (induction ls arbitrary: out) (auto simp: compose_layer_def is_blocked_def)
  show "de_strip_links (fold compose_layer ls out) \<longleftrightarrow> de_strip_links out \<or> (\<exists>l \<in> set ls. de_strip_links l)"
    by (induction ls arbitrary: out) (auto simp: compose_layer_def)
  show "de_suppress_links (fold compose_layer ls out) \<longleftrightarrow>
           de_suppress_links out \<or> (\<exists>l \<in> set ls. de_suppress_links l)"
    by (induction ls arbitrary: out) (auto simp: compose_layer_def)
  show "de_blocked_by (fold compose_layer ls out) = de_blocked_by out @ concat (map de_blocked_by ls)"
    by (induction ls arbitrary: out) (auto simp: compose_layer_def)
  show "map_of (de_name_replacements (fold compose_layer ls out)) s =
           (case map_of (de_name_replacements out) s of
              Some n \<Rightarrow> Some n
            | None \<Rightarrow> find_map (\<lambda>l. map_of (de_name_replacements l) s) ls)"
    using assms
  proof (induction ls arbitrary: out)
    case (Cons l ls)
    then show ?case
      using Cons.IH [OF wf [OF Cons.prems(1), of l]]
      by (auto simp: compose_layer_def map_of_fold_or_insert delivery_wf_def split: option.splits)
  qed (simp split: option.splits)
  show "spans_at s (de_censor_spans (fold compose_layer ls out)) =
           spans_at s (de_censor_spans out) @ concat (map (\<lambda>l. spans_at s (de_censor_spans l)) ls)"
    using assms
  proof (induction ls arbitrary: out)
    case (Cons l ls)
    then show ?case
      using Cons.IH [OF wf [OF Cons.prems(1), of l]]
      by (auto simp: compose_layer_def spans_at_fold_extend delivery_wf_def bt_wf_distinct)
  qed simp
qed

lemma finish_delivery_wf: "delivery_wf d \<Longrightarrow> delivery_wf (finish_delivery d)"
  by (auto simp: delivery_wf_def finish_delivery_def bt_wf_def o_def)

lemma delivery_wf_blocked_by [simp]: "delivery_wf (d\<lparr>de_blocked_by := bs\<rparr>) = delivery_wf d"
  by (simp add: delivery_wf_def)

lemma compose_delivery_wf: "delivery_wf (compose_delivery ls)"
  by (simp add: compose_delivery_def Let_def finish_delivery_wf fold_compose_wf)

lemma apply_action_wf: "delivery_wf (fst acc) \<Longrightarrow> delivery_wf (fst (apply_action scope r a acc))"
  by (cases acc; cases "pa_type a")
     (auto simp: apply_action_def delivery_wf_def add_censor_spans_wf add_name_replacements_wf)

lemma resolve_scope_wf: "delivery_wf (rs_delivery (resolve_scope scope rules))"
proof -
  have "delivery_wf (fst (run_pairs scope ps acc))" if "delivery_wf (fst acc)" for ps acc
    using that by (induction ps arbitrary: acc) (simp_all add: apply_action_wf split_beta)
  then show ?thesis
    by (simp add: resolve_scope_def Let_def finish_delivery_wf fold_rules_pairs)
qed

lemma compose_delivery_fields:
  assumes "\<forall>l \<in> set ls. delivery_wf l"
  shows "is_blocked (compose_delivery ls) \<longleftrightarrow> (\<exists>l \<in> set ls. is_blocked l)"
    and "de_strip_links (compose_delivery ls) \<longleftrightarrow> (\<exists>l \<in> set ls. de_strip_links l)"
    and "de_suppress_links (compose_delivery ls) \<longleftrightarrow> (\<exists>l \<in> set ls. de_suppress_links l)"
    and "map_of (de_name_replacements (compose_delivery ls)) s =
           find_map (\<lambda>l. map_of (de_name_replacements l) s) ls"
    and "\<not> (\<exists>l \<in> set ls. is_blocked l) \<Longrightarrow>
           spans_at s (de_censor_spans (compose_delivery ls)) =
             merge_spans (concat (map (\<lambda>l. spans_at s (de_censor_spans l)) ls))"
proof -
  note f = fold_compose_fields [OF default_delivery_wf assms]
  have b: "is_blocked (d\<lparr>de_blocked_by := sort_key f (de_blocked_by d)\<rparr>) = is_blocked d"
    for d :: delivery_effects and f :: "effect_attribution \<Rightarrow> nat \<times> uuid \<times> uuid"
    by (simp add: is_blocked_def sort_key_Nil_iff)
  show "is_blocked (compose_delivery ls) \<longleftrightarrow> (\<exists>l \<in> set ls. is_blocked l)"
    by (simp add: compose_delivery_def Let_def b f(1)) (simp add: is_blocked_def default_delivery_def)
  show "de_strip_links (compose_delivery ls) \<longleftrightarrow> (\<exists>l \<in> set ls. de_strip_links l)"
    "de_suppress_links (compose_delivery ls) \<longleftrightarrow> (\<exists>l \<in> set ls. de_suppress_links l)"
    by (simp_all add: compose_delivery_def Let_def f) (simp_all add: default_delivery_def)
  show "map_of (de_name_replacements (compose_delivery ls)) s =
           find_map (\<lambda>l. map_of (de_name_replacements l) s) ls"
    by (simp add: compose_delivery_def Let_def f) (simp add: default_delivery_def)
  assume "\<not> (\<exists>l \<in> set ls. is_blocked l)"
  then have "\<not> is_blocked (fold compose_layer ls default_delivery)"
    by (simp add: f(1)) (simp add: is_blocked_def default_delivery_def)
  then show "spans_at s (de_censor_spans (compose_delivery ls)) =
             merge_spans (concat (map (\<lambda>l. spans_at s (de_censor_spans l)) ls))"
    by (simp add: compose_delivery_def Let_def finish_delivery_spans b f(5))
       (simp add: default_delivery_def)
qed


section \<open>Properties\<close>

text \<open>
  The order of the matched rules has no meaning: two lists with the same rules, no rule
  id twice, resolve to the same decision.
\<close>

theorem resolve_scope_order_irrelevant:
  assumes "mset rules = mset rules'" and "distinct (map mr_rule_id rules)"
  shows "resolve_scope scope rules = resolve_scope scope rules'"
proof -
  have "sort_key mr_rule_id rules = sort_key mr_rule_id rules'"
    using assms by (intro sort_key_canonical inj_on_distinct_map)
  then show ?thesis by (simp add: resolve_scope_def)
qed

definition sample_rule :: "policy_scope \<Rightarrow> uuid \<Rightarrow> (policy_action_type \<times> u64 option) list \<Rightarrow> byte_span list \<Rightarrow> matched_rule" where
  "sample_rule scope i actions spans =
     \<lparr>mr_policy_id = 1, mr_policy_version = 3, mr_scope = scope, mr_rule_id = i,
      mr_rule_name = lit ''rule'', mr_custom_reason = None,
      mr_surfaces = [\<lparr>ms_surface = MessageContent, ms_spans = spans, ms_pattern_ids = []\<rparr>],
      mr_actions = map (\<lambda>a. \<lparr>pa_id = 10, pa_type = fst a, pa_duration = snd a, pa_replacement = None\<rparr>) actions\<rparr>"

theorem resolve_scope_order_irrelevant_witness:
  "resolve_scope (hub (lit ''hub''))
     [sample_rule (hub (lit ''hub'')) 4 [(HubMute, Some 60)] [Span 0 1],
      sample_rule (hub (lit ''hub'')) 3 [(CensorMatch, None)] [Span 2 5]] =
   resolve_scope (hub (lit ''hub''))
     [sample_rule (hub (lit ''hub'')) 3 [(CensorMatch, None)] [Span 2 5],
      sample_rule (hub (lit ''hub'')) 4 [(HubMute, Some 60)] [Span 0 1]]"
  by (rule resolve_scope_order_irrelevant) (simp_all add: sample_rule_def)

text \<open>
  A layer blocks exactly when one of its matched rules has a BLOCK action. Then it censors
  nothing; otherwise, on every surface, the spans it censors are disjoint, ascending and not
  touching, and cover exactly the bytes its CENSOR_MATCH rules matched.
\<close>

theorem resolve_scope_block_or_censor:
  "is_blocked (rs_delivery (resolve_scope scope rules)) = has_action Block rules \<and>
   (if has_action Block rules
    then de_censor_spans (rs_delivery (resolve_scope scope rules)) = []
    else separated (spans_at s (de_censor_spans (rs_delivery (resolve_scope scope rules)))) \<and>
         covers (spans_at s (de_censor_spans (rs_delivery (resolve_scope scope rules)))) i =
           censored_at s rules i)"
  by (simp add: resolve_scope_fields resolve_scope_censor_blocked resolve_scope_censor_open)

lemma resolve_scope_side_effects:
  "rs_side_effects (resolve_scope scope rules) =
     strongest_side_effects (map request_of
       (filter (\<lambda>p. is_side_effect (pa_type (snd p))) (rule_actions (sort_key mr_rule_id rules))))"
  by (simp add: resolve_scope_def Let_def fold_rules_pairs run_pairs_side)

text \<open>
  When a matched rule asks for a punishment of the global family (1) or of the Hub family
  (2), the decision carries exactly one punishment of that family; a matched rule asked for it,
  and none that was asked for is stronger, or equally strong and longer.
\<close>

theorem resolve_scope_strongest_punishment:
  assumes "f = 1 \<or> f = 2" and "rule \<in> set rules" and "action \<in> set (mr_actions rule)"
    and "side_effect_family (pa_type action) = f"
  shows "\<exists>w. filter (in_family f) (rs_side_effects (resolve_scope scope rules)) = [w] \<and>
    (\<exists>r \<in> set rules. \<exists>a \<in> set (mr_actions r). w = request_of (r, a)) \<and>
    punishment_key (request_of (rule, action)) \<le> punishment_key w"
proof -
  let ?rs = "map request_of (filter (\<lambda>p. is_side_effect (pa_type (snd p)))
      (rule_actions (sort_key mr_rule_id rules)))"
  have "is_side_effect (pa_type action)"
    using assms(1,4) by (cases "pa_type action")
      (auto simp: is_side_effect_def is_delivery_def side_effect_family_def)
  with assms(2,3) have mem: "request_of (rule, action) \<in> set ?rs"
    by (auto simp: set_rule_actions intro!: image_eqI)
  have fam: "in_family f (request_of (rule, action))"
    using assms(4) by (simp add: in_family_def request_of_def)
  from strongest_punishment [OF _ mem fam] assms(1) obtain w where
    w: "filter (in_family f) (strongest_side_effects ?rs) = [w]" "w \<in> set ?rs"
       "punishment_key (request_of (rule, action)) \<le> punishment_key w"
    by blast
  from w(2) have "\<exists>r \<in> set rules. \<exists>a \<in> set (mr_actions r). w = request_of (r, a)"
    by (auto simp: set_rule_actions) blast
  with w show ?thesis by (simp add: resolve_scope_side_effects)
qed

theorem resolve_scope_strongest_punishment_witness:
  "\<exists>w. filter (in_family 2) (rs_side_effects (resolve_scope (hub (lit ''h''))
       [sample_rule (hub (lit ''h'')) 3 [(HubWarn, None)] [],
        sample_rule (hub (lit ''h'')) 4 [(HubMute, Some 60)] []])) = [w] \<and>
     (2, 60) \<le> punishment_key w"
proof -
  let ?r = "sample_rule (hub (lit ''h'')) 4 [(HubMute, Some 60)] []"
  let ?a = "\<lparr>pa_id = 10, pa_type = HubMute, pa_duration = Some 60, pa_replacement = None\<rparr>"
  let ?rules = "[sample_rule (hub (lit ''h'')) 3 [(HubWarn, None)] [], ?r]"
  have key: "punishment_key (request_of (?r, ?a)) = (2, 60)"
    by (simp add: punishment_key_def request_of_def side_effect_strength_def duration_or_0_def)
  have "?a \<in> set (mr_actions ?r)" by (simp add: sample_rule_def)
  from resolve_scope_strongest_punishment [of 2 ?r ?rules, OF _ _ this, of "hub (lit ''h'')"] key
  show ?thesis by (auto simp: side_effect_family_def)
qed

text \<open>
  Adding lower layers never weakens what the higher layers decided: a block stays a block, link
  stripping and suppression stay on, a name replacement of a higher layer is kept as it is, and,
  unless the path is blocked, every byte censored by the higher layers stays censored.
\<close>

theorem compose_never_weakens:
  assumes "\<forall>l \<in> set (higher @ lower). delivery_wf l"
  shows "(is_blocked (compose_delivery higher) \<longrightarrow> is_blocked (compose_delivery (higher @ lower))) \<and>
    (de_strip_links (compose_delivery higher) \<longrightarrow> de_strip_links (compose_delivery (higher @ lower))) \<and>
    (de_suppress_links (compose_delivery higher) \<longrightarrow> de_suppress_links (compose_delivery (higher @ lower))) \<and>
    (map_of (de_name_replacements (compose_delivery higher)) s = Some n \<longrightarrow>
       map_of (de_name_replacements (compose_delivery (higher @ lower))) s = Some n) \<and>
    (\<not> is_blocked (compose_delivery (higher @ lower)) \<longrightarrow>
       covers (spans_at s (de_censor_spans (compose_delivery higher))) i \<longrightarrow>
       covers (spans_at s (de_censor_spans (compose_delivery (higher @ lower)))) i)"
proof -
  have fm: "find_map f xs = Some y \<Longrightarrow> find_map f (xs @ ys) = Some y" for f xs ys and y :: 'b
    by (induction xs) (auto split: option.splits)
  have "\<forall>l \<in> set higher. delivery_wf l" using assms by simp
  note h = compose_delivery_fields [OF this] and a = compose_delivery_fields [OF assms]
  show ?thesis
    by (auto simp: h(1-4) a(1-4) h(5) a(5) covers_concat fm simp del: split_paired_Ex)
qed

theorem compose_never_weakens_witness:
  "covers (spans_at MessageContent (de_censor_spans (compose_delivery
     [default_delivery\<lparr>de_censor_spans := [(MessageContent, [Span 1 4])]\<rparr>,
      default_delivery\<lparr>de_censor_spans := [(MessageContent, [Span 3 8])], de_suppress_links := True\<rparr>]))) 2"
proof -
  let ?g = "default_delivery\<lparr>de_censor_spans := [(MessageContent, [Span 1 4])]\<rparr>"
  let ?s = "default_delivery\<lparr>de_censor_spans := [(MessageContent, [Span 3 8])], de_suppress_links := True\<rparr>"
  have wf: "\<forall>l \<in> set ([?g] @ [?s]). delivery_wf l"
    by (simp add: delivery_wf_def default_delivery_def bt_wf_def)
  have "covers (spans_at MessageContent (de_censor_spans (compose_delivery [?g]))) 2"
    and "\<not> is_blocked (compose_delivery ([?g] @ [?s]))"
    by (simp_all add: compose_delivery_def compose_layer_def default_delivery_def finish_delivery_def
        is_blocked_def bt_extend_def spans_at_def merge_spans_def less_surface_def)
  then show ?thesis using compose_never_weakens [OF wf] by simp
qed

end
