(* ===== verification/Delivery.thy ===== *)
theory Delivery
  imports Resolver
begin

text \<open>
  Materialisation of a delivery variant (\<open>src/content_policy/delivery.rs\<close>): names are replaced
  or censored, the message is censored and, where the policy asks for it, its links are removed
  with the remaining censorship moved to the new byte offsets. Slicing a string off a character
  boundary and subtracting below zero panic in the code; here both are the error
  \<open>TransformPanic\<close>, which the lemmas show to be unreachable. SHA-256 is a parameter.
\<close>

section \<open>Data\<close>

record presentation =
  pn_message_content :: rstr
  pn_display_name :: rstr
  pn_username :: rstr
  pn_server_name :: rstr
  pn_hub_name :: rstr
  pn_url_spans :: "byte_span list"

fun presentation_surface :: "presentation \<Rightarrow> surface \<Rightarrow> rstr" where
  "presentation_surface p MessageContent = pn_message_content p"
| "presentation_surface p UrlDomain = pn_message_content p"
| "presentation_surface p DisplayName = pn_display_name p"
| "presentation_surface p Username = pn_username p"
| "presentation_surface p ServerName = pn_server_name p"
| "presentation_surface p HubName = pn_hub_name p"

record delivery_variant =
  dv_message_content :: rstr
  dv_display_name :: rstr
  dv_username :: rstr
  dv_server_name :: rstr
  dv_hub_name :: rstr
  dv_suppress_links :: bool
  dv_fingerprint :: "byte list"

datatype transformation_error =
    SpanOutOfBounds nat nat
  | InvalidCharacterBoundary nat nat
  | TransformPanic

section \<open>Censoring\<close>

fun validate_spans :: "rstr \<Rightarrow> byte_span list \<Rightarrow> transformation_error + unit" where
  "validate_spans original [] = Inr ()"
| "validate_spans original (s # ss) =
     (if sp_end s \<le> sp_start s \<or> byte_len original < sp_end s
      then Inl (SpanOutOfBounds (sp_start s) (sp_end s))
      else if \<not> is_char_boundary original (sp_start s) \<or> \<not> is_char_boundary original (sp_end s)
      then Inl (InvalidCharacterBoundary (sp_start s) (sp_end s))
      else validate_spans original ss)"

definition HASH :: rchar where
  "HASH = ch (CHR ''#'')"

definition censor_fragment :: "rstr \<Rightarrow> rstr" where
  "censor_fragment f =
     (if length f \<le> 2 then replicate (length f) HASH
      else hd f # replicate (length f - 2) HASH @ [last f])"

fun censor_loop :: "rstr \<Rightarrow> nat \<Rightarrow> rstr \<Rightarrow> byte_span list \<Rightarrow> transformation_error + rstr" where
  "censor_loop original cursor output [] =
     res_bind (ok_or TransformPanic (str_from original cursor)) (\<lambda>t. Inr (output @ t))"
| "censor_loop original cursor output (s # ss) =
     res_bind (ok_or TransformPanic (str_slice original cursor (sp_start s))) (\<lambda>gap.
     res_bind (ok_or TransformPanic (str_slice original (sp_start s) (sp_end s))) (\<lambda>fragment.
       censor_loop original (sp_end s) (output @ gap @ censor_fragment fragment) ss))"

definition censor_spans :: "rstr \<Rightarrow> byte_span list \<Rightarrow> transformation_error + rstr" where
  "censor_spans original spans =
     (let merged = merge_spans spans
      in res_bind (validate_spans original merged) (\<lambda>_. censor_loop original 0 [] merged))"

section \<open>Removing links\<close>

fun remove_loop :: "rstr \<Rightarrow> nat \<Rightarrow> rstr \<Rightarrow> byte_span list \<Rightarrow> transformation_error + rstr" where
  "remove_loop original cursor output [] =
     res_bind (ok_or TransformPanic (str_from original cursor)) (\<lambda>t. Inr (output @ t))"
| "remove_loop original cursor output (s # ss) =
     res_bind (ok_or TransformPanic (str_slice original cursor (sp_start s))) (\<lambda>gap.
       remove_loop original (sp_end s) (output @ gap) ss)"

definition removed_before :: "byte_span list \<Rightarrow> nat \<Rightarrow> nat" where
  "removed_before removals n =
     sum_list (map (\<lambda>r. sp_end r - sp_start r) (filter (\<lambda>r. sp_end r \<le> n) removals))"

definition usize_sub :: "nat \<Rightarrow> nat \<Rightarrow> nat option" where
  "usize_sub a b = (if b \<le> a then Some (a - b) else None)"

text \<open>\<open>Some None\<close>: the span is dropped; \<open>None\<close>: the subtraction underflows.\<close>

definition remap_censor :: "byte_span list \<Rightarrow> byte_span \<Rightarrow> byte_span option option" where
  "remap_censor removals s =
     (if \<exists>r \<in> set removals. overlaps s r then Some None
      else case (usize_sub (sp_start s) (removed_before removals (sp_start s)),
                 usize_sub (sp_end s) (removed_before removals (sp_end s))) of
             (Some a, Some b) \<Rightarrow> Some (byte_span_new a b)
           | _ \<Rightarrow> None)"

fun remap_censors :: "byte_span list \<Rightarrow> byte_span list \<Rightarrow> transformation_error + byte_span list" where
  "remap_censors removals [] = Inr []"
| "remap_censors removals (s # ss) =
     res_bind (ok_or TransformPanic (remap_censor removals s)) (\<lambda>x.
     res_bind (remap_censors removals ss) (\<lambda>xs. Inr (option_list x @ xs)))"

definition remove_spans_and_remap_censors ::
  "rstr \<Rightarrow> byte_span list \<Rightarrow> byte_span list \<Rightarrow> transformation_error + rstr \<times> byte_span list" where
  "remove_spans_and_remap_censors original removals censors =
     (let merged = merge_spans removals
      in res_bind (validate_spans original merged) (\<lambda>_.
         res_bind (remove_loop original 0 [] merged) (\<lambda>output.
         res_bind (remap_censors merged censors) (\<lambda>remapped. Inr (output, remapped)))))"

definition transform_or_reuse ::
  "rstr \<Rightarrow> byte_span list \<Rightarrow> bool \<Rightarrow> byte_span list \<Rightarrow> transformation_error + rstr" where
  "transform_or_reuse original censor strip_links url_spans =
     (if \<not> strip_links \<and> censor = [] then Inr original
      else if strip_links then
        res_bind (validate_spans original url_spans) (\<lambda>_.
        res_bind (validate_spans original censor) (\<lambda>_.
          let kept = filter (\<lambda>s. \<not> (\<exists>u \<in> set url_spans. overlaps s u)) censor;
              links = sort_key (\<lambda>s. - int (sp_start s)) url_spans
          in res_bind (censor_spans original kept) (\<lambda>censored.
             if links = [] then Inr censored
             else res_bind (remove_spans_and_remap_censors original links kept)
                    (\<lambda>(stripped, remapped). censor_spans stripped remapped))))
      else censor_spans original censor)"

section \<open>The variant\<close>

definition transformed_name ::
  "presentation \<Rightarrow> delivery_effects \<Rightarrow> surface \<Rightarrow> transformation_error + rstr" where
  "transformed_name canonical effects s =
     (case map_of (de_name_replacements effects) s of
        Some r \<Rightarrow> Inr (nr_replacement r)
      | None \<Rightarrow>
          let spans = spans_at s (de_censor_spans effects)
          in if spans = []
             then (case s of
                     DisplayName \<Rightarrow> Inr (pn_display_name canonical)
                   | Username \<Rightarrow> Inr (pn_username canonical)
                   | ServerName \<Rightarrow> Inr (pn_server_name canonical)
                   | HubName \<Rightarrow> Inr (pn_hub_name canonical)
                   | _ \<Rightarrow> Inl TransformPanic)
             else censor_spans (presentation_surface canonical s) spans)"

text \<open>\<open>(len as u64).to_be_bytes()\<close>.\<close>

definition be_bytes :: "nat \<Rightarrow> byte list" where
  "be_bytes n = map (\<lambda>i. n div 256 ^ (7 - i) mod 256) [0..<8]"

definition fingerprint_input ::
  "rstr \<Rightarrow> rstr \<Rightarrow> rstr \<Rightarrow> rstr \<Rightarrow> rstr \<Rightarrow> bool \<Rightarrow> byte list" where
  "fingerprint_input message display user serv hb suppress =
     concat (map (\<lambda>v. be_bytes (byte_len v) @ str_bytes v) [message, display, user, serv, hb])
       @ [if suppress then 1 else 0]"

definition variant_fingerprint ::
  "(byte list \<Rightarrow> byte list) \<Rightarrow> rstr \<Rightarrow> rstr \<Rightarrow> rstr \<Rightarrow> rstr \<Rightarrow> rstr \<Rightarrow> bool \<Rightarrow> byte list" where
  "variant_fingerprint sha256 message display user serv hb suppress =
     sha256 (fingerprint_input message display user serv hb suppress)"

definition materialize_variant ::
  "(byte list \<Rightarrow> byte list) \<Rightarrow> presentation \<Rightarrow> delivery_effects
     \<Rightarrow> transformation_error + delivery_variant" where
  "materialize_variant sha256 canonical effects =
     (let message_spans = spans_at MessageContent (de_censor_spans effects)
            @ (if de_strip_links effects then pn_url_spans canonical else [])
      in res_bind (transform_or_reuse (pn_message_content canonical) message_spans
                     (de_strip_links effects) (pn_url_spans canonical)) (\<lambda>message.
         res_bind (transformed_name canonical effects DisplayName) (\<lambda>display.
         res_bind (transformed_name canonical effects Username) (\<lambda>user.
         res_bind (transformed_name canonical effects ServerName) (\<lambda>serv.
         res_bind (transformed_name canonical effects HubName) (\<lambda>hb.
           Inr \<lparr>dv_message_content = message, dv_display_name = display, dv_username = user,
                dv_server_name = serv, dv_hub_name = hb,
                dv_suppress_links = de_suppress_links effects,
                dv_fingerprint = variant_fingerprint sha256 message display user serv hb
                                   (de_suppress_links effects)\<rparr>))))))"

section \<open>Grouping destinations\<close>

datatype policy_profile_key = ProfileKey (pk_version: u64) (pk_fingerprint: "byte list")

instantiation policy_profile_key :: linorder
begin

definition less_eq_policy_profile_key :: "policy_profile_key \<Rightarrow> policy_profile_key \<Rightarrow> bool" where
  "a \<le> b \<longleftrightarrow> (pk_version a, pk_fingerprint a) \<le> (pk_version b, pk_fingerprint b)"

definition less_policy_profile_key :: "policy_profile_key \<Rightarrow> policy_profile_key \<Rightarrow> bool" where
  "a < b \<longleftrightarrow> (pk_version a, pk_fingerprint a) < (pk_version b, pk_fingerprint b)"

instance
proof
  fix a b c :: policy_profile_key
  show "a < b \<longleftrightarrow> a \<le> b \<and> \<not> b \<le> a"
    unfolding less_eq_policy_profile_key_def less_policy_profile_key_def by (rule less_le_not_le)
  show "a \<le> a"
    unfolding less_eq_policy_profile_key_def by (rule order_refl)
  show "a \<le> b \<or> b \<le> a"
    unfolding less_eq_policy_profile_key_def by (rule linear)
  show "a \<le> b \<Longrightarrow> b \<le> c \<Longrightarrow> a \<le> c"
    unfolding less_eq_policy_profile_key_def by (rule order_trans)
  show "a \<le> b \<Longrightarrow> b \<le> a \<Longrightarrow> a = b"
    unfolding less_eq_policy_profile_key_def by (drule (1) antisym) (simp add: policy_profile_key.expand)
qed

end

definition group_destinations_by_profile ::
  "(policy_profile_key \<times> 't) list \<Rightarrow> (policy_profile_key, 't list) btree_map" where
  "group_destinations_by_profile ds = fold (\<lambda>(profile, d). bt_extend profile [d]) ds []"

definition group_destinations_by_variant ::
  "(delivery_variant \<times> 't) list \<Rightarrow> (byte list, delivery_variant \<times> 't list) btree_map" where
  "group_destinations_by_variant ds =
     fold (\<lambda>(v, d). bt_entry (dv_fingerprint v)
             (\<lambda>old. case old of None \<Rightarrow> (v, [d]) | Some (w, l) \<Rightarrow> (w, l @ [d]))) ds []"

section \<open>Slicing at valid spans\<close>

lemma validate_spans_ok_iff [simp]: "validate_spans s ss = Inr () \<longleftrightarrow> (\<forall>x \<in> set ss. valid_span s x)"
  by (induction ss) (auto simp: valid_span_def dest: is_char_boundary_le)

lemma validate_spans_no_panic [simp]: "validate_spans s ss \<noteq> Inl TransformPanic"
  by (induction ss) auto

text \<open>A valid span past the cursor cuts the rest of the string into gap, fragment and rest.\<close>

lemma valid_span_cut:
  assumes "valid_span (p @ t) x" "byte_len p \<le> sp_start x"
  obtains gap fr rest where "t = gap @ fr @ rest" "sp_start x = byte_len p + byte_len gap"
    "sp_end x = byte_len p + byte_len gap + byte_len fr" "fr \<noteq> []"
    "str_slice (p @ t) (byte_len p) (sp_start x) = Some gap"
    "str_slice (p @ t) (sp_start x) (sp_end x) = Some fr"
proof -
  have b: "is_char_boundary (p @ t) (sp_start x)" "is_char_boundary (p @ t) (sp_end x)"
    "is_char_boundary (p @ t) (byte_len p)" and lt: "sp_start x < sp_end x"
    using assms(1) by (auto simp: valid_span_def is_char_boundary_iff)
  from str_slice_ex [OF b(1,2)] lt obtain p1 fr rest where 1:
    "p @ t = p1 @ fr @ rest" "byte_len p1 = sp_start x" "byte_len (p1 @ fr) = sp_end x"
    "str_slice (p @ t) (sp_start x) (sp_end x) = Some fr" by auto
  from byte_prefix_le [OF 1(1)] assms(2) 1(2) obtain gap where 2: "p1 = p @ gap" "t = gap @ fr @ rest"
    by auto
  have "str_slice (p @ t) (byte_len p) (sp_start x) = Some gap"
    using 1 2 by (auto simp: str_slice_Some_iff)
  with 1 2 lt show thesis by (intro that [of gap fr rest]) auto
qed

section \<open>What censoring shows\<close>

text \<open>
  \<open>mask_ok ss (i, c) d\<close>: \<open>d\<close> is what may stand for the character \<open>c\<close> at byte \<open>i\<close> once
  the spans \<open>ss\<close> are censored: itself outside the spans, and a hash mark inside them where the
  bytes before and after it are covered as well.
\<close>

definition inside :: "byte_span list \<Rightarrow> nat \<Rightarrow> rchar \<Rightarrow> bool" where
  "inside ss i c \<longleftrightarrow> 0 < i \<and> covers ss (i - 1) \<and> covers ss i \<and> covers ss (i + utf8_width c)"

definition mask_ok :: "byte_span list \<Rightarrow> nat \<times> rchar \<Rightarrow> rchar \<Rightarrow> bool" where
  "mask_ok ss x d \<longleftrightarrow> (case x of (i, c) \<Rightarrow>
     if \<not> covers ss i then d = c else if inside ss i c then d = HASH else d = c \<or> d = HASH)"

lemma inside_covers: "inside ss i c \<Longrightarrow> covers ss i"
  by (simp add: inside_def)

lemma length_censor_fragment [simp]: "length (censor_fragment f) = length f"
  by (auto simp: censor_fragment_def)

lemma censor_fragment_nth:
  "k < length f \<Longrightarrow> censor_fragment f ! k = HASH \<or> (k = 0 \<or> k = length f - 1) \<and> censor_fragment f ! k = f ! k"
proof (cases "length f \<le> 2")
  case False
  assume k: "k < length f"
  have "last f = f ! (length f - 1)" "hd f = f ! 0"
    using False by (cases f; simp add: last_conv_nth)+
  moreover have "Suc m = length f - Suc 0" if "Suc m < length f" "\<not> m < length f - 2" for m
    using that by arith
  ultimately show ?thesis
    using False k by (auto simp: censor_fragment_def nth_Cons nth_append split: nat.splits)
qed (simp add: censor_fragment_def)

text \<open>The first and the last character of a fragment are at the edges of its span.\<close>

lemma not_inside_edges:
  assumes sep: "separated (pre @ x # ss)" and ne: "\<forall>y \<in> set (pre @ x # ss). sp_start y < sp_end y"
  shows "\<not> inside (pre @ x # ss) (sp_start x) c"
    and "i + utf8_width c = sp_end x \<Longrightarrow> \<not> inside (pre @ x # ss) i c"
proof -
  have "\<not> covers pre (sp_start x - 1)" if "0 < sp_start x"
    using sep that by (fastforce simp: covers_def separated_append)
  moreover have "\<not> covers ss (sp_start x - 1)" "\<not> covers ss (sp_end x)"
    using sep ne by (fastforce simp: covers_def separated_def sorted_wrt_append)+
  moreover have "\<not> covers pre (sp_end x)"
    using sep ne by (fastforce simp: covers_def separated_append)
  ultimately show "\<not> inside (pre @ x # ss) (sp_start x) c"
    and "i + utf8_width c = sp_end x \<Longrightarrow> \<not> inside (pre @ x # ss) i c"
    by (auto simp: inside_def)
qed

lemma fragment_mask_ok:
  assumes "separated (pre @ x # ss)" "\<forall>y \<in> set (pre @ x # ss). sp_start y < sp_end y"
    and "sp_end x = sp_start x + byte_len f"
  shows "list_all2 (mask_ok (pre @ x # ss)) (char_indices (sp_start x) f) (censor_fragment f)"
proof (rule list_all2_all_nthI)
  fix k assume "k < length (char_indices (sp_start x) f)"
  then have k: "k < length f" by simp
  let ?i = "sp_start x + byte_len (take k f)"
  have f: "f = take k f @ f ! k # drop (Suc k) f" using k by (simp add: id_take_nth_drop)
  have bl: "byte_len f = byte_len (take k f) + utf8_width (f ! k) + byte_len (drop (Suc k) f)"
    by (subst f) simp
  have cov: "covers (pre @ x # ss) ?i"
    using bl utf8_width_pos [of "f ! k"] by (simp add: assms(3) del: utf8_width_pos)
  have "\<not> inside (pre @ x # ss) ?i (f ! k)" if "k = 0 \<or> k = length f - 1"
    using that
  proof
    assume "k = 0"
    then show ?thesis using not_inside_edges(1) [OF assms(1,2)] by simp
  next
    assume "k = length f - 1"
    then have "drop (Suc k) f = []" using k by simp
    then have "?i + utf8_width (f ! k) = sp_end x" using bl assms(3) by simp
    then show ?thesis using not_inside_edges(2) [OF assms(1,2)] by blast
  qed
  with censor_fragment_nth [OF k] cov
  show "mask_ok (pre @ x # ss) (char_indices (sp_start x) f ! k) (censor_fragment f ! k)"
    using k by (auto simp: mask_ok_def char_indices_nth)
qed simp

lemma uncovered_mask_ok:
  assumes "\<And>i c. (i, c) \<in> set (char_indices off t) \<Longrightarrow> \<not> covers ss i"
  shows "list_all2 (mask_ok ss) (char_indices off t) t"
  using assms by (induction t arbitrary: off) (fastforce simp: mask_ok_def)+

lemma censor_loop_ok:
  assumes "\<forall>x \<in> set (pre @ ss). valid_span (p @ t) x" "separated (pre @ ss)"
    and "\<forall>x \<in> set pre. sp_end x \<le> byte_len p" "\<forall>x \<in> set ss. byte_len p \<le> sp_start x"
  shows "\<exists>r. censor_loop (p @ t) (byte_len p) out ss = Inr (out @ r)
           \<and> list_all2 (mask_ok (pre @ ss)) (char_indices (byte_len p) t) r"
  using assms
proof (induction ss arbitrary: pre p t out)
  case Nil
  have "str_from (p @ t) (byte_len p) = Some t" by (auto simp: str_from_Some_iff)
  moreover have "list_all2 (mask_ok pre) (char_indices (byte_len p) t) t"
    using Nil.prems(3) by (intro uncovered_mask_ok) (fastforce simp: covers_def dest: char_indices_bounds)
  ultimately show ?case by simp
next
  case (Cons x ss)
  have vx: "valid_span (p @ t) x" "byte_len p \<le> sp_start x" using Cons.prems by auto
  from valid_span_cut [OF vx] obtain gap fr rest where c: "t = gap @ fr @ rest"
    "sp_start x = byte_len p + byte_len gap" "sp_end x = byte_len p + byte_len gap + byte_len fr"
    "str_slice (p @ t) (byte_len p) (sp_start x) = Some gap"
    "str_slice (p @ t) (sp_start x) (sp_end x) = Some fr" by metis
  have later: "\<forall>y \<in> set ss. sp_end x < sp_start y"
    using Cons.prems(2) by (simp add: separated_def sorted_wrt_append)
  have ne: "\<forall>y \<in> set (pre @ x # ss). sp_start y < sp_end y"
    using Cons.prems(1) by (auto simp: valid_span_def)
  have gap: "list_all2 (mask_ok (pre @ x # ss)) (char_indices (byte_len p) gap) gap"
  proof (rule uncovered_mask_ok)
    fix i d assume "(i, d) \<in> set (char_indices (byte_len p) gap)"
    then have "byte_len p \<le> i" "i < sp_start x"
      using char_indices_bounds [of i d "byte_len p" gap] c(2) utf8_width_pos [of d] by linarith+
    then show "\<not> covers (pre @ x # ss) i"
      using Cons.prems(3) later vx ne by (fastforce simp: covers_def)
  qed
  have fr: "list_all2 (mask_ok (pre @ x # ss)) (char_indices (sp_start x) fr) (censor_fragment fr)"
    using fragment_mask_ok [OF Cons.prems(2) ne] c by simp
  have "\<exists>r. censor_loop ((p @ gap @ fr) @ rest) (byte_len (p @ gap @ fr)) (out @ gap @ censor_fragment fr) ss
          = Inr ((out @ gap @ censor_fragment fr) @ r)
        \<and> list_all2 (mask_ok ((pre @ [x]) @ ss)) (char_indices (byte_len (p @ gap @ fr)) rest) r"
    by (rule Cons.IH) (use Cons.prems c later ne in \<open>auto simp: less_imp_le\<close>)
  then obtain r where r: "censor_loop (p @ t) (sp_end x) (out @ gap @ censor_fragment fr) ss
      = Inr ((out @ gap @ censor_fragment fr) @ r)"
    "list_all2 (mask_ok (pre @ x # ss)) (char_indices (sp_end x) rest) r"
    using c by (auto simp: add.assoc)
  show ?case
    using c r gap fr by (intro exI [of _ "gap @ censor_fragment fr @ r"])
      (auto simp: ok_or_def add.assoc intro!: list_all2_appendI)
qed

lemma censor_loop_whole:
  assumes "\<forall>x \<in> set ss. valid_span s x" "separated ss"
  shows "\<exists>r. censor_loop s 0 [] ss = Inr r \<and> list_all2 (mask_ok ss) (char_indices 0 s) r"
  using censor_loop_ok [of "[]" ss "[]" s "[]"] assms by simp

lemma mask_ok_covers_cong:
  assumes "\<And>i. covers ss i = covers ts i" shows "mask_ok ss = mask_ok ts"
  using assms by (auto simp: fun_eq_iff mask_ok_def inside_def)

lemma censor_spans_ok:
  assumes "\<forall>x \<in> set ss. valid_span s x"
  shows "\<exists>r. censor_spans s ss = Inr r \<and> list_all2 (mask_ok ss) (char_indices 0 s) r"
proof -
  have v: "\<forall>x \<in> set (merge_spans ss). valid_span s x" using assms valid_span_merge by blast
  from censor_loop_whole [OF v merge_spans_separated] v show ?thesis
    by (simp add: censor_spans_def Let_def mask_ok_covers_cong [of "merge_spans ss" ss])
qed

lemma censor_spans_ok_merged:
  assumes "censor_spans s ss = Inr r"
  shows "list_all2 (mask_ok ss) (char_indices 0 s) r"
proof -
  have v: "\<forall>x \<in> set (merge_spans ss). valid_span s x"
    using assms by (auto simp: censor_spans_def Let_def)
  from censor_loop_whole [OF v merge_spans_separated] assms v show ?thesis
    by (simp add: censor_spans_def Let_def mask_ok_covers_cong [of "merge_spans ss" ss])
qed

lemma censor_spans_no_panic: "censor_spans s ss \<noteq> Inl TransformPanic"
proof (cases "\<forall>x \<in> set (merge_spans ss). valid_span s x")
  case True
  then have v: "validate_spans s (merge_spans ss) = Inr ()" by simp
  obtain r where "censor_loop s 0 [] (merge_spans ss) = Inr r"
    using censor_loop_whole [OF True merge_spans_separated] by blast
  then show ?thesis by (simp add: censor_spans_def Let_def v)
next
  case False
  then have "validate_spans s (merge_spans ss) \<noteq> Inr ()" by simp
  then obtain e where "validate_spans s (merge_spans ss) = Inl e" "e \<noteq> TransformPanic"
    by (metis validate_spans_no_panic sum.exhaust old.unit.exhaust)
  then show ?thesis by (simp add: censor_spans_def Let_def)
qed

section \<open>Removing links\<close>

text \<open>The bytes before \<open>n\<close> that no span covers: the offset \<open>n\<close> once the spans are removed.\<close>

definition visible :: "byte_span list \<Rightarrow> nat \<Rightarrow> nat" where
  "visible rs n = card {i. i < n \<and> \<not> covers rs i}"

definition keep :: "byte_span list \<Rightarrow> nat \<Rightarrow> rstr \<Rightarrow> rstr" where
  "keep rs off s = map snd (filter (\<lambda>x. \<not> covers rs (fst x)) (char_indices off s))"

lemma keep_simps [simp]:
  "keep rs off [] = []"
  "keep rs off (c # s) = (if covers rs off then [] else [c]) @ keep rs (off + utf8_width c) s"
  "keep rs off (s @ t) = keep rs off s @ keep rs (off + byte_len s) t"
  by (auto simp: keep_def)

lemma visible_0 [simp]: "visible rs 0 = 0"
  by (simp add: visible_def)

lemma visible_Suc: "visible rs (Suc n) = visible rs n + (if covers rs n then 0 else 1)"
proof -
  have "{i. i < Suc n \<and> \<not> covers rs i}
      = (if covers rs n then {i. i < n \<and> \<not> covers rs i} else insert n {i. i < n \<and> \<not> covers rs i})"
    by (auto simp: less_Suc_eq)
  then show ?thesis by (auto simp: visible_def)
qed

lemma visible_mono: "m \<le> n \<Longrightarrow> visible rs m \<le> visible rs n"
  by (auto simp: visible_def intro: card_mono)

lemma visible_less: "m < n \<Longrightarrow> \<not> covers rs m \<Longrightarrow> visible rs m < visible rs n"
  using visible_mono [of "Suc m" n rs] by (simp add: visible_Suc)

lemma visible_add:
  assumes "\<And>j. i \<le> j \<Longrightarrow> j < i + w \<Longrightarrow> covers rs j = b"
  shows "visible rs (i + w) = visible rs i + (if b then 0 else w)"
  using assms by (induction w) (auto simp: visible_Suc)

lemma removed_visible:
  assumes "separated rs" "\<forall>r \<in> set rs. sp_start r < sp_end r"
    and "\<forall>r \<in> set rs. \<not> (sp_start r < n \<and> n < sp_end r)"
  shows "removed_before rs n + visible rs n = n"
proof -
  have "removed_before rs n = card {i. i < n \<and> covers rs i}" using assms
  proof (induction rs)
    case (Cons r rs)
    have set: "{i. i < n \<and> covers (r # rs) i}
        = {i. i < n \<and> covers rs i} \<union> (if sp_end r \<le> n then {sp_start r..<sp_end r} else {})"
      using Cons.prems(2,3) by auto
    have disj: "{i. i < n \<and> covers rs i} \<inter> {sp_start r..<sp_end r} = {}"
      using Cons.prems(1) by (fastforce simp: separated_def covers_def)
    have "separated rs" using Cons.prems(1) by (simp add: separated_def)
    with Cons have "removed_before rs n = card {i. i < n \<and> covers rs i}" by simp
    moreover have "card {i. i < n \<and> covers (r # rs) i}
        = card {i. i < n \<and> covers rs i} + (if sp_end r \<le> n then sp_end r - sp_start r else 0)"
      unfolding set using disj by (simp add: card_Un_disjoint)
    ultimately show ?case by (simp add: removed_before_def)
  qed (simp add: removed_before_def)
  moreover have "card {i. i < n \<and> covers rs i} + card {i. i < n \<and> \<not> covers rs i} = card {i. i < n}"
  proof (subst card_Un_disjoint [symmetric])
    have "{i. i < n \<and> covers rs i} \<union> {i. i < n \<and> \<not> covers rs i} = {i. i < n}" by auto
    then show "card ({i. i < n \<and> covers rs i} \<union> {i. i < n \<and> \<not> covers rs i}) = card {i. i < n}" by simp
  qed auto
  ultimately show ?thesis by (simp add: visible_def)
qed

text \<open>Valid spans cover whole characters.\<close>

definition aligned :: "byte_span list \<Rightarrow> nat \<Rightarrow> rstr \<Rightarrow> bool" where
  "aligned rs off s \<longleftrightarrow> (\<forall>(i, c) \<in> set (char_indices off s).
     \<forall>j. i \<le> j \<and> j < i + utf8_width c \<longrightarrow> covers rs j = covers rs i)"

lemma aligned_Cons:
  "aligned rs off (c # s) \<longleftrightarrow>
     (\<forall>j. off \<le> j \<and> j < off + utf8_width c \<longrightarrow> covers rs j = covers rs off)
     \<and> aligned rs (off + utf8_width c) s"
  by (simp add: aligned_def)

lemma visible_char:
  "aligned rs off (c # s) \<Longrightarrow>
     visible rs (off + utf8_width c) = visible rs off + (if covers rs off then 0 else utf8_width c)"
  unfolding aligned_Cons by (rule visible_add) blast

lemma aligned_append:
  "aligned rs off (s @ t) \<longleftrightarrow> aligned rs off s \<and> aligned rs (off + byte_len s) t"
  by (simp add: aligned_def ball_Un)

lemma valid_aligned:
  assumes "\<forall>r \<in> set rs. valid_span s r"
  shows "aligned rs 0 s"
proof -
  have "covers rs j = covers rs i"
    if "(i, c) \<in> set (char_indices 0 s)" "i \<le> j" "j < i + utf8_width c" for i j c
  proof -
    have "sp_start r \<le> j \<and> j < sp_end r \<longleftrightarrow> sp_start r \<le> i \<and> i < sp_end r" if "r \<in> set rs" for r
      using boundary_outside_char [of s "sp_start r" i c] boundary_outside_char [of s "sp_end r" i c]
        assms \<open>r \<in> set rs\<close> \<open>(i, c) \<in> _\<close> \<open>i \<le> j\<close> \<open>j < _\<close> by (fastforce simp: valid_span_def)
    then show ?thesis by (auto simp: covers_def)
  qed
  then show ?thesis by (auto simp: aligned_def)
qed

lemma visible_keep:
  "aligned rs off s \<Longrightarrow> visible rs (off + byte_len s) = visible rs off + byte_len (keep rs off s)"
proof (induction s arbitrary: off)
  case (Cons c s)
  have "aligned rs (off + utf8_width c) s" using Cons.prems by (simp add: aligned_Cons)
  from Cons.IH [OF this] visible_char [OF Cons.prems] show ?case by (simp add: add.assoc)
qed simp

lemma char_indices_keep:
  "aligned rs off s \<Longrightarrow> char_indices (visible rs off) (keep rs off s)
     = map (\<lambda>x. (visible rs (fst x), snd x)) (filter (\<lambda>x. \<not> covers rs (fst x)) (char_indices off s))"
proof (induction s arbitrary: off)
  case (Cons c s)
  have "aligned rs (off + utf8_width c) s" using Cons.prems by (simp add: aligned_Cons)
  from Cons.IH [OF this] visible_char [OF Cons.prems] show ?case by auto
qed simp

lemma boundary_keep:
  assumes "aligned rs 0 s" "is_char_boundary s n"
  shows "is_char_boundary (keep rs 0 s) (visible rs n)"
proof -
  from assms(2) obtain a b where ab: "s = a @ b" "byte_len a = n" by (auto simp: is_char_boundary_iff)
  then have "visible rs n = byte_len (keep rs 0 a)"
    using visible_keep [of rs 0 a] assms(1) by (simp add: aligned_append)
  then show ?thesis using ab by (auto simp: is_char_boundary_iff)
qed

lemma keep_id: "(\<And>i. off \<le> i \<Longrightarrow> i < off + byte_len s \<Longrightarrow> \<not> covers rs i) \<Longrightarrow> keep rs off s = s"
  by (induction s arbitrary: off) (simp_all add: add.assoc)

lemma keep_none: "(\<And>i. off \<le> i \<Longrightarrow> i < off + byte_len s \<Longrightarrow> covers rs i) \<Longrightarrow> keep rs off s = []"
  by (induction s arbitrary: off) (simp_all add: add.assoc)

lemma remove_loop_ok:
  assumes "\<forall>x \<in> set (pre @ ss). valid_span (p @ t) x" "separated (pre @ ss)"
    and "\<forall>x \<in> set pre. sp_end x \<le> byte_len p" "\<forall>x \<in> set ss. byte_len p \<le> sp_start x"
  shows "remove_loop (p @ t) (byte_len p) out ss = Inr (out @ keep (pre @ ss) (byte_len p) t)"
  using assms
proof (induction ss arbitrary: pre p t out)
  case Nil
  have "str_from (p @ t) (byte_len p) = Some t" by (auto simp: str_from_Some_iff)
  moreover have "keep pre (byte_len p) t = t"
    using Nil.prems(3) by (intro keep_id) (fastforce simp: covers_def)
  ultimately show ?case by simp
next
  case (Cons x ss)
  have vx: "valid_span (p @ t) x" "byte_len p \<le> sp_start x" using Cons.prems by auto
  from valid_span_cut [OF vx] obtain gap fr rest where c: "t = gap @ fr @ rest"
    "sp_start x = byte_len p + byte_len gap" "sp_end x = byte_len p + byte_len gap + byte_len fr"
    "str_slice (p @ t) (byte_len p) (sp_start x) = Some gap" by metis
  have later: "\<forall>y \<in> set ss. sp_end x < sp_start y"
    using Cons.prems(2) by (simp add: separated_def sorted_wrt_append)
  have ne: "\<forall>y \<in> set (pre @ x # ss). sp_start y < sp_end y"
    using Cons.prems(1) by (auto simp: valid_span_def)
  have gap: "keep (pre @ x # ss) (byte_len p) gap = gap"
    using Cons.prems(3) later c(2) vx ne by (intro keep_id) (fastforce simp: covers_def)
  have fr: "keep (pre @ x # ss) (sp_start x) fr = []"
    using c(2,3) by (intro keep_none) auto
  have "remove_loop ((p @ gap @ fr) @ rest) (byte_len (p @ gap @ fr)) (out @ gap) ss
      = Inr ((out @ gap) @ keep ((pre @ [x]) @ ss) (byte_len (p @ gap @ fr)) rest)"
    by (rule Cons.IH) (use Cons.prems c later ne in \<open>auto simp: less_imp_le\<close>)
  with c gap fr show ?case by (auto simp: ok_or_def add.assoc)
qed

lemma remove_loop_whole:
  assumes "\<forall>x \<in> set ss. valid_span s x" "separated ss"
  shows "remove_loop s 0 [] ss = Inr (keep ss 0 s)"
  using remove_loop_ok [of "[]" ss "[]" s "[]"] assms by simp

text \<open>Spans that miss the removed ones move to the visible offsets of their ends.\<close>

definition moved :: "byte_span list \<Rightarrow> byte_span \<Rightarrow> byte_span" where
  "moved rs x = Span (visible rs (sp_start x)) (visible rs (sp_end x))"

definition misses :: "byte_span list \<Rightarrow> byte_span \<Rightarrow> bool" where
  "misses rs x \<longleftrightarrow> \<not> (\<exists>r \<in> set rs. overlaps x r)"

lemma misses_iff:
  assumes "sp_start x < sp_end x" "\<forall>r \<in> set rs. sp_start r < sp_end r"
  shows "misses rs x \<longleftrightarrow> (\<forall>i. sp_start x \<le> i \<and> i < sp_end x \<longrightarrow> \<not> covers rs i)"
proof
  assume "\<forall>i. sp_start x \<le> i \<and> i < sp_end x \<longrightarrow> \<not> covers rs i"
  moreover have "\<exists>i. sp_start x \<le> i \<and> i < sp_end x \<and> covers rs i" if "r \<in> set rs" "overlaps x r" for r
    using that assms by (intro exI [of _ "max (sp_start x) (sp_start r)"])
      (auto simp: overlaps_def covers_def intro!: bexI [of _ r])
  ultimately show "misses rs x" by (auto simp: misses_def)
qed (fastforce simp: misses_def overlaps_def covers_def)

lemma moved_nonempty:
  assumes "sp_start x < sp_end x" "\<forall>r \<in> set rs. sp_start r < sp_end r" "misses rs x"
  shows "sp_start (moved rs x) < sp_end (moved rs x)"
  using misses_iff [OF assms(1,2)] assms by (auto simp: moved_def intro: visible_less)

lemma remap_censor_ok:
  assumes "separated rs" "\<forall>r \<in> set rs. sp_start r < sp_end r" "sp_start x < sp_end x" "misses rs x"
  shows "remap_censor rs x = Some (Some (moved rs x))"
proof -
  have "\<forall>r \<in> set rs. \<not> (sp_start r < n \<and> n < sp_end r)" if "n = sp_start x \<or> n = sp_end x" for n
    using assms(3,4) that by (fastforce simp: misses_def overlaps_def)
  then have "removed_before rs n + visible rs n = n" if "n = sp_start x \<or> n = sp_end x" for n
    using that by (intro removed_visible assms(1,2)) blast
  from this [of "sp_start x"] this [of "sp_end x"]
  have "usize_sub (sp_start x) (removed_before rs (sp_start x)) = Some (visible rs (sp_start x))"
    "usize_sub (sp_end x) (removed_before rs (sp_end x)) = Some (visible rs (sp_end x))"
    by (auto simp: usize_sub_def)
  then show ?thesis
    using assms(4) moved_nonempty [OF assms(3,2,4)]
    by (auto simp: remap_censor_def misses_def byte_span_new_def moved_def)
qed

lemma remap_censors_ok:
  assumes "separated rs" "\<forall>r \<in> set rs. sp_start r < sp_end r"
    and "\<forall>x \<in> set cs. sp_start x < sp_end x \<and> misses rs x"
  shows "remap_censors rs cs = Inr (map (moved rs) cs)"
  using assms by (induction cs) (auto simp: remap_censor_ok ok_or_def option_list_def)

lemma moved_covers:
  assumes "\<not> covers rs i"
  shows "covers (map (moved rs) cs) (visible rs i) \<longleftrightarrow> covers cs i"
proof -
  have "visible rs a \<le> visible rs i \<longleftrightarrow> a \<le> i" for a
    using visible_mono [of a i rs] visible_less [OF _ assms, of a] by (meson leD not_less)
  moreover have "visible rs i < visible rs b \<longleftrightarrow> i < b" for b
    using visible_mono [of b i rs] visible_less [OF _ assms, of b] by (meson leD not_less)
  ultimately show ?thesis by (auto simp: covers_def moved_def)
qed

lemma moved_mask_ok:
  assumes al: "aligned rs 0 s" and ic: "(i, c) \<in> set (char_indices 0 s)" "\<not> covers rs i"
    and miss: "\<And>j. covers cs j \<Longrightarrow> \<not> covers rs j"
    and m: "mask_ok (map (moved rs) cs) (visible rs i, c) d"
  shows "mask_ok cs (i, c) d"
proof -
  have "inside (map (moved rs) cs) (visible rs i) c" if ins: "inside cs i c"
  proof -
    from ins have j: "0 < i" "\<not> covers rs (i - 1)" "\<not> covers rs (i + utf8_width c)"
      using miss by (auto simp: inside_def)
    from j(1,2) have 1: "visible rs i = Suc (visible rs (i - 1))"
      using visible_Suc [of rs "i - 1"] by simp
    have 2: "visible rs (i + utf8_width c) = visible rs i + utf8_width c"
    proof -
      have "covers rs k = False" if "i \<le> k" "k < i + utf8_width c" for k
        using al ic that unfolding aligned_def by blast
      from visible_add [OF this] show ?thesis by simp
    qed
    show ?thesis
      using ins moved_covers [OF j(2), of cs] moved_covers [OF j(3), of cs] moved_covers [OF ic(2), of cs] 1 2
      by (simp add: inside_def)
  qed
  with m moved_covers [OF ic(2), of cs] show ?thesis by (auto simp: mask_ok_def split: if_splits)
qed

definition strip_kept :: "byte_span list \<Rightarrow> byte_span list \<Rightarrow> byte_span list" where
  "strip_kept censor urls = filter (misses urls) censor"

lemma keep_covers_cong: "(\<And>i. covers rs i = covers qs i) \<Longrightarrow> keep rs off s = keep qs off s"
  by (simp add: keep_def)

lemma strip_ok:
  assumes urls: "\<forall>x \<in> set urls. valid_span s x" and cs: "\<forall>x \<in> set censor. valid_span s x"
  shows "\<exists>r. transform_or_reuse s censor True urls = Inr r \<and>
     list_all2 (mask_ok (strip_kept censor urls))
       (filter (\<lambda>x. \<not> covers urls (fst x)) (char_indices 0 s)) r"
proof -
  let ?kept = "strip_kept censor urls" and ?rs = "merge_spans urls"
  have kept: "\<forall>x \<in> set ?kept. valid_span s x \<and> misses urls x"
    using cs by (auto simp: strip_kept_def)
  have links: "merge_spans (sort_key (\<lambda>s. - int (sp_start s)) urls) = ?rs"
    by (rule merge_spans_perm) simp
  have v: "\<forall>x \<in> set ?rs. valid_span s x" using urls valid_span_merge by blast
  have ne: "\<forall>r \<in> set urls. sp_start r < sp_end r" "\<forall>r \<in> set ?rs. sp_start r < sp_end r"
    using urls v by (auto simp: valid_span_def)
  have al: "aligned ?rs 0 s" by (rule valid_aligned [OF v])
  have miss: "\<forall>x \<in> set ?kept. sp_start x < sp_end x \<and> misses ?rs x"
    using kept ne by (auto simp: misses_iff valid_span_def)
  have nocov: "\<not> covers urls j" if "covers ?kept j" for j
    using that kept by (auto simp: covers_def misses_def overlaps_def) (meson le_less_trans)
  from censor_spans_ok [of ?kept s] kept obtain r0 where
    r0: "censor_spans s ?kept = Inr r0" "list_all2 (mask_ok ?kept) (char_indices 0 s) r0" by blast
  have vm: "\<forall>x \<in> set (map (moved ?rs) ?kept). valid_span (keep ?rs 0 s) x"
    using kept miss moved_nonempty [OF _ ne(2)] boundary_keep [OF al]
    by (fastforce simp: valid_span_def moved_def)
  from censor_spans_ok [OF vm] obtain r where
    r: "censor_spans (keep ?rs 0 s) (map (moved ?rs) ?kept) = Inr r"
       "list_all2 (mask_ok (map (moved ?rs) ?kept)) (char_indices 0 (keep ?rs 0 s)) r" by blast
  have "remove_spans_and_remap_censors s (sort_key (\<lambda>s. - int (sp_start s)) urls) ?kept
      = Inr (keep ?rs 0 s, map (moved ?rs) ?kept)"
    using v ne miss by (simp add: remove_spans_and_remap_censors_def links Let_def
        remove_loop_whole merge_spans_separated remap_censors_ok)
  moreover have keptf: "filter (\<lambda>x. \<not> (\<exists>u \<in> set urls. overlaps x u)) censor = ?kept"
    by (simp add: strip_kept_def misses_def [abs_def])
  moreover have vu: "validate_spans s urls = Inr ()" and vc: "validate_spans s censor = Inr ()"
    using urls cs by simp_all
  ultimately have eq: "transform_or_reuse s censor True urls = Inr (if urls = [] then r0 else r)"
    using r0 r by (simp add: transform_or_reuse_def keptf vu vc Let_def sort_key_Nil_iff)
  have step: "mask_ok ?kept x d"
    if "x \<in> set (char_indices 0 s)" "\<not> covers urls (fst x)"
      "mask_ok (map (moved ?rs) ?kept) (visible ?rs (fst x), snd x) d" for x d
    using moved_mask_ok [OF al, of "fst x" "snd x" ?kept d] that nocov by auto
  have "list_all2 (mask_ok ?kept) (filter (\<lambda>x. \<not> covers urls (fst x)) (char_indices 0 s)) r"
    using r(2) by (simp add: char_indices_keep [OF al, simplified] list_all2_map1)
      (erule list.rel_mono_strong, auto intro: step)
  with eq r0 show ?thesis by auto
qed

section \<open>Fingerprints\<close>

text \<open>The length of a string fits \<open>u64\<close>, as it does on a 64-bit target.\<close>

definition fits_u64 :: "rstr \<Rightarrow> bool" where
  "fits_u64 s \<longleftrightarrow> byte_len s < 2 ^ 64"

lemma be_bytes_prefix:
  fixes n :: nat
  assumes "n < 2 ^ 64" "j \<le> 8"
  shows "foldl (\<lambda>a b. a * 256 + b) 0 (map (\<lambda>i. n div 256 ^ (7 - i) mod 256) [0..<j]) = n div 256 ^ (8 - j)"
  using assms(2)
proof (induction j)
  case 0
  then show ?case using assms(1) by simp
next
  case (Suc j)
  have "8 - j = Suc (7 - j)" using Suc.prems by arith
  then have "n div 256 ^ (8 - j) * 256 + n div 256 ^ (7 - j) mod 256 = n div 256 ^ (7 - j)"
    by (metis div_mult2_eq div_mult_mod_eq power_Suc2)
  with Suc show ?case by simp
qed

lemma be_bytes_decode: "n < 2 ^ 64 \<Longrightarrow> foldl (\<lambda>a b. a * 256 + b) 0 (be_bytes n) = n"
  using be_bytes_prefix [of n 8] by (simp add: be_bytes_def)

lemma be_bytes_inject: "m < 2 ^ 64 \<Longrightarrow> n < 2 ^ 64 \<Longrightarrow> be_bytes m = be_bytes n \<longleftrightarrow> m = n"
  by (metis be_bytes_decode)

lemma length_be_bytes [simp]: "length (be_bytes n) = 8"
  by (simp add: be_bytes_def)

lemma framed_cancel:
  assumes "fits_u64 s" "fits_u64 t"
    and "be_bytes (byte_len s) @ str_bytes s @ x = be_bytes (byte_len t) @ str_bytes t @ y"
  shows "s = t \<and> x = y"
proof -
  have "be_bytes (byte_len s) = be_bytes (byte_len t)" and r: "str_bytes s @ x = str_bytes t @ y"
    using assms(3) by (simp_all add: append_eq_append_conv)
  then have "byte_len s = byte_len t"
    using assms(1,2) be_bytes_inject by (simp add: fits_u64_def)
  then have "str_bytes s = str_bytes t" "x = y" using r by (simp_all add: append_eq_append_conv)
  then show ?thesis using str_bytes_inject by blast
qed

fun variant_surface :: "delivery_variant \<Rightarrow> surface \<Rightarrow> rstr" where
  "variant_surface v DisplayName = dv_display_name v"
| "variant_surface v Username = dv_username v"
| "variant_surface v ServerName = dv_server_name v"
| "variant_surface v HubName = dv_hub_name v"
| "variant_surface v _ = dv_message_content v"

definition names_of :: "surface list" where
  "names_of = [DisplayName, Username, ServerName, HubName]"

lemma transformed_name_no_panic:
  "is_name s \<Longrightarrow> transformed_name p e s \<noteq> Inl TransformPanic"
  by (cases s) (auto simp: transformed_name_def Let_def censor_spans_no_panic split: option.splits)

lemma transform_no_panic: "transform_or_reuse s cs strip urls \<noteq> Inl TransformPanic"
proof (cases "strip \<and> (\<forall>x \<in> set urls. valid_span s x) \<and> (\<forall>x \<in> set cs. valid_span s x)")
  case True
  then show ?thesis using strip_ok [of urls s cs] by auto
next
  case False
  have v: "validate_spans s ss = Inr () \<or> (\<exists>e. validate_spans s ss = Inl e \<and> e \<noteq> TransformPanic)" for ss
    using validate_spans_no_panic [of s ss] by (metis old.unit.exhaust sum.exhaust)
  show ?thesis
  proof (cases strip)
    case True
    with False have "validate_spans s urls \<noteq> Inr () \<or> validate_spans s cs \<noteq> Inr ()" by auto
    with v [of urls] v [of cs] True show ?thesis
      by (elim disjE exE conjE) (simp_all add: transform_or_reuse_def del: validate_spans_ok_iff)
  qed (simp add: transform_or_reuse_def censor_spans_no_panic)
qed

lemma materialize_variant_Inr:
  "materialize_variant sha p e = Inr v \<longleftrightarrow>
     transform_or_reuse (pn_message_content p)
       (spans_at MessageContent (de_censor_spans e) @ (if de_strip_links e then pn_url_spans p else []))
       (de_strip_links e) (pn_url_spans p) = Inr (dv_message_content v) \<and>
     (\<forall>s \<in> set names_of. transformed_name p e s = Inr (variant_surface v s)) \<and>
     dv_suppress_links v = de_suppress_links e \<and>
     dv_fingerprint v = variant_fingerprint sha (dv_message_content v) (dv_display_name v)
       (dv_username v) (dv_server_name v) (dv_hub_name v) (de_suppress_links e)"
  by (cases v) (auto simp: materialize_variant_def names_of_def Let_def)

text \<open>
  Whatever the presentation and the effects, materialising never
  slices a string off a character boundary, never subtracts below zero and never reaches the
  unreachable branch: it returns a variant or one of the two declared errors.
\<close>

theorem materialize_never_panics:
  "materialize_variant sha p e \<noteq> Inl TransformPanic"
  using transform_no_panic [of "pn_message_content p"] transformed_name_no_panic [of _ p e]
  by (auto simp: materialize_variant_def Let_def res_bind_Inl_iff)

text \<open>
  C26 [materialize_message]: When the URL spans and the censor spans of the message are valid, the
  message of every variant is the original character by character: with STRIP_LINK the characters
  of the URL spans are gone and the others stay in order; a character outside the censor spans
  (those not overlapping a removed URL) is unchanged, one inside is a hash mark, and only a
  character at the edge of a covered range may stay visible.
\<close>

theorem materialize_message:
  assumes "\<forall>x \<in> set (pn_url_spans p). valid_span (pn_message_content p) x"
    and "\<forall>x \<in> set (spans_at MessageContent (de_censor_spans e)). valid_span (pn_message_content p) x"
    and "materialize_variant sha p e = Inr v"
  shows "list_all2
           (mask_ok (if de_strip_links e
                     then strip_kept (spans_at MessageContent (de_censor_spans e)) (pn_url_spans p)
                     else spans_at MessageContent (de_censor_spans e)))
           (filter (\<lambda>x. de_strip_links e \<longrightarrow> \<not> covers (pn_url_spans p) (fst x))
              (char_indices 0 (pn_message_content p)))
           (dv_message_content v)"
proof -
  let ?cs = "spans_at MessageContent (de_censor_spans e)" and ?urls = "pn_url_spans p"
  let ?s = "pn_message_content p"
  have t: "transform_or_reuse ?s (?cs @ (if de_strip_links e then ?urls else [])) (de_strip_links e) ?urls
      = Inr (dv_message_content v)"
    using assms(3) by (simp add: materialize_variant_Inr)
  show ?thesis
  proof (cases "de_strip_links e")
    case True
    have "\<not> misses ?urls x" if "x \<in> set ?urls" for x
      using that assms(1) by (auto simp: misses_def overlaps_def valid_span_def)
    then have "strip_kept (?cs @ ?urls) ?urls = strip_kept ?cs ?urls"
      by (simp add: strip_kept_def filter_empty_conv)
    with strip_ok [of ?urls ?s "?cs @ ?urls"] assms(1,2) t True show ?thesis by auto
  next
    case False
    have "list_all2 (mask_ok []) (char_indices off s) s" for off s
      by (rule uncovered_mask_ok) simp
    with False t show ?thesis
      by (auto simp: transform_or_reuse_def censor_spans_ok_merged split: if_splits)
  qed
qed

definition sample_presentation :: presentation where
  "sample_presentation =
     \<lparr>pn_message_content = lit ''darn http://a.b darnit'', pn_display_name = lit ''bob'',
      pn_username = lit ''bob'', pn_server_name = lit ''srv'', pn_hub_name = lit ''hub'',
      pn_url_spans = [Span 5 15]\<rparr>"

definition sample_effects :: delivery_effects where
  "sample_effects =
     default_delivery\<lparr>de_censor_spans := [(MessageContent, [Span 0 4, Span 16 20])], de_strip_links := True\<rparr>"

theorem materialize_message_witness:
  "\<exists>v. materialize_variant (\<lambda>_. []) sample_presentation sample_effects = Inr v \<and>
     dv_message_content v = lit ''d##n  d##nit'' \<and>
     list_all2 (mask_ok [Span 0 4, Span 16 20])
       (filter (\<lambda>x. \<not> covers [Span 5 15] (fst x)) (char_indices 0 (lit ''darn http://a.b darnit'')))
       (dv_message_content v)"
proof -
  have "case materialize_variant (\<lambda>_. []) sample_presentation sample_effects of
      Inl _ \<Rightarrow> False | Inr v \<Rightarrow> dv_message_content v = lit ''d##n  d##nit''"
    by code_simp
  then obtain v where v: "materialize_variant (\<lambda>_. []) sample_presentation sample_effects = Inr v"
    "dv_message_content v = lit ''d##n  d##nit''" by (auto split: sum.splits)
  have k: "strip_kept [Span 0 4, Span 16 20] [Span 5 15] = [Span 0 4, Span 16 20]"
    by (simp add: strip_kept_def misses_def overlaps_def)
  have s: "spans_at MessageContent (de_censor_spans sample_effects) = [Span 0 4, Span 16 20]"
    "pn_url_spans sample_presentation = [Span 5 15]" "de_strip_links sample_effects"
    "pn_message_content sample_presentation = lit ''darn http://a.b darnit''"
    by (simp_all add: sample_effects_def sample_presentation_def spans_at_def)
  have "\<forall>x \<in> set [Span 5 15]. valid_span (lit ''darn http://a.b darnit'') x"
    "\<forall>x \<in> set [Span 0 4, Span 16 20]. valid_span (lit ''darn http://a.b darnit'') x"
    by code_simp+
  with materialize_message [OF _ _ v(1)] v show ?thesis by (auto simp: s k)
qed

lemma transformed_name_ok:
  assumes "is_name s" "\<forall>x \<in> set (spans_at s (de_censor_spans e)). valid_span (presentation_surface p s) x"
  shows "\<exists>r. transformed_name p e s = Inr r \<and>
     (case map_of (de_name_replacements e) s of
        Some n \<Rightarrow> r = nr_replacement n
      | None \<Rightarrow> list_all2 (mask_ok (spans_at s (de_censor_spans e)))
                  (char_indices 0 (presentation_surface p s)) r)"
proof -
  have "list_all2 (mask_ok []) (char_indices off t) t" for off t
    by (rule uncovered_mask_ok) simp
  with assms censor_spans_ok [OF assms(2)] show ?thesis
    by (cases s) (auto simp: transformed_name_def Let_def split: option.splits)
qed

lemma transform_ok:
  assumes "\<forall>x \<in> set urls. valid_span s x" "\<forall>x \<in> set cs. valid_span s x"
  shows "\<exists>r. transform_or_reuse s cs strip urls = Inr r"
  using strip_ok [OF assms] censor_spans_ok [OF assms(2)]
  by (cases strip) (auto simp: transform_or_reuse_def)

text \<open>
  With spans inside their strings and on character boundaries a variant
  is returned; each of its names is the replacement the policy asks for or the original with
  exactly the characters of the censor spans hidden, and the link suppression is the policy's.
\<close>

theorem materialize_succeeds:
  assumes "\<forall>x \<in> set (pn_url_spans p). valid_span (pn_message_content p) x"
    and "\<forall>s. \<forall>x \<in> set (spans_at s (de_censor_spans e)). valid_span (presentation_surface p s) x"
  shows "\<exists>v. materialize_variant sha p e = Inr v \<and> dv_suppress_links v = de_suppress_links e \<and>
     (\<forall>s \<in> set names_of.
        case map_of (de_name_replacements e) s of
          Some n \<Rightarrow> variant_surface v s = nr_replacement n
        | None \<Rightarrow> list_all2 (mask_ok (spans_at s (de_censor_spans e)))
                    (char_indices 0 (presentation_surface p s)) (variant_surface v s))"
proof -
  have "\<forall>x \<in> set (spans_at MessageContent (de_censor_spans e)). valid_span (pn_message_content p) x"
    using assms(2) [rule_format, of _ MessageContent] by simp
  with transform_ok [OF assms(1), of
      "spans_at MessageContent (de_censor_spans e) @ (if de_strip_links e then pn_url_spans p else [])"
      "de_strip_links e"] assms(1)
  obtain m where m: "transform_or_reuse (pn_message_content p)
      (spans_at MessageContent (de_censor_spans e) @ (if de_strip_links e then pn_url_spans p else []))
      (de_strip_links e) (pn_url_spans p) = Inr m" by (auto split: if_splits)
  have n: "\<exists>r. transformed_name p e s = Inr r \<and>
     (case map_of (de_name_replacements e) s of
        Some n \<Rightarrow> r = nr_replacement n
      | None \<Rightarrow> list_all2 (mask_ok (spans_at s (de_censor_spans e)))
                  (char_indices 0 (presentation_surface p s)) r)" if "is_name s" for s
    using transformed_name_ok that assms(2) by blast
  from n [of DisplayName] n [of Username] n [of ServerName] n [of HubName] m show ?thesis
    by (auto simp: materialize_variant_def Let_def names_of_def split: option.splits)
qed

theorem materialize_succeeds_witness:
  "\<exists>v. materialize_variant (\<lambda>_. []) sample_presentation sample_effects = Inr v \<and>
     \<not> dv_suppress_links v \<and> list_all2 (mask_ok []) (char_indices 0 (lit ''hub'')) (dv_hub_name v)"
proof -
  have 1: "\<forall>x \<in> set (pn_url_spans sample_presentation). valid_span (pn_message_content sample_presentation) x"
    by code_simp
  have "\<forall>s \<in> set surface_ALL. \<forall>x \<in> set (spans_at s (de_censor_spans sample_effects)).
      valid_span (presentation_surface sample_presentation s) x"
    by code_simp
  then have 2: "\<forall>s. \<forall>x \<in> set (spans_at s (de_censor_spans sample_effects)).
      valid_span (presentation_surface sample_presentation s) x"
    by (simp add: surface_ALL_complete)
  from materialize_succeeds [OF 1 2, of "\<lambda>_. []"] show ?thesis
    by (auto simp: names_of_def sample_effects_def sample_presentation_def default_delivery_def
        spans_at_def split: option.splits)
qed

text \<open>
  What is hashed for a variant determines the variant: two
  variants whose hash inputs agree have the same five texts and the same link suppression, since
  every text is preceded by its length.
\<close>

theorem fingerprint_input_injective:
  assumes "\<forall>s \<in> {m, d, u, g, h, m', d', u', g', h'}. fits_u64 s"
    and "fingerprint_input m d u g h b = fingerprint_input m' d' u' g' h' b'"
  shows "m = m' \<and> d = d' \<and> u = u' \<and> g = g' \<and> h = h' \<and> b = b'"
proof -
  let ?fr = "\<lambda>s x. be_bytes (byte_len s) @ str_bytes s @ x"
  let ?e = "\<lambda>b. [if b then 1 else 0 :: nat]"
  have "?fr m (?fr d (?fr u (?fr g (?fr h (?e b))))) = ?fr m' (?fr d' (?fr u' (?fr g' (?fr h' (?e b')))))"
    using assms(2) by (simp add: fingerprint_input_def)
  then have 1: "m = m'" "?fr d (?fr u (?fr g (?fr h (?e b)))) = ?fr d' (?fr u' (?fr g' (?fr h' (?e b'))))"
    using framed_cancel [of m m'] assms(1) by blast+
  then have 2: "d = d'" "?fr u (?fr g (?fr h (?e b))) = ?fr u' (?fr g' (?fr h' (?e b')))"
    using framed_cancel [of d d'] assms(1) by blast+
  then have 3: "u = u'" "?fr g (?fr h (?e b)) = ?fr g' (?fr h' (?e b'))"
    using framed_cancel [of u u'] assms(1) by blast+
  then have 4: "g = g'" "?fr h (?e b) = ?fr h' (?e b')"
    using framed_cancel [of g g'] assms(1) by blast+
  then have 5: "h = h'" "?e b = ?e b'"
    using framed_cancel [of h h'] assms(1) by blast+
  from 5(2) have "b = b'" by (cases b; cases b') simp_all
  with 1 2 3 4 5 show ?thesis by blast
qed

theorem fingerprint_input_injective_witness:
  "lit ''a'' = [97] \<and> True = (1 < (2::nat))"
  using fingerprint_input_injective [of "lit ''a''" "[]" "[]" "[]" "[]" "[97]" "[]" "[]" "[]" "[]" True
      "1 < (2::nat)"]
  by (simp add: fits_u64_def lit_def utf8_width_def)

section \<open>Groups\<close>

lemma group_by_variant_wf: "bt_wf (group_destinations_by_variant ds)"
proof -
  have "bt_wf m \<Longrightarrow> bt_wf (fold (\<lambda>(v, d). bt_entry (dv_fingerprint v)
             (\<lambda>old. case old of None \<Rightarrow> (v, [d]) | Some (w, l) \<Rightarrow> (w, l @ [d]))) ds m)" for m
    by (induction ds arbitrary: m) (auto simp: bt_entry_wf)
  then show ?thesis by (simp add: group_destinations_by_variant_def)
qed

lemma group_by_variant_snoc:
  "map_of (group_destinations_by_variant (ds @ [(v, d)]))
     = (map_of (group_destinations_by_variant ds))(dv_fingerprint v \<mapsto>
          (case map_of (group_destinations_by_variant ds) (dv_fingerprint v) of
             None \<Rightarrow> (v, [d]) | Some (w, l) \<Rightarrow> (w, l @ [d])))"
  using group_by_variant_wf [of ds]
  by (simp add: group_destinations_by_variant_def map_of_bt_entry)

text \<open>
  The group under a fingerprint holds, in order, all the destinations
  whose variant has it, together with the first such variant; a fingerprint no destination has
  is no group. No destination is lost and none is delivered twice.
\<close>

theorem group_by_variant_complete:
  "map_of (group_destinations_by_variant ds) f =
     (case filter (\<lambda>x. dv_fingerprint (fst x) = f) ds of
        [] \<Rightarrow> None
      | (v, d) # rest \<Rightarrow> Some (v, d # map snd rest))"
proof (induction ds rule: rev_induct)
  case Nil
  then show ?case by (simp add: group_destinations_by_variant_def)
next
  case (snoc x ds)
  obtain v d where x: "x = (v, d)" by (cases x)
  show ?case
  proof (cases "dv_fingerprint v = f")
    case True
    with snoc x show ?thesis
      by (auto simp: group_by_variant_snoc split: list.splits option.splits)
  next
    case False
    with snoc x show ?thesis by (simp add: group_by_variant_snoc)
  qed
qed

lemma group_by_profile_wf: "bt_wf (group_destinations_by_profile ds)"
proof -
  have "bt_wf m \<Longrightarrow> bt_wf (fold (\<lambda>(k, d). bt_extend k [d]) ds m)" for m
    by (induction ds arbitrary: m) auto
  then show ?thesis by (simp add: group_destinations_by_profile_def)
qed

lemma group_by_profile_complete:
  "map_of (group_destinations_by_profile ds) k =
     (case map snd (filter (\<lambda>x. fst x = k) ds) of [] \<Rightarrow> None | ds' \<Rightarrow> Some ds')"
proof (induction ds rule: rev_induct)
  case Nil
  then show ?case by (simp add: group_destinations_by_profile_def)
next
  case (snoc x ds)
  obtain j d where x: "x = (j, d)" by (cases x)
  have "map_of (group_destinations_by_profile (ds @ [(j, d)])) k
      = ((map_of (group_destinations_by_profile ds))(j \<mapsto>
          (case map_of (group_destinations_by_profile ds) j of None \<Rightarrow> [d] | Some l \<Rightarrow> l @ [d]))) k"
    using group_by_profile_wf [of ds] by (simp add: group_destinations_by_profile_def)
  with snoc x show ?case by (auto split: list.splits option.splits)
qed

end
