(* ===== verification/Cooldown.thy ===== *)
theory Cooldown
  imports Model
begin

text \<open>
  The gate that mutes repeated side effects (\<open>src/content_policy/cooldown.rs\<close>). Its mutex makes
  every operation one atomic step on the registry, so a concurrent execution is a sequence of
  operations. An \<open>Instant\<close> is a natural number; the platform's last instant is a parameter,
  since \<open>checked_add\<close> fails beyond it.
\<close>

section \<open>The gate\<close>

type_synonym instant = nat

datatype action_family = FamilyLog | FamilyPunishment

fun for_action :: "policy_action_type \<Rightarrow> action_family option" where
  "for_action Log = Some FamilyLog"
| "for_action LobbyWarn = Some FamilyPunishment"
| "for_action LobbyBan = Some FamilyPunishment"
| "for_action Blacklist = Some FamilyPunishment"
| "for_action HubWarn = Some FamilyPunishment"
| "for_action HubMute = Some FamilyPunishment"
| "for_action HubBan = Some FamilyPunishment"
| "for_action _ = None"

record cooldown_key =
  ck_subject :: rstr
  ck_scope :: policy_scope
  ck_rule_id :: uuid
  ck_family :: action_family

record cooldown_config =
  cc_duration :: nat
  cc_max_entries :: nat

definition DEFAULT_COOLDOWN_DURATION :: nat where
  "DEFAULT_COOLDOWN_DURATION = 60 * 1000000000"

definition DEFAULT_MAX_ENTRIES :: nat where
  "DEFAULT_MAX_ENTRIES = 10000"

definition default_cooldown_config :: cooldown_config where
  "default_cooldown_config =
     \<lparr>cc_duration = DEFAULT_COOLDOWN_DURATION, cc_max_entries = DEFAULT_MAX_ENTRIES\<rparr>"

record cooldown =
  cd_entries :: "(cooldown_key, instant) hash_map"
  cd_config :: cooldown_config

definition with_config :: "cooldown_config \<Rightarrow> cooldown" where
  "with_config c =
     \<lparr>cd_entries = [], cd_config = c\<lparr>cc_max_entries := max (cc_max_entries c) 1\<rparr>\<rparr>"

definition with_duration :: "nat \<Rightarrow> nat \<Rightarrow> cooldown" where
  "with_duration duration max_entries =
     with_config \<lparr>cc_duration = duration, cc_max_entries = max_entries\<rparr>"

definition new_cooldown :: cooldown where
  "new_cooldown = with_config default_cooldown_config"

definition instant_checked_add :: "instant \<Rightarrow> instant \<Rightarrow> nat \<Rightarrow> instant option" where
  "instant_checked_add latest now d = (if now + d \<le> latest then Some (now + d) else None)"

text \<open>\<open>prune_expired\<close> collects the expired keys and removes each; it counts the removals.\<close>

definition remove_counted ::
  "cooldown_key \<Rightarrow> (cooldown_key, instant) hash_map \<times> nat \<Rightarrow> (cooldown_key, instant) hash_map \<times> nat" where
  "remove_counted k acc = (case acc of (m, removed) \<Rightarrow>
     (hm_remove k m, if map_of m k \<noteq> None then removed + 1 else removed))"

definition prune_expired :: "instant \<Rightarrow> cooldown \<Rightarrow> nat \<times> cooldown" where
  "prune_expired now g =
     (let expired = map fst (filter (\<lambda>e. snd e \<le> now) (cd_entries g));
          res = fold remove_counted expired (cd_entries g, 0)
      in (snd res, g\<lparr>cd_entries := fst res\<rparr>))"

definition prune_at :: "instant \<Rightarrow> cooldown \<Rightarrow> nat \<times> cooldown" where
  "prune_at now g = prune_expired now g"

definition evict_earliest :: "cooldown \<Rightarrow> cooldown" where
  "evict_earliest g =
     (case min_by_key snd (cd_entries g) of
        None \<Rightarrow> g
      | Some e \<Rightarrow> g\<lparr>cd_entries := hm_remove (fst e) (cd_entries g)\<rparr>)"

definition allow_at ::
  "instant \<Rightarrow> rstr \<Rightarrow> policy_scope \<Rightarrow> uuid \<Rightarrow> policy_action_type \<Rightarrow> instant
     \<Rightarrow> cooldown \<Rightarrow> bool \<times> cooldown" where
  "allow_at latest subject scope rule_id action now g =
     (case for_action action of
        None \<Rightarrow> (True, g)
      | Some family \<Rightarrow>
          let g1 = snd (prune_expired now g);
              key = \<lparr>ck_subject = subject, ck_scope = scope, ck_rule_id = rule_id, ck_family = family\<rparr>
          in if (case map_of (cd_entries g1) key of None \<Rightarrow> False | Some expires \<Rightarrow> now < expires)
             then (False, g1)
             else
               let g2 = if cc_max_entries (cd_config g1) \<le> length (cd_entries g1)
                        then evict_earliest g1 else g1;
                   expires = (case instant_checked_add latest now (cc_duration (cd_config g2)) of
                                None \<Rightarrow> now | Some t \<Rightarrow> t)
               in (True, g2\<lparr>cd_entries := hm_insert key expires (cd_entries g2)\<rparr>))"

section \<open>Lemmas\<close>

definition live :: "instant \<Rightarrow> cooldown \<Rightarrow> (cooldown_key, instant) hash_map" where
  "live now g = filter (\<lambda>e. now < snd e) (cd_entries g)"

definition cooldown_wf :: "cooldown \<Rightarrow> bool" where
  "cooldown_wf g \<longleftrightarrow> hm_wf (cd_entries g) \<and> length (cd_entries g) \<le> cc_max_entries (cd_config g)
     \<and> 0 < cc_max_entries (cd_config g)"

lemma fold_remove_counted:
  "fst (fold remove_counted ks (m, n)) = filter (\<lambda>e. fst e \<notin> set ks) m"
proof (induction ks arbitrary: m n)
  case (Cons k ks)
  have "(\<lambda>e. fst e \<noteq> k \<and> fst e \<notin> set ks) = (\<lambda>e. fst e \<notin> set (k # ks))" by auto
  with Cons show ?case by (simp add: remove_counted_def hm_remove_def)
qed simp

lemma fold_remove_counted_count:
  "hm_wf m \<Longrightarrow> distinct ks \<Longrightarrow> set ks \<subseteq> set (map fst m)
     \<Longrightarrow> snd (fold remove_counted ks (m, n)) = n + length ks"
proof (induction ks arbitrary: m n)
  case (Cons k ks)
  have "map_of m k \<noteq> None" using Cons.prems(3) by (auto simp: map_of_eq_None_iff)
  moreover have "set ks \<subseteq> set (map fst (hm_remove k m))"
    using Cons.prems(2,3) by (fastforce simp: hm_remove_def)
  ultimately show ?case using Cons by (simp add: remove_counted_def)
qed simp

lemma prune_expired_entries:
  assumes "hm_wf (cd_entries g)"
  shows "snd (prune_expired now g) = g\<lparr>cd_entries := live now g\<rparr>"
proof -
  have "filter (\<lambda>e. fst e \<notin> set (map fst (filter (\<lambda>e. snd e \<le> now) (cd_entries g)))) (cd_entries g)
      = filter (\<lambda>e. now < snd e) (cd_entries g)"
  proof (rule filter_cong [OF refl])
    fix e assume "e \<in> set (cd_entries g)"
    then have "fst e \<in> fst ` {e \<in> set (cd_entries g). snd e \<le> now} \<longleftrightarrow> snd e \<le> now"
      using assms hm_wf_mem_iff [of "cd_entries g" "fst e"] by (cases e rule: prod.exhaust) (auto simp: image_iff)
    then show "fst e \<notin> set (map fst (filter (\<lambda>e. snd e \<le> now) (cd_entries g))) \<longleftrightarrow> now < snd e"
      by auto
  qed
  then show ?thesis by (simp add: prune_expired_def fold_remove_counted live_def Let_def)
qed

lemma prune_at_count:
  assumes "hm_wf (cd_entries g)"
  shows "fst (prune_at now g) + length (live now g) = length (cd_entries g)"
proof -
  let ?ex = "filter (\<lambda>e. snd e \<le> now) (cd_entries g)"
  have "fst (prune_at now g) = length ?ex"
    using assms fold_remove_counted_count [of "cd_entries g" "map fst ?ex" 0]
    by (simp add: prune_at_def prune_expired_def hm_wf_def distinct_map_filter image_mono)
  then show ?thesis
    using sum_length_filter_compl [of "\<lambda>e. snd e \<le> now" "cd_entries g"]
    by (simp add: live_def not_le)
qed

lemma live_wf [simp]: "hm_wf (cd_entries g) \<Longrightarrow> hm_wf (live now g)"
  by (simp add: live_def)

lemma live_map_of:
  "hm_wf (cd_entries g) \<Longrightarrow> map_of (live now g) k = Some t \<longleftrightarrow> map_of (cd_entries g) k = Some t \<and> now < t"
  by (auto simp: live_def hm_filter_map_of split: option.splits)

text \<open>
  The outcome of a call, with the registry described by its live entries.
\<close>

definition effect_key :: "rstr \<Rightarrow> policy_scope \<Rightarrow> uuid \<Rightarrow> action_family \<Rightarrow> cooldown_key" where
  "effect_key subject scope rule_id family =
     \<lparr>ck_subject = subject, ck_scope = scope, ck_rule_id = rule_id, ck_family = family\<rparr>"

definition expiry :: "instant \<Rightarrow> cooldown \<Rightarrow> instant \<Rightarrow> instant" where
  "expiry latest g now =
     (if now + cc_duration (cd_config g) \<le> latest then now + cc_duration (cd_config g) else now)"

lemma evict_config [simp]: "cd_config (evict_earliest g) = cd_config g"
  by (simp add: evict_earliest_def split: option.splits)

lemma allow_at_unfold:
  assumes "hm_wf (cd_entries g)" "for_action action = Some family"
  shows "allow_at latest subject scope rule_id action now g =
     (let key = effect_key subject scope rule_id family; g1 = g\<lparr>cd_entries := live now g\<rparr>;
          g2 = (if cc_max_entries (cd_config g) \<le> length (live now g) then evict_earliest g1 else g1)
      in if map_of (live now g) key \<noteq> None then (False, g1)
         else (True, g2\<lparr>cd_entries := hm_insert key (expiry latest g now) (cd_entries g2)\<rparr>))"
proof -
  have "(case map_of (live now g) k of None \<Rightarrow> False | Some x \<Rightarrow> now < x) \<longleftrightarrow> map_of (live now g) k \<noteq> None" for k
    by (auto simp: live_def hm_filter_map_of [OF assms(1)] split: option.splits)
  then show ?thesis
    using assms by (simp add: allow_at_def prune_expired_entries effect_key_def expiry_def
        instant_checked_add_def Let_def)
qed

lemma allow_delivery: "for_action action = None \<Longrightarrow> allow_at latest subject scope rule_id action now g = (True, g)"
  by (simp add: allow_at_def)

lemma for_action_None_iff: "for_action a = None \<longleftrightarrow> is_delivery a"
  by (cases a) (simp_all add: is_delivery_def)

lemma evict_length:
  "cd_entries g \<noteq> [] \<Longrightarrow> hm_wf (cd_entries g) \<Longrightarrow> length (cd_entries (evict_earliest g)) < length (cd_entries g)"
  by (auto simp: evict_earliest_def hm_wf_mem_iff intro!: length_hm_remove_mem
      split: option.splits dest!: min_by_key_Some)

lemma evict_wf [simp]: "hm_wf (cd_entries g) \<Longrightarrow> hm_wf (cd_entries (evict_earliest g))"
  by (simp add: evict_earliest_def split: option.splits)

lemma length_live: "length (live now g) \<le> length (cd_entries g)"
  by (simp add: live_def)

lemma allow_at_wf:
  assumes "cooldown_wf g"
  shows "cooldown_wf (snd (allow_at latest subject scope rule_id action now g))"
proof (cases "for_action action")
  case None
  then show ?thesis using assms by (simp add: allow_delivery)
next
  case (Some family)
  have wf: "hm_wf (cd_entries g)" and b: "length (cd_entries g) \<le> cc_max_entries (cd_config g)"
    and pos: "0 < cc_max_entries (cd_config g)" using assms by (auto simp: cooldown_wf_def)
  define g1 where "g1 = g\<lparr>cd_entries := live now g\<rparr>"
  define g2 where "g2 = (if cc_max_entries (cd_config g) \<le> length (live now g) then evict_earliest g1 else g1)"
  have g1: "hm_wf (cd_entries g1)" "length (cd_entries g1) \<le> cc_max_entries (cd_config g)"
    using wf b length_live [of now g] by (simp_all add: g1_def)
  have "length (cd_entries g2) < cc_max_entries (cd_config g)"
    using g1 pos evict_length [of g1] by (auto simp: g2_def g1_def)
  moreover have "hm_wf (cd_entries g2)" "cd_config g2 = cd_config g" using g1 by (simp_all add: g2_def g1_def)
  moreover have "length (hm_insert k v (cd_entries g2)) \<le> Suc (length (cd_entries g2))" for k v
    by (rule length_hm_insert)
  ultimately have "cooldown_wf (g2\<lparr>cd_entries := hm_insert k v (cd_entries g2)\<rparr>)" for k v
    using pos by (simp add: cooldown_wf_def) (meson Suc_leI le_trans)
  moreover have "cooldown_wf g1" using g1 pos by (simp add: cooldown_wf_def g1_def)
  ultimately show ?thesis
    unfolding allow_at_unfold [OF wf Some] Let_def g1_def [symmetric] g2_def [symmetric] by simp
qed

lemma prune_at_wf: "cooldown_wf g \<Longrightarrow> cooldown_wf (snd (prune_at now g))"
  using length_live [of now g]
  by (auto simp: cooldown_wf_def prune_at_def prune_expired_entries)

section \<open>Runs\<close>

datatype gate_call =
    GateAllow rstr policy_scope uuid policy_action_type instant
  | GatePrune instant

fun gate_step :: "instant \<Rightarrow> gate_call \<Rightarrow> cooldown \<Rightarrow> cooldown" where
  "gate_step latest (GateAllow subject scope rule_id action now) g =
     snd (allow_at latest subject scope rule_id action now g)"
| "gate_step latest (GatePrune now) g = snd (prune_at now g)"

interpretation gate: invariant_steps "gate_step latest" cooldown_wf for latest
proof
  fix g e assume "cooldown_wf g"
  then show "cooldown_wf (gate_step latest e g)" by (cases e) (simp_all add: allow_at_wf prune_at_wf)
qed

lemma gate_step_config [simp]: "cooldown_wf g \<Longrightarrow> cd_config (gate_step latest e g) = cd_config g"
proof (cases e)
  case (GateAllow subject scope rule_id action now)
  assume "cooldown_wf g"
  with GateAllow show ?thesis
    by (cases "for_action action")
       (simp_all add: allow_delivery allow_at_unfold cooldown_wf_def Let_def)
qed (simp add: prune_at_def prune_expired_entries cooldown_wf_def)

lemma gate_run_config: "cooldown_wf g \<Longrightarrow> cd_config (fold (gate_step latest) es g) = cd_config g"
  by (induction es arbitrary: g) (simp_all add: gate.step_inv)

lemma with_config_wf: "cooldown_wf (with_config c)"
  by (simp add: cooldown_wf_def with_config_def)

text \<open>
  Whatever calls arrive, in whatever order and with whatever clock values,
  the registry never holds more entries than configured (at least one), and no key twice.
\<close>

theorem cooldown_bounded:
  "length (cd_entries (fold (gate_step latest) calls (with_config c))) \<le> max (cc_max_entries c) 1
   \<and> distinct (map fst (cd_entries (fold (gate_step latest) calls (with_config c))))"
  using gate.run_inv [OF with_config_wf, of latest calls c]
    gate_run_config [OF with_config_wf, of latest calls c]
  by (simp add: cooldown_wf_def with_config_def hm_wf_def)

text \<open>
  In a registry reached by any calls, a side effect is muted exactly when an
  entry for its subject, scope, rule and family is still live. A muted call leaves the live
  entries as they are; an allowed one records its expiry, and the only other live entry it may
  drop is one of earliest expiry, and that only when the registry is full.
\<close>

theorem allow_at_decides:
  assumes "g = fold (gate_step latest) calls (with_config c)"
    and "for_action action = Some family"
    and "key = effect_key subject scope rule_id family"
    and "allow_at latest subject scope rule_id action now g = (allowed, g')"
  shows "(allowed \<longleftrightarrow> \<not> (\<exists>t. map_of (cd_entries g) key = Some t \<and> now < t)) \<and>
    (\<not> allowed \<longrightarrow> cd_entries g' = live now g) \<and>
    (allowed \<longrightarrow> map_of (cd_entries g') key = Some (expiry latest g now) \<and>
       (\<forall>k. k \<noteq> key \<longrightarrow> map_of (cd_entries g') k = map_of (live now g) k \<or>
          map_of (cd_entries g') k = None \<and> length (live now g) = max (cc_max_entries c) 1 \<and>
          (\<exists>t. map_of (live now g) k = Some t \<and> (\<forall>e \<in> set (live now g). t \<le> snd e))))"
proof -
  have gwf: "cooldown_wf g" unfolding assms(1) by (rule gate.run_inv [OF with_config_wf])
  then have wf: "hm_wf (cd_entries g)" by (simp add: cooldown_wf_def)
  have cfg: "cc_max_entries (cd_config g) = max (cc_max_entries c) 1"
    unfolding assms(1) by (simp add: gate_run_config with_config_wf) (simp add: with_config_def)
  define g1 where "g1 = g\<lparr>cd_entries := live now g\<rparr>"
  define g2 where "g2 = (if cc_max_entries (cd_config g) \<le> length (live now g) then evict_earliest g1 else g1)"
  have res: "(allowed, g') = (if map_of (live now g) key \<noteq> None then (False, g1)
      else (True, g2\<lparr>cd_entries := hm_insert key (expiry latest g now) (cd_entries g2)\<rparr>))"
    using assms(4) [symmetric]
    unfolding allow_at_unfold [OF wf assms(2)] assms(3) Let_def g1_def [symmetric] g2_def [symmetric]
    by simp
  have dec: "map_of (live now g) key \<noteq> None \<longleftrightarrow> (\<exists>t. map_of (cd_entries g) key = Some t \<and> now < t)"
    using live_map_of [OF wf, of now key] by auto
  have "map_of (cd_entries g2) k = map_of (live now g) k \<or>
      map_of (cd_entries g2) k = None \<and> length (live now g) = max (cc_max_entries c) 1 \<and>
      (\<exists>t. map_of (live now g) k = Some t \<and> (\<forall>e \<in> set (live now g). t \<le> snd e))" for k
  proof (cases "cc_max_entries (cd_config g) \<le> length (live now g)")
    case True
    then have "length (live now g) = cc_max_entries (cd_config g)"
      using gwf length_live [of now g] unfolding cooldown_wf_def by linarith
    then have len: "length (live now g) = max (cc_max_entries c) 1" by (simp only: cfg)
    then have "live now g \<noteq> []" by auto
    then obtain e where e: "min_by_key snd (live now g) = Some e"
      by (cases "min_by_key snd (live now g)") auto
    from min_by_key_Some [OF e] have m: "map_of (live now g) (fst e) = Some (snd e)"
      "\<forall>x \<in> set (live now g). snd e \<le> snd x"
      using hm_wf_mem_iff [OF live_wf [OF wf]] by (metis prod.collapse)+
    show ?thesis
      using True e m len by (auto simp: g2_def g1_def evict_earliest_def)
  qed (simp add: g2_def g1_def)
  then show ?thesis
    using res dec by (auto simp: g1_def split: if_splits)
qed

theorem allow_at_decides_witness:
  "\<exists>g'. allow_at 1000 (lit ''u'') global 7 HubBan 30
      (fold (gate_step 1000) [GateAllow (lit ''u'') global 7 HubWarn 10] (with_duration 60 5)) = (False, g')"
proof -
  let ?g = "fold (gate_step 1000) [GateAllow (lit ''u'') global 7 HubWarn 10] (with_duration 60 5)"
  obtain a g' where r: "allow_at 1000 (lit ''u'') global 7 HubBan 30 ?g = (a, g')"
    by (cases "allow_at 1000 (lit ''u'') global 7 HubBan 30 ?g")
  have "map_of (cd_entries ?g) (effect_key (lit ''u'') global 7 FamilyPunishment) = Some 70" by code_simp
  with allow_at_decides [OF refl, of HubBan FamilyPunishment _ "lit ''u''" global 7 1000 30
      "[GateAllow (lit ''u'') global 7 HubWarn 10]" "\<lparr>cc_duration = 60, cc_max_entries = 5\<rparr>" a g', OF _ refl] r
  have "\<not> a" by (simp add: with_duration_def)
  with r show ?thesis by auto
qed

text \<open>While the registry has room for everything that is called, a live entry stays.\<close>

fun call_time :: "gate_call \<Rightarrow> instant" where
  "call_time (GateAllow subject scope rule_id action now) = now"
| "call_time (GatePrune now) = now"

lemma gate_step_keeps:
  assumes "cooldown_wf g" "length (cd_entries g) < cc_max_entries (cd_config g)"
    and "map_of (cd_entries g) k = Some t" "call_time e < t"
  shows "map_of (cd_entries (gate_step latest e g)) k = Some t
    \<and> length (cd_entries (gate_step latest e g)) \<le> Suc (length (cd_entries g))"
proof (cases e)
  case (GatePrune now)
  with assms show ?thesis
    by (simp add: prune_at_def prune_expired_entries cooldown_wf_def live_map_of length_live le_SucI)
next
  case (GateAllow subject scope rule_id action now)
  have wf: "hm_wf (cd_entries g)" using assms(1) by (simp add: cooldown_wf_def)
  have l: "map_of (live now g) k = Some t" using assms(3,4) GateAllow by (simp add: live_map_of [OF wf])
  show ?thesis
  proof (cases "for_action action")
    case None
    with assms GateAllow show ?thesis by (simp add: allow_delivery)
  next
    case (Some family)
    have "\<not> cc_max_entries (cd_config g) \<le> length (live now g)"
      using assms(2) length_live [of now g] by simp
    then show ?thesis
      using GateAllow l length_live [of now g]
        length_hm_insert [of "effect_key subject scope rule_id family" "expiry latest g now" "live now g"]
      by (auto simp: allow_at_unfold [OF wf Some] Let_def)
  qed
qed

lemma gate_run_keeps:
  assumes "cooldown_wf g" "length (cd_entries g) + length calls \<le> cc_max_entries (cd_config g)"
    and "map_of (cd_entries g) k = Some t" "\<forall>e \<in> set calls. call_time e < t"
  shows "map_of (cd_entries (fold (gate_step latest) calls g)) k = Some t"
  using assms
proof (induction calls arbitrary: g)
  case (Cons e calls)
  have "length (cd_entries g) < cc_max_entries (cd_config g)" using Cons.prems(2) by simp
  from gate_step_keeps [OF Cons.prems(1) this Cons.prems(3), of e latest] Cons.prems(4)
  have "map_of (cd_entries (gate_step latest e g)) k = Some t"
    "length (cd_entries (gate_step latest e g)) \<le> Suc (length (cd_entries g))" by simp_all
  with Cons.IH [of "gate_step latest e g"] Cons.prems show ?case by (simp add: gate.step_inv)
qed simp

text \<open>
  C28 [cooldown_mutes_for_duration]: After a side effect was let through, the same subject, scope,
  rule and family is muted until the configured duration has passed, whatever else is called in
  between, as long as the calls in between are fewer than the free entries of the registry.
\<close>

theorem cooldown_mutes_for_duration:
  assumes "g = fold (gate_step latest) before (with_config c)"
    and "allow_at latest subject scope rule_id a1 t0 g = (True, g1)"
    and "for_action a1 = Some family" "for_action a2 = Some family"
    and "length (cd_entries g1) + length calls \<le> max (cc_max_entries c) 1"
    and "t0 + cc_duration c \<le> latest"
    and "\<forall>e \<in> set calls. call_time e < t0 + cc_duration c" "t1 < t0 + cc_duration c"
  shows "\<not> fst (allow_at latest subject scope rule_id a2 t1 (fold (gate_step latest) calls g1))"
proof -
  have gwf: "cooldown_wf g" unfolding assms(1) by (rule gate.run_inv [OF with_config_wf])
  have cfg: "cd_config g = c\<lparr>cc_max_entries := max (cc_max_entries c) 1\<rparr>"
    unfolding assms(1) by (simp add: gate_run_config with_config_wf) (simp add: with_config_def)
  have g1: "cooldown_wf g1" "cd_config g1 = cd_config g"
    using allow_at_wf [OF gwf, of latest subject scope rule_id a1 t0]
      gate_step_config [OF gwf, of latest "GateAllow subject scope rule_id a1 t0"] assms(2)
    by simp_all
  let ?k = "effect_key subject scope rule_id family"
  have wf: "hm_wf (cd_entries g)" using gwf by (simp add: cooldown_wf_def)
  have "map_of (cd_entries g1) ?k = Some (t0 + cc_duration c)"
    using assms(2,6) by (auto simp: allow_at_unfold [OF wf assms(3)] Let_def expiry_def cfg split: if_splits)
  then have k: "map_of (cd_entries (fold (gate_step latest) calls g1)) ?k = Some (t0 + cc_duration c)"
    using assms(5,7) g1 cfg by (intro gate_run_keeps) simp_all
  have "hm_wf (cd_entries (fold (gate_step latest) calls g1))"
    using gate.run_inv [OF g1(1)] by (simp add: cooldown_wf_def)
  with k assms(8) show ?thesis
    by (simp add: allow_at_unfold [OF _ assms(4)] Let_def live_map_of)
qed

theorem cooldown_mutes_for_duration_witness:
  "\<not> fst (allow_at 1000 (lit ''u'') global 7 HubBan 30
      (fold (gate_step 1000) [GatePrune 20]
        (snd (allow_at 1000 (lit ''u'') global 7 HubWarn 10 (with_duration 60 5)))))"
proof (rule cooldown_mutes_for_duration [where before = "[]" and c = "\<lparr>cc_duration = 60, cc_max_entries = 5\<rparr>"
      and ?a1.0 = HubWarn and ?t0.0 = 10 and family = FamilyPunishment])
  show "allow_at 1000 (lit ''u'') global 7 HubWarn 10 (with_duration 60 5)
      = (True, snd (allow_at 1000 (lit ''u'') global 7 HubWarn 10 (with_duration 60 5)))"
    by code_simp
  show "length (cd_entries (snd (allow_at 1000 (lit ''u'') global 7 HubWarn 10 (with_duration 60 5))))
      + length [GatePrune 20] \<le> max (cc_max_entries \<lparr>cc_duration = 60, cc_max_entries = 5\<rparr>) 1"
    by code_simp
qed (simp_all add: with_duration_def)

end
