(* ===== verification/Unicode.thy ===== *)
theory Unicode
  imports RustStr
begin

text \<open>
  The Unicode data the program reads from third-party tables, as one parameter of the model: the
  compatibility decomposition, combining classes, canonical composition, full case folding and
  the properties of scalar values, together with the tables behind \<open>char::is_alphabetic\<close>,
  \<open>char::is_numeric\<close> and \<open>str::to_lowercase\<close>. Nothing is assumed of them;
  \<open>ascii_unicode\<close> is a concrete instance, exact on ASCII.
\<close>

datatype script = Latin | Greek | Cyrillic

record unicode =
  u_decompose_compatible :: "rchar \<Rightarrow> rchar list"
  u_combining_class :: "rchar \<Rightarrow> nat"
  u_compose :: "rchar \<Rightarrow> rchar \<Rightarrow> rchar option"
  u_fold :: "rchar \<Rightarrow> rchar list"
  u_combining_mark :: "rchar \<Rightarrow> bool"
  u_default_ignorable :: "rchar \<Rightarrow> bool"
  u_has_script :: "rchar \<Rightarrow> script \<Rightarrow> bool"
  u_alphabetic :: "rchar \<Rightarrow> bool"
  u_numeric :: "rchar \<Rightarrow> bool"
  u_to_lowercase :: "rstr \<Rightarrow> rstr"

definition u_alphanumeric :: "unicode \<Rightarrow> rchar \<Rightarrow> bool" where
  "u_alphanumeric u c \<longleftrightarrow> u_alphabetic u c \<or> u_numeric u c"

definition ascii_unicode :: unicode where
  "ascii_unicode =
     \<lparr>u_decompose_compatible = (\<lambda>c. [c]), u_combining_class = (\<lambda>_. 0), u_compose = (\<lambda>_ _. None),
      u_fold = (\<lambda>c. [to_ascii_lowercase c]), u_combining_mark = (\<lambda>_. False),
      u_default_ignorable = (\<lambda>_. False),
      u_has_script = (\<lambda>c s. s = Latin \<and> is_ascii_alphabetic c),
      u_alphabetic = is_ascii_alphabetic, u_numeric = is_ascii_digit,
      u_to_lowercase = map to_ascii_lowercase\<rparr>"

end
