(* ===== verification/Normalization.thy ===== *)
theory Normalization
  imports Spans Unicode
begin

text \<open>
  Text normalisation with byte provenance (\<open>src/content_policy/normalization.rs\<close>): the matcher's
  canonical view (compatibility decomposition, canonical order and composition, case folding,
  removal of invisible formats and canonical separators) and the auxiliary security view
  (masked links, ignorable code points, inserted separators and confusable letters). Every
  character carries the span of the original bytes it comes from.
\<close>

section \<open>Data\<close>

definition NORMALIZATION_SECURITY_VERSION :: rstr where
  "NORMALIZATION_SECURITY_VERSION = lit ''unicode17-icu2.2-security-v4''"

datatype surface_span = SurfaceSpan (ss_attributed: byte_span) (ss_text: byte_span)

datatype normalized_char_span = NCS (ncs_normalized: byte_span) (ncs_original: byte_span)

type_synonym mapped = "(rchar \<times> byte_span) list"

record normalized_text =
  nt_text :: rstr
  nt_spans :: "normalized_char_span list"

record security_normalized_text =
  sn_text :: rstr
  sn_spans :: "normalized_char_span list"

section \<open>Character classes\<close>

definition in_ranges :: "(nat \<times> nat) list \<Rightarrow> rchar \<Rightarrow> bool" where
  "in_ranges rs c \<longleftrightarrow> (\<exists>(a, b) \<in> set rs. a \<le> c \<and> c \<le> b)"

definition is_ignored_format :: "rchar \<Rightarrow> bool" where
  "is_ignored_format c \<longleftrightarrow> in_ranges
     [(0x00ad, 0x00ad), (0x034f, 0x034f), (0x061c, 0x061c), (0x115f, 0x115f), (0x1160, 0x1160),
      (0x17b4, 0x17b4), (0x17b5, 0x17b5), (0x180e, 0x180e), (0x200b, 0x200b), (0x200e, 0x200e),
      (0x200f, 0x200f), (0x202a, 0x202e), (0x2060, 0x2064), (0x2066, 0x206f), (0xfeff, 0xfeff),
      (0xfff9, 0xfffb)] c"

definition is_separator_punctuation :: "rchar \<Rightarrow> bool" where
  "is_separator_punctuation c \<longleftrightarrow> is_ascii_punctuation c \<or> in_ranges
     [(0x00a1, 0x00a1), (0x00ab, 0x00ab), (0x00b7, 0x00b7), (0x00bb, 0x00bb), (0x00bf, 0x00bf),
      (0x037e, 0x037e), (0x0387, 0x0387), (0x055a, 0x055f), (0x0589, 0x0589), (0x05be, 0x05be),
      (0x05c0, 0x05c0), (0x05c3, 0x05c3), (0x05c6, 0x05c6), (0x0609, 0x060d), (0x061b, 0x061b),
      (0x061e, 0x061f), (0x066a, 0x066d), (0x06d4, 0x06d4), (0x0700, 0x070d), (0x07f7, 0x07f9),
      (0x0964, 0x0965), (0x0e4f, 0x0e4f), (0x0f04, 0x0f12), (0x104a, 0x104f), (0x1360, 0x1368),
      (0x166d, 0x166e), (0x16eb, 0x16ed), (0x17d4, 0x17d6), (0x1800, 0x1805), (0x1a1e, 0x1a1f),
      (0x1aa0, 0x1aa6), (0x1b4e, 0x1b55), (0x1b5a, 0x1b5d), (0x1bfc, 0x1bff), (0x1c3b, 0x1c3f),
      (0x1c7e, 0x1c7f), (0x1cc0, 0x1cc7), (0x2000, 0x206f), (0x2e00, 0x2e7f), (0x3000, 0x303f),
      (0xa874, 0xa877), (0xfe10, 0xfe19), (0xfe30, 0xfe4f), (0xff01, 0xff0f), (0xff1a, 0xff20),
      (0xff3b, 0xff40), (0xff5b, 0xff65)] c"

definition is_joiner :: "rchar \<Rightarrow> bool" where
  "is_joiner c \<longleftrightarrow> c = 0x200c \<or> c = 0x200d"

definition is_security_ignorable :: "unicode \<Rightarrow> rchar \<Rightarrow> bool" where
  "is_security_ignorable u c \<longleftrightarrow> u_default_ignorable u c \<or> c = 0x2800"

definition is_latin_letter :: "unicode \<Rightarrow> rchar \<Rightarrow> bool" where
  "is_latin_letter u c \<longleftrightarrow> is_ascii_alphabetic c \<or> u_alphabetic u c \<and> u_has_script u c Latin"

definition is_latin_character :: "unicode \<Rightarrow> rchar \<Rightarrow> bool" where
  "is_latin_character u c \<longleftrightarrow> is_ascii_alphanumeric c \<or> u_alphabetic u c \<and> u_has_script u c Latin"

definition is_token_character :: "unicode \<Rightarrow> rchar \<Rightarrow> bool" where
  "is_token_character u c \<longleftrightarrow> u_alphanumeric u c \<or> c = ch (CHR ''_'') \<or> u_combining_mark u c"

definition is_token_component :: "unicode \<Rightarrow> rchar \<Rightarrow> bool" where
  "is_token_component u c \<longleftrightarrow> u_alphanumeric u c \<or> u_combining_mark u c"

definition is_security_separator :: "rchar \<Rightarrow> bool" where
  "is_security_separator c \<longleftrightarrow>
     c \<in> {ch (CHR ''.''), ch (CHR ''-''), ch (CHR ''_''), ch (CHR ''*''), ch (CHR ''~''),
          ch (CHR ''|''), 96}"

definition is_security_letter_or_mark :: "unicode \<Rightarrow> rchar \<Rightarrow> bool" where
  "is_security_letter_or_mark u c \<longleftrightarrow> u_alphabetic u c \<or> u_combining_mark u c"

definition is_ignorable_neighbor :: "unicode \<Rightarrow> rchar \<Rightarrow> bool" where
  "is_ignorable_neighbor u c \<longleftrightarrow>
     u_combining_mark u c \<or> is_security_ignorable u c \<or> is_security_separator c"

definition confusables :: "(rchar \<times> rchar) list" where
  "confusables =
     [(0x3b1, ch (CHR ''a'')), (0x3b2, ch (CHR ''b'')), (0x3b5, ch (CHR ''e'')),
      (0x3b9, ch (CHR ''i'')), (0x3ba, ch (CHR ''k'')), (0x3bf, ch (CHR ''o'')),
      (0x3c1, ch (CHR ''p'')), (0x3c4, ch (CHR ''t'')), (0x3c7, ch (CHR ''x'')),
      (0x3f2, ch (CHR ''c'')), (0x430, ch (CHR ''a'')), (0x432, ch (CHR ''b'')),
      (0x441, ch (CHR ''c'')), (0x435, ch (CHR ''e'')), (0x456, ch (CHR ''i'')),
      (0x43a, ch (CHR ''k'')), (0x43c, ch (CHR ''m'')), (0x43d, ch (CHR ''h'')),
      (0x43e, ch (CHR ''o'')), (0x440, ch (CHR ''p'')), (0x442, ch (CHR ''t'')),
      (0x445, ch (CHR ''x'')), (0x443, ch (CHR ''y'')), (0x455, ch (CHR ''s'')),
      (0x458, ch (CHR ''j''))]"

definition confusable_mapping :: "unicode \<Rightarrow> rchar \<Rightarrow> rchar option" where
  "confusable_mapping u c =
     (case map_of confusables c of
        None \<Rightarrow> None
      | Some m \<Rightarrow> if u_has_script u c Greek \<or> u_has_script u c Cyrillic then Some m else None)"

section \<open>Compatibility normalisation and folding\<close>

definition source_chars :: "rstr \<Rightarrow> mapped" where
  "source_chars input =
     map (\<lambda>(start, c). (c, Span start (start + utf8_width c))) (char_indices 0 input)"

text \<open>
  Runs of non-starters are sorted by combining class; a starter ends a run. The code sorts each
  run of the slice in place when it reaches the starter after it.
\<close>

fun canonical_order_loop :: "unicode \<Rightarrow> mapped \<Rightarrow> mapped \<Rightarrow> mapped" where
  "canonical_order_loop u pending [] = sort_key (\<lambda>x. u_combining_class u (fst x)) pending"
| "canonical_order_loop u pending (x # xs) =
     (if u_combining_class u (fst x) = 0
      then sort_key (\<lambda>x. u_combining_class u (fst x)) pending @ x # canonical_order_loop u [] xs
      else canonical_order_loop u (pending @ [x]) xs)"

definition canonical_order_mapped :: "unicode \<Rightarrow> mapped \<Rightarrow> mapped" where
  "canonical_order_mapped u xs = canonical_order_loop u [] xs"

definition span_hull :: "byte_span \<Rightarrow> byte_span \<Rightarrow> byte_span" where
  "span_hull a b = Span (min (sp_start a) (sp_start b)) (max (sp_end a) (sp_end b))"

fun compose_loop :: "unicode \<Rightarrow> mapped \<Rightarrow> nat option \<Rightarrow> nat \<Rightarrow> mapped \<Rightarrow> mapped" where
  "compose_loop u composed starter last_class [] = composed"
| "compose_loop u composed starter last_class (x # xs) =
     (let class = u_combining_class u (fst x);
          composition =
            (case starter of
               None \<Rightarrow> None
             | Some index \<Rightarrow>
                 if last_class = 0 \<or> last_class < class
                 then map_option (\<lambda>c. (index, c)) (u_compose u (fst (composed ! index)) (fst x))
                 else None)
      in case composition of
           Some (index, c) \<Rightarrow>
             compose_loop u (composed[index := (c, span_hull (snd (composed ! index)) (snd x))])
               starter last_class xs
         | None \<Rightarrow>
             if class = 0 then compose_loop u (composed @ [x]) (Some (length composed)) 0 xs
             else compose_loop u (composed @ [x]) starter class xs)"

definition canonical_compose_mapped :: "unicode \<Rightarrow> mapped \<Rightarrow> mapped" where
  "canonical_compose_mapped u xs = compose_loop u [] None 0 xs"

definition mapped_nfkc_from_source :: "unicode \<Rightarrow> mapped \<Rightarrow> mapped" where
  "mapped_nfkc_from_source u source =
     canonical_compose_mapped u
       (canonical_order_mapped u
         (concat (map (\<lambda>(c, original). map (\<lambda>d. (d, original)) (u_decompose_compatible u c)) source)))"

definition mapped_nfkc :: "unicode \<Rightarrow> rstr \<Rightarrow> mapped" where
  "mapped_nfkc u input = mapped_nfkc_from_source u (source_chars input)"

definition fold_mapped :: "unicode \<Rightarrow> mapped \<Rightarrow> mapped" where
  "fold_mapped u xs = concat (map (\<lambda>(c, original). map (\<lambda>d. (d, original)) (u_fold u c)) xs)"

definition canonical_mapped :: "unicode \<Rightarrow> rstr \<Rightarrow> mapped" where
  "canonical_mapped u input = fold_mapped u (mapped_nfkc u input)"

section \<open>The canonical view\<close>

definition nt_push :: "rchar \<Rightarrow> byte_span \<Rightarrow> normalized_text \<Rightarrow> normalized_text" where
  "nt_push c original t =
     \<lparr>nt_text = nt_text t @ [c],
      nt_spans = nt_spans t @
        [NCS (Span (byte_len (nt_text t)) (byte_len (nt_text t @ [c]))) original]\<rparr>"

definition merge_optional_span :: "byte_span option \<Rightarrow> byte_span \<Rightarrow> byte_span" where
  "merge_optional_span first second =
     (case first of Some f \<Rightarrow> span_hull f second | None \<Rightarrow> second)"

definition is_separator :: "rchar \<Rightarrow> bool" where
  "is_separator c \<longleftrightarrow> \<not> is_joiner c \<and> (is_whitespace c \<or> is_separator_punctuation c)"

fun from_mapped_loop ::
  "normalized_text \<Rightarrow> byte_span option \<Rightarrow> mapped \<Rightarrow> normalized_text" where
  "from_mapped_loop result pending [] = result"
| "from_mapped_loop result pending ((c, original) # xs) =
     (if is_ignored_format c then from_mapped_loop result pending xs
      else if is_separator c
      then from_mapped_loop result (Some (merge_optional_span pending original)) xs
      else
        let result1 = (case pending of
              Some separator \<Rightarrow>
                if nt_text result \<noteq> [] then nt_push (ch (CHR '' '')) separator result else result
            | None \<Rightarrow> result)
        in from_mapped_loop (nt_push c original result1) None xs)"

definition from_mapped :: "mapped \<Rightarrow> normalized_text" where
  "from_mapped xs = from_mapped_loop \<lparr>nt_text = [], nt_spans = []\<rparr> None xs"

definition normalized_text_new :: "unicode \<Rightarrow> rstr \<Rightarrow> normalized_text" where
  "normalized_text_new u input = from_mapped (canonical_mapped u input)"

definition normalize_pattern :: "unicode \<Rightarrow> rstr \<Rightarrow> rstr" where
  "normalize_pattern u pattern = nt_text (normalized_text_new u pattern)"

definition surface_span_invalid :: "rstr \<Rightarrow> surface_span \<Rightarrow> bool" where
  "surface_span_invalid input s \<longleftrightarrow>
     sp_end (ss_text s) \<le> sp_start (ss_text s)
     \<or> sp_start (ss_text s) < sp_start (ss_attributed s)
     \<or> sp_end (ss_attributed s) < sp_end (ss_text s)
     \<or> byte_len input < sp_end (ss_attributed s)
     \<or> \<not> is_char_boundary input (sp_start (ss_attributed s))
     \<or> \<not> is_char_boundary input (sp_end (ss_attributed s))
     \<or> \<not> is_char_boundary input (sp_start (ss_text s))
     \<or> \<not> is_char_boundary input (sp_end (ss_text s))"

definition shift_span :: "nat \<Rightarrow> byte_span \<Rightarrow> byte_span" where
  "shift_span n s = Span (sp_start s + n) (sp_end s + n)"

text \<open>The first and the last character of a fragment take up the bytes trimmed from its text.\<close>

definition widen_fragment :: "byte_span \<Rightarrow> mapped \<Rightarrow> mapped" where
  "widen_fragment attributed xs =
     (if xs = [] then []
      else let ys = xs[0 := (fst (xs ! 0), Span (sp_start attributed) (sp_end (snd (xs ! 0))))];
               k = length ys - 1
           in ys[k := (fst (ys ! k), Span (sp_start (snd (ys ! k))) (sp_end attributed))])"

fun surface_spans_loop ::
  "unicode \<Rightarrow> rstr \<Rightarrow> mapped \<Rightarrow> byte_span option \<Rightarrow> surface_span list \<Rightarrow> mapped" where
  "surface_spans_loop u input mapped previous [] = mapped"
| "surface_spans_loop u input mapped previous (s # ss) =
     (if surface_span_invalid input s then surface_spans_loop u input mapped previous ss
      else
        let gap = (case previous of
              Some p \<Rightarrow>
                if sp_end p < sp_start (ss_attributed s)
                then [(ch (CHR '' ''), Span (sp_end p) (sp_start (ss_attributed s)))] else []
            | None \<Rightarrow> []);
            fragment = the (str_slice input (sp_start (ss_text s)) (sp_end (ss_text s)));
            chars = map (\<lambda>(c, original). (c, shift_span (sp_start (ss_text s)) original))
                      (canonical_mapped u fragment)
        in surface_spans_loop u input (mapped @ gap @ widen_fragment (ss_attributed s) chars)
             (Some (ss_attributed s)) ss)"

definition from_original_spans :: "unicode \<Rightarrow> rstr \<Rightarrow> surface_span list \<Rightarrow> normalized_text" where
  "from_original_spans u input spans = from_mapped (surface_spans_loop u input [] None spans)"

section \<open>Provenance\<close>

fun original_span_loop ::
  "nat \<Rightarrow> nat \<Rightarrow> byte_span option \<Rightarrow> normalized_char_span list \<Rightarrow> byte_span option" where
  "original_span_loop a b original [] = original"
| "original_span_loop a b original (e # es) =
     (if sp_end (ncs_normalized e) \<le> a then original_span_loop a b original es
      else if b \<le> sp_start (ncs_normalized e) then original
      else original_span_loop a b (Some (merge_optional_span original (ncs_original e))) es)"

definition original_span ::
  "rstr \<Rightarrow> normalized_char_span list \<Rightarrow> nat \<Rightarrow> nat \<Rightarrow> byte_span option" where
  "original_span t spans a b =
     (if b \<le> a \<or> byte_len t < b \<or> \<not> is_char_boundary t a \<or> \<not> is_char_boundary t b then None
      else original_span_loop a b None spans)"

fun within_loop :: "byte_span \<Rightarrow> byte_span \<Rightarrow> bool \<Rightarrow> normalized_char_span list \<Rightarrow> bool" where
  "within_loop normalized original found [] = found"
| "within_loop normalized original found (e # es) =
     (if sp_end (ncs_normalized e) \<le> sp_start normalized then within_loop normalized original found es
      else if sp_end normalized \<le> sp_start (ncs_normalized e) then found
      else if sp_start (ncs_original e) < sp_start original \<or> sp_end original < sp_end (ncs_original e)
      then False
      else within_loop normalized original True es)"

definition span_is_within_original ::
  "normalized_char_span list \<Rightarrow> byte_span \<Rightarrow> byte_span \<Rightarrow> bool" where
  "span_is_within_original spans normalized original = within_loop normalized original False spans"

definition nt_span_for :: "normalized_text \<Rightarrow> byte_span \<Rightarrow> byte_span option" where
  "nt_span_for t n = original_span (nt_text t) (nt_spans t) (sp_start n) (sp_end n)"

section \<open>The security view\<close>

fun count_backslashes :: "mapped \<Rightarrow> nat \<Rightarrow> nat" where
  "count_backslashes source 0 = 0"
| "count_backslashes source (Suc cursor) =
     (if fst (source ! cursor) = 92 then Suc (count_backslashes source cursor) else 0)"

lemma count_backslashes_code [code]:
  "count_backslashes source n =
     (if n = 0 then 0
      else if fst (source ! (n - 1)) = 92 then Suc (count_backslashes source (n - 1)) else 0)"
  by (cases n) simp_all

definition is_markdown_escaped :: "mapped \<Rightarrow> nat \<Rightarrow> bool" where
  "is_markdown_escaped source index \<longleftrightarrow> odd (count_backslashes source index)"

fun destination_loop :: "mapped \<Rightarrow> nat \<Rightarrow> nat list \<Rightarrow> nat option" where
  "destination_loop source depth [] = None"
| "destination_loop source depth (i # is) =
     (if is_markdown_escaped source i then destination_loop source depth is
      else let c = fst (source ! i)
           in if c = ch (CHR ''('') then destination_loop source (depth + 1) is
              else if c = ch (CHR '')'')
              then (if depth - 1 = 0 then Some i else destination_loop source (depth - 1) is)
              else if c = 10 \<or> c = 13 then None
              else destination_loop source depth is)"

definition str_eq_ignore_ascii_case :: "rstr \<Rightarrow> rstr \<Rightarrow> bool" where
  "str_eq_ignore_ascii_case a b \<longleftrightarrow> map to_ascii_lowercase a = map to_ascii_lowercase b"

definition has_http_scheme :: "rstr \<Rightarrow> bool" where
  "has_http_scheme d \<longleftrightarrow>
     (case str_to d 8 of
        Some p \<Rightarrow> str_eq_ignore_ascii_case p (lit ''https://'') | None \<Rightarrow> False)
     \<or> (case str_to d 7 of
          Some p \<Rightarrow> str_eq_ignore_ascii_case p (lit ''http://'') | None \<Rightarrow> False)"

definition masked_link_at :: "mapped \<Rightarrow> nat \<Rightarrow> (nat \<times> nat) option" where
  "masked_link_at source start =
     (if length source \<le> start \<or> fst (source ! start) \<noteq> ch (CHR ''['') \<or> is_markdown_escaped source start
      then None
      else
        case List.find (\<lambda>i. fst (source ! i) = ch (CHR '']'') \<and> \<not> is_markdown_escaped source i)
               [start + 1..<length source] of
          None \<Rightarrow> None
        | Some label_end \<Rightarrow>
            if label_end = start + 1 \<or> length source \<le> label_end + 1
               \<or> fst (source ! (label_end + 1)) \<noteq> ch (CHR ''('') then None
            else
              case destination_loop source 1 [label_end + 2..<length source] of
                None \<Rightarrow> None
              | Some destination_end \<Rightarrow>
                  let destination =
                        trim_matches (\<lambda>c. c = ch (CHR ''<'') \<or> c = ch (CHR ''>''))
                          (map fst (take (destination_end - (label_end + 2)) (drop (label_end + 2) source)))
                  in if has_http_scheme destination then Some (label_end, destination_end) else None)"

lemma destination_loop_mem: "destination_loop source depth is = Some i \<Longrightarrow> i \<in> set is"
  by (induction source depth "is" rule: destination_loop.induct) (auto simp: Let_def split: if_splits)

lemma masked_link_at_bounds:
  assumes "masked_link_at source start = Some (l, d)"
  shows "start + 1 < l" "l + 2 \<le> d" "d < length source"
proof -
  from assms have f: "List.find (\<lambda>i. fst (source ! i) = ch (CHR '']'') \<and> \<not> is_markdown_escaped source i)
      [start + 1..<length source] = Some l" and ne: "l \<noteq> start + 1"
    and dl: "destination_loop source 1 [l + 2..<length source] = Some d"
    by (auto simp: masked_link_at_def Let_def split: if_splits option.splits)
  from f have "l \<in> set [start + 1..<length source]" by (metis find_Some_iff nth_mem)
  with ne show "start + 1 < l" by simp
  from destination_loop_mem [OF dl] show "l + 2 \<le> d" "d < length source" by simp_all
qed

function markdown_visible_loop :: "mapped \<Rightarrow> mapped \<Rightarrow> nat \<Rightarrow> mapped" where
  "markdown_visible_loop source visible cursor =
     (if cursor < length source then
        case masked_link_at source cursor of
          None \<Rightarrow> markdown_visible_loop source (visible @ [source ! cursor]) (cursor + 1)
        | Some (label_end, destination_end) \<Rightarrow>
            markdown_visible_loop source
              (visible @ take (label_end - (cursor + 1)) (drop (cursor + 1) source))
              (destination_end + 1)
      else visible)"
  by pat_completeness auto
termination
  by (relation "measure (\<lambda>(source, _, cursor). length source - cursor)")
     (auto, frule masked_link_at_bounds(1), frule masked_link_at_bounds(2),
      drule masked_link_at_bounds(3), linarith)

declare markdown_visible_loop.simps [simp del]

definition discord_markdown_visible_source :: "rstr \<Rightarrow> mapped" where
  "discord_markdown_visible_source input = markdown_visible_loop (source_chars input) [] 0"

text \<open>The first character in a direction that is not skipped.\<close>

definition neighboring_character :: "mapped \<Rightarrow> nat \<Rightarrow> int \<Rightarrow> (rchar \<Rightarrow> bool) \<Rightarrow> rchar option" where
  "neighboring_character t index direction skip =
     List.find (\<lambda>c. \<not> skip c)
       (map fst (if 0 < direction then drop (index + 1) t else rev (take index t)))"

definition neighbors_both ::
  "mapped \<Rightarrow> nat \<Rightarrow> (rchar \<Rightarrow> bool) \<Rightarrow> (rchar \<Rightarrow> bool) \<Rightarrow> bool" where
  "neighbors_both t index skip p \<longleftrightarrow>
     (case neighboring_character t index 1 skip of None \<Rightarrow> False | Some c \<Rightarrow> p c)
     \<and> (case neighboring_character t index (- 1) skip of None \<Rightarrow> False | Some c \<Rightarrow> p c)"

definition drop_contextual_ignorables :: "unicode \<Rightarrow> mapped \<Rightarrow> mapped" where
  "drop_contextual_ignorables u visible =
     concat (map (\<lambda>i.
        if is_security_ignorable u (fst (visible ! i))
           \<and> neighbors_both visible i (is_ignorable_neighbor u) (is_latin_character u)
        then [] else [visible ! i]) [0..<length visible])"

definition drop_inserted_separators :: "unicode \<Rightarrow> mapped \<Rightarrow> mapped" where
  "drop_inserted_separators u t =
     concat (map (\<lambda>i.
        if is_security_separator (fst (t ! i))
           \<and> neighbors_both t i is_security_separator (is_security_letter_or_mark u)
        then [] else [t ! i]) [0..<length t])"

function map_mixed_script_tokens :: "unicode \<Rightarrow> mapped \<Rightarrow> mapped" where
  "map_mixed_script_tokens u [] = []"
| "map_mixed_script_tokens u (x # xs) =
     (if \<not> is_token_component u (fst x) then x # map_mixed_script_tokens u xs
      else
        let token = x # takeWhile (\<lambda>y. is_token_component u (fst y)) xs;
            rest = dropWhile (\<lambda>y. is_token_component u (fst y)) xs;
            has_latin = (\<exists>y \<in> set token. is_latin_letter u (fst y));
            has_confusable = (\<exists>y \<in> set token. confusable_mapping u (fst y) \<noteq> None)
        in (if has_latin \<and> has_confusable
            then map (\<lambda>(c, original).
                   (case confusable_mapping u c of Some m \<Rightarrow> m | None \<Rightarrow> c, original)) token
            else token) @ map_mixed_script_tokens u rest)"
  by pat_completeness auto
termination
  by (relation "measure (\<lambda>(u, xs). length xs)") (auto simp: le_imp_less_Suc length_dropWhile_le)

definition security_mapped :: "unicode \<Rightarrow> rstr \<Rightarrow> mapped" where
  "security_mapped u input =
     (let folded = fold_mapped u (mapped_nfkc_from_source u (discord_markdown_visible_source input));
          visible = filter (\<lambda>x. \<not> is_ignored_format (fst x)) folded
      in map_mixed_script_tokens u
           (drop_inserted_separators u (drop_contextual_ignorables u visible)))"

definition sn_push :: "rchar \<Rightarrow> byte_span \<Rightarrow> security_normalized_text \<Rightarrow> security_normalized_text" where
  "sn_push c original t =
     \<lparr>sn_text = sn_text t @ [c],
      sn_spans = sn_spans t @
        [NCS (Span (byte_len (sn_text t)) (byte_len (sn_text t @ [c]))) original]\<rparr>"

definition security_normalized_text_new :: "unicode \<Rightarrow> rstr \<Rightarrow> security_normalized_text" where
  "security_normalized_text_new u input =
     fold (\<lambda>(c, original). sn_push c original) (security_mapped u input)
       \<lparr>sn_text = [], sn_spans = []\<rparr>"

definition security_normalize_pattern :: "unicode \<Rightarrow> rstr \<Rightarrow> rstr" where
  "security_normalize_pattern u pattern = sn_text (security_normalized_text_new u pattern)"

definition sn_span_for :: "security_normalized_text \<Rightarrow> byte_span \<Rightarrow> byte_span option" where
  "sn_span_for t n = original_span (sn_text t) (sn_spans t) (sp_start n) (sp_end n)"

definition is_security_pattern_eligible :: "unicode \<Rightarrow> rstr \<Rightarrow> bool" where
  "is_security_pattern_eligible u pattern \<longleftrightarrow>
     pattern \<noteq> [] \<and> (\<forall>c \<in> set pattern. u_alphabetic u c \<or> u_combining_mark u c) \<and>
     (let letters = filter (\<lambda>c. \<not> u_combining_mark u c) (normalize_pattern u pattern)
      in (\<forall>c \<in> set letters. u_alphabetic u c \<and> is_latin_letter u c) \<and> 4 \<le> length letters)"

section \<open>Every span is one of the input\<close>

definition mapped_ok :: "rstr \<Rightarrow> mapped \<Rightarrow> bool" where
  "mapped_ok input xs \<longleftrightarrow> (\<forall>x \<in> set xs. valid_span input (snd x))"

lemma mapped_ok_simps [simp]:
  "mapped_ok input []"
  "mapped_ok input (x # xs) \<longleftrightarrow> valid_span input (snd x) \<and> mapped_ok input xs"
  "mapped_ok input (xs @ ys) \<longleftrightarrow> mapped_ok input xs \<and> mapped_ok input ys"
  by (auto simp: mapped_ok_def)

lemma mapped_ok_subset: "mapped_ok input xs \<Longrightarrow> set ys \<subseteq> set xs \<Longrightarrow> mapped_ok input ys"
  by (auto simp: mapped_ok_def)

lemma mapped_ok_iff: "mapped_ok input xs \<longleftrightarrow> (\<forall>s \<in> set (map snd xs). valid_span input s)"
  by (simp add: mapped_ok_def)

lemma mapped_ok_snd_cong: "map snd xs = map snd ys \<Longrightarrow> mapped_ok input xs = mapped_ok input ys"
  by (simp only: mapped_ok_iff)

lemma mapped_ok_expand:
  "mapped_ok input xs \<Longrightarrow> mapped_ok input (concat (map (\<lambda>(c, s). map (\<lambda>d. (d, s)) (f c)) xs))"
  by (induction xs) (auto simp: mapped_ok_def)

lemma valid_span_hull: "valid_span input a \<Longrightarrow> valid_span input b \<Longrightarrow> valid_span input (span_hull a b)"
  by (auto simp: valid_span_def span_hull_def min_def max_def)

lemma source_chars_ok: "mapped_ok input (source_chars input)"
proof -
  have "valid_span input (Span i (i + utf8_width c))" if ic: "(i, c) \<in> set (char_indices 0 input)" for i c
  proof -
    from char_indices_split [OF ic] obtain x y where "input = x @ c # y" "i = byte_len x" by auto
    then have "input = x @ (c # y)" "byte_len x = i" "input = (x @ [c]) @ y"
      "byte_len (x @ [c]) = i + utf8_width c" by simp_all
    then show ?thesis unfolding valid_span_def is_char_boundary_iff by (metis byte_span.sel less_add_same_cancel1 utf8_width_pos)
  qed
  then show ?thesis by (auto simp: mapped_ok_def source_chars_def)
qed

lemma set_canonical_order_loop: "set (canonical_order_loop u pending xs) = set pending \<union> set xs"
  by (induction u pending xs rule: canonical_order_loop.induct) auto

lemma compose_loop_ok:
  "mapped_ok input composed \<Longrightarrow> mapped_ok input xs \<Longrightarrow>
     (case starter of None \<Rightarrow> True | Some i \<Rightarrow> i < length composed) \<Longrightarrow>
     mapped_ok input (compose_loop u composed starter last_class xs)"
proof (induction u composed starter last_class xs rule: compose_loop.induct)
  case (2 u composed starter last_class x xs)
  define composition where "composition = (case starter of
               None \<Rightarrow> None
             | Some index \<Rightarrow>
                 if last_class = 0 \<or> last_class < u_combining_class u (fst x)
                 then map_option (\<lambda>c. (index, c)) (u_compose u (fst (composed ! index)) (fst x))
                 else None)"
  show ?case
  proof (cases composition)
    case None
    have "mapped_ok input (compose_loop u (composed @ [x]) (Some (length composed)) 0 xs)"
      if "u_combining_class u (fst x) = 0"
      by (rule "2.IH"(1) [OF refl composition_def None that]) (use "2.prems" in simp_all)
    moreover have "mapped_ok input (compose_loop u (composed @ [x]) starter (u_combining_class u (fst x)) xs)"
      if "u_combining_class u (fst x) \<noteq> 0"
      by (rule "2.IH"(2) [OF refl composition_def None that])
         (use "2.prems" in \<open>auto split: option.splits\<close>)
    ultimately show ?thesis
      using None by (simp add: Let_def composition_def)
  next
    case (Some p)
    obtain i c where p: "p = (i, c)" by (cases p)
    with Some have st: "starter = Some i" by (auto simp: composition_def split: option.splits if_splits)
    with "2.prems" have i: "i < length composed" by simp
    have "mapped_ok input (composed[i := (c, span_hull (snd (composed ! i)) (snd x))])"
    proof -
      have "valid_span input (span_hull (snd (composed ! i)) (snd x))"
        using "2.prems"(1,2) i by (intro valid_span_hull) (auto simp: mapped_ok_def)
      then show ?thesis
        using "2.prems"(1) set_update_subset_insert [of composed i] by (fastforce simp: mapped_ok_def)
    qed
    then have "mapped_ok input (compose_loop u
        (composed[i := (c, span_hull (snd (composed ! i)) (snd x))]) starter last_class xs)"
      by (intro "2.IH"(3) [OF refl composition_def _ p [symmetric]]) (use Some "2.prems" i st in auto)
    then show ?thesis
      using Some p by (simp add: Let_def composition_def)
  qed
qed simp

lemma nfkc_ok:
  assumes "mapped_ok input xs"
  shows "mapped_ok input (mapped_nfkc_from_source u xs)"
proof -
  have "mapped_ok input (canonical_order_mapped u
      (concat (map (\<lambda>(c, s). map (\<lambda>d. (d, s)) (u_decompose_compatible u c)) xs)))"
    using mapped_ok_expand [OF assms, of "u_decompose_compatible u"]
    by (simp add: mapped_ok_def canonical_order_mapped_def set_canonical_order_loop)
  then show ?thesis
    unfolding mapped_nfkc_from_source_def canonical_compose_mapped_def
    by (rule compose_loop_ok [rotated]) simp_all
qed

lemma fold_mapped_ok: "mapped_ok input xs \<Longrightarrow> mapped_ok input (fold_mapped u xs)"
  unfolding fold_mapped_def by (rule mapped_ok_expand)

lemma canonical_mapped_ok: "mapped_ok input (canonical_mapped u input)"
  by (simp add: canonical_mapped_def mapped_nfkc_def fold_mapped_ok nfkc_ok source_chars_ok)

section \<open>Normalised texts\<close>

text \<open>
  A view is well formed when its character spans tile its text in order and every original span
  is a valid span of the input.
\<close>

definition tiles :: "rstr \<Rightarrow> normalized_char_span list \<Rightarrow> bool" where
  "tiles t spans \<longleftrightarrow>
     map ncs_normalized spans = map (\<lambda>(i, c). Span i (i + utf8_width c)) (char_indices 0 t)"

definition view_ok :: "rstr \<Rightarrow> rstr \<Rightarrow> normalized_char_span list \<Rightarrow> bool" where
  "view_ok input t spans \<longleftrightarrow> tiles t spans \<and> (\<forall>e \<in> set spans. valid_span input (ncs_original e))"

lemma view_ok_Nil [simp]: "view_ok input [] []"
  by (simp add: view_ok_def tiles_def)

lemma view_ok_snoc:
  "view_ok input t spans \<Longrightarrow> valid_span input s \<Longrightarrow>
     view_ok input (t @ [c]) (spans @ [NCS (Span (byte_len t) (byte_len (t @ [c]))) s])"
  by (auto simp: view_ok_def tiles_def)

abbreviation nt_ok :: "rstr \<Rightarrow> normalized_text \<Rightarrow> bool" where
  "nt_ok input t \<equiv> view_ok input (nt_text t) (nt_spans t)"

lemma nt_push_ok: "nt_ok input t \<Longrightarrow> valid_span input s \<Longrightarrow> nt_ok input (nt_push c s t)"
  unfolding nt_push_def using view_ok_snoc by simp

lemma from_mapped_loop_ok:
  "nt_ok input t \<Longrightarrow> (case pending of None \<Rightarrow> True | Some s \<Rightarrow> valid_span input s) \<Longrightarrow> mapped_ok input xs
     \<Longrightarrow> nt_ok input (from_mapped_loop t pending xs)"
proof (induction t pending xs rule: from_mapped_loop.induct)
  case (2 result pending c original xs)
  have merged: "valid_span input (merge_optional_span pending original)"
    using "2.prems" by (auto simp: merge_optional_span_def valid_span_hull split: option.splits)
  show ?case
  proof (cases "is_ignored_format c \<or> is_separator c")
    case True
    with "2.IH"(1,2) "2.prems" merged show ?thesis by auto
  next
    case False
    define r1 where "r1 = (case pending of
              Some separator \<Rightarrow>
                if nt_text result \<noteq> [] then nt_push (ch (CHR '' '')) separator result else result
            | None \<Rightarrow> result)"
    have "nt_ok input r1"
      using "2.prems" by (auto simp: r1_def nt_push_ok split: option.splits)
    then have "nt_ok input (from_mapped_loop (nt_push c original r1) None xs)"
      using "2.IH"(3) [OF _ _ r1_def] False "2.prems" by (simp add: nt_push_ok)
    with False show ?thesis by (simp add: r1_def Let_def)
  qed
qed simp

lemma from_mapped_ok: "mapped_ok input xs \<Longrightarrow> nt_ok input (from_mapped xs)"
  unfolding from_mapped_def by (rule from_mapped_loop_ok) simp_all

lemma normalized_text_new_ok: "nt_ok input (normalized_text_new u input)"
  by (simp add: normalized_text_new_def from_mapped_ok canonical_mapped_ok)

text \<open>Fragments of the input.\<close>

lemma valid_span_shift:
  assumes "str_slice input a b = Some fragment" "valid_span fragment s"
  shows "valid_span input (shift_span a s)"
proof -
  from assms(1) obtain p q where s: "input = p @ fragment @ q" "byte_len p = a"
    by (auto simp: str_slice_Some_iff)
  have "is_char_boundary input (n + a)" if "is_char_boundary fragment n" for n
  proof -
    from that obtain x y where "fragment = x @ y" "byte_len x = n" by (auto simp: is_char_boundary_iff)
    then have "input = (p @ x) @ (y @ q)" "byte_len (p @ x) = n + a" using s by simp_all
    then show ?thesis unfolding is_char_boundary_iff by blast
  qed
  with assms(2) show ?thesis by (simp add: valid_span_def shift_span_def)
qed

lemma surface_slice:
  assumes "\<not> surface_span_invalid input s"
  obtains fragment where "str_slice input (sp_start (ss_text s)) (sp_end (ss_text s)) = Some fragment"
    "byte_len fragment = sp_end (ss_text s) - sp_start (ss_text s)"
proof -
  have "is_char_boundary input (sp_start (ss_text s))" "is_char_boundary input (sp_end (ss_text s))"
    "sp_start (ss_text s) \<le> sp_end (ss_text s)"
    using assms by (auto simp: surface_span_invalid_def)
  from str_slice_ex [OF this] obtain p m q where "byte_len p = sp_start (ss_text s)"
    "byte_len (p @ m) = sp_end (ss_text s)" "str_slice input (sp_start (ss_text s)) (sp_end (ss_text s)) = Some m"
    by blast
  then show thesis by (intro that [of m]) auto
qed

lemma valid_span_in_range: "valid_span s x \<Longrightarrow> sp_end x \<le> byte_len s"
  by (simp add: valid_span_def is_char_boundary_le)

lemma widen_fragment_ok:
  assumes ok: "mapped_ok input xs"
    and within: "\<And>x. x \<in> set xs \<Longrightarrow> sp_start a \<le> sp_start (snd x) \<and> sp_end (snd x) \<le> sp_end a"
    and a: "is_char_boundary input (sp_start a)" "is_char_boundary input (sp_end a)"
  shows "mapped_ok input (widen_fragment a xs)"
proof (cases xs)
  case Nil
  then show ?thesis by (simp add: widen_fragment_def)
next
  case (Cons x xs')
  define ys where "ys = xs[0 := (fst (xs ! 0), Span (sp_start a) (sp_end (snd (xs ! 0))))]"
  have ys: "ys = (fst x, Span (sp_start a) (sp_end (snd x))) # xs'" using Cons by (simp add: ys_def)
  have "valid_span input (Span (sp_start a) (sp_end (snd x)))"
    using ok within [of x] a Cons by (auto simp: valid_span_def)
  then have ok': "mapped_ok input ys" using ok Cons by (simp add: ys)
  have within': "sp_end (snd y) \<le> sp_end a" if "y \<in> set ys" for y
  proof -
    from that have "y = (fst x, Span (sp_start a) (sp_end (snd x))) \<or> y \<in> set xs'" by (simp add: ys)
    then show ?thesis using within [of x] within [of y] Cons by (elim disjE) simp_all
  qed
  let ?k = "length ys - 1"
  have k: "?k < length ys" by (simp add: ys)
  then have m: "ys ! ?k \<in> set ys" by (rule nth_mem)
  then have "valid_span input (snd (ys ! ?k))" using ok' by (simp add: mapped_ok_def)
  then have "valid_span input (Span (sp_start (snd (ys ! ?k))) (sp_end a))"
    using within' [OF m] a by (simp add: valid_span_def)
  then have "mapped_ok input (ys[?k := (fst (ys ! ?k), Span (sp_start (snd (ys ! ?k))) (sp_end a))])"
    using ok' set_update_subset_insert [of ys ?k] by (fastforce simp: mapped_ok_def)
  moreover have "widen_fragment a xs = ys[?k := (fst (ys ! ?k), Span (sp_start (snd (ys ! ?k))) (sp_end a))]"
    using Cons by (simp add: widen_fragment_def ys_def Let_def)
  ultimately show ?thesis by simp
qed

lemma surface_spans_loop_ok:
  "mapped_ok input mapped \<Longrightarrow>
     (case previous of None \<Rightarrow> True | Some p \<Rightarrow> is_char_boundary input (sp_end p)) \<Longrightarrow>
     mapped_ok input (surface_spans_loop u input mapped previous ss)"
proof (induction ss arbitrary: mapped previous)
  case (Cons s ss)
  show ?case
  proof (cases "surface_span_invalid input s")
    case True
    with Cons show ?thesis by simp
  next
    case False
    let ?a = "ss_attributed s"
    obtain fragment where f: "str_slice input (sp_start (ss_text s)) (sp_end (ss_text s)) = Some fragment"
      "byte_len fragment = sp_end (ss_text s) - sp_start (ss_text s)"
      using surface_slice [OF False] by blast
    define chars where "chars = map (\<lambda>(c, original). (c, shift_span (sp_start (ss_text s)) original))
        (canonical_mapped u fragment)"
    have inner: "valid_span fragment (snd x)" if "x \<in> set (canonical_mapped u fragment)" for x
      using that canonical_mapped_ok [of fragment u] by (simp add: mapped_ok_def)
    have "mapped_ok input chars"
      using inner valid_span_shift [OF f(1)] by (auto simp: mapped_ok_def chars_def)
    moreover have "sp_start ?a \<le> sp_start (snd x) \<and> sp_end (snd x) \<le> sp_end ?a" if "x \<in> set chars" for x
    proof -
      from that obtain y where y: "y \<in> set (canonical_mapped u fragment)"
        "snd x = shift_span (sp_start (ss_text s)) (snd y)" by (auto simp: chars_def)
      have "sp_end (snd y) \<le> sp_end (ss_text s) - sp_start (ss_text s)"
        using valid_span_in_range [OF inner [OF y(1)]] f(2) by simp
      with False y(2) show ?thesis by (auto simp: surface_span_invalid_def shift_span_def)
    qed
    ultimately have "mapped_ok input (widen_fragment ?a chars)"
      using False by (intro widen_fragment_ok) (auto simp: surface_span_invalid_def)
    moreover define gap where "gap = (case previous of
              Some p \<Rightarrow> if sp_end p < sp_start ?a then [(ch (CHR '' ''), Span (sp_end p) (sp_start ?a))] else []
            | None \<Rightarrow> [])"
    moreover have "mapped_ok input gap"
      using False Cons.prems(2) by (auto simp: gap_def valid_span_def surface_span_invalid_def split: option.splits)
    ultimately have "mapped_ok input (mapped @ gap @ widen_fragment ?a chars)" using Cons.prems(1) by simp
    moreover have "is_char_boundary input (sp_end ?a)" using False by (auto simp: surface_span_invalid_def)
    ultimately have "mapped_ok input (surface_spans_loop u input
        (mapped @ gap @ widen_fragment ?a chars) (Some ?a) ss)"
      by (intro Cons.IH) simp_all
    with False f show ?thesis by (simp add: Let_def gap_def chars_def)
  qed
qed simp

lemma from_original_spans_ok: "nt_ok input (from_original_spans u input ss)"
  unfolding from_original_spans_def by (intro from_mapped_ok surface_spans_loop_ok) simp_all

section \<open>The security view\<close>

lemma markdown_visible_loop_subset:
  "set (markdown_visible_loop source visible cursor) \<subseteq> set visible \<union> set source"
proof (induction source visible cursor rule: markdown_visible_loop.induct)
  case (1 source visible cursor)
  show ?case
  proof (cases "cursor < length source")
    case False
    then show ?thesis by (simp add: markdown_visible_loop.simps)
  next
    case True
    show ?thesis
    proof (cases "masked_link_at source cursor")
      case None
      with 1 True show ?thesis by (subst markdown_visible_loop.simps) auto
    next
      case (Some p)
      obtain l d where p: "p = (l, d)" by (cases p)
      have "set (take k (drop m source)) \<subseteq> set source" for k m
        by (meson set_take_subset set_drop_subset subset_trans)
      with 1(2) [OF True Some p [symmetric]] True Some p show ?thesis
        by (subst markdown_visible_loop.simps) fastforce
    qed
  qed
qed

lemma filter_index_subset: "set (concat (map (\<lambda>i. if P i then [] else [xs ! i]) [0..<length xs])) \<subseteq> set xs"
  by auto

lemma drop_contextual_ok: "mapped_ok input xs \<Longrightarrow> mapped_ok input (drop_contextual_ignorables u xs)"
  unfolding drop_contextual_ignorables_def by (erule mapped_ok_subset) (rule filter_index_subset)

lemma drop_inserted_ok: "mapped_ok input xs \<Longrightarrow> mapped_ok input (drop_inserted_separators u xs)"
  unfolding drop_inserted_separators_def by (erule mapped_ok_subset) (rule filter_index_subset)

lemma map_snd_mixed: "map snd (map_mixed_script_tokens u xs) = map snd xs"
proof (induction u xs rule: map_mixed_script_tokens.induct)
  case (2 u x xs)
  have "map snd xs = map snd (takeWhile (\<lambda>y. is_token_component u (fst y)) xs)
      @ map snd (dropWhile (\<lambda>y. is_token_component u (fst y)) xs)"
    by (metis map_append takeWhile_dropWhile_id)
  with 2 show ?case by (auto simp: Let_def comp_def case_prod_beta)
qed simp

lemma security_mapped_ok: "mapped_ok input (security_mapped u input)"
proof -
  have "mapped_ok input (discord_markdown_visible_source input)"
    unfolding discord_markdown_visible_source_def
    using markdown_visible_loop_subset [of "source_chars input" "[]" 0]
    by (intro mapped_ok_subset [OF source_chars_ok]) simp
  then have "mapped_ok input (filter (\<lambda>x. \<not> is_ignored_format (fst x))
      (fold_mapped u (mapped_nfkc_from_source u (discord_markdown_visible_source input))))"
    by (rule mapped_ok_subset [OF fold_mapped_ok [OF nfkc_ok]]) (rule filter_is_subset)
  then show ?thesis
    unfolding security_mapped_def Let_def mapped_ok_snd_cong [OF map_snd_mixed]
    by (intro drop_inserted_ok drop_contextual_ok)
qed

abbreviation sn_ok :: "rstr \<Rightarrow> security_normalized_text \<Rightarrow> bool" where
  "sn_ok input t \<equiv> view_ok input (sn_text t) (sn_spans t)"

lemma security_normalized_text_new_ok: "sn_ok input (security_normalized_text_new u input)"
proof -
  have "sn_ok input t \<Longrightarrow> mapped_ok input xs \<Longrightarrow> sn_ok input (fold (\<lambda>(c, s). sn_push c s) xs t)" for t xs
  proof (induction xs arbitrary: t)
    case (Cons x xs)
    obtain c s where x: "x = (c, s)" by (cases x)
    then have "sn_ok input (sn_push c s t)"
      using view_ok_snoc [of input "sn_text t" "sn_spans t" s c] Cons.prems by (simp add: sn_push_def)
    with Cons x show ?case by simp
  qed simp
  from this [OF _ security_mapped_ok] show ?thesis by (simp add: security_normalized_text_new_def)
qed

section \<open>Mapping back\<close>

definition hull_spans :: "byte_span option \<Rightarrow> byte_span list \<Rightarrow> byte_span option" where
  "hull_spans acc ss = fold (\<lambda>s a. Some (merge_optional_span a s)) ss acc"

lemma hull_spans_simps [simp]:
  "hull_spans acc [] = acc"
  "hull_spans acc (s # ss) = hull_spans (Some (merge_optional_span acc s)) ss"
  by (simp_all add: hull_spans_def)

definition touched :: "nat \<Rightarrow> nat \<Rightarrow> normalized_char_span list \<Rightarrow> normalized_char_span list" where
  "touched a b es = filter (\<lambda>e. a < sp_end (ncs_normalized e) \<and> sp_start (ncs_normalized e) < b) es"

text \<open>
  Over character spans that tile a text the early exit of the loop skips nothing: the result is the
  hull of the original spans of exactly the characters that meet the range.
\<close>

lemma original_span_loop_eq:
  "map ncs_normalized es = map (\<lambda>(i, c). Span i (i + utf8_width c)) (char_indices off t) \<Longrightarrow>
     original_span_loop a b acc es = hull_spans acc (map ncs_original (touched a b es))"
proof (induction es arbitrary: off t acc)
  case Nil
  then show ?case by (simp add: touched_def)
next
  case (Cons e es)
  then obtain c t' where t: "t = c # t'" by (cases t) auto
  have e: "ncs_normalized e = Span off (off + utf8_width c)"
    and es: "map ncs_normalized es = map (\<lambda>(i, c). Span i (i + utf8_width c)) (char_indices (off + utf8_width c) t')"
    using Cons.prems t by auto
  show ?case
  proof (cases "b \<le> off")
    case True
    have "off \<le> sp_start (ncs_normalized x)" if "x \<in> set es" for x
    proof -
      have "ncs_normalized x \<in> set (map ncs_normalized es)" using that by simp
      then obtain i d where "(i, d) \<in> set (char_indices (off + utf8_width c) t')"
        "ncs_normalized x = Span i (i + utf8_width d)" unfolding es by auto
      then show ?thesis using char_indices_bounds by fastforce
    qed
    then have "touched a b es = []" using True by (auto simp: touched_def filter_empty_conv) (meson leD le_trans)
    with Cons.IH [OF es, of acc] True e show ?thesis by (simp add: touched_def)
  next
    case False
    with Cons.IH [OF es] e show ?thesis by (simp add: touched_def)
  qed
qed

lemma hull_spans_valid:
  "\<forall>s \<in> set ss. valid_span input s \<Longrightarrow> (case acc of None \<Rightarrow> True | Some s \<Rightarrow> valid_span input s) \<Longrightarrow>
     hull_spans acc ss = Some s \<Longrightarrow> valid_span input s"
proof (induction ss arbitrary: acc)
  case (Cons x ss)
  have "valid_span input (merge_optional_span acc x)"
    using Cons.prems by (auto simp: merge_optional_span_def valid_span_hull split: option.splits)
  with Cons.IH [of "Some (merge_optional_span acc x)"] Cons.prems show ?case by simp
qed simp

lemma hull_spans_Some: "ss \<noteq> [] \<Longrightarrow> \<exists>s. hull_spans acc ss = Some s"
proof (induction ss arbitrary: acc)
  case (Cons x ss)
  then show ?case by (cases ss) auto
qed simp

lemma hull_spans_covers:
  "hull_spans acc ss = Some h \<Longrightarrow>
     (\<forall>s \<in> set ss. sp_start h \<le> sp_start s \<and> sp_end s \<le> sp_end h) \<and>
     (case acc of None \<Rightarrow> True | Some s \<Rightarrow> sp_start h \<le> sp_start s \<and> sp_end s \<le> sp_end h)"
proof (induction ss arbitrary: acc)
  case (Cons x ss)
  from Cons.IH [of "Some (merge_optional_span acc x)"] Cons.prems
  show ?case by (auto simp: merge_optional_span_def span_hull_def split: option.splits)
qed auto

lemma char_at_byte: "a < byte_len t \<Longrightarrow> \<exists>(i, c) \<in> set (char_indices off t). i \<le> off + a \<and> off + a < i + utf8_width c"
proof (induction t arbitrary: off a)
  case (Cons c t)
  show ?case
  proof (cases "a < utf8_width c")
    case False
    with Cons.prems have "a - utf8_width c < byte_len t" by simp
    from Cons.IH [OF this, of "off + utf8_width c"] False show ?thesis by auto
  qed auto
qed simp

lemma view_span_for:
  assumes "view_ok input t spans" "valid_span t n"
  shows "\<exists>s. original_span t spans (sp_start n) (sp_end n) = Some s \<and> valid_span input s \<and>
     (\<forall>e \<in> set (touched (sp_start n) (sp_end n) spans).
        sp_start s \<le> sp_start (ncs_original e) \<and> sp_end (ncs_original e) \<le> sp_end s)"
proof -
  let ?es = "touched (sp_start n) (sp_end n) spans"
  have tl: "map ncs_normalized spans = map (\<lambda>(i, c). Span i (i + utf8_width c)) (char_indices 0 t)"
    using assms(1) by (simp add: view_ok_def tiles_def)
  have eq: "original_span t spans (sp_start n) (sp_end n) = hull_spans None (map ncs_original ?es)"
    using assms(2) valid_span_in_range [OF assms(2)]
    by (simp add: original_span_def original_span_loop_eq [OF tl] valid_span_def)
  have "sp_start n < byte_len t"
    using assms(2) valid_span_in_range [OF assms(2)] by (simp add: valid_span_def)
  from char_at_byte [OF this, of 0] obtain i c where ic: "(i, c) \<in> set (char_indices 0 t)"
    "i \<le> sp_start n" "sp_start n < i + utf8_width c" by auto
  then have "Span i (i + utf8_width c) \<in> set (map ncs_normalized spans)" unfolding tl by force
  then obtain e where "e \<in> set spans" "ncs_normalized e = Span i (i + utf8_width c)" by auto
  then have "e \<in> set ?es" using ic assms(2) by (simp add: touched_def valid_span_def)
  then have "?es \<noteq> []" by auto
  then obtain s where s: "hull_spans None (map ncs_original ?es) = Some s"
    using hull_spans_Some [of "map ncs_original ?es" None] by auto
  have "\<forall>x \<in> set (map ncs_original ?es). valid_span input x"
    using assms(1) by (auto simp: view_ok_def touched_def)
  from hull_spans_valid [OF this _ s] hull_spans_covers [OF s] s eq show ?thesis by auto
qed

lemma original_span_valid:
  assumes "view_ok input t spans" "original_span t spans a b = Some s"
  shows "valid_span input s" "a < b" "valid_span t (Span a b)"
proof -
  show ab: "a < b" "valid_span t (Span a b)"
    using assms(2) by (auto simp: original_span_def valid_span_def split: if_splits)
  from view_span_for [OF assms(1) ab(2)] assms(2) show "valid_span input s" by simp
qed

text \<open>
  Every nonempty range of characters of a normalised text, of a text extracted
  from surface spans and of a security view maps back to a span of the original input that is
  nonempty, inside the input and on character boundaries: no view can report a span at which
  slicing the input would panic.
\<close>

theorem span_for_valid:
  "(valid_span (nt_text (normalized_text_new u input)) n \<longrightarrow>
      (\<exists>s. nt_span_for (normalized_text_new u input) n = Some s \<and> valid_span input s)) \<and>
   (valid_span (nt_text (from_original_spans u input ss)) n \<longrightarrow>
      (\<exists>s. nt_span_for (from_original_spans u input ss) n = Some s \<and> valid_span input s)) \<and>
   (valid_span (sn_text (security_normalized_text_new u input)) n \<longrightarrow>
      (\<exists>s. sn_span_for (security_normalized_text_new u input) n = Some s \<and> valid_span input s))"
  unfolding nt_span_for_def sn_span_for_def
  using view_span_for [OF normalized_text_new_ok [of input u]]
    view_span_for [OF from_original_spans_ok [of input u ss]]
    view_span_for [OF security_normalized_text_new_ok [of input u]]
  by blast

theorem span_for_valid_witness:
  "\<exists>s. nt_span_for (normalized_text_new ascii_unicode (lit ''Ab, c'')) (Span 1 4) = Some s \<and>
     valid_span (lit ''Ab, c'') s"
proof -
  have "valid_span (nt_text (normalized_text_new ascii_unicode (lit ''Ab, c''))) (Span 1 4)" by code_simp
  then show ?thesis using span_for_valid [of ascii_unicode "lit ''Ab, c''" "Span 1 4" "[]"] by blast
qed

section \<open>The canonical form\<close>

definition canonical_text :: "rstr \<Rightarrow> bool" where
  "canonical_text t \<longleftrightarrow>
     (\<forall>c \<in> set t. \<not> is_ignored_format c \<and> (is_separator c \<longrightarrow> c = ch (CHR '' ''))) \<and>
     successively (\<lambda>a b. \<not> (is_separator a \<and> is_separator b)) t \<and>
     (t \<noteq> [] \<longrightarrow> \<not> is_separator (hd t) \<and> \<not> is_separator (last t))"

lemma space_separator: "is_separator 32" "\<not> is_ignored_format 32"
  by (simp_all add: is_separator_def is_joiner_def is_whitespace_def is_ignored_format_def in_ranges_def)

lemma canonical_text_push:
  assumes "canonical_text t" "\<not> is_separator c" "\<not> is_ignored_format c"
  shows "canonical_text (t @ [c])" "t \<noteq> [] \<Longrightarrow> canonical_text (t @ [ch (CHR '' ''), c])"
  using assms space_separator
  by (cases t; auto simp: canonical_text_def successively_append_iff successively_Cons)+

lemma from_mapped_loop_canonical:
  "canonical_text (nt_text t) \<Longrightarrow> canonical_text (nt_text (from_mapped_loop t pending xs))"
proof (induction t pending xs rule: from_mapped_loop.induct)
  case (2 result pending c original xs)
  show ?case
  proof (cases "is_ignored_format c \<or> is_separator c")
    case True
    with 2 show ?thesis by auto
  next
    case False
    define r1 where "r1 = (case pending of
              Some separator \<Rightarrow>
                if nt_text result \<noteq> [] then nt_push (ch (CHR '' '')) separator result else result
            | None \<Rightarrow> result)"
    have "canonical_text (nt_text (nt_push c original r1))"
      using canonical_text_push [OF "2.prems", of c] False
      by (auto simp: r1_def nt_push_def split: option.splits)
    with "2.IH"(3) [OF _ _ r1_def] False show ?thesis by (simp add: r1_def Let_def)
  qed
qed simp

lemma normalize_pattern_canonical: "canonical_text (normalize_pattern u input)"
  by (simp add: normalize_pattern_def normalized_text_new_def from_mapped_def from_mapped_loop_canonical
      canonical_text_def [of "[]"])

text \<open>
  A normalised text, and with it every normalised pattern, contains no
  invisible format character, and its only separators are single spaces between other
  characters: none at either end and no two in a row.
\<close>

theorem canonical_form:
  "canonical_text (nt_text (normalized_text_new u input))
   \<and> canonical_text (nt_text (from_original_spans u input ss))
   \<and> canonical_text (normalize_pattern u input)"
  using normalize_pattern_canonical
  by (simp add: normalize_pattern_def normalized_text_new_def from_original_spans_def from_mapped_def
      from_mapped_loop_canonical canonical_text_def [of "[]"])

lemma whitespace_separator: "is_whitespace c \<Longrightarrow> is_separator c"
proof -
  have "is_joiner c \<Longrightarrow> \<not> is_whitespace c" unfolding is_joiner_def is_whitespace_def by fastforce
  then show "is_whitespace c \<Longrightarrow> is_separator c" unfolding is_separator_def by blast
qed

lemma canonical_no_whitespace:
  "canonical_text t \<Longrightarrow> c \<in> set t \<Longrightarrow> is_whitespace c \<Longrightarrow> c = ch (CHR '' '')"
  using whitespace_separator unfolding canonical_text_def by blast

section \<open>Mixed scripts\<close>

lemma confusable_ascii: "confusable_mapping u c = Some m \<Longrightarrow> is_ascii_alphabetic m \<and> \<not> is_ascii_alphabetic c"
proof -
  assume "confusable_mapping u c = Some m"
  then have "(c, m) \<in> set confusables" by (auto simp: confusable_mapping_def map_of_SomeD split: option.splits if_splits)
  moreover have "\<forall>(c, m) \<in> set confusables. is_ascii_alphabetic m \<and> \<not> is_ascii_alphabetic c"
    by code_simp
  ultimately show ?thesis by blast
qed

text \<open>A text without Latin letters is left alone, and no text changes its length or its spans.\<close>

lemma map_mixed_non_latin:
  "\<forall>x \<in> set xs. \<not> is_latin_letter u (fst x) \<Longrightarrow> map_mixed_script_tokens u xs = xs"
proof (induction u xs rule: map_mixed_script_tokens.induct)
  case (2 u x xs)
  have "\<forall>y \<in> set (dropWhile (\<lambda>y. is_token_component u (fst y)) xs). \<not> is_latin_letter u (fst y)"
    using "2.prems" by (meson list.set_intros(2) set_dropWhileD)
  moreover have "\<forall>y \<in> set (takeWhile (\<lambda>y. is_token_component u (fst y)) xs). \<not> is_latin_letter u (fst y)"
    using "2.prems" by (meson list.set_intros(2) set_takeWhileD)
  ultimately show ?case using 2 by (auto simp: Let_def)
qed simp

lemma map_mixed_pointwise:
  "list_all2 (\<lambda>x y. snd x = snd y \<and> (fst y = fst x \<or> confusable_mapping u (fst x) = Some (fst y)))
     xs (map_mixed_script_tokens u xs)"
proof (induction u xs rule: map_mixed_script_tokens.induct)
  case (2 u x xs)
  let ?R = "\<lambda>x y. snd x = snd y \<and> (fst y = fst x \<or> confusable_mapping u (fst x) = Some (fst y))"
  let ?t = "takeWhile (\<lambda>y. is_token_component u (fst y)) xs"
    and ?r = "dropWhile (\<lambda>y. is_token_component u (fst y)) xs"
  let ?m = "map (\<lambda>(c, original). (case confusable_mapping u c of Some m \<Rightarrow> m | None \<Rightarrow> c, original))"
  have m: "list_all2 ?R ys (?m ys)" for ys
    by (induction ys) (auto split: option.splits)
  have i: "list_all2 ?R ys ys" for ys by (rule list.rel_refl) simp
  have tok: "list_all2 ?R (x # ?t) (if P then ?m (x # ?t) else x # ?t)" for P
    using m [of "x # ?t"] i [of "x # ?t"] by (cases P) (simp_all only: if_True if_False)
  show ?case
  proof (cases "is_token_component u (fst x)")
    case True
    have "list_all2 ?R ((x # ?t) @ ?r) (map_mixed_script_tokens u (x # xs))"
      using True "2.IH"(2) [OF _ refl refl refl refl] tok
      by (simp only: map_mixed_script_tokens.simps Let_def if_False not_not simp_thms)
         (intro list_all2_appendI; simp only: if_cancel)
    then show ?thesis by simp
  qed (use 2 in simp)
qed simp

end
