(* ===== verification/Matcher.thy ===== *)
theory Matcher
  imports Normalization
begin

text \<open>
  The matcher (\<open>src/content_policy/matcher.rs\<close>). Patterns are compiled, equal ones sharing one
  entry, into a canonical view and an optional security view; one overlapping search per view
  finds the candidates and boundary checks select the matches. The Aho-Corasick automaton is
  third-party code and a parameter. Indexing a list out of range and slicing a string off a
  character boundary panic in the code; here the result is \<open>None\<close>, which the lemmas exclude
  for an automaton that reports the occurrences of its patterns.
\<close>

section \<open>Data\<close>

record pattern_definition =
  pd_rule_id :: uuid
  pd_pattern_id :: uuid
  pd_pattern :: rstr
  pd_type :: wildcard_pattern_type

definition from_rule_pattern :: "uuid \<Rightarrow> rule_pattern \<Rightarrow> pattern_definition" where
  "from_rule_pattern rule_id p =
     \<lparr>pd_rule_id = rule_id, pd_pattern_id = rp_id p, pd_pattern = rp_pattern p, pd_type = rp_type p\<rparr>"

datatype match_details = NoDetails | PatternsAndSpans

record pattern_match =
  pm_pattern_id :: uuid
  pm_type :: wildcard_pattern_type
  pm_normalized :: byte_span
  pm_original :: byte_span

record rule_trigger =
  rt_rule_id :: uuid
  rt_matches :: "pattern_match list"

record match_report =
  mr_triggers :: "rule_trigger list"

definition empty_report :: match_report where
  "empty_report = \<lparr>mr_triggers = []\<rparr>"

definition rule_ids :: "match_report \<Rightarrow> uuid list" where
  "rule_ids r = map rt_rule_id (mr_triggers r)"

definition match_report_is_empty :: "match_report \<Rightarrow> bool" where
  "match_report_is_empty r \<longleftrightarrow> mr_triggers r = []"

datatype matcher_build_error =
    EmptyPattern uuid uuid
  | AutomatonError rstr

record pattern_target =
  tg_rule_id :: uuid
  tg_pattern_id :: uuid

record compiled_pattern =
  cpt_text :: rstr
  cpt_type :: wildcard_pattern_type
  cpt_targets :: "pattern_target list"

text \<open>
  The automaton: building it from byte patterns may fail with a message; searching yields, in its
  order, the pattern index, start and end of every overlapping match.
\<close>

record automaton =
  ac_build :: "byte list list \<Rightarrow> rstr + unit"
  ac_find :: "byte list list \<Rightarrow> byte list \<Rightarrow> (nat \<times> nat \<times> nat) list"

record matcher_view =
  mv_patterns :: "compiled_pattern list"

definition view_bytes :: "matcher_view \<Rightarrow> byte list list" where
  "view_bytes v = map (\<lambda>p. str_bytes (cpt_text p)) (mv_patterns v)"

record compiled_matcher =
  cm_canonical :: matcher_view
  cm_security :: "matcher_view option"

section \<open>Compilation\<close>

type_synonym pattern_table =
  "compiled_pattern list \<times> (rstr \<times> wildcard_pattern_type, nat) hash_map"

definition insert_pattern ::
  "rstr \<Rightarrow> wildcard_pattern_type \<Rightarrow> pattern_target \<Rightarrow> pattern_table \<Rightarrow> pattern_table" where
  "insert_pattern t ty target tab = (case tab of (patterns, indexes) \<Rightarrow>
     (case map_of indexes (t, ty) of
        Some index \<Rightarrow>
          (patterns[index := (patterns ! index)\<lparr>cpt_targets := cpt_targets (patterns ! index) @ [target]\<rparr>],
           indexes)
      | None \<Rightarrow>
          (patterns @ [\<lparr>cpt_text = t, cpt_type = ty, cpt_targets = [target]\<rparr>],
           hm_insert (t, ty) (length patterns) indexes)))"

definition authored_literal :: "pattern_definition \<Rightarrow> rstr" where
  "authored_literal d =
     (let p = pd_pattern d; star = ch (CHR ''*'');
          or_self = (\<lambda>x. case x of Some q \<Rightarrow> q | None \<Rightarrow> p)
      in case pd_type d of
           Prefix \<Rightarrow> or_self (strip_suffix_char star p)
         | Suffix \<Rightarrow> or_self (strip_prefix_char star p)
         | Contains \<Rightarrow> or_self (Option.bind (strip_prefix_char star p) (strip_suffix_char star))
         | _ \<Rightarrow> p)"

definition target_of :: "pattern_definition \<Rightarrow> pattern_target" where
  "target_of d = \<lparr>tg_rule_id = pd_rule_id d, tg_pattern_id = pd_pattern_id d\<rparr>"

definition security_text :: "unicode \<Rightarrow> pattern_definition \<Rightarrow> rstr option" where
  "security_text u d =
     (if pd_type d \<noteq> Phrase \<and> is_security_pattern_eligible u (authored_literal d)
         \<and> security_normalize_pattern u (authored_literal d) \<noteq> []
      then Some (security_normalize_pattern u (authored_literal d)) else None)"

fun compile_loop ::
  "unicode \<Rightarrow> pattern_definition list \<Rightarrow> pattern_table \<Rightarrow> pattern_table
     \<Rightarrow> matcher_build_error + pattern_table \<times> pattern_table" where
  "compile_loop u [] canonical security = Inr (canonical, security)"
| "compile_loop u (d # ds) canonical security =
     (let t = normalize_pattern u (pd_pattern d)
      in if t = [] then Inl (EmptyPattern (pd_rule_id d) (pd_pattern_id d))
         else compile_loop u ds
                (insert_pattern t (pd_type d) (target_of d) canonical)
                (case security_text u d of
                   Some s \<Rightarrow> insert_pattern s (pd_type d) (target_of d) security
                 | None \<Rightarrow> security))"

definition view_compile :: "automaton \<Rightarrow> compiled_pattern list \<Rightarrow> matcher_build_error + matcher_view" where
  "view_compile ac patterns =
     res_bind (map_err AutomatonError (ac_build ac (map (\<lambda>p. str_bytes (cpt_text p)) patterns)))
       (\<lambda>_. Inr \<lparr>mv_patterns = patterns\<rparr>)"

definition matcher_compile ::
  "unicode \<Rightarrow> automaton \<Rightarrow> pattern_definition list \<Rightarrow> matcher_build_error + compiled_matcher" where
  "matcher_compile u ac definitions =
     (let sorted = sort_key (\<lambda>d. (pd_rule_id d, pd_pattern_id d, pd_type d)) definitions
      in res_bind (compile_loop u sorted ([], []) ([], [])) (\<lambda>((canonical, _), (security, _)).
         res_bind (view_compile ac canonical) (\<lambda>cv.
           if security = [] then Inr \<lparr>cm_canonical = cv, cm_security = None\<rparr>
           else res_bind (view_compile ac security) (\<lambda>sv.
                  Inr \<lparr>cm_canonical = cv, cm_security = Some sv\<rparr>))))"

definition matcher_is_empty :: "compiled_matcher \<Rightarrow> bool" where
  "matcher_is_empty m \<longleftrightarrow> mv_patterns (cm_canonical m) = []"

section \<open>Matching\<close>

text \<open>The trait \<open>NormalizedInput\<close> is the record of its methods; the two views implement it.\<close>

record normalized_input =
  ni_text :: rstr
  ni_span_for :: "byte_span \<Rightarrow> byte_span option"
  ni_within :: "byte_span \<Rightarrow> byte_span \<Rightarrow> bool"
  ni_token :: "rchar \<Rightarrow> bool"

definition canonical_input :: "unicode \<Rightarrow> normalized_text \<Rightarrow> normalized_input" where
  "canonical_input u t =
     \<lparr>ni_text = nt_text t, ni_span_for = nt_span_for t,
      ni_within = span_is_within_original (nt_spans t), ni_token = is_token_character u\<rparr>"

definition security_input :: "unicode \<Rightarrow> security_normalized_text \<Rightarrow> normalized_input" where
  "security_input u t =
     \<lparr>ni_text = sn_text t, ni_span_for = sn_span_for t,
      ni_within = span_is_within_original (sn_spans t),
      ni_token = (\<lambda>c. is_token_character u c \<and> c \<noteq> ch (CHR ''_''))\<rparr>"

definition left_ok :: "normalized_input \<Rightarrow> byte_span \<Rightarrow> bool option" where
  "left_ok ni s =
     (if sp_start s = 0 then Some True
      else map_option (\<lambda>t. t \<noteq> [] \<and> \<not> ni_token ni (last t)) (str_to (ni_text ni) (sp_start s)))"

definition right_ok :: "normalized_input \<Rightarrow> byte_span \<Rightarrow> bool option" where
  "right_ok ni s =
     (if sp_end s = byte_len (ni_text ni) then Some True
      else map_option (\<lambda>t. t \<noteq> [] \<and> \<not> ni_token ni (hd t)) (str_from (ni_text ni) (sp_end s)))"

definition matches_boundary ::
  "normalized_input \<Rightarrow> byte_span \<Rightarrow> wildcard_pattern_type \<Rightarrow> bool option" where
  "matches_boundary ni s ty =
     Option.bind (left_ok ni s) (\<lambda>l. Option.bind (right_ok ni s) (\<lambda>r.
       Some (case ty of ExactWord \<Rightarrow> l \<and> r | Phrase \<Rightarrow> l \<and> r | Prefix \<Rightarrow> l | Suffix \<Rightarrow> r | Contains \<Rightarrow> True)))"

type_synonym trigger_table = "rule_trigger list \<times> (uuid, nat) hash_map"

definition trigger_index :: "uuid \<Rightarrow> trigger_table \<Rightarrow> nat \<times> trigger_table" where
  "trigger_index r tab = (case tab of (triggers, indexes) \<Rightarrow>
     (case map_of indexes r of
        Some index \<Rightarrow> (index, (triggers, indexes))
      | None \<Rightarrow>
          (length triggers,
           (triggers @ [\<lparr>rt_rule_id = r, rt_matches = []\<rparr>], hm_insert r (length triggers) indexes))))"

definition push_match :: "nat \<Rightarrow> pattern_match \<Rightarrow> rule_trigger list \<Rightarrow> rule_trigger list" where
  "push_match i m triggers =
     triggers[i := (triggers ! i)\<lparr>rt_matches := rt_matches (triggers ! i) @ [m]\<rparr>]"

definition record_target ::
  "match_details \<Rightarrow> wildcard_pattern_type \<Rightarrow> byte_span \<Rightarrow> byte_span \<Rightarrow> pattern_target
     \<Rightarrow> trigger_table \<Rightarrow> trigger_table" where
  "record_target details ty normalized original target tab =
     (case trigger_index (tg_rule_id target) tab of (i, (triggers, indexes)) \<Rightarrow>
        (if details = PatternsAndSpans
         then push_match i \<lparr>pm_pattern_id = tg_pattern_id target, pm_type = ty,
                            pm_normalized = normalized, pm_original = original\<rparr> triggers
         else triggers, indexes))"

fun match_loop ::
  "matcher_view \<Rightarrow> normalized_input \<Rightarrow> byte_span list \<Rightarrow> match_details
     \<Rightarrow> (nat \<times> nat \<times> nat) list \<Rightarrow> trigger_table \<Rightarrow> trigger_table option" where
  "match_loop view ni excluded details [] tab = Some tab"
| "match_loop view ni excluded details ((k, a, b) # fs) tab =
     (if length (mv_patterns view) \<le> k then None
      else
        let pattern = mv_patterns view ! k; s = Span a b
        in case matches_boundary ni s (cpt_type pattern) of
             None \<Rightarrow> None
           | Some ok \<Rightarrow>
               if \<not> ok then match_loop view ni excluded details fs tab
               else case ni_span_for ni s of
                      None \<Rightarrow> match_loop view ni excluded details fs tab
                    | Some original \<Rightarrow>
                        if \<exists>e \<in> set excluded. ni_within ni s e
                        then match_loop view ni excluded details fs tab
                        else match_loop view ni excluded details fs
                               (fold (record_target details (cpt_type pattern) s original)
                                  (cpt_targets pattern) tab))"

definition match_view ::
  "automaton \<Rightarrow> matcher_view \<Rightarrow> normalized_input \<Rightarrow> byte_span list \<Rightarrow> match_details
     \<Rightarrow> match_report option" where
  "match_view ac view ni excluded details =
     map_option (\<lambda>tab. \<lparr>mr_triggers = fst tab\<rparr>)
       (match_loop view ni excluded details
          (ac_find ac (view_bytes view) (str_bytes (ni_text ni))) ([], []))"

definition same_match :: "pattern_match \<Rightarrow> pattern_match \<Rightarrow> bool" where
  "same_match a b \<longleftrightarrow>
     pm_pattern_id a = pm_pattern_id b \<and> pm_type a = pm_type b \<and> pm_original a = pm_original b"

definition merge_trigger :: "match_details \<Rightarrow> rule_trigger \<Rightarrow> trigger_table \<Rightarrow> trigger_table" where
  "merge_trigger details t tab =
     (case trigger_index (rt_rule_id t) tab of (i, (triggers, indexes)) \<Rightarrow>
        (if details = PatternsAndSpans
         then fold (\<lambda>m ts. if \<exists>e \<in> set (rt_matches (ts ! i)). same_match e m then ts
                           else push_match i m ts) (rt_matches t) triggers
         else triggers, indexes))"

text \<open>
  The index of a rule that several triggers of the primary report had would be the last one, as
  collecting into a map keeps the last value.
\<close>

definition merge_reports :: "match_report \<Rightarrow> match_report \<Rightarrow> match_details \<Rightarrow> match_report" where
  "merge_reports primary secondary details =
     (let indexes = fold (\<lambda>(i, t). hm_insert (rt_rule_id t) i)
            (List.enumerate 0 (mr_triggers primary)) [];
          tab = fold (merge_trigger details) (mr_triggers secondary) (mr_triggers primary, indexes)
      in \<lparr>mr_triggers = fst tab\<rparr>)"

definition match_normalized ::
  "unicode \<Rightarrow> automaton \<Rightarrow> compiled_matcher \<Rightarrow> normalized_text \<Rightarrow> match_details \<Rightarrow> match_report option" where
  "match_normalized u ac m t details = match_view ac (cm_canonical m) (canonical_input u t) [] details"

definition match_normalized_with_security ::
  "unicode \<Rightarrow> automaton \<Rightarrow> compiled_matcher \<Rightarrow> normalized_text \<Rightarrow> security_normalized_text option
     \<Rightarrow> byte_span list \<Rightarrow> match_details \<Rightarrow> match_report option" where
  "match_normalized_with_security u ac m t security excluded details =
     Option.bind (match_view ac (cm_canonical m) (canonical_input u t) [] details) (\<lambda>canonical.
       case (security, cm_security m) of
         (Some s, Some view) \<Rightarrow>
           map_option (\<lambda>r. merge_reports canonical r details)
             (match_view ac view (security_input u s) excluded details)
       | _ \<Rightarrow> Some canonical)"

definition match_security_normalized ::
  "unicode \<Rightarrow> automaton \<Rightarrow> compiled_matcher \<Rightarrow> security_normalized_text \<Rightarrow> byte_span list
     \<Rightarrow> match_details \<Rightarrow> match_report option" where
  "match_security_normalized u ac m s excluded details =
     (case cm_security m of
        None \<Rightarrow> Some empty_report
      | Some view \<Rightarrow> match_view ac view (security_input u s) excluded details)"

definition match_text ::
  "unicode \<Rightarrow> automaton \<Rightarrow> compiled_matcher \<Rightarrow> rstr \<Rightarrow> match_details \<Rightarrow> match_report option" where
  "match_text u ac m input details =
     match_normalized_with_security u ac m (normalized_text_new u input)
       (Some (security_normalized_text_new u input)) [] details"

definition matched_rule_ids :: "unicode \<Rightarrow> automaton \<Rightarrow> compiled_matcher \<Rightarrow> rstr \<Rightarrow> uuid list option" where
  "matched_rule_ids u ac m input = map_option rule_ids (match_text u ac m input NoDetails)"

section \<open>The automaton\<close>

text \<open>
  What the code relies on: the automaton reports exactly the occurrences of its nonempty patterns.
  \<open>naive_automaton\<close> is one that does.
\<close>

definition finds_occurrences :: "automaton \<Rightarrow> bool" where
  "finds_occurrences ac \<longleftrightarrow>
     (\<forall>pats hay k a b. (\<forall>p \<in> set pats. p \<noteq> []) \<longrightarrow>
        ((k, a, b) \<in> set (ac_find ac pats hay) \<longleftrightarrow>
          k < length pats \<and> (\<exists>x y. hay = x @ pats ! k @ y \<and> length x = a \<and> length (x @ pats ! k) = b)))"

definition naive_find :: "byte list list \<Rightarrow> byte list \<Rightarrow> (nat \<times> nat \<times> nat) list" where
  "naive_find pats hay =
     filter (\<lambda>(k, a, b). take (length (pats ! k)) (drop a hay) = pats ! k)
       (concat (map (\<lambda>k. map (\<lambda>a. (k, a, a + length (pats ! k))) [0..<Suc (length hay)])
          [0..<length pats]))"

definition naive_automaton :: automaton where
  "naive_automaton = \<lparr>ac_build = (\<lambda>_. Inr ()), ac_find = naive_find\<rparr>"

lemma naive_find_mem:
  "(k, a, b) \<in> set (naive_find pats hay) \<longleftrightarrow>
     k < length pats \<and> a \<le> length hay \<and> b = a + length (pats ! k) \<and>
     take (length (pats ! k)) (drop a hay) = pats ! k"
  by (auto simp: naive_find_def image_iff simp del: upt_Suc)

lemma take_drop_occurrence:
  "take (length p) (drop a hay) = p \<and> a \<le> length hay \<longleftrightarrow> (\<exists>x y. hay = x @ p @ y \<and> length x = a)"
proof
  assume h: "take (length p) (drop a hay) = p \<and> a \<le> length hay"
  then have "hay = take a hay @ p @ drop (length p) (drop a hay)"
    by (metis append_take_drop_id)
  then show "\<exists>x y. hay = x @ p @ y \<and> length x = a" using h by (metis length_take min_absorb2)
qed auto

lemma naive_automaton_finds: "finds_occurrences naive_automaton"
proof -
  have "(k, a, b) \<in> set (naive_find pats hay) \<longleftrightarrow>
      k < length pats \<and> (\<exists>x y. hay = x @ pats ! k @ y \<and> length x = a \<and> length (x @ pats ! k) = b)"
    for pats hay k a b
    unfolding naive_find_mem using take_drop_occurrence [of "pats ! k" a hay] by fastforce
  then show ?thesis by (simp add: finds_occurrences_def naive_automaton_def)
qed

section \<open>Triggers\<close>

definition table_ok :: "trigger_table \<Rightarrow> bool" where
  "table_ok tab \<longleftrightarrow> distinct (map rt_rule_id (fst tab)) \<and>
     (\<forall>r i. map_of (snd tab) r = Some i \<longleftrightarrow> i < length (fst tab) \<and> rt_rule_id (fst tab ! i) = r)"

definition table_rules :: "trigger_table \<Rightarrow> uuid set" where
  "table_rules tab = set (map rt_rule_id (fst tab))"

definition table_matches :: "trigger_table \<Rightarrow> (uuid \<times> pattern_match) set" where
  "table_matches tab = {(rt_rule_id t, m) | t m. t \<in> set (fst tab) \<and> m \<in> set (rt_matches t)}"

lemma table_ok_Nil [simp]: "table_ok ([], [])"
  and table_rules_Nil [simp]: "table_rules ([], []) = {}"
  and table_matches_Nil [simp]: "table_matches ([], []) = {}"
  by (simp_all add: table_ok_def table_rules_def table_matches_def)

lemma table_ok_fresh: "table_ok (ts, ix) \<Longrightarrow> map_of ix r = None \<longleftrightarrow> r \<notin> table_rules (ts, ix)"
proof -
  assume ok: "table_ok (ts, ix)"
  have "r \<in> table_rules (ts, ix) \<longleftrightarrow> (\<exists>i < length ts. rt_rule_id (ts ! i) = r)"
    unfolding table_rules_def fst_conv set_map image_iff Bex_def in_set_conv_nth by auto
  also have "\<dots> \<longleftrightarrow> (\<exists>i. map_of ix r = Some i)" using ok by (simp add: table_ok_def)
  finally show ?thesis by (cases "map_of ix r") simp_all
qed

lemma trigger_index_ok:
  assumes "table_ok tab" "trigger_index r tab = (i, tab')"
  shows "table_ok tab'" "i < length (fst tab')" "rt_rule_id (fst tab' ! i) = r"
    "table_rules tab' = insert r (table_rules tab)" "table_matches tab' = table_matches tab"
proof -
  obtain ts ix where tab: "tab = (ts, ix)" by (cases tab)
  have "table_ok tab' \<and> i < length (fst tab') \<and> rt_rule_id (fst tab' ! i) = r
      \<and> table_rules tab' = insert r (table_rules tab) \<and> table_matches tab' = table_matches tab"
  proof (cases "map_of ix r")
    case None
    then have fresh: "r \<notin> table_rules (ts, ix)" using assms(1) table_ok_fresh tab by blast
    have t: "tab' = (ts @ [\<lparr>rt_rule_id = r, rt_matches = []\<rparr>], hm_insert r (length ts) ix)" "i = length ts"
      using assms(2) None tab by (auto simp: trigger_index_def)
    have "\<forall>j < length ts. rt_rule_id (ts ! j) \<noteq> r"
      using fresh by (auto simp: table_rules_def)
    then have "table_ok tab'"
      using assms(1) fresh tab by (auto simp: t table_ok_def table_rules_def nth_append)
    with t tab show ?thesis by (auto simp: table_rules_def table_matches_def)
  next
    case (Some j)
    then have "tab' = tab" "i = j" "j < length ts" "rt_rule_id (ts ! j) = r"
      using assms tab by (auto simp: trigger_index_def table_ok_def)
    with assms(1) tab show ?thesis by (auto simp: table_rules_def)
  qed
  then show "table_ok tab'" "i < length (fst tab')" "rt_rule_id (fst tab' ! i) = r"
    "table_rules tab' = insert r (table_rules tab)" "table_matches tab' = table_matches tab" by blast+
qed

lemma push_match_simps:
  assumes "i < length ts"
  shows "length (push_match i m ts) = length ts"
    "map rt_rule_id (push_match i m ts) = map rt_rule_id ts"
    "table_matches (push_match i m ts, ix) = insert (rt_rule_id (ts ! i), m) (table_matches (ts, ix))"
proof -
  show "length (push_match i m ts) = length ts" by (simp add: push_match_def)
  show "map rt_rule_id (push_match i m ts) = map rt_rule_id ts"
    using assms by (simp add: push_match_def map_update list_update_same_conv)
  have n: "push_match i m ts ! j = (if j = i then (ts ! i)\<lparr>rt_matches := rt_matches (ts ! i) @ [m]\<rparr> else ts ! j)"
    if "j < length ts" for j
    using that by (simp add: push_match_def nth_list_update)
  have *: "table_matches (us, ix) = {(rt_rule_id (us ! j), x) | j x. j < length us \<and> x \<in> set (rt_matches (us ! j))}"
    for us by (auto simp: table_matches_def in_set_conv_nth)
  show "table_matches (push_match i m ts, ix) = insert (rt_rule_id (ts ! i), m) (table_matches (ts, ix))"
    unfolding * using assms n by (auto simp: push_match_def nth_list_update split: if_splits)
qed

lemma push_match_table:
  assumes "table_ok (ts, ix)" "i < length ts"
  shows "table_ok (push_match i m ts, ix)" "table_rules (push_match i m ts, ix) = table_rules (ts, ix)"
proof -
  have r: "rt_rule_id (push_match i m ts ! j) = rt_rule_id (ts ! j)" if "j < length ts" for j
    using push_match_simps(1,2) [OF assms(2), of m] that by (metis nth_map)
  show "table_ok (push_match i m ts, ix)"
    using assms r push_match_simps(1,2) [OF assms(2), of m] unfolding table_ok_def by auto
  show "table_rules (push_match i m ts, ix) = table_rules (ts, ix)"
    using push_match_simps(2) [OF assms(2), of m] by (simp add: table_rules_def del: list.set_map)
qed

definition match_of :: "wildcard_pattern_type \<Rightarrow> byte_span \<Rightarrow> byte_span \<Rightarrow> pattern_target \<Rightarrow> pattern_match" where
  "match_of ty n original t =
     \<lparr>pm_pattern_id = tg_pattern_id t, pm_type = ty, pm_normalized = n, pm_original = original\<rparr>"

lemma record_target_ok:
  assumes "table_ok tab"
  shows "table_ok (record_target details ty n original t tab)"
    "table_rules (record_target details ty n original t tab) = insert (tg_rule_id t) (table_rules tab)"
    "table_matches (record_target details ty n original t tab) =
       (if details = PatternsAndSpans then insert (tg_rule_id t, match_of ty n original t) (table_matches tab)
        else table_matches tab)"
proof -
  obtain i ts ix where t: "trigger_index (tg_rule_id t) tab = (i, (ts, ix))" by (metis prod.exhaust)
  note ok = trigger_index_ok [OF assms t, simplified]
  show "table_ok (record_target details ty n original t tab)"
    "table_rules (record_target details ty n original t tab) = insert (tg_rule_id t) (table_rules tab)"
    "table_matches (record_target details ty n original t tab) =
       (if details = PatternsAndSpans then insert (tg_rule_id t, match_of ty n original t) (table_matches tab)
        else table_matches tab)"
    using ok push_match_table [OF ok(1,2)] push_match_simps(3) [OF ok(2)]
    by (simp_all add: record_target_def t match_of_def)
qed

lemma record_targets_ok:
  "table_ok tab \<Longrightarrow>
     table_ok (fold (record_target details ty n original) targets tab) \<and>
     table_rules (fold (record_target details ty n original) targets tab)
       = tg_rule_id ` set targets \<union> table_rules tab \<and>
     table_matches (fold (record_target details ty n original) targets tab)
       = (if details = PatternsAndSpans
          then (\<lambda>t. (tg_rule_id t, match_of ty n original t)) ` set targets \<union> table_matches tab
          else table_matches tab)"
proof (induction targets arbitrary: tab)
  case (Cons t targets)
  note r = record_target_ok [OF Cons.prems, of details ty n original t]
  show ?case using Cons.IH [OF r(1)] r by (cases "details = PatternsAndSpans") auto
qed simp

section \<open>One view\<close>

text \<open>A candidate that is kept, with the original span it reports.\<close>

definition accepted ::
  "normalized_input \<Rightarrow> byte_span list \<Rightarrow> wildcard_pattern_type \<Rightarrow> byte_span \<Rightarrow> byte_span \<Rightarrow> bool" where
  "accepted ni excluded ty s original \<longleftrightarrow>
     matches_boundary ni s ty = Some True \<and> ni_span_for ni s = Some original
     \<and> \<not> (\<exists>e \<in> set excluded. ni_within ni s e)"

fun found_rules ::
  "matcher_view \<Rightarrow> normalized_input \<Rightarrow> byte_span list \<Rightarrow> nat \<times> nat \<times> nat \<Rightarrow> uuid set" where
  "found_rules view ni excluded (k, a, b) =
     {tg_rule_id t | t original. t \<in> set (cpt_targets (mv_patterns view ! k))
        \<and> accepted ni excluded (cpt_type (mv_patterns view ! k)) (Span a b) original}"

fun found_matches ::
  "matcher_view \<Rightarrow> normalized_input \<Rightarrow> byte_span list \<Rightarrow> nat \<times> nat \<times> nat \<Rightarrow> (uuid \<times> pattern_match) set" where
  "found_matches view ni excluded (k, a, b) =
     {(tg_rule_id t, match_of (cpt_type (mv_patterns view ! k)) (Span a b) original t) | t original.
        t \<in> set (cpt_targets (mv_patterns view ! k))
        \<and> accepted ni excluded (cpt_type (mv_patterns view ! k)) (Span a b) original}"

lemma found_accepted:
  assumes "accepted ni excluded (cpt_type (mv_patterns view ! k)) (Span a b) original"
  shows "found_rules view ni excluded (k, a, b) = tg_rule_id ` set (cpt_targets (mv_patterns view ! k))"
    "found_matches view ni excluded (k, a, b)
      = (\<lambda>t. (tg_rule_id t, match_of (cpt_type (mv_patterns view ! k)) (Span a b) original t))
          ` set (cpt_targets (mv_patterns view ! k))"
proof -
  have "accepted ni excluded (cpt_type (mv_patterns view ! k)) (Span a b) z \<longleftrightarrow> z = original" for z
    using assms by (auto simp: accepted_def)
  then show "found_rules view ni excluded (k, a, b) = tg_rule_id ` set (cpt_targets (mv_patterns view ! k))"
    "found_matches view ni excluded (k, a, b)
      = (\<lambda>t. (tg_rule_id t, match_of (cpt_type (mv_patterns view ! k)) (Span a b) original t))
          ` set (cpt_targets (mv_patterns view ! k))"
    by auto
qed

lemma found_rejected:
  assumes "\<nexists>original. accepted ni excluded (cpt_type (mv_patterns view ! k)) (Span a b) original"
  shows "found_rules view ni excluded (k, a, b) = {}" "found_matches view ni excluded (k, a, b) = {}"
  using assms by auto

declare found_rules.simps [simp del] found_matches.simps [simp del]

lemma match_loop_ok:
  assumes "\<forall>(k, a, b) \<in> set fs. k < length (mv_patterns view) \<and>
      matches_boundary ni (Span a b) (cpt_type (mv_patterns view ! k)) \<noteq> None"
    and "table_ok tab"
  shows "\<exists>tab'. match_loop view ni excluded details fs tab = Some tab' \<and> table_ok tab' \<and>
    table_rules tab' = \<Union> (found_rules view ni excluded ` set fs) \<union> table_rules tab \<and>
    table_matches tab' =
      (if details = PatternsAndSpans then \<Union> (found_matches view ni excluded ` set fs) else {}) \<union> table_matches tab"
  using assms
proof (induction fs arbitrary: tab)
  case (Cons f fs)
  obtain k a b where f: "f = (k, a, b)" by (cases f)
  let ?p = "mv_patterns view ! k" and ?s = "Span a b"
  have k: "k < length (mv_patterns view)" "matches_boundary ni ?s (cpt_type ?p) \<noteq> None"
    using Cons.prems(1) f by auto
  have rest: "\<forall>(k, a, b) \<in> set fs. k < length (mv_patterns view) \<and>
      matches_boundary ni (Span a b) (cpt_type (mv_patterns view ! k)) \<noteq> None"
    using Cons.prems(1) by simp
  show ?case
  proof (cases "\<exists>original. accepted ni excluded (cpt_type ?p) ?s original")
    case True
    then obtain original where o: "accepted ni excluded (cpt_type ?p) ?s original" by blast
    let ?tab = "fold (record_target details (cpt_type ?p) ?s original) (cpt_targets ?p) tab"
    have step: "match_loop view ni excluded details (f # fs) tab = match_loop view ni excluded details fs ?tab"
      using o k f by (simp add: accepted_def Let_def)
    note r = record_targets_ok [OF Cons.prems(2), of details "cpt_type ?p" ?s original "cpt_targets ?p"]
    from Cons.IH [OF rest, of ?tab] r found_accepted [OF o] show ?thesis
      unfolding step unfolding list.set f by (cases "details = PatternsAndSpans") (simp_all add: Un_ac)
  next
    case False
    then have step: "match_loop view ni excluded details (f # fs) tab = match_loop view ni excluded details fs tab"
      using k f by (auto simp: accepted_def Let_def split: option.splits)
    from Cons.IH [OF rest Cons.prems(2)] found_rejected [OF False] show ?thesis
      unfolding step unfolding list.set f
      by (cases "details = PatternsAndSpans") simp_all
  qed
qed simp

section \<open>The specification of a view\<close>

text \<open>A pattern hits a text where the text has it between two boundaries its type asks for.\<close>

definition boundary_at :: "(rchar \<Rightarrow> bool) \<Rightarrow> wildcard_pattern_type \<Rightarrow> rstr \<Rightarrow> rstr \<Rightarrow> bool" where
  "boundary_at token ty a b \<longleftrightarrow>
     (ty \<in> {ExactWord, Phrase, Prefix} \<longrightarrow> a = [] \<or> \<not> token (last a)) \<and>
     (ty \<in> {ExactWord, Phrase, Suffix} \<longrightarrow> b = [] \<or> \<not> token (hd b))"

definition hit_span :: "rstr \<Rightarrow> rstr \<Rightarrow> byte_span" where
  "hit_span a p = Span (byte_len a) (byte_len (a @ p))"

definition hits :: "normalized_input \<Rightarrow> byte_span list \<Rightarrow> wildcard_pattern_type \<Rightarrow> rstr \<Rightarrow> bool" where
  "hits ni excluded ty p \<longleftrightarrow>
     (\<exists>a b. ni_text ni = a @ p @ b \<and> boundary_at (ni_token ni) ty a b
        \<and> \<not> (\<exists>e \<in> set excluded. ni_within ni (hit_span a p) e))"

text \<open>The matches a target gets from the occurrences of its pattern, with the spans they come from.\<close>

definition occurrences ::
  "normalized_input \<Rightarrow> byte_span list \<Rightarrow> wildcard_pattern_type \<Rightarrow> rstr \<Rightarrow> pattern_target \<Rightarrow> (uuid \<times> pattern_match) set" where
  "occurrences ni excluded ty p t =
     {(tg_rule_id t, match_of ty (hit_span a p) original t) | a b original.
        ni_text ni = a @ p @ b \<and> boundary_at (ni_token ni) ty a b
        \<and> \<not> (\<exists>e \<in> set excluded. ni_within ni (hit_span a p) e)
        \<and> ni_span_for ni (hit_span a p) = Some original}"

definition reported :: "match_report \<Rightarrow> (uuid \<times> pattern_match) set" where
  "reported r = {(rt_rule_id t, m) | t m. t \<in> set (mr_triggers r) \<and> m \<in> set (rt_matches t)}"

definition pattern_entries :: "compiled_pattern list \<Rightarrow> (rstr \<times> wildcard_pattern_type \<times> pattern_target) set" where
  "pattern_entries ps = {(cpt_text p, cpt_type p, t) | p t. p \<in> set ps \<and> t \<in> set (cpt_targets p)}"

lemma matches_boundary_at:
  assumes "ni_text ni = a @ p @ b"
  shows "matches_boundary ni (hit_span a p) ty = Some (boundary_at (ni_token ni) ty a b)"
proof -
  have "str_to (a @ p @ b) (byte_len a) = Some a" by (auto simp: str_to_Some_iff)
  moreover have "str_from (a @ p @ b) (byte_len (a @ p)) = Some b"
    by (auto simp: str_from_Some_iff intro: exI [of _ "a @ p"])
  ultimately have "left_ok ni (hit_span a p) = Some (a = [] \<or> \<not> ni_token ni (last a))"
    "right_ok ni (hit_span a p) = Some (b = [] \<or> \<not> ni_token ni (hd b))"
    using assms by (auto simp: left_ok_def right_ok_def hit_span_def)
  then show ?thesis by (cases ty) (simp_all add: matches_boundary_def boundary_at_def)
qed

definition view_patterns_ok :: "matcher_view \<Rightarrow> bool" where
  "view_patterns_ok view \<longleftrightarrow> (\<forall>p \<in> set (mv_patterns view). cpt_text p \<noteq> [])"

lemma found_occurrence:
  assumes "finds_occurrences ac" "view_patterns_ok view"
  shows "(k, s, e) \<in> set (ac_find ac (view_bytes view) (str_bytes t)) \<longleftrightarrow>
    k < length (mv_patterns view) \<and>
    (\<exists>a b. t = a @ cpt_text (mv_patterns view ! k) @ b \<and> Span s e = hit_span a (cpt_text (mv_patterns view ! k)))"
proof -
  have "\<forall>p \<in> set (view_bytes view). p \<noteq> []"
    using assms(2) by (auto simp: view_bytes_def view_patterns_ok_def)
      (metis byte_len_0_iff length_str_bytes list.size(3))
  then have "(k, s, e) \<in> set (ac_find ac (view_bytes view) (str_bytes t)) \<longleftrightarrow>
      k < length (view_bytes view) \<and> (\<exists>x y. str_bytes t = x @ view_bytes view ! k @ y
        \<and> length x = s \<and> length (x @ view_bytes view ! k) = e)"
    using assms(1) by (simp add: finds_occurrences_def)
  also have "\<dots> \<longleftrightarrow> k < length (mv_patterns view) \<and> (\<exists>x y.
      str_bytes t = x @ str_bytes (cpt_text (mv_patterns view ! k)) @ y
        \<and> length x = s \<and> length x + byte_len (cpt_text (mv_patterns view ! k)) = e)"
    by (simp add: view_bytes_def cong: conj_cong)
  also have "\<dots> \<longleftrightarrow> k < length (mv_patterns view) \<and>
    (\<exists>a b. t = a @ cpt_text (mv_patterns view ! k) @ b \<and> Span s e = hit_span a (cpt_text (mv_patterns view ! k)))"
    (is "_ \<and> ?l \<longleftrightarrow> _ \<and> ?r")
  proof (rule conj_cong [OF refl])
    assume k: "k < length (mv_patterns view)"
    then have ne: "cpt_text (mv_patterns view ! k) \<noteq> []" using assms(2) by (simp add: view_patterns_ok_def)
    show "?l \<longleftrightarrow> ?r"
    proof
      assume ?l
      then obtain x y where xy: "str_bytes t = x @ str_bytes (cpt_text (mv_patterns view ! k)) @ y"
        "length x = s" "length x + byte_len (cpt_text (mv_patterns view ! k)) = e" by blast
      from bytes_occurrence [OF xy(1) ne] obtain a b where
        "t = a @ cpt_text (mv_patterns view ! k) @ b" "str_bytes a = x" by blast
      with xy show ?r by (auto simp: hit_span_def)
    next
      assume ?r
      then show ?l by (fastforce simp: hit_span_def)
    qed
  qed
  finally show ?thesis .
qed

text \<open>What the search of a view finds are the occurrences of its entries.\<close>

lemma found_view_matches:
  assumes "finds_occurrences ac" "view_patterns_ok view"
  shows "\<Union> (found_matches view ni excluded ` set (ac_find ac (view_bytes view) (str_bytes (ni_text ni))))
    = \<Union> ((\<lambda>(p, ty, t). occurrences ni excluded ty p t) ` pattern_entries (mv_patterns view))" (is "\<Union> (_ ` set ?fs) = _")
proof -
  note occ = found_occurrence [OF assms, of _ _ _ "ni_text ni"]
  let ?p = "\<lambda>k. mv_patterns view ! k"
  have "x \<in> \<Union> (found_matches view ni excluded ` set ?fs) \<longleftrightarrow>
      (\<exists>k t. k < length (mv_patterns view) \<and> t \<in> set (cpt_targets (?p k))
         \<and> x \<in> occurrences ni excluded (cpt_type (?p k)) (cpt_text (?p k)) t)" (is "?l \<longleftrightarrow> ?r") for x
  proof
    assume ?l
    then obtain k s e t original where h: "(k, s, e) \<in> set ?fs" "t \<in> set (cpt_targets (?p k))"
      "accepted ni excluded (cpt_type (?p k)) (Span s e) original"
      "x = (tg_rule_id t, match_of (cpt_type (?p k)) (Span s e) original t)"
      by (auto simp: found_matches.simps)
    from h(1) obtain a b where ab: "k < length (mv_patterns view)" "ni_text ni = a @ cpt_text (?p k) @ b"
      "Span s e = hit_span a (cpt_text (?p k))" unfolding occ by blast
    with h matches_boundary_at [OF ab(2)] show ?r
      unfolding occurrences_def accepted_def by fastforce
  next
    assume ?r
    then obtain k t a b original where h: "k < length (mv_patterns view)" "t \<in> set (cpt_targets (?p k))"
      "ni_text ni = a @ cpt_text (?p k) @ b" "boundary_at (ni_token ni) (cpt_type (?p k)) a b"
      "\<not> (\<exists>e \<in> set excluded. ni_within ni (hit_span a (cpt_text (?p k))) e)"
      "ni_span_for ni (hit_span a (cpt_text (?p k))) = Some original"
      "x = (tg_rule_id t, match_of (cpt_type (?p k)) (hit_span a (cpt_text (?p k))) original t)"
      unfolding occurrences_def by blast
    obtain s e where se: "Span s e = hit_span a (cpt_text (?p k))" by (metis hit_span_def)
    then have mem: "(k, s, e) \<in> set ?fs" using h(1,3) unfolding occ by blast
    have "accepted ni excluded (cpt_type (?p k)) (Span s e) original"
      using h(4,5,6) unfolding accepted_def se matches_boundary_at [OF h(3)] by simp
    then have "x \<in> found_matches view ni excluded (k, s, e)"
      using h(2,7) unfolding found_matches.simps se by blast
    with mem show ?l by blast
  qed
  then show ?thesis
    unfolding pattern_entries_def set_eq_iff in_set_conv_nth [of _ "mv_patterns view"] by fastforce
qed

text \<open>What a view promises: its valid spans map back to valid spans of the input.\<close>

locale normalized_view =
  fixes input :: rstr
    and ni :: normalized_input
  assumes span_law: "valid_span (ni_text ni) n \<Longrightarrow> \<exists>s. ni_span_for ni n = Some s \<and> valid_span input s"
    and span_valid: "ni_span_for ni n = Some s \<Longrightarrow> valid_span input s"
begin

lemma hit_span_for:
  assumes "ni_text ni = a @ p @ b" "p \<noteq> []"
  shows "\<exists>s. ni_span_for ni (hit_span a p) = Some s"
proof -
  have "valid_span (ni_text ni) (hit_span a p)"
    using assms by (auto simp: valid_span_def hit_span_def is_char_boundary_iff intro: exI [of _ "a @ p"])
  from span_law [OF this] show ?thesis by blast
qed

lemma match_view_spec:
  assumes "finds_occurrences ac" "view_patterns_ok view"
  shows "\<exists>r. match_view ac view ni excluded details = Some r \<and> distinct (rule_ids r) \<and>
    set (rule_ids r) = {tg_rule_id t | t p. p \<in> set (mv_patterns view) \<and> t \<in> set (cpt_targets p)
      \<and> hits ni excluded (cpt_type p) (cpt_text p)} \<and>
    (\<forall>t \<in> set (mr_triggers r). \<forall>m \<in> set (rt_matches t). valid_span input (pm_original m)) \<and>
    (details = PatternsAndSpans \<longrightarrow> (\<forall>t \<in> set (mr_triggers r). rt_matches t \<noteq> [])) \<and>
    reported r = (if details = PatternsAndSpans then \<Union> ((\<lambda>(p, ty, t). occurrences ni excluded ty p t) ` pattern_entries (mv_patterns view))
      else {})"
proof -
  let ?fs = "ac_find ac (view_bytes view) (str_bytes (ni_text ni))"
  note occ = found_occurrence [OF assms, of _ _ _ "ni_text ni"]
  have ok: "\<forall>(k, a, b) \<in> set ?fs. k < length (mv_patterns view) \<and>
      matches_boundary ni (Span a b) (cpt_type (mv_patterns view ! k)) \<noteq> None"
    using matches_boundary_at by (fastforce simp: occ)
  from match_loop_ok [OF ok table_ok_Nil, of excluded details] obtain tab where tab:
    "match_loop view ni excluded details ?fs ([], []) = Some tab" "table_ok tab"
    "table_rules tab = \<Union> (found_rules view ni excluded ` set ?fs)"
    "table_matches tab = (if details = PatternsAndSpans then \<Union> (found_matches view ni excluded ` set ?fs) else {})"
    by auto
  have acc: "(\<exists>a b original. (k, a, b) \<in> set ?fs \<and> accepted ni excluded (cpt_type (mv_patterns view ! k)) (Span a b) original)
      \<longleftrightarrow> k < length (mv_patterns view) \<and> hits ni excluded (cpt_type (mv_patterns view ! k)) (cpt_text (mv_patterns view ! k))"
    (is "?l \<longleftrightarrow> ?r") for k
  proof
    assume ?l
    then obtain s e original where h: "(k, s, e) \<in> set ?fs"
      "accepted ni excluded (cpt_type (mv_patterns view ! k)) (Span s e) original" by blast
    from h(1) obtain a b where ab: "k < length (mv_patterns view)"
      "ni_text ni = a @ cpt_text (mv_patterns view ! k) @ b" "Span s e = hit_span a (cpt_text (mv_patterns view ! k))"
      unfolding occ by blast
    from h(2) have "boundary_at (ni_token ni) (cpt_type (mv_patterns view ! k)) a b"
      "\<not> (\<exists>x \<in> set excluded. ni_within ni (hit_span a (cpt_text (mv_patterns view ! k))) x)"
      unfolding accepted_def ab(3) matches_boundary_at [OF ab(2)] by simp_all
    with ab show ?r unfolding hits_def by blast
  next
    assume r: ?r
    then obtain a b where ab: "ni_text ni = a @ cpt_text (mv_patterns view ! k) @ b"
      "boundary_at (ni_token ni) (cpt_type (mv_patterns view ! k)) a b"
      "\<not> (\<exists>x \<in> set excluded. ni_within ni (hit_span a (cpt_text (mv_patterns view ! k))) x)"
      unfolding hits_def by blast
    have "cpt_text (mv_patterns view ! k) \<noteq> []" using r assms(2) by (simp add: view_patterns_ok_def)
    from hit_span_for [OF ab(1) this] obtain original where
      "ni_span_for ni (hit_span a (cpt_text (mv_patterns view ! k))) = Some original" by blast
    then have "accepted ni excluded (cpt_type (mv_patterns view ! k)) (hit_span a (cpt_text (mv_patterns view ! k))) original"
      using ab(2,3) unfolding accepted_def matches_boundary_at [OF ab(1)] by simp
    moreover obtain s e where se: "Span s e = hit_span a (cpt_text (mv_patterns view ! k))"
      by (metis hit_span_def)
    moreover have "(k, s, e) \<in> set ?fs" using r ab(1) se unfolding occ by blast
    ultimately show ?l by metis
  qed
  have rules: "r \<in> table_rules tab \<longleftrightarrow>
      (\<exists>k t. (\<exists>a b original. (k, a, b) \<in> set ?fs \<and> accepted ni excluded (cpt_type (mv_patterns view ! k)) (Span a b) original)
        \<and> t \<in> set (cpt_targets (mv_patterns view ! k)) \<and> tg_rule_id t = r)" for r
    unfolding tab(3) UN_iff Bex_def split_paired_Ex found_rules.simps mem_Collect_eq by blast
  have mem: "p \<in> set (mv_patterns view) \<longleftrightarrow> (\<exists>k < length (mv_patterns view). mv_patterns view ! k = p)" for p
    by (rule in_set_conv_nth)
  have "table_rules tab = {tg_rule_id t | t p. p \<in> set (mv_patterns view) \<and> t \<in> set (cpt_targets p)
      \<and> hits ni excluded (cpt_type p) (cpt_text p)}"
    unfolding set_eq_iff rules acc mem mem_Collect_eq by blast
  moreover have "valid_span input (pm_original m)" if "(r, m) \<in> table_matches tab" for r m
  proof -
    from that obtain n where "ni_span_for ni n = Some (pm_original m)"
      unfolding tab(4)
      by (auto simp: found_matches.simps match_of_def accepted_def split: if_splits)
    then show ?thesis by (rule span_valid)
  qed
  moreover have some: "\<exists>m. (r, m) \<in> table_matches tab" if "r \<in> table_rules tab" "details = PatternsAndSpans" for r
  proof -
    from that(1) obtain k t a b original where h: "(k, a, b) \<in> set ?fs"
      "accepted ni excluded (cpt_type (mv_patterns view ! k)) (Span a b) original"
      "t \<in> set (cpt_targets (mv_patterns view ! k))" "tg_rule_id t = r"
      unfolding rules by blast
    then have "(r, match_of (cpt_type (mv_patterns view ! k)) (Span a b) original t)
        \<in> found_matches view ni excluded (k, a, b)" by (auto simp: found_matches.simps)
    with h(1) that(2) show ?thesis unfolding tab(4) by auto
  qed
  moreover have "rt_matches t \<noteq> []" if t: "t \<in> set (fst tab)" "details = PatternsAndSpans" for t
  proof -
    have "rt_rule_id t \<in> table_rules tab" using t(1) by (simp add: table_rules_def)
    from some [OF this t(2)] t(1) tab(2) show ?thesis
      by (auto simp: table_matches_def table_ok_def distinct_map inj_on_def)
  qed
  moreover have "table_matches tab = (if details = PatternsAndSpans
      then \<Union> ((\<lambda>(p, ty, t). occurrences ni excluded ty p t) ` pattern_entries (mv_patterns view)) else {})"
    unfolding tab(4) found_view_matches [OF assms] ..
  ultimately show ?thesis
    using tab(1,2)
    by (auto simp: match_view_def rule_ids_def table_rules_def table_matches_def table_ok_def reported_def)
qed

end

lemma normalized_view_of:
  assumes "view_ok input (ni_text ni) spans"
    and "ni_span_for ni = (\<lambda>n. original_span (ni_text ni) spans (sp_start n) (sp_end n))"
  shows "normalized_view input ni"
proof
  fix n assume "valid_span (ni_text ni) n"
  from view_span_for [OF assms(1) this] show "\<exists>s. ni_span_for ni n = Some s \<and> valid_span input s"
    unfolding assms(2) by blast
next
  fix n s assume "ni_span_for ni n = Some s"
  then show "valid_span input s" unfolding assms(2) by (rule original_span_valid(1) [OF assms(1)])
qed

interpretation canonical_view: normalized_view input "canonical_input u (normalized_text_new u input)" for input u
  by (rule normalized_view_of [of _ _ "nt_spans (normalized_text_new u input)"])
     (auto simp: canonical_input_def nt_span_for_def fun_eq_iff normalized_text_new_ok)

interpretation extracted_view: normalized_view input "canonical_input u (from_original_spans u input ss)" for input u ss
  by (rule normalized_view_of [of _ _ "nt_spans (from_original_spans u input ss)"])
     (auto simp: canonical_input_def nt_span_for_def fun_eq_iff from_original_spans_ok)

interpretation security_view: normalized_view input "security_input u (security_normalized_text_new u input)" for input u
  by (rule normalized_view_of [of _ _ "sn_spans (security_normalized_text_new u input)"])
     (auto simp: security_input_def sn_span_for_def fun_eq_iff security_normalized_text_new_ok)

section \<open>The compiled patterns\<close>

definition pattern_table_ok :: "pattern_table \<Rightarrow> bool" where
  "pattern_table_ok tab \<longleftrightarrow> (\<forall>p \<in> set (fst tab). cpt_text p \<noteq> []) \<and>
     (\<forall>key i. map_of (snd tab) key = Some i \<longrightarrow>
        i < length (fst tab) \<and> (cpt_text (fst tab ! i), cpt_type (fst tab ! i)) = key)"

lemma pattern_entries_simps [simp]:
  "pattern_entries [] = {}"
  "pattern_entries (ps @ qs) = pattern_entries ps \<union> pattern_entries qs"
  by (auto simp: pattern_entries_def)

lemma pattern_entries_Cons [simp]:
  "pattern_entries (p # ps) = (\<lambda>t. (cpt_text p, cpt_type p, t)) ` set (cpt_targets p) \<union> pattern_entries ps"
  by (auto simp: pattern_entries_def)

lemma pattern_entries_update:
  assumes "i < length ps"
  shows "pattern_entries (ps[i := (ps ! i)\<lparr>cpt_targets := cpt_targets (ps ! i) @ [t]\<rparr>])
      = insert (cpt_text (ps ! i), cpt_type (ps ! i), t) (pattern_entries ps)"
proof -
  let ?p = "ps ! i"
  have "pattern_entries ps = pattern_entries (take i ps @ ?p # drop (Suc i) ps)"
    using assms by (simp add: id_take_nth_drop [symmetric])
  then show ?thesis
    by (simp add: upd_conv_take_nth_drop [OF assms])
qed

lemma insert_pattern_ok:
  assumes "pattern_table_ok tab" "t \<noteq> []"
  shows "pattern_table_ok (insert_pattern t ty target tab)"
    "pattern_entries (fst (insert_pattern t ty target tab)) = insert (t, ty, target) (pattern_entries (fst tab))"
proof -
  obtain ps ix where tab: "tab = (ps, ix)" by (cases tab)
  have "pattern_table_ok (insert_pattern t ty target tab) \<and>
    pattern_entries (fst (insert_pattern t ty target tab)) = insert (t, ty, target) (pattern_entries (fst tab))"
  proof (cases "map_of ix (t, ty)")
    case None
    with assms tab show ?thesis
      by (auto simp: insert_pattern_def pattern_table_ok_def nth_append less_Suc_eq)
  next
    case (Some i)
    then have i: "i < length ps" "cpt_text (ps ! i) = t" "cpt_type (ps ! i) = ty"
      using assms(1) tab by (auto simp: pattern_table_ok_def)
    let ?qs = "ps[i := (ps ! i)\<lparr>cpt_targets := cpt_targets (ps ! i) @ [target]\<rparr>]"
    have "cpt_text (?qs ! j) = cpt_text (ps ! j)" "cpt_type (?qs ! j) = cpt_type (ps ! j)"
      if "j < length ps" for j
      using that i by (simp_all add: nth_list_update)
    moreover have "cpt_text p \<noteq> []" if "p \<in> set ?qs" for p
    proof -
      from that i(1) have "p = (ps ! i)\<lparr>cpt_targets := cpt_targets (ps ! i) @ [target]\<rparr> \<or> p \<in> set ps"
        by (meson insertE set_update_subset_insert subsetD)
      then show ?thesis using assms i tab by (auto simp: pattern_table_ok_def)
    qed
    ultimately show ?thesis
      using assms tab i pattern_entries_update [OF i(1), of target] Some
      by (simp add: insert_pattern_def pattern_table_ok_def)
  qed
  then show "pattern_table_ok (insert_pattern t ty target tab)"
    "pattern_entries (fst (insert_pattern t ty target tab)) = insert (t, ty, target) (pattern_entries (fst tab))"
    by blast+
qed

definition canonical_entries :: "unicode \<Rightarrow> pattern_definition set \<Rightarrow> (rstr \<times> wildcard_pattern_type \<times> pattern_target) set" where
  "canonical_entries u D = (\<lambda>d. (normalize_pattern u (pd_pattern d), pd_type d, target_of d)) ` D"

definition security_entries :: "unicode \<Rightarrow> pattern_definition set \<Rightarrow> (rstr \<times> wildcard_pattern_type \<times> pattern_target) set" where
  "security_entries u D = {(s, pd_type d, target_of d) | s d. d \<in> D \<and> security_text u d = Some s}"

lemma compile_loop_ok:
  "compile_loop u ds ct st = Inr (ct', st') \<Longrightarrow> pattern_table_ok ct \<Longrightarrow> pattern_table_ok st \<Longrightarrow>
     pattern_table_ok ct' \<and> pattern_table_ok st' \<and>
     (\<forall>d \<in> set ds. normalize_pattern u (pd_pattern d) \<noteq> []) \<and>
     pattern_entries (fst ct') = pattern_entries (fst ct) \<union> canonical_entries u (set ds) \<and>
     pattern_entries (fst st') = pattern_entries (fst st) \<union> security_entries u (set ds)"
proof (induction ds arbitrary: ct st)
  case Nil
  then show ?case by (simp add: canonical_entries_def security_entries_def)
next
  case (Cons d ds)
  let ?n = "normalize_pattern u (pd_pattern d)"
  let ?ct = "insert_pattern ?n (pd_type d) (target_of d) ct"
  let ?st = "case security_text u d of Some s \<Rightarrow> insert_pattern s (pd_type d) (target_of d) st | None \<Rightarrow> st"
  have n: "?n \<noteq> []" and run: "compile_loop u ds ?ct ?st = Inr (ct', st')"
    using Cons.prems(1) by (auto simp: Let_def split: if_splits)
  note c = insert_pattern_ok [OF Cons.prems(2) n, of "pd_type d" "target_of d"]
  have s: "pattern_table_ok ?st \<and> pattern_entries (fst ?st) = pattern_entries (fst st) \<union> security_entries u {d}"
  proof (cases "security_text u d")
    case None
    then show ?thesis using Cons.prems(3) by (simp add: security_entries_def)
  next
    case (Some x)
    then have "x \<noteq> []" by (auto simp: security_text_def split: if_splits)
    from insert_pattern_ok [OF Cons.prems(3) this] Some show ?thesis by (auto simp: security_entries_def)
  qed
  have "security_entries u (set (d # ds)) = security_entries u {d} \<union> security_entries u (set ds)"
    by (auto simp: security_entries_def)
  with Cons.IH [OF run c(1) conjunct1 [OF s]] c(2) s n show ?case
    by (auto simp: canonical_entries_def)
qed

lemma compile_loop_error:
  "compile_loop u ds ct st = Inl e \<longleftrightarrow>
     (\<exists>d. find (\<lambda>d. normalize_pattern u (pd_pattern d) = []) ds = Some d
        \<and> e = EmptyPattern (pd_rule_id d) (pd_pattern_id d))"
  by (induction ds arbitrary: ct st) (auto simp: Let_def)

lemma view_compile_Inr: "view_compile ac ps = Inr v \<longleftrightarrow>
    ac_build ac (map (\<lambda>p. str_bytes (cpt_text p)) ps) = Inr () \<and> v = \<lparr>mv_patterns = ps\<rparr>"
  by (auto simp: view_compile_def)

lemma matcher_compile_ok:
  assumes "matcher_compile u ac defs = Inr m"
  shows "view_patterns_ok (cm_canonical m)"
    "pattern_entries (mv_patterns (cm_canonical m)) = canonical_entries u (set defs)"
    "(case cm_security m of None \<Rightarrow> security_entries u (set defs) = {}
      | Some v \<Rightarrow> view_patterns_ok v \<and> pattern_entries (mv_patterns v) = security_entries u (set defs))"
    "\<forall>d \<in> set defs. normalize_pattern u (pd_pattern d) \<noteq> []"
proof -
  let ?sorted = "sort_key (\<lambda>d. (pd_rule_id d, pd_pattern_id d, pd_type d)) defs"
  from assms obtain cp ci sp si where run0: "compile_loop u ?sorted ([], []) ([], []) = Inr ((cp, ci), (sp, si))"
    and rest0: "res_bind (view_compile ac cp) (\<lambda>cv.
           if sp = [] then Inr \<lparr>cm_canonical = cv, cm_security = None\<rparr>
           else res_bind (view_compile ac sp) (\<lambda>sv.
                  Inr \<lparr>cm_canonical = cv, cm_security = Some sv\<rparr>)) = Inr m"
    by (auto simp: matcher_compile_def Let_def)
  define ct st where "ct = (cp, ci)" and "st = (sp, si)"
  note run = run0 [folded ct_def st_def] and rest = rest0
  have fs: "fst ct = cp" "fst st = sp" by (simp_all add: ct_def st_def)
  have "pattern_table_ok ([], [])" by (simp add: pattern_table_ok_def)
  from compile_loop_ok [OF run this this] have c: "pattern_table_ok ct" "pattern_table_ok st"
    "\<forall>d \<in> set defs. normalize_pattern u (pd_pattern d) \<noteq> []"
    "pattern_entries (fst ct) = canonical_entries u (set defs)"
    "pattern_entries (fst st) = security_entries u (set defs)" by simp_all
  have m: "cm_canonical m = \<lparr>mv_patterns = fst ct\<rparr>"
    "cm_security m = (if fst st = [] then None else Some \<lparr>mv_patterns = fst st\<rparr>)"
    using rest unfolding fs by (auto simp: view_compile_Inr split: if_splits)
  show "view_patterns_ok (cm_canonical m)"
    "pattern_entries (mv_patterns (cm_canonical m)) = canonical_entries u (set defs)"
    "\<forall>d \<in> set defs. normalize_pattern u (pd_pattern d) \<noteq> []"
    using c m by (simp_all add: view_patterns_ok_def pattern_table_ok_def)
  show "case cm_security m of None \<Rightarrow> security_entries u (set defs) = {}
      | Some v \<Rightarrow> view_patterns_ok v \<and> pattern_entries (mv_patterns v) = security_entries u (set defs)"
    using c m by (auto simp: view_patterns_ok_def pattern_table_ok_def)
qed

section \<open>The matcher against its definitions\<close>

lemma entries_rules:
  "{tg_rule_id t | t p. p \<in> set ps \<and> t \<in> set (cpt_targets p) \<and> P (cpt_type p) (cpt_text p)}
     = {tg_rule_id t | s ty t. (s, ty, t) \<in> pattern_entries ps \<and> P ty s}"
  by (auto simp: pattern_entries_def)

text \<open>The rules that a set of definitions makes match on a view, by the meaning of the patterns.\<close>

definition spec_rules :: "unicode \<Rightarrow> pattern_definition set \<Rightarrow> normalized_input \<Rightarrow> uuid set" where
  "spec_rules u D ni =
     {pd_rule_id d | d. d \<in> D \<and> hits ni [] (pd_type d) (normalize_pattern u (pd_pattern d))}"

definition spec_security_rules ::
  "unicode \<Rightarrow> pattern_definition set \<Rightarrow> normalized_input \<Rightarrow> byte_span list \<Rightarrow> uuid set" where
  "spec_security_rules u D ni excluded =
     {pd_rule_id d | d s. d \<in> D \<and> security_text u d = Some s \<and> hits ni excluded (pd_type d) s}"

text \<open>The matches, with their identifiers and spans, that the definitions have on a view.\<close>

definition spec_matches :: "unicode \<Rightarrow> pattern_definition set \<Rightarrow> normalized_input \<Rightarrow> (uuid \<times> pattern_match) set" where
  "spec_matches u D ni =
     (\<Union>d \<in> D. occurrences ni [] (pd_type d) (normalize_pattern u (pd_pattern d)) (target_of d))"

definition spec_security_matches ::
  "unicode \<Rightarrow> pattern_definition set \<Rightarrow> normalized_input \<Rightarrow> byte_span list \<Rightarrow> (uuid \<times> pattern_match) set" where
  "spec_security_matches u D ni excluded =
     (\<Union>d \<in> D. case security_text u d of None \<Rightarrow> {} | Some s \<Rightarrow> occurrences ni excluded (pd_type d) s (target_of d))"

text \<open>Two matches of a rule count as one when they name the same pattern, type and original span.\<close>

definition match_shape :: "uuid \<times> pattern_match \<Rightarrow> uuid \<times> uuid \<times> wildcard_pattern_type \<times> byte_span" where
  "match_shape x = (fst x, pm_pattern_id (snd x), pm_type (snd x), pm_original (snd x))"

lemma same_match_shape: "same_match a b \<longleftrightarrow> match_shape (r, a) = match_shape (r, b)"
  by (simp add: same_match_def match_shape_def)

definition report_spans_ok :: "rstr \<Rightarrow> match_report \<Rightarrow> bool" where
  "report_spans_ok input r \<longleftrightarrow> (\<forall>t \<in> set (mr_triggers r). \<forall>m \<in> set (rt_matches t). valid_span input (pm_original m))"

definition report_ok :: "rstr \<Rightarrow> match_details \<Rightarrow> match_report \<Rightarrow> bool" where
  "report_ok input details r \<longleftrightarrow> distinct (rule_ids r) \<and> report_spans_ok input r \<and>
     (details = PatternsAndSpans \<longrightarrow> (\<forall>t \<in> set (mr_triggers r). rt_matches t \<noteq> []))"

lemma canonical_match_spec:
  assumes "finds_occurrences ac" "matcher_compile u ac defs = Inr m" "normalized_view input ni"
  shows "\<exists>r. match_view ac (cm_canonical m) ni [] details = Some r \<and> report_ok input details r \<and>
    set (rule_ids r) = spec_rules u (set defs) ni \<and>
    reported r = (if details = PatternsAndSpans then spec_matches u (set defs) ni else {})"
proof -
  note c = matcher_compile_ok [OF assms(2)]
  have "{tg_rule_id t | t p. p \<in> set (mv_patterns (cm_canonical m)) \<and> t \<in> set (cpt_targets p)
      \<and> hits ni [] (cpt_type p) (cpt_text p)} = spec_rules u (set defs) ni"
    unfolding entries_rules c(2) spec_rules_def canonical_entries_def by (force simp: target_of_def)
  moreover have "\<Union> ((\<lambda>(p, ty, t). occurrences ni [] ty p t) ` pattern_entries (mv_patterns (cm_canonical m)))
      = spec_matches u (set defs) ni"
    unfolding c(2) spec_matches_def canonical_entries_def by (simp add: image_image)
  ultimately show ?thesis
    using normalized_view.match_view_spec [OF assms(3,1) c(1), of "[]" details]
    by (auto simp: report_ok_def report_spans_ok_def)
qed

lemma security_match_spec:
  assumes "finds_occurrences ac" "matcher_compile u ac defs = Inr m" "normalized_view input ni"
    and "cm_security m = Some v"
  shows "\<exists>r. match_view ac v ni excluded details = Some r \<and> report_ok input details r \<and>
    set (rule_ids r) = spec_security_rules u (set defs) ni excluded \<and>
    reported r = (if details = PatternsAndSpans then spec_security_matches u (set defs) ni excluded else {})"
proof -
  from matcher_compile_ok(3) [OF assms(2)] assms(4)
  have c: "view_patterns_ok v" "pattern_entries (mv_patterns v) = security_entries u (set defs)" by simp_all
  have "{tg_rule_id t | t p. p \<in> set (mv_patterns v) \<and> t \<in> set (cpt_targets p)
      \<and> hits ni excluded (cpt_type p) (cpt_text p)} = spec_security_rules u (set defs) ni excluded"
    unfolding entries_rules c(2) spec_security_rules_def security_entries_def by (force simp: target_of_def)
  moreover have "\<Union> ((\<lambda>(p, ty, t). occurrences ni excluded ty p t) ` pattern_entries (mv_patterns v))
      = spec_security_matches u (set defs) ni excluded"
  proof (intro set_eqI)
    fix x
    have "x \<in> \<Union> ((\<lambda>(p, ty, t). occurrences ni excluded ty p t) ` security_entries u (set defs))
        \<longleftrightarrow> (\<exists>d \<in> set defs. \<exists>s. security_text u d = Some s \<and> x \<in> occurrences ni excluded (pd_type d) s (target_of d))"
      unfolding security_entries_def by blast
    also have "\<dots> \<longleftrightarrow> x \<in> spec_security_matches u (set defs) ni excluded"
      unfolding spec_security_matches_def UN_iff by (intro bex_cong refl) (simp split: option.split)
    finally show "x \<in> \<Union> ((\<lambda>(p, ty, t). occurrences ni excluded ty p t) ` pattern_entries (mv_patterns v))
        \<longleftrightarrow> x \<in> spec_security_matches u (set defs) ni excluded" unfolding c(2) .
  qed
  ultimately show ?thesis
    using normalized_view.match_view_spec [OF assms(3,1) c(1), of excluded details]
    by (auto simp: report_ok_def report_spans_ok_def)
qed

lemma no_security_rules:
  assumes "matcher_compile u ac defs = Inr m" "cm_security m = None"
  shows "spec_security_rules u (set defs) ni excluded = {}" "spec_security_matches u (set defs) ni excluded = {}"
proof -
  have e: "security_entries u (set defs) = {}" using matcher_compile_ok(3) [OF assms(1)] assms(2) by simp
  show "spec_security_rules u (set defs) ni excluded = {}"
    using e by (auto simp: spec_security_rules_def security_entries_def)
  have "security_text u d = None" if "d \<in> set defs" for d
    using e that by (cases "security_text u d") (auto simp: security_entries_def)
  then show "spec_security_matches u (set defs) ni excluded = {}" by (simp add: spec_security_matches_def)
qed

text \<open>Merging two reports joins their rules and adds the matches that are new.\<close>

lemma merge_index_ok:
  assumes "distinct (map rt_rule_id ts)"
  shows "table_ok (ts, fold (\<lambda>(i, t). hm_insert (rt_rule_id t) i) (List.enumerate 0 ts) [])"
  using assms
proof (induction ts rule: rev_induct)
  case (snoc t ts)
  let ?ix = "fold (\<lambda>(i, t). hm_insert (rt_rule_id t) i) (List.enumerate 0 ts) []"
  have "map_of ?ix r = Some i \<longleftrightarrow> i < length ts \<and> rt_rule_id (ts ! i) = r" for r i
    using snoc by (simp add: table_ok_def)
  moreover have "\<forall>i < length ts. rt_rule_id (ts ! i) \<noteq> rt_rule_id t"
    using snoc.prems by auto (metis image_eqI nth_mem)
  ultimately show ?case
    using snoc.prems by (auto simp: table_ok_def enumerate_append_eq nth_append less_Suc_eq)
qed simp

lemma merge_matches_ok:
  assumes "table_ok (ts, ix)" "i < length ts"
  shows "table_ok (fold (\<lambda>m ts. if \<exists>e \<in> set (rt_matches (ts ! i)). same_match e m then ts
                           else push_match i m ts) ms ts, ix) \<and>
    table_rules (fold (\<lambda>m ts. if \<exists>e \<in> set (rt_matches (ts ! i)). same_match e m then ts
                           else push_match i m ts) ms ts, ix) = table_rules (ts, ix) \<and>
    table_matches (fold (\<lambda>m ts. if \<exists>e \<in> set (rt_matches (ts ! i)). same_match e m then ts
                           else push_match i m ts) ms ts, ix) \<subseteq> table_matches (ts, ix) \<union> {rt_rule_id (ts ! i)} \<times> set ms \<and>
    table_matches (ts, ix) \<subseteq> table_matches (fold (\<lambda>m ts. if \<exists>e \<in> set (rt_matches (ts ! i)). same_match e m then ts
                           else push_match i m ts) ms ts, ix) \<and>
    match_shape ` ({rt_rule_id (ts ! i)} \<times> set ms) \<subseteq> match_shape ` table_matches (fold (\<lambda>m ts.
        if \<exists>e \<in> set (rt_matches (ts ! i)). same_match e m then ts else push_match i m ts) ms ts, ix)"
  using assms
proof (induction ms arbitrary: ts)
  case (Cons m ms)
  let ?r = "rt_rule_id (ts ! i)"
  let ?ts = "if \<exists>e \<in> set (rt_matches (ts ! i)). same_match e m then ts else push_match i m ts"
  note p = push_match_simps [OF Cons.prems(2), of m] push_match_table [OF Cons.prems, of m]
  have 1: "table_ok (?ts, ix)" "i < length ?ts" "table_rules (?ts, ix) = table_rules (ts, ix)"
    "table_matches (?ts, ix) \<subseteq> insert (?r, m) (table_matches (ts, ix))"
    "table_matches (ts, ix) \<subseteq> table_matches (?ts, ix)"
    using Cons.prems p by auto
  have rid: "rt_rule_id (?ts ! i) = ?r" using Cons.prems(2) by (simp add: push_match_def)
  have 2: "match_shape (?r, m) \<in> match_shape ` table_matches (?ts, ix)"
  proof (cases "\<exists>e \<in> set (rt_matches (ts ! i)). same_match e m")
    case True
    then obtain e where e: "e \<in> set (rt_matches (ts ! i))" "match_shape (?r, e) = match_shape (?r, m)"
      using same_match_shape by blast
    have "ts ! i \<in> set ts" using Cons.prems(2) by (rule nth_mem)
    with e(1) have "(?r, e) \<in> table_matches (ts, ix)" unfolding table_matches_def fst_conv by blast
    with True have "(?r, e) \<in> table_matches (?ts, ix)" by simp
    then have "match_shape (?r, e) \<in> match_shape ` table_matches (?ts, ix)" by (rule imageI)
    then show ?thesis unfolding e(2) .
  qed (use p in auto)
  note ih = Cons.IH [OF 1(1,2), unfolded rid]
  define A where "A = table_matches (fold (\<lambda>m ts. if \<exists>e \<in> set (rt_matches (ts ! i)). same_match e m then ts
    else push_match i m ts) ms ?ts, ix)"
  have A: "A \<subseteq> table_matches (?ts, ix) \<union> {?r} \<times> set ms" "table_matches (?ts, ix) \<subseteq> A"
    "match_shape ` ({?r} \<times> set ms) \<subseteq> match_shape ` A"
    using ih unfolding A_def by blast+
  have "A \<subseteq> table_matches (ts, ix) \<union> {?r} \<times> set (m # ms)"
    using A(1) 1(4) by (auto dest!: subsetD)
  moreover have "table_matches (ts, ix) \<subseteq> A" by (rule order_trans [OF 1(5) A(2)])
  moreover have "match_shape ` ({?r} \<times> set (m # ms)) \<subseteq> match_shape ` A"
  proof -
    have "match_shape ` ({?r} \<times> set (m # ms)) = insert (match_shape (?r, m)) (match_shape ` ({?r} \<times> set ms))"
      by auto
    with 2 A(3) image_mono [OF A(2), of match_shape] show ?thesis by (auto dest!: subsetD)
  qed
  ultimately show ?case using ih 1(3) unfolding A_def fold.simps comp_def by simp
qed simp

definition table_full :: "trigger_table \<Rightarrow> bool" where
  "table_full tab \<longleftrightarrow> (\<forall>r \<in> table_rules tab. \<exists>m. (r, m) \<in> table_matches tab)"

lemma table_full_extend:
  assumes "table_rules tab' = insert x (table_rules tab)" "table_matches tab \<subseteq> table_matches tab'"
    and "(x, m) \<in> table_matches tab'" "table_full tab"
  shows "table_full tab'"
  unfolding table_full_def
proof
  fix r assume "r \<in> table_rules tab'"
  then consider "r = x" | "r \<in> table_rules tab" using assms(1) by auto
  then show "\<exists>m. (r, m) \<in> table_matches tab'"
    using assms unfolding table_full_def by cases blast+
qed

definition trigger_matches :: "match_details \<Rightarrow> rule_trigger \<Rightarrow> (uuid \<times> pattern_match) set" where
  "trigger_matches details t = (if details = PatternsAndSpans then {rt_rule_id t} \<times> set (rt_matches t) else {})"

lemma trigger_in_table:
  assumes "match_shape ` trigger_matches PatternsAndSpans t \<subseteq> match_shape ` table_matches tab" "rt_matches t \<noteq> []"
  shows "\<exists>x. (rt_rule_id t, x) \<in> table_matches tab"
proof -
  have "(rt_rule_id t, hd (rt_matches t)) \<in> trigger_matches PatternsAndSpans t"
    using assms(2) by (simp add: trigger_matches_def)
  with assms(1) have "match_shape (rt_rule_id t, hd (rt_matches t)) \<in> match_shape ` table_matches tab" by blast
  then show ?thesis by (auto simp: match_shape_def)
qed

lemma merge_trigger_ok:
  assumes "table_ok tab"
  shows "table_ok (merge_trigger details t tab)"
    "table_rules (merge_trigger details t tab) = insert (rt_rule_id t) (table_rules tab)"
    "table_matches (merge_trigger details t tab) \<subseteq> table_matches tab \<union> trigger_matches details t"
    "table_matches tab \<subseteq> table_matches (merge_trigger details t tab)"
    "match_shape ` trigger_matches details t \<subseteq> match_shape ` table_matches (merge_trigger details t tab)"
    "details = PatternsAndSpans \<Longrightarrow> rt_matches t \<noteq> [] \<Longrightarrow> table_full tab \<Longrightarrow> table_full (merge_trigger details t tab)"
proof -
  obtain i ts ix where i: "trigger_index (rt_rule_id t) tab = (i, (ts, ix))" by (metis prod.exhaust)
  note ok = trigger_index_ok [OF assms i, simplified]
  note m = merge_matches_ok [OF ok(1,2), of "rt_matches t"]
  show r: "table_ok (merge_trigger details t tab)"
    "table_rules (merge_trigger details t tab) = insert (rt_rule_id t) (table_rules tab)"
    and sub: "table_matches (merge_trigger details t tab) \<subseteq> table_matches tab \<union> trigger_matches details t"
    "table_matches tab \<subseteq> table_matches (merge_trigger details t tab)"
    and sh: "match_shape ` trigger_matches details t \<subseteq> match_shape ` table_matches (merge_trigger details t tab)"
    using ok m by (simp_all add: merge_trigger_def i trigger_matches_def)
  assume a: "details = PatternsAndSpans" "rt_matches t \<noteq> []" "table_full tab"
  from trigger_in_table [OF sh [unfolded a(1)] a(2)] a(1) obtain x where
    x: "(rt_rule_id t, x) \<in> table_matches (merge_trigger details t tab)" by blast
  show "table_full (merge_trigger details t tab)" by (rule table_full_extend [OF r(2) sub(2) x a(3)])
qed

lemma merge_triggers_ok:
  assumes "table_ok tab"
  shows "table_ok (fold (merge_trigger details) us tab)
    \<and> table_rules (fold (merge_trigger details) us tab) = set (map rt_rule_id us) \<union> table_rules tab
    \<and> table_matches (fold (merge_trigger details) us tab) \<subseteq> table_matches tab \<union> \<Union> (trigger_matches details ` set us)
    \<and> table_matches tab \<subseteq> table_matches (fold (merge_trigger details) us tab)
    \<and> match_shape ` \<Union> (trigger_matches details ` set us) \<subseteq> match_shape ` table_matches (fold (merge_trigger details) us tab)
    \<and> (details = PatternsAndSpans \<and> (\<forall>t \<in> set us. rt_matches t \<noteq> []) \<and> table_full tab \<longrightarrow>
         table_full (fold (merge_trigger details) us tab))"
  using assms
proof (induction us arbitrary: tab)
  case (Cons t us)
  note m = merge_trigger_ok [OF Cons.prems, of details t]
  note ih = Cons.IH [OF m(1)]
  have steps: "A \<subseteq> B \<union> U \<Longrightarrow> B \<subseteq> C \<union> T \<Longrightarrow> A \<subseteq> C \<union> (T \<union> U)" for A B C T U :: "(uuid \<times> pattern_match) set" by blast
  have shapes: "match_shape ` T \<subseteq> match_shape ` B \<Longrightarrow> B \<subseteq> A \<Longrightarrow> match_shape ` U \<subseteq> match_shape ` A
      \<Longrightarrow> match_shape ` (T \<union> U) \<subseteq> match_shape ` A" for A B T U by blast
  have "table_matches (fold (merge_trigger details) (t # us) tab)
      \<subseteq> table_matches tab \<union> \<Union> (trigger_matches details ` set (t # us))"
    unfolding fold.simps comp_def list.set image_insert Union_insert by (rule steps [OF _ m(3)]) (use ih in blast)
  moreover have "match_shape ` \<Union> (trigger_matches details ` set (t # us))
      \<subseteq> match_shape ` table_matches (fold (merge_trigger details) (t # us) tab)"
    unfolding fold.simps comp_def list.set image_insert Union_insert by (rule shapes [OF m(5)]) (use ih in blast)+
  moreover have "table_matches tab \<subseteq> table_matches (fold (merge_trigger details) (t # us) tab)"
    unfolding fold.simps comp_def by (rule order_trans [OF m(4)]) (use ih in blast)
  ultimately show ?case using ih m by simp
qed simp

lemma table_of_report:
  "table_rules (mr_triggers r, ix) = set (rule_ids r)"
  "(x, m) \<in> table_matches (mr_triggers r, ix) \<longleftrightarrow> (\<exists>t \<in> set (mr_triggers r). rt_rule_id t = x \<and> m \<in> set (rt_matches t))"
  by (auto simp: table_rules_def rule_ids_def table_matches_def)

lemma full_nonempty:
  assumes "distinct (map rt_rule_id ts)"
  shows "table_full (ts, ix) \<longleftrightarrow> (\<forall>t \<in> set ts. rt_matches t \<noteq> [])"
proof
  assume f: "table_full (ts, ix)"
  show "\<forall>t \<in> set ts. rt_matches t \<noteq> []"
  proof
    fix t assume t: "t \<in> set ts"
    then obtain m s where "s \<in> set ts" "rt_rule_id s = rt_rule_id t" "m \<in> set (rt_matches s)"
      using f by (auto simp: table_full_def table_rules_def table_matches_def)
    moreover from this t assms have "s = t" by (simp add: distinct_map inj_on_def)
    ultimately show "rt_matches t \<noteq> []" by auto
  qed
next
  assume n: "\<forall>t \<in> set ts. rt_matches t \<noteq> []"
  show "table_full (ts, ix)"
    unfolding table_full_def table_rules_def table_matches_def
  proof
    fix r assume "r \<in> set (map rt_rule_id (fst (ts, ix)))"
    then obtain t where "t \<in> set ts" "rt_rule_id t = r" by auto
    moreover from this n have "hd (rt_matches t) \<in> set (rt_matches t)" by simp
    ultimately show "\<exists>m. (r, m) \<in> {(rt_rule_id t, m) | t m. t \<in> set (fst (ts, ix)) \<and> m \<in> set (rt_matches t)}"
      by auto
  qed
qed

lemma merge_reports_spec:
  assumes "report_ok input details p" "report_ok input details s"
  shows "report_ok input details (merge_reports p s details)"
    "set (rule_ids (merge_reports p s details)) = set (rule_ids p) \<union> set (rule_ids s)"
    "reported (merge_reports p s details) \<subseteq> reported p \<union> reported s"
    "reported p \<subseteq> reported (merge_reports p s details)"
    "details = PatternsAndSpans \<Longrightarrow> match_shape ` reported s \<subseteq> match_shape ` reported (merge_reports p s details)"
proof -
  let ?ix = "fold (\<lambda>(i, t). hm_insert (rt_rule_id t) i) (List.enumerate 0 (mr_triggers p)) []"
  let ?tab = "fold (merge_trigger details) (mr_triggers s) (mr_triggers p, ?ix)"
  have d: "distinct (map rt_rule_id (mr_triggers p))"
    using assms(1) by (simp add: report_ok_def rule_ids_def)
  note m = merge_triggers_ok [OF merge_index_ok [OF d], of details "mr_triggers s"]
  have r: "mr_triggers (merge_reports p s details) = fst ?tab"
    by (simp add: merge_reports_def Let_def)
  have d': "distinct (map rt_rule_id (fst ?tab))" using m by (simp add: table_ok_def)
  show "set (rule_ids (merge_reports p s details)) = set (rule_ids p) \<union> set (rule_ids s)"
    using m unfolding rule_ids_def r table_rules_def by auto
  have tab: "table_matches ?tab = reported (merge_reports p s details)" "table_matches (mr_triggers p, ?ix) = reported p"
    by (simp_all add: table_matches_def reported_def r)
  have trig: "\<Union> (trigger_matches details ` set (mr_triggers s)) = (if details = PatternsAndSpans then reported s else {})"
    by (auto simp: trigger_matches_def reported_def)
  show below: "reported (merge_reports p s details) \<subseteq> reported p \<union> reported s"
    and "reported p \<subseteq> reported (merge_reports p s details)"
    and "details = PatternsAndSpans \<Longrightarrow> match_shape ` reported s \<subseteq> match_shape ` reported (merge_reports p s details)"
    using m unfolding tab trig by (auto split: if_splits)
  have "valid_span input (pm_original x)" if "t \<in> set (fst ?tab)" "x \<in> set (rt_matches t)" for t x
  proof -
    have "(rt_rule_id t, x) \<in> table_matches ?tab" using that by (auto simp: table_matches_def)
    then have "(rt_rule_id t, x) \<in> reported p \<union> reported s"
      using below by (auto simp: tab)
    then show ?thesis
      using assms by (auto simp: reported_def report_ok_def report_spans_ok_def)
  qed
  moreover have "\<forall>t \<in> set (fst ?tab). rt_matches t \<noteq> []" if "details = PatternsAndSpans"
    using m that assms full_nonempty [OF d, of ?ix] full_nonempty [OF d', of "snd ?tab"]
    by (simp add: report_ok_def)
  ultimately show "report_ok input details (merge_reports p s details)"
    using d' unfolding report_ok_def report_spans_ok_def rule_ids_def r by blast
qed

text \<open>
  A detailed report lists all canonical matches and, up to repetitions of a match with the same
  pattern, type and original span, all security matches, and nothing else; a fast one lists none.
\<close>

definition reports_exactly ::
  "match_details \<Rightarrow> match_report \<Rightarrow> (uuid \<times> pattern_match) set \<Rightarrow> (uuid \<times> pattern_match) set \<Rightarrow> bool" where
  "reports_exactly details r canonical security \<longleftrightarrow>
     (if details = PatternsAndSpans
      then canonical \<subseteq> reported r \<and> reported r \<subseteq> canonical \<union> security
        \<and> match_shape ` reported r = match_shape ` (canonical \<union> security)
      else reported r = {})"

lemma match_with_security_spec:
  assumes ac: "finds_occurrences ac" and m: "matcher_compile u ac defs = Inr m"
    and "normalized_view input (canonical_input u t)"
    and "case security of None \<Rightarrow> True | Some s \<Rightarrow> normalized_view input (security_input u s)"
  shows "\<exists>r. match_normalized_with_security u ac m t security excluded details = Some r
    \<and> report_ok input details r
    \<and> set (rule_ids r) = spec_rules u (set defs) (canonical_input u t) \<union>
        (case security of None \<Rightarrow> {}
         | Some s \<Rightarrow> spec_security_rules u (set defs) (security_input u s) excluded)
    \<and> reports_exactly details r (spec_matches u (set defs) (canonical_input u t))
        (case security of None \<Rightarrow> {}
         | Some s \<Rightarrow> spec_security_matches u (set defs) (security_input u s) excluded)"
proof -
  from canonical_match_spec [OF ac m assms(3)] obtain r where r:
    "match_view ac (cm_canonical m) (canonical_input u t) [] details = Some r" "report_ok input details r"
    "set (rule_ids r) = spec_rules u (set defs) (canonical_input u t)"
    "reported r = (if details = PatternsAndSpans then spec_matches u (set defs) (canonical_input u t) else {})" by blast
  show ?thesis
  proof (cases security)
    case None
    with r show ?thesis by (simp add: match_normalized_with_security_def reports_exactly_def)
  next
    case (Some s)
    show ?thesis
    proof (cases "cm_security m")
      case None
      with r Some no_security_rules [OF m None] show ?thesis
        by (simp add: match_normalized_with_security_def reports_exactly_def)
    next
      case (Some v)
      from assms(4) \<open>security = Some s\<close> have "normalized_view input (security_input u s)" by simp
      from security_match_spec [OF ac m this Some] obtain q where
        "match_view ac v (security_input u s) excluded details = Some q" "report_ok input details q"
        "set (rule_ids q) = spec_security_rules u (set defs) (security_input u s) excluded"
        "reported q = (if details = PatternsAndSpans then spec_security_matches u (set defs) (security_input u s) excluded else {})"
        by blast
      note q = this
      note mr = merge_reports_spec [OF r(2) q(2)]
      have "reports_exactly details (merge_reports r q details) (spec_matches u (set defs) (canonical_input u t))
          (spec_security_matches u (set defs) (security_input u s) excluded)"
        using mr(3-5) unfolding reports_exactly_def r(4) q(4) by (auto split: if_splits)
      with q r mr(1,2) Some \<open>security = Some s\<close> show ?thesis
        by (simp add: match_normalized_with_security_def)
    qed
  qed
qed

text \<open>
  C23 [match_text_correct]: With an automaton that finds the occurrences of its patterns, a compiled
  matcher reports for a text exactly the rules that have a pattern occurring in the canonical
  text between the boundaries its type asks for, or an eligible single-word pattern occurring so
  in the security view; no rule twice, and never a panic on an index or a character boundary. A
  detailed report lists under each rule exactly these occurrences, each with the identifier and
  type of its pattern and with the span of the original text it comes from, which is a valid span of
  the text; only a security match that repeats the pattern, type and original span of another match
  is left out. Sharing equal patterns loses no rule and no pattern.
\<close>

theorem match_text_correct:
  assumes "finds_occurrences ac" "matcher_compile u ac defs = Inr m"
  shows "\<exists>r. match_text u ac m input details = Some r \<and> distinct (rule_ids r) \<and>
    set (rule_ids r) =
      spec_rules u (set defs) (canonical_input u (normalized_text_new u input)) \<union>
      spec_security_rules u (set defs) (security_input u (security_normalized_text_new u input)) [] \<and>
    reports_exactly details r
      (spec_matches u (set defs) (canonical_input u (normalized_text_new u input)))
      (spec_security_matches u (set defs) (security_input u (security_normalized_text_new u input)) []) \<and>
    (\<forall>t \<in> set (mr_triggers r). \<forall>x \<in> set (rt_matches t). valid_span input (pm_original x))"
proof -
  have "case Some (security_normalized_text_new u input) of None \<Rightarrow> True
      | Some s \<Rightarrow> normalized_view input (security_input u s)"
    by (simp add: security_view.normalized_view_axioms)
  from match_with_security_spec [OF assms canonical_view.normalized_view_axioms this, of "[]" details]
  show ?thesis by (auto simp: match_text_def report_ok_def report_spans_ok_def)
qed

definition sample_definitions :: "pattern_definition list" where
  "sample_definitions =
     [\<lparr>pd_rule_id = 1, pd_pattern_id = 10, pd_pattern = lit ''spam'', pd_type = ExactWord\<rparr>,
      \<lparr>pd_rule_id = 2, pd_pattern_id = 20, pd_pattern = lit ''spam*'', pd_type = Prefix\<rparr>]"

lemma sample_compiles: "is_ok (matcher_compile ascii_unicode naive_automaton sample_definitions)"
  by code_simp

theorem match_text_correct_witness:
  "\<exists>m r. matcher_compile ascii_unicode naive_automaton sample_definitions = Inr m \<and>
     match_text ascii_unicode naive_automaton m (lit ''No SPAMMING'') PatternsAndSpans = Some r \<and>
     distinct (rule_ids r)"
proof -
  obtain m where m: "matcher_compile ascii_unicode naive_automaton sample_definitions = Inr m"
    using sample_compiles by (auto simp: is_ok_def split: sum.splits)
  from match_text_correct [OF naive_automaton_finds m, of "lit ''No SPAMMING''" PatternsAndSpans] m
  show ?thesis by blast
qed

text \<open>
  If a definition has a pattern that is empty once normalised,
  compilation fails with the empty-pattern error of the first such definition in order of rule,
  pattern and type; otherwise it fails only when the automaton cannot be built.
\<close>

theorem matcher_compile_errors:
  "case find (\<lambda>d. normalize_pattern u (pd_pattern d) = [])
          (sort_key (\<lambda>d. (pd_rule_id d, pd_pattern_id d, pd_type d)) defs) of
     Some d \<Rightarrow> matcher_compile u ac defs = Inl (EmptyPattern (pd_rule_id d) (pd_pattern_id d))
   | None \<Rightarrow> (case matcher_compile u ac defs of
       Inr m \<Rightarrow> True
     | Inl e \<Rightarrow> \<exists>ps msg. ac_build ac ps = Inl msg \<and> e = AutomatonError msg)"
proof -
  let ?s = "sort_key (\<lambda>d. (pd_rule_id d, pd_pattern_id d, pd_type d)) defs"
  show ?thesis
  proof (cases "find (\<lambda>d. normalize_pattern u (pd_pattern d) = []) ?s")
    case (Some d)
    then have "compile_loop u ?s ([], []) ([], []) = Inl (EmptyPattern (pd_rule_id d) (pd_pattern_id d))"
      unfolding compile_loop_error by blast
    with Some show ?thesis by (simp add: matcher_compile_def Let_def)
  next
    case None
    then have "compile_loop u ?s ([], []) ([], []) \<noteq> Inl x" for x
      unfolding compile_loop_error by simp
    then obtain r where r: "compile_loop u ?s ([], []) ([], []) = Inr r"
      by (cases "compile_loop u ?s ([], []) ([], [])") auto
    have v: "view_compile ac ps = Inl x \<Longrightarrow> \<exists>ps msg. ac_build ac ps = Inl msg \<and> x = AutomatonError msg" for ps x
      unfolding view_compile_def by (cases "ac_build ac (map (\<lambda>p. str_bytes (cpt_text p)) ps)") auto
    have "matcher_compile u ac defs = Inl e \<Longrightarrow> \<exists>ps msg. ac_build ac ps = Inl msg \<and> e = AutomatonError msg" for e
      by (auto simp: matcher_compile_def Let_def r res_bind_Inl_iff case_prod_beta split: if_splits dest: v)
    with None show ?thesis by (auto split: sum.splits)
  qed
qed

end
