(* ===== verification/Validation.thy ===== *)
theory Validation
  imports Normalization
begin

text \<open>
  Parsing of administrator patterns and validation of policies
  (\<open>src/content_policy/validation.rs\<close>). Slicing a string backwards panics in the code; the
  functions that may do so return an option whose \<open>None\<close> is the panic. The printing of a
  \<open>Uuid\<close> is a parameter.
\<close>

section \<open>Patterns\<close>

record parsed_pattern =
  pp_normalized :: rstr
  pp_type :: wildcard_pattern_type

datatype pattern_error_code =
    PEmpty | PMalformedQuotes | PUnquotedWhitespace | PInternalWildcard | PUnsupportedSyntax
  | PPhraseMustContainMultipleWords

record pattern_error =
  pe_code :: pattern_error_code
  pe_pattern :: rstr

fun pattern_error_message :: "pattern_error_code \<Rightarrow> rstr" where
  "pattern_error_message PEmpty = lit ''pattern must not be empty''"
| "pattern_error_message PMalformedQuotes = lit ''pattern has malformed quotes''"
| "pattern_error_message PUnquotedWhitespace =
     lit ''multi-word patterns must be enclosed in double quotes''"
| "pattern_error_message PInternalWildcard =
     lit ''wildcards are only permitted at the beginning and/or end''"
| "pattern_error_message PUnsupportedSyntax = lit ''pattern contains unsupported syntax''"
| "pattern_error_message PPhraseMustContainMultipleWords =
     lit ''quoted phrases must contain at least two words''"

definition QUOTE :: rchar where "QUOTE = 34"

definition STAR :: rchar where "STAR = ch (CHR ''*'')"

definition contains_unsupported_syntax :: "rstr \<Rightarrow> bool" where
  "contains_unsupported_syntax v \<longleftrightarrow>
     str_contains v (lit ''.*'') \<or> str_contains v (lit ''*.'') \<or>
     (\<exists>c \<in> set v. c \<in> set (92 # lit ''?[](){}|+^$''))"

definition parse_pattern :: "unicode \<Rightarrow> rstr \<Rightarrow> (pattern_error + parsed_pattern) option" where
  "parse_pattern u pattern =
     (let input = trim pattern;
          err = (\<lambda>code. Some (Inl \<lparr>pe_code = code, pe_pattern = pattern\<rparr>))
      in if input = [] then err PEmpty
         else if 0 < count_list input QUOTE then
           if count_list input QUOTE \<noteq> 2 \<or> hd input \<noteq> QUOTE \<or> last input \<noteq> QUOTE then err PMalformedQuotes
           else case str_slice input 1 (byte_len input - 1) of
               None \<Rightarrow> None
             | Some phrase \<Rightarrow>
                 if QUOTE \<in> set phrase then err PMalformedQuotes
                 else let normalized = normalize_pattern u phrase
                      in if normalized = [] then err PEmpty
                         else if length (split_char (ch (CHR '' '')) normalized) < 2
                           then err PPhraseMustContainMultipleWords
                         else if STAR \<in> set normalized \<or> contains_unsupported_syntax normalized
                           then err PUnsupportedSyntax
                         else Some (Inr \<lparr>pp_normalized = normalized, pp_type = Phrase\<rparr>)
         else if \<exists>c \<in> set input. is_whitespace c then err PUnquotedWhitespace
         else if contains_unsupported_syntax input then err PUnsupportedSyntax
         else
           let leading = (hd input = STAR); trailing = (last input = STAR);
               word_start = (if leading then 1 else 0);
               word_end = byte_len input - (if trailing then 1 else 0)
           in case str_slice input word_start word_end of
               None \<Rightarrow> None
             | Some word \<Rightarrow>
                 if word = [] then err PEmpty
                 else if STAR \<in> set word \<or> 2 < count_list input STAR then err PInternalWildcard
                 else let normalized = normalize_pattern u word
                      in if normalized = [] then err PEmpty
                         else Some (Inr \<lparr>pp_normalized = normalized,
                                pp_type = (if leading then if trailing then Contains else Suffix
                                           else if trailing then Prefix else ExactWord)\<rparr>))"

definition classify_pattern :: "unicode \<Rightarrow> rstr \<Rightarrow> (pattern_error + wildcard_pattern_type) option" where
  "classify_pattern u pattern =
     map_option (\<lambda>r. case r of Inl e \<Rightarrow> Inl e | Inr p \<Rightarrow> Inr (pp_type p)) (parse_pattern u pattern)"

section \<open>Validation errors\<close>

datatype validation_error_code =
    InvalidScope | MissingPatterns | MissingSurfaces | MissingActions | EmptyRuleName
  | DuplicateRuleId | DuplicateRuleName | TooManyPatterns | TextTooLong | PatternInvalid
  | PatternClassificationMismatch | DuplicatePattern | DuplicatePatternId | DuplicateActionId
  | DuplicateActionType | IllegalAction | MissingDuration | UnexpectedDuration
  | DurationOutOfRange | InvalidReplacement

fun validation_code_rank :: "validation_error_code \<Rightarrow> nat" where
  "validation_code_rank InvalidScope = 0"
| "validation_code_rank MissingPatterns = 1"
| "validation_code_rank MissingSurfaces = 2"
| "validation_code_rank MissingActions = 3"
| "validation_code_rank EmptyRuleName = 4"
| "validation_code_rank DuplicateRuleId = 5"
| "validation_code_rank DuplicateRuleName = 6"
| "validation_code_rank TooManyPatterns = 7"
| "validation_code_rank TextTooLong = 8"
| "validation_code_rank PatternInvalid = 9"
| "validation_code_rank PatternClassificationMismatch = 10"
| "validation_code_rank DuplicatePattern = 11"
| "validation_code_rank DuplicatePatternId = 12"
| "validation_code_rank DuplicateActionId = 13"
| "validation_code_rank DuplicateActionType = 14"
| "validation_code_rank IllegalAction = 15"
| "validation_code_rank MissingDuration = 16"
| "validation_code_rank UnexpectedDuration = 17"
| "validation_code_rank DurationOutOfRange = 18"
| "validation_code_rank InvalidReplacement = 19"

datatype policy_validation_error =
  ValidationError (ve_code: validation_error_code) (ve_path: rstr) (ve_message: rstr)

definition validation_error_key :: "policy_validation_error \<Rightarrow> nat \<times> rstr \<times> rstr" where
  "validation_error_key e = (validation_code_rank (ve_code e), ve_path e, ve_message e)"

text \<open>\<open>PolicyValidationErrors::new\<close>: sorted by code, path and message, adjacent duplicates removed.\<close>

definition validation_errors_new :: "policy_validation_error list \<Rightarrow> policy_validation_error list" where
  "validation_errors_new errors = remdups_adj (sort_key validation_error_key errors)"

definition finish_validation :: "policy_validation_error list \<Rightarrow> policy_validation_error list + unit" where
  "finish_validation errors = (if errors = [] then Inr () else Inl (validation_errors_new errors))"

text \<open>The derived \<open>Debug\<close> of the enums that messages show.\<close>

fun debug_authority :: "authority \<Rightarrow> rstr" where
  "debug_authority AuthGlobal = lit ''Global''"
| "debug_authority AuthHub = lit ''Hub''"
| "debug_authority AuthServer = lit ''Server''"

fun debug_pattern_type :: "wildcard_pattern_type \<Rightarrow> rstr" where
  "debug_pattern_type ExactWord = lit ''ExactWord''"
| "debug_pattern_type Prefix = lit ''Prefix''"
| "debug_pattern_type Suffix = lit ''Suffix''"
| "debug_pattern_type Contains = lit ''Contains''"
| "debug_pattern_type Phrase = lit ''Phrase''"

fun debug_action_type :: "policy_action_type \<Rightarrow> rstr" where
  "debug_action_type Allow = lit ''Allow''"
| "debug_action_type Block = lit ''Block''"
| "debug_action_type CensorMatch = lit ''CensorMatch''"
| "debug_action_type StripLink = lit ''StripLink''"
| "debug_action_type SuppressLinks = lit ''SuppressLinks''"
| "debug_action_type ReplaceName = lit ''ReplaceName''"
| "debug_action_type Log = lit ''Log''"
| "debug_action_type LobbyWarn = lit ''LobbyWarn''"
| "debug_action_type LobbyBan = lit ''LobbyBan''"
| "debug_action_type Blacklist = lit ''Blacklist''"
| "debug_action_type HubWarn = lit ''HubWarn''"
| "debug_action_type HubMute = lit ''HubMute''"
| "debug_action_type HubBan = lit ''HubBan''"

definition rule_path :: "(uuid \<Rightarrow> rstr) \<Rightarrow> policy_rule \<Rightarrow> rstr" where
  "rule_path sh r = lit ''rules[id='' @ sh (pr_id r) @ lit '']''"

definition pattern_path :: "(uuid \<Rightarrow> rstr) \<Rightarrow> policy_rule \<Rightarrow> rule_pattern \<Rightarrow> rstr" where
  "pattern_path sh r p = rule_path sh r @ lit ''.patterns[id='' @ sh (rp_id p) @ lit '']''"

definition action_path :: "(uuid \<Rightarrow> rstr) \<Rightarrow> policy_rule \<Rightarrow> policy_action \<Rightarrow> rstr" where
  "action_path sh r a = rule_path sh r @ lit ''.actions[id='' @ sh (pa_id a) @ lit '']''"

definition pattern_error_to_validation ::
  "(uuid \<Rightarrow> rstr) \<Rightarrow> policy_rule \<Rightarrow> rule_pattern \<Rightarrow> pattern_error \<Rightarrow> policy_validation_error" where
  "pattern_error_to_validation sh r p e =
     ValidationError PatternInvalid (pattern_path sh r p) (pattern_error_message (pe_code e))"

definition check_limit :: "rstr \<Rightarrow> rstr \<Rightarrow> rstr \<Rightarrow> nat \<Rightarrow> policy_validation_error list" where
  "check_limit path label value maximum =
     (if maximum < length value
      then [ValidationError TextTooLong path
              (label @ lit '' is '' @ show_nat (length value) @ lit '' characters; maximum is ''
                 @ show_nat maximum)]
      else [])"

section \<open>One rule\<close>

definition legal_action :: "authority \<Rightarrow> policy_action_type \<Rightarrow> bool" where
  "legal_action authority a =
     (case authority of
        AuthGlobal \<Rightarrow> is_delivery a \<or> a \<in> {LobbyWarn, LobbyBan, Blacklist}
      | AuthHub \<Rightarrow> is_delivery a \<or> a \<in> {Log, HubWarn, HubMute, HubBan}
      | AuthServer \<Rightarrow> is_delivery a)"

definition err_if :: "bool \<Rightarrow> policy_validation_error \<Rightarrow> policy_validation_error list" where
  "err_if b e = (if b then [e] else [])"

definition validate_action ::
  "(uuid \<Rightarrow> rstr) \<Rightarrow> policy_action \<Rightarrow> authority \<Rightarrow> policy_limits \<Rightarrow> policy_rule
     \<Rightarrow> policy_validation_error list" where
  "validate_action sh a authority limits r =
     (let path = action_path sh r a; ty = pa_type a
      in err_if (\<not> legal_action authority ty)
           (ValidationError IllegalAction path
              (lit ''action '' @ debug_action_type ty @ lit '' is not legal at ''
                 @ debug_authority authority @ lit '' authority''))
       @ err_if (needs_duration ty \<and> pa_duration a = None)
           (ValidationError MissingDuration path
              (lit ''action '' @ debug_action_type ty @ lit '' requires a duration''))
       @ err_if (\<not> allows_duration ty \<and> pa_duration a \<noteq> None)
           (ValidationError UnexpectedDuration path
              (lit ''action '' @ debug_action_type ty @ lit '' does not accept a duration''))
       @ (case pa_duration a of
            Some d \<Rightarrow> err_if (d = 0 \<or> maximum_duration_seconds limits < d)
              (ValidationError DurationOutOfRange path
                 (lit ''duration must be between 1 and ''
                    @ show_nat (unat (maximum_duration_seconds limits)) @ lit '' seconds''))
          | None \<Rightarrow> [])
       @ (case pa_replacement a of
            Some replacement \<Rightarrow>
              check_limit path (lit ''replacement'') replacement (replacement_characters limits)
              @ (if ty \<noteq> ReplaceName
                 then [ValidationError InvalidReplacement path
                         (lit ''only REPLACE_NAME accepts a replacement'')]
                 else err_if (trim replacement = [])
                        (ValidationError InvalidReplacement path
                           (lit ''REPLACE_NAME replacement must not be empty'')))
          | None \<Rightarrow> []))"

definition validate_pattern ::
  "unicode \<Rightarrow> (uuid \<Rightarrow> rstr) \<Rightarrow> policy_rule \<Rightarrow> policy_limits \<Rightarrow> bool \<Rightarrow> rule_pattern
     \<Rightarrow> policy_validation_error list option" where
  "validate_pattern u sh r limits check p =
     map_option (\<lambda>res. case res of
         Inr parsed \<Rightarrow>
           err_if (check \<and> pp_type parsed \<noteq> rp_type p)
             (ValidationError PatternClassificationMismatch (pattern_path sh r p)
                (lit ''stored pattern type '' @ debug_pattern_type (rp_type p)
                   @ lit '' does not match '' @ debug_pattern_type (pp_type parsed)))
           @ check_limit (pattern_path sh r p) (lit ''pattern'') (rp_pattern p) (pattern_characters limits)
       | Inl e \<Rightarrow> [pattern_error_to_validation sh r p e])
       (parse_pattern u (rp_pattern p))"

fun duplicate_action_types ::
  "(uuid \<Rightarrow> rstr) \<Rightarrow> policy_rule \<Rightarrow> policy_action_type set \<Rightarrow> policy_action list
     \<Rightarrow> policy_validation_error list" where
  "duplicate_action_types sh r seen [] = []"
| "duplicate_action_types sh r seen (a # as) =
     err_if (pa_type a \<in> seen)
       (ValidationError DuplicateActionType (action_path sh r a)
          (lit ''action '' @ debug_action_type (pa_type a) @ lit '' appears more than once''))
     @ duplicate_action_types sh r (insert (pa_type a) seen) as"

definition validate_rule ::
  "unicode \<Rightarrow> (uuid \<Rightarrow> rstr) \<Rightarrow> policy_rule \<Rightarrow> authority \<Rightarrow> policy_limits \<Rightarrow> bool
     \<Rightarrow> policy_validation_error list option" where
  "validate_rule u sh r authority limits check =
     (let path = rule_path sh r
      in map_option (\<lambda>pattern_errors.
           err_if (trim (pr_name r) = [])
             (ValidationError EmptyRuleName (path @ lit ''.name'') (lit ''rule name must not be empty''))
         @ check_limit (path @ lit ''.name'') (lit ''rule name'') (pr_name r) (rule_name_characters limits)
         @ check_limit (path @ lit ''.description'') (lit ''rule description'') (pr_description r)
             (rule_description_characters limits)
         @ (case pr_custom_reason r of
              Some reason \<Rightarrow>
                check_limit (path @ lit ''.custom_reason'') (lit ''custom reason'') reason
                  (custom_reason_characters limits)
            | None \<Rightarrow> [])
         @ err_if (pr_patterns r = [])
             (ValidationError MissingPatterns (path @ lit ''.patterns'')
                (lit ''rule must contain at least one pattern''))
         @ err_if (pr_surfaces r = [])
             (ValidationError MissingSurfaces (path @ lit ''.surfaces'')
                (lit ''rule must contain at least one surface''))
         @ err_if (pr_actions r = [])
             (ValidationError MissingActions (path @ lit ''.actions'')
                (lit ''rule must contain at least one action''))
         @ concat pattern_errors
         @ concat (map (\<lambda>a. validate_action sh a authority limits r) (pr_actions r))
         @ duplicate_action_types sh r {} (pr_actions r))
         (map_panic (validate_pattern u sh r limits check) (pr_patterns r)))"

section \<open>A policy\<close>

record validation_state =
  vs_errors :: "policy_validation_error list"
  vs_rule_ids :: "(uuid, policy_rule list) btree_map"
  vs_rule_names :: "(rstr, policy_rule list) btree_map"
  vs_patterns :: "(wildcard_pattern_type \<times> rstr, (policy_rule \<times> rule_pattern) list) btree_map"
  vs_pattern_ids :: "(uuid, (policy_rule \<times> rule_pattern) list) btree_map"
  vs_action_ids :: "(uuid, (policy_rule \<times> policy_action) list) btree_map"

definition lowercase_name :: "unicode \<Rightarrow> policy_rule \<Rightarrow> rstr" where
  "lowercase_name u r = u_to_lowercase u (trim (pr_name r))"

definition collect_pattern ::
  "unicode \<Rightarrow> policy_rule \<Rightarrow> rule_pattern \<Rightarrow> validation_state \<Rightarrow> validation_state option" where
  "collect_pattern u r p s =
     (let s1 = s\<lparr>vs_pattern_ids := bt_extend (rp_id p) [(r, p)] (vs_pattern_ids s)\<rparr>
      in map_option (\<lambda>res. case res of
           Inr parsed \<Rightarrow>
             s1\<lparr>vs_patterns :=
                  bt_extend (pp_type parsed, pp_normalized parsed) [(r, p)] (vs_patterns s1)\<rparr>
         | Inl e \<Rightarrow> s1) (parse_pattern u (rp_pattern p)))"

definition collect_action :: "policy_rule \<Rightarrow> policy_action \<Rightarrow> validation_state \<Rightarrow> validation_state" where
  "collect_action r a s = s\<lparr>vs_action_ids := bt_extend (pa_id a) [(r, a)] (vs_action_ids s)\<rparr>"

definition collect_rule ::
  "unicode \<Rightarrow> (uuid \<Rightarrow> rstr) \<Rightarrow> authority \<Rightarrow> policy_limits \<Rightarrow> bool \<Rightarrow> policy_rule
     \<Rightarrow> validation_state \<Rightarrow> validation_state option" where
  "collect_rule u sh authority limits check r s =
     Option.bind (validate_rule u sh r authority limits check) (\<lambda>errors.
     Option.bind
       (fold_panic (collect_pattern u r) (pr_patterns r)
          (s\<lparr>vs_rule_ids := bt_extend (pr_id r) [r] (vs_rule_ids s),
             vs_rule_names := bt_extend (lowercase_name u r) [r] (vs_rule_names s),
             vs_errors := vs_errors s @ errors\<rparr>))
       (\<lambda>s1. Some (fold (collect_action r) (pr_actions r) s1)))"

text \<open>All but the first of a group, in the order of a key, are duplicates.\<close>

definition duplicates :: "('a \<Rightarrow> 'k::linorder) \<Rightarrow> ('a \<Rightarrow> policy_validation_error) \<Rightarrow> 'a list
    \<Rightarrow> policy_validation_error list" where
  "duplicates key f xs = (if 1 < length xs then map f (drop 1 (sort_key key xs)) else [])"

definition duplicate_errors ::
  "unicode \<Rightarrow> (uuid \<Rightarrow> rstr) \<Rightarrow> validation_state \<Rightarrow> policy_validation_error list" where
  "duplicate_errors u sh s =
     concat (map (\<lambda>(i, rules).
        duplicates (\<lambda>r. (lowercase_name u r, pr_description r))
          (\<lambda>r. ValidationError DuplicateRuleId (rule_path sh r)
                 (lit ''rule id '' @ sh i @ lit '' is not unique'')) rules) (vs_rule_ids s))
   @ concat (map (\<lambda>(name, rules).
        if name \<noteq> [] then
        duplicates (\<lambda>r. (pr_id r, pr_description r))
          (\<lambda>r. ValidationError DuplicateRuleName (rule_path sh r)
                 (lit ''rule name '' @ pr_name r @ lit '' is not unique'')) rules
        else []) (vs_rule_names s))
   @ concat (map (\<lambda>((ty, normalized), xs).
        duplicates (\<lambda>(r, p). (rp_id p, pr_id r))
          (\<lambda>(r, p). ValidationError DuplicatePattern (pattern_path sh r p)
                 (debug_pattern_type ty @ lit '' pattern '' @ normalized @ lit '' is duplicated'')) xs)
        (vs_patterns s))
   @ concat (map (\<lambda>(i, xs).
        duplicates (\<lambda>(r, p). (pr_id r, rp_pattern p))
          (\<lambda>(r, p). ValidationError DuplicatePatternId (pattern_path sh r p)
                 (lit ''pattern id '' @ sh i @ lit '' is not unique'')) xs) (vs_pattern_ids s))
   @ concat (map (\<lambda>(i, xs).
        duplicates (\<lambda>(r, a). (pr_id r, pa_type a))
          (\<lambda>(r, a). ValidationError DuplicateActionId (action_path sh r a)
                 (lit ''action id '' @ sh i @ lit '' is not unique'')) xs) (vs_action_ids s))"

definition pattern_count :: "content_policy \<Rightarrow> nat" where
  "pattern_count p = sum_list (map (\<lambda>r. length (pr_patterns r)) (cp_rules p))"

definition collect_validation ::
  "unicode \<Rightarrow> (uuid \<Rightarrow> rstr) \<Rightarrow> content_policy \<Rightarrow> policy_limits \<Rightarrow> bool
     \<Rightarrow> policy_validation_error list option" where
  "collect_validation u sh p limits check =
     (let authority = sc_authority (cp_scope p);
          scope_errors = (case scope_validate (cp_scope p) of
              Inl message \<Rightarrow> [ValidationError InvalidScope (lit ''scope'') message] | Inr _ \<Rightarrow> []);
          limit = maximum_patterns limits authority;
          count_errors = err_if (limit < pattern_count p)
            (ValidationError TooManyPatterns (lit ''patterns'')
               (show_nat (pattern_count p) @ lit '' patterns exceed the '' @ show_nat limit
                  @ lit '' pattern limit for '' @ debug_authority authority))
      in map_option (\<lambda>s. vs_errors s @ duplicate_errors u sh s)
           (fold_panic (collect_rule u sh authority limits check) (cp_rules p)
              \<lparr>vs_errors = scope_errors @ count_errors, vs_rule_ids = [], vs_rule_names = [],
               vs_patterns = [], vs_pattern_ids = [], vs_action_ids = []\<rparr>))"

definition validate_policy ::
  "unicode \<Rightarrow> (uuid \<Rightarrow> rstr) \<Rightarrow> content_policy \<Rightarrow> policy_limits
     \<Rightarrow> (policy_validation_error list + unit) option" where
  "validate_policy u sh p limits = map_option finish_validation (collect_validation u sh p limits True)"

definition set_pattern_types ::
  "(rule_pattern \<Rightarrow> wildcard_pattern_type option) \<Rightarrow> content_policy \<Rightarrow> content_policy option" where
  "set_pattern_types f p =
     map_option (\<lambda>rules. p\<lparr>cp_rules := rules\<rparr>)
       (map_panic (\<lambda>r. map_option (\<lambda>ps. r\<lparr>pr_patterns := ps\<rparr>)
          (map_panic (\<lambda>pat. map_option (\<lambda>ty. pat\<lparr>rp_type := ty\<rparr>) (f pat)) (pr_patterns r))) (cp_rules p))"

definition parsed_type :: "unicode \<Rightarrow> rule_pattern \<Rightarrow> wildcard_pattern_type option" where
  "parsed_type u pat =
     (case parse_pattern u (rp_pattern pat) of Some (Inr parsed) \<Rightarrow> Some (pp_type parsed) | _ \<Rightarrow> None)"

text \<open>The policy after the call, and the result; \<open>expect\<close> on an unparsable pattern panics.\<close>

definition validate_and_classify_policy ::
  "unicode \<Rightarrow> (uuid \<Rightarrow> rstr) \<Rightarrow> content_policy \<Rightarrow> policy_limits
     \<Rightarrow> (content_policy \<times> (policy_validation_error list + unit)) option" where
  "validate_and_classify_policy u sh p limits =
     Option.bind (collect_validation u sh p limits False) (\<lambda>errors.
       if errors \<noteq> [] then Some (p, Inl (validation_errors_new errors))
       else map_option (\<lambda>q. (q, Inr ())) (set_pattern_types (parsed_type u) p))"

definition classify_step ::
  "unicode \<Rightarrow> (uuid \<Rightarrow> rstr) \<Rightarrow> policy_rule \<times> rule_pattern
     \<Rightarrow> policy_validation_error list \<times> (uuid, wildcard_pattern_type) btree_map
     \<Rightarrow> (policy_validation_error list \<times> (uuid, wildcard_pattern_type) btree_map) option" where
  "classify_step u sh rp acc = (case rp of (r, pat) \<Rightarrow> case acc of (errors, classes) \<Rightarrow>
     map_option (\<lambda>res. case res of
         Inr parsed \<Rightarrow> (errors, bt_insert (rp_id pat) (pp_type parsed) classes)
       | Inl e \<Rightarrow> (errors @ [pattern_error_to_validation sh r pat e], classes))
       (parse_pattern u (rp_pattern pat)))"

definition classify_policy_patterns ::
  "unicode \<Rightarrow> (uuid \<Rightarrow> rstr) \<Rightarrow> content_policy
     \<Rightarrow> (content_policy \<times> (policy_validation_error list + unit)) option" where
  "classify_policy_patterns u sh p =
     Option.bind
       (fold_panic (classify_step u sh)
          (concat (map (\<lambda>r. map (Pair r) (pr_patterns r)) (cp_rules p))) ([], []))
       (\<lambda>(errors, classes).
          if errors \<noteq> [] then Some (p, Inl (validation_errors_new errors))
          else map_option (\<lambda>q. (q, Inr ())) (set_pattern_types (\<lambda>pat. map_of classes (rp_id pat)) p))"

section \<open>Which patterns are accepted\<close>

lemma char_widths [simp]: "utf8_width STAR = 1" "utf8_width QUOTE = 1" "STAR \<noteq> QUOTE" "QUOTE \<noteq> STAR"
  by (simp_all add: STAR_def QUOTE_def utf8_width_def)

lemma slice_inner:
  "utf8_width c = 1 \<Longrightarrow> utf8_width d = 1 \<Longrightarrow> str_slice (c # m @ [d]) 1 (byte_len (c # m @ [d]) - 1) = Some m"
  unfolding str_slice_Some_iff by (intro exI [of _ "[c]"] exI [of _ "[d]"]) simp

lemma slice_wildcards:
  assumes "s \<noteq> []" "s \<noteq> [STAR]"
  shows "\<exists>w. s = (if hd s = STAR then [STAR] else []) @ w @ (if last s = STAR then [STAR] else []) \<and>
    str_slice s (if hd s = STAR then 1 else 0) (byte_len s - (if last s = STAR then 1 else 0)) = Some w"
proof -
  obtain c t where s: "s = c # t" using assms(1) by (cases s) auto
  show ?thesis
  proof (cases "hd s = STAR")
    case True
    show ?thesis
    proof (cases "last s = STAR")
      case l: True
      have "t \<noteq> []" using assms(2) s True by auto
      then obtain m d where t: "t = m @ [d]" by (metis append_butlast_last_id)
      have "d = STAR" "c = STAR" using s t l True by simp_all
      with s t slice_inner [of STAR STAR m] l True show ?thesis by (intro exI [of _ m]) simp
    next
      case False
      have "str_slice (STAR # t) 1 (byte_len (STAR # t)) = Some t"
        unfolding str_slice_Some_iff by (intro exI [of _ "[STAR]"] exI [of _ "[]"]) simp
      with s True False show ?thesis by (intro exI [of _ t]) simp
    qed
  next
    case False
    show ?thesis
    proof (cases "last s = STAR")
      case True
      then have e: "s = butlast s @ [STAR]" using assms(1) by (metis append_butlast_last_id)
      have "str_slice (butlast s @ [STAR]) 0 (byte_len (butlast s @ [STAR]) - 1) = Some (butlast s)"
        unfolding str_slice_Some_iff by (intro exI [of _ "[]"] exI [of _ "[STAR]"]) simp
      with e True False show ?thesis by (intro exI [of _ "butlast s"]) simp
    next
      case l: False
      have "str_slice s 0 (byte_len s) = Some s"
        unfolding str_slice_Some_iff by (intro exI [of _ "[]"]) simp
      with False l show ?thesis by (intro exI [of _ s]) simp
    qed
  qed
qed

lemma star_slice_panics: "str_slice [STAR] 1 (byte_len [STAR] - 1) = None"
  by (simp add: str_slice_def)

lemma quoted_shape:
  assumes "count_list s QUOTE = 2" "hd s = QUOTE" "last s = QUOTE"
  obtains m where "s = QUOTE # m @ [QUOTE]" "QUOTE \<notin> set m"
proof -
  obtain t where t: "s = QUOTE # t" using assms by (cases s) auto
  then have "t \<noteq> []" using assms(1) by auto
  then obtain m d where m: "t = m @ [d]" by (metis append_butlast_last_id)
  have "d = QUOTE" using assms(3) t m by simp
  then have "count_list m QUOTE = 0" using assms(1) t m by simp
  then have "QUOTE \<notin> set m" by (simp add: count_list_0_iff)
  with t m \<open>d = QUOTE\<close> show thesis by (intro that [of m]) simp_all
qed

lemma canonical_no_punctuation:
  assumes "c \<in> set (normalize_pattern u w)" "is_ascii_punctuation c"
  shows False
proof -
  have j: "\<not> is_joiner c" using assms(2) by (auto simp: is_ascii_punctuation_def is_joiner_def)
  then have "is_separator c" using assms(2) by (simp add: is_separator_def is_separator_punctuation_def)
  then have "c = ch (CHR '' '')"
    using normalize_pattern_canonical [of u w] assms(1) by (auto simp: canonical_text_def)
  then show False using assms(2) by (simp add: is_ascii_punctuation_def)
qed

lemma punctuation_free_syntax:
  assumes "\<forall>c \<in> set n. \<not> is_ascii_punctuation c"
  shows "STAR \<notin> set n" "\<not> contains_unsupported_syntax n"
proof -
  have p: "is_ascii_punctuation c" if "c \<in> set (STAR # 92 # lit ''?[](){}|+^$'')" for c
    using that by (auto simp: STAR_def lit_def is_ascii_punctuation_def)
  then show star: "STAR \<notin> set n" using assms by auto
  have "\<not> str_contains n t" if "STAR \<in> set t" for t
    using star that by (auto simp: str_contains_def sublist_def)
  moreover have "STAR \<in> set (lit ''.*'')" "STAR \<in> set (lit ''*.'')" by (simp_all add: STAR_def lit_def)
  ultimately show "\<not> contains_unsupported_syntax n"
    using assms p by (auto simp: contains_unsupported_syntax_def)
qed

lemma normalized_syntax:
  "STAR \<notin> set (normalize_pattern u w)" "\<not> contains_unsupported_syntax (normalize_pattern u w)"
  using punctuation_free_syntax [of "normalize_pattern u w"] canonical_no_punctuation by blast+

lemma normalize_Nil [simp]: "normalize_pattern u [] = []"
  by (simp add: normalize_pattern_def normalized_text_new_def canonical_mapped_def mapped_nfkc_def
      source_chars_def mapped_nfkc_from_source_def canonical_order_mapped_def
      canonical_compose_mapped_def fold_mapped_def from_mapped_def)

lemma count_list_pos_iff: "0 < count_list s d \<longleftrightarrow> d \<in> set s"
  using count_list_0_iff [of s d] by (cases "count_list s d") auto

lemma split_two_iff: "2 \<le> length (split_char d s) \<longleftrightarrow> d \<in> set s"
  by (simp add: length_split_char Suc_le_eq count_list_pos_iff)

lemma parse_rejected:
  assumes "QUOTE \<notin> set (trim p)"
    and "trim p = [] \<or> (\<exists>c \<in> set (trim p). is_whitespace c) \<or> contains_unsupported_syntax (trim p)"
  shows "\<exists>e. parse_pattern u p = Some (Inl e)"
proof -
  have z: "count_list (trim p) QUOTE = 0" using assms(1) by (simp add: count_list_0_iff)
  consider "trim p = []" | "trim p \<noteq> []" "\<exists>c \<in> set (trim p). is_whitespace c"
    | "trim p \<noteq> []" "\<not> (\<exists>c \<in> set (trim p). is_whitespace c)" "contains_unsupported_syntax (trim p)"
    using assms(2) by blast
  then show ?thesis by cases (simp_all add: parse_pattern_def Let_def z)
qed

lemma parse_quoted:
  assumes "QUOTE \<in> set (trim p)"
  shows "parse_pattern u p =
     (if \<exists>w. trim p = QUOTE # w @ [QUOTE] \<and> QUOTE \<notin> set w
      then let n = normalize_pattern u (butlast (tl (trim p)))
           in if n = [] then Some (Inl \<lparr>pe_code = PEmpty, pe_pattern = p\<rparr>)
              else if ch (CHR '' '') \<notin> set n
              then Some (Inl \<lparr>pe_code = PPhraseMustContainMultipleWords, pe_pattern = p\<rparr>)
              else Some (Inr \<lparr>pp_normalized = n, pp_type = Phrase\<rparr>)
      else Some (Inl \<lparr>pe_code = PMalformedQuotes, pe_pattern = p\<rparr>))"
proof -
  have pos: "0 < count_list (trim p) QUOTE" "trim p \<noteq> []"
    using assms by (auto simp: count_list_pos_iff)
  show ?thesis
  proof (cases "\<exists>w. trim p = QUOTE # w @ [QUOTE] \<and> QUOTE \<notin> set w")
    case True
    then obtain w where w: "trim p = QUOTE # w @ [QUOTE]" "QUOTE \<notin> set w" by blast
    have "count_list w QUOTE = 0" using w(2) by (simp add: count_list_0_iff)
    moreover have "length (split_char (ch (CHR '' '')) n) < 2 \<longleftrightarrow> ch (CHR '' '') \<notin> set n" for n
      using split_two_iff [of "ch (CHR '' '')" n] by linarith
    ultimately show ?thesis
      using w slice_inner [of QUOTE QUOTE w]
      by (simp add: parse_pattern_def w Let_def normalized_syntax)
  next
    case False
    then have "count_list (trim p) QUOTE \<noteq> 2 \<or> hd (trim p) \<noteq> QUOTE \<or> last (trim p) \<noteq> QUOTE"
      by (meson quoted_shape)
    with False pos show ?thesis by (auto simp: parse_pattern_def Let_def)
  qed
qed

definition wild_start :: "wildcard_pattern_type \<Rightarrow> bool" where
  "wild_start ty \<longleftrightarrow> ty \<in> {Suffix, Contains}"

definition wild_end :: "wildcard_pattern_type \<Rightarrow> bool" where
  "wild_end ty \<longleftrightarrow> ty \<in> {Prefix, Contains}"

definition word_type :: "bool \<Rightarrow> bool \<Rightarrow> wildcard_pattern_type" where
  "word_type l t = (if l then if t then Contains else Suffix else if t then Prefix else ExactWord)"

lemma word_type_simps [simp]:
  "wild_start (word_type l t) = l" "wild_end (word_type l t) = t" "word_type l t \<noteq> Phrase"
  by (auto simp: word_type_def wild_start_def wild_end_def)

lemma word_type_of: "ty \<noteq> Phrase \<Longrightarrow> word_type (wild_start ty) (wild_end ty) = ty"
  by (cases ty) (simp_all add: word_type_def wild_start_def wild_end_def)

definition wildcard_form :: "wildcard_pattern_type \<Rightarrow> rstr \<Rightarrow> rstr" where
  "wildcard_form ty w = (if wild_start ty then [STAR] else []) @ w @ (if wild_end ty then [STAR] else [])"

lemma parse_unquoted:
  assumes "QUOTE \<notin> set (trim p)" "trim p \<noteq> []" "\<forall>c \<in> set (trim p). \<not> is_whitespace c"
    and "\<not> contains_unsupported_syntax (trim p)" "trim p \<noteq> [STAR]"
  shows "\<exists>w. trim p = wildcard_form (word_type (hd (trim p) = STAR) (last (trim p) = STAR)) w \<and>
    parse_pattern u p =
     (if w = [] then Some (Inl \<lparr>pe_code = PEmpty, pe_pattern = p\<rparr>)
      else if STAR \<in> set w then Some (Inl \<lparr>pe_code = PInternalWildcard, pe_pattern = p\<rparr>)
      else if normalize_pattern u w = [] then Some (Inl \<lparr>pe_code = PEmpty, pe_pattern = p\<rparr>)
      else Some (Inr \<lparr>pp_normalized = normalize_pattern u w,
                      pp_type = word_type (hd (trim p) = STAR) (last (trim p) = STAR)\<rparr>))"
proof -
  from slice_wildcards [OF assms(2,5)] obtain w where
    w: "trim p = (if hd (trim p) = STAR then [STAR] else []) @ w @ (if last (trim p) = STAR then [STAR] else [])"
    "str_slice (trim p) (if hd (trim p) = STAR then 1 else 0)
       (byte_len (trim p) - (if last (trim p) = STAR then 1 else 0)) = Some w" by blast
  have c: "count_list (trim p) STAR \<le> 2 + count_list w STAR"
    by (subst w(1)) simp
  have n2: "\<not> 2 < count_list (trim p) STAR" if "STAR \<notin> set w"
    using c that by (simp add: count_list_0_iff)
  have z: "count_list (trim p) QUOTE = 0" using assms(1) by (simp add: count_list_0_iff)
  have nws: "\<not> (\<exists>c \<in> set (trim p). is_whitespace c)" using assms(3) by blast
  have "trim p = wildcard_form (word_type (hd (trim p) = STAR) (last (trim p) = STAR)) w"
    using w(1) unfolding wildcard_form_def word_type_simps .
  moreover have "parse_pattern u p =
     (if w = [] then Some (Inl \<lparr>pe_code = PEmpty, pe_pattern = p\<rparr>)
      else if STAR \<in> set w then Some (Inl \<lparr>pe_code = PInternalWildcard, pe_pattern = p\<rparr>)
      else if normalize_pattern u w = [] then Some (Inl \<lparr>pe_code = PEmpty, pe_pattern = p\<rparr>)
      else Some (Inr \<lparr>pp_normalized = normalize_pattern u w,
                      pp_type = word_type (hd (trim p) = STAR) (last (trim p) = STAR)\<rparr>))"
    unfolding parse_pattern_def Let_def word_type_def using n2
    by (simp only: z assms(2,4) nws w(2) option.case if_False if_True less_irrefl) simp
  ultimately show ?thesis by blast
qed

lemma parse_pattern_None: "parse_pattern u p = None \<longleftrightarrow> trim p = [STAR]"
proof
  assume t: "trim p = [STAR]"
  have "\<not> is_whitespace STAR" "\<not> contains_unsupported_syntax [STAR]"
    by (code_simp)+
  with t show "parse_pattern u p = None"
    using star_slice_panics by (simp add: parse_pattern_def Let_def)
next
  assume n: "parse_pattern u p = None"
  show "trim p = [STAR]"
  proof (rule ccontr)
    assume ns: "trim p \<noteq> [STAR]"
    show False
    proof (cases "QUOTE \<in> set (trim p)")
      case True
      from n show False unfolding parse_quoted [OF True] by (simp add: Let_def split: if_splits)
    next
      case False
      then have z: "count_list (trim p) QUOTE = 0" by (simp add: count_list_0_iff)
      show False
      proof (cases "trim p = [] \<or> (\<exists>c \<in> set (trim p). is_whitespace c) \<or> contains_unsupported_syntax (trim p)")
        case True
        from parse_rejected [OF \<open>QUOTE \<notin> set (trim p)\<close> this, of u] n show False by auto
      next
        case c: False
        then have "trim p \<noteq> []" "\<forall>c \<in> set (trim p). \<not> is_whitespace c"
          "\<not> contains_unsupported_syntax (trim p)" by auto
        from parse_unquoted [OF False this ns, of u] n show False by (auto split: if_splits)
      qed
    qed
  qed
qed

text \<open>
  C33 [parse_panics_iff]: Parsing a pattern panics, by slicing from the first byte to before it,
  exactly when the pattern is a single asterisk between white space; every other text is parsed
  or rejected with an error.
\<close>

theorem parse_panics_iff: "parse_pattern u p = None \<longleftrightarrow> trim p = [STAR]"
  by (rule parse_pattern_None)

lemma hd_wildcard_form:
  "w \<noteq> [] \<Longrightarrow> STAR \<notin> set w \<Longrightarrow> hd (wildcard_form ty w) = STAR \<longleftrightarrow> wild_start ty"
  "w \<noteq> [] \<Longrightarrow> STAR \<notin> set w \<Longrightarrow> last (wildcard_form ty w) = STAR \<longleftrightarrow> wild_end ty"
  by (auto simp: wildcard_form_def hd_append dest: hd_in_set last_in_set)

lemma wildcard_form_inject: "wildcard_form ty v = wildcard_form ty w \<longleftrightarrow> v = w"
  by (simp add: wildcard_form_def)

lemma parse_pattern_Some:
  "parse_pattern u p = Some (Inr \<lparr>pp_normalized = n, pp_type = ty\<rparr>) \<longleftrightarrow>
     (if ty = Phrase
      then \<exists>w. trim p = QUOTE # w @ [QUOTE] \<and> QUOTE \<notin> set w \<and> n = normalize_pattern u w
             \<and> ch (CHR '' '') \<in> set n
      else \<exists>w. trim p = wildcard_form ty w \<and> (\<forall>c \<in> set w. c \<noteq> QUOTE \<and> c \<noteq> STAR \<and> \<not> is_whitespace c)
             \<and> \<not> contains_unsupported_syntax (trim p) \<and> n = normalize_pattern u w \<and> n \<noteq> [])"
proof (cases "QUOTE \<in> set (trim p)")
  case True
  have "\<not> (\<exists>w. trim p = wildcard_form ty w \<and> (\<forall>c \<in> set w. c \<noteq> QUOTE \<and> c \<noteq> STAR \<and> \<not> is_whitespace c))"
    using True by (auto simp: wildcard_form_def split: if_splits)
  then show ?thesis
    unfolding parse_quoted [OF True] by (cases ty) (auto simp: Let_def)
next
  case False
  then have z: "count_list (trim p) QUOTE = 0" by (simp add: count_list_0_iff)
  have nq: "\<not> (\<exists>w. trim p = QUOTE # w @ [QUOTE])" using False by auto
  show ?thesis
  proof (cases "trim p = [] \<or> (\<exists>c \<in> set (trim p). is_whitespace c) \<or> contains_unsupported_syntax (trim p)")
    case True
    have "\<not> is_whitespace STAR" by code_simp
    then have "\<not> (\<exists>w. trim p = wildcard_form ty w \<and> w \<noteq> [] \<and> (\<forall>c \<in> set w. \<not> is_whitespace c)
        \<and> \<not> contains_unsupported_syntax (trim p))"
      using True by (auto simp: wildcard_form_def split: if_splits)
    moreover have "parse_pattern u p \<noteq> Some (Inr q)" for q
      using parse_rejected [OF False True, of u] by auto
    ultimately show ?thesis using nq by (cases "ty = Phrase") auto
  next
    case c: False
    show ?thesis
    proof (cases "trim p = [STAR]")
      case True
      have "normalize_pattern u w = []" if "trim p = wildcard_form ty w" "STAR \<notin> set w" for w
      proof -
        have "w = []" using that True by (cases w) (auto simp: wildcard_form_def split: if_splits)
        then show ?thesis by simp
      qed
      moreover have "parse_pattern u p = None" using True parse_pattern_None by blast
      ultimately show ?thesis using nq by (cases "ty = Phrase") auto
    next
      case ns: False
      have a: "trim p \<noteq> []" "\<forall>c \<in> set (trim p). \<not> is_whitespace c" "\<not> contains_unsupported_syntax (trim p)"
        using c by auto
      let ?ty = "word_type (hd (trim p) = STAR) (last (trim p) = STAR)"
      from parse_unquoted [OF False a ns, of u] obtain w where w: "trim p = wildcard_form ?ty w"
        "parse_pattern u p =
         (if w = [] then Some (Inl \<lparr>pe_code = PEmpty, pe_pattern = p\<rparr>)
          else if STAR \<in> set w then Some (Inl \<lparr>pe_code = PInternalWildcard, pe_pattern = p\<rparr>)
          else if normalize_pattern u w = [] then Some (Inl \<lparr>pe_code = PEmpty, pe_pattern = p\<rparr>)
          else Some (Inr \<lparr>pp_normalized = normalize_pattern u w, pp_type = ?ty\<rparr>))" by blast
      have sub: "set w \<subseteq> set (trim p)" by (subst w(1)) (auto simp: wildcard_form_def)
      have l: "parse_pattern u p = Some (Inr \<lparr>pp_normalized = n, pp_type = ty\<rparr>) \<longleftrightarrow>
          w \<noteq> [] \<and> STAR \<notin> set w \<and> normalize_pattern u w \<noteq> [] \<and> n = normalize_pattern u w \<and> ty = ?ty"
        unfolding w(2) by auto
      have "ty \<noteq> Phrase \<Longrightarrow> (\<exists>v. trim p = wildcard_form ty v \<and> (\<forall>c \<in> set v. c \<noteq> QUOTE \<and> c \<noteq> STAR \<and> \<not> is_whitespace c)
             \<and> \<not> contains_unsupported_syntax (trim p) \<and> n = normalize_pattern u v \<and> n \<noteq> []) \<longleftrightarrow>
          w \<noteq> [] \<and> STAR \<notin> set w \<and> normalize_pattern u w \<noteq> [] \<and> n = normalize_pattern u w \<and> ty = ?ty"
      proof
        assume ty: "ty \<noteq> Phrase" and "\<exists>v. trim p = wildcard_form ty v
             \<and> (\<forall>c \<in> set v. c \<noteq> QUOTE \<and> c \<noteq> STAR \<and> \<not> is_whitespace c)
             \<and> \<not> contains_unsupported_syntax (trim p) \<and> n = normalize_pattern u v \<and> n \<noteq> []"
        then obtain v where v: "trim p = wildcard_form ty v" "STAR \<notin> set v" "n = normalize_pattern u v" "n \<noteq> []"
          by blast
        then have "v \<noteq> []" by auto
        then have "(hd (trim p) = STAR) = wild_start ty" "(last (trim p) = STAR) = wild_end ty"
          using hd_wildcard_form [OF _ v(2), of ty] v(1) by simp_all
        then have tyeq: "ty = ?ty" by (simp only: word_type_of [OF ty])
        have "wildcard_form ty v = wildcard_form ty w"
          using v(1) w(1) unfolding tyeq [symmetric] by (rule trans [OF sym])
        then have "v = w" by (simp only: wildcard_form_inject)
        with v \<open>v \<noteq> []\<close> tyeq show "w \<noteq> [] \<and> STAR \<notin> set w \<and> normalize_pattern u w \<noteq> []
            \<and> n = normalize_pattern u w \<and> ty = ?ty" by blast
      next
        assume h: "w \<noteq> [] \<and> STAR \<notin> set w \<and> normalize_pattern u w \<noteq> [] \<and> n = normalize_pattern u w \<and> ty = ?ty"
        then have "\<forall>c \<in> set w. c \<noteq> QUOTE \<and> c \<noteq> STAR \<and> \<not> is_whitespace c"
          using sub False a(2) by blast
        then show "\<exists>v. trim p = wildcard_form ty v \<and> (\<forall>c \<in> set v. c \<noteq> QUOTE \<and> c \<noteq> STAR \<and> \<not> is_whitespace c)
             \<and> \<not> contains_unsupported_syntax (trim p) \<and> n = normalize_pattern u v \<and> n \<noteq> []"
          using h w(1) a(3) by (intro exI [of _ w]) simp
      qed
      with l nq word_type_simps(3) [THEN not_sym] show ?thesis by (cases "ty = Phrase") auto
    qed
  qed
qed

text \<open>
  A pattern is accepted as a phrase exactly when it is text in double
  quotes, without further quotes, that normalises to several words; and as one of the other four
  types exactly when it is a word without white space, quotes, regular expression characters or
  inner asterisks that does not normalise to nothing, with the asterisks of the type around it.
  The parsed text is the normalised body. (No syntax is ever rejected inside quotes: the check
  there looks at text whose punctuation is gone.)
\<close>

theorem parse_pattern_accepts:
  "parse_pattern u p = Some (Inr \<lparr>pp_normalized = n, pp_type = ty\<rparr>) \<longleftrightarrow>
     (if ty = Phrase
      then \<exists>w. trim p = QUOTE # w @ [QUOTE] \<and> QUOTE \<notin> set w \<and> n = normalize_pattern u w
             \<and> ch (CHR '' '') \<in> set n
      else \<exists>w. trim p = wildcard_form ty w \<and> list_all (\<lambda>c. c \<noteq> QUOTE \<and> c \<noteq> STAR \<and> \<not> is_whitespace c) w
             \<and> \<not> contains_unsupported_syntax (trim p) \<and> n = normalize_pattern u w \<and> n \<noteq> [])"
  unfolding list_all_iff by (rule parse_pattern_Some)

section \<open>What a valid policy is\<close>

definition action_ok :: "authority \<Rightarrow> policy_limits \<Rightarrow> policy_action \<Rightarrow> bool" where
  "action_ok authority limits a \<longleftrightarrow>
     legal_action authority (pa_type a)
     \<and> (needs_duration (pa_type a) \<longrightarrow> pa_duration a \<noteq> None)
     \<and> (\<not> allows_duration (pa_type a) \<longrightarrow> pa_duration a = None)
     \<and> (\<forall>d. pa_duration a = Some d \<longrightarrow> d \<noteq> 0 \<and> d \<le> maximum_duration_seconds limits)
     \<and> (\<forall>t. pa_replacement a = Some t \<longrightarrow>
          pa_type a = ReplaceName \<and> trim t \<noteq> [] \<and> length t \<le> replacement_characters limits)"

definition pattern_ok :: "unicode \<Rightarrow> policy_limits \<Rightarrow> bool \<Rightarrow> rule_pattern \<Rightarrow> bool" where
  "pattern_ok u limits check p \<longleftrightarrow>
     (\<exists>q. parse_pattern u (rp_pattern p) = Some (Inr q) \<and> (check \<longrightarrow> pp_type q = rp_type p))
     \<and> length (rp_pattern p) \<le> pattern_characters limits"

definition rule_ok :: "unicode \<Rightarrow> authority \<Rightarrow> policy_limits \<Rightarrow> bool \<Rightarrow> policy_rule \<Rightarrow> bool" where
  "rule_ok u authority limits check r \<longleftrightarrow>
     trim (pr_name r) \<noteq> [] \<and> length (pr_name r) \<le> rule_name_characters limits
     \<and> length (pr_description r) \<le> rule_description_characters limits
     \<and> (\<forall>t. pr_custom_reason r = Some t \<longrightarrow> length t \<le> custom_reason_characters limits)
     \<and> pr_patterns r \<noteq> [] \<and> pr_surfaces r \<noteq> [] \<and> pr_actions r \<noteq> []
     \<and> (\<forall>p \<in> set (pr_patterns r). pattern_ok u limits check p)
     \<and> (\<forall>a \<in> set (pr_actions r). action_ok authority limits a)
     \<and> distinct (map pa_type (pr_actions r))"

definition all_patterns :: "policy_rule list \<Rightarrow> (policy_rule \<times> rule_pattern) list" where
  "all_patterns rules = concat (map (\<lambda>r. map (Pair r) (pr_patterns r)) rules)"

definition all_actions :: "policy_rule list \<Rightarrow> (policy_rule \<times> policy_action) list" where
  "all_actions rules = concat (map (\<lambda>r. map (Pair r) (pr_actions r)) rules)"

lemma all_patterns_simps [simp]:
  "all_patterns [] = []" "all_patterns (r # rs) = map (Pair r) (pr_patterns r) @ all_patterns rs"
  and all_actions_simps [simp]:
  "all_actions [] = []" "all_actions (r # rs) = map (Pair r) (pr_actions r) @ all_actions rs"
  by (simp_all add: all_patterns_def all_actions_def)

text \<open>The type and text a pattern parses to.\<close>

definition parsed_ok :: "unicode \<Rightarrow> policy_rule \<times> rule_pattern \<Rightarrow> bool" where
  "parsed_ok u x \<longleftrightarrow> (\<exists>q. parse_pattern u (rp_pattern (snd x)) = Some (Inr q))"

definition parsed_key :: "unicode \<Rightarrow> policy_rule \<times> rule_pattern \<Rightarrow> wildcard_pattern_type \<times> rstr" where
  "parsed_key u x = (case parse_pattern u (rp_pattern (snd x)) of
       Some (Inr q) \<Rightarrow> (pp_type q, pp_normalized q) | _ \<Rightarrow> (ExactWord, []))"

definition policy_ok :: "unicode \<Rightarrow> policy_limits \<Rightarrow> bool \<Rightarrow> content_policy \<Rightarrow> bool" where
  "policy_ok u limits check p \<longleftrightarrow>
     scope_validate (cp_scope p) = Inr ()
     \<and> pattern_count p \<le> maximum_patterns limits (sc_authority (cp_scope p))
     \<and> (\<forall>r \<in> set (cp_rules p). rule_ok u (sc_authority (cp_scope p)) limits check r)
     \<and> distinct (map pr_id (cp_rules p))
     \<and> distinct (filter (\<lambda>n. n \<noteq> []) (map (lowercase_name u) (cp_rules p)))
     \<and> distinct (map (parsed_key u) (all_patterns (cp_rules p)))
     \<and> distinct (map (\<lambda>x. rp_id (snd x)) (all_patterns (cp_rules p)))
     \<and> distinct (map (\<lambda>x. pa_id (snd x)) (all_actions (cp_rules p)))"

definition policy_parses :: "unicode \<Rightarrow> content_policy \<Rightarrow> bool" where
  "policy_parses u p \<longleftrightarrow> (\<forall>r \<in> set (cp_rules p). \<forall>q \<in> set (pr_patterns r). trim (rp_pattern q) \<noteq> [STAR])"

section \<open>Rules\<close>

lemma err_if_Nil [simp]: "err_if b e = [] \<longleftrightarrow> \<not> b"
  by (simp add: err_if_def)

lemma check_limit_Nil [simp]: "check_limit path label v m = [] \<longleftrightarrow> length v \<le> m"
  by (simp add: check_limit_def not_less)

lemma validate_action_Nil: "validate_action sh a authority limits r = [] \<longleftrightarrow> action_ok authority limits a"
  by (auto simp: validate_action_def Let_def action_ok_def not_less split: option.splits)

lemma duplicate_action_types_Nil:
  "duplicate_action_types sh r seen as = [] \<longleftrightarrow> distinct (map pa_type as) \<and> pa_type ` set as \<inter> seen = {}"
  by (induction as arbitrary: seen) auto

lemma validate_pattern_Some:
  assumes "trim (rp_pattern p) \<noteq> [STAR]"
  shows "\<exists>es. validate_pattern u sh r limits check p = Some es \<and> (es = [] \<longleftrightarrow> pattern_ok u limits check p)"
proof -
  obtain res where "parse_pattern u (rp_pattern p) = Some res"
    using assms parse_pattern_None [of u "rp_pattern p"] by blast
  then show ?thesis by (cases res) (simp_all add: validate_pattern_def pattern_ok_def)
qed

lemma validate_pattern_None: "trim (rp_pattern p) = [STAR] \<Longrightarrow> validate_pattern u sh r limits check p = None"
  using parse_pattern_None [of u "rp_pattern p"] by (simp add: validate_pattern_def)

lemma map_panic_None: "x \<in> set xs \<Longrightarrow> f x = None \<Longrightarrow> map_panic f xs = None"
  by (induction xs) (auto simp: bind_eq_None_conv)

lemma validate_rule_Some:
  assumes "\<forall>p \<in> set (pr_patterns r). trim (rp_pattern p) \<noteq> [STAR]"
  shows "\<exists>es. validate_rule u sh r authority limits check = Some es
     \<and> (es = [] \<longleftrightarrow> rule_ok u authority limits check r)"
proof -
  define g where "g = (\<lambda>p. the (validate_pattern u sh r limits check p))"
  have g: "\<forall>p \<in> set (pr_patterns r). validate_pattern u sh r limits check p = Some (g p)
      \<and> (g p = [] \<longleftrightarrow> pattern_ok u limits check p)"
  proof
    fix p assume "p \<in> set (pr_patterns r)"
    with assms have "trim (rp_pattern p) \<noteq> [STAR]" by blast
    from validate_pattern_Some [OF this, of u sh r limits check]
    show "validate_pattern u sh r limits check p = Some (g p) \<and> (g p = [] \<longleftrightarrow> pattern_ok u limits check p)"
      by (auto simp: g_def)
  qed
  then have "map_panic (validate_pattern u sh r limits check) (pr_patterns r) = Some (map g (pr_patterns r))"
    by (intro map_panic_Some) blast
  with g show ?thesis
    by (auto simp: validate_rule_def Let_def rule_ok_def validate_action_Nil duplicate_action_types_Nil
        split: option.splits)
qed

lemma validate_rule_None:
  assumes "\<exists>p \<in> set (pr_patterns r). trim (rp_pattern p) = [STAR]"
  shows "validate_rule u sh r authority limits check = None"
proof -
  from assms obtain p where p: "p \<in> set (pr_patterns r)" "trim (rp_pattern p) = [STAR]" by blast
  from map_panic_None [where f = "validate_pattern u sh r limits check", OF p(1) validate_pattern_None [OF p(2)]]
  show ?thesis by (simp add: validate_rule_def Let_def)
qed

section \<open>Groups\<close>

lemma collect_patterns:
  assumes "\<forall>p \<in> set ps. trim (rp_pattern p) \<noteq> [STAR]"
  shows "fold_panic (collect_pattern u r) ps s = Some (s
     \<lparr>vs_patterns := bt_group_from (parsed_key u) (filter (parsed_ok u) (map (Pair r) ps)) (vs_patterns s),
      vs_pattern_ids := bt_group_from (\<lambda>x. rp_id (snd x)) (map (Pair r) ps) (vs_pattern_ids s)\<rparr>)"
  using assms
proof (induction ps arbitrary: s)
  case (Cons p ps)
  have "parse_pattern u (rp_pattern p) \<noteq> None" using Cons.prems parse_pattern_None by simp
  then obtain res where res: "parse_pattern u (rp_pattern p) = Some res" by blast
  show ?case
    using Cons res by (cases res) (simp_all add: collect_pattern_def Let_def parsed_key_def parsed_ok_def)
qed simp

lemma collect_actions:
  "fold (collect_action r) as s =
     s\<lparr>vs_action_ids := bt_group_from (\<lambda>x. pa_id (snd x)) (map (Pair r) as) (vs_action_ids s)\<rparr>"
  by (induction as arbitrary: s) (simp_all add: collect_action_def)

definition rule_errors ::
  "unicode \<Rightarrow> (uuid \<Rightarrow> rstr) \<Rightarrow> authority \<Rightarrow> policy_limits \<Rightarrow> bool \<Rightarrow> policy_rule
     \<Rightarrow> policy_validation_error list" where
  "rule_errors u sh authority limits check r = the (validate_rule u sh r authority limits check)"

lemma collect_rules:
  assumes "\<forall>r \<in> set rs. \<forall>p \<in> set (pr_patterns r). trim (rp_pattern p) \<noteq> [STAR]"
  shows "fold_panic (collect_rule u sh authority limits check) rs s = Some
     \<lparr>vs_errors = vs_errors s @ concat (map (rule_errors u sh authority limits check) rs),
      vs_rule_ids = bt_group_from pr_id rs (vs_rule_ids s),
      vs_rule_names = bt_group_from (lowercase_name u) rs (vs_rule_names s),
      vs_patterns = bt_group_from (parsed_key u) (filter (parsed_ok u) (all_patterns rs)) (vs_patterns s),
      vs_pattern_ids = bt_group_from (\<lambda>x. rp_id (snd x)) (all_patterns rs) (vs_pattern_ids s),
      vs_action_ids = bt_group_from (\<lambda>x. pa_id (snd x)) (all_actions rs) (vs_action_ids s)\<rparr>"
  using assms
proof (induction rs arbitrary: s)
  case Nil
  then show ?case by simp
next
  case (Cons r rs)
  have r: "\<forall>p \<in> set (pr_patterns r). trim (rp_pattern p) \<noteq> [STAR]" using Cons.prems by simp
  from validate_rule_Some [OF this, of u sh authority limits check]
  have v: "validate_rule u sh r authority limits check = Some (rule_errors u sh authority limits check r)"
    by (auto simp: rule_errors_def)
  have rs: "\<forall>r \<in> set rs. \<forall>p \<in> set (pr_patterns r). trim (rp_pattern p) \<noteq> [STAR]" using Cons.prems by simp
  have "collect_rule u sh authority limits check r s = Some
     \<lparr>vs_errors = vs_errors s @ rule_errors u sh authority limits check r,
      vs_rule_ids = bt_extend (pr_id r) [r] (vs_rule_ids s),
      vs_rule_names = bt_extend (lowercase_name u r) [r] (vs_rule_names s),
      vs_patterns = bt_group_from (parsed_key u) (filter (parsed_ok u) (map (Pair r) (pr_patterns r))) (vs_patterns s),
      vs_pattern_ids = bt_group_from (\<lambda>x. rp_id (snd x)) (map (Pair r) (pr_patterns r)) (vs_pattern_ids s),
      vs_action_ids = bt_group_from (\<lambda>x. pa_id (snd x)) (map (Pair r) (pr_actions r)) (vs_action_ids s)\<rparr>"
    unfolding collect_rule_def v bind.bind_lunit collect_patterns [OF r] collect_actions by simp
  then show ?case
    by (simp only: fold_panic.simps bind.bind_lunit Cons.IH [OF rs]) simp
qed

lemma duplicates_Nil: "duplicates key f xs = [] \<longleftrightarrow> length xs \<le> 1"
  by (auto simp: duplicates_def)

lemma duplicates_group_Nil:
  "concat (map (\<lambda>(k, xs). duplicates (key k) (f k) xs) (bt_group_from g xs [])) = [] \<longleftrightarrow> distinct (map g xs)"
  unfolding bt_group_singletons_iff [symmetric] by (auto simp: duplicates_Nil)

lemma distinct_names_iff:
  fixes g :: "'a \<Rightarrow> 'b list"
  shows "distinct (filter (\<lambda>n. n \<noteq> []) (map g xs)) \<longleftrightarrow> (\<forall>n. n \<noteq> [] \<longrightarrow> length (filter (\<lambda>x. g x = n) xs) \<le> 1)"
proof -
  have f: "filter (\<lambda>x. g x = n) (filter (\<lambda>x. g x \<noteq> []) xs) = (if n = [] then [] else filter (\<lambda>x. g x = n) xs)" for n
    by (induction xs) auto
  have m: "filter (\<lambda>n. n \<noteq> []) (map g xs) = map g (filter (\<lambda>x. g x \<noteq> []) xs)"
    by (simp add: filter_map o_def)
  show ?thesis unfolding m distinct_map_filter_iff f by simp
qed

lemma duplicates_names_Nil:
  fixes g :: "'a \<Rightarrow> 'b::linorder list"
  shows "concat (map (\<lambda>(n, xs). if n \<noteq> [] then duplicates key f xs else []) (bt_group_from g xs [])) = []
     \<longleftrightarrow> distinct (filter (\<lambda>n. n \<noteq> []) (map g xs))"
proof -
  have "concat (map (\<lambda>(n, xs). if n \<noteq> [] then duplicates key f xs else []) (bt_group_from g xs [])) = []
      \<longleftrightarrow> (\<forall>n ys. (n, ys) \<in> set (bt_group_from g xs []) \<longrightarrow> n \<noteq> [] \<longrightarrow> length ys \<le> 1)"
    by (auto simp: duplicates_Nil split: if_splits)
  also have "\<dots> \<longleftrightarrow> (\<forall>n. n \<noteq> [] \<longrightarrow> length (filter (\<lambda>x. g x = n) xs) \<le> 1)"
  proof (intro iffI allI impI)
    fix n :: "'b list"
    assume a: "\<forall>n ys. (n, ys) \<in> set (bt_group_from g xs []) \<longrightarrow> n \<noteq> [] \<longrightarrow> length ys \<le> 1" and n: "n \<noteq> []"
    show "length (filter (\<lambda>x. g x = n) xs) \<le> 1"
    proof (cases "filter (\<lambda>x. g x = n) xs = []")
      case False
      then have "(n, filter (\<lambda>x. g x = n) xs) \<in> set (bt_group_from g xs [])" by (simp add: bt_group_mem_iff)
      with a n show ?thesis by blast
    qed simp
  qed (auto simp: bt_group_mem_iff)
  finally show ?thesis by (simp only: distinct_names_iff)
qed

lemma case_prod_pairs:
  "(\<lambda>((ty, n), xs). F ty n xs) = (\<lambda>(k, xs). F (fst k) (snd k) xs)"
  by (auto simp: fun_eq_iff)

lemma duplicate_errors_Nil:
  "duplicate_errors u sh \<lparr>vs_errors = es, vs_rule_ids = bt_group_from pr_id rs [],
      vs_rule_names = bt_group_from (lowercase_name u) rs [],
      vs_patterns = bt_group_from (parsed_key u) ps [],
      vs_pattern_ids = bt_group_from (\<lambda>x. rp_id (snd x)) qs [],
      vs_action_ids = bt_group_from (\<lambda>x. pa_id (snd x)) as []\<rparr> = []
   \<longleftrightarrow> distinct (map pr_id rs) \<and> distinct (filter (\<lambda>n. n \<noteq> []) (map (lowercase_name u) rs))
     \<and> distinct (map (parsed_key u) ps) \<and> distinct (map (\<lambda>x. rp_id (snd x)) qs)
     \<and> distinct (map (\<lambda>x. pa_id (snd x)) as)"
  unfolding duplicate_errors_def append_is_Nil_conv validation_state.simps case_prod_pairs
    duplicates_group_Nil duplicates_names_Nil ..

lemma collect_validation_Some:
  assumes "policy_parses u p"
  shows "\<exists>es. collect_validation u sh p limits check = Some es \<and> (es = [] \<longleftrightarrow> policy_ok u limits check p)"
proof -
  let ?a = "sc_authority (cp_scope p)"
  have np: "\<forall>r \<in> set (cp_rules p). \<forall>q \<in> set (pr_patterns r). trim (rp_pattern q) \<noteq> [STAR]"
    using assms by (simp add: policy_parses_def)
  have rules: "concat (map (rule_errors u sh ?a limits check) (cp_rules p)) = []
      \<longleftrightarrow> (\<forall>r \<in> set (cp_rules p). rule_ok u ?a limits check r)"
  proof -
    have "rule_errors u sh ?a limits check r = [] \<longleftrightarrow> rule_ok u ?a limits check r" if "r \<in> set (cp_rules p)" for r
      using validate_rule_Some [of r u sh ?a limits check] np that by (auto simp: rule_errors_def)
    then show ?thesis by (simp add: concat_eq_Nil_conv)
  qed
  have all: "filter (parsed_ok u) (all_patterns (cp_rules p)) = all_patterns (cp_rules p)"
    if "\<forall>r \<in> set (cp_rules p). rule_ok u ?a limits check r"
  proof (rule filter_True, rule ballI)
    fix x assume "x \<in> set (all_patterns (cp_rules p))"
    then obtain r q where r: "r \<in> set (cp_rules p)" "q \<in> set (pr_patterns r)" "x = (r, q)"
      by (auto simp: all_patterns_def)
    with that have "pattern_ok u limits check q" by (auto simp: rule_ok_def)
    then show "parsed_ok u x" unfolding pattern_ok_def parsed_ok_def r(3) snd_conv by blast
  qed
  show ?thesis
    using rules all
    by (auto simp: collect_validation_def Let_def collect_rules [OF np] duplicate_errors_Nil policy_ok_def
        not_less split: sum.splits)
qed

lemma fold_panic_None: "x \<in> set xs \<Longrightarrow> (\<And>s. f x s = None) \<Longrightarrow> fold_panic f xs s = None"
  by (induction xs arbitrary: s) (auto simp: bind_eq_None_conv)

lemma collect_validation_None:
  assumes "\<not> policy_parses u p"
  shows "collect_validation u sh p limits check = None"
proof -
  from assms obtain r where r: "r \<in> set (cp_rules p)" "\<exists>q \<in> set (pr_patterns r). trim (rp_pattern q) = [STAR]"
    by (auto simp: policy_parses_def)
  have "collect_rule u sh (sc_authority (cp_scope p)) limits check r s = None" for s
    by (simp add: collect_rule_def validate_rule_None [OF r(2)])
  from fold_panic_None [where f = "collect_rule u sh (sc_authority (cp_scope p)) limits check", OF r(1) this] show ?thesis by (simp add: collect_validation_def Let_def)
qed

lemma validation_errors_new_Nil: "validation_errors_new es = [] \<longleftrightarrow> es = []"
  by (simp add: validation_errors_new_def) (metis length_sort length_0_conv)

lemma validate_policy_cases:
  "(validate_policy u sh p limits = Some (Inr ()) \<longleftrightarrow> policy_parses u p \<and> policy_ok u limits True p) \<and>
   (validate_policy u sh p limits = None \<longleftrightarrow> \<not> policy_parses u p)"
proof (cases "policy_parses u p")
  case True
  from collect_validation_Some [OF True, of sh limits True] obtain es where
    "collect_validation u sh p limits True = Some es" "es = [] \<longleftrightarrow> policy_ok u limits True p" by blast
  with True show ?thesis by (auto simp: validate_policy_def finish_validation_def)
next
  case False
  then show ?thesis by (simp add: validate_policy_def collect_validation_None)
qed

text \<open>
  C25 [validate_policy_accepts]: Validation accepts a policy exactly when the policy is well formed:
  its scope and pattern count are within bounds, every rule has a name, patterns, surfaces and
  actions within the limits, its patterns parse to their stored types, its actions are legal for
  the authority with durations and replacements where they belong, and rule ids, rule names,
  patterns, pattern ids, action ids and the action types of a rule are unique. It panics exactly
  when some pattern is a lone asterisk.
\<close>

theorem validate_policy_accepts: 
  "(validate_policy u sh p limits = Some (Inr ()) \<longleftrightarrow> policy_parses u p \<and> policy_ok u limits True p) \<and>
   (validate_policy u sh p limits = None \<longleftrightarrow> \<not> policy_parses u p)"
  by (rule validate_policy_cases)

section \<open>Classification\<close>

definition classified_pattern :: "unicode \<Rightarrow> rule_pattern \<Rightarrow> rule_pattern" where
  "classified_pattern u p = p\<lparr>rp_type := the (parsed_type u p)\<rparr>"

definition classified_rule :: "unicode \<Rightarrow> policy_rule \<Rightarrow> policy_rule" where
  "classified_rule u r = r\<lparr>pr_patterns := map (classified_pattern u) (pr_patterns r)\<rparr>"

lemma classified_pattern_simps [simp]:
  "rp_pattern (classified_pattern u p) = rp_pattern p" "rp_id (classified_pattern u p) = rp_id p"
  by (simp_all add: classified_pattern_def)

lemma classified_rule_simps [simp]:
  "pr_id (classified_rule u r) = pr_id r" "pr_name (classified_rule u r) = pr_name r"
  "pr_actions (classified_rule u r) = pr_actions r"
  "lowercase_name u (classified_rule u r) = lowercase_name u r"
  by (simp_all add: classified_rule_def lowercase_name_def)

lemma all_patterns_classified:
  "all_patterns (map (classified_rule u) rs)
     = map (\<lambda>(r, p). (classified_rule u r, classified_pattern u p)) (all_patterns rs)"
  by (induction rs) (simp_all add: classified_rule_def)

lemma all_actions_classified:
  "all_actions (map (classified_rule u) rs) = map (\<lambda>(r, a). (classified_rule u r, a)) (all_actions rs)"
  by (induction rs) simp_all

lemma pattern_ok_classified: "pattern_ok u limits False p \<Longrightarrow> pattern_ok u limits True (classified_pattern u p)"
  by (auto simp: pattern_ok_def classified_pattern_def parsed_type_def)

lemma rule_ok_classified: "rule_ok u a limits False r \<Longrightarrow> rule_ok u a limits True (classified_rule u r)"
  by (simp add: rule_ok_def classified_rule_def pattern_ok_classified)

lemma policy_ok_classified:
  assumes "policy_ok u limits False p"
  shows "policy_ok u limits True (p\<lparr>cp_rules := map (classified_rule u) (cp_rules p)\<rparr>)"
proof -
  have c: "pattern_count (p\<lparr>cp_rules := map (classified_rule u) (cp_rules p)\<rparr>) = pattern_count p"
    by (simp add: pattern_count_def classified_rule_def o_def)
  have k: "parsed_key u (case x of (r, q) \<Rightarrow> (classified_rule u r, classified_pattern u q)) = parsed_key u x" for x
    by (cases x) (simp add: parsed_key_def)
  have i: "rp_id (snd (case x of (r, q) \<Rightarrow> (classified_rule u r, classified_pattern u q))) = rp_id (snd x)" for x
    by (cases x) simp
  have a: "pa_id (snd (case x of (r, q) \<Rightarrow> (classified_rule u r, q))) = pa_id (snd x)" for x
    by (cases x) simp
  show ?thesis
    using assms rule_ok_classified unfolding policy_ok_def c
    by (simp add: all_patterns_classified all_actions_classified o_def k i a)
qed

lemma set_pattern_types_Some:
  assumes "policy_parses u p" "policy_ok u limits False p"
  shows "set_pattern_types (parsed_type u) p = Some (p\<lparr>cp_rules := map (classified_rule u) (cp_rules p)\<rparr>)"
proof -
  have pat: "map_panic (\<lambda>pat. map_option (\<lambda>ty. pat\<lparr>rp_type := ty\<rparr>) (parsed_type u pat)) (pr_patterns r)
      = Some (map (classified_pattern u) (pr_patterns r))" if "r \<in> set (cp_rules p)" for r
  proof (rule map_panic_Some)
    fix q assume "q \<in> set (pr_patterns r)"
    with assms(2) that have "pattern_ok u limits False q" by (simp add: policy_ok_def rule_ok_def)
    then show "map_option (\<lambda>ty. q\<lparr>rp_type := ty\<rparr>) (parsed_type u q) = Some (classified_pattern u q)"
      by (auto simp: pattern_ok_def parsed_type_def classified_pattern_def)
  qed
  have "map_panic (\<lambda>r. map_option (\<lambda>ps. r\<lparr>pr_patterns := ps\<rparr>)
          (map_panic (\<lambda>pat. map_option (\<lambda>ty. pat\<lparr>rp_type := ty\<rparr>) (parsed_type u pat)) (pr_patterns r))) (cp_rules p)
      = Some (map (classified_rule u) (cp_rules p))"
    by (rule map_panic_Some) (simp add: pat classified_rule_def)
  then show ?thesis by (simp add: set_pattern_types_def)
qed

lemma classify_cases:
  "case validate_and_classify_policy u sh p limits of
     None \<Rightarrow> \<not> policy_parses u p
   | Some (q, Inl es) \<Rightarrow> q = p \<and> es \<noteq> [] \<and> \<not> policy_ok u limits False p
   | Some (q, Inr _) \<Rightarrow> policy_ok u limits False p
       \<and> q = p\<lparr>cp_rules := map (classified_rule u) (cp_rules p)\<rparr>
       \<and> validate_policy u sh q limits = Some (Inr ())"
proof (cases "policy_parses u p")
  case True
  let ?q = "p\<lparr>cp_rules := map (classified_rule u) (cp_rules p)\<rparr>"
  from collect_validation_Some [OF True, of sh limits False] obtain es where es:
    "collect_validation u sh p limits False = Some es" "es = [] \<longleftrightarrow> policy_ok u limits False p" by blast
  show ?thesis
  proof (cases "policy_ok u limits False p")
    case ok: True
    have "policy_parses u ?q"
      using True by (simp add: policy_parses_def classified_rule_def)
    with policy_ok_classified [OF ok] have "validate_policy u sh ?q limits = Some (Inr ())"
      by (simp add: validate_policy_cases)
    then show ?thesis
      using es ok by (simp add: validate_and_classify_policy_def set_pattern_types_Some [OF True ok])
  next
    case False
    then show ?thesis using es by (simp add: validate_and_classify_policy_def validation_errors_new_Nil)
  qed
next
  case False
  then show ?thesis by (simp add: validate_and_classify_policy_def collect_validation_None)
qed

lemma validate_and_classify_ok:
  assumes "validate_and_classify_policy u sh p limits = Some (q, Inr ())"
  shows "policy_ok u limits True q"
proof -
  have "validate_policy u sh q limits = Some (Inr ())"
    using classify_cases [where u = u and sh = sh and p = p and limits = limits]
    unfolding assms prod.case option.case sum.case by (elim conjE)
  then show ?thesis using validate_policy_cases by blast
qed

text \<open>
  The combined validation and classification either rejects and leaves
  the policy untouched, or succeeds exactly when the policy is well formed up to its stored pattern
  types; the policy it then leaves behind differs from the input only in those types and passes
  the full validation.
\<close>

theorem classify_then_valid:
  "case validate_and_classify_policy u sh p limits of
     None \<Rightarrow> \<not> policy_parses u p
   | Some (q, Inl es) \<Rightarrow> q = p \<and> es \<noteq> [] \<and> \<not> policy_ok u limits False p
   | Some (q, Inr _) \<Rightarrow> policy_ok u limits False p
       \<and> q = p\<lparr>cp_rules := map (classified_rule u) (cp_rules p)\<rparr>
       \<and> validate_policy u sh q limits = Some (Inr ())"
  by (rule classify_cases)

end
