(* ===== verification/Analysis.thy ===== *)
theory Analysis
  imports Normalization Delivery
begin

text \<open>
  The analysis of a message shared by all policies (\<open>src/content_policy/analysis.rs\<close>): links,
  mail addresses and dotted initials are found by a scan of the bytes, and every surface is
  normalised once. A slice with bounds out of order or out of range, and a string sliced off a
  character boundary, panic in the code: the functions that slice return an option whose
  \<open>None\<close> is the panic.
\<close>

section \<open>Scanning bytes\<close>

definition byte_slice :: "byte list \<Rightarrow> nat \<Rightarrow> nat \<Rightarrow> byte list option" where
  "byte_slice bs a b = (if a \<le> b \<and> b \<le> length bs then Some (take (b - a) (drop a bs)) else None)"

text \<open>\<open>while i < limit && p(bytes[i]) { i += 1 }\<close>\<close>

function scan_forward :: "(byte \<Rightarrow> bool) \<Rightarrow> byte list \<Rightarrow> nat \<Rightarrow> nat \<Rightarrow> nat" where
  "scan_forward p bs limit i = (if i < limit \<and> p (bs ! i) then scan_forward p bs limit (Suc i) else i)"
  by pat_completeness auto
termination by (relation "measure (\<lambda>(p, bs, limit, i). limit - i)") auto

declare scan_forward.simps [simp del]

text \<open>\<open>while i > start && p(bytes[i - 1]) { i -= 1 }\<close>\<close>

fun scan_backward :: "(byte \<Rightarrow> bool) \<Rightarrow> byte list \<Rightarrow> nat \<Rightarrow> nat \<Rightarrow> nat" where
  "scan_backward p bs start 0 = 0"
| "scan_backward p bs start (Suc i) =
     (if start \<le> i \<and> p (bs ! i) then scan_backward p bs start i else Suc i)"

fun position_of :: "('a \<Rightarrow> bool) \<Rightarrow> 'a list \<Rightarrow> nat option" where
  "position_of p [] = None"
| "position_of p (x # xs) = (if p x then Some 0 else map_option Suc (position_of p xs))"

definition is_terminal_punctuation :: "byte \<Rightarrow> bool" where
  "is_terminal_punctuation b \<longleftrightarrow> b \<in> set (lit ''.,!?;:'' @ [39, 34, 96] @ lit '')]}'')"

definition trim_terminal_punctuation :: "byte list \<Rightarrow> nat \<Rightarrow> nat \<Rightarrow> nat" where
  "trim_terminal_punctuation bs start e = scan_backward is_terminal_punctuation bs start e"

definition token_end :: "byte list \<Rightarrow> nat \<Rightarrow> nat" where
  "token_end bs start =
     scan_forward (\<lambda>b. \<not> is_ascii_whitespace b \<and> b \<notin> set (lit ''<>'' @ [96])) bs (length bs) start"

definition is_start_boundary :: "unicode \<Rightarrow> rstr \<Rightarrow> nat \<Rightarrow> bool option" where
  "is_start_boundary u input start =
     map_option (\<lambda>t. t = [] \<or> \<not> u_alphanumeric u (last t) \<and> last t \<notin> set (lit ''_-@.'')) (str_to input start)"

definition starts_with_ignore_ascii_case :: "byte list \<Rightarrow> nat \<Rightarrow> byte list \<Rightarrow> bool" where
  "starts_with_ignore_ascii_case bs start needle \<longleftrightarrow>
     start + length needle \<le> length bs
     \<and> list_all2 eq_ignore_ascii_case (take (length needle) (drop start bs)) needle"

section \<open>Mail addresses and initials\<close>

definition is_email_local_byte :: "byte \<Rightarrow> bool" where
  "is_email_local_byte b \<longleftrightarrow> is_ascii_alphanumeric b \<or> b \<in> set (lit ''.!#$%&*+-/=?^_{|}~'' @ [39, 96])"

definition is_email_domain_byte :: "byte \<Rightarrow> bool" where
  "is_email_domain_byte b \<longleftrightarrow> is_ascii_alphanumeric b \<or> b \<in> set (lit ''.-'')"

definition DASH :: byte where "DASH = ch (CHR ''-'')"

definition DOT :: byte where "DOT = ch (CHR ''.'')"

definition valid_email_domain :: "byte list \<Rightarrow> bool" where
  "valid_email_domain domain \<longleftrightarrow>
     (case split_char DOT domain of
        [] \<Rightarrow> False
      | first_label # labels \<Rightarrow>
          first_label \<noteq> []
          \<and> (\<forall>label \<in> set labels. label \<noteq> [] \<and> hd label \<noteq> DASH \<and> last label \<noteq> DASH
               \<and> list_all is_ascii_alphanumeric label)
          \<and> 2 \<le> 1 + length labels
          \<and> 2 \<le> length (last (first_label # labels))
          \<and> list_all is_ascii_alphabetic (last (first_label # labels))
          \<and> list_all (\<lambda>b. is_ascii_alphanumeric b \<or> b = DASH) first_label)"

text \<open>The body of the loop over the bytes, at byte \<open>i\<close>.\<close>

definition email_at :: "unicode \<Rightarrow> rstr \<Rightarrow> nat \<Rightarrow> byte_span option option" where
  "email_at u input i =
     (let bs = str_bytes input
      in if bs ! i \<noteq> ch (CHR ''@'') \<or> i = 0 \<or> length bs \<le> i + 1 then Some None
         else let local_start = scan_backward is_email_local_byte bs 0 i
           in if local_start = i then Some None
              else Option.bind (is_start_boundary u input local_start) (\<lambda>boundary.
                if \<not> boundary then Some None
                else let domain_end = scan_forward is_email_domain_byte bs (length bs) (i + 1)
                  in map_option (\<lambda>domain.
                       if \<not> valid_email_domain domain then None
                       else let e = trim_terminal_punctuation bs local_start domain_end
                         in if i + 1 < e then Some (Span local_start e) else None)
                       (byte_slice bs (i + 1) domain_end)))"

definition extract_email_spans :: "unicode \<Rightarrow> rstr \<Rightarrow> byte_span list option" where
  "extract_email_spans u input =
     map_option (List.map_filter (\<lambda>x. x)) (map_panic (email_at u input) [0..<byte_len input])"

text \<open>\<open>initials_loop\<close> is the inner loop: the number of initials and the end.\<close>

function initials_loop :: "byte list \<Rightarrow> nat \<Rightarrow> nat \<Rightarrow> nat \<times> nat" where
  "initials_loop bs initials e =
     (if e + 1 < length bs \<and> bs ! e = DOT \<and> is_ascii_alphabetic (bs ! (e + 1))
      then initials_loop bs (initials + 1) (e + 2) else (initials, e))"
  by pat_completeness auto
termination by (relation "measure (\<lambda>(bs, initials, e). length bs - e)") auto

declare initials_loop.simps [simp del]

lemma initials_loop_ge: "e \<le> snd (initials_loop bs n e)"
proof (induction bs n e rule: initials_loop.induct)
  case (1 bs n e)
  then show ?case by (auto simp: initials_loop.simps [of bs n e])
qed

function dotted_loop :: "unicode \<Rightarrow> rstr \<Rightarrow> nat \<Rightarrow> byte_span list \<Rightarrow> byte_span list option" where
  "dotted_loop u input cursor spans =
     (if cursor < byte_len input then
        if \<not> is_ascii_alphabetic (str_bytes input ! cursor) \<or> \<not> is_char_boundary input cursor
        then dotted_loop u input (cursor + 1) spans
        else case is_start_boundary u input cursor of
            None \<Rightarrow> None
          | Some False \<Rightarrow> dotted_loop u input (cursor + 1) spans
          | Some True \<Rightarrow>
              if 4 \<le> fst (initials_loop (str_bytes input) 1 (cursor + 1))
              then dotted_loop u input (snd (initials_loop (str_bytes input) 1 (cursor + 1)))
                     (spans @ [Span cursor (snd (initials_loop (str_bytes input) 1 (cursor + 1)))])
              else dotted_loop u input (cursor + 1) spans
      else Some spans)"
  by pat_completeness auto
termination
  by (relation "measure (\<lambda>(u, input, cursor, spans). byte_len input - cursor)")
     (use initials_loop_ge [of "Suc _"] in \<open>auto intro!: diff_less_mono2 simp: Suc_le_eq\<close>)

declare dotted_loop.simps [simp del]

definition extract_dotted_initial_spans :: "unicode \<Rightarrow> rstr \<Rightarrow> byte_span list option" where
  "extract_dotted_initial_spans u input = dotted_loop u input 0 []"

text \<open>The merging of the analysis: as the one of the resolver, on a vector that is sorted already.\<close>

definition merge_sorted_spans :: "byte_span list \<Rightarrow> byte_span list" where
  "merge_sorted_spans spans = merge_loop [] spans"

section \<open>Links\<close>

record url_candidate =
  uc_url :: byte_span
  uc_domain :: surface_span

definition domain_span :: "byte list \<Rightarrow> byte_span \<Rightarrow> surface_span option" where
  "domain_span bs domain =
     (let text_start = sp_start domain + 4
      in if starts_with_ignore_ascii_case bs (sp_start domain) (lit ''www.'') \<and> text_start < sp_end domain
         then map_option (\<lambda>rest. SurfaceSpan domain
                (if DOT \<in> set rest then Span text_start (sp_end domain) else domain))
                (byte_slice bs text_start (sp_end domain))
         else Some (SurfaceSpan domain domain))"

text \<open>
  The loop over the labels of a domain: the number of labels and the bounds of the last one,
  which are also where the loop leaves the cursor.
\<close>

lemma scan_forward_ge: "i \<le> scan_forward p bs limit i"
proof (induction p bs limit i rule: scan_forward.induct)
  case (1 p bs limit i)
  then show ?case by (auto simp: scan_forward.simps [of p bs limit i])
qed

function domain_labels :: "byte list \<Rightarrow> nat \<Rightarrow> nat \<Rightarrow> nat \<Rightarrow> (nat \<times> nat \<times> nat) option" where
  "domain_labels bs limit cursor labels =
     (if limit \<le> cursor \<or> \<not> is_ascii_alphanumeric (bs ! cursor) then None
      else let e = scan_forward (\<lambda>b. is_ascii_alphanumeric b \<or> b = DASH) bs limit (cursor + 1)
        in if bs ! (e - 1) = DASH then None
           else if limit \<le> e \<or> bs ! e \<noteq> DOT \<or> limit \<le> e + 1 \<or> \<not> is_ascii_alphanumeric (bs ! (e + 1))
           then Some (labels + 1, cursor, e)
           else domain_labels bs limit (e + 1) (labels + 1))"
  by pat_completeness auto
termination
proof (relation "measure (\<lambda>(bs, limit, cursor, labels). limit - cursor)", goal_cases)
  case (2 bs limit cursor labels e)
  with scan_forward_ge [of "cursor + 1" "\<lambda>b. is_ascii_alphanumeric b \<or> b = DASH" bs limit]
  show ?case by simp linarith
qed simp

declare domain_labels.simps [simp del]

definition parse_domain_at :: "byte list \<Rightarrow> nat \<Rightarrow> nat \<Rightarrow> nat option option" where
  "parse_domain_at bs start limit =
     (case domain_labels bs limit start 0 of
        None \<Rightarrow> Some None
      | Some (labels, a, e) \<Rightarrow>
          if labels < 2 \<or> e - a < 2 then Some None
          else map_option (\<lambda>label. if list_all is_ascii_alphabetic label then Some e else None)
                 (byte_slice bs a e))"

definition is_path_start :: "byte \<Rightarrow> bool" where
  "is_path_start b \<longleftrightarrow> b \<in> set (lit ''/?#'')"

definition valid_domain_tail :: "byte list \<Rightarrow> nat \<Rightarrow> nat \<Rightarrow> bool option" where
  "valid_domain_tail bs start limit =
     (if start = limit then Some True
      else if length bs \<le> start then None
      else if is_path_start (bs ! start) then Some True
      else map_option (list_all is_terminal_punctuation) (byte_slice bs start limit))"

definition valid_port :: "byte list \<Rightarrow> nat \<Rightarrow> nat \<Rightarrow> bool option" where
  "valid_port bs port_start authority_end =
     (if port_start = authority_end then Some True
      else map_option (list_all is_ascii_digit) (byte_slice bs (port_start + 1) authority_end))"

definition url_candidate_of :: "byte list \<Rightarrow> nat \<Rightarrow> nat \<Rightarrow> byte_span \<Rightarrow> url_candidate option option" where
  "url_candidate_of bs start token domain =
     (let url_end = trim_terminal_punctuation bs start token
      in if start < url_end
         then map_option (\<lambda>d. Some \<lparr>uc_url = Span start url_end, uc_domain = d\<rparr>) (domain_span bs domain)
         else Some None)"

definition http_scheme :: "byte list \<Rightarrow> nat \<Rightarrow> nat option" where
  "http_scheme bs start =
     (if starts_with_ignore_ascii_case bs start (lit ''https://'') then Some 8
      else if starts_with_ignore_ascii_case bs start (lit ''http://'') then Some 7 else None)"

definition offset_of :: "(byte \<Rightarrow> bool) \<Rightarrow> byte list \<Rightarrow> nat \<Rightarrow> nat \<Rightarrow> nat" where
  "offset_of p part start otherwise =
     (case position_of p part of None \<Rightarrow> otherwise | Some offset \<Rightarrow> start + offset)"

definition parse_http_url :: "byte list \<Rightarrow> nat \<Rightarrow> url_candidate option option" where
  "parse_http_url bs start =
     (case http_scheme bs start of
        None \<Rightarrow> Some None
      | Some scheme_len \<Rightarrow>
          let token = token_end bs start; authority_start = start + scheme_len
          in Option.bind (byte_slice bs authority_start token) (\<lambda>rest.
             let authority_end = trim_terminal_punctuation bs authority_start
                   (offset_of is_path_start rest authority_start token)
             in Option.bind (byte_slice bs authority_start authority_end) (\<lambda>authority.
                let host_end = offset_of (\<lambda>b. b = ch (CHR '':'')) authority authority_start authority_end
                in Option.bind (parse_domain_at bs authority_start host_end) (\<lambda>domain.
                   case domain of
                     None \<Rightarrow> Some None
                   | Some domain_end \<Rightarrow>
                       if domain_end \<noteq> host_end then Some None
                       else Option.bind (valid_port bs host_end authority_end) (\<lambda>port.
                         if \<not> port then Some None
                         else url_candidate_of bs start token (Span authority_start domain_end))))))"

definition parse_domain_url :: "byte list \<Rightarrow> nat \<Rightarrow> url_candidate option option" where
  "parse_domain_url bs start =
     (let token = token_end bs start
      in Option.bind (parse_domain_at bs start token) (\<lambda>domain.
           case domain of
             None \<Rightarrow> Some None
           | Some domain_end \<Rightarrow> Option.bind (valid_domain_tail bs domain_end token) (\<lambda>tail.
               if \<not> tail then Some None
               else url_candidate_of bs start token (Span start domain_end))))"

definition url_at :: "byte list \<Rightarrow> nat \<Rightarrow> url_candidate option option" where
  "url_at bs start =
     Option.bind (parse_http_url bs start) (\<lambda>found.
       case found of None \<Rightarrow> parse_domain_url bs start | Some c \<Rightarrow> Some (Some c))"

lemma url_candidate_of_span:
  "url_candidate_of bs start token domain = Some (Some c) \<Longrightarrow>
     start < sp_end (uc_url c) \<and> sp_start (uc_url c) = start"
  by (auto simp: url_candidate_of_def Let_def split: if_splits)

lemma url_at_span:
  assumes "url_at bs start = Some (Some c)"
  shows "start < sp_end (uc_url c) \<and> sp_start (uc_url c) = start"
proof -
  obtain token domain where "url_candidate_of bs start token domain = Some (Some c)"
    using assms
    by (auto simp: url_at_def parse_http_url_def parse_domain_url_def Let_def bind_eq_Some_conv
        split: option.splits if_splits)
  then show ?thesis by (rule url_candidate_of_span)
qed

function urls_loop :: "unicode \<Rightarrow> rstr \<Rightarrow> nat \<Rightarrow> url_candidate list \<Rightarrow> url_candidate list option" where
  "urls_loop u input cursor candidates =
     (if cursor < byte_len input then
        if \<not> is_char_boundary input cursor then urls_loop u input (cursor + 1) candidates
        else case is_start_boundary u input cursor of
            None \<Rightarrow> None
          | Some False \<Rightarrow> urls_loop u input (cursor + 1) candidates
          | Some True \<Rightarrow>
              (case url_at (str_bytes input) cursor of
                 None \<Rightarrow> None
               | Some None \<Rightarrow> urls_loop u input (cursor + 1) candidates
               | Some (Some c) \<Rightarrow> urls_loop u input (sp_end (uc_url c)) (candidates @ [c]))
      else Some candidates)"
  by pat_completeness auto
termination
  by (relation "measure (\<lambda>(u, input, cursor, candidates). byte_len input - cursor)")
     (auto intro!: diff_less_mono2 dest: url_at_span)

declare urls_loop.simps [simp del]

definition extract_urls :: "unicode \<Rightarrow> rstr \<Rightarrow> (byte_span list \<times> surface_span list) option" where
  "extract_urls u input =
     map_option (\<lambda>candidates. (map uc_url candidates, map uc_domain candidates)) (urls_loop u input 0 [])"

section \<open>The analysed content\<close>

record analyzed_content =
  ac_normalized :: "(surface, normalized_text) btree_map"
  ac_security :: "(surface, security_normalized_text) btree_map"
  ac_security_excluded_spans :: "byte_span list"
  ac_url_spans :: "byte_span list"

type_synonym surface_views =
  "(surface, normalized_text) btree_map \<times> (surface, security_normalized_text) btree_map"

definition analyze_surface ::
  "unicode \<Rightarrow> presentation \<Rightarrow> surface_span list \<Rightarrow> surface \<Rightarrow> surface_views \<Rightarrow> surface_views" where
  "analyze_surface u p domains s views = (case views of (normalized, security) \<Rightarrow>
     if s = UrlDomain then
       (if domains \<noteq> [] then bt_insert s (from_original_spans u (pn_message_content p) domains) normalized
        else normalized, security)
     else let value = presentation_surface p s
       in if value \<noteq> []
          then (bt_insert s (normalized_text_new u value) normalized,
                bt_insert s (security_normalized_text_new u value) security)
          else (normalized, security))"

definition analyzed_content_new :: "unicode \<Rightarrow> presentation \<Rightarrow> analyzed_content option" where
  "analyzed_content_new u p =
     Option.bind (extract_urls u (pn_message_content p)) (\<lambda>(url_spans, domain_spans).
     Option.bind (extract_email_spans u (pn_message_content p)) (\<lambda>emails.
     Option.bind (extract_dotted_initial_spans u (pn_message_content p)) (\<lambda>initials.
       let excluded = merge_sorted_spans (sort (url_spans @ emails @ initials));
           views = fold (analyze_surface u p domain_spans) surface_ALL ([], [])
       in Some \<lparr>ac_normalized = fst views, ac_security = snd views,
                ac_security_excluded_spans = excluded, ac_url_spans = url_spans\<rparr>)))"

section \<open>Scans\<close>

lemma byte_slice_Some [simp]: "byte_slice bs a b = Some xs \<longleftrightarrow> a \<le> b \<and> b \<le> length bs \<and> xs = take (b - a) (drop a bs)"
  by (auto simp: byte_slice_def)

lemma byte_slice_None [simp]: "byte_slice bs a b = None \<longleftrightarrow> \<not> (a \<le> b \<and> b \<le> length bs)"
  by (auto simp: byte_slice_def)

lemma scan_forward_le: "i \<le> limit \<Longrightarrow> scan_forward p bs limit i \<le> limit"
proof (induction p bs limit i rule: scan_forward.induct)
  case (1 p bs limit i)
  then show ?case by (auto simp: scan_forward.simps [of p bs limit i])
qed

lemma scan_forward_all: "i \<le> j \<Longrightarrow> j < scan_forward p bs limit i \<Longrightarrow> p (bs ! j)"
proof (induction p bs limit i rule: scan_forward.induct)
  case (1 p bs limit i)
  then show ?case by (cases "j = i") (auto simp: scan_forward.simps [of p bs limit i] split: if_splits)
qed

lemma scan_forward_stop: "scan_forward p bs limit i < limit \<Longrightarrow> \<not> p (bs ! scan_forward p bs limit i)"
proof (induction p bs limit i rule: scan_forward.induct)
  case (1 p bs limit i)
  then show ?case by (auto simp: scan_forward.simps [of p bs limit i] split: if_splits)
qed

lemma scan_forward_reach:
  assumes "\<forall>j. i \<le> j \<and> j < k \<longrightarrow> p (bs ! j)" "i \<le> k" "k \<le> limit"
  shows "k \<le> scan_forward p bs limit i"
proof (rule ccontr)
  assume "\<not> k \<le> scan_forward p bs limit i"
  with assms scan_forward_ge [of i p bs limit] scan_forward_stop [of p bs limit i] show False by auto
qed

lemma scan_backward_le: "scan_backward p bs start e \<le> e"
  by (induction e) (auto simp: le_SucI)

lemma scan_backward_ge: "start \<le> e \<Longrightarrow> start \<le> scan_backward p bs start e"
  by (induction e) (auto simp: le_Suc_eq)

lemma scan_backward_all: "scan_backward p bs start e \<le> j \<Longrightarrow> j < e \<Longrightarrow> p (bs ! j)"
  by (induction e) (auto simp: less_Suc_eq split: if_splits)

lemma scan_backward_keep: "k < e \<Longrightarrow> \<not> p (bs ! k) \<Longrightarrow> k < scan_backward p bs start e"
  by (induction e) (auto simp: less_Suc_eq)

lemma position_of_less: "position_of p xs = Some n \<Longrightarrow> n < length xs"
  by (induction xs arbitrary: n) (auto split: if_splits)

lemma offset_of_bounds:
  assumes "byte_slice bs a b = Some part"
  shows "a \<le> offset_of p part a b \<and> offset_of p part a b \<le> b"
  using assms position_of_less [of p part] by (fastforce simp: offset_of_def split: option.splits)

section \<open>Character boundaries\<close>

lemma ascii_byte_boundary:
  "i < byte_len s \<Longrightarrow> str_bytes s ! i < 128 \<Longrightarrow> is_char_boundary s i \<and> is_char_boundary s (Suc i)"
proof (induction s arbitrary: i)
  case (Cons c s)
  show ?case
  proof (cases "i < utf8_width c")
    case True
    then have "str_bytes (c # s) ! i = char_bytes c ! i" by (simp add: nth_append)
    moreover have "char_bytes c ! i \<in> set (char_bytes c)" using True by simp
    ultimately have "char_bytes c = [char_bytes c ! i]" using char_bytes_low Cons.prems(2) by metis
    then have "length (char_bytes c) = 1" by (metis length_Cons list.size(3) One_nat_def)
    then have w: "utf8_width c = 1" by simp
    with True have "i = 0" by simp
    moreover have "is_char_boundary (c # s) (Suc 0)"
      unfolding is_char_boundary_iff by (rule exI [of _ "[c]"]) (simp add: w)
    ultimately show ?thesis by simp
  next
    case False
    then have "str_bytes (c # s) ! i = str_bytes s ! (i - utf8_width c)" by (simp add: nth_append)
    with Cons.IH [of "i - utf8_width c"] Cons.prems False
    have b: "is_char_boundary s (i - utf8_width c)" "is_char_boundary s (Suc (i - utf8_width c))" by auto
    have shift: "is_char_boundary (c # s) (utf8_width c + n)" if n: "is_char_boundary s n" for n
    proof -
      from n obtain x y where "s = x @ y" "byte_len x = n" by (rule is_char_boundaryE)
      then have "c # s = (c # x) @ y \<and> byte_len (c # x) = utf8_width c + n" by simp
      then show ?thesis unfolding is_char_boundary_iff by blast
    qed
    from shift [OF b(1)] shift [OF b(2)] False show ?thesis by simp
  qed
qed simp

lemma boundary_after_ascii:
  "0 < i \<Longrightarrow> i \<le> byte_len s \<Longrightarrow> str_bytes s ! (i - 1) < 128 \<Longrightarrow> is_char_boundary s i"
  using ascii_byte_boundary [of "i - 1" s] by auto

lemma ascii_classes:
  "is_ascii_alphanumeric b \<Longrightarrow> b < 128" "is_ascii_alphabetic b \<Longrightarrow> b < 128"
  "is_terminal_punctuation b \<Longrightarrow> b < 128" "is_email_local_byte b \<Longrightarrow> b < 128"
  "is_email_domain_byte b \<Longrightarrow> b < 128" "is_ascii_alphanumeric b \<or> b = DASH \<Longrightarrow> b < 128"
  by (auto simp: is_ascii_alphanumeric_def is_ascii_alphabetic_def is_ascii_digit_def lit_def
      is_terminal_punctuation_def is_email_local_byte_def is_email_domain_byte_def DASH_def)

lemma alphanumeric_not_terminal: "is_ascii_alphanumeric b \<Longrightarrow> \<not> is_terminal_punctuation b"
  by (auto simp: is_ascii_alphanumeric_def is_ascii_alphabetic_def is_ascii_digit_def lit_def
      is_terminal_punctuation_def)

lemma is_start_boundary_Some: "is_char_boundary s i \<Longrightarrow> \<exists>b. is_start_boundary u s i = Some b"
  by (auto simp: is_start_boundary_def str_to_def is_char_boundary_def)

lemma token_end_bounds: "start \<le> length bs \<Longrightarrow> start \<le> token_end bs start \<and> token_end bs start \<le> length bs"
  by (simp add: token_end_def scan_forward_le scan_forward_ge)

lemma token_end_boundary:
  assumes "start \<le> byte_len s"
  shows "is_char_boundary s (token_end (str_bytes s) start)"
proof (cases "token_end (str_bytes s) start < byte_len s")
  case True
  then have "\<not> (\<not> is_ascii_whitespace (str_bytes s ! token_end (str_bytes s) start)
      \<and> str_bytes s ! token_end (str_bytes s) start \<notin> set (lit ''<>'' @ [96]))"
    unfolding token_end_def length_str_bytes by (rule scan_forward_stop)
  then have "str_bytes s ! token_end (str_bytes s) start < 128"
    by (auto simp: is_ascii_whitespace_def lit_def)
  with True ascii_byte_boundary show ?thesis by blast
next
  case False
  with token_end_bounds [of start "str_bytes s"] assms have "token_end (str_bytes s) start = byte_len s" by simp
  then show ?thesis by simp
qed

lemma trim_bounds:
  "start \<le> e \<Longrightarrow> start \<le> trim_terminal_punctuation bs start e \<and> trim_terminal_punctuation bs start e \<le> e"
  by (simp add: trim_terminal_punctuation_def scan_backward_le scan_backward_ge)

lemma trim_boundary:
  assumes "is_char_boundary s e"
  shows "is_char_boundary s (trim_terminal_punctuation (str_bytes s) start e)"
proof (cases "trim_terminal_punctuation (str_bytes s) start e = e")
  case False
  then have l: "trim_terminal_punctuation (str_bytes s) start e < e"
    unfolding trim_terminal_punctuation_def using scan_backward_le le_neq_implies_less by blast
  then have "is_terminal_punctuation (str_bytes s ! trim_terminal_punctuation (str_bytes s) start e)"
    unfolding trim_terminal_punctuation_def by (rule scan_backward_all [OF order_refl])
  moreover have "e \<le> byte_len s" using assms by (rule is_char_boundary_le)
  ultimately show ?thesis using ascii_byte_boundary ascii_classes(3) l by (meson less_le_trans)
qed (simp add: assms)

section \<open>Domains\<close>

text \<open>
  The shape of an extracted domain: at least two labels of letters, digits and inner dashes
  between dots, the last of at least two letters.
\<close>

definition label_ok :: "byte list \<Rightarrow> bool" where
  "label_ok l \<longleftrightarrow> l \<noteq> [] \<and> is_ascii_alphanumeric (hd l) \<and> is_ascii_alphanumeric (last l)
     \<and> (\<forall>b \<in> set l. is_ascii_alphanumeric b \<or> b = DASH)"

definition domain_text :: "byte list \<Rightarrow> bool" where
  "domain_text d \<longleftrightarrow>
     2 \<le> length (split_char DOT d) \<and> (\<forall>l \<in> set (split_char DOT d). label_ok l)
     \<and> 2 \<le> length (last (split_char DOT d)) \<and> list_all is_ascii_alphabetic (last (split_char DOT d))"

lemma label_ok_no_dot: "label_ok l \<Longrightarrow> DOT \<notin> set l"
  by (auto simp: label_ok_def DOT_def DASH_def is_ascii_alphanumeric_def is_ascii_alphabetic_def is_ascii_digit_def)

lemma split_char_no: "d \<notin> set s \<Longrightarrow> split_char d s = [s]"
  by (induction s) auto

lemma split_char_append: "d \<notin> set s \<Longrightarrow> split_char d (s @ d # t) = s # split_char d t"
  by (induction s) auto

lemma slice_split:
  assumes "a \<le> m" "m < e" "e \<le> length bs"
  shows "take (e - a) (drop a bs) = take (m - a) (drop a bs) @ bs ! m # take (e - Suc m) (drop (Suc m) bs)"
proof -
  have "take (e - a) (drop a bs) = take (m - a) (drop a bs) @ take (e - m) (drop m bs)"
    using assms take_add [of "m - a" "e - m" "drop a bs"] by simp
  also have "take (e - m) (drop m bs) = bs ! m # take (e - Suc m) (drop (Suc m) bs)"
    using assms Cons_nth_drop_Suc [of m bs] by (metis Suc_diff_Suc less_le_trans take_Suc_Cons)
  finally show ?thesis .
qed

lemma label_slice_ok:
  assumes "e = scan_forward (\<lambda>b. is_ascii_alphanumeric b \<or> b = DASH) bs limit (Suc cursor)"
    and "cursor < limit" "limit \<le> length bs" "is_ascii_alphanumeric (bs ! cursor)" "bs ! (e - 1) \<noteq> DASH"
  shows "cursor < e \<and> e \<le> limit \<and> label_ok (take (e - cursor) (drop cursor bs))"
proof -
  let ?l = "take (e - cursor) (drop cursor bs)"
  have e: "cursor < e" "e \<le> limit"
    using assms(1,2) scan_forward_ge [of "Suc cursor"] scan_forward_le [of "Suc cursor" limit] by (auto simp: Suc_le_eq)
  have all: "is_ascii_alphanumeric (bs ! j) \<or> bs ! j = DASH" if "cursor \<le> j" "j < e" for j
  proof (cases "j = cursor")
    case False
    with that have "Suc cursor \<le> j" by simp
    from scan_forward_all [OF this, of "\<lambda>b. is_ascii_alphanumeric b \<or> b = DASH" bs limit] assms(1) that
    show ?thesis by simp
  qed (simp add: assms(4))
  have len: "length ?l = e - cursor" using e assms(3) by simp
  have nth: "?l ! k = bs ! (cursor + k)" if "k < e - cursor" for k
    using that e assms(3) by simp
  have ne: "?l \<noteq> []" using len e by (metis length_0_conv zero_less_diff less_numeral_extra(3))
  have "hd ?l = bs ! cursor" using ne nth [of 0] e by (simp add: hd_conv_nth)
  moreover have "last ?l = bs ! (e - 1)"
    using last_conv_nth [OF ne] nth [of "e - cursor - 1"] e unfolding len by simp
  moreover have "is_ascii_alphanumeric (bs ! (e - 1))"
    using all [of "e - 1"] e assms(5) by auto
  moreover have "is_ascii_alphanumeric b \<or> b = DASH" if "b \<in> set ?l" for b
  proof -
    from that obtain k where k: "k < length ?l" "?l ! k = b" by (meson in_set_conv_nth)
    then have "k < e - cursor" using len by simp
    with nth [of k] all [of "cursor + k"] k(2) show ?thesis by (simp add: less_diff_conv)
  qed
  ultimately have "label_ok ?l"
    using ne assms(4) unfolding label_ok_def by (simp only:) blast
  with e show ?thesis by blast
qed

lemma domain_labels_spec:
  "domain_labels bs limit cursor labels = Some (n, a, e) \<Longrightarrow> limit \<le> length bs \<Longrightarrow>
     cursor \<le> a \<and> a < e \<and> e \<le> limit
     \<and> n = labels + length (split_char DOT (take (e - cursor) (drop cursor bs)))
     \<and> (\<forall>l \<in> set (split_char DOT (take (e - cursor) (drop cursor bs))). label_ok l)
     \<and> last (split_char DOT (take (e - cursor) (drop cursor bs))) = take (e - a) (drop a bs)"
proof (induction bs limit cursor labels rule: domain_labels.induct)
  case (1 bs limit cursor labels)
  define m where "m = scan_forward (\<lambda>b. is_ascii_alphanumeric b \<or> b = DASH) bs limit (Suc cursor)"
  have c: "cursor < limit" "is_ascii_alphanumeric (bs ! cursor)" "bs ! (m - 1) \<noteq> DASH"
    using "1.prems"(1) by (auto simp: domain_labels.simps [of bs limit cursor labels] m_def Let_def split: if_splits)
  from label_slice_ok [OF m_def c(1) "1.prems"(2) c(2,3)]
  have l: "cursor < m" "m \<le> limit" "label_ok (take (m - cursor) (drop cursor bs))" by simp_all
  note nd = label_ok_no_dot [OF l(3)]
  show ?case
  proof (cases "limit \<le> m \<or> bs ! m \<noteq> DOT \<or> limit \<le> m + 1 \<or> \<not> is_ascii_alphanumeric (bs ! (m + 1))")
    case True
    then have "n = labels + 1" "a = cursor" "e = m"
      using "1.prems"(1) c by (auto simp: domain_labels.simps [of bs limit cursor labels] m_def Let_def split: if_splits)
    with l split_char_no [OF nd] show ?thesis by simp
  next
    case False
    then have r: "domain_labels bs limit (m + 1) (labels + 1) = Some (n, a, e)"
      using "1.prems"(1) c by (auto simp: domain_labels.simps [of bs limit cursor labels] m_def Let_def split: if_splits)
    have ih: "m + 1 \<le> a \<and> a < e \<and> e \<le> limit
       \<and> n = labels + 1 + length (split_char DOT (take (e - (m + 1)) (drop (m + 1) bs)))
       \<and> (\<forall>l \<in> set (split_char DOT (take (e - (m + 1)) (drop (m + 1) bs))). label_ok l)
       \<and> last (split_char DOT (take (e - (m + 1)) (drop (m + 1) bs))) = take (e - a) (drop a bs)"
      by (rule "1.IH" [OF _ m_def [simplified Suc_eq_plus1] _ _ r "1.prems"(2)]) (use c False in auto)
    have s: "split_char DOT (take (e - cursor) (drop cursor bs))
        = take (m - cursor) (drop cursor bs) # split_char DOT (take (e - Suc m) (drop (Suc m) bs))"
      using slice_split [of cursor m e bs] split_char_append [OF nd] l(1) ih False "1.prems"(2) by simp
    show ?thesis using ih l unfolding s by simp
  qed
qed

lemma domain_labels_None_or:
  assumes "limit \<le> length bs"
  shows "parse_domain_at bs start limit \<noteq> None"
proof (cases "domain_labels bs limit start 0")
  case (Some r)
  then obtain n a e where r: "domain_labels bs limit start 0 = Some (n, a, e)" by (cases r) auto
  from domain_labels_spec [OF this assms] have "a < e" "e \<le> limit" by simp_all
  with assms r show ?thesis by (simp add: parse_domain_at_def)
qed (simp add: parse_domain_at_def)

lemma parse_domain_at_spec:
  assumes "parse_domain_at bs start limit = Some (Some e)" "limit \<le> length bs"
  shows "start < e \<and> e \<le> limit \<and> domain_text (take (e - start) (drop start bs))
     \<and> is_ascii_alphabetic (bs ! (e - 1))"
proof -
  obtain n a where r: "domain_labels bs limit start 0 = Some (n, a, e)"
    and c: "2 \<le> n" "2 \<le> e - a" "list_all is_ascii_alphabetic (take (e - a) (drop a bs))"
    using assms(1) by (auto simp: parse_domain_at_def not_less split: option.splits if_splits)
  from domain_labels_spec [OF r assms(2)]
  have s: "start \<le> a" "a < e" "e \<le> limit" "n = length (split_char DOT (take (e - start) (drop start bs)))"
    "\<forall>l \<in> set (split_char DOT (take (e - start) (drop start bs))). label_ok l"
    "last (split_char DOT (take (e - start) (drop start bs))) = take (e - a) (drop a bs)" by simp_all
  have len: "length (take (e - a) (drop a bs)) = e - a" using s(2,3) assms(2) by simp
  have "take (e - a) (drop a bs) ! (e - a - 1) = bs ! (e - 1)" using s(2,3) assms(2) by simp
  with c(2,3) len have "is_ascii_alphabetic (bs ! (e - 1))"
    by (metis list_all_length diff_less less_le_trans zero_less_numeral zero_less_one)
  then show ?thesis using s c len unfolding domain_text_def by simp
qed

section \<open>Links\<close>

definition candidate_ok :: "rstr \<Rightarrow> url_candidate \<Rightarrow> bool" where
  "candidate_ok input c \<longleftrightarrow>
     (let a = ss_attributed (uc_domain c); t = ss_text (uc_domain c)
      in valid_span input (uc_url c) \<and> valid_span input a \<and> valid_span input t
         \<and> sp_start (uc_url c) \<le> sp_start a \<and> sp_end a \<le> sp_end (uc_url c)
         \<and> sp_start a \<le> sp_start t \<and> sp_end t = sp_end a
         \<and> domain_text (take (sp_end a - sp_start a) (drop (sp_start a) (str_bytes input))))"

lemma domain_span_Some:
  assumes "sp_end d \<le> length bs"
  shows "\<exists>s. domain_span bs d = Some s"
  using assms by (auto simp: domain_span_def Let_def)

lemma starts_with_nth:
  assumes "starts_with_ignore_ascii_case bs start needle" "k < length needle"
  shows "eq_ignore_ascii_case (bs ! (start + k)) (needle ! k)"
proof -
  have "k < length (take (length needle) (drop start bs))"
    using assms by (simp add: starts_with_ignore_ascii_case_def) linarith
  then show ?thesis
    using assms by (auto simp: starts_with_ignore_ascii_case_def list_all2_conv_all_nth)
qed

lemma domain_span_ok:
  assumes "domain_span (str_bytes s) d = Some x" "valid_span s d"
  shows "ss_attributed x = d \<and> valid_span s (ss_text x) \<and> sp_start d \<le> sp_start (ss_text x) \<and> sp_end (ss_text x) = sp_end d"
proof -
  have "valid_span s (Span (sp_start d + 4) (sp_end d))"
    if w: "starts_with_ignore_ascii_case (str_bytes s) (sp_start d) (lit ''www.'')" "sp_start d + 4 < sp_end d"
  proof -
    have "eq_ignore_ascii_case (str_bytes s ! (sp_start d + 3)) (lit ''www.'' ! 3)"
      using w(1) by (rule starts_with_nth) (simp add: lit_def)
    then have "str_bytes s ! (sp_start d + 3) < 128"
      by (auto simp: eq_ignore_ascii_case_def to_ascii_lowercase_def lit_def split: if_splits)
    moreover have "sp_end d \<le> byte_len s" using assms(2) is_char_boundary_le by (simp add: valid_span_def)
    ultimately have "is_char_boundary s (sp_start d + 4)"
      using boundary_after_ascii [of "sp_start d + 4" s] w(2) by (simp add: add.commute)
    with w(2) assms(2) show ?thesis by (simp add: valid_span_def)
  qed
  with assms show ?thesis by (auto simp: domain_span_def Let_def split: if_splits)
qed

definition is_token_byte :: "byte \<Rightarrow> bool" where
  "is_token_byte b \<longleftrightarrow> \<not> is_ascii_whitespace b \<and> b \<notin> set (lit ''<>'' @ [96])"

lemma token_byte_of_scheme:
  assumes "n \<in> set (lit ''htps:/'')" "eq_ignore_ascii_case b n"
  shows "is_token_byte b"
proof -
  from assms(1) have "n \<in> {104, 116, 112, 115, 58, 47}" by (simp add: lit_def)
  moreover have "b = n \<or> b + 32 = n"
    using assms calculation by (auto simp: eq_ignore_ascii_case_def to_ascii_lowercase_def split: if_splits)
  ultimately show ?thesis by (auto simp: is_token_byte_def is_ascii_whitespace_def lit_def)
qed

lemma scheme_in_token:
  assumes "starts_with_ignore_ascii_case bs start needle" "set needle \<subseteq> set (lit ''htps:/'')"
  shows "start + length needle \<le> token_end bs start"
proof -
  have "is_token_byte (bs ! j)" if j: "start \<le> j" "j < start + length needle" for j
  proof -
    have "eq_ignore_ascii_case (bs ! (start + (j - start))) (needle ! (j - start))"
      using assms(1) by (rule starts_with_nth) (use j in simp)
    moreover have "needle ! (j - start) \<in> set (lit ''htps:/'')" using j assms(2) by (simp add: subset_iff)
    ultimately show ?thesis using j token_byte_of_scheme by fastforce
  qed
  then have "start + length needle \<le> scan_forward is_token_byte bs (length bs) start"
    using assms(1) by (intro scan_forward_reach) (simp_all add: starts_with_ignore_ascii_case_def)
  moreover have "is_token_byte = (\<lambda>b. \<not> is_ascii_whitespace b \<and> b \<notin> set (lit ''<>'' @ [96]))"
    by (simp add: fun_eq_iff is_token_byte_def)
  ultimately show ?thesis by (simp add: token_end_def)
qed

lemma http_scheme_in_token:
  assumes "http_scheme bs start = Some n"
  shows "0 < n \<and> start + n \<le> token_end bs start"
proof -
  from assms consider "n = 8" "starts_with_ignore_ascii_case bs start (lit ''https://'')"
    | "n = 7" "starts_with_ignore_ascii_case bs start (lit ''http://'')"
    by (auto simp: http_scheme_def split: if_splits)
  then show ?thesis
  proof cases
    case 1
    with scheme_in_token [of bs start "lit ''https://''"] show ?thesis by (auto simp: lit_def)
  next
    case 2
    with scheme_in_token [of bs start "lit ''http://''"] show ?thesis by (auto simp: lit_def)
  qed
qed

text \<open>What both forms of a link establish before the candidate is built.\<close>

definition link_parts :: "byte list \<Rightarrow> nat \<Rightarrow> nat \<Rightarrow> nat \<Rightarrow> bool" where
  "link_parts bs start a e \<longleftrightarrow>
     start \<le> a \<and> a < e \<and> e \<le> token_end bs start \<and> domain_text (take (e - a) (drop a bs))
     \<and> is_ascii_alphanumeric (bs ! a) \<and> is_ascii_alphabetic (bs ! (e - 1))"

lemma parse_domain_link_parts:
  assumes "parse_domain_at bs a limit = Some (Some e)" "start \<le> a" "limit \<le> token_end bs start" "start \<le> length bs"
  shows "link_parts bs start a e"
proof -
  have "limit \<le> length bs" using assms(3) token_end_bounds [OF assms(4)] by simp
  from parse_domain_at_spec [OF assms(1) this] have p: "a < e" "e \<le> limit"
    "domain_text (take (e - a) (drop a bs))" "is_ascii_alphabetic (bs ! (e - 1))" by simp_all
  have "is_ascii_alphanumeric (bs ! a)"
    using assms(1) by (auto simp: parse_domain_at_def domain_labels.simps [of bs limit a] split: option.splits if_splits)
  with p assms show ?thesis by (simp add: link_parts_def)
qed

lemma candidate_total:
  assumes "link_parts bs start a e" "start \<le> length bs"
  shows "url_candidate_of bs start (token_end bs start) (Span a e) \<noteq> None"
proof -
  have "e \<le> length bs" using assms token_end_bounds [OF assms(2)] by (simp add: link_parts_def)
  with domain_span_Some [of "Span a e" bs] show ?thesis by (auto simp: url_candidate_of_def Let_def)
qed

lemma candidate_of_ok:
  assumes p: "link_parts (str_bytes s) start a e" and b: "is_char_boundary s start"
    and c: "url_candidate_of (str_bytes s) start (token_end (str_bytes s) start) (Span a e) = Some (Some x)"
  shows "candidate_ok s x \<and> sp_start (uc_url x) = start"
proof -
  let ?t = "token_end (str_bytes s) start"
  let ?e = "trim_terminal_punctuation (str_bytes s) start ?t"
  have le: "start \<le> byte_len s" using b by (rule is_char_boundary_le)
  have t: "?t \<le> byte_len s" using token_end_bounds [of start "str_bytes s"] le by simp
  have "\<not> is_terminal_punctuation (str_bytes s ! (e - 1))"
    using p alphanumeric_not_terminal by (simp add: link_parts_def is_ascii_alphanumeric_def)
  then have "e - 1 < ?e"
    unfolding trim_terminal_punctuation_def by (rule scan_backward_keep [rotated]) (use p in \<open>auto simp: link_parts_def\<close>)
  then have e: "e \<le> ?e" by simp
  have url: "valid_span s (Span start ?e)"
    using b trim_boundary [OF token_end_boundary [OF le]] e p by (auto simp: valid_span_def link_parts_def)
  have el: "e \<le> byte_len s" "a < e" using p t by (auto simp: link_parts_def)
  have "is_char_boundary s a"
    using ascii_byte_boundary [of a s] p el ascii_classes(1) by (auto simp: link_parts_def)
  moreover have "is_char_boundary s e"
    using boundary_after_ascii [of e s] p el ascii_classes(2) by (auto simp: link_parts_def)
  ultimately have d: "valid_span s (Span a e)" using el by (simp add: valid_span_def)
  from c obtain y where y: "domain_span (str_bytes s) (Span a e) = Some y" "x = \<lparr>uc_url = Span start ?e, uc_domain = y\<rparr>"
    by (auto simp: url_candidate_of_def Let_def split: if_splits)
  from domain_span_ok [OF y(1) d] y(2) url d e p show ?thesis
    by (simp add: candidate_ok_def Let_def link_parts_def)
qed

lemma valid_domain_tail_Some:
  assumes "start \<le> limit" "limit \<le> length bs"
  shows "valid_domain_tail bs start limit \<noteq> None"
  using assms by (simp add: valid_domain_tail_def del: not_None_eq)

lemma valid_port_Some:
  assumes "a \<le> e" "e \<le> length bs"
  shows "valid_port bs a e \<noteq> None"
  using assms by (simp add: valid_port_def del: not_None_eq)

lemma bind_not_None: "x \<noteq> None \<Longrightarrow> (\<And>y. x = Some y \<Longrightarrow> f y \<noteq> None) \<Longrightarrow> Option.bind x f \<noteq> None"
  by (cases x) simp_all

lemma parse_domain_url_total:
  assumes "start \<le> length bs"
  shows "parse_domain_url bs start \<noteq> None"
proof -
  let ?t = "token_end bs start"
  have t: "?t \<le> length bs" using token_end_bounds [OF assms] by simp
  have "Option.bind (valid_domain_tail bs e ?t) (\<lambda>tail. if \<not> tail then Some None
      else url_candidate_of bs start ?t (Span start e)) \<noteq> None"
    if d: "parse_domain_at bs start ?t = Some (Some e)" for e
  proof -
    from parse_domain_link_parts [OF d order_refl order_refl assms] have p: "link_parts bs start start e" .
    then have "e \<le> ?t" by (simp add: link_parts_def)
    with valid_domain_tail_Some t candidate_total [OF p assms] show ?thesis by (intro bind_not_None) auto
  qed
  with domain_labels_None_or [OF t, of start] show ?thesis
    unfolding parse_domain_url_def Let_def by (intro bind_not_None) (auto split: option.splits)
qed

lemma parse_http_url_total:
  assumes "start \<le> length bs"
  shows "parse_http_url bs start \<noteq> None"
proof (cases "http_scheme bs start")
  case (Some n)
  let ?t = "token_end bs start" and ?a = "start + n"
  have t: "?t \<le> length bs" using token_end_bounds [OF assms] by simp
  have a: "?a \<le> ?t" using http_scheme_in_token [OF Some] by simp
  define rest where "rest = take (?t - ?a) (drop ?a bs)"
  define ae where "ae = trim_terminal_punctuation bs ?a (offset_of is_path_start rest ?a ?t)"
  have ae: "?a \<le> ae" "ae \<le> ?t"
    using offset_of_bounds [of bs ?a ?t rest is_path_start] trim_bounds [of ?a "offset_of is_path_start rest ?a ?t" bs] a t
    by (auto simp: rest_def ae_def)
  define auth where "auth = take (ae - ?a) (drop ?a bs)"
  define he where "he = offset_of (\<lambda>b. b = ch (CHR '':'')) auth ?a ae"
  have he: "?a \<le> he" "he \<le> ae"
    using offset_of_bounds [of bs ?a ae auth] ae t by (auto simp: auth_def he_def)
  have "Option.bind (valid_port bs he ae) (\<lambda>port. if \<not> port then Some None
      else url_candidate_of bs start ?t (Span ?a e)) \<noteq> None"
    if d: "parse_domain_at bs ?a he = Some (Some e)" for e
  proof -
    have "link_parts bs start ?a e"
      by (rule parse_domain_link_parts [OF d _ _ assms]) (use he ae in simp_all)
    from candidate_total [OF this assms] valid_port_Some [OF he(2)] ae t show ?thesis
      by (intro bind_not_None) auto
  qed
  then have "Option.bind (parse_domain_at bs ?a he) (\<lambda>domain. case domain of None \<Rightarrow> Some None
      | Some domain_end \<Rightarrow> if domain_end \<noteq> he then Some None
          else Option.bind (valid_port bs he ae) (\<lambda>port. if \<not> port then Some None
            else url_candidate_of bs start ?t (Span ?a domain_end))) \<noteq> None"
    using domain_labels_None_or [of he bs ?a] he ae t by (intro bind_not_None) (auto split: option.splits)
  moreover have "byte_slice bs ?a ?t = Some rest" "byte_slice bs ?a ae = Some auth"
    using a t ae by (simp_all add: rest_def auth_def)
  ultimately show ?thesis
    unfolding parse_http_url_def Some Let_def option.case ae_def he_def by (simp only: bind.bind_lunit) simp
qed (simp add: parse_http_url_def)

lemma url_at_total: "start \<le> length bs \<Longrightarrow> url_at bs start \<noteq> None"
  unfolding url_at_def using parse_http_url_total parse_domain_url_total
  by (intro bind_not_None) (auto split: option.splits)

lemma parse_domain_url_ok:
  assumes "parse_domain_url (str_bytes s) start = Some (Some x)" "is_char_boundary s start"
  shows "candidate_ok s x \<and> sp_start (uc_url x) = start"
proof -
  have le: "start \<le> length (str_bytes s)" using is_char_boundary_le [OF assms(2)] by simp
  from assms(1) obtain e where
    d: "parse_domain_at (str_bytes s) start (token_end (str_bytes s) start) = Some (Some e)"
    and c: "url_candidate_of (str_bytes s) start (token_end (str_bytes s) start) (Span start e) = Some (Some x)"
    by (auto simp: parse_domain_url_def Let_def bind_eq_Some_conv split: option.splits if_splits)
  from candidate_of_ok [OF parse_domain_link_parts [OF d order_refl order_refl le] assms(2) c] show ?thesis .
qed

lemma parse_http_url_ok:
  assumes "parse_http_url (str_bytes s) start = Some (Some x)" "is_char_boundary s start"
  shows "candidate_ok s x \<and> sp_start (uc_url x) = start"
proof -
  have le: "start \<le> length (str_bytes s)" using is_char_boundary_le [OF assms(2)] by simp
  let ?t = "token_end (str_bytes s) start"
  have t: "?t \<le> length (str_bytes s)" using token_end_bounds [OF le] by simp
  from assms(1) obtain n rest auth where n: "http_scheme (str_bytes s) start = Some n"
    and rest: "byte_slice (str_bytes s) (start + n) ?t = Some rest"
    and auth: "byte_slice (str_bytes s) (start + n)
      (trim_terminal_punctuation (str_bytes s) (start + n) (offset_of is_path_start rest (start + n) ?t)) = Some auth"
    by (auto simp: parse_http_url_def Let_def bind_eq_Some_conv split: option.splits)
  define ae where "ae = trim_terminal_punctuation (str_bytes s) (start + n) (offset_of is_path_start rest (start + n) ?t)"
  define he where "he = offset_of (\<lambda>b. b = ch (CHR '':'')) auth (start + n) ae"
  have o: "start + n \<le> offset_of is_path_start rest (start + n) ?t" "offset_of is_path_start rest (start + n) ?t \<le> ?t"
    using offset_of_bounds [OF rest] by simp_all
  have ae: "ae \<le> ?t" using trim_bounds [OF o(1)] o(2) le_trans unfolding ae_def by blast
  have he: "he \<le> ae" using offset_of_bounds [OF auth] unfolding he_def ae_def by simp
  from assms(1) obtain e where d: "parse_domain_at (str_bytes s) (start + n) he = Some (Some e)"
    and c: "url_candidate_of (str_bytes s) start ?t (Span (start + n) e) = Some (Some x)"
    unfolding parse_http_url_def n Let_def option.case rest bind.bind_lunit auth [folded ae_def] ae_def [symmetric]
      he_def [symmetric]
    by (auto simp: bind_eq_Some_conv simp del: byte_slice_Some split: option.splits if_splits)
  have "link_parts (str_bytes s) start (start + n) e"
    by (rule parse_domain_link_parts [OF d _ _ le]) (use ae he in simp_all)
  from candidate_of_ok [OF this assms(2) c] show ?thesis .
qed

lemma url_at_ok:
  "url_at (str_bytes s) start = Some (Some x) \<Longrightarrow> is_char_boundary s start \<Longrightarrow>
     candidate_ok s x \<and> sp_start (uc_url x) = start"
  using parse_http_url_ok [of s start x] parse_domain_url_ok [of s start x]
  by (auto simp: url_at_def bind_eq_Some_conv split: option.splits)

section \<open>The scan for links\<close>

definition url_start :: "unicode \<Rightarrow> rstr \<Rightarrow> nat \<Rightarrow> bool" where
  "url_start u input i \<longleftrightarrow> i < byte_len input \<and> is_char_boundary input i \<and> is_start_boundary u input i = Some True"

text \<open>
  The links of a text from a byte on: each is well formed, starts at a boundary and is what the
  parser finds there; they are in order and disjoint, and no place outside them at which a link
  may start has one.
\<close>

definition links_from :: "unicode \<Rightarrow> rstr \<Rightarrow> nat \<Rightarrow> url_candidate list \<Rightarrow> bool" where
  "links_from u input cursor cs \<longleftrightarrow>
     (\<forall>c \<in> set cs. candidate_ok input c \<and> cursor \<le> sp_start (uc_url c)
        \<and> url_start u input (sp_start (uc_url c))
        \<and> url_at (str_bytes input) (sp_start (uc_url c)) = Some (Some c))
     \<and> sorted_wrt (\<lambda>c d. sp_end (uc_url c) \<le> sp_start (uc_url d)) cs
     \<and> (\<forall>i \<ge> cursor. url_start u input i \<and> \<not> covers (map uc_url cs) i \<longrightarrow> url_at (str_bytes input) i = Some None)"

lemma links_from_skip:
  assumes "links_from u input (cursor + 1) cs" "url_start u input cursor \<longrightarrow> url_at (str_bytes input) cursor = Some None"
  shows "links_from u input cursor cs"
  using assms unfolding links_from_def by (metis Suc_eq_plus1 Suc_leD le_neq_implies_less Suc_leI)

lemma links_from_Cons:
  assumes "links_from u input (sp_end (uc_url c)) cs" "url_start u input cursor"
    and "url_at (str_bytes input) cursor = Some (Some c)"
  shows "links_from u input cursor (c # cs)"
proof -
  have c: "candidate_ok input c" "sp_start (uc_url c) = cursor" "cursor < sp_end (uc_url c)"
    using url_at_ok [OF assms(3)] url_at_span [OF assms(3)] assms(2) by (auto simp: url_start_def)
  then show ?thesis
    using assms unfolding links_from_def by (auto simp: not_less)
qed

lemma urls_loop_spec:
  "\<exists>cs. urls_loop u input cursor acc = Some (acc @ cs) \<and> links_from u input cursor cs"
proof (induction u input cursor acc rule: urls_loop.induct)
  case (1 u input cursor acc)
  let ?r = "urls_loop u input cursor acc"
  note simps = urls_loop.simps [of u input cursor acc]
  show ?case
  proof (cases "cursor < byte_len input")
    case False
    then have "links_from u input cursor []" by (simp add: links_from_def url_start_def)
    with False show ?thesis by (simp add: simps)
  next
    case len: True
    show ?thesis
    proof (cases "is_char_boundary input cursor")
      case False
      from "1.IH"(1) [OF len False] obtain cs where
        r: "urls_loop u input (cursor + 1) acc = Some (acc @ cs)" "links_from u input (cursor + 1) cs" by blast
      from links_from_skip [OF r(2)] False have "links_from u input cursor cs" by (simp add: url_start_def)
      with len False r(1) show ?thesis by (simp add: simps)
    next
      case cb: True
      from is_start_boundary_Some [OF cb, of u] obtain b where b: "is_start_boundary u input cursor = Some b" by blast
      have ncb: "\<not> \<not> is_char_boundary input cursor" using cb by simp
      show ?thesis
      proof (cases b)
        case False
        from "1.IH"(4) [OF len ncb b] False obtain cs where
          r: "urls_loop u input (cursor + 1) acc = Some (acc @ cs)" "links_from u input (cursor + 1) cs" by blast
        from links_from_skip [OF r(2)] b False have "links_from u input cursor cs" by (simp add: url_start_def)
        with len cb b False r(1) show ?thesis by (simp add: simps)
      next
        case bt: True
        have s: "url_start u input cursor" using len cb b bt by (simp add: url_start_def)
        from url_at_total [of cursor "str_bytes input"] len
        obtain found where f: "url_at (str_bytes input) cursor = Some found" by auto
        show ?thesis
        proof (cases found)
          case None
          from "1.IH"(2) [OF len ncb b] bt f None obtain cs where
            r: "urls_loop u input (cursor + 1) acc = Some (acc @ cs)" "links_from u input (cursor + 1) cs" by auto
          from links_from_skip [OF r(2)] f None have "links_from u input cursor cs" by simp
          with len cb b bt f None r(1) show ?thesis by (simp add: simps)
        next
          case (Some c)
          from "1.IH"(3) [OF len ncb b] bt f Some obtain cs where
            r: "urls_loop u input (sp_end (uc_url c)) (acc @ [c]) = Some (acc @ c # cs)"
              "links_from u input (sp_end (uc_url c)) cs" by auto
          from links_from_Cons [OF r(2) s] f Some r(1) len cb b bt show ?thesis
            by (intro exI [of _ "c # cs"]) (simp add: simps)
        qed
      qed
    qed
  qed
qed

section \<open>Mail addresses and initials\<close>

lemma email_at_ok:
  assumes "i < byte_len s"
  shows "\<exists>x. email_at u s i = Some x \<and> (\<forall>y. x = Some y \<longrightarrow> valid_span s y)"
proof -
  let ?bs = "str_bytes s"
  define l where "l = scan_backward is_email_local_byte ?bs 0 i"
  define d where "d = scan_forward is_email_domain_byte ?bs (length ?bs) (i + 1)"
  define e where "e = trim_terminal_punctuation ?bs l d"
  show ?thesis
  proof (cases "?bs ! i \<noteq> ch (CHR ''@'') \<or> i = 0 \<or> length ?bs \<le> i + 1 \<or> l = i")
    case True
    then show ?thesis by (auto simp: email_at_def Let_def l_def)
  next
    case False
    then have at: "?bs ! i = 64" and n: "i \<noteq> 0" "i + 1 < length ?bs" "l \<noteq> i" by auto
    have li: "l < i" using n(3) scan_backward_le [of is_email_local_byte ?bs 0 i] by (simp add: l_def)
    have "is_email_local_byte (?bs ! l)"
      unfolding l_def by (rule scan_backward_all [OF order_refl]) (use li l_def in simp)
    then have lb: "is_char_boundary s l"
      using ascii_byte_boundary ascii_classes(4) li assms by (meson less_trans)
    from is_start_boundary_Some [OF this] obtain b where b: "is_start_boundary u s l = Some b" by blast
    have d: "i + 1 \<le> d" "d \<le> length ?bs"
      using n scan_forward_ge [of "i + 1"] scan_forward_le [of "i + 1" "length ?bs"] by (simp_all add: d_def)
    have "?bs ! (d - 1) < 128"
    proof (cases "d = i + 1")
      case True
      then show ?thesis using at by simp
    next
      case False
      have "is_email_domain_byte (?bs ! (d - 1))"
        by (rule scan_forward_all [of "i + 1" "d - 1" _ _ "length ?bs"]) (use False d d_def in auto)
      then show ?thesis by (rule ascii_classes)
    qed
    then have db: "is_char_boundary s d" using boundary_after_ascii [of d s] d by simp
    have eb: "is_char_boundary s e" unfolding e_def by (rule trim_boundary [OF db])
    have "i + 1 < e \<longrightarrow> valid_span s (Span l e)" using lb eb li by (simp add: valid_span_def)
    moreover have "email_at u s i = (if b then Some (if \<not> valid_email_domain (take (d - (i + 1)) (drop (i + 1) ?bs)) then None
        else if i + 1 < e then Some (Span l e) else None) else Some None)"
    proof -
      have sl: "byte_slice ?bs (i + 1) d = Some (take (d - (i + 1)) (drop (i + 1) ?bs))" using d by simp
      show ?thesis
        using False b unfolding email_at_def Let_def l_def [symmetric] d_def [symmetric] e_def [symmetric] sl by auto
    qed
    ultimately show ?thesis by auto
  qed
qed

lemma extract_email_spans_ok:
  "\<exists>xs. extract_email_spans u s = Some xs \<and> (\<forall>x \<in> set xs. valid_span s x)"
proof -
  define g where "g = (\<lambda>i. the (email_at u s i))"
  have g: "email_at u s i = Some (g i) \<and> (\<forall>y. g i = Some y \<longrightarrow> valid_span s y)" if "i < byte_len s" for i
    using email_at_ok [OF that, of u] by (auto simp: g_def)
  then have "map_panic (email_at u s) [0..<byte_len s] = Some (map g [0..<byte_len s])"
    by (intro map_panic_Some) simp
  then have "extract_email_spans u s = Some (List.map_filter (\<lambda>x. x) (map g [0..<byte_len s]))"
    by (simp add: extract_email_spans_def)
  moreover have "\<forall>x \<in> set (List.map_filter (\<lambda>x. x) (map g [0..<byte_len s])). valid_span s x"
    using g by (fastforce simp: List.map_filter_def)
  ultimately show ?thesis by blast
qed

lemma initials_loop_ok:
  "0 < e \<Longrightarrow> e \<le> length bs \<Longrightarrow> bs ! (e - 1) < 128 \<Longrightarrow>
     snd (initials_loop bs n e) \<le> length bs \<and> bs ! (snd (initials_loop bs n e) - 1) < 128"
proof (induction bs n e rule: initials_loop.induct)
  case (1 bs n e)
  then show ?case
    using ascii_classes(2) [of "bs ! (e + 1)"] by (simp add: initials_loop.simps [of bs n e])
qed

lemma dotted_span_ok:
  assumes "cursor < byte_len s" "is_ascii_alphabetic (str_bytes s ! cursor)"
  shows "valid_span s (Span cursor (snd (initials_loop (str_bytes s) 1 (cursor + 1))))"
proof -
  let ?e = "snd (initials_loop (str_bytes s) 1 (cursor + 1))"
  have a: "str_bytes s ! cursor < 128" using assms(2) by (rule ascii_classes)
  have e: "?e \<le> byte_len s" "str_bytes s ! (?e - 1) < 128"
    using initials_loop_ok [of "cursor + 1" "str_bytes s" 1] assms(1) a by simp_all
  have g: "cursor < ?e" using initials_loop_ge [of "cursor + 1" "str_bytes s" 1] by simp
  have "is_char_boundary s ?e" using boundary_after_ascii [of ?e s] e g by simp
  with ascii_byte_boundary [OF assms(1) a] g show ?thesis by (simp add: valid_span_def)
qed

lemma dotted_loop_ok:
  "\<forall>x \<in> set acc. valid_span s x \<Longrightarrow>
     \<exists>xs. dotted_loop u s cursor acc = Some xs \<and> (\<forall>x \<in> set xs. valid_span s x)"
proof (induction u s cursor acc rule: dotted_loop.induct)
  case (1 u s cursor acc)
  note simps = dotted_loop.simps [of u s cursor acc]
  show ?case
  proof (cases "cursor < byte_len s \<and> is_ascii_alphabetic (str_bytes s ! cursor) \<and> is_char_boundary s cursor")
    case False
    show ?thesis
    proof (cases "cursor < byte_len s")
      case True
      with False have c: "\<not> is_ascii_alphabetic (str_bytes s ! cursor) \<or> \<not> is_char_boundary s cursor" by blast
      from "1.IH"(1) [OF True c "1.prems"] True c show ?thesis by (simp add: simps)
    qed (use "1.prems" in \<open>simp add: simps\<close>)
  next
    case True
    then have len: "cursor < byte_len s" and al: "is_ascii_alphabetic (str_bytes s ! cursor)"
      and cb: "is_char_boundary s cursor" by simp_all
    have nc: "\<not> (\<not> is_ascii_alphabetic (str_bytes s ! cursor) \<or> \<not> is_char_boundary s cursor)" using al cb by simp
    from is_start_boundary_Some [OF cb, of u] obtain b where b: "is_start_boundary u s cursor = Some b" by blast
    let ?i = "initials_loop (str_bytes s) 1 (cursor + 1)"
    have new: "\<forall>x \<in> set (acc @ [Span cursor (snd ?i)]). valid_span s x"
      using "1.prems" dotted_span_ok [OF len al] by simp
    show ?thesis
    proof (cases "b \<and> 4 \<le> fst ?i")
      case True
      then have t: "dotted_loop u s cursor acc = dotted_loop u s (snd ?i) (acc @ [Span cursor (snd ?i)])"
        using True len nc b by (simp add: simps)
      have "\<exists>xs. dotted_loop u s (snd ?i) (acc @ [Span cursor (snd ?i)]) = Some xs \<and> (\<forall>x \<in> set xs. valid_span s x)"
        using "1.IH"(2) [OF len nc b] True new by simp
      then show ?thesis unfolding t .
    next
      case False
      then have t: "dotted_loop u s cursor acc = dotted_loop u s (cursor + 1) acc"
        using len nc b by (auto simp add: simps split: bool.splits)
      have "\<exists>xs. dotted_loop u s (cursor + 1) acc = Some xs \<and> (\<forall>x \<in> set xs. valid_span s x)"
        using "1.IH"(3,4) [OF len nc b] False "1.prems" by (cases b) simp_all
      then show ?thesis unfolding t .
    qed
  qed
qed

section \<open>The analysis\<close>

lemma fold_analyze_surfaces:
  assumes "sorted_wrt (<) ss" "bt_wf n" "bt_wf sec"
  shows "bt_wf (fst (fold (analyze_surface u p ds) ss (n, sec)))
    \<and> bt_wf (snd (fold (analyze_surface u p ds) ss (n, sec)))
    \<and> map_of (fst (fold (analyze_surface u p ds) ss (n, sec))) s =
        (if s \<in> set ss \<and> (if s = UrlDomain then ds \<noteq> [] else presentation_surface p s \<noteq> [])
         then Some (if s = UrlDomain then from_original_spans u (pn_message_content p) ds
                    else normalized_text_new u (presentation_surface p s))
         else map_of n s)
    \<and> map_of (snd (fold (analyze_surface u p ds) ss (n, sec))) s =
        (if s \<in> set ss \<and> s \<noteq> UrlDomain \<and> presentation_surface p s \<noteq> []
         then Some (security_normalized_text_new u (presentation_surface p s)) else map_of sec s)"
  using assms
proof (induction ss arbitrary: n sec)
  case (Cons x ss)
  obtain n' sec' where x: "analyze_surface u p ds x (n, sec) = (n', sec')" by fastforce
  have wf: "bt_wf n'" "bt_wf sec'"
    using x Cons.prems by (auto simp: analyze_surface_def Let_def split: if_splits)
  have nx: "x \<notin> set ss" using Cons.prems(1) by auto
  have m: "map_of n' s = (if s = x \<and> (if s = UrlDomain then ds \<noteq> [] else presentation_surface p s \<noteq> [])
      then Some (if s = UrlDomain then from_original_spans u (pn_message_content p) ds
                 else normalized_text_new u (presentation_surface p s)) else map_of n s)"
    "map_of sec' s = (if s = x \<and> s \<noteq> UrlDomain \<and> presentation_surface p s \<noteq> []
      then Some (security_normalized_text_new u (presentation_surface p s)) else map_of sec s)"
    using x Cons.prems by (auto simp: analyze_surface_def Let_def split: if_splits)
  have "sorted_wrt (<) ss" using Cons.prems(1) by simp
  from Cons.IH [OF this wf] show ?case using nx m by (auto simp: x)
qed simp

definition excluded_ok :: "rstr \<Rightarrow> byte_span list \<Rightarrow> byte_span list \<Rightarrow> bool" where
  "excluded_ok input urls excluded \<longleftrightarrow>
     separated excluded \<and> (\<forall>x \<in> set excluded. valid_span input x) \<and> (\<forall>i. covers urls i \<longrightarrow> covers excluded i)"

text \<open>The views a surface must have: none when its text is empty.\<close>

definition expected_normalized ::
  "unicode \<Rightarrow> presentation \<Rightarrow> surface_span list \<Rightarrow> surface \<Rightarrow> normalized_text option" where
  "expected_normalized u p domains s =
     (if s = UrlDomain
      then if domains = [] then None else Some (from_original_spans u (pn_message_content p) domains)
      else if presentation_surface p s = [] then None
      else Some (normalized_text_new u (presentation_surface p s)))"

definition expected_security :: "unicode \<Rightarrow> presentation \<Rightarrow> surface \<Rightarrow> security_normalized_text option" where
  "expected_security u p s =
     (if s = UrlDomain \<or> presentation_surface p s = [] then None
      else Some (security_normalized_text_new u (presentation_surface p s)))"

lemma analyzed_content_new_ok:
  "\<exists>ac cs. analyzed_content_new u p = Some ac \<and> links_from u (pn_message_content p) 0 cs
     \<and> ac_url_spans ac = map uc_url cs
     \<and> excluded_ok (pn_message_content p) (ac_url_spans ac) (ac_security_excluded_spans ac)
     \<and> bt_wf (ac_normalized ac) \<and> bt_wf (ac_security ac)
     \<and> map_of (ac_normalized ac) = expected_normalized u p (map uc_domain cs)
     \<and> map_of (ac_security ac) = expected_security u p"
proof -
  let ?m = "pn_message_content p"
  from urls_loop_spec [of u ?m 0 "[]"] obtain cs where cs: "urls_loop u ?m 0 [] = Some cs" "links_from u ?m 0 cs" by auto
  from extract_email_spans_ok [of u ?m] obtain es where es: "extract_email_spans u ?m = Some es"
    "\<forall>x \<in> set es. valid_span ?m x" by blast
  from dotted_loop_ok [of "[]" ?m u 0] obtain ds where ds: "extract_dotted_initial_spans u ?m = Some ds"
    "\<forall>x \<in> set ds. valid_span ?m x" by (auto simp: extract_dotted_initial_spans_def)
  let ?all = "map uc_url cs @ es @ ds"
  let ?views = "fold (analyze_surface u p (map uc_domain cs)) surface_ALL ([], [])"
  have v: "\<forall>x \<in> set ?all. valid_span ?m x"
    using cs(2) es(2) ds(2) by (auto simp: links_from_def candidate_ok_def Let_def)
  have m: "merge_sorted_spans (sort ?all) = merge_spans ?all"
    by (simp add: merge_sorted_spans_def merge_spans_def)
  have "excluded_ok ?m (map uc_url cs) (merge_spans ?all)"
    using valid_span_merge [OF v] by (simp add: excluded_ok_def merge_spans_separated)
  moreover define ac where "ac = \<lparr>ac_normalized = fst ?views, ac_security = snd ?views,
      ac_security_excluded_spans = merge_spans ?all, ac_url_spans = map uc_url cs\<rparr>"
  have "analyzed_content_new u p = Some ac"
    by (simp add: analyzed_content_new_def extract_urls_def cs(1) es(1) ds(1) m Let_def ac_def)
  moreover have fields: "ac_normalized ac = fst ?views" "ac_security ac = snd ?views"
    "ac_security_excluded_spans ac = merge_spans ?all" "ac_url_spans ac = map uc_url cs"
    by (simp_all add: ac_def)
  moreover note fold_analyze_surfaces [OF surface_ALL_sorted, of "[]" "[]" u p "map uc_domain cs"] cs(2)
  ultimately show ?thesis
    unfolding surface_ALL_complete
    by (intro exI [of _ ac] exI [of _ cs]) (simp add: fun_eq_iff expected_normalized_def expected_security_def)
qed

text \<open>
  The analysis of any presentation returns, without a slice out of range or
  off a character boundary. Its links are in order, disjoint, on character boundaries and each
  starts where a link may start; the domain of each lies inside it and has the shape of a domain;
  and no place outside them at which a link may start has one. The ranges kept out of the
  security view are disjoint, on character boundaries and cover every link.
\<close>

theorem analysis_links:
  "\<exists>ac cs. analyzed_content_new u p = Some ac \<and> ac_url_spans ac = map uc_url cs
     \<and> links_from u (pn_message_content p) 0 cs
     \<and> excluded_ok (pn_message_content p) (ac_url_spans ac) (ac_security_excluded_spans ac)"
  using analyzed_content_new_ok [of u p] by blast

text \<open>
  The analysed surfaces are exactly the non-empty ones: every surface but
  the link domains has its canonical and its security view when its text is not empty, and the
  domain surface has the canonical view of the extracted domains when there are links.
\<close>

theorem analysis_surfaces:
  "case analyzed_content_new u p of
     None \<Rightarrow> False
   | Some ac \<Rightarrow>
       bt_wf (ac_normalized ac) \<and> bt_wf (ac_security ac)
       \<and> (map_of (ac_normalized ac) UrlDomain = None) = (ac_url_spans ac = [])
       \<and> map_of (ac_security ac) UrlDomain = None
       \<and> list_all (\<lambda>s.
            map_of (ac_normalized ac) s =
              (if presentation_surface p s = [] then None
               else Some (normalized_text_new u (presentation_surface p s)))
            \<and> map_of (ac_security ac) s =
              (if presentation_surface p s = [] then None
               else Some (security_normalized_text_new u (presentation_surface p s))))
           (MessageContent # names_of)"
  using analyzed_content_new_ok [of u p]
  by (auto simp: names_of_def expected_normalized_def expected_security_def)

end
