(* ===== verification/Compiler.thy ===== *)
theory Compiler
  imports Matcher Analysis
begin

text \<open>
  Compiled policies (\<open>src/content_policy/compiler.rs\<close>): one matcher per surface, evaluation of
  an analysed message, the profile fingerprint that groups destinations, and the re-attribution of
  the matches of one policy to another of the same fingerprint. The rules of a compiled policy are
  a \<open>HashMap\<close>, here the list of its entries in some order. SHA-256 is a parameter; an option
  around a result is a panic of the matcher, which the lemmas exclude.
\<close>

section \<open>The snapshot\<close>

record surface_matcher =
  sm_matcher :: compiled_matcher
  sm_detailed_rules :: "uuid list"

record compiled_policy_snapshot =
  cs_policy_id :: uuid
  cs_scope :: policy_scope
  cs_version :: u64
  cs_profile_fingerprint :: "byte list"
  cs_rules :: "(uuid, policy_rule) hash_map"
  cs_rule_names :: "(rstr, uuid) hash_map"
  cs_surfaces :: "(surface, surface_matcher) btree_map"

datatype policy_match_error =
    MatcherError matcher_build_error
  | UnknownRule uuid

definition rule_needs_match_details :: "policy_rule \<Rightarrow> bool" where
  "rule_needs_match_details r \<longleftrightarrow> (\<exists>a \<in> set (pr_actions r). pa_type a = CensorMatch \<or> pa_type a = Log)"

section \<open>The profile fingerprint\<close>

definition hash_field :: "byte list \<Rightarrow> byte list" where
  "hash_field v = be_bytes (length v) @ v"

definition str_or_default :: "rstr option \<Rightarrow> rstr" where
  "str_or_default x = (case x of Some s \<Rightarrow> s | None \<Rightarrow> [])"

definition pattern_hash_input :: "unicode \<Rightarrow> rule_pattern \<Rightarrow> byte list" where
  "pattern_hash_input u p =
     pattern_type_rank (rp_type p) # hash_field (str_bytes (normalize_pattern u (rp_pattern p)))"

definition action_hash_input :: "policy_action \<Rightarrow> byte list" where
  "action_hash_input a =
     action_type_rank (pa_type a)
     # be_bytes (case pa_duration a of Some d \<Rightarrow> unat d | None \<Rightarrow> 0)
     @ hash_field (str_bytes (str_or_default (pa_replacement a)))"

definition rule_hash_input :: "unicode \<Rightarrow> policy_rule \<Rightarrow> byte list" where
  "rule_hash_input u r =
     hash_field (str_bytes (pr_name r)) @ hash_field (str_bytes (pr_description r))
     @ hash_field (str_bytes (str_or_default (pr_custom_reason r)))
     @ map surface_rank (pr_surfaces r)
     @ concat (map (pattern_hash_input u)
         (sort_key (\<lambda>p. (pattern_type_rank (rp_type p), normalize_pattern u (rp_pattern p), rp_id p)) (pr_patterns r)))
     @ concat (map action_hash_input (sort_key (\<lambda>a. (pa_type a, pa_id a)) (pr_actions r)))"

definition profile_fingerprint_input :: "unicode \<Rightarrow> content_policy \<Rightarrow> rstr option \<Rightarrow> byte list" where
  "profile_fingerprint_input u p version =
     (case version of Some v \<Rightarrow> hash_field (str_bytes v) | None \<Rightarrow> [])
     @ concat (map (rule_hash_input u)
         (sort_key (\<lambda>r. (pr_name r, pr_id r)) (filter pr_enabled (cp_rules p))))"

definition profile_fingerprint :: "unicode \<Rightarrow> (byte list \<Rightarrow> byte list) \<Rightarrow> content_policy \<Rightarrow> byte list" where
  "profile_fingerprint u sha256 p =
     sha256 (profile_fingerprint_input u p (Some NORMALIZATION_SECURITY_VERSION))"

section \<open>Compilation\<close>

definition rules_by_id :: "content_policy \<Rightarrow> (uuid, policy_rule) hash_map" where
  "rules_by_id p = fold (\<lambda>r. hm_insert (pr_id r) r) (filter pr_enabled (cp_rules p)) []"

definition surface_definitions :: "policy_rule list \<Rightarrow> pattern_definition list" where
  "surface_definitions rules =
     concat (map (\<lambda>r. map (from_rule_pattern (pr_id r)) (pr_patterns r)) rules)"

definition compile_surface ::
  "unicode \<Rightarrow> automaton \<Rightarrow> bool \<Rightarrow> (uuid, policy_rule) hash_map \<Rightarrow> surface
     \<Rightarrow> policy_match_error + (surface \<times> surface_matcher) option" where
  "compile_surface u ac all_details rules s =
     (let surface_rules = filter (\<lambda>r. s \<in> set (pr_surfaces r)) (map snd rules)
      in if surface_rules = [] then Inr None
         else res_bind (map_err MatcherError (matcher_compile u ac (surface_definitions surface_rules))) (\<lambda>m.
           Inr (Some (s, \<lparr>sm_matcher = m,
             sm_detailed_rules =
               map pr_id (filter (\<lambda>r. all_details \<or> rule_needs_match_details r) surface_rules)\<rparr>))))"

fun compile_surfaces ::
  "unicode \<Rightarrow> automaton \<Rightarrow> bool \<Rightarrow> (uuid, policy_rule) hash_map \<Rightarrow> surface list
     \<Rightarrow> (surface, surface_matcher) btree_map \<Rightarrow> policy_match_error + (surface, surface_matcher) btree_map" where
  "compile_surfaces u ac all_details rules [] m = Inr m"
| "compile_surfaces u ac all_details rules (s # ss) m =
     res_bind (compile_surface u ac all_details rules s) (\<lambda>x.
       compile_surfaces u ac all_details rules ss
         (case x of None \<Rightarrow> m | Some (k, v) \<Rightarrow> bt_insert k v m))"

definition compile_with_match_details ::
  "unicode \<Rightarrow> (byte list \<Rightarrow> byte list) \<Rightarrow> automaton \<Rightarrow> content_policy \<Rightarrow> bool
     \<Rightarrow> policy_match_error + compiled_policy_snapshot" where
  "compile_with_match_details u sha256 ac p all_details =
     (let rules = rules_by_id p;
          names = fold (\<lambda>r. hm_insert (pr_name r) (pr_id r)) (map snd rules) []
      in res_bind (compile_surfaces u ac all_details rules surface_ALL []) (\<lambda>surfaces.
         Inr \<lparr>cs_policy_id = cp_id p, cs_scope = cp_scope p, cs_version = cp_version p,
              cs_profile_fingerprint = profile_fingerprint u sha256 p,
              cs_rules = rules, cs_rule_names = names, cs_surfaces = surfaces\<rparr>))"

definition snapshot_compile ::
  "unicode \<Rightarrow> (byte list \<Rightarrow> byte list) \<Rightarrow> automaton \<Rightarrow> content_policy
     \<Rightarrow> policy_match_error + compiled_policy_snapshot" where
  "snapshot_compile u sha256 ac p = compile_with_match_details u sha256 ac p False"

definition compile_diagnostic ::
  "unicode \<Rightarrow> (byte list \<Rightarrow> byte list) \<Rightarrow> automaton \<Rightarrow> content_policy
     \<Rightarrow> policy_match_error + compiled_policy_snapshot" where
  "compile_diagnostic u sha256 ac p = compile_with_match_details u sha256 ac p True"

definition snapshot_is_empty :: "compiled_policy_snapshot \<Rightarrow> bool" where
  "snapshot_is_empty s \<longleftrightarrow> cs_rules s = []"

section \<open>Evaluation\<close>

text \<open>The trait \<open>SurfaceInputs\<close> as the record of its methods, and its two implementations.\<close>

record surface_inputs =
  si_normalized :: "(surface, normalized_text) btree_map"
  si_security :: "(surface, security_normalized_text) btree_map option"
  si_security_excluded_spans :: "byte_span list"

definition canonical_inputs :: "(surface, normalized_text) btree_map \<Rightarrow> surface_inputs" where
  "canonical_inputs m = \<lparr>si_normalized = m, si_security = None, si_security_excluded_spans = []\<rparr>"

definition analyzed_inputs :: "analyzed_content \<Rightarrow> surface_inputs" where
  "analyzed_inputs c =
     \<lparr>si_normalized = ac_normalized c, si_security = Some (ac_security c),
      si_security_excluded_spans = ac_security_excluded_spans c\<rparr>"

definition matched_surface_of ::
  "surface \<Rightarrow> uuid list \<Rightarrow> match_report option \<Rightarrow> rule_trigger \<Rightarrow> uuid \<times> matched_surface" where
  "matched_surface_of s detailed_rules detailed t =
     (let by_rule = (case detailed of
            None \<Rightarrow> []
          | Some r \<Rightarrow> fold (\<lambda>t. hm_insert (rt_rule_id t) (rt_matches t)) (mr_triggers r) []);
          details = (if rt_rule_id t \<in> set detailed_rules
            then (case map_of by_rule (rt_rule_id t) of None \<Rightarrow> [] | Some ms \<Rightarrow> ms) else [])
      in (rt_rule_id t,
          \<lparr>ms_surface = s,
           ms_spans = remdups_adj (sort (map pm_original details)),
           ms_pattern_ids = remdups_adj (sort (map pm_pattern_id details))\<rparr>))"

definition evaluate_surface ::
  "unicode \<Rightarrow> automaton \<Rightarrow> surface_inputs \<Rightarrow> surface \<times> surface_matcher
     \<Rightarrow> (uuid \<times> matched_surface) list option" where
  "evaluate_surface u ac inputs e = (case e of (s, sm) \<Rightarrow>
     (case map_of (si_normalized inputs) s of
        None \<Rightarrow> Some []
      | Some t \<Rightarrow>
          let security = Option.bind (si_security inputs) (\<lambda>m. map_of m s);
              excluded = (if s = MessageContent then si_security_excluded_spans inputs else []);
              run = match_normalized_with_security u ac (sm_matcher sm) t security excluded
          in Option.bind (run NoDetails) (\<lambda>fast.
               if match_report_is_empty fast then Some []
               else map_option
                 (\<lambda>detailed. map (matched_surface_of s (sm_detailed_rules sm) detailed) (mr_triggers fast))
                 (if \<exists>r \<in> set (rule_ids fast). r \<in> set (sm_detailed_rules sm)
                  then map_option Some (run PatternsAndSpans) else Some None))))"

definition collect_surface ::
  "unicode \<Rightarrow> automaton \<Rightarrow> surface_inputs \<Rightarrow> surface \<times> surface_matcher
     \<Rightarrow> (uuid, matched_surface list) btree_map \<Rightarrow> (uuid, matched_surface list) btree_map option" where
  "collect_surface u ac inputs e matched =
     map_option (\<lambda>entries. fold (\<lambda>(r, ms). bt_extend r [ms]) entries matched)
       (evaluate_surface u ac inputs e)"

definition matched_rule_of ::
  "compiled_policy_snapshot \<Rightarrow> policy_rule \<Rightarrow> uuid \<Rightarrow> matched_surface list \<Rightarrow> matched_rule" where
  "matched_rule_of s rule rule_id surfaces =
     \<lparr>mr_policy_id = cs_policy_id s, mr_policy_version = cs_version s, mr_scope = cs_scope s,
      mr_rule_id = rule_id, mr_rule_name = pr_name rule, mr_custom_reason = pr_custom_reason rule,
      mr_surfaces = surfaces, mr_actions = pr_actions rule\<rparr>"

definition attribute_match ::
  "compiled_policy_snapshot \<Rightarrow> uuid \<times> matched_surface list \<Rightarrow> policy_match_error + matched_rule" where
  "attribute_match s e = (case e of (rule_id, surfaces) \<Rightarrow>
     res_bind (ok_or (UnknownRule rule_id) (map_of (cs_rules s) rule_id)) (\<lambda>rule.
       Inr (matched_rule_of s rule rule_id (sort_key ms_surface surfaces))))"

definition evaluate_normalized ::
  "unicode \<Rightarrow> automaton \<Rightarrow> compiled_policy_snapshot \<Rightarrow> surface_inputs
     \<Rightarrow> (policy_match_error + matched_rule list) option" where
  "evaluate_normalized u ac s inputs =
     map_option (try_map (attribute_match s)) (fold_panic (collect_surface u ac inputs) (cs_surfaces s) [])"

definition remap_match :: "compiled_policy_snapshot \<Rightarrow> matched_rule \<Rightarrow> policy_match_error + matched_rule" where
  "remap_match s m =
     res_bind (ok_or (UnknownRule (mr_rule_id m)) (map_of (cs_rule_names s) (mr_rule_name m))) (\<lambda>rule_id.
     res_bind (ok_or (UnknownRule rule_id) (map_of (cs_rules s) rule_id)) (\<lambda>rule.
       Inr (matched_rule_of s rule rule_id (mr_surfaces m))))"

definition remap_equivalent_matches ::
  "compiled_policy_snapshot \<Rightarrow> matched_rule list \<Rightarrow> policy_match_error + matched_rule list" where
  "remap_equivalent_matches s representative = try_map (remap_match s) representative"

section \<open>Maps collected from a list\<close>

lemma hm_collect_wf: "hm_wf m \<Longrightarrow> hm_wf (fold (\<lambda>x. hm_insert (k x) (v x)) xs m)"
  by (induction xs arbitrary: m) simp_all

lemma hm_collect_dom: "dom (map_of (fold (\<lambda>x. hm_insert (k x) (v x)) xs m)) = dom (map_of m) \<union> k ` set xs"
  by (induction xs arbitrary: m) auto

lemma hm_collect_Some:
  "map_of (fold (\<lambda>x. hm_insert (k x) (v x)) xs m) i = Some y \<Longrightarrow>
     (\<exists>x \<in> set xs. k x = i \<and> v x = y) \<or> map_of m i = Some y"
proof (induction xs arbitrary: m)
  case (Cons x xs)
  from Cons.IH [of "hm_insert (k x) (v x) m"] Cons.prems show ?case by (auto split: if_splits)
qed simp

lemma hm_collect_distinct:
  assumes "distinct (map k xs)"
  shows "map_of (fold (\<lambda>x. hm_insert (k x) (v x)) xs []) i = Some y \<longleftrightarrow> (\<exists>x \<in> set xs. k x = i \<and> v x = y)"
proof
  assume "map_of (fold (\<lambda>x. hm_insert (k x) (v x)) xs []) i = Some y"
  from hm_collect_Some [OF this] show "\<exists>x \<in> set xs. k x = i \<and> v x = y" by simp
next
  assume "\<exists>x \<in> set xs. k x = i \<and> v x = y"
  then obtain x where x: "x \<in> set xs" "k x = i" "v x = y" by blast
  then have "i \<in> dom (map_of (fold (\<lambda>x. hm_insert (k x) (v x)) xs []))" by (auto simp: hm_collect_dom)
  then obtain z where z: "map_of (fold (\<lambda>x. hm_insert (k x) (v x)) xs []) i = Some z" by blast
  from hm_collect_Some [OF this] obtain w where "w \<in> set xs" "k w = i" "v w = z" by auto
  with x assms have "z = y" by (auto simp: distinct_map dest: inj_onD)
  with z show "map_of (fold (\<lambda>x. hm_insert (k x) (v x)) xs []) i = Some y" by simp
qed

section \<open>What compilation establishes\<close>

abbreviation live_rules :: "content_policy \<Rightarrow> policy_rule list" where
  "live_rules p \<equiv> filter pr_enabled (cp_rules p)"

lemma rules_by_id_wf: "hm_wf (rules_by_id p)"
  unfolding rules_by_id_def by (rule hm_collect_wf) simp

lemma rules_by_id_iff:
  "distinct (map pr_id (live_rules p)) \<Longrightarrow>
     map_of (rules_by_id p) i = Some r \<longleftrightarrow> r \<in> set (live_rules p) \<and> pr_id r = i"
  unfolding rules_by_id_def using hm_collect_distinct [of pr_id "live_rules p" "\<lambda>r. r" i r] by auto

lemma rules_by_id_values:
  assumes "distinct (map pr_id (live_rules p))"
  shows "snd ` set (rules_by_id p) = set (live_rules p)"
proof -
  have "(i, r) \<in> set (rules_by_id p) \<longleftrightarrow> r \<in> set (live_rules p) \<and> pr_id r = i" for i r
    using hm_wf_mem_iff [OF rules_by_id_wf] rules_by_id_iff [OF assms] by blast
  then show ?thesis by force
qed

definition surface_definition_set :: "policy_rule set \<Rightarrow> surface \<Rightarrow> pattern_definition set" where
  "surface_definition_set R s =
     {from_rule_pattern (pr_id r) q | r q. r \<in> R \<and> s \<in> set (pr_surfaces r) \<and> q \<in> set (pr_patterns r)}"

lemma compile_surface_ok:
  assumes "compile_surface u ac d rules s = Inr x"
  shows "case x of
     None \<Rightarrow> surface_definition_set (snd ` set rules) s = {}
   | Some (k, sm) \<Rightarrow> k = s \<and> (\<exists>defs. matcher_compile u ac defs = Inr (sm_matcher sm)
       \<and> set defs = surface_definition_set (snd ` set rules) s)"
proof -
  let ?rs = "filter (\<lambda>r. s \<in> set (pr_surfaces r)) (map snd rules)"
  have defs: "set (surface_definitions ?rs) = surface_definition_set (snd ` set rules) s"
    by (force simp: surface_definitions_def surface_definition_set_def)
  show ?thesis
  proof (cases "?rs = []")
    case True
    then have "x = None" using assms by (simp add: compile_surface_def)
    moreover have "surface_definition_set (snd ` set rules) s = {}"
      using True defs by (simp add: surface_definitions_def)
    ultimately show ?thesis by simp
  next
    case False
    then obtain m where "matcher_compile u ac (surface_definitions ?rs) = Inr m"
      "x = Some (s, \<lparr>sm_matcher = m,
         sm_detailed_rules = map pr_id (filter (\<lambda>r. d \<or> rule_needs_match_details r) ?rs)\<rparr>)"
      using assms unfolding compile_surface_def Let_def by (simp only: if_False) auto
    with defs show ?thesis by auto
  qed
qed

text \<open>The matchers of a compiled policy are those of the rules of each surface.\<close>

definition surfaces_ok ::
  "unicode \<Rightarrow> automaton \<Rightarrow> policy_rule set \<Rightarrow> surface set \<Rightarrow> (surface, surface_matcher) btree_map \<Rightarrow> bool" where
  "surfaces_ok u ac R S m \<longleftrightarrow>
     bt_wf m \<and> fst ` set m \<subseteq> S
     \<and> (\<forall>s \<in> S. case map_of m s of
          None \<Rightarrow> surface_definition_set R s = {}
        | Some sm \<Rightarrow> \<exists>defs. matcher_compile u ac defs = Inr (sm_matcher sm)
            \<and> set defs = surface_definition_set R s)"

lemma surfaces_ok_step:
  assumes "surfaces_ok u ac (snd ` set rules) S m" "s \<notin> S" "compile_surface u ac d rules s = Inr x"
  shows "surfaces_ok u ac (snd ` set rules) (insert s S) (case x of None \<Rightarrow> m | Some (k, v) \<Rightarrow> bt_insert k v m)"
proof (cases x)
  case None
  have "map_of m s = None" using assms(1,2) by (auto simp: surfaces_ok_def map_of_eq_None_iff)
  with None compile_surface_ok [OF assms(3)] assms(1) show ?thesis by (auto simp: surfaces_ok_def)
next
  case (Some e)
  then obtain sm where x: "x = Some (s, sm)" "\<exists>defs. matcher_compile u ac defs = Inr (sm_matcher sm)
       \<and> set defs = surface_definition_set (snd ` set rules) s"
    using compile_surface_ok [OF assms(3)] by (cases e) auto
  have "fst ` set (bt_insert s sm m) = insert s (fst ` set m)"
    using set_bt_entry_keys [of s "\<lambda>_. sm" m] by (simp add: bt_insert_def)
  with x assms(1,2) show ?thesis by (auto simp: surfaces_ok_def)
qed

lemma compile_surfaces_ok:
  "compile_surfaces u ac d rules ss m = Inr m' \<Longrightarrow> surfaces_ok u ac (snd ` set rules) S m \<Longrightarrow>
     distinct ss \<Longrightarrow> set ss \<inter> S = {} \<Longrightarrow> surfaces_ok u ac (snd ` set rules) (S \<union> set ss) m'"
proof (induction ss arbitrary: m S)
  case (Cons s ss)
  then obtain x where x: "compile_surface u ac d rules s = Inr x"
    "compile_surfaces u ac d rules ss (case x of None \<Rightarrow> m | Some (k, v) \<Rightarrow> bt_insert k v m) = Inr m'" by auto
  have "surfaces_ok u ac (snd ` set rules) (insert s S) (case x of None \<Rightarrow> m | Some (k, v) \<Rightarrow> bt_insert k v m)"
    by (rule surfaces_ok_step [OF Cons.prems(2) _ x(1)]) (use Cons.prems in auto)
  from Cons.IH [OF x(2) this] Cons.prems show ?case by simp
qed simp

lemma compile_fields:
  assumes "compile_with_match_details u sha ac p d = Inr s"
  shows "cs_policy_id s = cp_id p" "cs_scope s = cp_scope p" "cs_version s = cp_version p"
    "cs_profile_fingerprint s = profile_fingerprint u sha p" "cs_rules s = rules_by_id p"
    "cs_rule_names s = fold (\<lambda>r. hm_insert (pr_name r) (pr_id r)) (map snd (rules_by_id p)) []"
    "surfaces_ok u ac (snd ` set (rules_by_id p)) UNIV (cs_surfaces s)"
proof -
  from assms obtain m where m: "compile_surfaces u ac d (rules_by_id p) surface_ALL [] = Inr m"
    "s = \<lparr>cs_policy_id = cp_id p, cs_scope = cp_scope p, cs_version = cp_version p,
          cs_profile_fingerprint = profile_fingerprint u sha p, cs_rules = rules_by_id p,
          cs_rule_names = fold (\<lambda>r. hm_insert (pr_name r) (pr_id r)) (map snd (rules_by_id p)) [],
          cs_surfaces = m\<rparr>"
    unfolding compile_with_match_details_def Let_def by auto
  have d: "distinct surface_ALL" by (simp add: surface_ALL_def)
  have "surfaces_ok u ac (snd ` set (rules_by_id p)) ({} \<union> set surface_ALL) m"
    by (rule compile_surfaces_ok [OF m(1) _ d]) (simp_all add: surfaces_ok_def)
  with m(2) show "cs_policy_id s = cp_id p" "cs_scope s = cp_scope p" "cs_version s = cp_version p"
    "cs_profile_fingerprint s = profile_fingerprint u sha p" "cs_rules s = rules_by_id p"
    "cs_rule_names s = fold (\<lambda>r. hm_insert (pr_name r) (pr_id r)) (map snd (rules_by_id p)) []"
    "surfaces_ok u ac (snd ` set (rules_by_id p)) UNIV (cs_surfaces s)"
    by (simp_all add: surface_ALL_complete)
qed

section \<open>What evaluation reports\<close>

definition excluded_at :: "surface_inputs \<Rightarrow> surface \<Rightarrow> byte_span list" where
  "excluded_at inputs s = (if s = MessageContent then si_security_excluded_spans inputs else [])"

definition security_at :: "surface_inputs \<Rightarrow> surface \<Rightarrow> security_normalized_text option" where
  "security_at inputs s = Option.bind (si_security inputs) (\<lambda>m. map_of m s)"

text \<open>A pattern occurs on a surface: in the canonical view, or as an eligible word in the security view.\<close>

definition pattern_hits :: "unicode \<Rightarrow> surface_inputs \<Rightarrow> surface \<Rightarrow> rule_pattern \<Rightarrow> bool" where
  "pattern_hits u inputs s q \<longleftrightarrow>
     (case map_of (si_normalized inputs) s of
        None \<Rightarrow> False
      | Some t \<Rightarrow>
          hits (canonical_input u t) [] (rp_type q) (normalize_pattern u (rp_pattern q))
          \<or> (case (security_at inputs s, security_text u (from_rule_pattern 0 q)) of
               (Some x, Some w) \<Rightarrow> hits (security_input u x) (excluded_at inputs s) (rp_type q) w
             | _ \<Rightarrow> False))"

definition rule_hits :: "unicode \<Rightarrow> surface_inputs \<Rightarrow> policy_rule \<Rightarrow> surface \<Rightarrow> bool" where
  "rule_hits u inputs r s \<longleftrightarrow> s \<in> set (pr_surfaces r) \<and> (\<exists>q \<in> set (pr_patterns r). pattern_hits u inputs s q)"

text \<open>The views of the inputs are normalisations of the texts of their surfaces.\<close>

definition inputs_ok :: "unicode \<Rightarrow> (surface \<Rightarrow> rstr) \<Rightarrow> surface_inputs \<Rightarrow> bool" where
  "inputs_ok u text inputs \<longleftrightarrow>
     (\<forall>s t. map_of (si_normalized inputs) s = Some t \<longrightarrow> normalized_view (text s) (canonical_input u t))
     \<and> (\<forall>s x. security_at inputs s = Some x \<longrightarrow> normalized_view (text s) (security_input u x))"

definition hit_set :: "unicode \<Rightarrow> surface_inputs \<Rightarrow> pattern_definition set \<Rightarrow> surface \<Rightarrow> uuid set" where
  "hit_set u inputs D s =
     (case map_of (si_normalized inputs) s of
        None \<Rightarrow> {}
      | Some t \<Rightarrow> spec_rules u D (canonical_input u t) \<union>
          (case security_at inputs s of
             None \<Rightarrow> {}
           | Some x \<Rightarrow> spec_security_rules u D (security_input u x) (excluded_at inputs s)))"

lemma security_text_id: "security_text u (from_rule_pattern i q) = security_text u (from_rule_pattern 0 q)"
  by (simp add: security_text_def authored_literal_def from_rule_pattern_def)

lemma from_rule_pattern_simps [simp]:
  "pd_rule_id (from_rule_pattern i q) = i" "pd_type (from_rule_pattern i q) = rp_type q"
  "pd_pattern (from_rule_pattern i q) = rp_pattern q"
  by (simp_all add: from_rule_pattern_def)

lemma hit_set_rules:
  "hit_set u inputs (surface_definition_set R s) s = {pr_id r | r. r \<in> R \<and> rule_hits u inputs r s}"
proof (cases "map_of (si_normalized inputs) s")
  case (Some t)
  have 1: "spec_rules u (surface_definition_set R s) ni
      = {pr_id r | r q. r \<in> R \<and> s \<in> set (pr_surfaces r) \<and> q \<in> set (pr_patterns r)
          \<and> hits ni [] (rp_type q) (normalize_pattern u (rp_pattern q))}" for ni
    unfolding spec_rules_def surface_definition_set_def by force
  have 2: "spec_security_rules u (surface_definition_set R s) ni ex
      = {pr_id r | r q w. r \<in> R \<and> s \<in> set (pr_surfaces r) \<and> q \<in> set (pr_patterns r)
          \<and> security_text u (from_rule_pattern 0 q) = Some w \<and> hits ni ex (rp_type q) w}" for ni ex
  proof (intro set_eqI iffI)
    fix i assume "i \<in> spec_security_rules u (surface_definition_set R s) ni ex"
    then obtain r q w where r: "i = pr_id r" "r \<in> R" "s \<in> set (pr_surfaces r)" "q \<in> set (pr_patterns r)"
      "security_text u (from_rule_pattern (pr_id r) q) = Some w" "hits ni ex (rp_type q) w"
      unfolding spec_security_rules_def surface_definition_set_def by auto
    then have "security_text u (from_rule_pattern 0 q) = Some w" by (simp add: security_text_id [of u "pr_id r"])
    with r show "i \<in> {pr_id r | r q w. r \<in> R \<and> s \<in> set (pr_surfaces r) \<and> q \<in> set (pr_patterns r)
          \<and> security_text u (from_rule_pattern 0 q) = Some w \<and> hits ni ex (rp_type q) w}" by blast
  next
    fix i assume "i \<in> {pr_id r | r q w. r \<in> R \<and> s \<in> set (pr_surfaces r) \<and> q \<in> set (pr_patterns r)
          \<and> security_text u (from_rule_pattern 0 q) = Some w \<and> hits ni ex (rp_type q) w}"
    then obtain r q w where r: "i = pr_id r" "r \<in> R" "s \<in> set (pr_surfaces r)" "q \<in> set (pr_patterns r)"
      "security_text u (from_rule_pattern 0 q) = Some w" "hits ni ex (rp_type q) w" by blast
    then have "from_rule_pattern (pr_id r) q \<in> surface_definition_set R s"
      "security_text u (from_rule_pattern (pr_id r) q) = Some w"
      using security_text_id [of u "pr_id r" q] by (auto simp: surface_definition_set_def)
    with r show "i \<in> spec_security_rules u (surface_definition_set R s) ni ex"
      unfolding spec_security_rules_def by force
  qed
  show ?thesis
  proof (cases "security_at inputs s")
    case None
    with Some show ?thesis
      by (auto simp: hit_set_def 1 rule_hits_def pattern_hits_def)
  next
    case (Some x)
    have "pattern_hits u inputs s q \<longleftrightarrow>
        hits (canonical_input u t) [] (rp_type q) (normalize_pattern u (rp_pattern q))
        \<or> (\<exists>w. security_text u (from_rule_pattern 0 q) = Some w
             \<and> hits (security_input u x) (excluded_at inputs s) (rp_type q) w)" for q
      using \<open>map_of (si_normalized inputs) s = Some t\<close> Some by (auto simp: pattern_hits_def split: option.splits)
    moreover have "hit_set u inputs (surface_definition_set R s) s =
        spec_rules u (surface_definition_set R s) (canonical_input u t)
        \<union> spec_security_rules u (surface_definition_set R s) (security_input u x) (excluded_at inputs s)"
      using \<open>map_of (si_normalized inputs) s = Some t\<close> Some by (simp add: hit_set_def)
    ultimately show ?thesis unfolding 1 2 rule_hits_def by blast
  qed
qed (auto simp: hit_set_def rule_hits_def pattern_hits_def)

lemma matched_surface_of_simps [simp]:
  "fst (matched_surface_of s ids d t) = rt_rule_id t" "ms_surface (snd (matched_surface_of s ids d t)) = s"
  by (simp_all add: matched_surface_of_def Let_def)

lemma matched_surface_None [simp]: "ms_spans (snd (matched_surface_of s ids None t)) = []"
  unfolding matched_surface_of_def Let_def option.case map_of.simps
  by (cases "rt_rule_id t \<in> set ids") simp_all

lemma matched_surface_spans:
  assumes "\<forall>r. d = Some r \<longrightarrow> report_spans_ok text r"
  shows "\<forall>x \<in> set (ms_spans (snd (matched_surface_of s ids d t))). valid_span text x"
proof (cases d)
  case (Some r)
  define by_rule where "by_rule = map_of (fold (\<lambda>t. hm_insert (rt_rule_id t) (rt_matches t)) (mr_triggers r) [])"
  have by_rule: "\<exists>t' \<in> set (mr_triggers r). rt_matches t' = ms" if "by_rule i = Some ms" for i ms
    using hm_collect_Some [OF that [unfolded by_rule_def]] by auto
  define D where "D = (if rt_rule_id t \<in> set ids
      then (case by_rule (rt_rule_id t) of None \<Rightarrow> [] | Some ms \<Rightarrow> ms) else [])"
  have "ms_spans (snd (matched_surface_of s ids d t)) = remdups_adj (sort (map pm_original D))"
    unfolding matched_surface_of_def Let_def Some option.case D_def by_rule_def by simp
  moreover have "\<forall>x \<in> set D. valid_span text (pm_original x)"
  proof
    fix x assume "x \<in> set D"
    then obtain ms where m: "by_rule (rt_rule_id t) = Some ms" "x \<in> set ms"
      by (cases "rt_rule_id t \<in> set ids"; cases "by_rule (rt_rule_id t)") (simp_all add: D_def)
    from by_rule [OF m(1)] show "valid_span text (pm_original x)"
      using m(2) assms Some by (auto simp: report_spans_ok_def)
  qed
  ultimately show ?thesis by simp
qed simp

lemma evaluate_surface_ok:
  assumes ac: "finds_occurrences ac" and i: "inputs_ok u text inputs"
    and m: "matcher_compile u ac defs = Inr (sm_matcher sm)"
  shows "\<exists>es. evaluate_surface u ac inputs (s, sm) = Some es \<and> distinct (map fst es)
     \<and> fst ` set es = hit_set u inputs (set defs) s
     \<and> (\<forall>e \<in> set es. ms_surface (snd e) = s \<and> (\<forall>x \<in> set (ms_spans (snd e)). valid_span (text s) x))"
proof (cases "map_of (si_normalized inputs) s")
  case None
  then show ?thesis by (simp add: evaluate_surface_def hit_set_def)
next
  case (Some t)
  have v: "normalized_view (text s) (canonical_input u t)" using i Some by (simp add: inputs_ok_def)
  have sv: "case security_at inputs s of None \<Rightarrow> True | Some x \<Rightarrow> normalized_view (text s) (security_input u x)"
    using i by (auto simp: inputs_ok_def split: option.splits)
  let ?run = "match_normalized_with_security u ac (sm_matcher sm) t (security_at inputs s) (excluded_at inputs s)"
  from match_with_security_spec [OF ac m v sv, of "excluded_at inputs s" NoDetails] obtain fast where
    fast: "?run NoDetails = Some fast" "report_ok (text s) NoDetails fast"
      "set (rule_ids fast) = hit_set u inputs (set defs) s"
    by (auto simp: hit_set_def Some split: option.splits)
  from match_with_security_spec [OF ac m v sv, of "excluded_at inputs s" PatternsAndSpans] obtain det where
    det: "?run PatternsAndSpans = Some det" "report_ok (text s) PatternsAndSpans det" by blast
  define d where "d = (if \<exists>r \<in> set (rule_ids fast). r \<in> set (sm_detailed_rules sm) then Some det else None)"
  have e: "evaluate_surface u ac inputs (s, sm) = Some (map (matched_surface_of s (sm_detailed_rules sm) d) (mr_triggers fast))"
  proof (cases "match_report_is_empty fast")
    case True
    then show ?thesis
      using fast(1) Some unfolding evaluate_surface_def security_at_def excluded_at_def
      by (simp add: Let_def match_report_is_empty_def)
  next
    case False
    then show ?thesis
      using fast(1) det(1) Some unfolding evaluate_surface_def security_at_def excluded_at_def
      by (simp add: Let_def d_def)
  qed
  have "distinct (map rt_rule_id (mr_triggers fast))" "rt_rule_id ` set (mr_triggers fast) = hit_set u inputs (set defs) s"
    using fast(2,3) by (simp_all add: report_ok_def rule_ids_def)
  moreover have "\<forall>r. d = Some r \<longrightarrow> report_spans_ok (text s) r"
    using det(2) by (simp add: d_def report_ok_def)
  ultimately show ?thesis
    using matched_surface_spans [of d "text s"] e by (simp add: o_def image_image)
qed

text \<open>What the collection over the surfaces \<open>S\<close> processed so far has gathered.\<close>

definition collected_ok ::
  "(surface \<Rightarrow> rstr) \<Rightarrow> (surface \<Rightarrow> uuid set) \<Rightarrow> surface list \<Rightarrow> (uuid, matched_surface list) btree_map \<Rightarrow> bool" where
  "collected_ok text H S acc \<longleftrightarrow>
     bt_wf acc
     \<and> (\<forall>r. case map_of acc r of
          None \<Rightarrow> filter (\<lambda>s. r \<in> H s) S = []
        | Some xs \<Rightarrow> xs \<noteq> [] \<and> map ms_surface xs = filter (\<lambda>s. r \<in> H s) S
            \<and> (\<forall>x \<in> set xs. \<forall>y \<in> set (ms_spans x). valid_span (text (ms_surface x)) y))"

lemma fold_extend_entries:
  "bt_wf acc \<Longrightarrow> distinct (map fst es) \<Longrightarrow>
     bt_wf (fold (\<lambda>(r, ms). bt_extend r [ms]) es acc)
     \<and> map_of (fold (\<lambda>(r, ms). bt_extend r [ms]) es acc) r =
        (case map_of es r of
           None \<Rightarrow> map_of acc r
         | Some ms \<Rightarrow> Some ((case map_of acc r of None \<Rightarrow> [] | Some xs \<Rightarrow> xs) @ [ms]))"
proof (induction es arbitrary: acc)
  case (Cons e es)
  obtain q ms where e: "e = (q, ms)" by (cases e)
  have "map_of es q = None" using Cons.prems(2) e by (simp add: map_of_eq_None_iff)
  with Cons.IH [of "bt_extend q [ms] acc"] Cons.prems e show ?case by (auto split: option.splits)
qed simp

lemma collected_step:
  assumes acc: "collected_ok text H S acc" and d: "distinct (map fst es)" and h: "fst ` set es = H s"
    and sp: "\<forall>e \<in> set es. ms_surface (snd e) = s \<and> (\<forall>x \<in> set (ms_spans (snd e)). valid_span (text s) x)"
  shows "collected_ok text H (S @ [s]) (fold (\<lambda>(r, ms). bt_extend r [ms]) es acc)"
proof -
  have wf: "bt_wf acc" using acc by (simp add: collected_ok_def)
  note f = fold_extend_entries [OF wf d]
  have "case map_of (fold (\<lambda>(r, ms). bt_extend r [ms]) es acc) r of
          None \<Rightarrow> filter (\<lambda>s. r \<in> H s) (S @ [s]) = []
        | Some xs \<Rightarrow> xs \<noteq> [] \<and> map ms_surface xs = filter (\<lambda>s. r \<in> H s) (S @ [s])
            \<and> (\<forall>x \<in> set xs. \<forall>y \<in> set (ms_spans x). valid_span (text (ms_surface x)) y)" for r
  proof -
    have a: "case map_of acc r of
          None \<Rightarrow> filter (\<lambda>s. r \<in> H s) S = []
        | Some xs \<Rightarrow> xs \<noteq> [] \<and> map ms_surface xs = filter (\<lambda>s. r \<in> H s) S
            \<and> (\<forall>x \<in> set xs. \<forall>y \<in> set (ms_spans x). valid_span (text (ms_surface x)) y)"
      using acc by (simp add: collected_ok_def)
    show ?thesis
    proof (cases "map_of es r")
      case None
      then have "r \<notin> H s" using h by (metis map_of_eq_None_iff)
      with a None f show ?thesis by (simp split: option.splits)
    next
      case (Some ms)
      then have mem: "(r, ms) \<in> set es" by (rule map_of_SomeD)
      then have "r \<in> H s" using h by force
      moreover have "ms_surface ms = s" "\<forall>x \<in> set (ms_spans ms). valid_span (text s) x" using sp mem by auto
      ultimately show ?thesis using a Some f by (auto split: option.splits)
    qed
  qed
  then show ?thesis using f by (simp add: collected_ok_def)
qed

lemma collect_surfaces_ok:
  assumes ac: "finds_occurrences ac" and i: "inputs_ok u text inputs"
    and m: "\<forall>(s, sm) \<in> set es. \<exists>defs. matcher_compile u ac defs = Inr (sm_matcher sm) \<and> hit_set u inputs (set defs) s = H s"
    and acc: "collected_ok text H S acc"
  shows "\<exists>acc'. fold_panic (collect_surface u ac inputs) es acc = Some acc' \<and> collected_ok text H (S @ map fst es) acc'"
  using m acc
proof (induction es arbitrary: S acc)
  case (Cons e es)
  obtain s sm where e: "e = (s, sm)" by (cases e)
  from Cons.prems(1) e obtain defs where d: "matcher_compile u ac defs = Inr (sm_matcher sm)"
    "hit_set u inputs (set defs) s = H s" by auto
  from evaluate_surface_ok [OF ac i d(1), of s] d(2) obtain xs where xs:
    "evaluate_surface u ac inputs e = Some xs" "distinct (map fst xs)" "fst ` set xs = H s"
    "\<forall>x \<in> set xs. ms_surface (snd x) = s \<and> (\<forall>y \<in> set (ms_spans (snd x)). valid_span (text s) y)"
    unfolding e by auto
  let ?acc = "fold (\<lambda>(r, ms). bt_extend r [ms]) xs acc"
  from collected_step [OF Cons.prems(2) xs(2,3,4)] have "collected_ok text H (S @ [s]) ?acc" .
  from Cons.IH [OF _ this] Cons.prems(1) show ?case
    by (simp add: collect_surface_def xs(1)) (simp add: e)
qed simp

text \<open>The attributed rule of an entry of the collection.\<close>

lemma rules_by_id_key: "(i, r) \<in> set (rules_by_id p) \<Longrightarrow> pr_id r = i"
  using hm_collect_Some [of pr_id "\<lambda>r. r" "filter pr_enabled (cp_rules p)" "[]" i r] rules_by_id_wf [of p]
  by (auto simp: rules_by_id_def hm_wf_mem_iff)

definition matched_ok ::
  "unicode \<Rightarrow> (surface \<Rightarrow> rstr) \<Rightarrow> surface_inputs \<Rightarrow> compiled_policy_snapshot \<Rightarrow> policy_rule \<Rightarrow> matched_rule \<Rightarrow> bool" where
  "matched_ok u text inputs s rule m \<longleftrightarrow>
     m = matched_rule_of s rule (pr_id rule) (mr_surfaces m)
     \<and> map ms_surface (mr_surfaces m) = filter (rule_hits u inputs rule) surface_ALL
     \<and> (\<forall>x \<in> set (mr_surfaces m). \<forall>y \<in> set (ms_spans x). valid_span (text (ms_surface x)) y)"

lemma sorted_filter_unique:
  assumes "sorted_wrt (<) xs" "sorted_wrt (<) ys" "set xs = set ys"
  shows "xs = (ys :: 'a::linorder list)"
  using assms by (metis strict_sorted_equal)

lemma surfaces_ok_at:
  assumes "surfaces_ok u ac R UNIV m"
  shows "case map_of m k of
     None \<Rightarrow> surface_definition_set R k = {}
   | Some sm \<Rightarrow> \<exists>defs. matcher_compile u ac defs = Inr (sm_matcher sm) \<and> set defs = surface_definition_set R k"
  using assms unfolding surfaces_ok_def by blast

lemma surfaces_ok_Some:
  "surfaces_ok u ac R UNIV m \<Longrightarrow> map_of m k = Some sm \<Longrightarrow>
     \<exists>defs. matcher_compile u ac defs = Inr (sm_matcher sm) \<and> set defs = surface_definition_set R k"
  using surfaces_ok_at [of u ac R m k] by simp

lemma surfaces_ok_None:
  "surfaces_ok u ac R UNIV m \<Longrightarrow> map_of m k = None \<Longrightarrow> surface_definition_set R k = {}"
  using surfaces_ok_at [of u ac R m k] by simp

lemma collected_ok_at:
  assumes "collected_ok text H S acc"
  shows "case map_of acc r of
     None \<Rightarrow> filter (\<lambda>s. r \<in> H s) S = []
   | Some xs \<Rightarrow> xs \<noteq> [] \<and> map ms_surface xs = filter (\<lambda>s. r \<in> H s) S
       \<and> (\<forall>x \<in> set xs. \<forall>y \<in> set (ms_spans x). valid_span (text (ms_surface x)) y)"
  using assms unfolding collected_ok_def by blast

lemma hit_set_empty [simp]: "hit_set u inputs {} k = {}"
  by (auto simp: hit_set_def spec_rules_def spec_security_rules_def split: option.splits)

lemma filter_compiled_surfaces:
  assumes "surfaces_ok u ac R UNIV m"
  shows "filter (\<lambda>k. r \<in> hit_set u inputs (surface_definition_set R k) k) (map fst m)
     = filter (\<lambda>k. r \<in> hit_set u inputs (surface_definition_set R k) k) surface_ALL" (is "filter ?P _ = _")
proof (rule sorted_filter_unique)
  have "bt_wf m" using assms by (simp add: surfaces_ok_def)
  then show "sorted_wrt (<) (filter ?P (map fst m))" unfolding bt_wf_def by (rule sorted_wrt_filter)
  show "sorted_wrt (<) (filter ?P surface_ALL)" by (rule sorted_wrt_filter [OF surface_ALL_sorted])
  have "k \<in> set (map fst m)" if "?P k" for k
  proof (rule ccontr)
    assume "k \<notin> set (map fst m)"
    then have "map_of m k = None" by (simp add: map_of_eq_None_iff)
    from surfaces_ok_None [OF assms this] that show False by simp
  qed
  then show "set (filter ?P (map fst m)) = set (filter ?P surface_ALL)" by (auto simp: surface_ALL_complete)
qed

lemma collect_compiled_ok:
  assumes ac: "finds_occurrences ac" and i: "inputs_ok u text inputs" and m: "surfaces_ok u ac R UNIV m"
  shows "\<exists>acc. fold_panic (collect_surface u ac inputs) m [] = Some acc
     \<and> collected_ok text (\<lambda>k. hit_set u inputs (surface_definition_set R k) k) surface_ALL acc"
proof -
  let ?H = "\<lambda>k. hit_set u inputs (surface_definition_set R k) k"
  have wf: "bt_wf m" using m by (simp add: surfaces_ok_def)
  have "\<forall>(k, sm) \<in> set m. \<exists>defs. matcher_compile u ac defs = Inr (sm_matcher sm) \<and> hit_set u inputs (set defs) k = ?H k"
  proof (clarify)
    fix k sm assume "(k, sm) \<in> set m"
    then have "map_of m k = Some sm" using bt_wf_mem_iff [OF wf] by simp
    from surfaces_ok_Some [OF \<open>surfaces_ok u ac R UNIV m\<close> this]
    show "\<exists>defs. matcher_compile u ac defs = Inr (sm_matcher sm) \<and> hit_set u inputs (set defs) k = ?H k" by auto
  qed
  moreover have "collected_ok text ?H [] []" by (simp add: collected_ok_def)
  ultimately obtain acc where "fold_panic (collect_surface u ac inputs) m [] = Some acc"
    "collected_ok text ?H (map fst m) acc"
    using collect_surfaces_ok [OF ac i, of m ?H "[]" "[]"] by auto
  then show ?thesis unfolding collected_ok_def filter_compiled_surfaces [OF m] by blast
qed

lemma sorted_filter_surfaces: "sorted (filter P surface_ALL)"
  by (rule strict_sorted_imp_sorted) (rule sorted_wrt_filter [OF surface_ALL_sorted])

lemma attribute_match_ok:
  assumes d: "distinct (map pr_id (live_rules p))" and r: "cs_rules s = rules_by_id p"
    and acc: "collected_ok text (\<lambda>k. {pr_id r | r. r \<in> set (live_rules p) \<and> rule_hits u inputs r k}) surface_ALL acc"
    and e: "e \<in> set acc"
  shows "\<exists>rule \<in> set (live_rules p). pr_id rule = fst e \<and> (\<exists>m. attribute_match s e = Inr m
     \<and> matched_ok u text inputs s rule m)"
proof -
  let ?H = "\<lambda>k. {pr_id r | r. r \<in> set (live_rules p) \<and> rule_hits u inputs r k}"
  obtain i xs where i: "e = (i, xs)" by (cases e)
  have "bt_wf acc" using acc by (simp add: collected_ok_def)
  with e i have "map_of acc i = Some xs" using bt_wf_mem_iff [of acc] by simp
  then have xs: "xs \<noteq> []" "map ms_surface xs = filter (\<lambda>k. i \<in> ?H k) surface_ALL"
    "\<forall>x \<in> set xs. \<forall>y \<in> set (ms_spans x). valid_span (text (ms_surface x)) y"
    using collected_ok_at [OF acc, of i] by simp_all
  have "map ms_surface xs \<noteq> []" using xs(1) by simp
  then have "\<not> (\<forall>k \<in> set surface_ALL. i \<notin> ?H k)" unfolding xs(2) filter_empty_conv .
  then obtain k where "i \<in> ?H k" by blast
  then obtain rule where rule: "rule \<in> set (live_rules p)" "pr_id rule = i" by blast
  have lookup: "map_of (cs_rules s) i = Some rule" using rules_by_id_iff [OF d] rule r by simp
  have "r' = rule" if "r' \<in> set (live_rules p)" "pr_id r' = i" for r'
    using d that rule by (auto simp: distinct_map dest: inj_onD)
  then have hits: "(\<lambda>k. i \<in> ?H k) = rule_hits u inputs rule" using rule by (intro ext) blast
  have "sorted (map ms_surface xs)"
    unfolding xs(2) by (rule sorted_filter_surfaces)
  then have "sort_key ms_surface xs = xs" by (rule sort_key_id_if_sorted)
  with rule lookup xs show ?thesis
    unfolding hits i by (auto simp: attribute_match_def ok_or_def matched_ok_def matched_rule_of_def)
qed

lemma collected_keys:
  assumes "collected_ok text H surface_ALL acc"
  shows "fst ` set acc = {r. \<exists>k. r \<in> H k}"
proof -
  have "r \<in> fst ` set acc \<longleftrightarrow> (\<exists>k. r \<in> H k)" for r
  proof (cases "map_of acc r")
    case None
    with collected_ok_at [OF assms, of r] have "filter (\<lambda>k. r \<in> H k) surface_ALL = []" by simp
    with None show ?thesis by (auto simp: map_of_eq_None_iff filter_empty_conv surface_ALL_complete)
  next
    case (Some xs)
    with collected_ok_at [OF assms, of r]
    have "xs \<noteq> [] \<and> map ms_surface xs = filter (\<lambda>k. r \<in> H k) surface_ALL" by simp
    then have "\<exists>k. r \<in> H k" by (metis filter_False map_is_Nil_conv)
    with Some show ?thesis by (force dest: map_of_SomeD)
  qed
  then show ?thesis by blast
qed

lemma evaluate_normalized_ok:
  assumes ac: "finds_occurrences ac" and i: "inputs_ok u text inputs"
    and c: "compile_with_match_details u sha ac p d = Inr s" and dist: "distinct (map pr_id (live_rules p))"
  shows "\<exists>ms. evaluate_normalized u ac s inputs = Some (Inr ms)
     \<and> sorted_wrt (<) (map mr_rule_id ms)
     \<and> mr_rule_id ` set ms = pr_id ` {r \<in> set (live_rules p). \<exists>f. rule_hits u inputs r f}
     \<and> (\<forall>m \<in> set ms. \<exists>r \<in> set (live_rules p). matched_ok u text inputs s r m)"
proof -
  let ?H = "\<lambda>k. {pr_id r | r. r \<in> set (live_rules p) \<and> rule_hits u inputs r k}"
  note f = compile_fields [OF c]
  from collect_compiled_ok [OF ac i f(7)] obtain acc where
    acc: "fold_panic (collect_surface u ac inputs) (cs_surfaces s) [] = Some acc" "collected_ok text ?H surface_ALL acc"
    unfolding hit_set_rules rules_by_id_values [OF dist] by blast
  define g where "g = (\<lambda>e. case attribute_match s e of Inr m \<Rightarrow> m | Inl _ \<Rightarrow> undefined)"
  have g: "attribute_match s e = Inr (g e) \<and> (\<exists>rule \<in> set (live_rules p). pr_id rule = fst e
      \<and> matched_ok u text inputs s rule (g e))" if "e \<in> set acc" for e
    using attribute_match_ok [OF dist f(5) acc(2) that] by (auto simp: g_def)
  have ev: "evaluate_normalized u ac s inputs = Some (Inr (map g acc))"
    unfolding evaluate_normalized_def acc(1) using try_map_all_ok [of acc "attribute_match s" g] g by simp
  have "mr_rule_id (g e) = fst e" if "e \<in> set acc" for e
    using g [OF that] by (auto simp: matched_ok_def matched_rule_of_def) (metis matched_rule.select_convs(4))
  then have ids: "map mr_rule_id (map g acc) = map fst acc" by simp
  then have "mr_rule_id ` set (map g acc) = fst ` set acc" by (metis list.set_map)
  also have "\<dots> = pr_id ` {r \<in> set (live_rules p). \<exists>f. rule_hits u inputs r f}"
    unfolding collected_keys [OF acc(2)] by auto
  finally have idset: "mr_rule_id ` set (map g acc) = pr_id ` {r \<in> set (live_rules p). \<exists>f. rule_hits u inputs r f}" .
  have "sorted_wrt (<) (map mr_rule_id (map g acc))"
    unfolding ids using acc(2) by (simp add: collected_ok_def bt_wf_def)
  moreover have "\<forall>m \<in> set (map g acc). \<exists>r \<in> set (live_rules p). matched_ok u text inputs s r m"
    using g by (simp only: set_map) blast
  ultimately show ?thesis using ev idset by blast
qed

section \<open>Evaluation of an analysed message\<close>

lemma analyzed_inputs_ok:
  assumes "analyzed_content_new u pn = Some c"
  shows "inputs_ok u (presentation_surface pn) (analyzed_inputs c)"
proof -
  from analyzed_content_new_ok [of u pn] obtain ac and cs :: "url_candidate list" where e: "analyzed_content_new u pn = Some ac"
    and n: "map_of (ac_normalized ac) = expected_normalized u pn (map uc_domain cs)"
    and x: "map_of (ac_security ac) = expected_security u pn" by blast
  have "ac = c" using e assms by simp
  show ?thesis
    unfolding inputs_ok_def
    using n x \<open>ac = c\<close> canonical_view.normalized_view_axioms extracted_view.normalized_view_axioms
      security_view.normalized_view_axioms
    by (auto simp: analyzed_inputs_def security_at_def expected_normalized_def expected_security_def split: if_splits)
qed

text \<open>
  C1 [evaluate_correct]: With an automaton that finds the occurrences of its patterns, evaluating
  an analysed message against a compiled policy returns, without error or panic, exactly the
  enabled rules one of whose patterns occurs on one of their surfaces, in the order of their
  identifiers. Each is attributed to the policy and lists the surfaces it occurs on in order,
  with spans that are valid in the text of that surface.
\<close>

theorem evaluate_correct:
  assumes "finds_occurrences ac" "compile_with_match_details u sha ac p d = Inr s"
    and "distinct (map pr_id (live_rules p))" "analyzed_content_new u pn = Some c"
  shows "\<exists>ms. evaluate_normalized u ac s (analyzed_inputs c) = Some (Inr ms)
     \<and> sorted_wrt (<) (map mr_rule_id ms)
     \<and> mr_rule_id ` set ms = pr_id ` {r \<in> set (live_rules p). \<exists>f. rule_hits u (analyzed_inputs c) r f}
     \<and> (\<forall>m \<in> set ms. \<exists>r \<in> set (live_rules p).
          matched_ok u (presentation_surface pn) (analyzed_inputs c) s r m)"
  using evaluate_normalized_ok [OF assms(1) analyzed_inputs_ok [OF assms(4)] assms(2,3)] .

text \<open>A policy with one rule that blocks one word in messages.\<close>

definition word_policy :: "uuid \<Rightarrow> policy_scope \<Rightarrow> uuid \<Rightarrow> rstr \<Rightarrow> content_policy" where
  "word_policy policy_id scope rule_id word =
     \<lparr>cp_id = policy_id, cp_scope = scope, cp_enabled = True, cp_version = 1,
      cp_rules = [\<lparr>pr_id = rule_id, pr_name = lit ''words'', pr_description = [], pr_enabled = True,
        pr_custom_reason = None, pr_created_by = [],
        pr_patterns = [\<lparr>rp_id = 10 + rule_id, rp_pattern = word, rp_type = ExactWord\<rparr>],
        pr_surfaces = [MessageContent],
        pr_actions = [\<lparr>pa_id = 20 + rule_id, pa_type = Block, pa_duration = None, pa_replacement = None\<rparr>]\<rparr>]\<rparr>"

definition plain_message :: "rstr \<Rightarrow> presentation" where
  "plain_message t =
     \<lparr>pn_message_content = t, pn_display_name = [], pn_username = [], pn_server_name = [],
      pn_hub_name = [], pn_url_spans = []\<rparr>"

theorem evaluate_correct_witness:
  "\<exists>s c ms. compile_with_match_details ascii_unicode (\<lambda>b. b) naive_automaton (word_policy 5 global 7 (lit ''spam'')) False = Inr s
     \<and> analyzed_content_new ascii_unicode (plain_message (lit ''Buy S.p.a.m!'')) = Some c
     \<and> evaluate_normalized ascii_unicode naive_automaton s (analyzed_inputs c) = Some (Inr ms)
     \<and> mr_rule_id ` set ms \<subseteq> {7} \<and> sorted_wrt (<) (map mr_rule_id ms)"
proof -
  let ?p = "word_policy 5 global 7 (lit ''spam'')"
  have "is_ok (compile_with_match_details ascii_unicode (\<lambda>b. b) naive_automaton ?p False)" by code_simp
  then obtain s where s: "compile_with_match_details ascii_unicode (\<lambda>b. b) naive_automaton ?p False = Inr s"
    by (auto simp: is_ok_def split: sum.splits)
  from analyzed_content_new_ok [of ascii_unicode "plain_message (lit ''Buy S.p.a.m!'')"] obtain c where
    c: "analyzed_content_new ascii_unicode (plain_message (lit ''Buy S.p.a.m!'')) = Some c" by blast
  have d: "distinct (map pr_id (live_rules ?p))" by (simp add: word_policy_def)
  from evaluate_correct [OF naive_automaton_finds s d c] show ?thesis
    using s c by (auto simp: word_policy_def)
qed

section \<open>Re-attribution\<close>

lemma rule_names_lookup:
  assumes "compile_with_match_details u sha ac p d = Inr s"
  shows "map_of (cs_rule_names s) n \<noteq> None \<longleftrightarrow> n \<in> pr_name ` snd ` set (rules_by_id p)"
    "map_of (cs_rule_names s) n = Some i \<Longrightarrow> \<exists>r. map_of (cs_rules s) i = Some r \<and> pr_name r = n"
proof -
  note f = compile_fields [OF assms]
  have "dom (map_of (cs_rule_names s)) = pr_name ` set (map snd (rules_by_id p))"
    unfolding f(6) hm_collect_dom by simp
  then show "map_of (cs_rule_names s) n \<noteq> None \<longleftrightarrow> n \<in> pr_name ` snd ` set (rules_by_id p)"
    unfolding domIff [symmetric] by simp
  assume "map_of (cs_rule_names s) n = Some i"
  from hm_collect_Some [OF this [unfolded f(6)]] obtain r where
    r: "r \<in> snd ` set (rules_by_id p)" "pr_name r = n" "pr_id r = i" by auto
  then obtain k where "(k, r) \<in> set (rules_by_id p)" by auto
  with rules_by_id_key [OF this] r have "map_of (cs_rules s) i = Some r"
    using hm_wf_mem_iff [OF rules_by_id_wf] unfolding f(5) by simp
  with r show "\<exists>r. map_of (cs_rules s) i = Some r \<and> pr_name r = n" by blast
qed

text \<open>A match carried over to policy \<open>p\<close>, with the identity of the rule of the same name.\<close>

definition reattributed :: "content_policy \<Rightarrow> matched_rule \<Rightarrow> matched_rule \<Rightarrow> bool" where
  "reattributed p m m' \<longleftrightarrow>
     mr_surfaces m' = mr_surfaces m \<and> mr_rule_name m' = mr_rule_name m
     \<and> mr_policy_id m' = cp_id p \<and> mr_policy_version m' = cp_version p \<and> mr_scope m' = cp_scope p
     \<and> (\<exists>r \<in> snd ` set (rules_by_id p). pr_id r = mr_rule_id m' \<and> pr_name r = mr_rule_name m'
          \<and> mr_custom_reason m' = pr_custom_reason r \<and> mr_actions m' = pr_actions r)"

lemma remap_equivalent_cases:
  assumes "compile_with_match_details u sha ac p d = Inr s"
  shows "case find (\<lambda>m. mr_rule_name m \<notin> pr_name ` snd ` set (rules_by_id p)) ms of
     Some m \<Rightarrow> remap_equivalent_matches s ms = Inl (UnknownRule (mr_rule_id m))
   | None \<Rightarrow> (\<exists>ms'. remap_equivalent_matches s ms = Inr ms' \<and>
       list_all2 (reattributed p) ms ms')"
proof (induction ms)
  case (Cons m ms)
  note f = compile_fields [OF assms]
  let ?R = "pr_name ` snd ` set (rules_by_id p)"
  show ?case
  proof (cases "mr_rule_name m \<in> ?R")
    case False
    then have "map_of (cs_rule_names s) (mr_rule_name m) = None" using rule_names_lookup(1) [OF assms] by metis
    then have "remap_match s m = Inl (UnknownRule (mr_rule_id m))" by (simp add: remap_match_def ok_or_def)
    with False show ?thesis by (simp add: remap_equivalent_matches_def)
  next
    case True
    then obtain i where i: "map_of (cs_rule_names s) (mr_rule_name m) = Some i"
      using rule_names_lookup(1) [OF assms, of "mr_rule_name m"] by auto
    from rule_names_lookup(2) [OF assms i] obtain r where
      r: "map_of (cs_rules s) i = Some r" "pr_name r = mr_rule_name m" by blast
    then have mem: "(i, r) \<in> set (rules_by_id p)" using map_of_SomeD f(5) by metis
    let ?m = "matched_rule_of s r i (mr_surfaces m)"
    have hd: "remap_match s m = Inr ?m" using i r by (simp add: remap_match_def ok_or_def)
    have "r \<in> snd ` set (rules_by_id p)" "pr_id r = i" using mem rules_by_id_key [OF mem] by force+
    then have new: "reattributed p m ?m"
      using r(2) f(1-3) unfolding reattributed_def matched_rule_of_def matched_rule.simps by blast
    show ?thesis
    proof (cases "find (\<lambda>m. mr_rule_name m \<notin> ?R) ms")
      case None
      with Cons.IH obtain ms' where "remap_equivalent_matches s ms = Inr ms'" by auto
      with None Cons.IH True hd new show ?thesis by (simp add: remap_equivalent_matches_def)
    next
      case (Some x)
      with Cons.IH True hd show ?thesis by (simp add: remap_equivalent_matches_def)
    qed
  qed
qed (simp add: remap_equivalent_matches_def)

text \<open>
  Re-attributing matches to another policy succeeds exactly when every matched
  rule name is the name of a rule of that policy; each match then keeps its surfaces, spans and
  rule name and carries the identifiers, version, scope, reason and actions of that policy and
  its rule. Otherwise the error names the first rule that is missing.
\<close>

theorem remap_correct:
  assumes "compile_with_match_details u sha ac p d = Inr s"
  shows "case find (\<lambda>m. mr_rule_name m \<notin> pr_name ` snd ` set (rules_by_id p)) ms of
     Some m \<Rightarrow> remap_equivalent_matches s ms = Inl (UnknownRule (mr_rule_id m))
   | None \<Rightarrow> (\<exists>ms'. remap_equivalent_matches s ms = Inr ms' \<and>
       list_all2 (reattributed p) ms ms')"
  by (rule remap_equivalent_cases [OF assms])

theorem remap_correct_witness:
  "\<exists>s. compile_with_match_details ascii_unicode (\<lambda>b. b) naive_automaton (word_policy 5 global 7 (lit ''spam'')) False = Inr s
     \<and> (\<exists>ms'. remap_equivalent_matches s
           [\<lparr>mr_policy_id = 1, mr_policy_version = 9, mr_scope = global, mr_rule_id = 2, mr_rule_name = lit ''words'',
             mr_custom_reason = None, mr_surfaces = [], mr_actions = []\<rparr>] = Inr ms'
         \<and> map mr_policy_id ms' = [5] \<and> map mr_rule_name ms' = [lit ''words''])"
proof -
  let ?p = "word_policy 5 global 7 (lit ''spam'')"
  have "is_ok (compile_with_match_details ascii_unicode (\<lambda>b. b) naive_automaton ?p False)" by code_simp
  then obtain s where s: "compile_with_match_details ascii_unicode (\<lambda>b. b) naive_automaton ?p False = Inr s"
    by (auto simp: is_ok_def split: sum.splits)
  have n: "pr_name ` snd ` set (rules_by_id ?p) = {lit ''words''}" by (simp add: rules_by_id_def word_policy_def hm_insert_def)
  have i: "cp_id ?p = 5" by (simp add: word_policy_def)
  from remap_correct [OF s, of "[\<lparr>mr_policy_id = 1, mr_policy_version = 9, mr_scope = global, mr_rule_id = 2, mr_rule_name = lit ''words'',
             mr_custom_reason = None, mr_surfaces = [], mr_actions = []\<rparr>]"] s show ?thesis
    by (auto simp: n i list_all2_Cons1 reattributed_def)
qed

end
