(* ===== verification/Snapshot.thy ===== *)
theory Snapshot
  imports Compiler
begin

text \<open>
  The registry of compiled policies (\<open>src/content_policy/snapshot.rs\<close>): a slot per scope with
  the current policy and the newest version seen, kept after removal as a tombstone. Updates of a
  slot hold its mutex and the version is only read under it, so every operation is one step; a
  reader sees the current policy of a slot between two steps.
\<close>

section \<open>Slots\<close>

record snapshot_slot =
  sl_current :: "compiled_policy_snapshot option"
  sl_last_version :: u64

definition empty_slot :: snapshot_slot where
  "empty_slot = \<lparr>sl_current = None, sl_last_version = 0\<rparr>"

datatype snapshot_update = Replaced | Removed | Unchanged | Stale

definition slot_replace :: "compiled_policy_snapshot \<Rightarrow> snapshot_slot \<Rightarrow> snapshot_update \<times> snapshot_slot" where
  "slot_replace s slot =
     (if cs_version s < sl_last_version slot then (Stale, slot)
      else if cs_version s = sl_last_version slot then
        (case sl_current slot of
           Some current \<Rightarrow>
             (if cs_profile_fingerprint current = cs_profile_fingerprint s
                 \<and> cs_policy_id current = cs_policy_id s then Unchanged else Stale, slot)
         | None \<Rightarrow> (Stale, slot))
      else (Replaced, \<lparr>sl_current = Some s, sl_last_version = cs_version s\<rparr>))"

definition slot_remove :: "u64 \<Rightarrow> snapshot_slot \<Rightarrow> snapshot_update \<times> snapshot_slot" where
  "slot_remove version slot =
     (if version < sl_last_version slot then (Stale, slot)
      else if version = sl_last_version slot \<and> sl_current slot = None then (Unchanged, slot)
      else (Removed, \<lparr>sl_current = None, sl_last_version = version\<rparr>))"

section \<open>The store\<close>

record policy_snapshot_store =
  ps_global :: snapshot_slot
  ps_scoped :: "(policy_scope, snapshot_slot) hash_map"

definition empty_store :: policy_snapshot_store where
  "empty_store = \<lparr>ps_global = empty_slot, ps_scoped = []\<rparr>"

text \<open>\<open>slot\<close> finds the slot of a scope, creating an empty one; it is then updated in place.\<close>

definition get_slot :: "policy_scope \<Rightarrow> policy_snapshot_store \<Rightarrow> snapshot_slot \<times> policy_snapshot_store" where
  "get_slot scope st =
     (case sc_authority scope of
        AuthGlobal \<Rightarrow> (ps_global st, st)
      | _ \<Rightarrow> (case map_of (ps_scoped st) scope of
          Some slot \<Rightarrow> (slot, st)
        | None \<Rightarrow> (empty_slot, st\<lparr>ps_scoped := hm_insert scope empty_slot (ps_scoped st)\<rparr>)))"

definition put_slot :: "policy_scope \<Rightarrow> snapshot_slot \<Rightarrow> policy_snapshot_store \<Rightarrow> policy_snapshot_store" where
  "put_slot scope slot st =
     (case sc_authority scope of
        AuthGlobal \<Rightarrow> st\<lparr>ps_global := slot\<rparr>
      | _ \<Rightarrow> st\<lparr>ps_scoped := hm_insert scope slot (ps_scoped st)\<rparr>)"

definition replace_snapshot ::
  "compiled_policy_snapshot \<Rightarrow> policy_snapshot_store \<Rightarrow> snapshot_update \<times> policy_snapshot_store" where
  "replace_snapshot s st =
     (case get_slot (cs_scope s) st of (slot, st') \<Rightarrow>
      case slot_replace s slot of (update, slot') \<Rightarrow> (update, put_slot (cs_scope s) slot' st'))"

definition remove_snapshot ::
  "policy_scope \<Rightarrow> u64 \<Rightarrow> policy_snapshot_store \<Rightarrow> snapshot_update \<times> policy_snapshot_store" where
  "remove_snapshot scope version st =
     (case get_slot scope st of (slot, st') \<Rightarrow>
      case slot_remove version slot of (update, slot') \<Rightarrow> (update, put_slot scope slot' st'))"

definition load_snapshot :: "policy_scope \<Rightarrow> policy_snapshot_store \<Rightarrow> compiled_policy_snapshot option" where
  "load_snapshot scope st =
     (case sc_authority scope of
        AuthGlobal \<Rightarrow> sl_current (ps_global st)
      | _ \<Rightarrow> Option.bind (map_of (ps_scoped st) scope) sl_current)"

definition global_snapshot :: "policy_snapshot_store \<Rightarrow> compiled_policy_snapshot option" where
  "global_snapshot st = sl_current (ps_global st)"

definition hub_snapshot :: "rstr \<Rightarrow> policy_snapshot_store \<Rightarrow> compiled_policy_snapshot option" where
  "hub_snapshot i st = load_snapshot (hub i) st"

definition server_snapshot :: "rstr \<Rightarrow> policy_snapshot_store \<Rightarrow> compiled_policy_snapshot option" where
  "server_snapshot i st = load_snapshot (server i) st"

definition loaded_scope_count :: "policy_snapshot_store \<Rightarrow> nat" where
  "loaded_scope_count st =
     (if sl_current (ps_global st) \<noteq> None then 1 else 0)
     + length (filter (\<lambda>e. sl_current (snd e) \<noteq> None) (ps_scoped st))"

definition loaded_scopes :: "policy_snapshot_store \<Rightarrow> policy_scope list" where
  "loaded_scopes st =
     sort_key (\<lambda>s. (sc_authority s, sc_id s))
       ((if sl_current (ps_global st) \<noteq> None then [global] else [])
        @ map fst (filter (\<lambda>e. sl_current (snd e) \<noteq> None) (ps_scoped st)))"

section \<open>Runs\<close>

text \<open>The two kinds of update, as events that reach the store in some order.\<close>

datatype policy_event = Publish compiled_policy_snapshot | Withdraw policy_scope u64

fun store_step :: "policy_event \<Rightarrow> policy_snapshot_store \<Rightarrow> policy_snapshot_store" where
  "store_step (Publish s) st = snd (replace_snapshot s st)"
| "store_step (Withdraw scope version) st = snd (remove_snapshot scope version st)"

text \<open>Scopes with the global authority share one slot, whatever their identifier.\<close>

definition slot_key :: "policy_scope \<Rightarrow> policy_scope" where
  "slot_key scope = (if sc_authority scope = AuthGlobal then global else scope)"

definition store_wf :: "policy_snapshot_store \<Rightarrow> bool" where
  "store_wf st \<longleftrightarrow> hm_wf (ps_scoped st) \<and> (\<forall>e \<in> set (ps_scoped st). sc_authority (fst e) \<noteq> AuthGlobal)"

definition slot_view :: "policy_snapshot_store \<Rightarrow> policy_scope \<Rightarrow> snapshot_slot" where
  "slot_view st scope =
     (if sc_authority scope = AuthGlobal then ps_global st
      else case map_of (ps_scoped st) scope of Some slot \<Rightarrow> slot | None \<Rightarrow> empty_slot)"

lemma get_slot_view: "fst (get_slot scope st) = slot_view st scope"
  by (auto simp: get_slot_def slot_view_def split: authority.splits option.splits)

lemma put_get_slot_view:
  "slot_view (put_slot scope slot (snd (get_slot scope st))) sc =
     (if slot_key sc = slot_key scope then slot else slot_view st sc)"
  by (auto simp: get_slot_def put_slot_def slot_view_def slot_key_def global_def
      split: authority.splits option.splits)

lemma hm_insert_keys: "e \<in> set (hm_insert k v m) \<Longrightarrow> e = (k, v) \<or> e \<in> set m"
  by (auto simp: hm_insert_def)

lemma put_get_slot_wf: "store_wf st \<Longrightarrow> store_wf (put_slot scope slot (snd (get_slot scope st)))"
  by (auto simp: store_wf_def get_slot_def put_slot_def dest!: hm_insert_keys
      split: authority.splits option.splits)

lemma replace_snapshot_eq:
  "replace_snapshot s st =
     (fst (slot_replace s (slot_view st (cs_scope s))),
      put_slot (cs_scope s) (snd (slot_replace s (slot_view st (cs_scope s)))) (snd (get_slot (cs_scope s) st)))"
  by (simp add: replace_snapshot_def get_slot_view [symmetric] case_prod_beta)

lemma remove_snapshot_eq:
  "remove_snapshot scope version st =
     (fst (slot_remove version (slot_view st scope)),
      put_slot scope (snd (slot_remove version (slot_view st scope))) (snd (get_slot scope st)))"
  by (simp add: remove_snapshot_def get_slot_view [symmetric] case_prod_beta)

lemma store_step_wf: "store_wf st \<Longrightarrow> store_wf (store_step e st)"
  by (cases e) (simp_all add: replace_snapshot_eq remove_snapshot_eq put_get_slot_wf)

interpretation store: invariant_steps store_step store_wf
  by unfold_locales (rule store_step_wf)

lemma empty_store_wf [simp]: "store_wf empty_store"
  by (simp add: store_wf_def empty_store_def)

lemma load_snapshot_view: "load_snapshot scope st = sl_current (slot_view st scope)"
  by (auto simp: load_snapshot_def slot_view_def empty_slot_def split: authority.splits option.splits)

section \<open>The slot of one scope\<close>

datatype slot_event = Put compiled_policy_snapshot | Drop u64

fun event_version :: "slot_event \<Rightarrow> u64" where
  "event_version (Put s) = cs_version s"
| "event_version (Drop v) = v"

fun slot_step :: "slot_event \<Rightarrow> snapshot_slot \<Rightarrow> snapshot_slot" where
  "slot_step (Put s) slot = snd (slot_replace s slot)"
| "slot_step (Drop v) slot = snd (slot_remove v slot)"

fun slot_event_of :: "policy_event \<Rightarrow> policy_scope \<times> slot_event" where
  "slot_event_of (Publish s) = (slot_key (cs_scope s), Put s)"
| "slot_event_of (Withdraw scope v) = (slot_key scope, Drop v)"

definition scope_events :: "policy_scope \<Rightarrow> policy_event list \<Rightarrow> slot_event list" where
  "scope_events scope es = map snd (filter (\<lambda>e. fst e = slot_key scope) (map slot_event_of es))"

lemma slot_view_key: "slot_key a = slot_key b \<Longrightarrow> slot_view st a = slot_view st b"
  by (auto simp: slot_key_def slot_view_def global_def split: if_splits)

lemma store_step_view:
  "slot_view (store_step e st) scope =
     (case slot_event_of e of (k, ev) \<Rightarrow>
        if k = slot_key scope then slot_step ev (slot_view st scope) else slot_view st scope)"
proof (cases e)
  case (Publish s)
  show ?thesis
    using slot_view_key [of "cs_scope s" scope st] Publish
    by (cases "slot_key (cs_scope s) = slot_key scope") (auto simp: replace_snapshot_eq put_get_slot_view)
next
  case (Withdraw sc v)
  show ?thesis
    using slot_view_key [of sc scope st] Withdraw
    by (cases "slot_key sc = slot_key scope") (auto simp: remove_snapshot_eq put_get_slot_view)
qed

text \<open>The store is the family of its slots: each runs on the events of its own scope.\<close>

lemma store_run_view:
  "slot_view (fold store_step es st) scope = fold slot_step (scope_events scope es) (slot_view st scope)"
  by (induction es arbitrary: st)
     (auto simp: scope_events_def store_step_view split: prod.splits)

lemma empty_store_view [simp]: "slot_view empty_store scope = empty_slot"
  by (simp add: slot_view_def empty_store_def)

definition newest_version :: "slot_event list \<Rightarrow> u64" where
  "newest_version evs = fold max (map event_version evs) 0"

text \<open>
  The abstract contract of a slot: it holds the policy published with the newest version, the
  first one if there are several, unless that version was also withdrawn.
\<close>

definition newest_policy :: "slot_event list \<Rightarrow> compiled_policy_snapshot option" where
  "newest_policy evs =
     (let v = newest_version evs
      in if v = 0 \<or> Drop v \<in> set evs then None
         else find_map (\<lambda>e. case e of Put s \<Rightarrow> if cs_version s = v then Some s else None | Drop _ \<Rightarrow> None) evs)"

definition newest_slot :: "slot_event list \<Rightarrow> snapshot_slot" where
  "newest_slot evs = \<lparr>sl_current = newest_policy evs, sl_last_version = newest_version evs\<rparr>"

lemma newest_version_snoc [simp]: "newest_version (evs @ [e]) = max (newest_version evs) (event_version e)"
  by (simp add: newest_version_def max.commute)

lemma newest_version_ge: "e \<in> set evs \<Longrightarrow> event_version e \<le> newest_version evs"
  by (induction evs rule: rev_induct) (auto simp: le_max_iff_disj)

lemma find_map_append: "find_map f (xs @ ys) = (case find_map f xs of None \<Rightarrow> find_map f ys | Some y \<Rightarrow> Some y)"
  by (induction xs) (auto split: option.splits)

lemma fold_max_ge: "a \<le> fold max xs (a :: 'a::linorder)"
proof (induction xs arbitrary: a)
  case (Cons x xs)
  have "a \<le> max x a" by simp
  also have "\<dots> \<le> fold max xs (max x a)" by (rule Cons.IH)
  finally show ?case by simp
qed simp

lemma newest_version_attained: "newest_version evs = 0 \<or> (\<exists>e \<in> set evs. event_version e = newest_version evs)"
proof (induction evs rule: rev_induct)
  case (snoc e evs)
  then show ?case by (cases "newest_version evs \<le> event_version e") (auto simp: max_def)
qed (simp add: newest_version_def)

lemma newest_policy_found:
  assumes "newest_version evs \<noteq> 0" "Drop (newest_version evs) \<notin> set evs"
  shows "\<exists>s. newest_policy evs = Some s \<and> Put s \<in> set evs \<and> cs_version s = newest_version evs"
proof -
  let ?f = "\<lambda>e. case e of Put s \<Rightarrow> if cs_version s = newest_version evs then Some s else None | Drop _ \<Rightarrow> None"
  from newest_version_attained [of evs] assms(1) obtain e where
    e: "e \<in> set evs" "event_version e = newest_version evs" by blast
  with assms(2) have "?f e \<noteq> None" by (cases e) auto
  with e(1) have "find_map ?f evs \<noteq> None" by (auto simp: find_map_None_iff)
  then obtain s where s: "find_map ?f evs = Some s" by blast
  from find_map_Some [OF this] obtain x where x: "x \<in> set evs" "?f x = Some s" by blast
  have "x = Put s \<and> cs_version s = newest_version evs"
  proof (cases x)
    case (Put t)
    with x(2) show ?thesis by (cases "cs_version t = newest_version evs") simp_all
  qed (use x(2) in simp)
  with x(1) have "Put s \<in> set evs" "cs_version s = newest_version evs" by blast+
  with s assms show ?thesis by (simp add: newest_policy_def Let_def)
qed

lemma slot_step_newest: "slot_step e (newest_slot evs) = newest_slot (evs @ [e])"
proof -
  have dom: "x \<in> set evs \<Longrightarrow> event_version x \<le> newest_version evs" for x by (rule newest_version_ge)
  have later: "newest_policy (evs @ [Put s]) = Some s" if "newest_version evs < cs_version s" for s
  proof -
    let ?f = "\<lambda>e. case e of Put t \<Rightarrow> if cs_version t = cs_version s then Some t else None | Drop _ \<Rightarrow> None"
    have "?f x = None" if "x \<in> set evs" for x
      using dom [OF that] \<open>newest_version evs < cs_version s\<close> by (cases x) auto
    then have "find_map ?f evs = None" by (simp add: find_map_None_iff)
    moreover have "Drop (cs_version s) \<notin> set evs" using dom [of "Drop (cs_version s)"] that by auto
    moreover have "0 < cs_version s" using that by (metis order_le_less_trans word_zero_le)
    ultimately show ?thesis using that by (auto simp: newest_policy_def Let_def find_map_append max_def)
  qed
  have same: "newest_policy (evs @ [Put s]) = newest_policy evs" if "cs_version s \<le> newest_version evs" for s
  proof (cases "newest_version evs = 0 \<or> Drop (newest_version evs) \<in> set evs")
    case True
    then show ?thesis using that by (auto simp: newest_policy_def Let_def max_def)
  next
    case False
    then obtain t where "newest_policy evs = Some t" using newest_policy_found by blast
    then show ?thesis using that False by (simp add: newest_policy_def Let_def find_map_append max_def)
  qed
  have dropped: "newest_policy (evs @ [Drop v]) = None" if "newest_version evs \<le> v" for v
    using that by (simp add: newest_policy_def Let_def max_def)
  have kept: "newest_policy (evs @ [Drop v]) = newest_policy evs" if "v < newest_version evs" for v
  proof (cases "newest_version evs = 0 \<or> Drop (newest_version evs) \<in> set evs")
    case True
    then show ?thesis using that by (auto simp: newest_policy_def Let_def max_def)
  next
    case False
    then obtain t where "newest_policy evs = Some t" using newest_policy_found by blast
    then show ?thesis using that False by (auto simp: newest_policy_def Let_def find_map_append max_def)
  qed
  show ?thesis
  proof (cases e)
    case (Put s)
    consider "cs_version s < newest_version evs" | "cs_version s = newest_version evs" | "newest_version evs < cs_version s"
      by fastforce
    then show ?thesis
      using Put same [of s] later [of s]
      by cases (auto simp: newest_slot_def slot_replace_def max_def split: option.splits)
  next
    case (Drop v)
    consider "v < newest_version evs" | "v = newest_version evs" | "newest_version evs < v" by fastforce
    then show ?thesis
      using Drop kept [of v] dropped [of v]
      by cases (auto simp: newest_slot_def slot_remove_def max_def)
  qed
qed

lemma slot_run_newest: "fold slot_step evs empty_slot = newest_slot evs"
proof (induction evs rule: rev_induct)
  case (snoc e evs)
  then show ?case by (simp add: slot_step_newest)
qed (simp add: newest_slot_def newest_policy_def newest_version_def empty_slot_def Let_def)

lemma store_run_newest: "slot_view (fold store_step es empty_store) scope = newest_slot (scope_events scope es)"
  by (simp add: store_run_view slot_run_newest)

text \<open>
  C21 [store_refines_newest]: After any sequence of publications and withdrawals, in whatever order
  they arrive, loading a scope yields the policy of the newest version published for it, the first
  one published with that version, and nothing if that version was withdrawn or no version above
  zero has arrived.
\<close>

theorem store_refines_newest:
  "load_snapshot scope (fold store_step es empty_store) = newest_policy (scope_events scope es)"
  by (simp add: load_snapshot_view store_run_newest newest_slot_def)

text \<open>Policies published for a scope with the same version are the same.\<close>

definition versions_agree :: "policy_event list \<Rightarrow> bool" where
  "versions_agree es \<longleftrightarrow>
     (\<forall>s t. Publish s \<in> set es \<and> Publish t \<in> set es \<and> slot_key (cs_scope s) = slot_key (cs_scope t)
        \<and> cs_version s = cs_version t \<longrightarrow> s = t)"

lemma newest_version_cong:
  assumes "set evs = set evs'"
  shows "newest_version evs = newest_version evs'"
proof -
  have "newest_version xs \<le> newest_version ys" if "set xs = set ys" for xs ys
    using newest_version_attained [of xs] newest_version_ge [of _ ys] that by (metis word_zero_le)
  with assms show ?thesis by (metis order_antisym)
qed

lemma set_scope_events: "set (scope_events scope es) = {ev. \<exists>e \<in> set es. slot_event_of e = (slot_key scope, ev)}"
proof -
  have "set (scope_events scope es) = snd ` {p \<in> slot_event_of ` set es. fst p = slot_key scope}"
    by (simp add: scope_events_def)
  also have "\<dots> = {ev. \<exists>e \<in> set es. slot_event_of e = (slot_key scope, ev)}"
    by (force simp: image_iff prod_eq_iff)
  finally show ?thesis .
qed

lemma scope_events_Put:
  "Put s \<in> set (scope_events scope es) \<longleftrightarrow> Publish s \<in> set es \<and> slot_key (cs_scope s) = slot_key scope"
proof -
  have "slot_event_of e = (k, Put s) \<longleftrightarrow> e = Publish s \<and> slot_key (cs_scope s) = k" for e k
    by (cases e) auto
  then show ?thesis by (auto simp: set_scope_events)
qed

text \<open>
  The order in which updates arrive does not matter, nor that some arrive
  twice: stores that have received the same set of publications and withdrawals hold the same
  policy and the same tombstone for every scope, when publications of one scope with the same
  version carry the same policy.
\<close>

theorem store_converges:
  assumes "set es = set es'" "versions_agree es"
  shows "slot_view (fold store_step es empty_store) scope = slot_view (fold store_step es' empty_store) scope"
proof -
  let ?e = "scope_events scope es" and ?e' = "scope_events scope es'"
  have s: "set ?e = set ?e'" using assms(1) by (simp add: set_scope_events)
  have v: "newest_version ?e = newest_version ?e'" by (rule newest_version_cong [OF s])
  have "newest_policy ?e = newest_policy ?e'"
  proof (cases "newest_version ?e = 0 \<or> Drop (newest_version ?e) \<in> set ?e")
    case True
    then show ?thesis using s v by (simp add: newest_policy_def Let_def)
  next
    case False
    then obtain a where a: "newest_policy ?e = Some a" "Put a \<in> set ?e" "cs_version a = newest_version ?e"
      using newest_policy_found by blast
    from False s v obtain b where b: "newest_policy ?e' = Some b" "Put b \<in> set ?e'" "cs_version b = newest_version ?e'"
      using newest_policy_found [of ?e'] by auto
    have "a = b"
      using a(2,3) b(2,3) assms v by (metis scope_events_Put versions_agree_def)
    with a b show ?thesis by simp
  qed
  with v show ?thesis by (simp add: store_run_newest newest_slot_def)
qed

definition sample_snapshot :: "u64 \<Rightarrow> compiled_policy_snapshot" where
  "sample_snapshot v =
     \<lparr>cs_policy_id = 1, cs_scope = hub (lit ''h''), cs_version = v, cs_profile_fingerprint = [],
      cs_rules = [], cs_rule_names = [], cs_surfaces = []\<rparr>"

theorem store_converges_witness:
  "slot_view (fold store_step [Publish (sample_snapshot 2), Withdraw (hub (lit ''h'')) 1, Publish (sample_snapshot 3)] empty_store)
      (hub (lit ''h''))
   = slot_view (fold store_step [Publish (sample_snapshot 3), Publish (sample_snapshot 2), Withdraw (hub (lit ''h'')) 1] empty_store)
      (hub (lit ''h''))"
proof (rule store_converges)
  show "set [Publish (sample_snapshot 2), Withdraw (hub (lit ''h'')) 1, Publish (sample_snapshot 3)]
      = set [Publish (sample_snapshot 3), Publish (sample_snapshot 2), Withdraw (hub (lit ''h'')) 1]" by auto
  show "versions_agree [Publish (sample_snapshot 2), Withdraw (hub (lit ''h'')) 1, Publish (sample_snapshot 3)]"
    by (auto simp: versions_agree_def sample_snapshot_def)
qed

section \<open>The loaded scopes\<close>

lemma loaded_scopes_set:
  assumes "store_wf st"
  shows "set (loaded_scopes st) = slot_key ` {scope. load_snapshot scope st \<noteq> None}"
proof -
  have "map_of (ps_scoped st) k = Some v \<longleftrightarrow> (k, v) \<in> set (ps_scoped st)" for k v
    using assms hm_wf_mem_iff [of "ps_scoped st"] by (simp add: store_wf_def)
  then have "scope \<in> set (loaded_scopes st) \<longleftrightarrow> (slot_key scope = scope \<and> load_snapshot scope st \<noteq> None)" for scope
    using assms by (cases scope; cases "sc_authority scope")
      (auto simp: loaded_scopes_def load_snapshot_def slot_key_def global_def store_wf_def bind_eq_Some_conv image_iff)
  moreover have "load_snapshot (slot_key scope) st = load_snapshot scope st" "slot_key (slot_key scope) = slot_key scope" for scope
    by (auto simp: load_snapshot_view slot_view_def slot_key_def global_def)
  ultimately show ?thesis by (auto simp: image_iff) metis
qed

lemma loaded_scopes_sorted:
  assumes "store_wf st"
  shows "sorted_wrt (<) (loaded_scopes st)" "loaded_scope_count st = length (loaded_scopes st)"
proof -
  let ?xs = "(if sl_current (ps_global st) \<noteq> None then [global] else [])
        @ map fst (filter (\<lambda>e. sl_current (snd e) \<noteq> None) (ps_scoped st))"
  have "global \<notin> set (map fst (filter (\<lambda>e. sl_current (snd e) \<noteq> None) (ps_scoped st)))"
    using assms by (fastforce simp: store_wf_def global_def)
  then have d: "distinct ?xs"
    using assms by (auto simp: store_wf_def hm_wf_def distinct_map_filter)
  have "inj_on (\<lambda>s. (sc_authority s, sc_id s)) (set ?xs)" by (auto intro!: inj_onI policy_scope.expand)
  with d have "distinct (map (\<lambda>s. (sc_authority s, sc_id s)) ?xs)"
    unfolding distinct_map by (rule conjI)
  then have "distinct (map (\<lambda>s. (sc_authority s, sc_id s)) (loaded_scopes st))"
    unfolding loaded_scopes_def distinct_map set_sort distinct_sort .
  then have "sorted_wrt (<) (map (\<lambda>s. (sc_authority s, sc_id s)) (loaded_scopes st))"
    unfolding strict_sorted_iff by (simp only: loaded_scopes_def sorted_sort_key)
  then have "sorted_wrt (<) (loaded_scopes st)"
    by (simp only: sorted_wrt_map less_policy_scope_def [abs_def])
  moreover have "loaded_scope_count st = length (loaded_scopes st)"
    by (simp add: loaded_scope_count_def loaded_scopes_def)
  ultimately show "sorted_wrt (<) (loaded_scopes st)" "loaded_scope_count st = length (loaded_scopes st)"
    by blast+
qed

text \<open>
  In any store reached by updates, the list of loaded scopes is
  ascending and without repetition, it names exactly the scopes that hold a policy, and its length
  is the reported count.
\<close>

theorem loaded_scopes_correct:
  "sorted_wrt (<) (loaded_scopes (fold store_step es empty_store))
   \<and> set (loaded_scopes (fold store_step es empty_store))
       = slot_key ` {scope. load_snapshot scope (fold store_step es empty_store) \<noteq> None}
   \<and> loaded_scope_count (fold store_step es empty_store) = length (loaded_scopes (fold store_step es empty_store))"
proof -
  have "store_wf (fold store_step es empty_store)" by (rule store.run_inv) simp
  from loaded_scopes_set [OF this] loaded_scopes_sorted [OF this] show ?thesis by blast
qed

end
