(* ===== verification/Service.thy ===== *)
theory Service
  imports Snapshot Validation
begin

text \<open>
  The runtime that loads, validates, compiles and publishes the policies
  (\<open>src/content_policy/service.rs\<close>). The source of the definitions is outside the program: what
  its calls returned is a value given to each operation. The operations first run alone, as the
  code writes them; then, since the periodic reconciliation and the event consumer are
  concurrent tasks, as sequences of pending updates that interleave.
\<close>

section \<open>The runtime\<close>

datatype reload_error =
  LoadFailed rstr
| ValidationFailed "policy_validation_error list"
| CompileFailed policy_match_error
| VersionNotVisible (vn_scope: policy_scope) (vn_expected: u64) (vn_loaded: u64)

text \<open>What a runtime is built with: its limits and the libraries it calls.\<close>

record runtime_context =
  rc_unicode :: unicode
  rc_show :: "uuid \<Rightarrow> rstr"
  rc_sha :: "byte list \<Rightarrow> byte list"
  rc_automaton :: automaton
  rc_limits :: policy_limits

text \<open>The results of the calls \<open>load_all()\<close> and \<open>load_scope(scope)\<close>.\<close>

record policy_source =
  so_load_all :: "rstr + content_policy list"
  so_load_scope :: "policy_scope \<Rightarrow> rstr + content_policy option"

definition compile_one :: "runtime_context \<Rightarrow> content_policy \<Rightarrow> (reload_error + compiled_policy_snapshot) option" where
  "compile_one c p =
     map_option (\<lambda>(definition', result).
         res_bind (map_err ValidationFailed result) (\<lambda>_.
           map_err CompileFailed (snapshot_compile (rc_unicode c) (rc_sha c) (rc_automaton c) definition')))
       (validate_and_classify_policy (rc_unicode c) (rc_show c) p (rc_limits c))"

text \<open>The iterator stops at the first error, so a later definition cannot panic.\<close>

fun compile_each :: "runtime_context \<Rightarrow> content_policy list \<Rightarrow> (reload_error + compiled_policy_snapshot list) option" where
  "compile_each c [] = Some (Inr [])"
| "compile_each c (p # ps) =
     Option.bind (compile_one c p) (\<lambda>r. case r of
         Inl e \<Rightarrow> Some (Inl e)
       | Inr s \<Rightarrow> map_option (\<lambda>rest. res_bind rest (\<lambda>ss. Inr (s # ss))) (compile_each c ps))"

definition compile_all :: "runtime_context \<Rightarrow> content_policy list \<Rightarrow> (reload_error + compiled_policy_snapshot list) option" where
  "compile_all c definitions = compile_each c (filter cp_enabled definitions)"

text \<open>The publication both operations share: replace the compiled ones, remove the disabled ones.\<close>

definition publish_definitions ::
  "content_policy list \<Rightarrow> compiled_policy_snapshot list \<Rightarrow> policy_snapshot_store \<Rightarrow> policy_snapshot_store" where
  "publish_definitions definitions compiled st =
     fold (\<lambda>d st. snd (remove_snapshot (cp_scope d) (cp_version d) st)) (filter (\<lambda>d. \<not> cp_enabled d) definitions)
       (fold (\<lambda>s st. snd (replace_snapshot s st)) compiled st)"

definition bootstrap ::
  "runtime_context \<Rightarrow> policy_source \<Rightarrow> policy_snapshot_store \<Rightarrow> ((reload_error + nat) \<times> policy_snapshot_store) option" where
  "bootstrap c src st =
     (case so_load_all src of
        Inl e \<Rightarrow> Some (Inl (LoadFailed e), st)
      | Inr definitions \<Rightarrow> map_option (\<lambda>r. case r of
            Inl e \<Rightarrow> (Inl e, st)
          | Inr compiled \<Rightarrow>
              let st' = publish_definitions definitions compiled st in (Inr (loaded_scope_count st'), st'))
          (compile_all c definitions))"

definition reload_scope ::
  "runtime_context \<Rightarrow> policy_source \<Rightarrow> policy_scope \<Rightarrow> u64 \<Rightarrow> policy_snapshot_store
     \<Rightarrow> ((reload_error + snapshot_update) \<times> policy_snapshot_store) option" where
  "reload_scope c src scope expected st =
     (case so_load_scope src scope of
        Inl e \<Rightarrow> Some (Inl (LoadFailed e), st)
      | Inr None \<Rightarrow> Some (case remove_snapshot scope expected st of (r, st') \<Rightarrow> (Inr r, st'))
      | Inr (Some d) \<Rightarrow>
          if cp_version d < expected then Some (Inl (VersionNotVisible scope expected (cp_version d)), st)
          else if \<not> cp_enabled d then
            Some (case remove_snapshot (cp_scope d) (cp_version d) st of (r, st') \<Rightarrow> (Inr r, st'))
          else map_option (\<lambda>r. case r of
              Inl e \<Rightarrow> (Inl e, st)
            | Inr s \<Rightarrow> (case replace_snapshot s st of (r, st') \<Rightarrow> (Inr r, st')))
            (compile_one c d))"

definition next_version :: "policy_scope \<Rightarrow> policy_snapshot_store \<Rightarrow> u64" where
  "next_version scope st =
     (case load_snapshot scope st of None \<Rightarrow> 1 | Some s \<Rightarrow> u64_saturating_add (cs_version s) 1)"

definition drop_missing :: "policy_scope \<Rightarrow> policy_snapshot_store \<Rightarrow> policy_snapshot_store" where
  "drop_missing scope st = snd (remove_snapshot scope (next_version scope st) st)"

definition reconcile ::
  "runtime_context \<Rightarrow> policy_source \<Rightarrow> policy_snapshot_store \<Rightarrow> ((reload_error + nat) \<times> policy_snapshot_store) option" where
  "reconcile c src st =
     (case so_load_all src of
        Inl e \<Rightarrow> Some (Inl (LoadFailed e), st)
      | Inr definitions \<Rightarrow> map_option (\<lambda>r. case r of
            Inl e \<Rightarrow> (Inl e, st)
          | Inr compiled \<Rightarrow>
              let present = map cp_scope definitions;
                  st' = publish_definitions definitions compiled st;
                  st'' = fold drop_missing (filter (\<lambda>s. s \<notin> set present) (loaded_scopes st')) st'
              in (Inr (loaded_scope_count st''), st''))
          (compile_all c definitions))"

section \<open>Compilation\<close>

lemma set_pattern_types_fields:
  "set_pattern_types f p = Some q \<Longrightarrow> cp_id q = cp_id p \<and> cp_scope q = cp_scope p \<and> cp_version q = cp_version p"
  by (auto simp: set_pattern_types_def)

lemma compile_one_fields:
  assumes "compile_one c d = Some (Inr s)"
  shows "cs_scope s = cp_scope d" "cs_version s = cp_version d" "cs_policy_id s = cp_id d"
proof -
  from assms obtain q where q: "validate_and_classify_policy (rc_unicode c) (rc_show c) d (rc_limits c) = Some (q, Inr ())"
    and s: "snapshot_compile (rc_unicode c) (rc_sha c) (rc_automaton c) q = Inr s"
    by (auto simp: compile_one_def)
  from q have "cp_id q = cp_id d \<and> cp_scope q = cp_scope d \<and> cp_version q = cp_version d"
    using set_pattern_types_fields
    by (auto simp: validate_and_classify_policy_def bind_eq_Some_conv split: if_splits)
  with compile_fields(1-3) [OF s [unfolded snapshot_compile_def]]
  show "cs_scope s = cp_scope d" "cs_version s = cp_version d" "cs_policy_id s = cp_id d" by simp_all
qed

text \<open>The compiled form of a definition, if it has one.\<close>

definition compiled :: "runtime_context \<Rightarrow> content_policy \<Rightarrow> compiled_policy_snapshot option" where
  "compiled c d = (case compile_one c d of Some (Inr s) \<Rightarrow> Some s | _ \<Rightarrow> None)"

lemma compiled_Some: "compiled c d = Some s \<longleftrightarrow> compile_one c d = Some (Inr s)"
  by (auto simp: compiled_def split: option.splits sum.splits)

lemma compile_each_ok:
  "compile_each c ds = Some (Inr ss) \<longleftrightarrow> list_all2 (\<lambda>d s. compiled c d = Some s) ds ss"
proof (induction ds arbitrary: ss)
  case (Cons d ds)
  show ?case
  proof (cases "compile_one c d")
    case (Some r)
    with Cons show ?thesis by (cases r; cases ss) (auto simp: compiled_Some)
  qed (auto simp: list_all2_Cons1 compiled_Some)
qed auto

section \<open>Publication\<close>

definition definition_event :: "runtime_context \<Rightarrow> content_policy \<Rightarrow> policy_event" where
  "definition_event c d =
     (if cp_enabled d then Publish (the (compiled c d)) else Withdraw (cp_scope d) (cp_version d))"

definition publication :: "content_policy list \<Rightarrow> compiled_policy_snapshot list \<Rightarrow> policy_event list" where
  "publication ds ss = map Publish ss @ map (\<lambda>d. Withdraw (cp_scope d) (cp_version d)) (filter (\<lambda>d. \<not> cp_enabled d) ds)"

lemma store_step_fun:
  "(\<lambda>x. store_step (Publish x)) = (\<lambda>s st. snd (replace_snapshot s st))"
  "(\<lambda>x. store_step (Withdraw (f x) (g x))) = (\<lambda>x st. snd (remove_snapshot (f x) (g x) st))"
  by (auto simp: fun_eq_iff)

lemma publish_definitions_run: "publish_definitions ds ss st = fold store_step (publication ds ss) st"
  by (simp only: publish_definitions_def publication_def fold_map comp_def store_step_fun fold_append)

lemma publication_events:
  assumes "list_all2 (\<lambda>d s. compiled c d = Some s) (filter cp_enabled ds) ss"
  shows "publication ds ss = map (definition_event c) (filter cp_enabled ds @ filter (\<lambda>d. \<not> cp_enabled d) ds)"
proof -
  from assms have "map Publish ss = map (definition_event c) (filter cp_enabled ds)"
  proof (induction ds arbitrary: ss)
    case (Cons d ds)
    show ?case
    proof (cases "cp_enabled d")
      case True
      with Cons.prems obtain s rest where "ss = s # rest" "compiled c d = Some s"
        "list_all2 (\<lambda>d s. compiled c d = Some s) (filter cp_enabled ds) rest"
        by (auto simp: list_all2_Cons1)
      with True Cons.IH [of rest] show ?thesis by (simp add: definition_event_def)
    qed (use Cons in simp)
  qed simp
  then show ?thesis by (simp add: publication_def definition_event_def)
qed

text \<open>What the database promises of its rows: canonical scopes, one row each, versions from one.\<close>

definition definitions_ok :: "content_policy list \<Rightarrow> bool" where
  "definitions_ok ds \<longleftrightarrow>
     distinct (map cp_scope ds) \<and> list_all (\<lambda>d. slot_key (cp_scope d) = cp_scope d \<and> 0 < cp_version d) ds"

definition row_of :: "policy_scope \<Rightarrow> content_policy list \<Rightarrow> content_policy option" where
  "row_of scope ds = find (\<lambda>d. cp_scope d = slot_key scope) ds"

lemma row_of_Some:
  assumes "definitions_ok ds"
  shows "row_of scope ds = Some d \<longleftrightarrow> d \<in> set ds \<and> cp_scope d = slot_key scope"
proof
  assume "row_of scope ds = Some d"
  then show "d \<in> set ds \<and> cp_scope d = slot_key scope" by (auto simp: row_of_def find_Some_iff)
next
  assume r: "d \<in> set ds \<and> cp_scope d = slot_key scope"
  then obtain e where e: "row_of scope ds = Some e" "e \<in> set ds" "cp_scope e = slot_key scope"
    unfolding row_of_def by (cases "find (\<lambda>d. cp_scope d = slot_key scope) ds") (auto simp: find_None_iff find_Some_iff)
  with r assms have "e = d" by (simp add: definitions_ok_def distinct_map inj_on_def)
  with e show "row_of scope ds = Some d" by simp
qed

lemma filter_unique: "distinct xs \<Longrightarrow> x \<in> set xs \<Longrightarrow> (\<And>y. y \<in> set xs \<Longrightarrow> P y \<longleftrightarrow> y = x) \<Longrightarrow> filter P xs = [x]"
  by (induction xs) (auto simp: filter_empty_conv)

text \<open>What one definition does to the slot of its scope.\<close>

definition definition_slot :: "runtime_context \<Rightarrow> content_policy \<Rightarrow> slot_event" where
  "definition_slot c d = (if cp_enabled d then Put (the (compiled c d)) else Drop (cp_version d))"

definition all_compile :: "runtime_context \<Rightarrow> content_policy list \<Rightarrow> bool" where
  "all_compile c ds \<longleftrightarrow> (\<forall>d \<in> set ds. cp_enabled d \<longrightarrow> compiled c d \<noteq> None)"

lemma definition_event_slot:
  assumes "cp_enabled d \<longrightarrow> compiled c d \<noteq> None"
  shows "slot_event_of (definition_event c d) = (slot_key (cp_scope d), definition_slot c d)"
proof (cases "compiled c d")
  case (Some s)
  then have "cs_scope s = cp_scope d" by (rule compile_one_fields(1) [OF compiled_Some [THEN iffD1]])
  with Some show ?thesis by (simp add: definition_slot_def definition_event_def)
qed (use assms in \<open>auto simp: definition_slot_def definition_event_def\<close>)

lemma publication_view:
  assumes ok: "definitions_ok ds" and all: "all_compile c ds"
    and l: "list_all2 (\<lambda>d s. compiled c d = Some s) (filter cp_enabled ds) ss"
  shows "slot_view (publish_definitions ds ss st) scope =
     (case row_of scope ds of None \<Rightarrow> slot_view st scope | Some d \<Rightarrow> slot_step (definition_slot c d) (slot_view st scope))"
proof -
  let ?xs = "filter cp_enabled ds @ filter (\<lambda>d. \<not> cp_enabled d) ds"
  have set: "set ?xs = set ds" by auto
  have ev: "slot_event_of (definition_event c d) = (cp_scope d, definition_slot c d)" if "d \<in> set ds" for d
    using definition_event_slot [of d c] that all ok by (auto simp: all_compile_def definitions_ok_def list_all_iff)
  have evs: "scope_events scope (map (definition_event c) xs) =
      map (definition_slot c) (filter (\<lambda>d. cp_scope d = slot_key scope) xs)" if "set xs \<subseteq> set ds" for xs
    using that by (induction xs) (auto simp: scope_events_def ev)
  have d: "distinct ?xs" using ok by (auto simp: definitions_ok_def distinct_map)
  have "filter (\<lambda>d. cp_scope d = slot_key scope) ?xs = (case row_of scope ds of None \<Rightarrow> [] | Some d \<Rightarrow> [d])"
  proof (cases "row_of scope ds")
    case None
    then have "filter (\<lambda>d. cp_scope d = slot_key scope) ?xs = []"
      by (auto simp: row_of_def find_None_iff filter_empty_conv)
    with None show ?thesis by simp
  next
    case (Some d)
    then have m: "d \<in> set ds" "cp_scope d = slot_key scope" using row_of_Some [OF ok] by blast+
    have "y = d" if "y \<in> set ds" "cp_scope y = slot_key scope" for y
      using row_of_Some [OF ok, of scope y] that Some by simp
    with m have "d \<in> set ?xs" "\<And>y. y \<in> set ?xs \<Longrightarrow> cp_scope y = slot_key scope \<longleftrightarrow> y = d"
      unfolding set by blast+
    from filter_unique [OF d this] Some show ?thesis by simp
  qed
  then show ?thesis
    unfolding publish_definitions_run publication_events [OF l] store_run_view
    using evs [of ?xs] set by (auto split: option.splits)
qed

section \<open>Start-up\<close>

text \<open>What the rows of the database say a scope enforces.\<close>

definition enforced :: "runtime_context \<Rightarrow> content_policy list \<Rightarrow> policy_scope \<Rightarrow> compiled_policy_snapshot option" where
  "enforced c ds scope = Option.bind (row_of scope ds) (\<lambda>d. if cp_enabled d then compiled c d else None)"

text \<open>No slot is ahead of the row of its scope.\<close>

definition behind :: "runtime_context \<Rightarrow> content_policy list \<Rightarrow> policy_snapshot_store \<Rightarrow> bool" where
  "behind c ds st \<longleftrightarrow> list_all (\<lambda>d.
     sl_last_version (slot_view st (cp_scope d)) < cp_version d
     \<or> slot_view st (cp_scope d)
        = \<lparr>sl_current = if cp_enabled d then compiled c d else None, sl_last_version = cp_version d\<rparr>) ds"

lemma slot_replace_newer:
  "sl_last_version slot < cs_version s \<Longrightarrow>
     slot_replace s slot = (Replaced, \<lparr>sl_current = Some s, sl_last_version = cs_version s\<rparr>)"
  using order.asym [of "sl_last_version slot" "cs_version s"] order.strict_implies_not_eq [of "sl_last_version slot" "cs_version s"]
  by (simp add: slot_replace_def)

lemma slot_remove_newer:
  "sl_last_version slot < v \<Longrightarrow> slot_remove v slot = (Removed, \<lparr>sl_current = None, sl_last_version = v\<rparr>)"
  using order.asym [of "sl_last_version slot" v] order.strict_implies_not_eq [of "sl_last_version slot" v]
  by (simp add: slot_remove_def)

lemma slot_step_again:
  "slot_step (Put s) \<lparr>sl_current = Some s, sl_last_version = cs_version s\<rparr>
     = \<lparr>sl_current = Some s, sl_last_version = cs_version s\<rparr>"
  "slot_step (Drop v) \<lparr>sl_current = None, sl_last_version = v\<rparr> = \<lparr>sl_current = None, sl_last_version = v\<rparr>"
  by (simp_all add: slot_replace_def slot_remove_def)

lemma definition_slot_behind:
  assumes "behind c ds st" "d \<in> set ds" "cp_enabled d \<Longrightarrow> compiled c d \<noteq> None"
  shows "slot_step (definition_slot c d) (slot_view st (cp_scope d))
     = \<lparr>sl_current = if cp_enabled d then compiled c d else None, sl_last_version = cp_version d\<rparr>"
proof -
  let ?slot = "slot_view st (cp_scope d)"
  let ?new = "\<lparr>sl_current = if cp_enabled d then compiled c d else None, sl_last_version = cp_version d\<rparr>"
  have b: "sl_last_version ?slot < cp_version d \<or> ?slot = ?new"
    using assms(1,2) by (simp add: behind_def list_all_iff)
  show ?thesis
  proof (cases "cp_enabled d")
    case True
    with assms(3) obtain s where s: "compiled c d = Some s" by blast
    then have v: "cs_version s = cp_version d" by (rule compile_one_fields(2) [OF compiled_Some [THEN iffD1]])
    have e: "definition_slot c d = Put s" using True s by (simp add: definition_slot_def)
    from b show ?thesis
    proof
      assume "sl_last_version ?slot < cp_version d"
      with True s v show ?thesis unfolding e by (simp add: slot_replace_newer)
    next
      assume eq: "?slot = ?new"
      show ?thesis unfolding e eq using slot_step_again(1) [of s] True s v by simp
    qed
  next
    case False
    then have e: "definition_slot c d = Drop (cp_version d)" by (simp add: definition_slot_def)
    from b show ?thesis
    proof
      assume "sl_last_version ?slot < cp_version d"
      with False show ?thesis unfolding e by (simp add: slot_remove_newer)
    next
      assume eq: "?slot = ?new"
      show ?thesis unfolding e eq using slot_step_again(2) False by simp
    qed
  qed
qed

lemma publication_enforced:
  assumes "definitions_ok ds" "all_compile c ds" "behind c ds st"
    and "list_all2 (\<lambda>d s. compiled c d = Some s) (filter cp_enabled ds) ss"
  shows "load_snapshot scope (publish_definitions ds ss st)
     = (if row_of scope ds = None then load_snapshot scope st else enforced c ds scope)"
proof (cases "row_of scope ds")
  case (Some d)
  then have d: "d \<in> set ds" "cp_scope d = slot_key scope" using row_of_Some [OF assms(1)] by blast+
  then have v: "slot_view st (cp_scope d) = slot_view st scope"
    using assms(1) by (intro slot_view_key) (auto simp: definitions_ok_def list_all_iff)
  have "cp_enabled d \<Longrightarrow> compiled c d \<noteq> None" using assms(2) d(1) by (auto simp: all_compile_def)
  from definition_slot_behind [OF assms(3) d(1) this] Some v
  show ?thesis by (simp add: load_snapshot_view publication_view [OF assms(1,2,4)] enforced_def)
qed (simp add: load_snapshot_view publication_view [OF assms(1,2,4)])

lemma compile_all_total:
  assumes "all_compile c ds"
  shows "\<exists>ss. compile_all c ds = Some (Inr ss) \<and> list_all2 (\<lambda>d s. compiled c d = Some s) (filter cp_enabled ds) ss"
proof -
  have "list_all2 (\<lambda>d s. compiled c d = Some s) (filter cp_enabled ds) (map (\<lambda>d. the (compiled c d)) (filter cp_enabled ds))"
    using assms by (auto simp: list_all2_conv_all_nth all_compile_def dest!: nth_mem)
  then show ?thesis by (metis compile_all_def compile_each_ok)
qed

lemma compile_all_ok: "compile_all c ds = Some (Inr ss) \<Longrightarrow> all_compile c ds"
proof -
  assume "compile_all c ds = Some (Inr ss)"
  then have "list_all2 (\<lambda>d s. compiled c d = Some s) (filter cp_enabled ds) ss"
    by (simp add: compile_all_def compile_each_ok)
  then have "\<forall>d \<in> set (filter cp_enabled ds). \<exists>s. compiled c d = Some s"
    unfolding list_all2_conv_all_nth by (metis in_set_conv_nth)
  then show ?thesis by (auto simp: all_compile_def)
qed

lemma store_wf_publish: "store_wf st \<Longrightarrow> store_wf (publish_definitions ds ss st)"
  unfolding publish_definitions_run by (rule store.run_inv)

lemma enforced_scopes:
  assumes ok: "definitions_ok ds" and all: "all_compile c ds"
  shows "slot_key ` {scope. enforced c ds scope \<noteq> None} = cp_scope ` set (filter cp_enabled ds)"
proof -
  have e: "enforced c ds scope \<noteq> None \<longleftrightarrow> (\<exists>d \<in> set ds. cp_enabled d \<and> cp_scope d = slot_key scope)" for scope
  proof (cases "row_of scope ds")
    case None
    then have "\<forall>d \<in> set ds. cp_scope d \<noteq> slot_key scope" by (auto simp: row_of_def find_None_iff)
    with None show ?thesis by (auto simp: enforced_def)
  next
    case (Some d)
    then have d: "d \<in> set ds" "cp_scope d = slot_key scope" using row_of_Some [OF ok] by blast+
    have u: "e = d" if "e \<in> set ds" "cp_scope e = slot_key scope" for e
      using row_of_Some [OF ok, of scope e] that Some by simp
    have "cp_enabled d \<longrightarrow> compiled c d \<noteq> None" using all d(1) unfolding all_compile_def by blast
    then have "enforced c ds scope \<noteq> None \<longleftrightarrow> cp_enabled d" using Some by (simp add: enforced_def)
    also have "\<dots> \<longleftrightarrow> (\<exists>d \<in> set ds. cp_enabled d \<and> cp_scope d = slot_key scope)" using d u by blast
    finally show ?thesis .
  qed
  have k: "slot_key (cp_scope d) = cp_scope d" if "d \<in> set ds" for d
    using ok that by (auto simp: definitions_ok_def list_all_iff)
  show ?thesis
  proof (intro equalityI subsetI)
    fix x
    assume "x \<in> slot_key ` {scope. enforced c ds scope \<noteq> None}"
    then obtain d where "d \<in> set ds" "cp_enabled d" "x = cp_scope d" unfolding e by auto
    then show "x \<in> cp_scope ` set (filter cp_enabled ds)" by auto
  next
    fix x
    assume "x \<in> cp_scope ` set (filter cp_enabled ds)"
    then obtain d where d: "d \<in> set ds" "cp_enabled d" "x = cp_scope d" by auto
    then have "enforced c ds x \<noteq> None" unfolding e using k by auto
    moreover have "x = slot_key x" using k d by simp
    ultimately show "x \<in> slot_key ` {scope. enforced c ds scope \<noteq> None}" by blast
  qed
qed

lemma loaded_count_enforced:
  assumes ok: "definitions_ok ds" and all: "all_compile c ds"
    and st: "store_wf st" "\<And>scope. load_snapshot scope st = enforced c ds scope"
  shows "loaded_scope_count st = length (filter cp_enabled ds)"
proof -
  have "loaded_scope_count st = card (set (loaded_scopes st))"
    using loaded_scopes_sorted [OF st(1)] strict_sorted_iff distinct_card by metis
  also have "set (loaded_scopes st) = cp_scope ` set (filter cp_enabled ds)"
    unfolding loaded_scopes_set [OF st(1)] st(2) by (rule enforced_scopes [OF ok all])
  also have "card \<dots> = length (filter cp_enabled ds)"
  proof -
    have "distinct (map cp_scope (filter cp_enabled ds))" using ok by (simp add: definitions_ok_def distinct_map_filter)
    from distinct_card [OF this] show ?thesis by simp
  qed
  finally show ?thesis .
qed

text \<open>
  Start-up is all or nothing. If every enabled row validates and compiles,
  the runtime publishes exactly the compiled rows, each under its scope, and reports their number;
  otherwise nothing becomes visible and start-up fails.
\<close>

theorem bootstrap_correct:
  assumes "definitions_ok ds" "so_load_all src = Inr ds"
  shows "if all_compile c ds
    then \<exists>st. bootstrap c src empty_store = Some (Inr (length (filter cp_enabled ds)), st)
      \<and> (\<lambda>scope. load_snapshot scope st) = enforced c ds
    else bootstrap c src empty_store = None
      \<or> (\<exists>e. bootstrap c src empty_store = Some (Inl e, empty_store))"
proof (cases "all_compile c ds")
  case True
  from compile_all_total [OF True] obtain ss where ss: "compile_all c ds = Some (Inr ss)"
    "list_all2 (\<lambda>d s. compiled c d = Some s) (filter cp_enabled ds) ss" by blast
  let ?st = "publish_definitions ds ss empty_store"
  have b: "behind c ds empty_store"
    using assms(1) by (auto simp: behind_def definitions_ok_def list_all_iff empty_slot_def)
  have l: "load_snapshot scope ?st = enforced c ds scope" for scope
    using publication_enforced [OF assms(1) True b ss(2), of scope]
    by (auto simp: enforced_def load_snapshot_view empty_slot_def)
  have "loaded_scope_count ?st = length (filter cp_enabled ds)"
    by (rule loaded_count_enforced [OF assms(1) True store_wf_publish l]) simp
  with True ss(1) assms(2) l show ?thesis by (auto simp: bootstrap_def Let_def)
next
  case False
  then have "compile_all c ds \<noteq> Some (Inr ss)" for ss using compile_all_ok by blast
  with False assms(2) show ?thesis
    by (cases "compile_all c ds") (auto simp: bootstrap_def split: sum.splits)
qed

text \<open>A runtime over the restricted alphabet, and a source with one enabled row and a disabled one.\<close>

definition sample_context :: runtime_context where
  "sample_context =
     \<lparr>rc_unicode = ascii_unicode, rc_show = (\<lambda>_. lit ''id''), rc_sha = (\<lambda>b. b),
      rc_automaton = naive_automaton, rc_limits = default_limits\<rparr>"

definition sample_rows :: "content_policy list" where
  "sample_rows =
     [word_policy 5 (hub (lit ''h'')) 7 (lit ''spam''),
      (word_policy 6 (server (lit ''s'')) 8 (lit ''ad''))\<lparr>cp_enabled := False\<rparr>]"

definition source_of :: "content_policy list \<Rightarrow> policy_source" where
  "source_of ds = \<lparr>so_load_all = Inr ds, so_load_scope = (\<lambda>scope. Inr (row_of scope ds))\<rparr>"

lemma sample_rows_ok: "definitions_ok sample_rows"
  by code_simp

lemma sample_rows_compile: "all_compile sample_context sample_rows"
proof -
  have "list_all (\<lambda>d. cp_enabled d \<longrightarrow> compiled sample_context d \<noteq> None) sample_rows" by code_simp
  then show ?thesis by (simp add: all_compile_def list_all_iff)
qed

theorem bootstrap_correct_witness:
  "\<exists>st. bootstrap sample_context (source_of sample_rows) empty_store = Some (Inr 1, st)
     \<and> load_snapshot (server (lit ''s'')) st = None
     \<and> load_snapshot (hub (lit ''h'')) st = compiled sample_context (hd sample_rows)"
proof -
  have src: "so_load_all (source_of sample_rows) = Inr sample_rows" by (simp add: source_of_def)
  from bootstrap_correct [OF sample_rows_ok src, of sample_context] sample_rows_compile obtain st where
    st: "bootstrap sample_context (source_of sample_rows) empty_store = Some (Inr (length (filter cp_enabled sample_rows)), st)"
    and l: "(\<lambda>scope. load_snapshot scope st) = enforced sample_context sample_rows" by auto
  have "length (filter cp_enabled sample_rows) = 1" by code_simp
  moreover have "enforced sample_context sample_rows (server (lit ''s'')) = None"
    "enforced sample_context sample_rows (hub (lit ''h'')) = compiled sample_context (hd sample_rows)"
    by (simp_all add: enforced_def row_of_def sample_rows_def word_policy_def slot_key_def server_def hub_def)
  ultimately show ?thesis using st fun_cong [OF l] by auto
qed

section \<open>Reconciliation\<close>

definition slot_ok :: "snapshot_slot \<Rightarrow> bool" where
  "slot_ok slot \<longleftrightarrow> (\<forall>s. sl_current slot = Some s \<longrightarrow> cs_version s = sl_last_version slot)"

lemma slot_step_ok: "slot_ok slot \<Longrightarrow> slot_ok (slot_step e slot)"
  by (cases e) (auto simp: slot_ok_def slot_replace_def slot_remove_def split: option.splits)

interpretation slots: invariant_steps slot_step slot_ok
  by unfold_locales (rule slot_step_ok)

lemma store_run_slot_ok: "slot_ok (slot_view (fold store_step es empty_store) scope)"
  unfolding store_run_view by (rule slots.run_inv) (simp add: slot_ok_def empty_slot_def)

lemma drop_missing_view:
  "slot_view (drop_missing sc st) scope =
     (if slot_key scope = slot_key sc then slot_step (Drop (next_version sc st)) (slot_view st scope)
      else slot_view st scope)"
  using store_step_view [of "Withdraw sc (next_version sc st)" st scope] by (auto simp: drop_missing_def)

lemma slot_remove_next:
  assumes "slot_ok slot"
  shows "sl_current (snd (slot_remove (case sl_current slot of None \<Rightarrow> 1 | Some s \<Rightarrow> u64_saturating_add (cs_version s) 1) slot)) = None"
proof (cases "sl_current slot")
  case (Some s)
  with assms have "sl_last_version slot = cs_version s" by (simp add: slot_ok_def)
  with Some u64_saturating_add_ge [of "cs_version s" 1] show ?thesis
    by (simp add: slot_remove_def leD)
qed (simp add: slot_remove_def)

lemma drop_missing_load:
  assumes "slot_ok (slot_view st scope)"
  shows "load_snapshot scope (drop_missing sc st) = (if slot_key scope = slot_key sc then None else load_snapshot scope st)"
proof (cases "slot_key scope = slot_key sc")
  case True
  from slot_view_key [OF this, of st] have v: "slot_view st scope = slot_view st sc" .
  with assms slot_remove_next [of "slot_view st sc"] True show ?thesis
    by (simp add: load_snapshot_view drop_missing_view next_version_def)
qed (simp add: load_snapshot_view drop_missing_view)

lemma slot_key_idem [simp]: "slot_key (slot_key scope) = slot_key scope"
  by (auto simp: slot_key_def global_def)

lemma drop_missing_all:
  assumes "\<And>sc. slot_ok (slot_view st sc)"
  shows "load_snapshot scope (fold drop_missing scopes st)
     = (if slot_key scope \<in> slot_key ` set scopes then None else load_snapshot scope st)"
  using assms
proof (induction scopes arbitrary: st)
  case (Cons sc scopes)
  have "slot_ok (slot_view (drop_missing sc st) x)" for x
    unfolding drop_missing_view by (auto simp del: slot_step.simps intro!: slot_step_ok Cons.prems)
  from Cons.IH [OF this] drop_missing_load [OF Cons.prems, of scope sc] show ?case by auto
qed simp

lemma drop_missing_wf: "store_wf st \<Longrightarrow> store_wf (fold drop_missing scopes st)"
proof (induction scopes arbitrary: st)
  case (Cons sc scopes)
  from Cons.IH store_step_wf [OF Cons.prems, of "Withdraw sc (next_version sc st)"]
  show ?case by (simp add: drop_missing_def)
qed simp

text \<open>
  C20 [reconcile_correct]: Whatever updates the registry received or missed before, if no slot is
  ahead of the row of its scope, one reconciliation makes the registry enforce exactly the rows of
  the database: every enabled row is published, everything else is dropped, and the reported number
  is that of the enabled rows.
\<close>

theorem reconcile_correct:
  assumes "definitions_ok ds" "all_compile c ds" "so_load_all src = Inr ds"
    and "behind c ds (fold store_step es empty_store)"
  shows "\<exists>st. reconcile c src (fold store_step es empty_store) = Some (Inr (length (filter cp_enabled ds)), st)
     \<and> (\<lambda>scope. load_snapshot scope st) = enforced c ds"
proof -
  let ?st = "fold store_step es empty_store"
  from compile_all_total [OF assms(2)] obtain ss where ss: "compile_all c ds = Some (Inr ss)"
    "list_all2 (\<lambda>d s. compiled c d = Some s) (filter cp_enabled ds) ss" by blast
  let ?pub = "publish_definitions ds ss ?st"
  let ?gone = "filter (\<lambda>s. s \<notin> set (map cp_scope ds)) (loaded_scopes ?pub)"
  have run: "?pub = fold store_step (es @ publication ds ss) empty_store" by (simp add: publish_definitions_run)
  have wf: "store_wf ?pub" unfolding run by (rule store.run_inv) simp
  have ok: "slot_ok (slot_view ?pub scope)" for scope unfolding run by (rule store_run_slot_ok)
  have pub: "load_snapshot scope ?pub = (if row_of scope ds = None then load_snapshot scope ?st else enforced c ds scope)" for scope
    by (rule publication_enforced [OF assms(1,2,4) ss(2)])
  have row: "row_of scope ds = None \<longleftrightarrow> slot_key scope \<notin> cp_scope ` set ds" for scope
    by (auto simp: row_of_def find_None_iff image_iff)
  have l: "load_snapshot scope (fold drop_missing ?gone ?pub) = enforced c ds scope" for scope
  proof (cases "row_of scope ds = None")
    case True
    then have e: "enforced c ds scope = None" by (simp add: enforced_def)
    have "slot_key scope \<in> slot_key ` set ?gone" if "load_snapshot scope ?pub \<noteq> None"
    proof -
      have "slot_key scope \<in> set (loaded_scopes ?pub)" unfolding loaded_scopes_set [OF wf] using that by blast
      with True row [of scope] have "slot_key scope \<in> set ?gone" by simp
      then show ?thesis by (rule rev_image_eqI) simp
    qed
    then show ?thesis unfolding drop_missing_all [OF ok] e
      by (cases "load_snapshot scope ?pub = None") (simp_all only: if_cancel if_True not_False_eq_True not_True_eq_False)
  next
    case False
    have "slot_key x = x" if "x \<in> set ?gone" for x using that loaded_scopes_set [OF wf] by auto
    then have "slot_key ` set ?gone = set ?gone" by force
    moreover have "slot_key scope \<notin> set ?gone" using False row [of scope] by auto
    ultimately have "slot_key scope \<notin> slot_key ` set ?gone" by simp
    then show ?thesis using drop_missing_all [OF ok, of scope] pub [of scope] False
      by (cases "row_of scope ds") simp_all
  qed
  have "loaded_scope_count (fold drop_missing ?gone ?pub) = length (filter cp_enabled ds)"
    by (rule loaded_count_enforced [OF assms(1,2) drop_missing_wf [OF wf] l])
  with l ss(1) assms(3) show ?thesis by (auto simp: reconcile_def Let_def)
qed

theorem reconcile_correct_witness:
  "\<exists>st. reconcile sample_context (source_of sample_rows) (fold store_step [Publish (sample_snapshot 0), Withdraw (server (lit ''s'')) 0] empty_store)
       = Some (Inr 1, st)
     \<and> load_snapshot (hub (lit ''h'')) st = compiled sample_context (hd sample_rows)"
proof -
  have src: "so_load_all (source_of sample_rows) = Inr sample_rows" by (simp add: source_of_def)
  have b: "behind sample_context sample_rows (fold store_step [Publish (sample_snapshot 0), Withdraw (server (lit ''s'')) 0] empty_store)"
    by code_simp
  from reconcile_correct [OF sample_rows_ok sample_rows_compile src b] obtain st where
    st: "reconcile sample_context (source_of sample_rows) (fold store_step [Publish (sample_snapshot 0), Withdraw (server (lit ''s'')) 0] empty_store)
       = Some (Inr (length (filter cp_enabled sample_rows)), st)"
    and l: "(\<lambda>scope. load_snapshot scope st) = enforced sample_context sample_rows" by blast
  have "length (filter cp_enabled sample_rows) = 1" by code_simp
  moreover have "enforced sample_context sample_rows (hub (lit ''h'')) = compiled sample_context (hd sample_rows)"
    by (simp add: enforced_def row_of_def sample_rows_def word_policy_def slot_key_def hub_def)
  ultimately show ?thesis using st fun_cong [OF l] by auto
qed

section \<open>Reloading one scope\<close>

lemma slot_replace_reaches: "cs_version s \<le> sl_last_version (snd (slot_replace s slot))"
  by (auto simp: slot_replace_def split: option.splits)

lemma slot_remove_reaches: "v \<le> sl_last_version (snd (slot_remove v slot))"
  by (auto simp: slot_remove_def)

lemma replace_remove_view:
  "slot_view (snd (replace_snapshot s st)) scope =
     (if slot_key (cs_scope s) = slot_key scope then snd (slot_replace s (slot_view st scope)) else slot_view st scope)"
  "slot_view (snd (remove_snapshot sc v st)) scope =
     (if slot_key sc = slot_key scope then snd (slot_remove v (slot_view st scope)) else slot_view st scope)"
  using store_step_view [of "Publish s" st scope] store_step_view [of "Withdraw sc v" st scope] by simp_all

text \<open>
  The steps a reload takes on the registry: none when it fails, and otherwise the publication or
  withdrawal of the row that was read.
\<close>

definition reload_events :: "runtime_context \<Rightarrow> policy_scope \<Rightarrow> u64 \<Rightarrow> content_policy option \<Rightarrow> policy_event list" where
  "reload_events c scope expected row =
     (case row of
        None \<Rightarrow> [Withdraw scope expected]
      | Some d \<Rightarrow> if cp_version d < expected \<or> cp_enabled d \<and> compiled c d = None then [] else [definition_event c d])"

lemma reload_scope_run:
  assumes "reload_scope c src scope expected st = Some (r, st')"
  shows "\<not> is_ok r \<and> st' = st
    \<or> (\<exists>row. so_load_scope src scope = Inr row \<and> is_ok r \<and> reload_events c scope expected row \<noteq> []
         \<and> st' = fold store_step (reload_events c scope expected row) st)"
proof (cases "so_load_scope src scope")
  case (Inl e)
  with assms show ?thesis by (auto simp: reload_scope_def)
next
  case row: (Inr row)
  show ?thesis
  proof (cases row)
    case None
    with row assms show ?thesis by (auto simp: reload_scope_def reload_events_def split: prod.splits)
  next
    case (Some d)
    consider "cp_version d < expected" | "\<not> cp_version d < expected" "\<not> cp_enabled d"
      | "\<not> cp_version d < expected" "cp_enabled d" by blast
    then show ?thesis
    proof cases
      case 1
      with row Some assms show ?thesis by (auto simp: reload_scope_def)
    next
      case 2
      with row Some assms show ?thesis
        by (auto simp: reload_scope_def reload_events_def definition_event_def split: prod.splits)
    next
      case 3
      with row Some assms obtain x where x: "compile_one c d = Some x" by (auto simp: reload_scope_def)
      show ?thesis
      proof (cases x)
        case (Inl e)
        with row Some assms 3 x show ?thesis by (auto simp: reload_scope_def)
      next
        case (Inr s)
        then have "compiled c d = Some s" using x by (simp add: compiled_Some)
        with Inr row Some assms 3 x show ?thesis
          by (auto simp: reload_scope_def reload_events_def definition_event_def split: prod.splits)
      qed
    qed
  qed
qed

lemma reload_scope_effects:
  assumes "reload_scope c src scope expected st = Some (r, st')"
    and "case so_load_scope src scope of Inr (Some d) \<Rightarrow> slot_key (cp_scope d) = slot_key scope | _ \<Rightarrow> True"
  shows "if is_ok r then expected \<le> sl_last_version (slot_view st' scope)
           \<and> (\<lambda>sc. if slot_key sc = slot_key scope then None else Some (slot_view st' sc))
             = (\<lambda>sc. if slot_key sc = slot_key scope then None else Some (slot_view st sc))
         else st' = st"
proof (cases "is_ok r")
  case True
  with reload_scope_run [OF assms(1)] obtain row where finished: "so_load_scope src scope = Inr row"
    "reload_events c scope expected row \<noteq> []" "st' = fold store_step (reload_events c scope expected row) st" by blast
  show ?thesis
  proof (cases row)
    case None
    with True finished(3) slot_remove_reaches show ?thesis
      by (auto simp: reload_events_def replace_remove_view fun_eq_iff)
  next
    case (Some d)
    have k: "slot_key (cp_scope d) = slot_key scope" using assms(2) finished(1) Some by simp
    have v: "expected \<le> cp_version d" "cp_enabled d \<Longrightarrow> compiled c d \<noteq> None"
      using finished(2) Some by (auto simp: reload_events_def split: if_splits)
    show ?thesis
    proof (cases "cp_enabled d")
      case enabled: True
      with v(2) obtain s where s: "compiled c d = Some s" by blast
      note f = compile_one_fields(1,2) [OF compiled_Some [THEN iffD1, OF s]]
      have e: "reload_events c scope expected row = [Publish s]"
        using finished(2) enabled Some s by (auto simp: reload_events_def definition_event_def split: if_splits)
      have "expected \<le> sl_last_version (snd (slot_replace s slot))" for slot
        using v(1) f(2) slot_replace_reaches [of s slot] by simp
      with True finished(3) e f(1) k show ?thesis by (simp add: replace_remove_view fun_eq_iff)
    next
      case False
      have e: "reload_events c scope expected row = [Withdraw (cp_scope d) (cp_version d)]"
        using finished(2) False Some by (auto simp: reload_events_def definition_event_def split: if_splits)
      have "expected \<le> sl_last_version (snd (slot_remove (cp_version d) slot))" for slot
        using v(1) slot_remove_reaches [of "cp_version d" slot] by (rule order_trans)
      with True finished(3) e k show ?thesis by (simp add: replace_remove_view fun_eq_iff)
    qed
  qed
qed (use reload_scope_run [OF assms(1)] in simp)

text \<open>
  A reload that reports success has made the announced version visible:
  the slot of the scope has reached it, whatever the registry held before and whether the row was
  published, removed or already superseded. A reload that fails leaves the registry as it was, and
  in both cases no other scope changes.
\<close>

theorem reload_scope_correct:
  assumes "reload_scope c src scope expected st = Some (r, st')"
    and "case so_load_scope src scope of Inr (Some d) \<Rightarrow> slot_key (cp_scope d) = slot_key scope | _ \<Rightarrow> True"
  shows "if is_ok r then expected \<le> sl_last_version (slot_view st' scope)
           \<and> (\<lambda>sc. if slot_key sc = slot_key scope then None else Some (slot_view st' sc))
             = (\<lambda>sc. if slot_key sc = slot_key scope then None else Some (slot_view st sc))
         else st' = st"
  by (rule reload_scope_effects [OF assms])

theorem reload_scope_correct_witness:
  "\<exists>st. reload_scope sample_context (source_of sample_rows) (hub (lit ''h'')) 1 empty_store = Some (Inr Replaced, st)
     \<and> 1 \<le> sl_last_version (slot_view st (hub (lit ''h'')))"
proof -
  have "case reload_scope sample_context (source_of sample_rows) (hub (lit ''h'')) 1 empty_store of
     Some (Inr Replaced, st) \<Rightarrow> True | _ \<Rightarrow> False" by code_simp
  then obtain st where st: "reload_scope sample_context (source_of sample_rows) (hub (lit ''h'')) 1 empty_store = Some (Inr Replaced, st)"
    by (auto split: option.splits prod.splits sum.splits snapshot_update.splits)
  have "case so_load_scope (source_of sample_rows) (hub (lit ''h'')) of
     Inr (Some d) \<Rightarrow> slot_key (cp_scope d) = slot_key (hub (lit ''h'')) | _ \<Rightarrow> True" by code_simp
  from reload_scope_correct [OF st this] st show ?thesis by simp
qed

section \<open>Concurrent tasks\<close>

text \<open>
  A reload and a reconciliation first read the database and then update the registry, one awaited
  operation at a time, so the operations of several tasks interleave. What a task still has to do
  after its read is a list of pending operations: an update of the registry, the sweep over the
  loaded scopes once the rows are published, and the removal of one scope the sweep found.
\<close>

datatype pending = Apply policy_event | Sweep "policy_scope list" | DropMissing policy_scope

fun run_pending :: "pending \<Rightarrow> policy_snapshot_store \<Rightarrow> pending list \<times> policy_snapshot_store" where
  "run_pending (Apply e) st = ([], store_step e st)"
| "run_pending (Sweep present) st =
     (map DropMissing (filter (\<lambda>s. s \<notin> set present) (loaded_scopes st)), st)"
| "run_pending (DropMissing scope) st = ([Apply (Withdraw scope (next_version scope st))], st)"

definition reconcile_ops :: "content_policy list \<Rightarrow> compiled_policy_snapshot list \<Rightarrow> pending list" where
  "reconcile_ops definitions ss = map Apply (publication definitions ss) @ [Sweep (map cp_scope definitions)]"

text \<open>A task that runs alone: every pending operation, and what it leads to, before the rest.\<close>

fun pending_rank :: "pending \<Rightarrow> nat" where
  "pending_rank (Apply _) = 1"
| "pending_rank (DropMissing _) = 2"
| "pending_rank (Sweep _) = 0"

fun is_sweep :: "pending \<Rightarrow> bool" where
  "is_sweep (Sweep _) = True"
| "is_sweep _ = False"

lemma run_pending_smaller:
  assumes "(todo, st') = run_pending op st"
  shows "filter is_sweep todo = []" "\<not> is_sweep op \<Longrightarrow> sum_list (map pending_rank todo) < pending_rank op"
  using assms by (cases op; simp add: filter_empty_conv)+

function run_alone :: "pending list \<Rightarrow> policy_snapshot_store \<Rightarrow> policy_snapshot_store" where
  "run_alone [] st = st"
| "run_alone (op # ops) st = (case run_pending op st of (todo, st') \<Rightarrow> run_alone (todo @ ops) st')"
  by pat_completeness auto

termination
  by (relation "measures [\<lambda>(ops, st). length (filter is_sweep ops), \<lambda>(ops, st). sum_list (map pending_rank ops)]")
    (auto simp: run_pending_smaller)

lemma run_alone_Apply: "run_alone (map Apply es @ ops) st = run_alone ops (fold store_step es st)"
  by (induction es arbitrary: st) simp_all

lemma run_alone_DropMissing: "run_alone (map DropMissing scopes @ ops) st = run_alone ops (fold drop_missing scopes st)"
  by (induction scopes arbitrary: st) (simp_all add: drop_missing_def)

text \<open>
  Without other tasks, the pending operations of a reconciliation do to the
  registry what the method does, and those of a reload what a reload does.
\<close>

theorem reconcile_runs_ops:
  "(case compile_all c ds of
      Some (Inr ss) \<Rightarrow> map_option snd (reconcile c (source_of ds) st) = Some (run_alone (reconcile_ops ds ss) st)
    | _ \<Rightarrow> map_option (\<lambda>r. is_ok (fst r)) (reconcile c (source_of ds) st) \<in> {None, Some False})
   \<and> (case reload_scope c (source_of ds) scope expected st of
      Some (Inr _, st') \<Rightarrow> st' = run_alone (map Apply (reload_events c scope expected (row_of scope ds))) st
    | Some (Inl _, st') \<Rightarrow> st' = st
    | None \<Rightarrow> True)"
proof (intro conjI)
  have "run_alone (reconcile_ops ds ss) st =
      fold drop_missing (filter (\<lambda>s. s \<notin> set (map cp_scope ds)) (loaded_scopes (publish_definitions ds ss st)))
        (publish_definitions ds ss st)" for ss
    using run_alone_DropMissing [of _ "[]"] by (simp add: reconcile_ops_def run_alone_Apply publish_definitions_run)
  then show "case compile_all c ds of
      Some (Inr ss) \<Rightarrow> map_option snd (reconcile c (source_of ds) st) = Some (run_alone (reconcile_ops ds ss) st)
    | _ \<Rightarrow> map_option (\<lambda>r. is_ok (fst r)) (reconcile c (source_of ds) st) \<in> {None, Some False}"
    by (auto simp: reconcile_def source_of_def Let_def split: option.splits sum.splits)
  show "case reload_scope c (source_of ds) scope expected st of
      Some (Inr _, st') \<Rightarrow> st' = run_alone (map Apply (reload_events c scope expected (row_of scope ds))) st
    | Some (Inl _, st') \<Rightarrow> st' = st
    | None \<Rightarrow> True"
  proof (cases "reload_scope c (source_of ds) scope expected st")
    case (Some a)
    obtain r st' where a: "a = (r, st')" by fastforce
    have e: "run_alone (map Apply es) st = fold store_step es st" for es
      using run_alone_Apply [of es "[]" st] by simp
    from reload_scope_run [OF Some [unfolded a]] Some a e show ?thesis
      by (cases r) (auto simp: source_of_def)
  qed simp
qed

text \<open>
  The world the tasks share: the rows of the database, every row it ever held, the registry and the
  pending operations of the running tasks. A write installs a row with the next version of its
  scope, as \<open>replace_policy\<close> demands; a reload and a reconciliation start by reading the rows;
  and any task may be the next to perform an operation.
\<close>

record world =
  w_rows :: "content_policy list"
  w_history :: "content_policy list"
  w_store :: policy_snapshot_store
  w_tasks :: "pending list list"

definition row_version :: "policy_scope \<Rightarrow> content_policy list \<Rightarrow> u64" where
  "row_version scope ds = (case row_of scope ds of None \<Rightarrow> 0 | Some d \<Rightarrow> cp_version d)"

definition write_row :: "content_policy \<Rightarrow> content_policy list \<Rightarrow> content_policy list" where
  "write_row d ds = d # filter (\<lambda>x. cp_scope x \<noteq> cp_scope d) ds"

inductive world_step :: "runtime_context \<Rightarrow> world \<Rightarrow> world \<Rightarrow> bool" for c where
  commit: "slot_key (cp_scope d) = cp_scope d \<Longrightarrow> row_version (cp_scope d) (w_rows w) < cp_version d
    \<Longrightarrow> cp_version d = row_version (cp_scope d) (w_rows w) + 1
    \<Longrightarrow> world_step c w (w\<lparr>w_rows := write_row d (w_rows w), w_history := d # w_history w\<rparr>)"
| start_reload: "world_step c w
    (w\<lparr>w_tasks := map Apply (reload_events c scope expected (row_of scope (w_rows w))) # w_tasks w\<rparr>)"
| start_reconcile: "compile_all c (w_rows w) = Some (Inr ss)
    \<Longrightarrow> world_step c w (w\<lparr>w_tasks := reconcile_ops (w_rows w) ss # w_tasks w\<rparr>)"
| advance: "w_tasks w = us @ (op # ops) # vs \<Longrightarrow> run_pending op (w_store w) = (todo, st)
    \<Longrightarrow> world_step c w (w\<lparr>w_store := st, w_tasks := us @ (todo @ ops) # vs\<rparr>)"

inductive_cases world_stepE: "world_step c w w'"

definition first_world :: world where
  "first_world = \<lparr>w_rows = [], w_history = [], w_store = empty_store, w_tasks = []\<rparr>"

inductive world_reach :: "runtime_context \<Rightarrow> world \<Rightarrow> bool" for c where
  first: "world_reach c first_world"
| after: "world_reach c w \<Longrightarrow> world_step c w w' \<Longrightarrow> world_reach c w'"

text \<open>Every publication, pending or done, is the compiled form of a row the database held.\<close>

definition from_history :: "runtime_context \<Rightarrow> content_policy list \<Rightarrow> compiled_policy_snapshot \<Rightarrow> bool" where
  "from_history c hist s \<longleftrightarrow> (\<exists>d \<in> set hist. cp_enabled d \<and> compiled c d = Some s)"

fun pending_from :: "runtime_context \<Rightarrow> content_policy list \<Rightarrow> pending \<Rightarrow> bool" where
  "pending_from c hist (Apply (Publish s)) = from_history c hist s"
| "pending_from c hist _ = True"

definition world_ok :: "runtime_context \<Rightarrow> world \<Rightarrow> bool" where
  "world_ok c w \<longleftrightarrow>
     definitions_ok (w_rows w) \<and> set (w_rows w) \<subseteq> set (w_history w)
     \<and> (\<forall>ops \<in> set (w_tasks w). list_all (pending_from c (w_history w)) ops)
     \<and> (\<forall>scope s. load_snapshot scope (w_store w) = Some s \<longrightarrow>
          from_history c (w_history w) s \<and> slot_key (cs_scope s) = slot_key scope)"

lemma from_history_mono: "from_history c hist s \<Longrightarrow> set hist \<subseteq> set hist' \<Longrightarrow> from_history c hist' s"
  by (auto simp: from_history_def)

lemma pending_from_mono: "pending_from c hist op \<Longrightarrow> set hist \<subseteq> set hist' \<Longrightarrow> pending_from c hist' op"
  by (cases "(c, hist, op)" rule: pending_from.cases) (auto intro: from_history_mono)

lemma definition_event_from:
  assumes "d \<in> set hist" "cp_enabled d \<longrightarrow> compiled c d \<noteq> None"
  shows "pending_from c hist (Apply (definition_event c d))"
  using assms by (auto simp: definition_event_def from_history_def)

lemma reload_ops_from:
  assumes "\<And>d. row_of scope ds = Some d \<Longrightarrow> d \<in> set hist"
  shows "list_all (pending_from c hist) (map Apply (reload_events c scope expected (row_of scope ds)))"
  using assms definition_event_from [of _ hist c] by (auto simp: reload_events_def split: option.splits)

lemma reconcile_ops_from:
  assumes "compile_all c ds = Some (Inr ss)" "set ds \<subseteq> set hist"
  shows "list_all (pending_from c hist) (reconcile_ops ds ss)"
proof -
  have l: "list_all2 (\<lambda>d s. compiled c d = Some s) (filter cp_enabled ds) ss"
    using assms(1) by (simp add: compile_all_def compile_each_ok)
  have "pending_from c hist (Apply (definition_event c d))" if "d \<in> set ds" for d
    using definition_event_from [of d hist c] that assms(2) compile_all_ok [OF assms(1)]
    by (auto simp: all_compile_def)
  then show ?thesis
    unfolding reconcile_ops_def publication_events [OF l] by (auto simp: list_all_iff)
qed

lemma run_pending_from:
  "pending_from c hist op \<Longrightarrow> run_pending op st = (todo, st') \<Longrightarrow> list_all (pending_from c hist) todo"
  by (cases op) (auto simp: list_all_iff)

lemma run_pending_store:
  assumes "pending_from c hist op" "run_pending op st = (todo, st')"
    and "\<And>scope s. load_snapshot scope st = Some s \<Longrightarrow> from_history c hist s \<and> slot_key (cs_scope s) = slot_key scope"
    and "load_snapshot scope st' = Some s"
  shows "from_history c hist s \<and> slot_key (cs_scope s) = slot_key scope"
proof (cases op)
  case (Apply e)
  then have st': "st' = store_step e st" using assms(2) by simp
  show ?thesis
  proof (cases e)
    case (Publish t)
    then have "s = t \<and> slot_key (cs_scope t) = slot_key scope \<or> load_snapshot scope st = Some s"
      using assms(4) unfolding st' Publish load_snapshot_view store_step.simps replace_remove_view
      by (auto simp: slot_replace_def split: if_splits option.splits)
    then show ?thesis using assms(1,3) Apply Publish by auto
  next
    case (Withdraw sc v)
    then have "load_snapshot scope st = Some s"
      using assms(4) unfolding st' Withdraw load_snapshot_view store_step.simps replace_remove_view
      by (auto simp: slot_remove_def split: if_splits)
    then show ?thesis by (rule assms(3))
  qed
qed (use assms in auto)

lemma write_row_ok:
  assumes "definitions_ok ds" "slot_key (cp_scope d) = cp_scope d" "0 < cp_version d"
  shows "definitions_ok (write_row d ds)"
  using assms unfolding definitions_ok_def write_row_def
  by (auto simp: list_all_iff distinct_map_filter)

lemma world_step_ok:
  assumes "world_ok c w" "world_step c w w'"
  shows "world_ok c w'"
  using assms(2)
proof (cases rule: world_step.cases)
  case (commit d)
  have "0 < cp_version d" using commit(3) by (metis order_le_less_trans word_zero_le)
  then have "definitions_ok (write_row d (w_rows w))"
    using assms(1) commit(2) unfolding world_ok_def by (intro write_row_ok) simp_all
  moreover have "\<forall>ops \<in> set (w_tasks w). list_all (pending_from c (d # w_history w)) ops"
    using assms(1) pending_from_mono [of c "w_history w" _ "d # w_history w"]
    unfolding world_ok_def list_all_iff by (meson set_subset_Cons)
  moreover have "from_history c (d # w_history w) s" if "from_history c (w_history w) s" for s
    using that by (rule from_history_mono) auto
  ultimately show ?thesis
    using assms(1) unfolding world_ok_def commit(1) by (auto simp: write_row_def)
next
  case (start_reload scope expected)
  have "list_all (pending_from c (w_history w)) (map Apply (reload_events c scope expected (row_of scope (w_rows w))))"
    using assms(1) row_of_Some [of "w_rows w" scope] by (intro reload_ops_from) (auto simp: world_ok_def)
  with assms(1) show ?thesis unfolding start_reload world_ok_def by simp
next
  case (start_reconcile ss)
  with assms(1) reconcile_ops_from [OF start_reconcile(2), of "w_history w"] show ?thesis
    unfolding start_reconcile(1) world_ok_def by simp
next
  case (advance us op ops vs todo st)
  have p: "pending_from c (w_history w) op" "list_all (pending_from c (w_history w)) ops"
    using assms(1) unfolding world_ok_def advance(2) by simp_all
  from run_pending_from [OF p(1) advance(3)] run_pending_store [OF p(1) advance(3)] p(2) assms(1) show ?thesis
    unfolding advance(1) world_ok_def advance(2) by auto
qed

lemma world_reach_ok: "world_reach c w \<Longrightarrow> world_ok c w"
proof (induction rule: world_reach.induct)
  case first
  show ?case by (auto simp: world_ok_def first_world_def definitions_ok_def load_snapshot_view empty_slot_def)
qed (rule world_step_ok)

text \<open>
  However the tasks interleave, the registry only ever enforces, for
  any scope, the compiled form of a row the database held for that scope while it was enabled; an
  unvalidated policy or a policy of another scope is never enforced.
\<close>

theorem published_from_database:
  assumes "world_reach c w" "load_snapshot scope (w_store w) = Some s"
  shows "\<exists>d. d \<in> set (w_history w) \<and> cp_enabled d \<and> compile_one c d = Some (Inr s)
     \<and> slot_key (cp_scope d) = slot_key scope"
proof -
  have "from_history c (w_history w) s \<and> slot_key (cs_scope s) = slot_key scope"
    using world_reach_ok [OF assms(1)] assms(2) unfolding world_ok_def by blast
  then obtain d where d: "d \<in> set (w_history w)" "cp_enabled d" "compile_one c d = Some (Inr s)"
    and k: "slot_key (cs_scope s) = slot_key scope" by (auto simp: from_history_def compiled_Some)
  from k compile_one_fields(1) [OF d(3)] have "slot_key (cp_scope d) = slot_key scope" by simp
  with d show ?thesis by blast
qed

section \<open>A reconciliation against a concurrent publication\<close>

abbreviation new_row :: content_policy where
  "new_row \<equiv> word_policy 5 (hub (lit ''h'')) 7 (lit ''spam'')"

lemma new_row_compiles: "\<exists>s. compiled sample_context new_row = Some s"
proof -
  have "compiled sample_context new_row \<noteq> None" by code_simp
  then show ?thesis by blast
qed

lemma new_row_fields [simp]:
  "cp_scope new_row = hub (lit ''h'')" "cp_version new_row = 1" "cp_enabled new_row"
  "slot_key (hub i) = hub i"
  by (simp_all add: word_policy_def slot_key_def hub_def)

text \<open>
  The reconciliation reads no rows, the first row is written, announced and published, and the
  reconciliation then sweeps what it did not read.
\<close>

definition world_published :: "compiled_policy_snapshot \<Rightarrow> world" where
  "world_published s =
     \<lparr>w_rows = [new_row], w_history = [new_row], w_store = store_step (Publish s) empty_store,
      w_tasks = [[], [Sweep []]]\<rparr>"

lemma world_published_reach:
  assumes s: "compiled sample_context new_row = Some s"
  shows "world_reach sample_context (world_published s)"
proof -
  let ?c = sample_context
  let ?w1 = "first_world\<lparr>w_tasks := [[Sweep []]]\<rparr>"
  have "world_reach ?c (first_world\<lparr>w_tasks := reconcile_ops (w_rows first_world) [] # w_tasks first_world\<rparr>)"
    by (intro world_reach.after [OF world_reach.first] world_step.start_reconcile)
      (simp add: first_world_def compile_all_def)
  then have 1: "world_reach ?c ?w1" by (simp add: first_world_def reconcile_ops_def publication_def)
  have "world_reach ?c (?w1\<lparr>w_rows := write_row new_row (w_rows ?w1), w_history := new_row # w_history ?w1\<rparr>)"
    by (intro world_reach.after [OF 1] world_step.commit) (simp_all add: first_world_def row_version_def row_of_def)
  then have 2: "world_reach ?c \<lparr>w_rows = [new_row], w_history = [new_row], w_store = empty_store, w_tasks = [[Sweep []]]\<rparr>"
    (is "world_reach ?c ?w2") by (simp add: first_world_def write_row_def)
  have "world_reach ?c (?w2\<lparr>w_tasks := map Apply (reload_events ?c (hub (lit ''h'')) 1 (row_of (hub (lit ''h'')) (w_rows ?w2))) # w_tasks ?w2\<rparr>)"
    by (intro world_reach.after [OF 2] world_step.start_reload)
  then have 3: "world_reach ?c (?w2\<lparr>w_tasks := [[Apply (Publish s)], [Sweep []]]\<rparr>)" (is "world_reach ?c ?w3")
    using s by (simp add: reload_events_def row_of_def definition_event_def)
  have "world_reach ?c (?w3\<lparr>w_store := store_step (Publish s) empty_store, w_tasks := [] @ ([] @ []) # [[Sweep []]]\<rparr>)"
    by (rule world_reach.after [OF 3], rule world_step.advance [where op = "Apply (Publish s)"]) simp_all
  then show ?thesis by (simp add: world_published_def)
qed

definition world_swept :: "compiled_policy_snapshot \<Rightarrow> world" where
  "world_swept s =
     \<lparr>w_rows = [new_row], w_history = [new_row],
      w_store = store_step (Withdraw (hub (lit ''h'')) 2) (store_step (Publish s) empty_store), w_tasks = [[], []]\<rparr>"

lemma published_view:
  assumes "compiled sample_context new_row = Some s"
  shows "slot_view (store_step (Publish s) empty_store) scope =
     (if slot_key scope = hub (lit ''h'') then \<lparr>sl_current = Some s, sl_last_version = 1\<rparr> else empty_slot)"
proof -
  note f = compile_one_fields [OF compiled_Some [THEN iffD1, OF assms]]
  show ?thesis using f by (auto simp: store_step_view slot_replace_def empty_slot_def simp del: store_step.simps)
qed

lemma loaded_scopes_one:
  assumes "store_wf st" "\<And>scope. load_snapshot scope st \<noteq> None \<longleftrightarrow> slot_key scope = k"
  shows "loaded_scopes st = [k] \<or> slot_key k \<noteq> k"
proof (cases "slot_key k = k")
  case True
  then have "set (loaded_scopes st) = set [k]" unfolding loaded_scopes_set [OF assms(1)] assms(2) by auto
  from strict_sorted_equal [OF loaded_scopes_sorted(1) [OF assms(1)] _ this [symmetric]] show ?thesis by simp
qed simp

lemma world_swept_reach:
  assumes s: "compiled sample_context new_row = Some s"
  shows "world_reach sample_context (world_swept s)"
proof -
  let ?c = sample_context
  let ?h = "hub (lit ''h'')"
  let ?st = "store_step (Publish s) empty_store"
  have 3: "world_reach ?c (world_published s)" (is "world_reach ?c ?w3") by (rule world_published_reach [OF s])
  have v: "cs_version s = 1" using compile_one_fields(2) [OF compiled_Some [THEN iffD1, OF s]] by simp
  have "load_snapshot scope ?st \<noteq> None \<longleftrightarrow> slot_key scope = ?h" for scope
    unfolding load_snapshot_view published_view [OF s] by (simp add: empty_slot_def del: store_step.simps)
  from loaded_scopes_one [OF store_step_wf [OF empty_store_wf] this] have l: "loaded_scopes ?st = [?h]" by simp
  have "world_reach ?c (?w3\<lparr>w_store := ?st, w_tasks := [[]] @ ([DropMissing ?h] @ []) # []\<rparr>)"
    by (rule world_reach.after [OF 3], rule world_step.advance [where op = "Sweep []"])
      (simp_all add: world_published_def l del: store_step.simps)
  then have 4: "world_reach ?c (?w3\<lparr>w_tasks := [[], [DropMissing ?h]]\<rparr>)" (is "world_reach ?c ?w4")
    by (simp add: world_published_def)
  have n: "next_version ?h ?st = 2"
    using v by (simp add: next_version_def load_snapshot_view published_view [OF s] u64_saturating_add_def del: store_step.simps)
  have "world_reach ?c (?w4\<lparr>w_store := ?st, w_tasks := [[]] @ ([Apply (Withdraw ?h 2)] @ []) # []\<rparr>)"
    by (rule world_reach.after [OF 4], rule world_step.advance [where op = "DropMissing ?h"])
      (simp_all add: world_published_def n del: store_step.simps)
  then have 5: "world_reach ?c (?w3\<lparr>w_tasks := [[], [Apply (Withdraw ?h 2)]]\<rparr>)" (is "world_reach ?c ?w5")
    by (simp add: world_published_def)
  have "world_reach ?c (?w5\<lparr>w_store := store_step (Withdraw ?h 2) ?st, w_tasks := [[]] @ ([] @ []) # []\<rparr>)"
    by (rule world_reach.after [OF 5], rule world_step.advance [where op = "Apply (Withdraw ?h 2)"])
      (simp_all add: world_published_def)
  then show ?thesis by (simp add: world_published_def world_swept_def)
qed

theorem published_from_database_witness:
  "\<exists>w s. world_reach sample_context w \<and> load_snapshot (hub (lit ''h'')) (w_store w) = Some s
     \<and> (\<exists>d. d \<in> set (w_history w) \<and> cp_enabled d \<and> compile_one sample_context d = Some (Inr s)
       \<and> slot_key (cp_scope d) = slot_key (hub (lit ''h'')))"
proof -
  from new_row_compiles obtain s where s: "compiled sample_context new_row = Some s" by blast
  note r = world_published_reach [OF s]
  have l: "load_snapshot (hub (lit ''h'')) (w_store (world_published s)) = Some s"
    by (simp add: world_published_def load_snapshot_view published_view [OF s] del: store_step.simps)
  from published_from_database [OF r l] r l show ?thesis by blast
qed

text \<open>A tombstone above the version of the row survives every later reconciliation.\<close>

definition reconcile_again :: "runtime_context \<Rightarrow> content_policy list \<Rightarrow> policy_snapshot_store \<Rightarrow> policy_snapshot_store" where
  "reconcile_again c ds st = (case reconcile c (source_of ds) st of Some (_, st') \<Rightarrow> st' | None \<Rightarrow> st)"

lemma drop_missing_other:
  "slot_key scope \<notin> slot_key ` set scopes \<Longrightarrow> slot_view (fold drop_missing scopes st) scope = slot_view st scope"
  by (induction scopes arbitrary: st) (simp_all add: drop_missing_view)

lemma store_wf_run_alone: "store_wf st \<Longrightarrow> store_wf (reconcile_again c ds st)"
proof -
  assume wf: "store_wf st"
  have "store_wf (fold drop_missing scopes (publish_definitions ds ss st))" for scopes ss
    by (intro drop_missing_wf store_wf_publish wf)
  with wf show ?thesis
    by (auto simp: reconcile_again_def reconcile_def source_of_def Let_def split: option.splits sum.splits)
qed

lemma reconcile_keeps_tombstone:
  assumes "definitions_ok ds" "store_wf st" "row_of scope ds = Some d" "cp_version d < v"
    and "slot_view st scope = \<lparr>sl_current = None, sl_last_version = v\<rparr>"
  shows "slot_view (reconcile_again c ds st) scope = \<lparr>sl_current = None, sl_last_version = v\<rparr>"
proof (cases "compile_all c ds")
  case (Some r)
  show ?thesis
  proof (cases r)
    case (Inr ss)
    note all = compile_all_ok [OF Some [unfolded Inr]]
    have l: "list_all2 (\<lambda>d s. compiled c d = Some s) (filter cp_enabled ds) ss"
      using Some Inr by (simp add: compile_all_def compile_each_ok)
    let ?pub = "publish_definitions ds ss st"
    let ?gone = "filter (\<lambda>s. s \<notin> set (map cp_scope ds)) (loaded_scopes ?pub)"
    have d: "d \<in> set ds" "cp_scope d = slot_key scope" using assms(1,3) row_of_Some by blast+
    have "slot_step (definition_slot c d) \<lparr>sl_current = None, sl_last_version = v\<rparr> = \<lparr>sl_current = None, sl_last_version = v\<rparr>"
    proof (cases "cp_enabled d")
      case True
      with d(1) all obtain s where s: "compiled c d = Some s" by (auto simp: all_compile_def)
      with compile_one_fields(2) [OF compiled_Some [THEN iffD1, OF s]] True assms(4) show ?thesis
        by (simp add: definition_slot_def slot_replace_def)
    qed (use assms(4) in \<open>simp add: definition_slot_def slot_remove_def\<close>)
    then have pub: "slot_view ?pub scope = \<lparr>sl_current = None, sl_last_version = v\<rparr>"
      using publication_view [OF assms(1) all l, of st scope] assms(3,5) by simp
    have "slot_key x = x" if "x \<in> set ?gone" for x
      using that loaded_scopes_set [OF store_wf_publish [OF assms(2)]] by auto
    moreover have "slot_key scope \<notin> set ?gone" using d by (simp add: rev_image_eqI [of d])
    ultimately have "slot_key scope \<notin> slot_key ` set ?gone" by force
    from drop_missing_other [OF this, of ?pub] pub Some Inr show ?thesis
      by (simp add: reconcile_again_def reconcile_def source_of_def Let_def)
  qed (use Some assms(5) in \<open>simp add: reconcile_again_def reconcile_def source_of_def\<close>)
qed (use assms(5) in \<open>simp add: reconcile_again_def reconcile_def source_of_def\<close>)


end
