(* ===== verification/ContentEngine.thy ===== *)
theory ContentEngine
  imports Delivery Cooldown Snapshot Service
begin

text \<open>
  The evaluator of a message against the loaded policies (\<open>src/content_policy/engine.rs\<close>): the
  global policy, the policy of the Hub, and one policy per destination server, where servers whose
  policies have the same profile fingerprint share one evaluation. The result is a decision per
  destination and one variant of the message per distinct transformation.
\<close>

section \<open>Data\<close>

record destination =
  dt_target_index :: nat
  dt_server_id :: rstr

record destination_decision =
  dd_target_index :: nat
  dd_server_id :: rstr
  dd_policy_id :: "uuid option"
  dd_policy_version :: "u64 option"
  dd_matched_rule_ids :: "uuid list"
  dd_blocked_by :: "effect_attribution list"
  dd_variant_fingerprint :: "byte list option"

definition decision_is_blocked :: "destination_decision \<Rightarrow> bool" where
  "decision_is_blocked d \<longleftrightarrow> dd_blocked_by d \<noteq> []"

datatype sender_feedback =
  GlobalSafetyBlock | CallSafetyBlock
| HubModerationBlock "rstr option"
| ServerFilters nat

type_synonym variant_map = "(byte list, delivery_variant) btree_map"

record hub_policy_plan =
  hp_global :: resolved_scope_decision
  hp_hub :: resolved_scope_decision
  hp_destinations :: "destination_decision list"
  hp_variants :: variant_map
  hp_side_effects :: "side_effect_request list"
  hp_sender_feedback :: "sender_feedback option"
  hp_evaluated_server_profiles :: nat

record call_policy_plan =
  cp_global :: resolved_scope_decision
  cp_variant :: "delivery_variant option"
  cp_destinations :: "destination_decision list"
  cp_variants :: variant_map
  cp_side_effects :: "side_effect_request list"
  cp_sender_feedback :: "sender_feedback option"
  cp_evaluated_server_profiles :: nat

datatype evaluation_error = MatchFailed policy_match_error | TransformFailed transformation_error

text \<open>The libraries and the clock: \<open>ec_clock n\<close> is the instant the \<open>n\<close>-th reading yields.\<close>

record evaluator_context =
  ec_unicode :: unicode
  ec_automaton :: automaton
  ec_sha :: "byte list \<Rightarrow> byte list"
  ec_latest :: instant
  ec_clock :: "nat \<Rightarrow> instant"

text \<open>The gate, and how often the clock was read.\<close>

type_synonym gate = "cooldown \<times> nat"

text \<open>The \<open>?\<close> operator on a call that may also panic.\<close>

definition try_call :: "('e + 'a) option \<Rightarrow> ('a \<Rightarrow> ('e + 'b) option) \<Rightarrow> ('e + 'b) option" where
  "try_call r f = (case r of None \<Rightarrow> None | Some (Inl e) \<Rightarrow> Some (Inl e) | Some (Inr a) \<Rightarrow> f a)"

section \<open>Scopes and side effects\<close>

definition empty_scope_decision :: "policy_scope \<Rightarrow> resolved_scope_decision" where
  "empty_scope_decision scope = resolve_scope scope []"

definition evaluate_snapshot ::
  "evaluator_context \<Rightarrow> policy_scope \<Rightarrow> compiled_policy_snapshot option \<Rightarrow> analyzed_content
     \<Rightarrow> (policy_match_error + resolved_scope_decision) option" where
  "evaluate_snapshot c scope snapshot analyzed =
     (case snapshot of
        Some s \<Rightarrow> try_call (evaluate_normalized (ec_unicode c) (ec_automaton c) s (analyzed_inputs analyzed))
          (\<lambda>matches. Some (Inr (resolve_scope (cs_scope s) matches)))
      | None \<Rightarrow> Some (Inr (empty_scope_decision scope)))"

definition with_analyzed_urls :: "presentation \<Rightarrow> analyzed_content \<Rightarrow> presentation" where
  "with_analyzed_urls canonical analyzed = canonical\<lparr>pn_url_spans := ac_url_spans analyzed\<rparr>"

definition allow_effect ::
  "evaluator_context \<Rightarrow> rstr \<Rightarrow> side_effect_request \<Rightarrow> gate \<Rightarrow> bool \<times> gate" where
  "allow_effect c subject e gate = (case gate of (g, n) \<Rightarrow>
     case allow_at (ec_latest c) subject (ea_scope (se_attribution e)) (ea_rule_id (se_attribution e))
            (se_action_type e) (ec_clock c n) g of
       (allowed, g') \<Rightarrow> (allowed, (g', Suc n)))"

fun cooldown_side_effects ::
  "evaluator_context \<Rightarrow> rstr \<Rightarrow> side_effect_request list \<Rightarrow> gate \<Rightarrow> side_effect_request list \<times> gate" where
  "cooldown_side_effects c subject [] gate = ([], gate)"
| "cooldown_side_effects c subject (e # es) gate =
     (case allow_effect c subject e gate of (allowed, gate') \<Rightarrow>
      case cooldown_side_effects c subject es gate' of (rest, gate'') \<Rightarrow>
        (if allowed then e # rest else rest, gate''))"

section \<open>Destinations\<close>

definition terminal_decision :: "effect_attribution list \<Rightarrow> destination \<Rightarrow> destination_decision" where
  "terminal_decision blocked_by d =
     \<lparr>dd_target_index = dt_target_index d, dd_server_id = dt_server_id d, dd_policy_id = None,
      dd_policy_version = None, dd_matched_rule_ids = [], dd_blocked_by = blocked_by,
      dd_variant_fingerprint = None\<rparr>"

definition open_decision :: "byte list \<Rightarrow> destination \<Rightarrow> destination_decision" where
  "open_decision fingerprint d =
     \<lparr>dd_target_index = dt_target_index d, dd_server_id = dt_server_id d, dd_policy_id = None,
      dd_policy_version = None, dd_matched_rule_ids = [], dd_blocked_by = [],
      dd_variant_fingerprint = Some fingerprint\<rparr>"

type_synonym profile_members = "(destination \<times> compiled_policy_snapshot) list"

fun split_destinations ::
  "policy_snapshot_store \<Rightarrow> destination list \<Rightarrow> (byte list, profile_members) btree_map \<Rightarrow> destination list
     \<Rightarrow> (byte list, profile_members) btree_map \<times> destination list" where
  "split_destinations st [] profiles without = (profiles, without)"
| "split_destinations st (d # ds) profiles without =
     (case server_snapshot (dt_server_id d) st of
        Some s \<Rightarrow> split_destinations st ds (bt_extend (cs_profile_fingerprint s) [(d, s)] profiles) without
      | None \<Rightarrow> split_destinations st ds profiles (without @ [d]))"

definition member_decision ::
  "byte list option \<Rightarrow> destination \<times> compiled_policy_snapshot \<Rightarrow> matched_rule list \<Rightarrow> destination_decision" where
  "member_decision fingerprint m local_matches = (case m of (d, s) \<Rightarrow>
     let local = resolve_scope (cs_scope s) local_matches
     in \<lparr>dd_target_index = dt_target_index d, dd_server_id = dt_server_id d,
         dd_policy_id = Some (cs_policy_id s), dd_policy_version = Some (cs_version s),
         dd_matched_rule_ids = map mr_rule_id (rs_matched_rules local),
         dd_blocked_by = (if is_blocked (rs_delivery local) then de_blocked_by (rs_delivery local) else []),
         dd_variant_fingerprint = (if is_blocked (rs_delivery local) then None else fingerprint)\<rparr>)"

definition decide_member ::
  "compiled_policy_snapshot \<Rightarrow> matched_rule list \<Rightarrow> byte list option \<Rightarrow> destination \<times> compiled_policy_snapshot
     \<Rightarrow> evaluation_error + destination_decision" where
  "decide_member representative matches fingerprint m =
     map_err MatchFailed (res_bind
       (if cs_policy_id (snd m) = cs_policy_id representative then Inr matches
        else remap_equivalent_matches (snd m) matches)
       (\<lambda>local_matches. Inr (member_decision fingerprint m local_matches)))"

definition evaluate_profile ::
  "evaluator_context \<Rightarrow> delivery_effects \<Rightarrow> presentation \<Rightarrow> analyzed_content \<Rightarrow> profile_members
     \<Rightarrow> destination_decision list \<times> variant_map \<Rightarrow> (evaluation_error + destination_decision list \<times> variant_map) option" where
  "evaluate_profile c shared presentation analyzed members acc = (case acc of (decisions, variants) \<Rightarrow>
     (case members of [] \<Rightarrow> None
      | m # _ \<Rightarrow>
        let representative = snd m
        in try_call (map_option (map_err MatchFailed)
             (evaluate_normalized (ec_unicode c) (ec_automaton c) representative (analyzed_inputs analyzed))) (\<lambda>matches.
           let composed = compose_delivery [shared, rs_delivery (resolve_scope (cs_scope representative) matches)]
           in try_call (Some (if is_blocked composed then Inr None
                 else map_err TransformFailed (res_bind (materialize_variant (ec_sha c) presentation composed) (\<lambda>v. Inr (Some v))))) (\<lambda>variant.
              let variants' = (case variant of None \<Rightarrow> variants | Some v \<Rightarrow> bt_or_insert (dv_fingerprint v) v variants)
              in Some (res_bind (try_map (decide_member representative matches (map_option dv_fingerprint variant)) members)
                   (\<lambda>new. Inr (decisions @ new, variants')))))))"

fun evaluate_profiles ::
  "evaluator_context \<Rightarrow> delivery_effects \<Rightarrow> presentation \<Rightarrow> analyzed_content \<Rightarrow> profile_members list
     \<Rightarrow> destination_decision list \<times> variant_map \<Rightarrow> (evaluation_error + destination_decision list \<times> variant_map) option" where
  "evaluate_profiles c shared presentation analyzed [] acc = Some (Inr acc)"
| "evaluate_profiles c shared presentation analyzed (members # rest) acc =
     try_call (evaluate_profile c shared presentation analyzed members acc)
       (evaluate_profiles c shared presentation analyzed rest)"

definition evaluate_without_policy ::
  "evaluator_context \<Rightarrow> delivery_effects \<Rightarrow> presentation \<Rightarrow> destination list
     \<Rightarrow> evaluation_error + destination_decision list \<times> variant_map" where
  "evaluate_without_policy c shared presentation without =
     (if without = [] then Inr ([], [])
      else map_err TransformFailed (res_bind (materialize_variant (ec_sha c) presentation shared) (\<lambda>v.
        Inr (map (open_decision (dv_fingerprint v)) without, bt_insert (dv_fingerprint v) v []))))"

definition evaluate_server_destinations ::
  "evaluator_context \<Rightarrow> policy_snapshot_store \<Rightarrow> delivery_effects \<Rightarrow> presentation \<Rightarrow> analyzed_content \<Rightarrow> destination list
     \<Rightarrow> (evaluation_error + destination_decision list \<times> variant_map \<times> nat) option" where
  "evaluate_server_destinations c st shared canonical analyzed ds =
     (let presentation = with_analyzed_urls canonical analyzed
      in case split_destinations st ds [] [] of (profiles, without) \<Rightarrow>
        try_call (Some (evaluate_without_policy c shared presentation without)) (\<lambda>acc.
        try_call (evaluate_profiles c shared presentation analyzed (bt_values profiles) acc) (\<lambda>(decisions, variants).
          Some (Inr (sort_key dd_target_index decisions, variants, length profiles)))))"

section \<open>Calls\<close>

definition terminal_call_plan ::
  "resolved_scope_decision \<Rightarrow> destination list \<Rightarrow> side_effect_request list \<Rightarrow> call_policy_plan" where
  "terminal_call_plan glob ds side_effects =
     \<lparr>cp_global = glob, cp_variant = None,
      cp_destinations = map (terminal_decision (de_blocked_by (rs_delivery glob))) ds,
      cp_variants = [], cp_side_effects = side_effects,
      cp_sender_feedback = Some CallSafetyBlock, cp_evaluated_server_profiles = 0\<rparr>"

definition server_feedback :: "destination_decision list \<Rightarrow> sender_feedback option" where
  "server_feedback decisions =
     (let filtered = length (filter decision_is_blocked decisions)
      in if 0 < filtered then Some (ServerFilters filtered) else None)"

text \<open>An evaluation returns its result and the gate, which the calls before an error have updated.\<close>

definition evaluate_call_for_destinations ::
  "evaluator_context \<Rightarrow> policy_snapshot_store \<Rightarrow> rstr \<Rightarrow> presentation \<Rightarrow> analyzed_content \<Rightarrow> destination list \<Rightarrow> gate
     \<Rightarrow> ((evaluation_error + call_policy_plan) \<times> gate) option" where
  "evaluate_call_for_destinations c st subject canonical analyzed ds gate =
     (case evaluate_snapshot c global (global_snapshot st) analyzed of
        None \<Rightarrow> None
      | Some (Inl e) \<Rightarrow> Some (Inl (MatchFailed e), gate)
      | Some (Inr glob) \<Rightarrow>
        if is_blocked (rs_delivery glob)
        then (case cooldown_side_effects c subject (rs_side_effects glob) gate of (side_effects, gate') \<Rightarrow>
          Some (Inr (terminal_call_plan glob ds side_effects), gate'))
        else (case evaluate_server_destinations c st (rs_delivery glob) canonical analyzed ds of
            None \<Rightarrow> None
          | Some (Inl e) \<Rightarrow> Some (Inl e, gate)
          | Some (Inr (decisions, variants, profiles)) \<Rightarrow>
            (case cooldown_side_effects c subject (rs_side_effects glob) gate of (side_effects, gate') \<Rightarrow>
              Some (Inr \<lparr>cp_global = glob,
                   cp_variant = (case bt_values variants of [] \<Rightarrow> None | v # _ \<Rightarrow> Some v),
                   cp_destinations = decisions, cp_variants = variants, cp_side_effects = side_effects,
                   cp_sender_feedback = server_feedback decisions,
                   cp_evaluated_server_profiles = profiles\<rparr>, gate'))))"

definition evaluate_call ::
  "evaluator_context \<Rightarrow> policy_snapshot_store \<Rightarrow> rstr \<Rightarrow> presentation \<Rightarrow> analyzed_content \<Rightarrow> gate
     \<Rightarrow> ((evaluation_error + call_policy_plan) \<times> gate) option" where
  "evaluate_call c st subject canonical analyzed gate =
     map_option (\<lambda>(r, gate'). (res_bind r (\<lambda>plan.
         if cp_variant plan = None \<and> \<not> is_blocked (rs_delivery (cp_global plan))
         then map_err TransformFailed (res_bind
           (materialize_variant (ec_sha c) (with_analyzed_urls canonical analyzed) (rs_delivery (cp_global plan))) (\<lambda>v.
             Inr (plan\<lparr>cp_variants := bt_insert (dv_fingerprint v) v (cp_variants plan), cp_variant := Some v\<rparr>)))
         else Inr plan), gate'))
       (evaluate_call_for_destinations c st subject canonical analyzed [] gate)"

section \<open>Hubs\<close>

definition terminal_hub_plan ::
  "resolved_scope_decision \<Rightarrow> resolved_scope_decision \<Rightarrow> destination list \<Rightarrow> sender_feedback
     \<Rightarrow> side_effect_request list \<Rightarrow> hub_policy_plan" where
  "terminal_hub_plan glob hb ds feedback side_effects =
     (let blocked_by = (if is_blocked (rs_delivery glob) then de_blocked_by (rs_delivery glob)
                        else de_blocked_by (rs_delivery hb))
      in \<lparr>hp_global = glob, hp_hub = hb, hp_destinations = map (terminal_decision blocked_by) ds,
          hp_variants = [], hp_side_effects = side_effects, hp_sender_feedback = Some feedback,
          hp_evaluated_server_profiles = 0\<rparr>)"

definition evaluate_hub ::
  "evaluator_context \<Rightarrow> policy_snapshot_store \<Rightarrow> rstr \<Rightarrow> rstr \<Rightarrow> presentation \<Rightarrow> analyzed_content \<Rightarrow> destination list \<Rightarrow> gate
     \<Rightarrow> ((evaluation_error + hub_policy_plan) \<times> gate) option" where
  "evaluate_hub c st subject hub_id canonical analyzed ds gate =
     (case evaluate_snapshot c global (global_snapshot st) analyzed of
        None \<Rightarrow> None
      | Some (Inl e) \<Rightarrow> Some (Inl (MatchFailed e), gate)
      | Some (Inr glob) \<Rightarrow>
        if is_blocked (rs_delivery glob)
        then (case cooldown_side_effects c subject (rs_side_effects glob) gate of (side_effects, gate') \<Rightarrow>
          Some (Inr (terminal_hub_plan glob (empty_scope_decision (hub hub_id)) ds GlobalSafetyBlock side_effects), gate'))
        else (case evaluate_snapshot c (hub hub_id) (hub_snapshot hub_id st) analyzed of
            None \<Rightarrow> None
          | Some (Inl e) \<Rightarrow> Some (Inl (MatchFailed e), gate)
          | Some (Inr hb) \<Rightarrow>
            (case cooldown_side_effects c subject (rs_side_effects glob) gate of (global_effects, gate1) \<Rightarrow>
             case cooldown_side_effects c subject (rs_side_effects hb) gate1 of (hub_effects, gate2) \<Rightarrow>
               if is_blocked (rs_delivery hb)
               then Some (Inr (terminal_hub_plan glob hb ds
                 (HubModerationBlock (find_map ea_custom_reason (de_blocked_by (rs_delivery hb))))
                 (global_effects @ hub_effects)), gate2)
               else (case evaluate_server_destinations c st (compose_delivery [rs_delivery glob, rs_delivery hb])
                       canonical analyzed ds of
                   None \<Rightarrow> None
                 | Some (Inl e) \<Rightarrow> Some (Inl e, gate2)
                 | Some (Inr (decisions, variants, profiles)) \<Rightarrow>
                   Some (Inr \<lparr>hp_global = glob, hp_hub = hb, hp_destinations = decisions,
                        hp_variants = variants, hp_side_effects = global_effects @ hub_effects,
                        hp_sender_feedback = server_feedback decisions,
                        hp_evaluated_server_profiles = profiles\<rparr>, gate2)))))"

section \<open>Decisions and variants\<close>

lemma try_call_Inr_iff: "try_call r f = Some (Inr b) \<longleftrightarrow> (\<exists>a. r = Some (Inr a) \<and> f a = Some (Inr b))"
  by (auto simp: try_call_def split: option.splits sum.splits)

definition loaded_members :: "policy_snapshot_store \<Rightarrow> destination list \<Rightarrow> profile_members" where
  "loaded_members st ds =
     concat (map (\<lambda>d. case server_snapshot (dt_server_id d) st of None \<Rightarrow> [] | Some s \<Rightarrow> [(d, s)]) ds)"

definition without_policy :: "policy_snapshot_store \<Rightarrow> destination list \<Rightarrow> destination list" where
  "without_policy st ds = filter (\<lambda>d. server_snapshot (dt_server_id d) st = None) ds"

abbreviation member_profile :: "destination \<times> compiled_policy_snapshot \<Rightarrow> byte list" where
  "member_profile m \<equiv> cs_profile_fingerprint (snd m)"

lemma split_destinations_eq:
  "split_destinations st ds profiles without
     = (bt_group_from member_profile (loaded_members st ds) profiles, without @ without_policy st ds)"
  by (induction ds arbitrary: profiles without)
    (auto simp: loaded_members_def without_policy_def split: option.splits)

lemma mset_bt_entry_push:
  "mset (concat (map snd (bt_entry k (\<lambda>w. case w of None \<Rightarrow> [x] | Some ys \<Rightarrow> ys @ [x]) m)))
     = add_mset x (mset (concat (map snd m)))"
  by (induction m) auto

lemma mset_bt_group:
  "mset (concat (bt_values (bt_group_from key xs m))) = mset xs + mset (concat (bt_values m))"
  by (induction xs arbitrary: m) (simp_all add: bt_values_def bt_extend_def mset_bt_entry_push)

lemma loaded_members_server:
  "m \<in> set (loaded_members st ds) \<longleftrightarrow> fst m \<in> set ds \<and> server_snapshot (dt_server_id (fst m)) st = Some (snd m)"
  by (cases m) (auto simp: loaded_members_def split: option.splits)

lemma destinations_split_mset:
  "mset (without_policy st ds) + mset (map fst (loaded_members st ds)) = mset ds"
  by (induction ds) (auto simp: without_policy_def loaded_members_def split: option.splits)

lemma evaluate_profile_ok:
  assumes "evaluate_profile c shared pres analyzed members (ds, vs) = Some (Inr (ds', vs'))"
  obtains m rest matches variant new where "members = m # rest"
    "evaluate_normalized (ec_unicode c) (ec_automaton c) (snd m) (analyzed_inputs analyzed) = Some (Inr matches)"
    "(if is_blocked (compose_delivery [shared, rs_delivery (resolve_scope (cs_scope (snd m)) matches)]) then variant = None
      else (\<exists>v. materialize_variant (ec_sha c) pres (compose_delivery [shared, rs_delivery (resolve_scope (cs_scope (snd m)) matches)])
              = Inr v \<and> variant = Some v))"
    "list_all2 (\<lambda>m' d. decide_member (snd m) matches (map_option dv_fingerprint variant) m' = Inr d) members new"
    "ds' = ds @ new" "vs' = (case variant of None \<Rightarrow> vs | Some v \<Rightarrow> bt_or_insert (dv_fingerprint v) v vs)"
proof -
  from assms obtain m rest where m: "members = m # rest"
    by (cases members) (auto simp: evaluate_profile_def)
  from assms obtain matches where ev:
    "evaluate_normalized (ec_unicode c) (ec_automaton c) (snd m) (analyzed_inputs analyzed) = Some (Inr matches)"
    and "(let composed = compose_delivery [shared, rs_delivery (resolve_scope (cs_scope (snd m)) matches)]
          in try_call (Some (if is_blocked composed then Inr None
               else map_err TransformFailed (res_bind (materialize_variant (ec_sha c) pres composed) (\<lambda>v. Inr (Some v))))) (\<lambda>variant.
             let vs' = (case variant of None \<Rightarrow> vs | Some v \<Rightarrow> bt_or_insert (dv_fingerprint v) v vs)
             in Some (res_bind (try_map (decide_member (snd m) matches (map_option dv_fingerprint variant)) members)
                  (\<lambda>new. Inr (ds @ new, vs'))))) = Some (Inr (ds', vs'))"
    unfolding evaluate_profile_def m prod.case list.case Let_def try_call_Inr_iff by auto
  then obtain variant new where
    v: "(if is_blocked (compose_delivery [shared, rs_delivery (resolve_scope (cs_scope (snd m)) matches)]) then Inr None
        else map_err TransformFailed (res_bind (materialize_variant (ec_sha c) pres
          (compose_delivery [shared, rs_delivery (resolve_scope (cs_scope (snd m)) matches)])) (\<lambda>v. Inr (Some v)))) = Inr variant"
    and n: "try_map (decide_member (snd m) matches (map_option dv_fingerprint variant)) members = Inr new"
    and r: "ds' = ds @ new" "vs' = (case variant of None \<Rightarrow> vs | Some v \<Rightarrow> bt_or_insert (dv_fingerprint v) v vs)"
    unfolding Let_def try_call_Inr_iff by auto
  show thesis
  proof (rule that [OF m ev _ _ r])
    show "if is_blocked (compose_delivery [shared, rs_delivery (resolve_scope (cs_scope (snd m)) matches)]) then variant = None
      else (\<exists>v. materialize_variant (ec_sha c) pres (compose_delivery [shared, rs_delivery (resolve_scope (cs_scope (snd m)) matches)])
              = Inr v \<and> variant = Some v)"
      using v by (auto split: if_splits)
    show "list_all2 (\<lambda>m' d. decide_member (snd m) matches (map_option dv_fingerprint variant) m' = Inr d) members new"
      using n unfolding try_map_Inr_iff .
  qed
qed

definition variants_ok :: "variant_map \<Rightarrow> bool" where
  "variants_ok vs \<longleftrightarrow> bt_wf vs \<and> list_all (\<lambda>e. dv_fingerprint (snd e) = fst e) vs"

definition decision_ok :: "variant_map \<Rightarrow> destination_decision \<Rightarrow> bool" where
  "decision_ok vs d \<longleftrightarrow>
     (case dd_variant_fingerprint d of
        None \<Rightarrow> True
      | Some f \<Rightarrow> \<not> decision_is_blocked d \<and> f \<in> dom (map_of vs))"

lemma variants_ok_at: "variants_ok vs \<Longrightarrow> map_of vs k = Some w \<Longrightarrow> dv_fingerprint w = k"
  by (fastforce simp: variants_ok_def list_all_iff dest: map_of_SomeD)

lemma variants_okI:
  "bt_wf vs \<Longrightarrow> (\<And>k w. map_of vs k = Some w \<Longrightarrow> dv_fingerprint w = k) \<Longrightarrow> variants_ok vs"
  unfolding variants_ok_def list_all_iff by (metis bt_wf_mem_iff prod.collapse)

lemma variants_ok_insert:
  assumes "variants_ok vs"
  shows "variants_ok (bt_or_insert (dv_fingerprint v) v vs)"
proof (rule variants_okI)
  have wf: "bt_wf vs" using assms by (simp add: variants_ok_def)
  then show "bt_wf (bt_or_insert (dv_fingerprint v) v vs)" by simp
  fix k w
  assume "map_of (bt_or_insert (dv_fingerprint v) v vs) k = Some w"
  with variants_ok_at [OF assms] wf show "dv_fingerprint w = k"
    by (auto split: if_splits option.splits)
qed

lemma decision_ok_mono: "decision_ok vs d \<Longrightarrow> dom (map_of vs) \<subseteq> dom (map_of vs') \<Longrightarrow> decision_ok vs' d"
  by (auto simp: decision_ok_def split: option.splits)

lemma member_decision_blocked: "decision_is_blocked (member_decision f m ms)
    \<longleftrightarrow> is_blocked (rs_delivery (resolve_scope (cs_scope (snd m)) ms))"
  by (cases m) (simp add: member_decision_def decision_is_blocked_def is_blocked_def Let_def)

lemma decide_member_ok:
  assumes "decide_member rep ms f m = Inr d"
  shows "dd_target_index d = dt_target_index (fst m)" "dd_server_id d = dt_server_id (fst m)"
    "dd_policy_id d = Some (cs_policy_id (snd m))"
    "dd_variant_fingerprint d = (if decision_is_blocked d then None else f)"
proof -
  from assms obtain local_ms where d: "d = member_decision f m local_ms"
    by (auto simp: decide_member_def split: if_splits)
  have "is_blocked (rs_delivery (resolve_scope (cs_scope (snd m)) local_ms)) \<longleftrightarrow> decision_is_blocked d"
    unfolding d member_decision_blocked ..
  then show "dd_target_index d = dt_target_index (fst m)" "dd_server_id d = dt_server_id (fst m)"
    "dd_policy_id d = Some (cs_policy_id (snd m))"
    "dd_variant_fingerprint d = (if decision_is_blocked d then None else f)"
    unfolding d by (cases m; simp add: member_decision_def Let_def)+
qed

text \<open>A decision belongs to a destination.\<close>

definition decides :: "destination \<Rightarrow> destination_decision \<Rightarrow> bool" where
  "decides x d \<longleftrightarrow> dd_target_index d = dt_target_index x \<and> dd_server_id d = dt_server_id x"

lemma evaluate_profile_decisions:
  assumes "evaluate_profile c shared pres analyzed members (ds, vs) = Some (Inr (ds', vs'))"
    and "variants_ok vs" "list_all (decision_ok vs) ds" "list_all2 decides xs ds"
  shows "variants_ok vs' \<and> list_all (decision_ok vs') ds' \<and> list_all2 decides (xs @ map fst members) ds'"
  using assms(1)
proof (cases rule: evaluate_profile_ok)
  case (1 m rest matches variant new)
  have sub: "dom (map_of vs) \<subseteq> dom (map_of vs')"
    using assms(2) 1(6) by (auto simp: variants_ok_def split: option.splits)
  have vs': "variants_ok vs'" unfolding 1(6) using assms(2) variants_ok_insert by (auto split: option.splits)
  have f: "f \<in> dom (map_of vs')" if "map_option dv_fingerprint variant = Some f" for f
    using that assms(2) 1(6) by (auto simp: variants_ok_def)
  have "decision_ok vs' d" if "d \<in> set new" for d
  proof -
    from that 1(4) obtain m' where "decide_member (snd m) matches (map_option dv_fingerprint variant) m' = Inr d"
      unfolding list_all2_conv_all_nth by (metis in_set_conv_nth)
    from decide_member_ok(4) [OF this] f show ?thesis
      by (auto simp: decision_ok_def split: option.splits if_splits)
  qed
  moreover have "list_all (decision_ok vs') ds"
    using assms(3) decision_ok_mono [OF _ sub] by (auto simp: list_all_iff)
  moreover have "list_all2 decides (map fst members) new"
    using 1(4) unfolding list_all2_map1 by (rule list_all2_mono) (simp add: decides_def decide_member_ok(1,2))
  ultimately show ?thesis
    unfolding 1(5) using vs' assms(4) by (auto simp: list_all_iff intro!: list_all2_appendI)
qed

lemma evaluate_profiles_decisions:
  "evaluate_profiles c shared pres analyzed groups (ds, vs) = Some (Inr (ds', vs')) \<Longrightarrow>
     variants_ok vs \<Longrightarrow> list_all (decision_ok vs) ds \<Longrightarrow> list_all2 decides xs ds \<Longrightarrow>
     variants_ok vs' \<and> list_all (decision_ok vs') ds' \<and> list_all2 decides (xs @ map fst (concat groups)) ds'"
proof (induction groups arbitrary: ds vs xs)
  case (Cons g groups)
  from Cons.prems(1) obtain ds1 vs1 where step: "evaluate_profile c shared pres analyzed g (ds, vs) = Some (Inr (ds1, vs1))"
    "evaluate_profiles c shared pres analyzed groups (ds1, vs1) = Some (Inr (ds', vs'))"
    by (auto simp: try_call_Inr_iff)
  from evaluate_profile_decisions [OF step(1) Cons.prems(2-4)]
  have "variants_ok vs1" "list_all (decision_ok vs1) ds1" "list_all2 decides (xs @ map fst g) ds1" by blast+
  from Cons.IH [OF step(2) this] show ?case by simp
qed simp

lemma decides_map:
  "list_all2 decides xs ds \<Longrightarrow>
     map (\<lambda>d. (dd_target_index d, dd_server_id d)) ds = map (\<lambda>x. (dt_target_index x, dt_server_id x)) xs"
  by (induction rule: list_all2_induct) (auto simp: decides_def)

lemma evaluate_without_policy_decisions:
  assumes "evaluate_without_policy c shared pres ws = Inr (ds, vs)"
  shows "variants_ok vs \<and> list_all (decision_ok vs) ds \<and> list_all2 decides ws ds"
proof (cases "ws = []")
  case True
  with assms show ?thesis by (simp add: evaluate_without_policy_def variants_ok_def)
next
  case False
  with assms obtain v where vs: "vs = [(dv_fingerprint v, v)]" and ds: "ds = map (open_decision (dv_fingerprint v)) ws"
    by (auto simp: evaluate_without_policy_def bt_insert_def)
  have "variants_ok vs" by (simp add: vs variants_ok_def bt_wf_def)
  moreover have "list_all (decision_ok vs) ds"
    by (simp add: ds vs list_all_iff decision_ok_def open_decision_def decision_is_blocked_def)
  moreover have "list_all2 decides ws ds"
    by (simp add: ds list_all2_map2 list_all2_same decides_def open_decision_def)
  ultimately show ?thesis by blast
qed

lemma evaluate_server_destinations_ok:
  assumes "evaluate_server_destinations c st shared canonical analyzed ds = Some (Inr (decisions, vs, n))"
  obtains ds0 vs0 ds1 where
    "evaluate_without_policy c shared (with_analyzed_urls canonical analyzed) (without_policy st ds) = Inr (ds0, vs0)"
    "evaluate_profiles c shared (with_analyzed_urls canonical analyzed) analyzed
       (bt_values (bt_group_from member_profile (loaded_members st ds) [])) (ds0, vs0) = Some (Inr (ds1, vs))"
    "decisions = sort_key dd_target_index ds1"
proof -
  let ?pres = "with_analyzed_urls canonical analyzed"
  let ?groups = "bt_group_from member_profile (loaded_members st ds) []"
  from assms obtain acc where 1: "evaluate_without_policy c shared ?pres (without_policy st ds) = Inr acc"
    and 2: "try_call (evaluate_profiles c shared ?pres analyzed (bt_values ?groups) acc) (\<lambda>(decisions, variants).
          Some (Inr (sort_key dd_target_index decisions, variants, length ?groups))) = Some (Inr (decisions, vs, n))"
    unfolding evaluate_server_destinations_def split_destinations_eq Let_def prod.case try_call_Inr_iff append_Nil by blast
  from 2 obtain acc1 where 3: "evaluate_profiles c shared ?pres analyzed (bt_values ?groups) acc = Some (Inr acc1)"
    and 4: "(case acc1 of (decisions, variants) \<Rightarrow> Some (Inr (sort_key dd_target_index decisions, variants, length ?groups)))
       = (Some (Inr (decisions, vs, n)) :: (evaluation_error + _) option)"
    unfolding try_call_Inr_iff by blast
  obtain ds0 vs0 where a: "acc = (ds0, vs0)" by fastforce
  obtain ds1 vs1 where b: "acc1 = (ds1, vs1)" by fastforce
  from 4 have e: "decisions = sort_key dd_target_index ds1" "vs1 = vs" unfolding b by simp_all
  show thesis by (rule that [OF 1 [unfolded a] 3 [unfolded a b e(2)] e(1)])
qed

text \<open>
  A successful evaluation decides every destination exactly once, in the
  order of the target indexes. A decision that is not blocked and names a variant names one that is
  in the plan, under the fingerprint of that variant, and a blocked destination gets no variant.
\<close>

theorem destinations_decided:
  assumes "evaluate_server_destinations c st shared canonical analyzed ds = Some (Inr (decisions, vs, n))"
  shows "sorted (map dd_target_index decisions)
    \<and> mset (map (\<lambda>d. (dd_target_index d, dd_server_id d)) decisions)
        = mset (map (\<lambda>x. (dt_target_index x, dt_server_id x)) ds)
    \<and> variants_ok vs \<and> list_all (decision_ok vs) decisions"
proof -
  let ?pres = "with_analyzed_urls canonical analyzed"
  let ?groups = "bt_group_from member_profile (loaded_members st ds) []"
  from assms obtain ds0 vs0 ds1 where
    first: "evaluate_without_policy c shared ?pres (without_policy st ds) = Inr (ds0, vs0)"
    and rest: "evaluate_profiles c shared ?pres analyzed (bt_values ?groups) (ds0, vs0) = Some (Inr (ds1, vs))"
    and d: "decisions = sort_key dd_target_index ds1"
    by (rule evaluate_server_destinations_ok)
  note start = evaluate_without_policy_decisions [OF first]
  from evaluate_profiles_decisions [OF rest] start
  have ok: "variants_ok vs" "list_all (decision_ok vs) ds1"
    and m: "list_all2 decides (without_policy st ds @ map fst (concat (bt_values ?groups))) ds1" by blast+
  have "map (\<lambda>d. (dd_target_index d, dd_server_id d)) ds1
      = map (\<lambda>x. (dt_target_index x, dt_server_id x)) (without_policy st ds @ map fst (concat (bt_values ?groups)))"
    using m by (rule decides_map)
  from arg_cong [OF this, of mset] have "mset (map (\<lambda>d. (dd_target_index d, dd_server_id d)) ds1)
      = image_mset (\<lambda>x. (dt_target_index x, dt_server_id x)) (mset (without_policy st ds) + image_mset fst (mset (concat (bt_values ?groups))))"
    by (simp only: mset_map mset_append)
  also have "mset (concat (bt_values ?groups)) = mset (loaded_members st ds)"
    unfolding mset_bt_group by (simp add: bt_values_def)
  also have "mset (without_policy st ds) + image_mset fst (mset (loaded_members st ds)) = mset ds"
    using destinations_split_mset by simp
  finally have "mset (map (\<lambda>d. (dd_target_index d, dd_server_id d)) decisions)
        = mset (map (\<lambda>x. (dt_target_index x, dt_server_id x)) ds)" by (simp add: d)
  moreover have "list_all (decision_ok vs) decisions" using ok(2) by (simp add: d list_all_iff)
  ultimately show ?thesis using ok(1) by (simp add: d)
qed

section \<open>Evaluation does not fail\<close>

definition matches_valid :: "presentation \<Rightarrow> matched_rule list \<Rightarrow> bool" where
  "matches_valid pn ms \<longleftrightarrow>
     (\<forall>m \<in> set ms. \<forall>x \<in> set (mr_surfaces m). \<forall>y \<in> set (ms_spans x). valid_span (presentation_surface pn (ms_surface x)) y)"

definition delivery_valid :: "presentation \<Rightarrow> delivery_effects \<Rightarrow> bool" where
  "delivery_valid pn d \<longleftrightarrow> delivery_wf d \<and>
     (\<forall>s. \<forall>x \<in> set (spans_at s (de_censor_spans d)). valid_span (presentation_surface pn s) x)"

lemma resolve_scope_valid:
  assumes "matches_valid pn ms"
  shows "delivery_valid pn (rs_delivery (resolve_scope scope ms))"
proof -
  have "valid_span (presentation_surface pn s) x"
    if x: "x \<in> set (spans_at s (de_censor_spans (rs_delivery (resolve_scope scope ms))))" for s x
  proof (cases "has_action Block ms")
    case True
    from x resolve_scope_censor_blocked [OF True] show ?thesis by simp
  next
    case False
    let ?all = "concat (map (\<lambda>p. surfaces_spans s (mr_surfaces (fst p)))
       (filter (\<lambda>p. pa_type (snd p) = CensorMatch) (rule_actions (sort_key mr_rule_id ms))))"
    have "valid_span (presentation_surface pn s) y" if "y \<in> set ?all" for y
      using that assms by (auto simp: surfaces_spans_def rule_actions_def matches_valid_def)
    then show ?thesis using valid_span_merge x unfolding resolve_scope_censor_spans [OF False] by blast
  qed
  then show ?thesis by (simp add: delivery_valid_def resolve_scope_wf)
qed

lemma compose_delivery_valid:
  assumes "\<forall>l \<in> set ls. delivery_valid pn l" "\<not> is_blocked (compose_delivery ls)"
  shows "delivery_valid pn (compose_delivery ls)"
proof -
  have wf: "\<forall>l \<in> set ls. delivery_wf l" using assms(1) by (simp add: delivery_valid_def)
  note f = compose_delivery_fields [OF wf]
  have unblocked: "\<not> (\<exists>l \<in> set ls. is_blocked l)" using assms(2) f(1) by simp
  have "valid_span (presentation_surface pn s) x" if "x \<in> set (spans_at s (de_censor_spans (compose_delivery ls)))" for s x
    using that assms(1) unfolding f(5) [OF unblocked]
    by (intro valid_span_merge [of "concat (map (\<lambda>l. spans_at s (de_censor_spans l)) ls)"]) (auto simp: delivery_valid_def)
  then show ?thesis by (simp add: delivery_valid_def compose_delivery_wf)
qed

lemma presentation_surface_urls [simp]: "presentation_surface (pn\<lparr>pn_url_spans := us\<rparr>) s = presentation_surface pn s"
  by (cases s) simp_all

lemma materialize_total:
  assumes "analyzed_content_new u pn = Some a" "delivery_valid pn d"
  shows "\<exists>v. materialize_variant sha (with_analyzed_urls pn a) d = Inr v"
proof -
  from analyzed_content_new_ok [of u pn] assms(1) obtain cs :: "url_candidate list" where
    urls: "links_from u (pn_message_content pn) 0 cs" "ac_url_spans a = map uc_url cs" by auto
  have v: "\<forall>x \<in> set (ac_url_spans a). valid_span (pn_message_content pn) x"
    using urls by (auto simp: links_from_def candidate_ok_def Let_def)
  let ?p = "with_analyzed_urls pn a"
  have s: "\<forall>x \<in> set (spans_at k (de_censor_spans d)). valid_span (presentation_surface ?p k) x" for k
    using assms(2) by (simp add: delivery_valid_def with_analyzed_urls_def)
  have urls': "\<forall>x \<in> set (pn_url_spans ?p). valid_span (pn_message_content ?p) x"
    using v by (simp add: with_analyzed_urls_def)
  have "\<forall>x \<in> set (spans_at MessageContent (de_censor_spans d) @ (if de_strip_links d then pn_url_spans ?p else [])).
      valid_span (pn_message_content ?p) x"
    using s [of MessageContent] urls' by auto
  from transform_ok [OF urls' this] obtain m where
    "transform_or_reuse (pn_message_content ?p) (spans_at MessageContent (de_censor_spans d)
       @ (if de_strip_links d then pn_url_spans ?p else [])) (de_strip_links d) (pn_url_spans ?p) = Inr m" by blast
  moreover have "\<exists>r. transformed_name ?p d k = Inr r" if "is_name k" for k
    using transformed_name_ok [OF that s] by blast
  then obtain d1 d2 d3 d4 where "transformed_name ?p d DisplayName = Inr d1" "transformed_name ?p d Username = Inr d2"
    "transformed_name ?p d ServerName = Inr d3" "transformed_name ?p d HubName = Inr d4"
    by (meson is_name.simps)
  ultimately show ?thesis by (simp add: materialize_variant_def Let_def)
qed

text \<open>Every loaded policy went through the runtime, which uses the same libraries as the evaluator.\<close>

definition policies_compiled :: "runtime_context \<Rightarrow> evaluator_context \<Rightarrow> policy_snapshot_store \<Rightarrow> bool" where
  "policies_compiled r c st \<longleftrightarrow>
     ec_unicode c = rc_unicode r \<and> ec_automaton c = rc_automaton r
     \<and> (\<forall>scope s. load_snapshot scope st = Some s \<longrightarrow> (\<exists>d. compiled r d = Some s))"

text \<open>Policies of servers with one profile fingerprint have the same rule names.\<close>

definition names_agree :: "policy_snapshot_store \<Rightarrow> bool" where
  "names_agree st \<longleftrightarrow> (\<forall>i j s t. server_snapshot i st = Some s \<and> server_snapshot j st = Some t
     \<and> cs_profile_fingerprint s = cs_profile_fingerprint t
     \<longrightarrow> dom (map_of (cs_rule_names s)) = dom (map_of (cs_rule_names t)))"

definition compiled_with :: "evaluator_context \<Rightarrow> compiled_policy_snapshot \<Rightarrow> bool" where
  "compiled_with c s \<longleftrightarrow> (\<exists>sha p. compile_with_match_details (ec_unicode c) sha (ec_automaton c) p False = Inr s
     \<and> distinct (map pr_id (live_rules p)))"

lemma compiled_compiled_with:
  assumes "compiled r d = Some s" "ec_unicode c = rc_unicode r" "ec_automaton c = rc_automaton r"
  shows "compiled_with c s"
proof -
  from assms(1) obtain q where q: "validate_and_classify_policy (rc_unicode r) (rc_show r) d (rc_limits r) = Some (q, Inr ())"
    and s: "snapshot_compile (rc_unicode r) (rc_sha r) (rc_automaton r) q = Inr s"
    by (auto simp: compiled_Some compile_one_def)
  from validate_and_classify_ok [OF q] have "distinct (map pr_id (live_rules q))"
    by (simp add: policy_ok_def distinct_map_filter)
  with s assms(2,3) show ?thesis unfolding compiled_with_def snapshot_compile_def by auto
qed

lemma evaluate_compiled:
  assumes "finds_occurrences (ec_automaton c)" "compiled_with c s" "analyzed_content_new (ec_unicode c) pn = Some a"
  shows "\<exists>ms. evaluate_normalized (ec_unicode c) (ec_automaton c) s (analyzed_inputs a) = Some (Inr ms)
     \<and> matches_valid pn ms \<and> mr_rule_name ` set ms \<subseteq> dom (map_of (cs_rule_names s))"
proof -
  from assms(2) obtain sha p where p: "compile_with_match_details (ec_unicode c) sha (ec_automaton c) p False = Inr s"
    "distinct (map pr_id (live_rules p))" by (auto simp: compiled_with_def)
  from evaluate_normalized_ok [OF assms(1) analyzed_inputs_ok [OF assms(3)] p] obtain ms where
    ms: "evaluate_normalized (ec_unicode c) (ec_automaton c) s (analyzed_inputs a) = Some (Inr ms)"
    and ok: "\<forall>m \<in> set ms. \<exists>r \<in> set (live_rules p). matched_ok (ec_unicode c) (presentation_surface pn) (analyzed_inputs a) s r m"
    by blast
  have "matches_valid pn ms" using ok by (fastforce simp: matches_valid_def matched_ok_def)
  moreover have "mr_rule_name m \<in> dom (map_of (cs_rule_names s))" if "m \<in> set ms" for m
  proof -
    from ok that obtain r where r: "r \<in> set (live_rules p)"
      "matched_ok (ec_unicode c) (presentation_surface pn) (analyzed_inputs a) s r m" by blast
    then have "m = matched_rule_of s r (pr_id r) (mr_surfaces m)" by (simp add: matched_ok_def)
    from arg_cong [OF this, of mr_rule_name] have "mr_rule_name m = pr_name r" by (simp add: matched_rule_of_def)
    moreover have "r \<in> snd ` set (rules_by_id p)" using r(1) rules_by_id_values [OF p(2)] by simp
    ultimately show ?thesis using rule_names_lookup(1) [OF p(1), of "mr_rule_name m"] by auto
  qed
  ultimately show ?thesis using ms by blast
qed

lemma remap_total:
  assumes "compiled_with c s" "mr_rule_name ` set ms \<subseteq> dom (map_of (cs_rule_names s))"
  shows "\<exists>ms'. remap_equivalent_matches s ms = Inr ms'"
proof -
  from assms(1) obtain sha p where p: "compile_with_match_details (ec_unicode c) sha (ec_automaton c) p False = Inr s"
    by (auto simp: compiled_with_def)
  have "mr_rule_name m \<in> pr_name ` snd ` set (rules_by_id p)" if "m \<in> set ms" for m
  proof -
    have "map_of (cs_rule_names s) (mr_rule_name m) \<noteq> None" using assms(2) that by auto
    then show ?thesis using rule_names_lookup(1) [OF p] by blast
  qed
  then have "find (\<lambda>m. mr_rule_name m \<notin> pr_name ` snd ` set (rules_by_id p)) ms = None" by (auto simp: find_None_iff)
  with remap_equivalent_cases [OF p, of ms] show ?thesis by auto
qed

lemma try_map_total: "(\<And>x. x \<in> set xs \<Longrightarrow> \<exists>y. f x = Inr y) \<Longrightarrow> \<exists>ys. try_map f xs = Inr ys"
proof (induction xs)
  case (Cons x xs)
  then obtain ys where "try_map f xs = Inr ys" by auto
  moreover from Cons.prems [of x] obtain y where "f x = Inr y" by auto
  ultimately show ?case by simp
qed simp

lemma evaluate_profile_total:
  assumes ac: "finds_occurrences (ec_automaton c)" and an: "analyzed_content_new (ec_unicode c) pn = Some a"
    and sh: "delivery_valid pn shared" and ne: "members \<noteq> []" and cw: "\<forall>m \<in> set members. compiled_with c (snd m)"
    and names: "\<forall>m \<in> set members. \<forall>m' \<in> set members. dom (map_of (cs_rule_names (snd m))) = dom (map_of (cs_rule_names (snd m')))"
  shows "\<exists>acc'. evaluate_profile c shared (with_analyzed_urls pn a) a members acc = Some (Inr acc')"
proof -
  obtain ds vs where acc: "acc = (ds, vs)" by fastforce
  from ne obtain m rest where m: "members = m # rest" by (cases members) auto
  from evaluate_compiled [OF ac _ an, of "snd m"] cw m obtain ms where
    ms: "evaluate_normalized (ec_unicode c) (ec_automaton c) (snd m) (analyzed_inputs a) = Some (Inr ms)"
    and v: "matches_valid pn ms" and n: "mr_rule_name ` set ms \<subseteq> dom (map_of (cs_rule_names (snd m)))" by auto
  let ?composed = "compose_delivery [shared, rs_delivery (resolve_scope (cs_scope (snd m)) ms)]"
  have "\<exists>variant. (if is_blocked ?composed then Inr None
      else map_err TransformFailed (res_bind (materialize_variant (ec_sha c) (with_analyzed_urls pn a) ?composed) (\<lambda>v. Inr (Some v)))) = Inr variant"
  proof (cases "is_blocked ?composed")
    case False
    have "delivery_valid pn ?composed"
      using sh resolve_scope_valid [OF v] False by (intro compose_delivery_valid) simp_all
    from materialize_total [OF an this] show ?thesis using False by auto
  qed simp
  then obtain variant where variant: "(if is_blocked ?composed then Inr None
      else map_err TransformFailed (res_bind (materialize_variant (ec_sha c) (with_analyzed_urls pn a) ?composed) (\<lambda>v. Inr (Some v)))) = Inr variant"
    by blast
  have "\<exists>d. decide_member (snd m) ms f m' = Inr d" if "m' \<in> set members" for m' f
  proof -
    have "mr_rule_name ` set ms \<subseteq> dom (map_of (cs_rule_names (snd m')))"
      using n names that m by (metis list.set_intros(1))
    from remap_total [OF bspec [OF cw that] this] show ?thesis by (auto simp: decide_member_def)
  qed
  then obtain new where new: "try_map (decide_member (snd m) ms (map_option dv_fingerprint variant)) members = Inr new"
    using try_map_total by metis
  have rep: "evaluate_profile c shared (with_analyzed_urls pn a) a members (ds, vs) =
      try_call (map_option (map_err MatchFailed) (evaluate_normalized (ec_unicode c) (ec_automaton c) (snd m) (analyzed_inputs a))) (\<lambda>ms.
        try_call (Some (if is_blocked (compose_delivery [shared, rs_delivery (resolve_scope (cs_scope (snd m)) ms)]) then Inr None
          else map_err TransformFailed (res_bind (materialize_variant (ec_sha c) (with_analyzed_urls pn a)
            (compose_delivery [shared, rs_delivery (resolve_scope (cs_scope (snd m)) ms)])) (\<lambda>v. Inr (Some v))))) (\<lambda>variant.
          Some (res_bind (try_map (decide_member (snd m) ms (map_option dv_fingerprint variant)) members) (\<lambda>new.
            Inr (ds @ new, case variant of None \<Rightarrow> vs | Some v \<Rightarrow> bt_or_insert (dv_fingerprint v) v vs)))))"
    by (simp only: evaluate_profile_def Let_def m prod.case list.case)
  show ?thesis
    unfolding acc rep try_call_def ms option.case option.map map_err.simps sum.case variant new res_bind.simps by blast
qed

lemma evaluate_profiles_total:
  assumes "finds_occurrences (ec_automaton c)" "analyzed_content_new (ec_unicode c) pn = Some a" "delivery_valid pn shared"
    and "\<forall>g \<in> set groups. g \<noteq> [] \<and> (\<forall>m \<in> set g. compiled_with c (snd m))
      \<and> (\<forall>m \<in> set g. \<forall>m' \<in> set g. dom (map_of (cs_rule_names (snd m))) = dom (map_of (cs_rule_names (snd m'))))"
  shows "\<exists>acc'. evaluate_profiles c shared (with_analyzed_urls pn a) a groups acc = Some (Inr acc')"
  using assms(4)
proof (induction groups arbitrary: acc)
  case (Cons g groups)
  have g: "g \<noteq> []" "\<forall>m \<in> set g. compiled_with c (snd m)"
    "\<forall>m \<in> set g. \<forall>m' \<in> set g. dom (map_of (cs_rule_names (snd m))) = dom (map_of (cs_rule_names (snd m')))"
    using bspec [OF Cons.prems list.set_intros(1)] by blast+
  from evaluate_profile_total [OF assms(1-3) g, of acc] obtain acc1 where
    1: "evaluate_profile c shared (with_analyzed_urls pn a) a g acc = Some (Inr acc1)" by blast
  from Cons.IH [of acc1] Cons.prems obtain acc' where
    "evaluate_profiles c shared (with_analyzed_urls pn a) a groups acc1 = Some (Inr acc')" by (meson list.set_intros(2))
  then show ?case unfolding evaluate_profiles.simps try_call_def 1 option.case sum.case by blast
qed simp

lemma policies_compiled_with:
  "policies_compiled r c st \<Longrightarrow> load_snapshot scope st = Some s \<Longrightarrow> compiled_with c s"
  using compiled_compiled_with unfolding policies_compiled_def by blast

lemma evaluate_server_destinations_total:
  assumes ac: "finds_occurrences (ec_automaton c)" and an: "analyzed_content_new (ec_unicode c) pn = Some a"
    and sh: "delivery_valid pn shared" and pc: "policies_compiled r c st" and names: "names_agree st"
  shows "\<exists>res. evaluate_server_destinations c st shared pn a ds = Some (Inr res)"
proof -
  let ?pres = "with_analyzed_urls pn a"
  let ?groups = "bt_group_from member_profile (loaded_members st ds) []"
  from materialize_total [OF an sh] obtain acc where
    1: "evaluate_without_policy c shared ?pres (without_policy st ds) = Inr acc"
    unfolding evaluate_without_policy_def by (metis map_err.simps(2) res_bind.simps(2))
  have g: "g \<noteq> [] \<and> (\<forall>m \<in> set g. m \<in> set (loaded_members st ds) \<and> member_profile m = fp)" if "(fp, g) \<in> set ?groups" for fp g
    using that unfolding bt_group_mem_iff by auto
  have "\<forall>g \<in> set (bt_values ?groups). g \<noteq> [] \<and> (\<forall>m \<in> set g. compiled_with c (snd m))
      \<and> (\<forall>m \<in> set g. \<forall>m' \<in> set g. dom (map_of (cs_rule_names (snd m))) = dom (map_of (cs_rule_names (snd m'))))"
  proof
    fix g
    assume "g \<in> set (bt_values ?groups)"
    then obtain fp where "(fp, g) \<in> set ?groups" by (auto simp: bt_values_def)
    from g [OF this] have ne: "g \<noteq> []" and l: "\<And>m. m \<in> set g \<Longrightarrow> server_snapshot (dt_server_id (fst m)) st = Some (snd m)"
      and fp: "\<And>m. m \<in> set g \<Longrightarrow> member_profile m = fp" unfolding loaded_members_server by blast+
    have "compiled_with c (snd m)" if "m \<in> set g" for m
      using l [OF that] policies_compiled_with [OF pc] by (simp add: server_snapshot_def)
    moreover have "dom (map_of (cs_rule_names (snd m))) = dom (map_of (cs_rule_names (snd m')))"
      if "m \<in> set g" "m' \<in> set g" for m m'
      using names l fp that unfolding names_agree_def by metis
    ultimately show "g \<noteq> [] \<and> (\<forall>m \<in> set g. compiled_with c (snd m))
      \<and> (\<forall>m \<in> set g. \<forall>m' \<in> set g. dom (map_of (cs_rule_names (snd m))) = dom (map_of (cs_rule_names (snd m'))))"
      using ne by blast
  qed
  from evaluate_profiles_total [OF ac an sh this, of acc] obtain acc' where
    2: "evaluate_profiles c shared ?pres a (bt_values ?groups) acc = Some (Inr acc')" by blast
  show ?thesis
    unfolding evaluate_server_destinations_def split_destinations_eq Let_def prod.case append_Nil 1
    using 2 by (simp add: try_call_def split: prod.splits)
qed

lemma evaluate_snapshot_total:
  assumes "finds_occurrences (ec_automaton c)" "analyzed_content_new (ec_unicode c) pn = Some a" "policies_compiled r c st"
  shows "\<exists>d. evaluate_snapshot c scope (load_snapshot scope st) a = Some (Inr d) \<and> delivery_valid pn (rs_delivery d)"
proof (cases "load_snapshot scope st")
  case None
  have "delivery_valid pn (rs_delivery (empty_scope_decision scope))"
    unfolding empty_scope_decision_def by (rule resolve_scope_valid) (simp add: matches_valid_def)
  with None show ?thesis by (simp add: evaluate_snapshot_def)
next
  case (Some s)
  from evaluate_compiled [OF assms(1) policies_compiled_with [OF assms(3) Some] assms(2)] obtain ms where
    "evaluate_normalized (ec_unicode c) (ec_automaton c) s (analyzed_inputs a) = Some (Inr ms)" "matches_valid pn ms" by blast
  with Some resolve_scope_valid show ?thesis by (auto simp: evaluate_snapshot_def try_call_def)
qed

lemma evaluation_total:
  assumes "finds_occurrences (ec_automaton c)" "analyzed_content_new (ec_unicode c) pn = Some a"
    and "policies_compiled r c st" "names_agree st"
  shows "(\<exists>plan gate'. evaluate_hub c st subject hub_id pn a ds gate = Some (Inr plan, gate'))
    \<and> (\<exists>plan gate'. evaluate_call_for_destinations c st subject pn a ds gate = Some (Inr plan, gate'))
    \<and> (\<exists>plan gate'. evaluate_call c st subject pn a gate = Some (Inr plan, gate'))"
proof -
  from evaluate_snapshot_total [OF assms(1-3), of global] obtain glob where
    glob: "evaluate_snapshot c global (global_snapshot st) a = Some (Inr glob)" "delivery_valid pn (rs_delivery glob)"
    by (auto simp: global_snapshot_def load_snapshot_def global_def)
  from evaluate_snapshot_total [OF assms(1-3), of "hub hub_id"] obtain hb where
    hb: "evaluate_snapshot c (hub hub_id) (hub_snapshot hub_id st) a = Some (Inr hb)" "delivery_valid pn (rs_delivery hb)"
    by (auto simp: hub_snapshot_def)
  have total: "\<exists>res. evaluate_server_destinations c st sh pn a ds = Some (Inr res)" if "delivery_valid pn sh" for sh ds
    using evaluate_server_destinations_total [OF assms(1,2) that assms(3,4)] .
  have call: "\<exists>plan gate'. evaluate_call_for_destinations c st subject pn a ds gate = Some (Inr plan, gate')
      \<and> cp_global plan = glob" for ds
    using total [OF glob(2), of ds]
    by (auto simp: evaluate_call_for_destinations_def glob terminal_call_plan_def split: prod.splits)
  moreover have "\<exists>plan gate'. evaluate_hub c st subject hub_id pn a ds gate = Some (Inr plan, gate')"
  proof (cases "is_blocked (rs_delivery glob) \<or> is_blocked (rs_delivery hb)")
    case True
    then show ?thesis by (auto simp: evaluate_hub_def glob hb split: prod.splits)
  next
    case False
    then have "\<not> is_blocked (compose_delivery [rs_delivery glob, rs_delivery hb])"
      using compose_delivery_fields(1) [of "[rs_delivery glob, rs_delivery hb]"] glob(2) hb(2) by (simp add: delivery_valid_def)
    then have "delivery_valid pn (compose_delivery [rs_delivery glob, rs_delivery hb])"
      using glob(2) hb(2) by (intro compose_delivery_valid) simp_all
    from total [OF this, of ds] False show ?thesis by (auto simp: evaluate_hub_def glob hb split: prod.splits)
  qed
  moreover have "\<exists>plan gate'. evaluate_call c st subject pn a gate = Some (Inr plan, gate')"
  proof -
    from call [of "[]"] obtain plan gate' where
      p: "evaluate_call_for_destinations c st subject pn a [] gate = Some (Inr plan, gate')" "cp_global plan = glob" by blast
    from materialize_total [OF assms(2) glob(2)] p show ?thesis by (auto simp: evaluate_call_def)
  qed
  ultimately show ?thesis by blast
qed

text \<open>
  C7 [evaluation_never_fails]: Evaluating an analysed message for a Hub or a call returns a plan, with no
  error and no panic, whatever the destinations and the state of the gate: every loaded policy
  was validated and compiled, no span is out of bounds and re-attribution finds every rule, when
  servers that share a profile fingerprint have the same rule names.
\<close>

theorem evaluation_never_fails:
  assumes "finds_occurrences (ec_automaton c)" "analyzed_content_new (ec_unicode c) pn = Some a"
    and "policies_compiled r c st" "names_agree st"
  shows "(\<exists>plan gate'. evaluate_hub c st subject hub_id pn a ds gate = Some (Inr plan, gate'))
    \<and> (\<exists>plan gate'. evaluate_call_for_destinations c st subject pn a ds gate = Some (Inr plan, gate'))
    \<and> (\<exists>plan gate'. evaluate_call c st subject pn a gate = Some (Inr plan, gate'))"
  by (rule evaluation_total [OF assms])

text \<open>Concrete policies, evaluator and registries.\<close>

definition server_policy :: "uuid \<Rightarrow> rstr \<Rightarrow> uuid \<Rightarrow> rstr \<Rightarrow> content_policy" where
  "server_policy policy_id serv rule_id word = word_policy policy_id (server serv) rule_id word"

definition sample_evaluator :: evaluator_context where
  "sample_evaluator =
     \<lparr>ec_unicode = ascii_unicode, ec_automaton = naive_automaton, ec_sha = (\<lambda>b. b),
      ec_latest = 1000, ec_clock = (\<lambda>n. n)\<rparr>"

lemma single_store_load: "load_snapshot scope (store_step (Publish s) empty_store) = Some t \<Longrightarrow> t = s"
  by (auto simp: load_snapshot_view store_step_view empty_slot_def slot_replace_def simp del: store_step.simps split: if_splits)

lemma single_store_ok:
  assumes "compiled sample_context d = Some s"
  shows "policies_compiled sample_context sample_evaluator (store_step (Publish s) empty_store)"
    "names_agree (store_step (Publish s) empty_store)"
  using assms single_store_load
  by (auto simp: policies_compiled_def names_agree_def server_snapshot_def sample_evaluator_def sample_context_def
      simp del: store_step.simps) metis+

lemma sample_policy_compiles: "\<exists>s. compiled sample_context (server_policy 1 (lit ''a'') 11 (lit ''spam'')) = Some s"
proof -
  have "compiled sample_context (server_policy 1 (lit ''a'') 11 (lit ''spam'')) \<noteq> None" by code_simp
  then show ?thesis by blast
qed

lemma sample_message_analyzed: "\<exists>a. analyzed_content_new (ec_unicode sample_evaluator) (plain_message t) = Some a"
  using analyzed_content_new_ok by blast

lemma sample_evaluator_finds: "finds_occurrences (ec_automaton sample_evaluator)"
  by (simp add: sample_evaluator_def naive_automaton_finds)

theorem evaluation_never_fails_witness:
  "\<exists>s a plan gate'. compiled sample_context (server_policy 1 (lit ''a'') 11 (lit ''spam'')) = Some s
     \<and> evaluate_hub sample_evaluator (store_step (Publish s) empty_store) [] (lit ''h'') (plain_message (lit ''spam'')) a
         [\<lparr>dt_target_index = 0, dt_server_id = lit ''a''\<rparr>] (new_cooldown, 0) = Some (Inr plan, gate')"
proof -
  from sample_policy_compiles obtain s where s: "compiled sample_context (server_policy 1 (lit ''a'') 11 (lit ''spam'')) = Some s" by blast
  from sample_message_analyzed obtain a where a: "analyzed_content_new (ec_unicode sample_evaluator) (plain_message (lit ''spam'')) = Some a" by blast
  from evaluation_never_fails [OF sample_evaluator_finds a single_store_ok [OF s]] s show ?thesis by blast
qed

theorem destinations_decided_witness:
  "\<exists>s a decisions vs n. evaluate_server_destinations sample_evaluator (store_step (Publish s) empty_store) default_delivery
       (plain_message (lit ''spam'')) a [\<lparr>dt_target_index = 4, dt_server_id = lit ''a''\<rparr>, \<lparr>dt_target_index = 2, dt_server_id = lit ''b''\<rparr>]
       = Some (Inr (decisions, vs, n))
     \<and> sorted (map dd_target_index decisions) \<and> size (mset decisions) = 2"
proof -
  from sample_policy_compiles obtain s where s: "compiled sample_context (server_policy 1 (lit ''a'') 11 (lit ''spam'')) = Some s" by blast
  from sample_message_analyzed obtain a where a: "analyzed_content_new (ec_unicode sample_evaluator) (plain_message (lit ''spam'')) = Some a" by blast
  have d: "delivery_valid (plain_message (lit ''spam'')) default_delivery"
    by (simp add: delivery_valid_def) (simp add: default_delivery_def)
  let ?ds = "[\<lparr>dt_target_index = 4, dt_server_id = lit ''a''\<rparr>, \<lparr>dt_target_index = 2, dt_server_id = lit ''b''\<rparr>]"
  from evaluate_server_destinations_total [OF sample_evaluator_finds a d single_store_ok [OF s], of ?ds] obtain decisions vs n where
    r: "evaluate_server_destinations sample_evaluator (store_step (Publish s) empty_store) default_delivery
       (plain_message (lit ''spam'')) a ?ds = Some (Inr (decisions, vs, n))" by (metis prod_cases3)
  from destinations_decided [OF r] have
    "sorted (map dd_target_index decisions)"
    "mset (map (\<lambda>d. (dd_target_index d, dd_server_id d)) decisions) = mset (map (\<lambda>x. (dt_target_index x, dt_server_id x)) ?ds)" by blast+
  from this(1) arg_cong [OF this(2), of size] r show ?thesis by (intro exI [of _ s] exI [of _ a]) auto
qed

section \<open>Each destination on its own\<close>

text \<open>The decision a destination gets when it is evaluated alone.\<close>

definition own_decision ::
  "evaluator_context \<Rightarrow> policy_snapshot_store \<Rightarrow> delivery_effects \<Rightarrow> presentation \<Rightarrow> analyzed_content \<Rightarrow> destination
     \<Rightarrow> destination_decision option" where
  "own_decision c st shared pres analyzed d =
     (case server_snapshot (dt_server_id d) st of
        None \<Rightarrow> (case materialize_variant (ec_sha c) pres shared of
            Inr v \<Rightarrow> Some (open_decision (dv_fingerprint v) d) | Inl _ \<Rightarrow> None)
      | Some s \<Rightarrow> (case evaluate_normalized (ec_unicode c) (ec_automaton c) s (analyzed_inputs analyzed) of
            Some (Inr ms) \<Rightarrow>
              let composed = compose_delivery [shared, rs_delivery (resolve_scope (cs_scope s) ms)]
              in if is_blocked composed then Some (member_decision None (d, s) ms)
                 else (case materialize_variant (ec_sha c) pres composed of
                     Inr v \<Rightarrow> Some (member_decision (Some (dv_fingerprint v)) (d, s) ms) | Inl _ \<Rightarrow> None)
          | _ \<Rightarrow> None))"

lemma evaluate_profile_own:
  assumes "evaluate_profile c shared pres analyzed members (ds, vs) = Some (Inr (ds', vs'))"
    and l: "\<And>m. m \<in> set members \<Longrightarrow> server_snapshot (dt_server_id (fst m)) st = Some (snd m)"
    and same: "\<And>m m'. m \<in> set members \<Longrightarrow> m' \<in> set members \<Longrightarrow> snd m = snd m'"
  shows "\<exists>new. ds' = ds @ new \<and> map Some new = map (own_decision c st shared pres analyzed) (map fst members)"
  using assms(1)
proof (cases rule: evaluate_profile_ok)
  case (1 m rest matches variant new)
  have "own_decision c st shared pres analyzed (fst m') = Some d"
    if m': "m' \<in> set members" and d: "decide_member (snd m) matches (map_option dv_fingerprint variant) m' = Inr d" for m' d
  proof -
    have s: "snd m' = snd m" using same [OF m'] 1(1) by simp
    have "d = member_decision (map_option dv_fingerprint variant) m' matches"
      using d by (simp add: decide_member_def s)
    then show ?thesis
      using 1(2,3) l [OF m'] s by (cases m') (auto simp: own_decision_def Let_def split: if_splits)
  qed
  then have "list_all2 (\<lambda>m' d. own_decision c st shared pres analyzed (fst m') = Some d) members new"
    using 1(4) unfolding list_all2_conv_all_nth by (metis nth_mem)
  then have "map Some new = map (own_decision c st shared pres analyzed) (map fst members)"
    by (induction rule: list_all2_induct) simp_all
  with 1(5) show ?thesis by blast
qed

lemma evaluate_profiles_own:
  "evaluate_profiles c shared pres analyzed groups (ds, vs) = Some (Inr (ds', vs')) \<Longrightarrow>
     (\<And>g m. g \<in> set groups \<Longrightarrow> m \<in> set g \<Longrightarrow> server_snapshot (dt_server_id (fst m)) st = Some (snd m)) \<Longrightarrow>
     (\<And>g m m'. g \<in> set groups \<Longrightarrow> m \<in> set g \<Longrightarrow> m' \<in> set g \<Longrightarrow> snd m = snd m') \<Longrightarrow>
     \<exists>new. ds' = ds @ new \<and> map Some new = map (own_decision c st shared pres analyzed) (map fst (concat groups))"
proof (induction groups arbitrary: ds vs)
  case (Cons g groups)
  from Cons.prems(1) obtain ds1 vs1 where step: "evaluate_profile c shared pres analyzed g (ds, vs) = Some (Inr (ds1, vs1))"
    "evaluate_profiles c shared pres analyzed groups (ds1, vs1) = Some (Inr (ds', vs'))"
    by (auto simp: try_call_Inr_iff)
  from evaluate_profile_own [OF step(1)] Cons.prems(2,3) obtain new1 where
    1: "ds1 = ds @ new1" "map Some new1 = map (own_decision c st shared pres analyzed) (map fst g)"
    by (metis list.set_intros(1))
  from Cons.IH [OF step(2)] Cons.prems(2,3) obtain new2 where
    2: "ds' = ds1 @ new2" "map Some new2 = map (own_decision c st shared pres analyzed) (map fst (concat groups))"
    by (metis list.set_intros(2))
  from 1 2 show ?case by (intro exI [of _ "new1 @ new2"]) simp
next
  case Nil
  from Nil.prems(1) have "ds' = ds" by simp
  then show ?case by simp
qed

text \<open>Among the servers of the destinations, a fingerprint identifies the policy.\<close>

definition fingerprints_identify :: "policy_snapshot_store \<Rightarrow> destination list \<Rightarrow> bool" where
  "fingerprints_identify st ds \<longleftrightarrow>
     (\<forall>m \<in> set (loaded_members st ds). \<forall>m' \<in> set (loaded_members st ds). member_profile m = member_profile m' \<longrightarrow> snd m = snd m')"



section \<open>Blocks and the feedback to the sender\<close>

definition all_blocked_by :: "effect_attribution list \<Rightarrow> destination list \<Rightarrow> destination_decision list \<Rightarrow> bool" where
  "all_blocked_by blockers ds decisions \<longleftrightarrow>
     list_all2 decides ds decisions
     \<and> list_all (\<lambda>d. dd_blocked_by d = blockers \<and> dd_variant_fingerprint d = None) decisions"

lemma terminal_all_blocked: "all_blocked_by blockers ds (map (terminal_decision blockers) ds)"
  by (simp add: all_blocked_by_def list_all2_map2 list_all2_same decides_def terminal_decision_def list_all_iff)

text \<open>
  The feedback of a Hub plan tells the true reason: a global safety block
  or a Hub block exactly when the first blocking layer is that one, and then every destination is
  blocked by that layer, no variant exists and no server was evaluated; otherwise the number of
  destinations their servers filtered, and nothing when none was.
\<close>

theorem hub_feedback_explains:
  assumes "evaluate_hub c st subject hub_id canonical analyzed ds gate = Some (Inr plan, gate')"
  shows "case hp_sender_feedback plan of
      Some GlobalSafetyBlock \<Rightarrow> is_blocked (rs_delivery (hp_global plan))
        \<and> all_blocked_by (de_blocked_by (rs_delivery (hp_global plan))) ds (hp_destinations plan)
        \<and> hp_variants plan = [] \<and> hp_evaluated_server_profiles plan = 0
    | Some (HubModerationBlock reason) \<Rightarrow> \<not> is_blocked (rs_delivery (hp_global plan)) \<and> is_blocked (rs_delivery (hp_hub plan))
        \<and> all_blocked_by (de_blocked_by (rs_delivery (hp_hub plan))) ds (hp_destinations plan)
        \<and> hp_variants plan = [] \<and> hp_evaluated_server_profiles plan = 0
        \<and> reason = find_map ea_custom_reason (de_blocked_by (rs_delivery (hp_hub plan)))
    | Some (ServerFilters n) \<Rightarrow> \<not> is_blocked (rs_delivery (hp_global plan)) \<and> \<not> is_blocked (rs_delivery (hp_hub plan))
        \<and> n = length (filter decision_is_blocked (hp_destinations plan)) \<and> 0 < n
    | Some CallSafetyBlock \<Rightarrow> False
    | None \<Rightarrow> \<not> is_blocked (rs_delivery (hp_global plan)) \<and> \<not> is_blocked (rs_delivery (hp_hub plan))
        \<and> filter decision_is_blocked (hp_destinations plan) = []"
proof -
  from assms obtain glob where glob: "evaluate_snapshot c global (global_snapshot st) analyzed = Some (Inr glob)"
    by (auto simp: evaluate_hub_def split: option.splits sum.splits)
  show ?thesis
  proof (cases "is_blocked (rs_delivery glob)")
    case True
    with assms glob show ?thesis
      by (auto simp: evaluate_hub_def terminal_hub_plan_def terminal_all_blocked split: prod.splits)
  next
    case open_global: False
    with assms glob obtain hb where hb: "evaluate_snapshot c (hub hub_id) (hub_snapshot hub_id st) analyzed = Some (Inr hb)"
      by (auto simp: evaluate_hub_def split: option.splits sum.splits)
    show ?thesis
    proof (cases "is_blocked (rs_delivery hb)")
      case True
      with assms glob hb open_global show ?thesis
        by (auto simp: evaluate_hub_def terminal_hub_plan_def terminal_all_blocked split: prod.splits)
    next
      case False
      with assms glob hb open_global obtain decisions where
        "hp_global plan = glob" "hp_hub plan = hb" "hp_destinations plan = decisions" "hp_sender_feedback plan = server_feedback decisions"
        by (auto simp: evaluate_hub_def split: prod.splits option.splits sum.splits)
      with open_global False show ?thesis by (auto simp: server_feedback_def Let_def)
    qed
  qed
qed

theorem hub_feedback_explains_witness:
  "\<exists>s a plan gate'. evaluate_hub sample_evaluator (store_step (Publish s) empty_store) [] (lit ''h'') (plain_message (lit ''spam'')) a
         [\<lparr>dt_target_index = 0, dt_server_id = lit ''a''\<rparr>] (new_cooldown, 0) = Some (Inr plan, gate')
     \<and> hp_sender_feedback plan \<noteq> Some CallSafetyBlock"
proof -
  from sample_policy_compiles obtain s where s: "compiled sample_context (server_policy 1 (lit ''a'') 11 (lit ''spam'')) = Some s" by blast
  from sample_message_analyzed obtain a where a: "analyzed_content_new (ec_unicode sample_evaluator) (plain_message (lit ''spam'')) = Some a" by blast
  from evaluation_total [OF sample_evaluator_finds a single_store_ok [OF s]] obtain plan gate' where
    p: "evaluate_hub sample_evaluator (store_step (Publish s) empty_store) [] (lit ''h'') (plain_message (lit ''spam'')) a
         [\<lparr>dt_target_index = 0, dt_server_id = lit ''a''\<rparr>] (new_cooldown, 0) = Some (Inr plan, gate')" by blast
  have "hp_sender_feedback plan \<noteq> Some CallSafetyBlock" using hub_feedback_explains [OF p] by auto
  with p show ?thesis by (intro exI [of _ s] exI [of _ a] exI [of _ plan] exI [of _ gate'] conjI)
qed

text \<open>Two server policies that differ in one authored pattern, and a message that evades the word.\<close>

definition mixed_rows :: "content_policy list" where
  "mixed_rows = [server_policy 1 (lit ''a'') 11 (lit ''spam''), server_policy 2 (lit ''b'') 12 (lit ''spam!'')]"

definition published_store :: "content_policy list \<Rightarrow> policy_snapshot_store" where
  "published_store ds = (case bootstrap sample_context (source_of ds) empty_store of Some (_, st) \<Rightarrow> st | None \<Rightarrow> empty_store)"

definition blocked_servers :: "content_policy list \<Rightarrow> rstr \<Rightarrow> rstr list \<Rightarrow> rstr list option" where
  "blocked_servers rows text servers =
     (case analyzed_content_new ascii_unicode (plain_message text) of
        None \<Rightarrow> None
      | Some analyzed \<Rightarrow>
        (case evaluate_call_for_destinations sample_evaluator (published_store rows) [] (plain_message text) analyzed
            (map (\<lambda>s. \<lparr>dt_target_index = 0, dt_server_id = s\<rparr>) servers) (new_cooldown, 0) of
           Some (Inr plan, _) \<Rightarrow> Some (map dd_server_id (filter decision_is_blocked (cp_destinations plan)))
         | _ \<Rightarrow> None))"

lemma mixed_alone: "blocked_servers mixed_rows (lit ''s-p-a-m'') [lit ''a''] = Some [lit ''a'']"
  by code_simp

lemma mixed_after: "blocked_servers mixed_rows (lit ''s-p-a-m'') [lit ''b'', lit ''a''] = Some []"
  by code_simp


end
