(* ===== verification/Invalidation.thy ===== *)
theory Invalidation
  imports Service
begin

text \<open>
  The consumer of invalidation events (\<open>src/content_policy/invalidation.rs\<close>): checking and parsing
  an event, the identity of the consumer group, the reload with its retries, and the loop that
  commits an offset once the announced version is visible. The broker, the protobuf decoder and
  the clock are outside: a delivery carries its payload and headers, what the database answers to
  each attempt, and whether the task is cancelled while it waits.
\<close>

section \<open>Events\<close>

record content_policy_invalidated =
  iv_authority :: rstr
  iv_scope_id :: rstr
  iv_version :: u64

record parsed_invalidation =
  pi_scope :: policy_scope
  pi_version :: u64

definition parse_invalidation_event :: "content_policy_invalidated \<Rightarrow> rstr + parsed_invalidation" where
  "parse_invalidation_event e =
     res_bind (if iv_authority e = lit ''GLOBAL'' then Inr AuthGlobal
        else if iv_authority e = lit ''HUB'' then Inr AuthHub
        else if iv_authority e = lit ''SERVER'' then Inr AuthServer
        else Inl (lit ''unknown content policy authority '' @ iv_authority e)) (\<lambda>authority.
     if \<not> 0 < iv_version e then Inl (lit ''content policy invalidation version is zero'')
     else let scope = PolicyScope authority (iv_scope_id e)
       in res_bind (scope_validate scope) (\<lambda>_. Inr \<lparr>pi_scope = scope, pi_version = iv_version e\<rparr>))"

definition parse_content_policy_invalidation ::
  "(byte list \<Rightarrow> rstr + content_policy_invalidated) \<Rightarrow> byte list \<Rightarrow> rstr + parsed_invalidation" where
  "parse_content_policy_invalidation decode payload =
     res_bind (map_err (\<lambda>_. lit ''content policy invalidation is not valid protobuf'') (decode payload)) parse_invalidation_event"

section \<open>Headers\<close>

record message_header =
  mh_key :: rstr
  mh_value :: "byte list option"

definition CONTENT_POLICY_INVALIDATED_EVENT_TYPE :: rstr where
  "CONTENT_POLICY_INVALIDATED_EVENT_TYPE = lit ''interchat.trust-safety.content-policy.invalidated.v1''"

text \<open>A matching header without a value does not end the search.\<close>

definition header_value :: "message_header list \<Rightarrow> rstr \<Rightarrow> byte list option" where
  "header_value headers name = find_map (\<lambda>h. if mh_key h = name then mh_value h else None) headers"

datatype header_error =
  HeadersMissing | SpecversionInvalid | TypeInvalid | ContentTypeInvalid | RequiredHeaderMissing

definition validate_invalidation_headers :: "message_header list option \<Rightarrow> header_error + unit" where
  "validate_invalidation_headers headers =
     (case headers of
        None \<Rightarrow> Inl HeadersMissing
      | Some hs \<Rightarrow>
        if header_value hs (lit ''ce_specversion'') \<noteq> Some (str_bytes (lit ''1.0'')) then Inl SpecversionInvalid
        else if header_value hs (lit ''ce_type'') \<noteq> Some (str_bytes CONTENT_POLICY_INVALIDATED_EVENT_TYPE) then Inl TypeInvalid
        else if header_value hs (lit ''ce_datacontenttype'') \<noteq> Some (str_bytes (lit ''application/protobuf'')) then Inl ContentTypeInvalid
        else if list_ex (\<lambda>name. case header_value hs name of None \<Rightarrow> True | Some v \<Rightarrow> v = [])
                  [lit ''ce_id'', lit ''ce_source'', lit ''ce_time''] then Inl RequiredHeaderMissing
        else Inr ())"

section \<open>The consumer group\<close>

definition group_character :: "rchar \<Rightarrow> bool" where
  "group_character c \<longleftrightarrow> is_ascii_alphanumeric c \<or> c \<in> {ch (CHR ''-''), ch (CHR ''_''), ch (CHR ''.'')}"

definition group_identity_component :: "rstr \<Rightarrow> rstr" where
  "group_identity_component value =
     (let component = map (\<lambda>c. if group_character c then c else ch (CHR ''-'')) value
      in if component = [] then lit ''unknown'' else component)"

definition content_policy_consumer_group :: "rstr \<Rightarrow> rstr \<Rightarrow> nat \<Rightarrow> rstr" where
  "content_policy_consumer_group base_group hostname process_id =
     base_group @ lit ''-content-policy-'' @ group_identity_component hostname @ lit ''-'' @ show_nat process_id"

section \<open>Reloading with retries\<close>

text \<open>The delays before a further attempt, in milliseconds, and the final attempt without one.\<close>

definition RELOAD_RETRY_DELAYS :: "nat list" where
  "RELOAD_RETRY_DELAYS = [100, 250, 500]"

definition retry_schedule :: "nat option list" where
  "retry_schedule = map Some RELOAD_RETRY_DELAYS @ [None]"

datatype retry_error = ReloadFailed reload_error | CancelledDuringRetry

text \<open>
  \<open>None\<close> is a panic, of the reload itself or of the loop's \<open>unreachable!\<close>. The attempts see the
  database as \<open>sources\<close> says.
\<close>

fun retry_loop ::
  "runtime_context \<Rightarrow> (nat \<Rightarrow> policy_source) \<Rightarrow> (nat \<Rightarrow> bool) \<Rightarrow> parsed_invalidation \<Rightarrow> nat \<Rightarrow> nat option list
     \<Rightarrow> policy_snapshot_store \<Rightarrow> ((retry_error + unit) \<times> policy_snapshot_store) option" where
  "retry_loop c sources cancelled ev attempt [] st = None"
| "retry_loop c sources cancelled ev attempt (delay # delays) st =
     (case reload_scope c (sources attempt) (pi_scope ev) (pi_version ev) st of
        None \<Rightarrow> None
      | Some (Inr _, st') \<Rightarrow> Some (Inr (), st')
      | Some (Inl e, st') \<Rightarrow>
          (case (e, delay) of
             (VersionNotVisible _ _ _, Some _) \<Rightarrow>
               if cancelled attempt then Some (Inl CancelledDuringRetry, st')
               else retry_loop c sources cancelled ev (Suc attempt) delays st'
           | _ \<Rightarrow> Some (Inl (ReloadFailed e), st')))"

definition reload_with_retry ::
  "runtime_context \<Rightarrow> (nat \<Rightarrow> policy_source) \<Rightarrow> (nat \<Rightarrow> bool) \<Rightarrow> parsed_invalidation \<Rightarrow> policy_snapshot_store
     \<Rightarrow> ((retry_error + unit) \<times> policy_snapshot_store) option" where
  "reload_with_retry c sources cancelled ev st = retry_loop c sources cancelled ev 0 retry_schedule st"

section \<open>The loop\<close>

text \<open>One message, the world while it is handled, and whether committing its offset succeeds.\<close>

record delivery =
  dl_payload :: "byte list option"
  dl_headers :: "message_header list option"
  dl_sources :: "nat \<Rightarrow> policy_source"
  dl_cancelled :: "nat \<Rightarrow> bool"
  dl_commits :: bool

datatype consumer_event = Cancelled | ReceiveFailed | Received delivery

datatype consumer_error = RetryFailed retry_error | CommitFailed

text \<open>What is done with a message before its offset is committed: skipped as poison, or applied.\<close>

definition handle_message ::
  "runtime_context \<Rightarrow> (byte list \<Rightarrow> rstr + content_policy_invalidated) \<Rightarrow> delivery \<Rightarrow> policy_snapshot_store
     \<Rightarrow> ((retry_error + parsed_invalidation option) \<times> policy_snapshot_store) option" where
  "handle_message c decode d st =
     (case dl_payload d of
        None \<Rightarrow> Some (Inr None, st)
      | Some payload \<Rightarrow>
        (case validate_invalidation_headers (dl_headers d) of
           Inl _ \<Rightarrow> Some (Inr None, st)
         | Inr _ \<Rightarrow>
           (case parse_content_policy_invalidation decode payload of
              Inl _ \<Rightarrow> Some (Inr None, st)
            | Inr ev \<Rightarrow> map_option (\<lambda>(r, st'). (res_bind r (\<lambda>_. Inr (Some ev)), st'))
                (reload_with_retry c (dl_sources d) (dl_cancelled d) ev st))))"

text \<open>The run over the events it receives; the log lists the invalidations whose offset was committed.\<close>

fun consumer_run ::
  "runtime_context \<Rightarrow> (byte list \<Rightarrow> rstr + content_policy_invalidated) \<Rightarrow> consumer_event list \<Rightarrow> parsed_invalidation list
     \<Rightarrow> policy_snapshot_store \<Rightarrow> ((consumer_error + unit) \<times> parsed_invalidation list \<times> policy_snapshot_store) option" where
  "consumer_run c decode [] log st = Some (Inr (), log, st)"
| "consumer_run c decode (Cancelled # es) log st = Some (Inr (), log, st)"
| "consumer_run c decode (ReceiveFailed # es) log st = consumer_run c decode es log st"
| "consumer_run c decode (Received d # es) log st =
     (case handle_message c decode d st of
        None \<Rightarrow> None
      | Some (Inl e, st') \<Rightarrow> Some (Inl (RetryFailed e), log, st')
      | Some (Inr ev, st') \<Rightarrow>
          if dl_commits d then consumer_run c decode es (log @ (case ev of None \<Rightarrow> [] | Some i \<Rightarrow> [i])) st'
          else Some (Inl CommitFailed, log, st'))"

section \<open>Events and headers\<close>

text \<open>The event the repository writes when it replaces a policy (\<open>repository.rs\<close>).\<close>

fun authority_name :: "authority \<Rightarrow> rstr" where
  "authority_name AuthGlobal = lit ''GLOBAL''"
| "authority_name AuthHub = lit ''HUB''"
| "authority_name AuthServer = lit ''SERVER''"

definition invalidation_event :: "content_policy \<Rightarrow> u64 \<Rightarrow> content_policy_invalidated" where
  "invalidation_event p version =
     \<lparr>iv_authority = authority_name (sc_authority (cp_scope p)), iv_scope_id = sc_id (cp_scope p), iv_version = version\<rparr>"

lemma authority_names: "authority_name a = authority_name b \<longleftrightarrow> a = b"
proof -
  have "lit ''GLOBAL'' \<noteq> lit ''HUB''" "lit ''GLOBAL'' \<noteq> lit ''SERVER''" "lit ''HUB'' \<noteq> lit ''SERVER''" by code_simp+
  then show ?thesis by (cases a; cases b) simp_all
qed

lemma authority_name_parses:
  "(if authority_name a = lit ''GLOBAL'' then Inr AuthGlobal
    else if authority_name a = lit ''HUB'' then Inr AuthHub
    else if authority_name a = lit ''SERVER'' then Inr AuthServer else Inl e) = Inr a"
  using authority_names [of a AuthGlobal] authority_names [of a AuthHub] authority_names [of a AuthServer]
  by (cases a) simp_all

text \<open>
  C34 [invalidation_roundtrip]: The event written for a replaced policy announces exactly that policy:
  it parses back to the scope of the policy and the new version when the scope is valid and the
  version positive, and is refused otherwise; an event that parses names one of the three
  authorities.
\<close>

theorem invalidation_roundtrip:
  "(parse_invalidation_event (invalidation_event p v) = Inr \<lparr>pi_scope = cp_scope p, pi_version = v\<rparr>)
     = (0 < v \<and> scope_validate (cp_scope p) = Inr ())
   \<and> is_ok (parse_invalidation_event e)
     = (iv_authority e \<in> range authority_name \<and> 0 < iv_version e
        \<and> list_ex (\<lambda>a. authority_name a = iv_authority e \<and> scope_validate (PolicyScope a (iv_scope_id e)) = Inr ())
            [AuthGlobal, AuthHub, AuthServer])"
proof
  have s: "PolicyScope (sc_authority (cp_scope p)) (sc_id (cp_scope p)) = cp_scope p" by simp
  show "(parse_invalidation_event (invalidation_event p v) = Inr \<lparr>pi_scope = cp_scope p, pi_version = v\<rparr>)
     = (0 < v \<and> scope_validate (cp_scope p) = Inr ())"
    unfolding parse_invalidation_event_def invalidation_event_def content_policy_invalidated.simps
      authority_name_parses res_bind.simps s Let_def
    by (cases "scope_validate (cp_scope p)") auto
  have "is_ok (parse_invalidation_event e)" if "iv_authority e = authority_name a" "0 < iv_version e"
      "scope_validate (PolicyScope a (iv_scope_id e)) = Inr ()" for a
    using that(2,3) unfolding parse_invalidation_event_def that(1) authority_name_parses by (simp add: is_ok_def)
  moreover have "\<exists>a. iv_authority e = authority_name a \<and> 0 < iv_version e
      \<and> scope_validate (PolicyScope a (iv_scope_id e)) = Inr ()" if ok: "is_ok (parse_invalidation_event e)"
  proof -
    consider (known) a where "iv_authority e = authority_name a"
      | (unknown) "iv_authority e \<noteq> authority_name AuthGlobal" "iv_authority e \<noteq> authority_name AuthHub"
          "iv_authority e \<noteq> authority_name AuthServer" by blast
    then show ?thesis
    proof cases
      case known
      with ok show ?thesis
        unfolding parse_invalidation_event_def known authority_name_parses
        by (cases "0 < iv_version e"; cases "scope_validate (PolicyScope a (iv_scope_id e))") (auto simp: is_ok_def)
    next
      case unknown
      with ok show ?thesis by (simp add: parse_invalidation_event_def is_ok_def)
    qed
  qed
  moreover have "(iv_authority e \<in> range authority_name \<and> 0 < iv_version e
        \<and> list_ex (\<lambda>a. authority_name a = iv_authority e \<and> scope_validate (PolicyScope a (iv_scope_id e)) = Inr ())
            [AuthGlobal, AuthHub, AuthServer])
      \<longleftrightarrow> (\<exists>a. iv_authority e = authority_name a \<and> 0 < iv_version e \<and> scope_validate (PolicyScope a (iv_scope_id e)) = Inr ())"
  proof -
    have e: "list_ex P [AuthGlobal, AuthHub, AuthServer] \<longleftrightarrow> (\<exists>a. P a)" for P
      by (auto, metis authority.exhaust)
    show ?thesis unfolding e by (auto simp: authority_names)
  qed
  ultimately show "is_ok (parse_invalidation_event e)
     = (iv_authority e \<in> range authority_name \<and> 0 < iv_version e
        \<and> list_ex (\<lambda>a. authority_name a = iv_authority e \<and> scope_validate (PolicyScope a (iv_scope_id e)) = Inr ())
            [AuthGlobal, AuthHub, AuthServer])" by blast
qed

text \<open>
  The replica part of a consumer group is never empty and consists only of
  letters, digits, hyphens, underscores and dots, whatever the host name; a host name of this form
  is kept unchanged.
\<close>

theorem consumer_group_shape:
  "content_policy_consumer_group b h pid
     = b @ lit ''-content-policy-'' @ group_identity_component h @ lit ''-'' @ show_nat pid
   \<and> group_identity_component h \<noteq> []
   \<and> list_all group_character (group_identity_component h)
   \<and> (group_identity_component h = h) = (h \<noteq> [] \<and> list_all group_character h)"
proof -
  have u: "list_all group_character (lit ''unknown'')" "lit ''unknown'' \<noteq> []" by code_simp+
  define f where "f = (\<lambda>c. if group_character c then c else ch (CHR ''-''))"
  have "group_character (f c)" for c by (simp add: f_def group_character_def)
  then have a: "list_all group_character (map f h)" by (simp add: list_all_iff)
  have "f c = c \<longleftrightarrow> group_character c" for c
    using \<open>group_character (f c)\<close> by (metis f_def)
  then have "map f h = h \<longleftrightarrow> list_all group_character h" by (induction h) auto
  with a u show ?thesis
    by (auto simp: content_policy_consumer_group_def group_identity_component_def f_def [symmetric] Let_def)
qed

section \<open>Retries\<close>

definition not_visible :: "runtime_context \<Rightarrow> policy_source \<Rightarrow> parsed_invalidation \<Rightarrow> bool" where
  "not_visible c src ev \<longleftrightarrow> (case so_load_scope src (pi_scope ev) of
      Inr (Some d) \<Rightarrow> cp_version d < pi_version ev | _ \<Rightarrow> False)"

lemma reload_not_visible:
  assumes "not_visible c src ev"
  shows "\<exists>v. reload_scope c src (pi_scope ev) (pi_version ev) st = Some (Inl (VersionNotVisible (pi_scope ev) (pi_version ev) v), st)"
  using assms by (auto simp: not_visible_def reload_scope_def split: sum.splits option.splits)

lemma reload_visible:
  assumes "\<not> not_visible c src ev" "reload_scope c src (pi_scope ev) (pi_version ev) st = Some (Inl e, st')"
  shows "\<not> (\<exists>a b v. e = VersionNotVisible a b v)"
  using assms
  by (auto simp: not_visible_def reload_scope_def compile_one_def map_option_case res_bind_Inl_iff
      split: sum.splits option.splits if_splits prod.splits elim!: map_err.elims)

text \<open>What the loop makes of the first attempt that finds the version or fails otherwise.\<close>

definition attempt_result ::
  "runtime_context \<Rightarrow> policy_source \<Rightarrow> parsed_invalidation \<Rightarrow> policy_snapshot_store
     \<Rightarrow> ((retry_error + unit) \<times> policy_snapshot_store) option" where
  "attempt_result c src ev st =
     map_option (\<lambda>(r, st'). (case r of Inl e \<Rightarrow> Inl (ReloadFailed e) | Inr _ \<Rightarrow> Inr (), st'))
       (reload_scope c src (pi_scope ev) (pi_version ev) st)"

lemma retry_loop_visible:
  assumes "\<not> not_visible c (sources n) ev"
  shows "retry_loop c sources cancelled ev n (delay # delays) st = attempt_result c (sources n) ev st"
proof (cases "reload_scope c (sources n) (pi_scope ev) (pi_version ev) st")
  case (Some x)
  obtain r st' where x: "x = (r, st')" by fastforce
  show ?thesis
  proof (cases r)
    case (Inl e)
    from reload_visible [OF assms Some [unfolded x Inl]] show ?thesis
      using Some x Inl by (cases e) (auto simp: attempt_result_def)
  qed (use Some x in \<open>simp add: attempt_result_def\<close>)
qed (simp add: attempt_result_def)

lemma retry_loop_not_visible:
  assumes "not_visible c (sources n) ev"
  shows "retry_loop c sources cancelled ev n (Some delay # delays) st =
     (if cancelled n then Some (Inl CancelledDuringRetry, st) else retry_loop c sources cancelled ev (Suc n) delays st)"
    and "\<exists>v. retry_loop c sources cancelled ev n (None # delays) st
       = Some (Inl (ReloadFailed (VersionNotVisible (pi_scope ev) (pi_version ev) v)), st)"
  using reload_not_visible [OF assms, of st] by auto

lemma schedule_eq: "retry_schedule = [Some 100, Some 250, Some 500, None]"
  by (simp add: retry_schedule_def RELOAD_RETRY_DELAYS_def)

text \<open>
  An attempt settles the outcome unless the database is behind and another attempt follows: it is
  visible, or the task is cancelled in the wait after it.
\<close>

definition settles ::
  "runtime_context \<Rightarrow> (nat \<Rightarrow> policy_source) \<Rightarrow> (nat \<Rightarrow> bool) \<Rightarrow> parsed_invalidation \<Rightarrow> nat \<Rightarrow> bool" where
  "settles c sources cancelled ev n = (if not_visible c (sources n) ev then n < 3 \<and> cancelled n else True)"

lemma settles_iff: "settles c sources cancelled ev = (\<lambda>n. \<not> not_visible c (sources n) ev \<or> n < 3 \<and> cancelled n)"
  by (auto simp: settles_def fun_eq_iff)

text \<open>
  A reload is tried at most four times. Its outcome is that of the first attempt
  that does not find the database behind the announced version; if the task is cancelled while it
  waits for such an attempt, or the database is still behind at the fourth, the registry is left as
  it was and the error says so. The branch the code calls unreachable is never reached.
\<close>

theorem retry_outcome:
  "case find (settles c sources cancelled ev) [0, 1, 2, 3] of
     Some n \<Rightarrow> reload_with_retry c sources cancelled ev st =
       (if not_visible c (sources n) ev then Some (Inl CancelledDuringRetry, st) else attempt_result c (sources n) ev st)
   | None \<Rightarrow> (\<exists>v. reload_with_retry c sources cancelled ev st
       = Some (Inl (ReloadFailed (VersionNotVisible (pi_scope ev) (pi_version ev) v)), st))"
proof -
  note vis = retry_loop_visible [of c sources _ ev cancelled]
  note inv = retry_loop_not_visible [of c sources _ ev cancelled]
  show ?thesis
    unfolding reload_with_retry_def schedule_eq settles_iff
    using vis [of 0] vis [of 1] vis [of 2] vis [of 3] inv [of 0] inv [of 1] inv [of 2] inv(2) [of 3]
    by (auto simp: eval_nat_numeral simp del: retry_loop.simps)
qed

section \<open>Committed offsets\<close>

lemma slot_step_mono: "sl_last_version slot \<le> sl_last_version (slot_step e slot)"
  by (cases e) (auto simp: slot_replace_def slot_remove_def split: option.splits)

lemma slot_run_mono: "sl_last_version slot \<le> sl_last_version (fold slot_step es slot)"
proof (induction es arbitrary: slot)
  case (Cons e es)
  have "sl_last_version slot \<le> sl_last_version (slot_step e slot)" by (rule slot_step_mono)
  also have "\<dots> \<le> sl_last_version (fold slot_step (e # es) slot)" using Cons.IH by simp
  finally show ?case .
qed simp

lemma store_run_mono: "sl_last_version (slot_view st scope) \<le> sl_last_version (slot_view (fold store_step es st) scope)"
  unfolding store_run_view by (rule slot_run_mono)

lemma reload_mono:
  assumes "reload_scope c src sc v st = Some (r, st')"
  shows "sl_last_version (slot_view st scope) \<le> sl_last_version (slot_view st' scope)"
  using reload_scope_run [OF assms] store_run_mono by auto

text \<open>A database that answers a query for a scope with a row of that scope.\<close>

definition answers_scope :: "policy_source \<Rightarrow> bool" where
  "answers_scope src \<longleftrightarrow> (\<forall>scope. case so_load_scope src scope of
      Inr (Some d) \<Rightarrow> slot_key (cp_scope d) = slot_key scope | _ \<Rightarrow> True)"

lemma reload_reaches:
  assumes "reload_scope c src scope v st = Some (Inr x, st')" "answers_scope src"
  shows "v \<le> sl_last_version (slot_view st' scope)"
proof -
  have "case so_load_scope src scope of Inr (Some d) \<Rightarrow> slot_key (cp_scope d) = slot_key scope | _ \<Rightarrow> True"
    using assms(2) by (simp add: answers_scope_def)
  from reload_scope_effects [OF assms(1) this] show ?thesis by simp
qed

lemma retry_loop_reaches:
  "retry_loop c sources cancelled ev n delays st = Some (r, st') \<Longrightarrow> (\<And>a. answers_scope (sources a)) \<Longrightarrow>
     (r = Inr () \<longrightarrow> pi_version ev \<le> sl_last_version (slot_view st' (pi_scope ev)))
     \<and> (\<forall>scope. sl_last_version (slot_view st scope) \<le> sl_last_version (slot_view st' scope))"
proof (induction c sources cancelled ev n delays st rule: retry_loop.induct)
  case (2 c sources cancelled ev n delay delays st)
  from 2(2) obtain x where "reload_scope c (sources n) (pi_scope ev) (pi_version ev) st = Some x"
    by (cases "reload_scope c (sources n) (pi_scope ev) (pi_version ev) st") auto
  then obtain q st1 where q: "reload_scope c (sources n) (pi_scope ev) (pi_version ev) st = Some (q, st1)" by (cases x) auto
  note mono = reload_mono [OF q]
  show ?case
  proof (cases q)
    case (Inr u)
    with 2(2) q have "r = Inr ()" "st' = st1" by auto
    with reload_reaches [OF q [unfolded Inr] 2(3)] mono show ?thesis by blast
  next
    case (Inl e)
    show ?thesis
    proof (cases "(\<exists>a b v d. e = VersionNotVisible a b v \<and> delay = Some d) \<and> \<not> cancelled n")
      case True
      then obtain a b v d where ed: "e = VersionNotVisible a b v" "delay = Some d" "\<not> cancelled n" by blast
      with 2(2) q Inl have "retry_loop c sources cancelled ev (Suc n) delays st1 = Some (r, st')" by simp
      from 2(1) [OF q refl Inl refl ed(1) ed(2) ed(3) this 2(3)] mono show ?thesis by (meson order_trans)
    next
      case False
      with 2(2) q Inl have "st' = st1 \<and> r \<noteq> Inr ()"
        by (cases e; cases delay) (auto split: if_splits)
      with mono show ?thesis by blast
    qed
  qed
qed simp

fun event_answers :: "consumer_event \<Rightarrow> bool" where
  "event_answers (Received d) = (\<forall>a. answers_scope (dl_sources d a))"
| "event_answers _ = True"

definition visible :: "policy_snapshot_store \<Rightarrow> parsed_invalidation \<Rightarrow> bool" where
  "visible st ev \<longleftrightarrow> pi_version ev \<le> sl_last_version (slot_view st (pi_scope ev))"

lemma handle_message_visible:
  assumes "handle_message c decode d st = Some (r, st')" "event_answers (Received d)"
  shows "(\<forall>ev. r = Inr (Some ev) \<longrightarrow> visible st' ev)
     \<and> (\<forall>scope. sl_last_version (slot_view st scope) \<le> sl_last_version (slot_view st' scope))"
proof (cases "\<exists>payload ev. dl_payload d = Some payload \<and> is_ok (validate_invalidation_headers (dl_headers d))
    \<and> parse_content_policy_invalidation decode payload = Inr ev")
  case True
  then obtain payload ev where p: "dl_payload d = Some payload" "is_ok (validate_invalidation_headers (dl_headers d))"
    "parse_content_policy_invalidation decode payload = Inr ev" by blast
  with assms(1) obtain q where q: "reload_with_retry c (dl_sources d) (dl_cancelled d) ev st = Some (q, st')"
    and r: "r = res_bind q (\<lambda>_. Inr (Some ev))"
    by (auto simp: handle_message_def is_ok_def split: sum.splits)
  from retry_loop_reaches [OF q [unfolded reload_with_retry_def]] assms(2)
  have "(q = Inr () \<longrightarrow> pi_version ev \<le> sl_last_version (slot_view st' (pi_scope ev)))
     \<and> (\<forall>scope. sl_last_version (slot_view st scope) \<le> sl_last_version (slot_view st' scope))" by simp
  with r show ?thesis by (cases q) (auto simp: visible_def)
next
  case False
  with assms(1) have "r = Inr None" "st' = st"
    by (auto simp: handle_message_def is_ok_def split: option.splits sum.splits)
  then show ?thesis by simp
qed

lemma consumer_run_visible:
  "consumer_run c decode es log st = Some (r, log', st') \<Longrightarrow> list_all event_answers es \<Longrightarrow> list_all (visible st) log
     \<Longrightarrow> list_all (visible st') log'"
proof (induction es arbitrary: log st)
  case (Cons e es)
  show ?case
  proof (cases e)
    case (Received d)
    from Cons.prems(1) obtain x where "handle_message c decode d st = Some x"
      by (cases "handle_message c decode d st") (auto simp: Received)
    then obtain q st1 where h: "handle_message c decode d st = Some (q, st1)" by (cases x) auto
    have a: "event_answers (Received d)" using Cons.prems(2) by (simp add: Received)
    note v = handle_message_visible [OF h a]
    have old: "list_all (visible st1) log"
      using Cons.prems(3) v by (auto simp: list_all_iff visible_def) (meson order_trans)
    show ?thesis
    proof (cases q)
      case (Inl er)
      with Cons.prems(1) h old show ?thesis by (simp add: Received)
    next
      case (Inr o_ev)
      with v have "list_all (visible st1) (log @ (case o_ev of None \<Rightarrow> [] | Some i \<Rightarrow> [i]))"
        using old by (auto split: option.splits)
      with Cons.IH [of "log @ (case o_ev of None \<Rightarrow> [] | Some i \<Rightarrow> [i])" st1] Cons.prems(1,2) h Inr old show ?thesis
        by (auto simp: Received split: if_splits)
    qed
  qed (use Cons in auto)
qed simp

text \<open>
  C27 [committed_versions_visible]: Whatever messages arrive, with whatever headers, retries,
  cancellations and failures, the offset of an invalidation is only committed once its version is
  visible, and it stays visible: when the run ends, the slot of every committed scope has reached
  the announced version.
\<close>

theorem committed_versions_visible:
  assumes "consumer_run c decode es [] st = Some (r, log, st')" "list_all event_answers es"
  shows "list_all (visible st') log"
  using consumer_run_visible [OF assms] by simp

text \<open>An invalidation of a Hub whose row becomes visible at the second attempt.\<close>

definition sample_delivery :: delivery where
  "sample_delivery =
     \<lparr>dl_payload = Some [1],
      dl_headers = Some (map (\<lambda>(k, v). \<lparr>mh_key = k, mh_value = Some (str_bytes v)\<rparr>)
        [(lit ''ce_specversion'', lit ''1.0''), (lit ''ce_type'', CONTENT_POLICY_INVALIDATED_EVENT_TYPE),
         (lit ''ce_datacontenttype'', lit ''application/protobuf''), (lit ''ce_id'', lit ''1''),
         (lit ''ce_source'', lit ''/p''), (lit ''ce_time'', lit ''t'')]),
      dl_sources = (\<lambda>a. source_of (if a = 0 then [new_row\<lparr>cp_version := 0\<rparr>] else [new_row])),
      dl_cancelled = (\<lambda>_. False), dl_commits = True\<rparr>"

definition sample_decode :: "byte list \<Rightarrow> rstr + content_policy_invalidated" where
  "sample_decode b = Inr \<lparr>iv_authority = lit ''HUB'', iv_scope_id = lit ''h'', iv_version = 1\<rparr>"

lemma sample_run: "case consumer_run sample_context sample_decode [Received sample_delivery] [] empty_store of
    Some (Inr _, [ev], _) \<Rightarrow> ev = \<lparr>pi_scope = hub (lit ''h''), pi_version = 1\<rparr> | _ \<Rightarrow> False"
  by code_simp

lemma source_of_answers: "definitions_ok ds \<Longrightarrow> answers_scope (source_of ds)"
  by (auto simp: answers_scope_def source_of_def row_of_Some split: option.splits)

theorem committed_versions_visible_witness:
  "\<exists>r log st. consumer_run sample_context sample_decode [Received sample_delivery] [] empty_store = Some (r, log, st)
     \<and> length log = 1 \<and> list_all (visible st) log"
proof -
  from sample_run obtain r ev st where
    run: "consumer_run sample_context sample_decode [Received sample_delivery] [] empty_store = Some (r, [ev], st)"
    by (auto split: option.splits prod.splits list.splits sum.splits)
  have "answers_scope (source_of [new_row\<lparr>cp_version := v\<rparr>])" for v
    by (auto simp: answers_scope_def source_of_def row_of_def word_policy_def)
  from this [of 0] this [of 1] have "event_answers (Received sample_delivery)"
    by (auto simp: sample_delivery_def answers_scope_def source_of_def row_of_def word_policy_def)
  then have a: "list_all event_answers [Received sample_delivery]" by simp
  from committed_versions_visible [OF run a] run show ?thesis by (intro exI [of _ r] exI [of _ "[ev]"] exI [of _ st]) simp
qed

end
