(* ===== verification/PolicyModel.thy ===== *)
theory PolicyModel
  imports ContentEngine
begin

text \<open>
  The data of the action policies (\<open>src/policy/model.rs\<close>): scopes, actions, manifests, features,
  effects and decisions, and the JSON values they carry. Records carry the fields of the code's
  structs in their order; enums keep the constructors, with a prefix where two enums share a name.
\<close>

section \<open>JSON values and floating point numbers\<close>

text \<open>
  \<open>serde_json::Value\<close> is a public enum; its numbers are opaque, so a number is a token and its
  equality and \<open>as_f64\<close> are parameters (\<open>json_numbers\<close>). An \<open>f64\<close> is its IEEE 754 bit pattern.
  Two floats that are not NaN compare as their magnitudes with the sign bit applied, where both
  zeros are the same magnitude.
\<close>

type_synonym f64 = "64 word"
type_synonym json_number = nat

datatype json =
  JNull
| JBool bool
| JNumber json_number
| JString rstr
| JArray "json list"
| JObject "(rstr \<times> json) list"

record json_numbers =
  number_eq :: "json_number \<Rightarrow> json_number \<Rightarrow> bool"
  number_as_f64 :: "json_number \<Rightarrow> f64 option"

fun json_eq :: "json_numbers \<Rightarrow> json \<Rightarrow> json \<Rightarrow> bool"
  and json_list_eq :: "json_numbers \<Rightarrow> json list \<Rightarrow> json list \<Rightarrow> bool"
  and json_fields_eq :: "json_numbers \<Rightarrow> (rstr \<times> json) list \<Rightarrow> (rstr \<times> json) list \<Rightarrow> bool" where
  "json_eq c JNull JNull = True"
| "json_eq c (JBool a) (JBool b) = (a = b)"
| "json_eq c (JNumber a) (JNumber b) = number_eq c a b"
| "json_eq c (JString a) (JString b) = (a = b)"
| "json_eq c (JArray a) (JArray b) = json_list_eq c a b"
| "json_eq c (JObject a) (JObject b) = json_fields_eq c a b"
| "json_eq c _ _ = False"
| "json_list_eq c [] [] = True"
| "json_list_eq c (a # as) (b # bs) = (json_eq c a b \<and> json_list_eq c as bs)"
| "json_list_eq c _ _ = False"
| "json_fields_eq c [] [] = True"
| "json_fields_eq c ((k, a) # as) ((l, b) # bs) = (k = l \<and> json_eq c a b \<and> json_fields_eq c as bs)"
| "json_fields_eq c _ _ = False"

fun json_as_str :: "json \<Rightarrow> rstr option" where
  "json_as_str (JString s) = Some s"
| "json_as_str _ = None"

fun json_as_array :: "json \<Rightarrow> json list option" where
  "json_as_array (JArray xs) = Some xs"
| "json_as_array _ = None"

fun json_as_object :: "json \<Rightarrow> (rstr \<times> json) list option" where
  "json_as_object (JObject m) = Some m"
| "json_as_object _ = None"

text \<open>\<open>Value::get\<close> with a string index: the field of an object, nothing of any other value.\<close>

fun json_get :: "rstr \<Rightarrow> json \<Rightarrow> json option" where
  "json_get k (JObject m) = map_of m k"
| "json_get k _ = None"

fun json_as_f64 :: "json_numbers \<Rightarrow> json \<Rightarrow> f64 option" where
  "json_as_f64 c (JNumber n) = number_as_f64 c n"
| "json_as_f64 c _ = None"

definition f64_negative :: "f64 \<Rightarrow> bool" where
  "f64_negative a \<longleftrightarrow> 2 ^ 63 \<le> unat a"

definition f64_magnitude :: "f64 \<Rightarrow> nat" where
  "f64_magnitude a = unat a mod 2 ^ 63"

definition f64_infinite_magnitude :: nat where
  "f64_infinite_magnitude = 2047 * 2 ^ 52"

definition f64_is_nan :: "f64 \<Rightarrow> bool" where
  "f64_is_nan a \<longleftrightarrow> f64_infinite_magnitude < f64_magnitude a"

definition f64_is_finite :: "f64 \<Rightarrow> bool" where
  "f64_is_finite a \<longleftrightarrow> f64_magnitude a < f64_infinite_magnitude"

definition f64_key :: "f64 \<Rightarrow> int" where
  "f64_key a = (if f64_negative a then - int (f64_magnitude a) else int (f64_magnitude a))"

definition f64_lt :: "f64 \<Rightarrow> f64 \<Rightarrow> bool" where
  "f64_lt a b \<longleftrightarrow> \<not> f64_is_nan a \<and> \<not> f64_is_nan b \<and> f64_key a < f64_key b"

definition f64_le :: "f64 \<Rightarrow> f64 \<Rightarrow> bool" where
  "f64_le a b \<longleftrightarrow> \<not> f64_is_nan a \<and> \<not> f64_is_nan b \<and> f64_key a \<le> f64_key b"

text \<open>\<open>0.0\<close>, \<open>50.0\<close> and \<open>100.0\<close>.\<close>

definition f64_0 :: f64 where
  "f64_0 = 0"

definition f64_50 :: f64 where
  "f64_50 = 0x4049000000000000"

definition f64_100 :: f64 where
  "f64_100 = 0x4059000000000000"

lemma json_list_eq_iff: "json_list_eq c xs ys \<longleftrightarrow> list_all2 (json_eq c) xs ys"
proof (induction xs arbitrary: ys)
  case Nil
  then show ?case by (cases ys) simp_all
next
  case (Cons x xs)
  then show ?case by (cases ys) simp_all
qed

text \<open>The comparisons are total on numbers, and a NaN compares with nothing.\<close>

lemma f64_trichotomy:
  "f64_is_nan a \<or> f64_is_nan b \<or> f64_lt a b \<or> f64_lt b a \<or> f64_le a b \<and> f64_le b a"
  by (auto simp: f64_lt_def f64_le_def)

lemma f64_nan: "f64_is_nan a \<Longrightarrow> \<not> f64_lt a b \<and> \<not> f64_lt b a \<and> \<not> f64_le a b \<and> \<not> f64_le b a"
  by (simp add: f64_lt_def f64_le_def)

lemma f64_constants:
  "f64_le f64_0 f64_50" "f64_le f64_50 f64_100" "f64_is_finite f64_50"
  by (simp_all add: f64_le_def f64_is_nan_def f64_is_finite_def f64_key_def f64_negative_def
      f64_magnitude_def f64_infinite_magnitude_def f64_0_def f64_50_def f64_100_def)

section \<open>Scopes, subjects and actions\<close>

datatype product = ProdHub | ProdLobby

datatype scope_type = StPlatform | StProduct | StHub | StLobby | StIncidentOverlay

record scope =
  sp_scope_type :: scope_type
  sp_id :: rstr
  sp_product :: "product option"

fun scope_precedence :: "scope_type \<Rightarrow> nat" where
  "scope_precedence StPlatform = 0"
| "scope_precedence StProduct = 1"
| "scope_precedence StHub = 2"
| "scope_precedence StLobby = 2"
| "scope_precedence StIncidentOverlay = 3"

record subject =
  sj_user_id :: "rstr option"
  sj_server_id :: "rstr option"
  sj_message_id :: "rstr option"
  sj_channel_id :: "rstr option"
  sj_report_id :: "rstr option"

datatype data_handling_class = Public | Internal | Sensitive | Restricted

fun data_handling_rank :: "data_handling_class \<Rightarrow> nat" where
  "data_handling_rank Public = 0"
| "data_handling_rank Internal = 1"
| "data_handling_rank Sensitive = 2"
| "data_handling_rank Restricted = 3"

lemma data_handling_rank_inject [simp]: "data_handling_rank a = data_handling_rank b \<longleftrightarrow> a = b"
  by (cases a; cases b) simp_all

instantiation data_handling_class :: linorder
begin

definition less_eq_data_handling_class :: "data_handling_class \<Rightarrow> data_handling_class \<Rightarrow> bool" where
  "a \<le> b \<longleftrightarrow> data_handling_rank a \<le> data_handling_rank b"

definition less_data_handling_class :: "data_handling_class \<Rightarrow> data_handling_class \<Rightarrow> bool" where
  "a < b \<longleftrightarrow> data_handling_rank a < data_handling_rank b"

instance
  by standard (auto simp: less_eq_data_handling_class_def less_data_handling_class_def)

end

text \<open>Instants of \<open>DateTime<Utc>\<close> are opaque numbers.\<close>

type_synonym date_time = int
type_synonym u32 = "32 word"
type_synonym i32 = "32 word"
type_synonym i64 = "64 word"

record policy_subject_action =
  ac_id :: uuid
  ac_action_type :: rstr
  ac_schema_version :: u32
  ac_scope :: scope
  ac_subject :: subject
  ac_occurred_at :: date_time
  ac_attributes :: json
  ac_data_handling :: data_handling_class
  ac_prism_payload :: "byte list option"

type_synonym paction = policy_subject_action

definition applies_to :: "scope \<Rightarrow> paction \<Rightarrow> bool" where
  "applies_to s a = (case sp_scope_type s of
       StPlatform \<Rightarrow> True
     | StProduct \<Rightarrow> sp_product s = sp_product (ac_scope a)
     | StIncidentOverlay \<Rightarrow> sp_id s = sp_id (ac_scope a) \<or> sp_id s = []
     | t \<Rightarrow> t = sp_scope_type (ac_scope a) \<and> sp_id s = sp_id (ac_scope a))"

section \<open>Policies and features\<close>

datatype error_behavior = EbHold | EbReview | EbContinue

record feature_requirement =
  fr_name :: rstr
  fr_error_behavior :: error_behavior
  fr_deadline_ms :: u64
  fr_maximum_data_handling :: data_handling_class
  fr_configuration :: json

text \<open>A \<open>BTreeSet\<close> is the ascending list of its elements.\<close>

record policy_manifest =
  mf_accepted_action_types :: "rstr list"
  mf_accepted_schema_versions :: "u32 list"
  mf_required_features :: "feature_requirement list"
  mf_capabilities :: "rstr list"
  mf_runtime_error_behavior :: error_behavior

definition manifest_accepts :: "policy_manifest \<Rightarrow> paction \<Rightarrow> bool" where
  "manifest_accepts m a \<longleftrightarrow>
     (mf_accepted_action_types m = [] \<or> ac_action_type a \<in> set (mf_accepted_action_types m))
     \<and> (mf_accepted_schema_versions m = []
        \<or> ac_schema_version a \<in> set (mf_accepted_schema_versions m))"

record feature_failure =
  ff_code :: rstr
  ff_safe_message :: rstr
  ff_retryable :: bool

record feature_value =
  fv_provider :: rstr
  fv_provider_version :: rstr
  fv_value :: "json option"
  fv_error :: "feature_failure option"
  fv_latency_micros :: u64
  fv_cache_hit :: bool
  fv_input_hash :: "rstr option"

type_synonym feature_snapshot = "(rstr, feature_value) btree_map"

datatype policy_language = PolicyIrV1 | LuauV1

datatype policy_state = PsDraft | PsValidated | PsShadow | PsActive | PsDisabled | PsRetired

datatype policy_bundle_state = BsActive | BsDisabled | BsRetired

record policy_bundle =
  pb_id :: uuid
  pb_name :: rstr
  pb_description :: rstr
  pb_scope :: scope
  pb_mandatory :: bool
  pb_priority :: i32
  pb_active_version_id :: "uuid option"
  pb_shadow_version_id :: "uuid option"
  pb_state :: policy_bundle_state
  pb_version :: i64
  pb_created_at :: date_time
  pb_updated_at :: date_time

record policy_version =
  pv_id :: uuid
  pv_bundle_id :: uuid
  pv_version :: i32
  pv_language :: policy_language
  pv_runtime_version :: rstr
  pv_source :: rstr
  pv_compiled_artifact :: "byte list"
  pv_source_sha256 :: rstr
  pv_artifact_sha256 :: rstr
  pv_manifest :: policy_manifest
  pv_state :: policy_state

section \<open>Effects and decisions\<close>

record text_span =
  ts_start_character :: u32
  ts_end_character :: u32

record active_restriction =
  ar_id :: rstr
  ar_restriction_type :: rstr
  ar_scope :: scope
  ar_public_reason :: "rstr option"
  ar_expires_at :: "date_time option"

record enforcement =
  en_subject :: subject
  en_restriction_type :: rstr
  en_reason :: rstr
  en_duration_ms :: "u64 option"

datatype effect =
  EffAllow (eff_id: rstr) "rstr list"
| EffBlock (eff_id: rstr) "rstr list" "rstr option" "active_restriction option"
| EffHold (eff_id: rstr) "rstr list" "u64 option"
| EffCensor (eff_id: rstr) "text_span list" rstr "rstr list"
| EffFlag (eff_id: rstr) rstr f64 json
| EffNotify (eff_id: rstr) rstr rstr json
| EffCreateInfraction (eff_id: rstr) subject rstr rstr "u64 option" "enforcement option"
| EffCreateRestriction (eff_id: rstr) subject rstr rstr "u64 option"
| EffRouteReview (eff_id: rstr) rstr i32 "rstr list"
| EffLabelEntity (eff_id: rstr) subject rstr json
| EffIncrementCounter (eff_id: rstr) subject scope rstr i64 u64 bool
| EffDelete (eff_id: rstr) rstr rstr "rstr list"
| EffKick (eff_id: rstr) rstr rstr "rstr list"

datatype decision = DecAllow | DecCensor | DecHold | DecBlock

fun decision_rank :: "decision \<Rightarrow> nat" where
  "decision_rank DecAllow = 0"
| "decision_rank DecCensor = 1"
| "decision_rank DecHold = 2"
| "decision_rank DecBlock = 3"

lemma decision_rank_inject [simp]: "decision_rank a = decision_rank b \<longleftrightarrow> a = b"
  by (cases a; cases b) simp_all

instantiation decision :: linorder
begin

definition less_eq_decision :: "decision \<Rightarrow> decision \<Rightarrow> bool" where
  "a \<le> b \<longleftrightarrow> decision_rank a \<le> decision_rank b"

definition less_decision :: "decision \<Rightarrow> decision \<Rightarrow> bool" where
  "a < b \<longleftrightarrow> decision_rank a < decision_rank b"

instance
  by standard (auto simp: less_eq_decision_def less_decision_def)

end

lemma decision_bounds [simp]: "DecAllow \<le> d" "d \<le> DecBlock"
  by (cases d; simp add: less_eq_decision_def)+

fun eff_decision :: "effect \<Rightarrow> decision option" where
  "eff_decision (EffAllow i r) = Some DecAllow"
| "eff_decision (EffCensor i s t r) = Some DecCensor"
| "eff_decision (EffHold i r m) = Some DecHold"
| "eff_decision (EffBlock i r p a) = Some DecBlock"
| "eff_decision _ = None"

fun eff_reason_codes :: "effect \<Rightarrow> rstr list" where
  "eff_reason_codes (EffAllow i r) = r"
| "eff_reason_codes (EffBlock i r p a) = r"
| "eff_reason_codes (EffHold i r m) = r"
| "eff_reason_codes (EffCensor i s t r) = r"
| "eff_reason_codes (EffRouteReview i q p r) = r"
| "eff_reason_codes (EffDelete i m c r) = r"
| "eff_reason_codes (EffKick i u s r) = r"
| "eff_reason_codes _ = []"

record effect_origin =
  eo_policy_bundle_id :: uuid
  eo_policy_version_id :: uuid
  eo_rule_id :: rstr
  eo_scope :: scope
  eo_priority :: i32
  eo_mandatory :: bool

record emitted_effect =
  ee_origin :: effect_origin
  ee_effect :: effect

record rejected_effect =
  re_effect :: emitted_effect
  re_reason :: rstr
  re_superseded_by :: "rstr option"

abbreviation em_id :: "emitted_effect \<Rightarrow> rstr" where
  "em_id e \<equiv> eff_id (ee_effect e)"

abbreviation em_decision :: "emitted_effect \<Rightarrow> decision option" where
  "em_decision e \<equiv> eff_decision (ee_effect e)"

section \<open>Results\<close>

record condition_trace =
  ct_path :: rstr
  ct_result :: json

record rule_trace =
  rt_policy_version_id :: uuid
  rt_rule_id :: rstr
  rt_skipped :: bool
  rt_skip_reason :: "rstr option"
  rt_conditions :: "condition_trace list"
  rt_emitted_effects :: "emitted_effect list"
  rt_error :: "rstr option"
  rt_latency_micros :: u64

record execution_trace =
  xt_id :: uuid
  xt_action_id :: uuid
  xt_action_schema_version :: u32
  xt_policy_versions :: "uuid list"
  xt_features :: feature_snapshot
  xt_rules :: "rule_trace list"
  xt_accepted_effect_ids :: "rstr list"
  xt_rejected_effects :: "rejected_effect list"
  xt_final_decision :: decision
  xt_reason_codes :: "rstr list"
  xt_total_latency_micros :: u64
  xt_created_at :: date_time
  xt_sampled :: bool

datatype content_policy_plan = PlanHub hub_policy_plan | PlanCall call_policy_plan

record evaluation_result =
  er_id :: uuid
  er_action_id :: uuid
  er_decision :: decision
  er_reason_codes :: "rstr list"
  er_accepted_effects :: "emitted_effect list"
  er_rejected_effects :: "rejected_effect list"
  er_trace :: execution_trace
  er_shadow :: bool
  er_content_policy :: "content_policy_plan option"

section \<open>Delivery jobs\<close>

text \<open>The messages of \<open>src/generated/prism.rs\<close>; the options of JSON texts are strings.\<close>

record prism_target =
  pt_channel_id :: rstr
  pt_webhook_id :: rstr
  pt_webhook_token :: rstr
  pt_guild_id :: "rstr option"
  pt_hub_id :: "rstr option"
  pt_thread_id :: "rstr option"
  pt_message_id :: "rstr option"
  pt_overrides :: "rstr option"

record prism_metadata =
  pm_author_id :: rstr
  pm_guild_id :: rstr
  pm_guild_name :: rstr
  pm_badges :: "rstr list"

record prism_payload =
  pj_batch_id :: rstr
  pj_action :: rstr
  pj_message_id :: "rstr option"
  pj_shard_index :: "i32 option"
  pj_hub_id :: "rstr option"
  pj_hub_name :: "rstr option"
  pj_payload :: rstr
  pj_targets :: "prism_target list"
  pj_metadata :: "prism_metadata option"
  pj_action_id :: "rstr option"

end
