(* ===== verification/PolicyRuntime.thy ===== *)
theory PolicyRuntime
  imports PolicyModel
begin

text \<open>
  The interface of the policy languages (\<open>src/policy/runtime.rs\<close>): diagnostics, artifacts, the
  evaluation of one rule, and the trait the engine calls. The digest \<open>sha256_hex\<close> is a parameter
  of the runtimes that use it.
\<close>

datatype diagnostic_severity = SevInfo | SevWarning | SevError

record diagnostic =
  dg_severity :: diagnostic_severity
  dg_code :: rstr
  dg_message :: rstr
  dg_line :: "u32 option"
  dg_column :: "u32 option"

record compiled_artifact =
  ca_language :: policy_language
  ca_runtime_version :: rstr
  ca_content_sha256 :: rstr
  ca_bytes :: "byte list"

record runtime_evaluation =
  ev_rule_id :: rstr
  ev_effects :: "effect list"
  ev_conditions :: "condition_trace list"

datatype runtime_error =
  RtValidation "diagnostic list" | RtTimeout | RtMemoryLimit | RtMalformedEffects rstr | RtWorker rstr

fun runtime_error_text :: "runtime_error \<Rightarrow> rstr" where
  "runtime_error_text (RtValidation ds) = lit ''policy validation failed''"
| "runtime_error_text RtTimeout = lit ''policy execution timed out''"
| "runtime_error_text RtMemoryLimit = lit ''policy exceeded its memory limit''"
| "runtime_error_text (RtMalformedEffects m) = lit ''policy returned malformed effects: '' @ m"
| "runtime_error_text (RtWorker m) = lit ''policy worker failed: '' @ m"

text \<open>The trait: what the engine calls of a registered runtime.\<close>

record policy_runtime =
  rn_language :: policy_language
  rn_runtime_version :: rstr
  rn_validate :: "rstr \<Rightarrow> policy_manifest \<Rightarrow> diagnostic list"
  rn_compile :: "rstr \<Rightarrow> policy_manifest \<Rightarrow> runtime_error + compiled_artifact"
  rn_evaluate :: "compiled_artifact \<Rightarrow> paction \<Rightarrow> feature_snapshot \<Rightarrow> runtime_error + runtime_evaluation list"

definition has_error :: "diagnostic list \<Rightarrow> bool" where
  "has_error ds \<longleftrightarrow> list_ex (\<lambda>d. dg_severity d = SevError) ds"

text \<open>
  What a runtime owes the engine: an artifact only comes from a source without error diagnostics,
  it carries the language and the version of the runtime, and a source without error diagnostics
  is not refused for its diagnostics.
\<close>

locale runtime_contract =
  fixes language :: policy_language
    and version :: rstr
    and validate :: "rstr \<Rightarrow> policy_manifest \<Rightarrow> diagnostic list"
    and compile :: "rstr \<Rightarrow> policy_manifest \<Rightarrow> runtime_error + compiled_artifact"
  assumes compile_clean: "compile s m = Inr a \<Longrightarrow> \<not> has_error (validate s m)"
    and compile_identity: "compile s m = Inr a \<Longrightarrow> ca_language a = language \<and> ca_runtime_version a = version"
    and validation_refuses: "compile s m = Inl (RtValidation ds) \<Longrightarrow> ds = validate s m \<and> has_error ds"
begin

lemma clean_not_refused: "\<not> has_error (validate s m) \<Longrightarrow> compile s m \<noteq> Inl (RtValidation ds)"
  using validation_refuses by blast

lemma artifact_runs_here:
  "compile s m = Inr a \<Longrightarrow> ca_language a = language \<and> \<not> has_error (validate s m)"
  using compile_clean compile_identity by blast

end

end
