(* ===== verification/PolicyIr.thy ===== *)
theory PolicyIr
  imports PolicyRuntime
begin

text \<open>
  The declarative policy language (\<open>src/policy/ir.rs\<close>): programs of rules whose conditions read the
  action and the features, their validation against the manifest, and their evaluation with a
  trace. Reading and writing the JSON of programs and actions is derived code of \<open>serde\<close> and a
  parameter (\<open>ir_context\<close>), as are the digest and the numbers of JSON.
\<close>

section \<open>Programs\<close>

datatype value_ref =
  RefAction rstr
| RefFeature rstr rstr
| RefLiteral json

datatype condition =
  CondLiteral bool
| CondAll "condition list"
| CondAny "condition list"
| CondNot condition
| CondExists value_ref
| CondEq value_ref value_ref
| CondNotEq value_ref value_ref
| CondGreaterThan value_ref value_ref
| CondGreaterThanOrEqual value_ref value_ref
| CondLessThan value_ref value_ref
| CondLessThanOrEqual value_ref value_ref
| CondContains value_ref value_ref

record ir_rule =
  ir_id :: rstr
  ir_when :: condition
  ir_effects :: "effect list"

record ir_program =
  ip_rules :: "ir_rule list"

record json_error =
  je_message :: rstr
  je_line :: nat
  je_column :: nat

record ir_context =
  ic_numbers :: json_numbers
  ic_from_str :: "rstr \<Rightarrow> json_error + ir_program"
  ic_to_vec :: "ir_program \<Rightarrow> json_error + byte list"
  ic_from_slice :: "byte list \<Rightarrow> json_error + ir_program"
  ic_action_value :: "paction \<Rightarrow> json_error + json"
  ic_sha256_hex :: "byte list \<Rightarrow> rstr"

definition POLICY_IR_RUNTIME_VERSION :: rstr where
  "POLICY_IR_RUNTIME_VERSION = lit ''policy-ir-v1.0.0''"

section \<open>Validation\<close>

definition ir_error :: "rstr \<Rightarrow> rstr \<Rightarrow> diagnostic" where
  "ir_error code message =
     \<lparr>dg_severity = SevError, dg_code = code, dg_message = message, dg_line = None, dg_column = None\<rparr>"

definition validate_value_ref :: "rstr list \<Rightarrow> value_ref \<Rightarrow> diagnostic list \<Rightarrow> diagnostic list" where
  "validate_value_ref features v ds = (case v of
       RefFeature name path \<Rightarrow>
         if name \<notin> set features
         then ds @ [ir_error (lit ''IR_UNDECLARED_FEATURE'')
                (lit ''feature '' @ name @ lit '' is used but not declared in the manifest'')]
         else ds
     | _ \<Rightarrow> ds)"

fun validate_condition :: "rstr list \<Rightarrow> condition \<Rightarrow> diagnostic list \<Rightarrow> diagnostic list"
  and validate_conditions :: "rstr list \<Rightarrow> condition list \<Rightarrow> diagnostic list \<Rightarrow> diagnostic list" where
  "validate_condition f (CondAll cs) ds = validate_conditions f cs ds"
| "validate_condition f (CondAny cs) ds = validate_conditions f cs ds"
| "validate_condition f (CondNot c) ds = validate_condition f c ds"
| "validate_condition f (CondExists v) ds = validate_value_ref f v ds"
| "validate_condition f (CondEq l r) ds = validate_value_ref f r (validate_value_ref f l ds)"
| "validate_condition f (CondNotEq l r) ds = validate_value_ref f r (validate_value_ref f l ds)"
| "validate_condition f (CondGreaterThan l r) ds = validate_value_ref f r (validate_value_ref f l ds)"
| "validate_condition f (CondGreaterThanOrEqual l r) ds = validate_value_ref f r (validate_value_ref f l ds)"
| "validate_condition f (CondLessThan l r) ds = validate_value_ref f r (validate_value_ref f l ds)"
| "validate_condition f (CondLessThanOrEqual l r) ds = validate_value_ref f r (validate_value_ref f l ds)"
| "validate_condition f (CondContains c v) ds = validate_value_ref f v (validate_value_ref f c ds)"
| "validate_condition f (CondLiteral b) ds = ds"
| "validate_conditions f [] ds = ds"
| "validate_conditions f (c # cs) ds = validate_conditions f cs (validate_condition f c ds)"

text \<open>The effect ids of all rules share one set; a rule id that is blank is not recorded.\<close>

fun validate_effects ::
  "rstr \<Rightarrow> effect list \<Rightarrow> rstr list \<Rightarrow> diagnostic list \<Rightarrow> rstr list \<times> diagnostic list" where
  "validate_effects rule [] ids ds = (ids, ds)"
| "validate_effects rule (e # es) ids ds =
     (if eff_id e = []
      then validate_effects rule es ids
             (ds @ [ir_error (lit ''IR_EMPTY_EFFECT_ID'') (lit ''rule '' @ rule @ lit '' has an empty effect id'')])
      else if eff_id e \<in> set ids
      then validate_effects rule es ids
             (ds @ [ir_error (lit ''IR_DUPLICATE_EFFECT_ID'') (lit ''duplicate effect id '' @ eff_id e)])
      else validate_effects rule es (eff_id e # ids) ds)"

definition validate_rule_id ::
  "rstr \<Rightarrow> rstr list \<Rightarrow> diagnostic list \<Rightarrow> rstr list \<times> diagnostic list" where
  "validate_rule_id i ids ds =
     (if trim i = [] then (ids, ds @ [ir_error (lit ''IR_EMPTY_RULE_ID'') (lit ''rule ids may not be empty'')])
      else if i \<in> set ids
      then (ids, ds @ [ir_error (lit ''IR_DUPLICATE_RULE_ID'') (lit ''duplicate rule id '' @ i)])
      else (i # ids, ds))"

fun validate_rules ::
  "rstr list \<Rightarrow> ir_rule list \<Rightarrow> rstr list \<Rightarrow> rstr list \<Rightarrow> diagnostic list \<Rightarrow> diagnostic list" where
  "validate_rules features [] rids eids ds = ds"
| "validate_rules features (r # rs) rids eids ds =
     (case validate_rule_id (ir_id r) rids ds of (rids', ds1) \<Rightarrow>
      let ds2 = (if ir_effects r = []
                 then ds1 @ [ir_error (lit ''IR_NO_EFFECTS'') (lit ''rule '' @ ir_id r @ lit '' has no effects'')]
                 else ds1)
      in case validate_effects (ir_id r) (ir_effects r) eids ds2 of (eids', ds3) \<Rightarrow>
           validate_rules features rs rids' eids' (validate_condition features (ir_when r) ds3))"

definition validate_program :: "policy_manifest \<Rightarrow> ir_program \<Rightarrow> diagnostic list" where
  "validate_program m p =
     validate_rules (map fr_name (mf_required_features m)) (ip_rules p) [] []
       (if ip_rules p = []
        then [ir_error (lit ''IR_NO_RULES'') (lit ''a policy must contain at least one rule'')] else [])"

definition ir_validate :: "ir_context \<Rightarrow> rstr \<Rightarrow> policy_manifest \<Rightarrow> diagnostic list" where
  "ir_validate c source m = (case ic_from_str c source of
       Inl e \<Rightarrow> [\<lparr>dg_severity = SevError, dg_code = lit ''IR_INVALID_JSON'', dg_message = je_message e,
                 dg_line = Some (of_nat (je_line e)), dg_column = Some (of_nat (je_column e))\<rparr>]
     | Inr p \<Rightarrow> validate_program m p)"

definition malformed :: "json_error \<Rightarrow> runtime_error" where
  "malformed e = RtMalformedEffects (je_message e)"

definition ir_compile :: "ir_context \<Rightarrow> rstr \<Rightarrow> policy_manifest \<Rightarrow> runtime_error + compiled_artifact" where
  "ir_compile c source m =
     (let ds = ir_validate c source m
      in if has_error ds then Inl (RtValidation ds)
         else res_bind (map_err malformed (ic_from_str c source)) (\<lambda>p.
              res_bind (map_err malformed (ic_to_vec c p)) (\<lambda>bytes.
              Inr \<lparr>ca_language = PolicyIrV1, ca_runtime_version = POLICY_IR_RUNTIME_VERSION,
                   ca_content_sha256 = ic_sha256_hex c bytes, ca_bytes = bytes\<rparr>)))"

section \<open>Evaluation\<close>

fun split_path :: "rstr \<Rightarrow> rstr list" where
  "split_path [] = [[]]"
| "split_path (c # s) =
     (if c = ch (CHR ''.'') \<or> c = ch (CHR ''/'') then [] # split_path s
      else case split_path s of [] \<Rightarrow> [[c]] | p # ps \<Rightarrow> (c # p) # ps)"

text \<open>\<open>str::parse::<usize>\<close>: digits after an optional plus sign, within 64 bits.\<close>

fun digits_value :: "nat \<Rightarrow> rstr \<Rightarrow> nat option" where
  "digits_value acc [] = Some acc"
| "digits_value acc (d # ds) =
     (if is_ascii_digit d then
        let v = acc * 10 + (d - ch (CHR ''0'')) in if v < 2 ^ 64 then digits_value v ds else None
      else None)"

definition parse_usize :: "rstr \<Rightarrow> nat option" where
  "parse_usize s =
     (let ds = (case s of [] \<Rightarrow> [] | c # t \<Rightarrow> if c = ch (CHR ''+'') then t else s)
      in if ds = [] then None else digits_value 0 ds)"

definition list_get :: "'a list \<Rightarrow> nat \<Rightarrow> 'a option" where
  "list_get xs n = (if n < length xs then Some (xs ! n) else None)"

fun json_step :: "json \<Rightarrow> rstr \<Rightarrow> json option" where
  "json_step (JObject m) part = map_of m part"
| "json_step (JArray xs) part = Option.bind (parse_usize part) (list_get xs)"
| "json_step _ part = None"

fun try_fold_option :: "('s \<Rightarrow> 'a \<Rightarrow> 's option) \<Rightarrow> 's \<Rightarrow> 'a list \<Rightarrow> 's option" where
  "try_fold_option f s [] = Some s"
| "try_fold_option f s (x # xs) = Option.bind (f s x) (\<lambda>t. try_fold_option f t xs)"

definition path_parts :: "rstr \<Rightarrow> rstr list" where
  "path_parts path = filter (\<lambda>p. p \<noteq> []) (split_path (dropWhile (\<lambda>c. c = ch (CHR ''/'')) path))"

definition json_path :: "json \<Rightarrow> rstr \<Rightarrow> json option" where
  "json_path v path = (if path = [] then Some v else try_fold_option json_step v (path_parts path))"

definition resolve_ref :: "value_ref \<Rightarrow> json \<Rightarrow> feature_snapshot \<Rightarrow> json option" where
  "resolve_ref v action features = (case v of
       RefLiteral x \<Rightarrow> Some x
     | RefAction path \<Rightarrow> json_path action path
     | RefFeature name path \<Rightarrow>
         Option.bind (map_of features name) (\<lambda>f. Option.bind (fv_value f) (\<lambda>x. json_path x path)))"

definition compare_numbers ::
  "json_numbers \<Rightarrow> value_ref \<Rightarrow> value_ref \<Rightarrow> json \<Rightarrow> feature_snapshot \<Rightarrow> (f64 \<Rightarrow> f64 \<Rightarrow> bool)
     \<Rightarrow> runtime_error + bool" where
  "compare_numbers c l r action features cmp =
     Inr (case (Option.bind (resolve_ref l action features) (json_as_f64 c),
                Option.bind (resolve_ref r action features) (json_as_f64 c)) of
            (Some a, Some b) \<Rightarrow> cmp a b
          | _ \<Rightarrow> False)"

fun option_json_eq :: "json_numbers \<Rightarrow> json option \<Rightarrow> json option \<Rightarrow> bool" where
  "option_json_eq c None None = True"
| "option_json_eq c (Some a) (Some b) = json_eq c a b"
| "option_json_eq c _ _ = False"

fun contains_value :: "json_numbers \<Rightarrow> json option \<Rightarrow> json option \<Rightarrow> bool" where
  "contains_value c (Some (JString haystack)) (Some (JString needle)) = str_contains haystack needle"
| "contains_value c (Some (JArray values)) (Some needle) = list_ex (\<lambda>v. json_eq c v needle) values"
| "contains_value c _ _ = False"

definition next_path :: "rstr \<Rightarrow> rstr \<Rightarrow> rstr" where
  "next_path path part = path @ lit ''.'' @ part"

definition indexed :: "rstr \<Rightarrow> nat \<Rightarrow> rstr" where
  "indexed name i = name @ lit ''['' @ show_nat i @ lit '']''"

text \<open>
  The evaluation of a condition appends to the trace. \<open>evaluate_conditions\<close> is the loop over the
  conditions of \<open>all\<close> and \<open>any\<close> from an index on; neither stops early.
\<close>

type_synonym traced = "bool \<times> condition_trace list"

definition traced_leaf :: "rstr \<Rightarrow> condition_trace list \<Rightarrow> runtime_error + bool \<Rightarrow> runtime_error + traced" where
  "traced_leaf path trace r =
     res_bind r (\<lambda>b. Inr (b, trace @ [\<lparr>ct_path = path, ct_result = JBool b\<rparr>]))"

definition traced_node :: "rstr \<Rightarrow> runtime_error + traced \<Rightarrow> runtime_error + traced" where
  "traced_node path r =
     res_bind r (\<lambda>(b, trace). Inr (b, trace @ [\<lparr>ct_path = path, ct_result = JBool b\<rparr>]))"

fun evaluate_condition ::
  "json_numbers \<Rightarrow> condition \<Rightarrow> json \<Rightarrow> feature_snapshot \<Rightarrow> condition_trace list \<Rightarrow> rstr
     \<Rightarrow> runtime_error + traced"
  and evaluate_conditions ::
  "json_numbers \<Rightarrow> (bool \<Rightarrow> bool \<Rightarrow> bool) \<Rightarrow> rstr \<Rightarrow> nat \<Rightarrow> condition list \<Rightarrow> json \<Rightarrow> feature_snapshot
     \<Rightarrow> bool \<Rightarrow> condition_trace list \<Rightarrow> rstr \<Rightarrow> runtime_error + traced" where
  "evaluate_condition n (CondLiteral b) a f trace path = traced_leaf path trace (Inr b)"
| "evaluate_condition n (CondAll cs) a f trace path =
     traced_node path (evaluate_conditions n (\<and>) (lit ''all'') 0 cs a f True trace path)"
| "evaluate_condition n (CondAny cs) a f trace path =
     traced_node path (evaluate_conditions n (\<or>) (lit ''any'') 0 cs a f False trace path)"
| "evaluate_condition n (CondNot c) a f trace path =
     traced_node path (res_bind (evaluate_condition n c a f trace (next_path path (lit ''not'')))
       (\<lambda>(b, trace'). Inr (\<not> b, trace')))"
| "evaluate_condition n (CondExists v) a f trace path =
     traced_leaf path trace (Inr (resolve_ref v a f \<noteq> None))"
| "evaluate_condition n (CondEq l r) a f trace path =
     traced_leaf path trace (Inr (option_json_eq n (resolve_ref l a f) (resolve_ref r a f)))"
| "evaluate_condition n (CondNotEq l r) a f trace path =
     traced_leaf path trace (Inr (\<not> option_json_eq n (resolve_ref l a f) (resolve_ref r a f)))"
| "evaluate_condition n (CondGreaterThan l r) a f trace path =
     traced_leaf path trace (compare_numbers n l r a f (\<lambda>x y. f64_lt y x))"
| "evaluate_condition n (CondGreaterThanOrEqual l r) a f trace path =
     traced_leaf path trace (compare_numbers n l r a f (\<lambda>x y. f64_le y x))"
| "evaluate_condition n (CondLessThan l r) a f trace path =
     traced_leaf path trace (compare_numbers n l r a f (\<lambda>x y. f64_lt x y))"
| "evaluate_condition n (CondLessThanOrEqual l r) a f trace path =
     traced_leaf path trace (compare_numbers n l r a f (\<lambda>x y. f64_le x y))"
| "evaluate_condition n (CondContains c v) a f trace path =
     traced_leaf path trace (Inr (contains_value n (resolve_ref c a f) (resolve_ref v a f)))"
| "evaluate_conditions n combine name i [] a f result trace path = Inr (result, trace)"
| "evaluate_conditions n combine name i (c # cs) a f result trace path =
     res_bind (evaluate_condition n c a f trace (next_path path (indexed name i))) (\<lambda>(b, trace').
       evaluate_conditions n combine name (Suc i) cs a f (combine result b) trace' path)"

definition evaluate_rule ::
  "json_numbers \<Rightarrow> json \<Rightarrow> feature_snapshot \<Rightarrow> ir_rule \<Rightarrow> runtime_error + runtime_evaluation" where
  "evaluate_rule n a f r =
     res_bind (evaluate_condition n (ir_when r) a f [] (ir_id r)) (\<lambda>(b, trace).
       Inr \<lparr>ev_rule_id = ir_id r, ev_effects = (if b then ir_effects r else []), ev_conditions = trace\<rparr>)"

definition ir_evaluate ::
  "ir_context \<Rightarrow> compiled_artifact \<Rightarrow> paction \<Rightarrow> feature_snapshot \<Rightarrow> runtime_error + runtime_evaluation list" where
  "ir_evaluate c artifact action features =
     res_bind (map_err malformed (ic_from_slice c (ca_bytes artifact))) (\<lambda>p.
     res_bind (map_err malformed (ic_action_value c action)) (\<lambda>j.
       try_map (evaluate_rule (ic_numbers c) j features) (ip_rules p)))"

definition policy_ir_runtime :: "ir_context \<Rightarrow> policy_runtime" where
  "policy_ir_runtime c =
     \<lparr>rn_language = PolicyIrV1, rn_runtime_version = POLICY_IR_RUNTIME_VERSION,
      rn_validate = ir_validate c, rn_compile = ir_compile c, rn_evaluate = ir_evaluate c\<rparr>"

lemma ir_runtime_contract:
  "runtime_contract PolicyIrV1 POLICY_IR_RUNTIME_VERSION (ir_validate c) (ir_compile c)"
  by unfold_locales (auto simp: ir_compile_def Let_def malformed_def res_bind_Inl_iff split: if_splits elim!: map_err.elims)

interpretation policy_ir: runtime_contract PolicyIrV1 POLICY_IR_RUNTIME_VERSION "ir_validate c" "ir_compile c"
  for c
  by (rule ir_runtime_contract)

section \<open>The meaning of conditions\<close>

definition numbers_hold ::
  "json_numbers \<Rightarrow> json \<Rightarrow> feature_snapshot \<Rightarrow> (f64 \<Rightarrow> f64 \<Rightarrow> bool) \<Rightarrow> value_ref \<Rightarrow> value_ref \<Rightarrow> bool" where
  "numbers_hold n a f cmp l r =
     (case (Option.bind (resolve_ref l a f) (json_as_f64 n), Option.bind (resolve_ref r a f) (json_as_f64 n)) of
        (Some x, Some y) \<Rightarrow> cmp x y | _ \<Rightarrow> False)"

fun holds :: "json_numbers \<Rightarrow> json \<Rightarrow> feature_snapshot \<Rightarrow> condition \<Rightarrow> bool" where
  "holds n a f (CondLiteral b) = b"
| "holds n a f (CondAll cs) = list_all (holds n a f) cs"
| "holds n a f (CondAny cs) = list_ex (holds n a f) cs"
| "holds n a f (CondNot c) = (\<not> holds n a f c)"
| "holds n a f (CondExists v) = (resolve_ref v a f \<noteq> None)"
| "holds n a f (CondEq l r) = option_json_eq n (resolve_ref l a f) (resolve_ref r a f)"
| "holds n a f (CondNotEq l r) = (\<not> option_json_eq n (resolve_ref l a f) (resolve_ref r a f))"
| "holds n a f (CondGreaterThan l r) = numbers_hold n a f (\<lambda>x y. f64_lt y x) l r"
| "holds n a f (CondGreaterThanOrEqual l r) = numbers_hold n a f (\<lambda>x y. f64_le y x) l r"
| "holds n a f (CondLessThan l r) = numbers_hold n a f f64_lt l r"
| "holds n a f (CondLessThanOrEqual l r) = numbers_hold n a f f64_le l r"
| "holds n a f (CondContains c v) = contains_value n (resolve_ref c a f) (resolve_ref v a f)"

text \<open>The conditions of a rule with their paths, in the order in which their results are traced.\<close>

fun positions :: "rstr \<Rightarrow> condition \<Rightarrow> (rstr \<times> condition) list"
  and positions_each :: "rstr \<Rightarrow> rstr \<Rightarrow> nat \<Rightarrow> condition list \<Rightarrow> (rstr \<times> condition) list" where
  "positions path (CondAll cs) = positions_each path (lit ''all'') 0 cs @ [(path, CondAll cs)]"
| "positions path (CondAny cs) = positions_each path (lit ''any'') 0 cs @ [(path, CondAny cs)]"
| "positions path (CondNot c) = positions (next_path path (lit ''not'')) c @ [(path, CondNot c)]"
| "positions path c = [(path, c)]"
| "positions_each path name i [] = []"
| "positions_each path name i (c # cs) =
     positions (next_path path (indexed name i)) c @ positions_each path name (Suc i) cs"

definition trace_entry :: "json_numbers \<Rightarrow> json \<Rightarrow> feature_snapshot \<Rightarrow> rstr \<times> condition \<Rightarrow> condition_trace" where
  "trace_entry n a f x = \<lparr>ct_path = fst x, ct_result = JBool (holds n a f (snd x))\<rparr>"

lemma traced_leaf_Inr [simp]:
  "traced_leaf path trace (Inr b) = Inr (b, trace @ [\<lparr>ct_path = path, ct_result = JBool b\<rparr>])"
  by (simp add: traced_leaf_def)

lemma traced_node_Inr [simp]:
  "traced_node path (Inr (b, trace)) = Inr (b, trace @ [\<lparr>ct_path = path, ct_result = JBool b\<rparr>])"
  by (simp add: traced_node_def)

lemma compare_numbers_eq: "compare_numbers n l r a f cmp = Inr (numbers_hold n a f cmp l r)"
  by (simp add: compare_numbers_def numbers_hold_def)

lemma fold_conj: "fold (\<lambda>c r. r \<and> P c) cs b \<longleftrightarrow> b \<and> list_all P cs"
  by (induction cs arbitrary: b) auto

lemma fold_disj: "fold (\<lambda>c r. r \<or> P c) cs b \<longleftrightarrow> b \<or> list_ex P cs"
  by (induction cs arbitrary: b) auto

lemma evaluate_condition_eq:
  "evaluate_condition n c a f trace path
     = Inr (holds n a f c, trace @ map (trace_entry n a f) (positions path c))"
  and evaluate_conditions_eq:
  "evaluate_conditions n combine name i cs a f result trace path
     = Inr (fold (\<lambda>c r. combine r (holds n a f c)) cs result,
            trace @ map (trace_entry n a f) (positions_each path name i cs))"
proof (induction n c a f trace path and n combine name i cs a f result trace path
    rule: evaluate_condition_evaluate_conditions.induct)
qed (simp_all add: compare_numbers_eq fold_conj fold_disj trace_entry_def)

definition rule_outcome :: "json_numbers \<Rightarrow> json \<Rightarrow> feature_snapshot \<Rightarrow> ir_rule \<Rightarrow> runtime_evaluation" where
  "rule_outcome n a f r =
     \<lparr>ev_rule_id = ir_id r, ev_effects = (if holds n a f (ir_when r) then ir_effects r else []),
      ev_conditions = map (trace_entry n a f) (positions (ir_id r) (ir_when r))\<rparr>"

lemma evaluate_rule_eq: "evaluate_rule n a f r = Inr (rule_outcome n a f r)"
  by (simp add: evaluate_rule_def evaluate_condition_eq rule_outcome_def)

section \<open>What validation accepts\<close>

fun value_refs :: "condition \<Rightarrow> value_ref list" where
  "value_refs (CondLiteral b) = []"
| "value_refs (CondAll cs) = concat (map value_refs cs)"
| "value_refs (CondAny cs) = concat (map value_refs cs)"
| "value_refs (CondNot c) = value_refs c"
| "value_refs (CondExists v) = [v]"
| "value_refs (CondEq l r) = [l, r]"
| "value_refs (CondNotEq l r) = [l, r]"
| "value_refs (CondGreaterThan l r) = [l, r]"
| "value_refs (CondGreaterThanOrEqual l r) = [l, r]"
| "value_refs (CondLessThan l r) = [l, r]"
| "value_refs (CondLessThanOrEqual l r) = [l, r]"
| "value_refs (CondContains c v) = [c, v]"

definition declared :: "rstr list \<Rightarrow> value_ref \<Rightarrow> bool" where
  "declared features v = (case v of RefFeature name path \<Rightarrow> name \<in> set features | _ \<Rightarrow> True)"

definition program_effect_ids :: "ir_rule list \<Rightarrow> rstr list" where
  "program_effect_ids rs = map eff_id (concat (map ir_effects rs))"

definition well_formed_program :: "policy_manifest \<Rightarrow> ir_program \<Rightarrow> bool" where
  "well_formed_program m p \<longleftrightarrow> ip_rules p \<noteq> []
     \<and> list_all (\<lambda>r. trim (ir_id r) \<noteq> [] \<and> ir_effects r \<noteq> []
         \<and> list_all (declared (map fr_name (mf_required_features m))) (value_refs (ir_when r))) (ip_rules p)
     \<and> distinct (map ir_id (ip_rules p))
     \<and> list_all (\<lambda>i. i \<noteq> []) (program_effect_ids (ip_rules p))
     \<and> distinct (program_effect_ids (ip_rules p))"

lemma validate_value_ref_Nil: "validate_value_ref F v ds = [] \<longleftrightarrow> ds = [] \<and> declared F v"
  by (cases v) (auto simp: validate_value_ref_def declared_def)

lemma validate_condition_Nil:
  "validate_condition F c ds = [] \<longleftrightarrow> ds = [] \<and> list_all (declared F) (value_refs c)"
  and validate_conditions_Nil:
  "validate_conditions F cs ds = [] \<longleftrightarrow> ds = [] \<and> list_all (declared F) (concat (map value_refs cs))"
proof (induction F c ds and F cs ds rule: validate_condition_validate_conditions.induct)
qed (auto simp: validate_value_ref_Nil)

lemma validate_effects_Nil:
  "snd (validate_effects r es ids ds) = [] \<longleftrightarrow>
     ds = [] \<and> list_all (\<lambda>i. i \<noteq> []) (map eff_id es) \<and> distinct (map eff_id es)
     \<and> set (map eff_id es) \<inter> set ids = {}"
  by (induction r es ids ds rule: validate_effects.induct) auto

lemma validate_effects_ids:
  "set (fst (validate_effects r es ids ds)) = set ids \<union> (set (map eff_id es) - {[]})"
  by (induction r es ids ds rule: validate_effects.induct) auto

lemma validate_rule_id_Nil:
  "snd (validate_rule_id i ids ds) = [] \<longleftrightarrow> ds = [] \<and> trim i \<noteq> [] \<and> i \<notin> set ids"
  by (simp add: validate_rule_id_def)

lemma validate_rules_Nil:
  "validate_rules F rs rids eids ds = [] \<longleftrightarrow> ds = []
     \<and> list_all (\<lambda>r. trim (ir_id r) \<noteq> [] \<and> ir_effects r \<noteq> [] \<and> list_all (declared F) (value_refs (ir_when r))) rs
     \<and> distinct (map ir_id rs) \<and> set (map ir_id rs) \<inter> set rids = {}
     \<and> list_all (\<lambda>i. i \<noteq> []) (program_effect_ids rs) \<and> distinct (program_effect_ids rs)
     \<and> set (program_effect_ids rs) \<inter> set eids = {}"
proof (induction rs arbitrary: rids eids ds)
  case Nil
  then show ?case by (simp add: program_effect_ids_def)
next
  case (Cons r rs)
  obtain rids' ds1 where i: "validate_rule_id (ir_id r) rids ds = (rids', ds1)" by (cases "validate_rule_id (ir_id r) rids ds")
  define ds2 where "ds2 = (if ir_effects r = [] then ds1 @ [ir_error (lit ''IR_NO_EFFECTS'') (lit ''rule '' @ ir_id r @ lit '' has no effects'')] else ds1)"
  obtain eids' ds3 where e: "validate_effects (ir_id r) (ir_effects r) eids ds2 = (eids', ds3)"
    by (cases "validate_effects (ir_id r) (ir_effects r) eids ds2")
  have ds1: "ds1 = [] \<longleftrightarrow> ds = [] \<and> trim (ir_id r) \<noteq> [] \<and> ir_id r \<notin> set rids"
    using validate_rule_id_Nil [of "ir_id r" rids ds] i by simp
  have rids': "ds1 = [] \<Longrightarrow> rids' = ir_id r # rids"
    using i ds1 by (auto simp: validate_rule_id_def split: if_splits)
  have ds2: "ds2 = [] \<longleftrightarrow> ds1 = [] \<and> ir_effects r \<noteq> []" by (simp add: ds2_def)
  have ds3: "ds3 = [] \<longleftrightarrow> ds2 = [] \<and> list_all (\<lambda>i. i \<noteq> []) (map eff_id (ir_effects r))
      \<and> distinct (map eff_id (ir_effects r)) \<and> set (map eff_id (ir_effects r)) \<inter> set eids = {}"
    using validate_effects_Nil [of "ir_id r" "ir_effects r" eids ds2] e by simp
  have eids': "set eids' = set eids \<union> (set (map eff_id (ir_effects r)) - {[]})"
    using validate_effects_ids [of "ir_id r" "ir_effects r" eids ds2] e by simp
  have unfold: "validate_rules F (r # rs) rids eids ds
      = validate_rules F rs rids' eids' (validate_condition F (ir_when r) ds3)"
    using i e by (simp add: ds2_def Let_def)
  have ids: "program_effect_ids (r # rs) = map eff_id (ir_effects r) @ program_effect_ids rs"
    by (simp add: program_effect_ids_def)
  let ?here = "ds3 = [] \<and> list_all (declared F) (value_refs (ir_when r))"
  show ?case
  proof (cases ?here)
    case False
    then show ?thesis
      unfolding unfold Cons.IH validate_condition_Nil ids
      using ds1 ds2 ds3 by (simp add: Int_Un_distrib2) blast
  next
    case True
    then have eff: "set eids' = set eids \<union> set (map eff_id (ir_effects r))"
      using ds3 eids' by (auto simp: list_all_iff)
    have rid: "rids' = ir_id r # rids" and "ds1 = []" using True ds2 ds3 rids' by simp_all
    then have here: "ds = []" "trim (ir_id r) \<noteq> []" "ir_id r \<notin> set rids" "ir_effects r \<noteq> []"
      "list_all (\<lambda>i. i \<noteq> []) (map eff_id (ir_effects r))" "distinct (map eff_id (ir_effects r))"
      "set (map eff_id (ir_effects r)) \<inter> set eids = {}"
      using True ds1 ds2 ds3 by simp_all
    have "set (map ir_id rs) \<inter> set rids' = {} \<longleftrightarrow> ir_id r \<notin> set (map ir_id rs) \<and> set (map ir_id rs) \<inter> set rids = {}"
      unfolding rid by auto
    moreover have "set (program_effect_ids rs) \<inter> set eids' = {} \<longleftrightarrow>
        set (map eff_id (ir_effects r)) \<inter> set (program_effect_ids rs) = {} \<and> set (program_effect_ids rs) \<inter> set eids = {}"
      unfolding eff by blast
    ultimately show ?thesis
      unfolding unfold Cons.IH validate_condition_Nil ids
      using True here
      by (simp only: list.pred_inject list_all_append distinct_append map_append set_append list.map list.set
          distinct.simps Int_Un_distrib2 Un_empty Int_insert_left if_False simp_thms) blast
  qed
qed

lemma ir_validate_program: "validate_program m p = [] \<longleftrightarrow> well_formed_program m p"
  unfolding validate_program_def well_formed_program_def validate_rules_Nil by auto

text \<open>Validation reports errors only.\<close>

abbreviation errors_only :: "diagnostic list \<Rightarrow> bool" where
  "errors_only ds \<equiv> list_all (\<lambda>d. dg_severity d = SevError) ds"

lemma ir_error_severity [simp]: "dg_severity (ir_error code message) = SevError"
  by (simp add: ir_error_def)

lemma validate_value_ref_errors: "errors_only ds \<Longrightarrow> errors_only (validate_value_ref F v ds)"
  by (cases v) (simp_all add: validate_value_ref_def)

lemma validate_condition_errors:
  "errors_only ds \<Longrightarrow> errors_only (validate_condition F c ds)"
  "errors_only ds \<Longrightarrow> errors_only (validate_conditions F cs ds)"
proof (induction F c ds and F cs ds rule: validate_condition_validate_conditions.induct)
qed (simp_all add: validate_value_ref_errors)

lemma validate_effects_errors: "errors_only ds \<Longrightarrow> errors_only (snd (validate_effects r es ids ds))"
  by (induction r es ids ds rule: validate_effects.induct) auto

lemma validate_rules_errors: "errors_only ds \<Longrightarrow> errors_only (validate_rules F rs rids eids ds)"
proof (induction F rs rids eids ds rule: validate_rules.induct)
  case (2 F r rs rids eids ds)
  obtain rids' ds1 where i: "validate_rule_id (ir_id r) rids ds = (rids', ds1)" by fastforce
  then have ds1: "errors_only ds1" using "2.prems" by (auto simp: validate_rule_id_def split: if_splits)
  define ds2 where "ds2 = (if ir_effects r = [] then ds1 @ [ir_error (lit ''IR_NO_EFFECTS'') (lit ''rule '' @ ir_id r @ lit '' has no effects'')] else ds1)"
  obtain eids' ds3 where e: "validate_effects (ir_id r) (ir_effects r) eids ds2 = (eids', ds3)" by fastforce
  have "errors_only ds2" using ds1 by (simp add: ds2_def)
  then have "errors_only ds3" using validate_effects_errors [of ds2 "ir_id r" "ir_effects r" eids] e by simp
  then show ?case
    using "2.IH" [OF i [symmetric] ds2_def e [symmetric]] validate_condition_errors(1) i e
    by (simp add: Let_def ds2_def)
qed simp

lemma has_error_iff: "errors_only ds \<Longrightarrow> has_error ds \<longleftrightarrow> ds \<noteq> []"
  by (cases ds) (auto simp: has_error_def list_all_iff list_ex_iff)

lemma ir_validate_has_error: "ic_from_str c s = Inr p \<Longrightarrow> has_error (ir_validate c s m) \<longleftrightarrow> \<not> well_formed_program m p"
  using has_error_iff [OF validate_rules_errors] ir_validate_program [of m p]
  by (simp add: ir_validate_def validate_program_def)

section \<open>Properties\<close>

text \<open>
  evaluating a condition never fails; it yields the truth value of the
  condition and appends to the trace the value of the condition and of every condition inside it,
  each under its own path and after those inside it, whatever the values of the earlier ones.
\<close>

lemma condition_evaluation:
  "evaluate_condition n c a f trace path
     = Inr (holds n a f c, trace @ map (trace_entry n a f) (positions path c))
   \<and> last (positions path c) = (path, c)"
proof
  show "last (positions path c) = (path, c)" by (cases c) simp_all
qed (rule evaluate_condition_eq)

lemma distinct_effects_of_rules:
  assumes "distinct (concat (map f rs))" and "\<And>r. g r = f r \<or> g r = []"
  shows "distinct (concat (map g rs))"
  using assms(1)
proof (induction rs)
  case (Cons r rs)
  have "distinct (f r)" "distinct (concat (map g rs))" "set (f r) \<inter> set (concat (map f rs)) = {}"
    using Cons by simp_all
  moreover have "set (concat (map g rs)) \<subseteq> set (concat (map f rs))"
    by (auto simp: set_concat) (metis assms(2) empty_iff list.set(1))
  ultimately show ?case using assms(2) [of r] by (cases "g r = []") (simp, simp, blast)
qed simp

text \<open>
  C24 [ir_program_correct]: a source that reads as a program is refused exactly when the program is
  not well formed, with all its diagnostics; otherwise its artifact, read back, evaluates every
  rule to its effects if its condition holds and to none if not, and no two effects of the
  evaluation share an id.
\<close>

lemma ir_program_correct:
  assumes "ic_from_str c source = Inr p" and "ic_to_vec c p = Inr bytes"
    and "ic_from_slice c bytes = Inr p" and "ic_action_value c action = Inr j"
  shows "case ir_compile c source m of
      Inl e \<Rightarrow> \<not> well_formed_program m p \<and> e = RtValidation (ir_validate c source m)
    | Inr artifact \<Rightarrow> well_formed_program m p
        \<and> ir_evaluate c artifact action f = Inr (map (rule_outcome (ic_numbers c) j f) (ip_rules p))
        \<and> distinct (map eff_id (concat (map (\<lambda>r. ev_effects (rule_outcome (ic_numbers c) j f r)) (ip_rules p))))"
proof (cases "well_formed_program m p")
  case True
  have "distinct (concat (map (\<lambda>r. map eff_id (ir_effects r)) (ip_rules p)))"
    using True by (simp add: well_formed_program_def program_effect_ids_def map_concat o_def)
  then have "distinct (concat (map (\<lambda>r. map eff_id (ev_effects (rule_outcome (ic_numbers c) j f r))) (ip_rules p)))"
    by (rule distinct_effects_of_rules) (simp add: rule_outcome_def)
  then have d: "distinct (map eff_id (concat (map (\<lambda>r. ev_effects (rule_outcome (ic_numbers c) j f r)) (ip_rules p))))"
    by (simp only: map_concat map_map o_def)
  have "\<not> has_error (ir_validate c source m)"
    using True ir_validate_has_error [OF assms(1)] by simp
  then have "ir_compile c source m = Inr \<lparr>ca_language = PolicyIrV1,
      ca_runtime_version = POLICY_IR_RUNTIME_VERSION, ca_content_sha256 = ic_sha256_hex c bytes, ca_bytes = bytes\<rparr>"
    using assms by (simp add: ir_compile_def)
  moreover have "try_map (evaluate_rule (ic_numbers c) j f) (ip_rules p) = Inr (map (rule_outcome (ic_numbers c) j f) (ip_rules p))"
    by (rule try_map_all_ok) (rule evaluate_rule_eq)
  ultimately show ?thesis
    using True assms(3,4) d by (simp only: ir_evaluate_def compiled_artifact.simps map_err.simps res_bind.simps sum.case simp_thms)
next
  case False
  then have "has_error (ir_validate c source m)"
    using ir_validate_has_error [OF assms(1)] by simp
  then show ?thesis using False by (simp add: ir_compile_def Let_def)
qed

definition sample_program :: ir_program where
  "sample_program = \<lparr>ip_rules =
     [\<lparr>ir_id = lit ''risky'',
       ir_when = CondAll
         [CondEq (RefAction (lit ''attributes.risky'')) (RefLiteral (JBool True)),
          CondGreaterThan (RefFeature (lit ''score'') (lit ''/values/1'')) (RefLiteral (JNumber 5))],
       ir_effects = [EffBlock (lit ''block'') [lit ''RISK''] None None]\<rparr>,
      \<lparr>ir_id = lit ''absent'', ir_when = CondNot (CondExists (RefAction (lit ''subject''))),
       ir_effects = [EffAllow (lit ''allow'') []]\<rparr>]\<rparr>"

definition sample_ir_context :: ir_context where
  "sample_ir_context = \<lparr>ic_numbers = \<lparr>number_eq = (=), number_as_f64 = (\<lambda>n. Some (of_nat n))\<rparr>,
     ic_from_str = (\<lambda>s. if s = lit ''program'' then Inr sample_program else Inl \<lparr>je_message = s, je_line = 1, je_column = 0\<rparr>),
     ic_to_vec = (\<lambda>p. Inr [1]),
     ic_from_slice = (\<lambda>b. if b = [1] then Inr sample_program else Inl \<lparr>je_message = b, je_line = 1, je_column = 0\<rparr>),
     ic_action_value = (\<lambda>a. Inr (JObject [(lit ''attributes'', ac_attributes a), (lit ''subject'', JNull)])),
     ic_sha256_hex = (\<lambda>b. lit ''00'')\<rparr>"

definition sample_manifest :: policy_manifest where
  "sample_manifest = \<lparr>mf_accepted_action_types = [], mf_accepted_schema_versions = [],
     mf_required_features = [\<lparr>fr_name = lit ''score'', fr_error_behavior = EbHold, fr_deadline_ms = 100,
       fr_maximum_data_handling = Sensitive, fr_configuration = JNull\<rparr>],
     mf_capabilities = [], mf_runtime_error_behavior = EbHold\<rparr>"

definition sample_action :: paction where
  "sample_action = \<lparr>ac_id = 7, ac_action_type = lit ''hub.message.created'', ac_schema_version = 1,
     ac_scope = \<lparr>sp_scope_type = StHub, sp_id = lit ''h'', sp_product = None\<rparr>,
     ac_subject = \<lparr>sj_user_id = Some (lit ''u''), sj_server_id = None, sj_message_id = Some (lit ''m''),
       sj_channel_id = Some (lit ''c''), sj_report_id = None\<rparr>,
     ac_occurred_at = 0, ac_attributes = JObject [(lit ''risky'', JBool True)],
     ac_data_handling = Sensitive, ac_prism_payload = None\<rparr>"

definition sample_snapshot :: feature_snapshot where
  "sample_snapshot = [(lit ''score'', \<lparr>fv_provider = lit ''score'', fv_provider_version = lit ''1'',
     fv_value = Some (JObject [(lit ''values'', JArray [JNull, JNumber 9])]), fv_error = None,
     fv_latency_micros = 3, fv_cache_hit = False, fv_input_hash = None\<rparr>)]"

lemma ir_program_correct_witness:
  "(case ir_compile sample_ir_context (lit ''program'') sample_manifest of
      Inl e \<Rightarrow> False
    | Inr artifact \<Rightarrow> ir_evaluate sample_ir_context artifact sample_action sample_snapshot
        = Inr (map (rule_outcome (ic_numbers sample_ir_context)
            (JObject [(lit ''attributes'', ac_attributes sample_action), (lit ''subject'', JNull)]) sample_snapshot)
            (ip_rules sample_program)))
   \<and> map (\<lambda>r. length (ev_effects (rule_outcome (ic_numbers sample_ir_context)
            (JObject [(lit ''attributes'', ac_attributes sample_action), (lit ''subject'', JNull)]) sample_snapshot r)))
            (ip_rules sample_program) = [1, 0]"
proof
  have "well_formed_program sample_manifest sample_program" by code_simp
  then show "case ir_compile sample_ir_context (lit ''program'') sample_manifest of
      Inl e \<Rightarrow> False
    | Inr artifact \<Rightarrow> ir_evaluate sample_ir_context artifact sample_action sample_snapshot
        = Inr (map (rule_outcome (ic_numbers sample_ir_context)
            (JObject [(lit ''attributes'', ac_attributes sample_action), (lit ''subject'', JNull)]) sample_snapshot)
            (ip_rules sample_program))"
    using ir_program_correct [of sample_ir_context "lit ''program''" sample_program "[1]" sample_action
        "JObject [(lit ''attributes'', ac_attributes sample_action), (lit ''subject'', JNull)]"
        sample_manifest sample_snapshot]
    by (simp add: sample_ir_context_def split: sum.splits)
  show "map (\<lambda>r. length (ev_effects (rule_outcome (ic_numbers sample_ir_context)
            (JObject [(lit ''attributes'', ac_attributes sample_action), (lit ''subject'', JNull)]) sample_snapshot r)))
            (ip_rules sample_program) = [1, 0]"
    by code_simp
qed

end
