(* ===== verification/EffectCheck.thy ===== *)
theory EffectCheck
  imports PolicyModel
begin

text \<open>
  The check of an emitted effect against the action it was emitted for
  (\<open>validate_effect_for_action\<close> and \<open>primary_subject\<close> of \<open>src/policy/repository.rs\<close>). Errors are the
  messages of \<open>anyhow\<close>. The length of a serialized JSON value is a parameter, since \<open>serde_json\<close>
  writes it.
\<close>

section \<open>The check\<close>

type_synonym json_size = "json \<Rightarrow> rstr + nat"

definition ensure :: "bool \<Rightarrow> rstr \<Rightarrow> rstr + unit" where
  "ensure b message = (if b then Inr () else Inl message)"

text \<open>Checks one after the other, up to the first that fails.\<close>

fun checks :: "(rstr + unit) list \<Rightarrow> rstr + unit" where
  "checks [] = Inr ()"
| "checks (c # cs) = res_bind c (\<lambda>_. checks cs)"

definition MAX_DURATION_MS :: u64 where
  "MAX_DURATION_MS = 10 * 365 * 24 * 60 * 60 * 1000"

definition primary_subject :: "subject \<Rightarrow> rstr + rstr \<times> rstr" where
  "primary_subject s =
     (case sj_user_id s of Some i \<Rightarrow> Inr (lit ''USER'', i)
      | None \<Rightarrow> case sj_server_id s of Some i \<Rightarrow> Inr (lit ''SERVER'', i)
      | None \<Rightarrow> case sj_message_id s of Some i \<Rightarrow> Inr (lit ''MESSAGE'', i)
      | None \<Rightarrow> Inl (lit ''effect subject has no supported identifier''))"

definition validate_subject :: "paction \<Rightarrow> subject \<Rightarrow> rstr + unit" where
  "validate_subject a s = res_bind (primary_subject s) (\<lambda>(t, i).
     let matches_action =
       (if t = lit ''USER'' then sj_user_id (ac_subject a) = Some i
        else if t = lit ''SERVER'' then sj_server_id (ac_subject a) = Some i
        else if t = lit ''MESSAGE'' then sj_message_id (ac_subject a) = Some i
        else False)
     in ensure matches_action (lit ''effect subject must be present on the evaluated action''))"

definition validate_effect_duration :: "u64 option \<Rightarrow> rstr + unit" where
  "validate_effect_duration d = (case d of None \<Rightarrow> Inr ()
     | Some d \<Rightarrow> ensure (0 < d \<and> d \<le> MAX_DURATION_MS)
         (lit ''effect duration must be between 1 millisecond and 10 years''))"

definition validate_reason_codes :: "rstr list \<Rightarrow> rstr + unit" where
  "validate_reason_codes codes = checks
     [ensure (length codes \<le> 32) (lit ''effect has too many reason codes''),
      ensure (list_all (\<lambda>c. trim c \<noteq> [] \<and> byte_len c \<le> 100) codes)
        (lit ''reason codes must be between 1 and 100 characters'')]"

definition between_1_and :: "nat \<Rightarrow> rstr \<Rightarrow> bool" where
  "between_1_and n s \<longleftrightarrow> trim s \<noteq> [] \<and> byte_len s \<le> n"

definition ensure_size :: "json_size \<Rightarrow> json \<Rightarrow> rstr \<Rightarrow> rstr + unit" where
  "ensure_size sz v message = res_bind (sz v) (\<lambda>n. ensure (n \<le> 16384) message)"

definition is_restriction_type :: "rstr \<Rightarrow> bool" where
  "is_restriction_type t \<longleftrightarrow>
     t \<in> {lit ''MUTE'', lit ''BAN'', lit ''BLACKLIST'', lit ''CONTENT_QUARANTINE''}"

definition is_infraction_type :: "rstr \<Rightarrow> bool" where
  "is_infraction_type t \<longleftrightarrow> t \<in> {lit ''WARNING'', lit ''MUTE'', lit ''BAN'', lit ''CONTENT''}"

definition validate_enforcement :: "paction \<Rightarrow> enforcement \<Rightarrow> rstr + unit" where
  "validate_enforcement a e = checks
     [validate_subject a (en_subject e),
      ensure (is_restriction_type (en_restriction_type e)) (lit ''invalid enforcement restriction type''),
      ensure (between_1_and 2000 (en_reason e))
        (lit ''enforcement reason must be between 1 and 2000 characters''),
      validate_effect_duration (en_duration_ms e)]"

fun effect_checks :: "json_size \<Rightarrow> paction \<Rightarrow> effect \<Rightarrow> (rstr + unit) list" where
  "effect_checks sz a (EffAllow i codes) = [validate_reason_codes codes]"
| "effect_checks sz a (EffBlock i codes reason restriction) = [validate_reason_codes codes]"
| "effect_checks sz a (EffHold i codes d) = [validate_reason_codes codes, validate_effect_duration d]"
| "effect_checks sz a (EffCensor i spans replacement codes) =
     [validate_reason_codes codes,
      ensure (spans \<noteq> [] \<and> length spans \<le> 64) (lit ''invalid censor spans''),
      ensure (list_all (\<lambda>s. ts_start_character s < ts_end_character s) spans)
        (lit ''censor spans must not be empty''),
      ensure (byte_len replacement \<le> 100) (lit ''censor replacement is too long'')]"
| "effect_checks sz a (EffFlag i flag_type severity evidence) =
     [ensure (between_1_and 100 flag_type) (lit ''flag type must be between 1 and 100 characters''),
      ensure (f64_is_finite severity \<and> f64_le f64_0 severity \<and> f64_le severity f64_100)
        (lit ''flag severity must be between 0 and 100''),
      ensure_size sz evidence (lit ''flag evidence exceeds 16 KiB'')]"
| "effect_checks sz a (EffNotify i recipient template parameters) =
     [ensure (between_1_and 200 recipient) (lit ''notification recipient is invalid''),
      ensure (between_1_and 200 template) (lit ''notification template is invalid''),
      ensure_size sz parameters (lit ''notification parameters exceed 16 KiB'')]"
| "effect_checks sz a (EffCreateInfraction i s infraction_type reason d enforcement) =
     [validate_subject a s,
      ensure (is_infraction_type infraction_type) (lit ''invalid infraction type''),
      ensure (between_1_and 2000 reason) (lit ''infraction reason must be between 1 and 2000 characters''),
      validate_effect_duration d,
      (case enforcement of None \<Rightarrow> Inr () | Some e \<Rightarrow> validate_enforcement a e)]"
| "effect_checks sz a (EffCreateRestriction i s restriction_type reason d) =
     [validate_subject a s,
      ensure (is_restriction_type restriction_type) (lit ''invalid restriction type''),
      ensure (between_1_and 2000 reason) (lit ''restriction reason must be between 1 and 2000 characters''),
      validate_effect_duration d]"
| "effect_checks sz a (EffRouteReview i queue priority codes) =
     [ensure (between_1_and 100 queue) (lit ''review queue must be between 1 and 100 characters''),
      ensure (0 \<le> sint priority \<and> sint priority \<le> 1000) (lit ''review priority is invalid''),
      validate_reason_codes codes]"
| "effect_checks sz a (EffLabelEntity i s label v) =
     [validate_subject a s,
      ensure (between_1_and 100 label) (lit ''entity label must be between 1 and 100 characters''),
      ensure_size sz v (lit ''entity label value exceeds 16 KiB'')]"
| "effect_checks sz a (EffIncrementCounter i s scope counter_type delta window_ms reset) =
     [validate_subject a s,
      ensure (scope = ac_scope a) (lit ''counter scope must match the action scope''),
      ensure (between_1_and 100 counter_type) (lit ''counter type must be between 1 and 100 characters''),
      ensure (\<bar>sint delta\<bar> \<le> 1000000) (lit ''counter delta is too large''),
      validate_effect_duration (Some window_ms)]"
| "effect_checks sz a (EffDelete i message_id channel_id codes) =
     [validate_reason_codes codes,
      ensure (sj_message_id (ac_subject a) = Some message_id)
        (lit ''delete effect message must match the action''),
      ensure (sj_channel_id (ac_subject a) = Some channel_id)
        (lit ''delete effect channel must match the action'')]"
| "effect_checks sz a (EffKick i user_id server_id codes) =
     [validate_reason_codes codes,
      ensure (sj_user_id (ac_subject a) = Some user_id) (lit ''kick effect user must match the action''),
      ensure (sj_server_id (ac_subject a) = Some server_id)
        (lit ''kick effect server must match the action'')]"

definition validate_effect_for_action :: "json_size \<Rightarrow> effect \<Rightarrow> paction \<Rightarrow> rstr + unit" where
  "validate_effect_for_action sz e a =
     checks (ensure (trim (eff_id e) \<noteq> [] \<and> byte_len (eff_id e) \<le> 128)
       (lit ''effect id must be between 1 and 128 characters'') # effect_checks sz a e)"

section \<open>What the check accepts\<close>

lemma ensure_Inr [simp]: "ensure b m = Inr u \<longleftrightarrow> b"
  by (simp add: ensure_def)

lemma checks_Inr: "checks cs = Inr u \<longleftrightarrow> list_all (\<lambda>c. c = Inr ()) cs"
  by (induction cs) auto

text \<open>
  The entities an effect names, as pairs of a kind and an id: what an accepted effect may write to.
  \<open>action_entities\<close> are those of the action.
\<close>

datatype entity = EntUser rstr | EntServer rstr | EntMessage rstr | EntChannel rstr | EntScope scope

fun subject_entity :: "subject \<Rightarrow> entity option" where
  "subject_entity s =
     (case (sj_user_id s, sj_server_id s, sj_message_id s) of
        (Some i, _, _) \<Rightarrow> Some (EntUser i)
      | (None, Some i, _) \<Rightarrow> Some (EntServer i)
      | (None, None, Some i) \<Rightarrow> Some (EntMessage i)
      | (None, None, None) \<Rightarrow> None)"

fun effect_targets :: "effect \<Rightarrow> entity option list" where
  "effect_targets (EffCreateInfraction i s t r d e) =
     subject_entity s # (case e of None \<Rightarrow> [] | Some e \<Rightarrow> [subject_entity (en_subject e)])"
| "effect_targets (EffCreateRestriction i s t r d) = [subject_entity s]"
| "effect_targets (EffLabelEntity i s l v) = [subject_entity s]"
| "effect_targets (EffIncrementCounter i s scope t d w reset) = [subject_entity s, Some (EntScope scope)]"
| "effect_targets (EffDelete i m c codes) = [Some (EntMessage m), Some (EntChannel c)]"
| "effect_targets (EffKick i u s codes) = [Some (EntUser u), Some (EntServer s)]"
| "effect_targets _ = []"

fun on_action :: "paction \<Rightarrow> entity option \<Rightarrow> bool" where
  "on_action a None = False"
| "on_action a (Some (EntUser i)) = (sj_user_id (ac_subject a) = Some i)"
| "on_action a (Some (EntServer i)) = (sj_server_id (ac_subject a) = Some i)"
| "on_action a (Some (EntMessage i)) = (sj_message_id (ac_subject a) = Some i)"
| "on_action a (Some (EntChannel i)) = (sj_channel_id (ac_subject a) = Some i)"
| "on_action a (Some (EntScope s)) = (s = ac_scope a)"

lemma subject_kinds_distinct [simp]:
  "lit ''SERVER'' \<noteq> lit ''USER''" "lit ''MESSAGE'' \<noteq> lit ''USER''" "lit ''MESSAGE'' \<noteq> lit ''SERVER''"
  "lit ''USER'' \<noteq> lit ''SERVER''" "lit ''USER'' \<noteq> lit ''MESSAGE''" "lit ''SERVER'' \<noteq> lit ''MESSAGE''"
  by (simp_all add: lit_def)

lemma validate_subject_iff: "validate_subject a s = Inr () \<longleftrightarrow> on_action a (subject_entity s)"
  by (cases "sj_user_id s"; cases "sj_server_id s"; cases "sj_message_id s")
     (simp_all add: validate_subject_def primary_subject_def)

text \<open>The sizes and ranges an accepted effect keeps, apart from the entities it names.\<close>

definition duration_ok :: "u64 option \<Rightarrow> bool" where
  "duration_ok d = (case d of None \<Rightarrow> True | Some d \<Rightarrow> 0 < unat d \<and> unat d \<le> 315360000000)"

definition codes_ok :: "rstr list \<Rightarrow> bool" where
  "codes_ok codes \<longleftrightarrow> length codes \<le> 32 \<and> list_all (between_1_and 100) codes"

definition size_ok :: "json_size \<Rightarrow> json \<Rightarrow> bool" where
  "size_ok sz v = (case sz v of Inl _ \<Rightarrow> False | Inr n \<Rightarrow> n \<le> 16384)"

fun effect_bounds :: "json_size \<Rightarrow> effect \<Rightarrow> bool" where
  "effect_bounds sz (EffAllow i codes) = codes_ok codes"
| "effect_bounds sz (EffBlock i codes p r) = codes_ok codes"
| "effect_bounds sz (EffHold i codes d) = (codes_ok codes \<and> duration_ok d)"
| "effect_bounds sz (EffCensor i spans t codes) =
     (codes_ok codes \<and> spans \<noteq> [] \<and> length spans \<le> 64
      \<and> list_all (\<lambda>s. unat (ts_start_character s) < unat (ts_end_character s)) spans \<and> byte_len t \<le> 100)"
| "effect_bounds sz (EffFlag i t severity v) =
     (between_1_and 100 t \<and> f64_le f64_0 severity \<and> f64_le severity f64_100 \<and> size_ok sz v)"
| "effect_bounds sz (EffNotify i r t v) = (between_1_and 200 r \<and> between_1_and 200 t \<and> size_ok sz v)"
| "effect_bounds sz (EffCreateInfraction i s t r d e) =
     (is_infraction_type t \<and> between_1_and 2000 r \<and> duration_ok d
      \<and> (case e of None \<Rightarrow> True | Some e \<Rightarrow> is_restriction_type (en_restriction_type e)
           \<and> between_1_and 2000 (en_reason e) \<and> duration_ok (en_duration_ms e)))"
| "effect_bounds sz (EffCreateRestriction i s t r d) =
     (is_restriction_type t \<and> between_1_and 2000 r \<and> duration_ok d)"
| "effect_bounds sz (EffRouteReview i q p codes) =
     (between_1_and 100 q \<and> sint p \<in> {0..1000} \<and> codes_ok codes)"
| "effect_bounds sz (EffLabelEntity i s l v) = (between_1_and 100 l \<and> size_ok sz v)"
| "effect_bounds sz (EffIncrementCounter i s scope t d w reset) =
     (between_1_and 100 t \<and> sint d \<in> {-1000000..1000000} \<and> duration_ok (Some w))"
| "effect_bounds sz (EffDelete i m c codes) = codes_ok codes"
| "effect_bounds sz (EffKick i u s codes) = codes_ok codes"

lemma validate_duration_iff: "validate_effect_duration d = Inr () \<longleftrightarrow> duration_ok d"
  by (simp add: validate_effect_duration_def duration_ok_def MAX_DURATION_MS_def word_less_nat_alt
      word_le_nat_alt split: option.split)

lemma validate_codes_iff: "validate_reason_codes codes = Inr () \<longleftrightarrow> codes_ok codes"
  by (simp add: validate_reason_codes_def checks_Inr codes_ok_def between_1_and_def [abs_def])

lemma ensure_size_iff: "ensure_size sz v m = Inr () \<longleftrightarrow> size_ok sz v"
  by (simp add: ensure_size_def size_ok_def split: sum.split)

lemma severity_finite: "f64_le severity f64_100 \<Longrightarrow> f64_le f64_0 severity \<Longrightarrow> f64_is_finite severity"
  by (auto simp: f64_le_def f64_is_finite_def f64_key_def f64_is_nan_def f64_negative_def
      f64_magnitude_def f64_infinite_magnitude_def f64_0_def f64_100_def
      simp del: of_nat_unat split: if_splits)

lemma validate_enforcement_iff:
  "validate_enforcement a e = Inr () \<longleftrightarrow> on_action a (subject_entity (en_subject e))
     \<and> is_restriction_type (en_restriction_type e) \<and> between_1_and 2000 (en_reason e) \<and> duration_ok (en_duration_ms e)"
  unfolding validate_enforcement_def checks_Inr list.pred_inject ensure_Inr validate_subject_iff validate_duration_iff
  by simp

lemmas check_iffs = list.pred_inject ensure_Inr validate_subject_iff validate_duration_iff
  validate_codes_iff ensure_size_iff

lemma effect_checks_iff:
  "list_all (\<lambda>c. c = Inr ()) (effect_checks sz a e) \<longleftrightarrow>
     effect_bounds sz e \<and> list_all (on_action a) (effect_targets e)"
proof (cases e)
  case (EffCreateInfraction i s t r d en)
  then show ?thesis
    by (cases en) (auto simp del: subject_entity.simps simp: check_iffs validate_enforcement_iff)
next
  case (EffFlag i t severity v)
  then show ?thesis using severity_finite by (auto simp: check_iffs)
qed (auto simp del: subject_entity.simps simp: check_iffs word_less_nat_alt)

text \<open>
  an emitted effect is accepted for an action exactly when its id and its
  fields are within their bounds and every user, server, message, channel and scope it would write
  to is that of the action itself.
\<close>

lemma effect_check_correct:
  "validate_effect_for_action sz e a = Inr () \<longleftrightarrow>
     between_1_and 128 (eff_id e) \<and> effect_bounds sz e \<and> list_all (on_action a) (effect_targets e)"
  unfolding validate_effect_for_action_def checks_Inr list.pred_inject ensure_Inr effect_checks_iff
    between_1_and_def by blast

end
