(* ===== verification/Features.thy ===== *)
theory Features
  imports PolicyModel "HOL-Library.Product_Lexorder"
begin

text \<open>
  The registry of the policy features and their resolution for an action
  (\<open>src/policy/features/mod.rs\<close>). A provider is the operations of the trait; \<open>fp_resolve a c ms\<close> is
  what it answers within \<open>ms\<close> milliseconds, \<open>None\<close> when the time runs out. The digest and the
  writing of JSON are parameters (\<open>feature_context\<close>), as are the clock readings.
\<close>

section \<open>Providers\<close>

record provider_output =
  po_value :: json
  po_cache_hit :: bool
  po_input_hash :: "rstr option"

datatype provider_error =
  PeUnavailable | PeTimeout | PeRateLimited | PeRejected | PeInvalidInput rstr | PeInternal

fun provider_error_text :: "provider_error \<Rightarrow> rstr" where
  "provider_error_text PeUnavailable = lit ''provider is unavailable''"
| "provider_error_text PeTimeout = lit ''provider timed out''"
| "provider_error_text PeRateLimited = lit ''provider rate limit reached''"
| "provider_error_text PeRejected = lit ''provider rejected the input''"
| "provider_error_text (PeInvalidInput m) = lit ''provider received invalid input: '' @ m"
| "provider_error_text PeInternal = lit ''provider failed''"

fun provider_error_code :: "provider_error \<Rightarrow> rstr \<times> bool" where
  "provider_error_code PeUnavailable = (lit ''UNAVAILABLE'', True)"
| "provider_error_code PeTimeout = (lit ''TIMEOUT'', True)"
| "provider_error_code PeRateLimited = (lit ''RATE_LIMITED'', True)"
| "provider_error_code PeRejected = (lit ''PROVIDER_REJECTED'', False)"
| "provider_error_code (PeInvalidInput m) = (lit ''INVALID_INPUT'', False)"
| "provider_error_code PeInternal = (lit ''INTERNAL'', True)"

definition failure_of :: "provider_error \<Rightarrow> feature_failure" where
  "failure_of e = (case provider_error_code e of (code, retryable) \<Rightarrow>
     \<lparr>ff_code = code, ff_safe_message = provider_error_text e, ff_retryable = retryable\<rparr>)"

datatype provider_category = CatEnrichment | CatState | CatCheck

datatype provider_cache_policy = CacheNone | CacheProviderManaged

record provider_descriptor =
  pd_name :: rstr
  pd_version :: rstr
  pd_category :: provider_category
  pd_cache :: provider_cache_policy
  pd_external :: bool

record provider_health =
  ph_name :: rstr
  ph_version :: rstr
  ph_healthy :: bool
  ph_status :: rstr
  ph_checked_at :: date_time

record feature_provider =
  fp_name :: rstr
  fp_version :: rstr
  fp_category :: provider_category
  fp_cache :: provider_cache_policy
  fp_external :: bool
  fp_resolve :: "paction \<Rightarrow> json \<Rightarrow> u64 \<Rightarrow> (provider_error + provider_output) option"
  fp_redact :: "provider_output \<Rightarrow> json"
  fp_health :: provider_health

definition provider_descriptor_of :: "feature_provider \<Rightarrow> provider_descriptor" where
  "provider_descriptor_of p =
     \<lparr>pd_name = fp_name p, pd_version = fp_version p, pd_category = fp_category p,
      pd_cache = fp_cache p, pd_external = fp_external p\<rparr>"

section \<open>Invocation keys\<close>

record feature_context =
  fx_sha256_hex :: "byte list \<Rightarrow> rstr"
  fx_to_vec :: "json \<Rightarrow> byte list"
  fx_number :: "u64 \<Rightarrow> json_number"

fun canonical_json :: "json \<Rightarrow> json" where
  "canonical_json (JObject m) =
     JObject (fold (\<lambda>e. bt_insert (fst e) (snd e)) (map (\<lambda>e. (fst e, canonical_json (snd e))) m) [])"
| "canonical_json (JArray xs) = JArray (map canonical_json xs)"
| "canonical_json v = v"

fun data_handling_name :: "data_handling_class \<Rightarrow> rstr" where
  "data_handling_name Public = lit ''PUBLIC''"
| "data_handling_name Internal = lit ''INTERNAL''"
| "data_handling_name Sensitive = lit ''SENSITIVE''"
| "data_handling_name Restricted = lit ''RESTRICTED''"

text \<open>The key: the name, then the fingerprint, ordered in this order.\<close>

type_synonym invocation_key = "rstr \<times> rstr"

definition invocation_controls :: "feature_context \<Rightarrow> feature_requirement \<Rightarrow> json" where
  "invocation_controls c r = JObject
     [(lit ''configuration'', canonical_json (fr_configuration r)),
      (lit ''deadline_ms'', JNumber (fx_number c (fr_deadline_ms r))),
      (lit ''maximum_data_handling'', JString (data_handling_name (fr_maximum_data_handling r)))]"

definition key_of_requirement :: "feature_context \<Rightarrow> feature_requirement \<Rightarrow> invocation_key" where
  "key_of_requirement c r = (fr_name r, fx_sha256_hex c (fx_to_vec c (invocation_controls c r)))"

definition trace_name :: "invocation_key \<Rightarrow> rstr option" where
  "trace_name k = map_option (\<lambda>p. fst k @ lit ''@'' @ p) (str_to (snd k) 12)"

section \<open>Resolution\<close>

record resolved_feature_value =
  rf_runtime :: feature_value
  rf_trace :: feature_value

type_synonym resolved_features = "(invocation_key, resolved_feature_value) btree_map"

text \<open>\<open>collect\<close> into a \<open>BTreeMap\<close>: of two entries with the same key the later one stays.\<close>

definition bt_collect :: "('k::linorder \<times> 'v) list \<Rightarrow> ('k, 'v) btree_map" where
  "bt_collect xs = fold (\<lambda>e. bt_insert (fst e) (snd e)) xs []"

definition runtime_snapshot ::
  "feature_context \<Rightarrow> resolved_features \<Rightarrow> feature_requirement list \<Rightarrow> feature_snapshot" where
  "runtime_snapshot c vals rs = bt_collect (List.map_filter (\<lambda>r.
     map_option (\<lambda>v. (fr_name r, rf_runtime v)) (map_of vals (key_of_requirement c r))) rs)"

definition trace_snapshot :: "resolved_features \<Rightarrow> feature_snapshot option" where
  "trace_snapshot vals = map_option bt_collect
     (map_panic (\<lambda>(k, v). map_option (\<lambda>n. (n, rf_trace v)) (trace_name k)) vals)"

type_synonym feature_registry = "(rstr, feature_provider) hash_map"

datatype registry_error = DuplicateProvider rstr

fun register_all :: "feature_provider list \<Rightarrow> feature_registry \<Rightarrow> registry_error + feature_registry" where
  "register_all [] reg = Inr reg"
| "register_all (p # ps) reg =
     (if map_of reg (fp_name p) \<noteq> None then Inl (DuplicateProvider (fp_name p))
      else register_all ps (hm_insert (fp_name p) p reg))"

definition from_providers :: "feature_provider list \<Rightarrow> registry_error + feature_registry" where
  "from_providers ps = register_all ps []"

definition register_provider :: "feature_provider \<Rightarrow> feature_registry \<Rightarrow> (registry_error + unit) \<times> feature_registry" where
  "register_provider p reg =
     (if map_of reg (fp_name p) \<noteq> None then (Inl (DuplicateProvider (fp_name p)), reg)
      else (Inr (), hm_insert (fp_name p) p reg))"

definition registry_descriptors :: "feature_registry \<Rightarrow> provider_descriptor list" where
  "registry_descriptors reg = sort_key pd_name (map (provider_descriptor_of \<circ> snd) reg)"

definition registry_health :: "feature_registry \<Rightarrow> provider_health list" where
  "registry_health reg = map (fp_health \<circ> snd) reg"

definition unique_requirements ::
  "feature_context \<Rightarrow> feature_requirement list \<Rightarrow> (invocation_key, feature_requirement) btree_map" where
  "unique_requirements c rs = fold (\<lambda>r. bt_or_insert (key_of_requirement c r) r) rs []"

definition invoke_provider ::
  "paction \<Rightarrow> feature_requirement \<Rightarrow> feature_provider option \<Rightarrow> provider_error + provider_output" where
  "invoke_provider a r provider =
     (if fr_maximum_data_handling r < ac_data_handling a then Inl PeRejected
      else case provider of
          None \<Rightarrow> Inl PeUnavailable
        | Some p \<Rightarrow> (case fp_resolve p a (fr_configuration r) (max (fr_deadline_ms r) 1) of
            None \<Rightarrow> Inl PeTimeout | Some r \<Rightarrow> r))"

definition provider_version :: "feature_provider option \<Rightarrow> rstr" where
  "provider_version p = (case p of None \<Rightarrow> lit ''unregistered'' | Some p \<Rightarrow> fp_version p)"

text \<open>\<open>None\<close> is the panic of \<open>expect\<close> on an output without a provider.\<close>

definition resolved_value ::
  "rstr \<Rightarrow> u64 \<Rightarrow> feature_provider option \<Rightarrow> provider_error + provider_output \<Rightarrow> resolved_feature_value option" where
  "resolved_value name elapsed provider result = (case result of
       Inr out \<Rightarrow> map_option (\<lambda>p.
         let runtime = \<lparr>fv_provider = name, fv_provider_version = provider_version provider,
               fv_value = Some (po_value out), fv_error = None, fv_latency_micros = elapsed,
               fv_cache_hit = po_cache_hit out, fv_input_hash = po_input_hash out\<rparr>
         in \<lparr>rf_runtime = runtime, rf_trace = runtime\<lparr>fv_value := Some (fp_redact p out)\<rparr>\<rparr>) provider
     | Inl e \<Rightarrow>
         let v = \<lparr>fv_provider = name, fv_provider_version = provider_version provider,
               fv_value = None, fv_error = Some (failure_of e), fv_latency_micros = elapsed,
               fv_cache_hit = False, fv_input_hash = None\<rparr>
         in Some \<lparr>rf_runtime = v, rf_trace = v\<rparr>)"

definition resolve_requirement ::
  "paction \<Rightarrow> (invocation_key \<Rightarrow> u64) \<Rightarrow> feature_registry \<Rightarrow> invocation_key \<times> feature_requirement
     \<Rightarrow> (invocation_key \<times> resolved_feature_value) option" where
  "resolve_requirement a elapsed reg x = (case x of (k, r) \<Rightarrow>
     let provider = map_of reg (fst k)
     in map_option (Pair k) (resolved_value (fst k) (elapsed k) provider (invoke_provider a r provider)))"

definition resolve_features ::
  "feature_context \<Rightarrow> (invocation_key \<Rightarrow> u64) \<Rightarrow> feature_registry \<Rightarrow> paction \<Rightarrow> feature_requirement list
     \<Rightarrow> resolved_features option" where
  "resolve_features c elapsed reg a rs =
     map_option bt_collect (map_panic (resolve_requirement a elapsed reg) (unique_requirements c rs))"

section \<open>Registration\<close>

lemma register_all_Inr_iff:
  "(\<exists>r. register_all ps reg = Inr r) \<longleftrightarrow> distinct (map fp_name ps) \<and> (\<forall>p \<in> set ps. map_of reg (fp_name p) = None)"
  by (induction ps arbitrary: reg) (auto simp: image_iff)

definition registry_wf :: "feature_registry \<Rightarrow> bool" where
  "registry_wf reg \<longleftrightarrow> hm_wf reg \<and> list_all (\<lambda>(n, p). n = fp_name p) reg"

lemma registry_wf_insert: "registry_wf reg \<Longrightarrow> registry_wf (hm_insert (fp_name p) p reg)"
  by (auto simp: registry_wf_def list_all_iff) (auto simp: hm_insert_def)

lemma register_all_wf: "registry_wf reg \<Longrightarrow> register_all ps reg = Inr r \<Longrightarrow> registry_wf r"
proof (induction ps arbitrary: reg)
  case (Cons p ps)
  then show ?case using registry_wf_insert [of reg p] by (simp split: if_splits)
qed simp

lemma register_all_lookup:
  "register_all ps reg = Inr r \<Longrightarrow> map_of r n =
     (case map_of reg n of Some p \<Rightarrow> Some p | None \<Rightarrow> List.find (\<lambda>p. fp_name p = n) ps)"
  by (induction ps arbitrary: reg) (auto split: if_splits option.splits)

section \<open>Collected maps\<close>

lemma bt_collect_from_wf: "bt_wf m \<Longrightarrow> bt_wf (fold (\<lambda>e. bt_insert (fst e) (snd e)) xs m)"
  by (induction xs arbitrary: m) simp_all

lemma map_of_bt_collect_from:
  "bt_wf m \<Longrightarrow> map_of (fold (\<lambda>e. bt_insert (fst e) (snd e)) xs m) = map_of m ++ map_of (rev xs)"
  by (induction xs arbitrary: m) (auto simp: fun_eq_iff map_add_def split: option.splits)

lemma bt_collect_wf [simp]: "bt_wf (bt_collect xs)"
  by (simp add: bt_collect_def bt_collect_from_wf)

lemma map_of_bt_collect: "map_of (bt_collect xs) = map_of (rev xs)"
  by (simp add: bt_collect_def map_of_bt_collect_from)

lemma map_of_rev_distinct: "distinct (map fst m) \<Longrightarrow> map_of (rev m) = map_of m"
  by (rule map_of_inject_set [THEN iffD2]) (simp_all add: rev_map [symmetric])

lemma bt_collect_id: "bt_wf m \<Longrightarrow> bt_collect m = m"
  by (rule bt_wf_eqI) (simp_all add: map_of_bt_collect map_of_rev_distinct bt_wf_distinct)

lemma bt_entry_keys: "fst ` set (bt_entry k f m) = insert k (fst ` set m)"
  using set_bt_entry_keys [of k f m] by simp

lemma set_keys_bt_collect: "set (map fst (bt_collect xs)) = set (map fst xs)"
proof -
  have "set (map fst (fold (\<lambda>e. bt_insert (fst e) (snd e)) xs m)) = set (map fst m) \<union> set (map fst xs)" for m
  proof (induction xs arbitrary: m)
    case (Cons e xs)
    then show ?case by (simp add: bt_insert_def bt_entry_keys)
  qed simp
  then show ?thesis by (simp add: bt_collect_def)
qed

section \<open>Properties of resolution\<close>

lemma unique_requirements_from_wf:
  "bt_wf m \<Longrightarrow> bt_wf (fold (\<lambda>r. bt_or_insert (key_of_requirement c r) r) rs m)"
  by (induction rs arbitrary: m) simp_all

lemma map_of_unique_from:
  "bt_wf m \<Longrightarrow> map_of (fold (\<lambda>r. bt_or_insert (key_of_requirement c r) r) rs m) k =
     (case map_of m k of Some r \<Rightarrow> Some r | None \<Rightarrow> List.find (\<lambda>r. key_of_requirement c r = k) rs)"
  by (induction rs arbitrary: m) (auto split: option.splits)

lemma unique_requirements_wf: "bt_wf (unique_requirements c rs)"
  by (simp add: unique_requirements_def unique_requirements_from_wf)

lemma map_of_unique: "map_of (unique_requirements c rs) k = List.find (\<lambda>r. key_of_requirement c r = k) rs"
  by (simp add: unique_requirements_def map_of_unique_from)

text \<open>The outcome of one invocation, with the requirement that asked for it.\<close>

definition invocation ::
  "paction \<Rightarrow> (invocation_key \<Rightarrow> u64) \<Rightarrow> feature_registry \<Rightarrow> invocation_key \<Rightarrow> feature_requirement
     \<Rightarrow> resolved_feature_value option" where
  "invocation a elapsed reg k r =
     resolved_value (fst k) (elapsed k) (map_of reg (fst k)) (invoke_provider a r (map_of reg (fst k)))"

lemma invocation_Some: "\<exists>v. invocation a elapsed reg k r = Some v"
  by (cases "map_of reg (fst k)")
     (auto simp: invocation_def resolved_value_def invoke_provider_def Let_def split: option.splits sum.splits)

lemma resolve_requirement_eq:
  "resolve_requirement a elapsed reg (k, r) = Some (k, the (invocation a elapsed reg k r))"
proof -
  obtain v where v: "invocation a elapsed reg k r = Some v" using invocation_Some by blast
  have "resolve_requirement a elapsed reg (k, r) = map_option (Pair k) (invocation a elapsed reg k r)"
    by (simp add: resolve_requirement_def invocation_def Let_def)
  then show ?thesis by (simp add: v)
qed

lemma resolve_features_eq:
  "resolve_features c elapsed reg a rs =
     Some (map (\<lambda>(k, r). (k, the (invocation a elapsed reg k r))) (unique_requirements c rs))"
proof -
  let ?f = "\<lambda>(k, r). (k, the (invocation a elapsed reg k r))"
  have "map_panic (resolve_requirement a elapsed reg) (unique_requirements c rs)
      = Some (map ?f (unique_requirements c rs))"
    by (rule map_panic_Some) (auto simp: resolve_requirement_eq)
  moreover have "bt_wf (map ?f (unique_requirements c rs))"
    using unique_requirements_wf [of c rs] by (simp add: bt_wf_def case_prod_unfold o_def)
  ultimately show ?thesis
    by (simp add: resolve_features_def bt_collect_id)
qed

lemma map_of_resolved:
  assumes "resolve_features c elapsed reg a rs = Some vals"
  shows "map_of vals k =
    map_option (\<lambda>r. the (invocation a elapsed reg k r)) (List.find (\<lambda>r. key_of_requirement c r = k) rs)"
proof -
  have "map_of (map (\<lambda>(k, r). (k, the (invocation a elapsed reg k r))) m) k
      = map_option (\<lambda>r. the (invocation a elapsed reg k r)) (map_of m k)" for m
    by (induction m) auto
  moreover have "vals = map (\<lambda>(k, r). (k, the (invocation a elapsed reg k r))) (unique_requirements c rs)"
    using assms by (simp add: resolve_features_eq)
  ultimately show ?thesis by (simp add: map_of_unique)
qed

lemma find_key_Some: "r \<in> set rs \<Longrightarrow> \<exists>r'. List.find (\<lambda>r'. key_of_requirement c r' = key_of_requirement c r) rs = Some r'"
  by (induction rs) auto

text \<open>
  resolving the requirements of an action never panics and yields exactly
  one outcome per invocation key, ordered by key. A requirement gets the outcome of the first
  requirement with its key: what the provider registered under its name answers within the
  deadline, or a failure when there is none, when it does not answer in time, or, whatever the
  provider is, when the data of the action are more sensitive than the requirement allows.
\<close>

lemma features_resolved:
  "case resolve_features c elapsed reg a rs of None \<Rightarrow> False
    | Some vals \<Rightarrow> bt_wf vals \<and> set (map fst vals) = set (map (key_of_requirement c) rs)
        \<and> list_all (\<lambda>r. map_of vals (key_of_requirement c r) =
            Option.bind (List.find (\<lambda>r'. key_of_requirement c r' = key_of_requirement c r) rs)
              (invocation a elapsed reg (key_of_requirement c r))) rs"
proof -
  obtain vals where v: "resolve_features c elapsed reg a rs = Some vals"
    by (simp add: resolve_features_eq)
  then have vs: "vals = map (\<lambda>(k, r). (k, the (invocation a elapsed reg k r))) (unique_requirements c rs)"
    by (simp add: resolve_features_eq)
  have "set (map fst (unique_requirements c rs)) = set (map (key_of_requirement c) rs)"
  proof -
    have "set (map fst (fold (\<lambda>r. bt_or_insert (key_of_requirement c r) r) rs m))
        = set (map fst m) \<union> set (map (key_of_requirement c) rs)" for m
    proof (induction rs arbitrary: m)
      case (Cons r rs)
      then show ?case by (simp add: bt_or_insert_def bt_entry_keys)
    qed simp
    then show ?thesis by (simp add: unique_requirements_def)
  qed
  moreover have "map fst vals = map fst (unique_requirements c rs)"
    by (simp add: vs case_prod_unfold)
  moreover have "map_of vals (key_of_requirement c r) =
      Option.bind (List.find (\<lambda>r'. key_of_requirement c r' = key_of_requirement c r) rs)
        (invocation a elapsed reg (key_of_requirement c r))" if "r \<in> set rs" for r
    using find_key_Some [OF that, of c] invocation_Some [of a elapsed reg "key_of_requirement c r"]
    by (force simp: map_of_resolved [OF v])
  ultimately show ?thesis
    using unique_requirements_wf [of c rs] v by (simp add: bt_wf_def list_all_iff)
qed

text \<open>The snapshot of a policy: a name has the outcome of the last requirement of that name.\<close>

lemma map_of_runtime_snapshot:
  assumes "resolve_features c elapsed reg a rs = Some vals" and "set own \<subseteq> set rs"
  shows "map_of (runtime_snapshot c vals own) n =
    Option.bind (List.find (\<lambda>r. fr_name r = n) (rev own))
      (\<lambda>r. map_option rf_runtime (map_of vals (key_of_requirement c r)))"
  using assms(2)
proof (induction own rule: rev_induct)
  case Nil
  then show ?case by (simp add: runtime_snapshot_def map_of_bt_collect map_filter_def)
next
  case (snoc r own)
  obtain r' where "List.find (\<lambda>r'. key_of_requirement c r' = key_of_requirement c r) rs = Some r'"
    using find_key_Some snoc.prems by fastforce
  then obtain v where "map_of vals (key_of_requirement c r) = Some v"
    by (simp add: map_of_resolved [OF assms(1)])
  with snoc show ?case
    by (simp add: runtime_snapshot_def map_of_bt_collect map_filter_def)
qed

lemma runtime_snapshot_lookup:
  assumes "resolve_features c elapsed reg a rs = Some vals" and "set own \<subseteq> set rs" and "r \<in> set own"
  obtains v where "map_of (runtime_snapshot c vals own) (fr_name r) = Some v"
proof -
  from assms(3) obtain r' where r': "List.find (\<lambda>s. fr_name s = fr_name r) (rev own) = Some r'"
    by (metis (mono_tags, lifting) find_None_iff option.exhaust set_rev)
  then have "r' \<in> set own" by (metis find_Some_iff nth_mem set_rev)
  then obtain r'' where "List.find (\<lambda>s. key_of_requirement c s = key_of_requirement c r') rs = Some r''"
    using find_key_Some assms(2) by blast
  then show ?thesis
    using that r' by (simp add: map_of_runtime_snapshot [OF assms(1,2)] map_of_resolved [OF assms(1)])
qed

end
