(* ===== verification/Merge.thy ===== *)
theory Merge
  imports PolicyModel "HOL-Library.Product_Lexorder"
begin

text \<open>
  The merge of the effects all policies emitted for an action (\<open>src/policy/merge.rs\<close>): one decision
  effect wins, the other decision effects and repeated effect ids are rejected with a reason, and
  the reasons of what remains are collected.
\<close>

section \<open>The merge\<close>

record merged_effects =
  me_decision :: decision
  me_accepted :: "emitted_effect list"
  me_rejected :: "rejected_effect list"
  me_reason_codes :: "rstr list"

text \<open>
  The comparison of the winner: the decision, then the scope of the lower precedence, then the
  lower priority. \<open>max_by\<close> with it is \<open>max_by_key\<close> with the key of the three.
\<close>

definition decision_key :: "decision \<times> emitted_effect \<Rightarrow> decision \<times> int \<times> int" where
  "decision_key x = (case x of (d, e) \<Rightarrow>
     (d, - int (scope_precedence (sp_scope_type (eo_scope (ee_origin e)))), - sint (eo_priority (ee_origin e))))"

definition decision_effects :: "emitted_effect list \<Rightarrow> (decision \<times> emitted_effect) list" where
  "decision_effects es = List.map_filter (\<lambda>e. map_option (\<lambda>d. (d, e)) (em_decision e)) es"

definition winning :: "emitted_effect list \<Rightarrow> rstr option" where
  "winning es = map_option (\<lambda>x. em_id (snd x)) (max_by_key decision_key (decision_effects es))"

definition final_decision :: "emitted_effect list \<Rightarrow> decision" where
  "final_decision es =
     (case Option.bind (Option.bind (winning es) (\<lambda>i. List.find (\<lambda>e. em_id e = i) es)) em_decision of
        None \<Rightarrow> DecAllow | Some d \<Rightarrow> d)"

definition duplicate_effect :: "rstr \<Rightarrow> emitted_effect \<Rightarrow> rejected_effect" where
  "duplicate_effect first_id e =
     \<lparr>re_effect = e, re_reason = lit ''duplicate effect id'', re_superseded_by = Some first_id\<rparr>"

definition superseded_effect :: "rstr option \<Rightarrow> emitted_effect \<Rightarrow> rejected_effect" where
  "superseded_effect winner e =
     \<lparr>re_effect = e, re_reason = lit ''superseded by a higher-precedence decision effect'',
      re_superseded_by = winner\<rparr>"

fun merge_effects_loop ::
  "rstr option \<Rightarrow> emitted_effect list \<Rightarrow> (rstr, rstr) hash_map
     \<Rightarrow> emitted_effect list \<Rightarrow> rejected_effect list \<Rightarrow> (rstr, unit) btree_map
     \<Rightarrow> emitted_effect list \<times> rejected_effect list \<times> (rstr, unit) btree_map" where
  "merge_effects_loop winner [] seen acc rej reasons = (acc, rej, reasons)"
| "merge_effects_loop winner (e # es) seen acc rej reasons =
     (case map_of seen (em_id e) of
        Some first_id \<Rightarrow>
          merge_effects_loop winner es seen acc (rej @ [duplicate_effect first_id e]) reasons
      | None \<Rightarrow>
          let seen' = hm_insert (em_id e) (em_id e) seen
          in if em_decision e \<noteq> None \<and> winner \<noteq> Some (em_id e)
             then merge_effects_loop winner es seen' acc (rej @ [superseded_effect winner e]) reasons
             else merge_effects_loop winner es seen' (acc @ [e]) rej
               (fold (\<lambda>r. bt_insert r ()) (eff_reason_codes (ee_effect e)) reasons))"

definition merge_effects :: "emitted_effect list \<Rightarrow> merged_effects" where
  "merge_effects es = (case merge_effects_loop (winning es) es [] [] [] [] of (acc, rej, reasons) \<Rightarrow>
     \<lparr>me_decision = final_decision es, me_accepted = acc, me_rejected = rej,
      me_reason_codes = map fst reasons\<rparr>)"

section \<open>What is accepted and what is rejected\<close>

text \<open>
  The effects that survive: an id only counts where it first occurs, and a decision effect only
  when it has the id of the winner.
\<close>

definition survives :: "rstr option \<Rightarrow> emitted_effect \<Rightarrow> bool" where
  "survives winner e \<longleftrightarrow> em_decision e = None \<or> winner = Some (em_id e)"

fun first_occurrences :: "rstr set \<Rightarrow> emitted_effect list \<Rightarrow> emitted_effect list" where
  "first_occurrences seen [] = []"
| "first_occurrences seen (e # es) =
     (if em_id e \<in> seen then first_occurrences seen es
      else e # first_occurrences (insert (em_id e) seen) es)"

lemma first_occurrences_subset: "set (first_occurrences seen es) \<subseteq> set es"
  by (induction es arbitrary: seen) (auto split: if_splits)

lemma first_occurrences_ids:
  "distinct (map em_id (first_occurrences seen es))
   \<and> set (map em_id (first_occurrences seen es)) = set (map em_id es) - seen"
  by (induction es arbitrary: seen) auto

lemma first_occurrences_distinct:
  "distinct (map em_id es) \<Longrightarrow> set (map em_id es) \<inter> seen = {} \<Longrightarrow> first_occurrences seen es = es"
  by (induction es arbitrary: seen) auto

definition collect_reasons :: "emitted_effect list \<Rightarrow> (rstr, unit) btree_map \<Rightarrow> (rstr, unit) btree_map" where
  "collect_reasons es m = fold (\<lambda>e. fold (\<lambda>r. bt_insert r ()) (eff_reason_codes (ee_effect e))) es m"

lemma merge_loop_outcome:
  "merge_effects_loop w es seen acc rej rs =
     (let kept = filter (survives w) (first_occurrences (dom (map_of seen)) es)
      in (acc @ kept, fst (snd (merge_effects_loop w es seen acc rej rs)), collect_reasons kept rs))"
proof (induction es arbitrary: seen acc rej rs)
  case Nil
  then show ?case by (simp add: collect_reasons_def)
next
  case (Cons e es)
  show ?case
  proof (cases "map_of seen (em_id e)")
    case None
    then have fresh: "em_id e \<notin> dom (map_of seen)" by blast
    define seen' where "seen' = hm_insert (em_id e) (em_id e) seen"
    have keys: "dom (map_of seen') = insert (em_id e) (dom (map_of seen))"
      by (simp add: seen'_def)
    show ?thesis
      using None fresh Cons.IH [of seen'] unfolding keys
      by (cases "survives w e")
         (simp_all add: Let_def survives_def collect_reasons_def prod_eq_iff flip: seen'_def)
  next
    case (Some f)
    then have "em_id e \<in> dom (map_of seen)" by blast
    with Some show ?thesis
      using Cons.IH [of seen acc "rej @ [duplicate_effect f e]" rs] by (simp add: Let_def prod_eq_iff)
  qed
qed

lemma merge_loop_conserves:
  assumes "merge_effects_loop w es seen acc rej rs = (acc', rej', rs')"
  shows "mset acc' + image_mset re_effect (mset rej') = mset acc + image_mset re_effect (mset rej) + mset es"
  using assms
proof (induction w es seen acc rej rs rule: merge_effects_loop.induct)
  case (1 w seen acc rej rs)
  then show ?case by simp
next
  case (2 w e es seen acc rej rs)
  then show ?case
    by (auto simp: Let_def duplicate_effect_def superseded_effect_def split: option.splits if_splits)
qed

lemma collect_reasons_wf: "bt_wf m \<Longrightarrow> bt_wf (collect_reasons es m)"
proof -
  have "bt_wf m \<Longrightarrow> bt_wf (fold (\<lambda>r. bt_insert r ()) rs m)" for rs and m :: "(rstr, unit) btree_map"
    by (induction rs arbitrary: m) simp_all
  then show "bt_wf m \<Longrightarrow> bt_wf (collect_reasons es m)"
    by (induction es arbitrary: m) (simp_all add: collect_reasons_def)
qed

lemma collect_reasons_keys:
  "set (map fst (collect_reasons es m))
     = set (map fst m) \<union> (\<Union>e \<in> set es. set (eff_reason_codes (ee_effect e)))"
proof -
  have ins: "set (map fst (fold (\<lambda>r. bt_insert r ()) rs m)) = set (map fst m) \<union> set rs"
    for rs and m :: "(rstr, unit) btree_map"
    by (induction rs arbitrary: m) (auto simp only: fold_simps o_apply bt_insert_def set_bt_entry_keys list.set Un_insert_left Un_insert_right id_apply fold.simps)
  show ?thesis
    by (induction es arbitrary: m) (auto simp only: collect_reasons_def fold.simps o_apply id_apply ins list.set UN_insert Un_assoc UN_empty Un_empty_right)
qed

lemma merge_effects_fields:
  "me_accepted (merge_effects es) = filter (survives (winning es)) (first_occurrences {} es)"
  "me_reason_codes (merge_effects es) = map fst (collect_reasons (me_accepted (merge_effects es)) [])"
  "me_decision (merge_effects es) = final_decision es"
  "mset (me_accepted (merge_effects es)) + image_mset re_effect (mset (me_rejected (merge_effects es))) = mset es"
proof -
  obtain acc rej rs where m: "merge_effects_loop (winning es) es [] [] [] [] = (acc, rej, rs)"
    by (metis prod_cases3)
  have acc: "acc = filter (survives (winning es)) (first_occurrences {} es)"
    and rs: "rs = collect_reasons acc []"
    using merge_loop_outcome [of "winning es" es "[]" "[]" "[]" "[]"] m by (simp_all add: Let_def)
  show "me_accepted (merge_effects es) = filter (survives (winning es)) (first_occurrences {} es)"
    "me_reason_codes (merge_effects es) = map fst (collect_reasons (me_accepted (merge_effects es)) [])"
    "me_decision (merge_effects es) = final_decision es"
    using m acc rs by (simp_all add: merge_effects_def)
  show "mset (me_accepted (merge_effects es)) + image_mset re_effect (mset (me_rejected (merge_effects es))) = mset es"
    using merge_loop_conserves [OF m] m by (simp add: merge_effects_def)
qed

text \<open>
  every emitted effect is either accepted or rejected, once per occurrence;
  no two accepted effects share an id; the reason codes are the sorted set of those of the
  accepted effects.
\<close>

lemma merge_conserves:
  "mset (me_accepted (merge_effects es)) + image_mset re_effect (mset (me_rejected (merge_effects es))) = mset es
   \<and> distinct (map em_id (me_accepted (merge_effects es)))
   \<and> sorted_wrt (<) (me_reason_codes (merge_effects es))
   \<and> set (me_reason_codes (merge_effects es))
       = (\<Union>e \<in> set (me_accepted (merge_effects es)). set (eff_reason_codes (ee_effect e)))"
proof (intro conjI)
  show "distinct (map em_id (me_accepted (merge_effects es)))"
    using first_occurrences_ids [of "{}" es]
    by (simp add: merge_effects_fields(1) distinct_map_filter)
  show "sorted_wrt (<) (me_reason_codes (merge_effects es))"
    using collect_reasons_wf [of "[]"] by (simp add: merge_effects_fields(2) bt_wf_def)
  show "set (me_reason_codes (merge_effects es))
      = (\<Union>e \<in> set (me_accepted (merge_effects es)). set (eff_reason_codes (ee_effect e)))"
    unfolding merge_effects_fields(2) collect_reasons_keys by simp
qed (rule merge_effects_fields(4))

section \<open>The decision\<close>

lemma decision_effects_iff: "(d, e) \<in> set (decision_effects es) \<longleftrightarrow> e \<in> set es \<and> em_decision e = Some d"
  by (induction es) (auto simp: decision_effects_def map_filter_def split: option.splits)

lemma decision_effects_Nil_iff: "decision_effects es = [] \<longleftrightarrow> list_all (\<lambda>e. em_decision e = None) es"
  by (induction es) (auto simp: decision_effects_def map_filter_def split: option.splits)

text \<open>
  \<open>decisive es w\<close>: \<open>w\<close> is a decision effect of \<open>es\<close> and no decision effect of \<open>es\<close> has a stronger
  decision; of those with the same decision none has a wider scope, and of those with the same
  scope level none has a lower priority.
\<close>

definition scope_level :: "emitted_effect \<Rightarrow> nat" where
  "scope_level e = scope_precedence (sp_scope_type (eo_scope (ee_origin e)))"

definition priority_of :: "emitted_effect \<Rightarrow> int" where
  "priority_of e = sint (eo_priority (ee_origin e))"

definition not_beaten_by :: "emitted_effect \<Rightarrow> emitted_effect \<Rightarrow> bool" where
  "not_beaten_by w e = (case (em_decision w, em_decision e) of
       (Some d, Some c) \<Rightarrow> c < d \<or> c = d \<and> (scope_level w < scope_level e
         \<or> scope_level w = scope_level e \<and> priority_of w \<le> priority_of e)
     | (_, None) \<Rightarrow> True
     | (None, Some c) \<Rightarrow> False)"

definition decisive :: "emitted_effect list \<Rightarrow> emitted_effect \<Rightarrow> bool" where
  "decisive es w \<longleftrightarrow> w \<in> set es \<and> em_decision w \<noteq> None \<and> list_all (not_beaten_by w) es"

lemma winner_decisive:
  assumes "max_by_key decision_key (decision_effects es) = Some (d, w)"
  shows "decisive es w \<and> em_decision w = Some d \<and> winning es = Some (em_id w)"
proof -
  from max_by_key_Some [OF assms] have w: "w \<in> set es" "em_decision w = Some d"
    and m: "\<And>x. x \<in> set (decision_effects es) \<Longrightarrow> decision_key x \<le> decision_key (d, w)"
    by (auto simp: decision_effects_iff)
  have "not_beaten_by w e" if "e \<in> set es" for e
  proof (cases "em_decision e")
    case None
    then show ?thesis using w by (simp add: not_beaten_by_def)
  next
    case (Some c)
    then have "decision_key (c, e) \<le> decision_key (d, w)"
      using m [of "(c, e)"] that by (simp add: decision_effects_iff)
    then show ?thesis
      using Some w by (auto simp: not_beaten_by_def decision_key_def less_eq_prod_def scope_level_def priority_of_def)
  qed
  with w assms show ?thesis by (simp add: decisive_def winning_def list_all_iff)
qed

lemma find_by_id: "distinct (map em_id es) \<Longrightarrow> w \<in> set es \<Longrightarrow> List.find (\<lambda>e. em_id e = em_id w) es = Some w"
  by (induction es) (auto simp: image_iff)

lemma final_decision_winner:
  assumes "distinct (map em_id es)" "max_by_key decision_key (decision_effects es) = Some (d, w)"
  shows "final_decision es = d"
  using winner_decisive [OF assms(2)] find_by_id [OF assms(1), of w]
  by (simp add: final_decision_def decisive_def)

text \<open>The decision effects among the accepted ones, and the decision they stand for.\<close>

definition accepted_decisions :: "emitted_effect list \<Rightarrow> emitted_effect list" where
  "accepted_decisions es = filter (\<lambda>e. em_decision e \<noteq> None) (me_accepted (merge_effects es))"

lemma filter_same_id: "distinct (map em_id es) \<Longrightarrow> w \<in> set es \<Longrightarrow> filter (\<lambda>e. em_id e = em_id w) es = [w]"
  by (induction es) (auto simp: image_iff filter_empty_conv)

lemma merge_decision_rules:
  assumes "distinct (map em_id es)"
  shows "case max_by_key decision_key (decision_effects es) of
      None \<Rightarrow> me_decision (merge_effects es) = DecAllow \<and> me_accepted (merge_effects es) = es
    | Some (d, w) \<Rightarrow> me_decision (merge_effects es) = d \<and> decisive es w \<and> em_decision w = Some d
        \<and> me_accepted (merge_effects es) = filter (\<lambda>e. em_decision e = None \<or> e = w) es"
proof (cases "max_by_key decision_key (decision_effects es)")
  case None
  then have n: "list_all (\<lambda>e. em_decision e = None) es" by (simp add: decision_effects_Nil_iff)
  have "winning es = None" using None by (simp add: winning_def)
  then have "final_decision es = DecAllow" by (simp add: final_decision_def)
  moreover have "filter (survives (winning es)) es = es"
    using n by (auto simp: survives_def list_all_iff filter_id_conv)
  ultimately show ?thesis
    using None assms by (simp add: merge_effects_fields first_occurrences_distinct)
next
  case (Some x)
  obtain d w where x: "x = (d, w)" by (cases x)
  note w = winner_decisive [OF Some [unfolded x]]
  have same: "em_id e = em_id w \<longleftrightarrow> e = w" if "e \<in> set es" for e
    using assms w that by (auto simp: decisive_def distinct_map dest: inj_onD)
  then have "filter (survives (winning es)) es = filter (\<lambda>e. em_decision e = None \<or> e = w) es"
    unfolding survives_def using w same by (intro filter_cong refl) (metis option.inject)
  then show ?thesis
    using Some x w assms final_decision_winner [OF assms Some [unfolded x]]
    by (simp add: merge_effects_fields first_occurrences_distinct)
qed

lemma merge_decision_max:
  assumes "distinct (map em_id es)"
  shows "me_decision (merge_effects es) = Max (insert DecAllow (set (List.map_filter em_decision es)))"
proof (cases "max_by_key decision_key (decision_effects es)")
  case None
  then have "List.map_filter em_decision es = []"
    by (auto simp: decision_effects_Nil_iff map_filter_def list_all_iff filter_empty_conv)
  then show ?thesis using merge_decision_rules [OF assms] None by simp
next
  case (Some x)
  obtain d w where x: "x = (d, w)" by (cases x)
  have r: "me_decision (merge_effects es) = d" "decisive es w" "em_decision w = Some d"
    using merge_decision_rules [OF assms] Some x by simp_all
  have le: "c \<le> d" if "c \<in> set (List.map_filter em_decision es)" for c
  proof -
    from that obtain e where "e \<in> set es" "em_decision e = Some c"
      by (auto simp: map_filter_def)
    with r(2,3) show ?thesis
      by (fastforce simp: decisive_def list_all_iff not_beaten_by_def split: option.splits)
  qed
  have "d \<in> set (List.map_filter em_decision es)"
    using r(2,3) by (force simp: map_filter_def decisive_def)
  with le have "Max (insert DecAllow (set (List.map_filter em_decision es))) = d"
    by (intro Max_eqI) auto
  with r(1) show ?thesis by simp
qed

text \<open>
  C19 [merge_decision]: when no id repeats, the decision is the strongest one emitted (allow when
  there is none), every effect that is not a decision is accepted, and exactly one decision effect
  is accepted: one that has this decision and that no other effect beats by decision, scope or
  priority.
\<close>

lemma merge_decision:
  assumes "distinct (map em_id es)"
  shows "me_decision (merge_effects es) = Max (insert DecAllow (set (List.map_filter em_decision es)))
    \<and> filter (\<lambda>e. em_decision e = None) (me_accepted (merge_effects es)) = filter (\<lambda>e. em_decision e = None) es
    \<and> (case accepted_decisions es of
         [] \<Rightarrow> list_all (\<lambda>e. em_decision e = None) es
       | w # ws \<Rightarrow> ws = [] \<and> decisive es w \<and> em_decision w = Some (me_decision (merge_effects es)))"
proof (cases "max_by_key decision_key (decision_effects es)")
  case None
  then have n: "list_all (\<lambda>e. em_decision e = None) es" by (simp add: decision_effects_Nil_iff)
  then have "List.map_filter em_decision es = []"
    by (auto simp: map_filter_def list_all_iff filter_empty_conv)
  with n show ?thesis
    using merge_decision_rules [OF assms] None
    by (auto simp: accepted_decisions_def list_all_iff filter_empty_conv split: list.split)
next
  case (Some x)
  obtain d w where x: "x = (d, w)" by (cases x)
  have r: "me_decision (merge_effects es) = d" "decisive es w" "em_decision w = Some d"
    "me_accepted (merge_effects es) = filter (\<lambda>e. em_decision e = None \<or> e = w) es"
    using merge_decision_rules [OF assms] Some x by simp_all
  have dist: "distinct es" using assms by (simp add: distinct_map)
  have "accepted_decisions es = filter (\<lambda>e. e = w) es"
    unfolding accepted_decisions_def r(4) filter_filter
    using r(3) by (intro filter_cong) auto
  also have "\<dots> = [w]"
    using dist r(2) by (induction es) (auto simp: decisive_def filter_empty_conv)
  finally have acc: "accepted_decisions es = [w]" .
  with r acc show ?thesis using merge_decision_max [OF assms]
    by (simp add: filter_filter conj_disj_distribR conj_commute cong: conj_cong) 
qed

section \<open>Witnesses and the shared id\<close>

definition sample_origin :: "scope_type \<Rightarrow> i32 \<Rightarrow> effect_origin" where
  "sample_origin t p = \<lparr>eo_policy_bundle_id = 1, eo_policy_version_id = 2, eo_rule_id = lit ''rule'',
     eo_scope = \<lparr>sp_scope_type = t, sp_id = lit ''h'', sp_product = None\<rparr>, eo_priority = p, eo_mandatory = False\<rparr>"

definition merge_sample :: "emitted_effect list" where
  "merge_sample =
     [\<lparr>ee_origin = sample_origin StHub 5, ee_effect = EffBlock (lit ''hub'') [lit ''B''] None None\<rparr>,
      \<lparr>ee_origin = sample_origin StHub 5, ee_effect = EffFlag (lit ''flag'') (lit ''t'') f64_50 JNull\<rparr>,
      \<lparr>ee_origin = sample_origin StPlatform 9, ee_effect = EffBlock (lit ''platform'') [lit ''A''] None None\<rparr>,
      \<lparr>ee_origin = sample_origin StPlatform 1, ee_effect = EffAllow (lit ''allow'') []\<rparr>]"

lemma merge_decision_witness:
  "me_decision (merge_effects merge_sample)
     = Max (insert DecAllow (set (List.map_filter em_decision merge_sample)))
   \<and> map em_id (me_accepted (merge_effects merge_sample)) = [lit ''flag'', lit ''platform'']"
proof
  have "distinct (map em_id merge_sample)" by code_simp
  then show "me_decision (merge_effects merge_sample)
     = Max (insert DecAllow (set (List.map_filter em_decision merge_sample)))"
    using merge_decision [of merge_sample] by blast
  show "map em_id (me_accepted (merge_effects merge_sample)) = [lit ''flag'', lit ''platform'']"
    by code_simp
qed


end
