(* ===== verification/NativeEffects.thy ===== *)
theory NativeEffects
  imports Merge
begin

text \<open>
  The effects the engine emits for the plan of the native content policies
  (\<open>content_policy_effects\<close> and its helpers in \<open>src/policy/engine.rs\<close>). The text of a UUID and the
  JSON number of an unsigned integer are parameters (\<open>text_context\<close>).
\<close>

section \<open>Names and origins\<close>

record text_context =
  tx_uuid :: "uuid \<Rightarrow> rstr"
  tx_number :: "u64 \<Rightarrow> json_number"

fun native_authority_name :: "authority \<Rightarrow> rstr" where
  "native_authority_name AuthGlobal = lit ''GLOBAL''"
| "native_authority_name AuthHub = lit ''HUB''"
| "native_authority_name AuthServer = lit ''SERVER''"

fun policy_action_name :: "policy_action_type \<Rightarrow> rstr" where
  "policy_action_name Allow = lit ''ALLOW''"
| "policy_action_name Block = lit ''BLOCK''"
| "policy_action_name CensorMatch = lit ''CENSOR_MATCH''"
| "policy_action_name StripLink = lit ''STRIP_LINK''"
| "policy_action_name SuppressLinks = lit ''SUPPRESS_LINKS''"
| "policy_action_name ReplaceName = lit ''REPLACE_NAME''"
| "policy_action_name Log = lit ''LOG''"
| "policy_action_name LobbyWarn = lit ''LOBBY_WARN''"
| "policy_action_name LobbyBan = lit ''LOBBY_BAN''"
| "policy_action_name Blacklist = lit ''BLACKLIST''"
| "policy_action_name HubWarn = lit ''HUB_WARN''"
| "policy_action_name HubMute = lit ''HUB_MUTE''"
| "policy_action_name HubBan = lit ''HUB_BAN''"

text \<open>\<open>Uuid::nil()\<close> is the UUID with all bits zero.\<close>

definition nil_uuid :: uuid where
  "nil_uuid = 0"

definition platform_scope :: scope where
  "platform_scope = \<lparr>sp_scope_type = StPlatform, sp_id = [], sp_product = None\<rparr>"

definition scope_from_native :: "policy_scope \<Rightarrow> scope" where
  "scope_from_native s = (case sc_authority s of
       AuthGlobal \<Rightarrow> platform_scope
     | AuthHub \<Rightarrow> \<lparr>sp_scope_type = StHub, sp_id = sc_id s, sp_product = Some ProdHub\<rparr>
     | AuthServer \<Rightarrow> \<lparr>sp_scope_type = StPlatform, sp_id = sc_id s, sp_product = None\<rparr>)"

definition native_emitted :: "text_context \<Rightarrow> effect_attribution \<Rightarrow> scope \<Rightarrow> effect \<Rightarrow> emitted_effect" where
  "native_emitted t at scope e =
     \<lparr>ee_origin = \<lparr>eo_policy_bundle_id = ea_policy_id at, eo_policy_version_id = nil_uuid,
        eo_rule_id = tx_uuid t (ea_rule_id at), eo_scope = scope,
        eo_priority = 2000 - of_nat (precedence (sc_authority (ea_scope at))), eo_mandatory = True\<rparr>,
      ee_effect = e\<rparr>"

section \<open>Side effects\<close>

definition representative_transformed_content :: "content_policy_plan \<Rightarrow> rstr" where
  "representative_transformed_content plan = (case plan of
       PlanCall p \<Rightarrow> (case bt_values (cp_variants p) of [] \<Rightarrow> [] | v # _ \<Rightarrow> dv_message_content v)
     | PlanHub p \<Rightarrow> (case bt_values (hp_variants p) of
          [] \<Rightarrow> []
        | first # rest \<Rightarrow>
            if list_all (\<lambda>v. dv_message_content v = dv_message_content first) rest
            then dv_message_content first else lit ''<varies by destination policy>''))"

definition content_text :: "paction \<Rightarrow> rstr" where
  "content_text a = (case Option.bind (json_get (lit ''content'') (ac_attributes a)) json_as_str of
     None \<Rightarrow> [] | Some s \<Rightarrow> s)"

definition optional_string :: "rstr option \<Rightarrow> json" where
  "optional_string s = (case s of None \<Rightarrow> JNull | Some s \<Rightarrow> JString s)"

text \<open>\<open>json!\<close> builds an object, a map in the order of its keys.\<close>

definition log_evidence ::
  "text_context \<Rightarrow> paction \<Rightarrow> side_effect_request \<Rightarrow> content_policy_plan \<Rightarrow> json" where
  "log_evidence t a e plan = (let at = se_attribution e in JObject
     [(lit ''action'', JString (policy_action_name (se_action_type e))),
      (lit ''custom_reason'', optional_string (ea_custom_reason at)),
      (lit ''original_content'', JString (content_text a)),
      (lit ''policy_id'', JString (tx_uuid t (ea_policy_id at))),
      (lit ''policy_version'', JNumber (tx_number t (ea_policy_version at))),
      (lit ''rule_id'', JString (tx_uuid t (ea_rule_id at))),
      (lit ''rule_name'', JString (ea_rule_name at)),
      (lit ''scope_authority'', JString (native_authority_name (sc_authority (ea_scope at)))),
      (lit ''scope_id'', JString (sc_id (ea_scope at))),
      (lit ''transformed_content'', JString (representative_transformed_content plan))])"

definition side_effect_id :: "text_context \<Rightarrow> paction \<Rightarrow> side_effect_request \<Rightarrow> rstr \<Rightarrow> rstr" where
  "side_effect_id t a e part =
     lit ''content-policy:'' @ tx_uuid t (ea_rule_id (se_attribution e)) @ lit '':'' @ tx_uuid t (ac_id a)
     @ lit '':'' @ part"

definition side_effect_reason :: "side_effect_request \<Rightarrow> rstr" where
  "side_effect_reason e = (case ea_custom_reason (se_attribution e) of
     Some r \<Rightarrow> r | None \<Rightarrow> lit ''Matched content policy rule '' @ ea_rule_name (se_attribution e))"

definition side_effect_duration_ms :: "side_effect_request \<Rightarrow> u64 option" where
  "side_effect_duration_ms e = Option.bind (se_duration e) (\<lambda>d. u64_checked_mul d 1000)"

definition infraction ::
  "text_context \<Rightarrow> paction \<Rightarrow> side_effect_request \<Rightarrow> rstr \<Rightarrow> rstr \<Rightarrow> rstr option \<Rightarrow> effect" where
  "infraction t a e part infraction_type restriction =
     EffCreateInfraction (side_effect_id t a e part) (ac_subject a) infraction_type
       (side_effect_reason e) (side_effect_duration_ms e)
       (map_option (\<lambda>r. \<lparr>en_subject = ac_subject a, en_restriction_type = r,
          en_reason = side_effect_reason e, en_duration_ms = side_effect_duration_ms e\<rparr>) restriction)"

definition native_side_effects ::
  "text_context \<Rightarrow> paction \<Rightarrow> side_effect_request \<Rightarrow> content_policy_plan \<Rightarrow> emitted_effect list" where
  "native_side_effects t a e plan =
     (let here = sp_scope_type (ac_scope a);
          emit = (\<lambda>scope eff. [native_emitted t (se_attribution e) scope eff])
      in case se_action_type e of
          Log \<Rightarrow> emit (ac_scope a) (EffFlag (side_effect_id t a e (lit ''log''))
                   (lit ''CONTENT_POLICY_LOG'') f64_50 (log_evidence t a e plan))
        | HubWarn \<Rightarrow> if here = StHub
            then emit (ac_scope a) (infraction t a e (lit ''hub-warning'') (lit ''WARNING'') None) else []
        | HubMute \<Rightarrow> if here = StHub
            then emit (ac_scope a) (infraction t a e (lit ''hub-mute-infraction'') (lit ''MUTE'') (Some (lit ''MUTE'')))
            else []
        | HubBan \<Rightarrow> if here = StHub
            then emit (ac_scope a) (infraction t a e (lit ''hub-ban-infraction'') (lit ''BAN'') (Some (lit ''BAN'')))
            else []
        | LobbyWarn \<Rightarrow> if here = StLobby
            then emit (ac_scope a) (infraction t a e (lit ''lobby-warning'') (lit ''WARNING'') None) else []
        | LobbyBan \<Rightarrow> if here = StLobby
            then emit (ac_scope a) (infraction t a e (lit ''lobby-ban-infraction'') (lit ''BAN'') (Some (lit ''BAN'')))
            else []
        | Blacklist \<Rightarrow>
            emit platform_scope (infraction t a e (lit ''blacklist-infraction'') (lit ''BAN'') (Some (lit ''BLACKLIST'')))
        | _ \<Rightarrow> [])"

section \<open>The effects of a plan\<close>

definition plan_blocked_by :: "content_policy_plan \<Rightarrow> effect_attribution list" where
  "plan_blocked_by plan = (case plan of
       PlanHub p \<Rightarrow> if is_blocked (rs_delivery (hp_global p)) then de_blocked_by (rs_delivery (hp_global p))
                    else de_blocked_by (rs_delivery (hp_hub p))
     | PlanCall p \<Rightarrow> de_blocked_by (rs_delivery (cp_global p)))"

definition plan_destinations :: "content_policy_plan \<Rightarrow> destination_decision list" where
  "plan_destinations plan = (case plan of PlanHub p \<Rightarrow> hp_destinations p | PlanCall p \<Rightarrow> cp_destinations p)"

definition plan_side_effects :: "content_policy_plan \<Rightarrow> side_effect_request list" where
  "plan_side_effects plan = (case plan of PlanHub p \<Rightarrow> hp_side_effects p | PlanCall p \<Rightarrow> cp_side_effects p)"

definition plan_feedback :: "content_policy_plan \<Rightarrow> sender_feedback option" where
  "plan_feedback plan = (case plan of PlanHub p \<Rightarrow> hp_sender_feedback p | PlanCall p \<Rightarrow> cp_sender_feedback p)"

definition first_of :: "'a list \<Rightarrow> 'a option" where
  "first_of xs = (case xs of [] \<Rightarrow> None | x # _ \<Rightarrow> Some x)"

definition feedback_attribution :: "content_policy_plan \<Rightarrow> effect_attribution option" where
  "feedback_attribution plan = (case first_of (plan_blocked_by plan) of
       Some at \<Rightarrow> Some at
     | None \<Rightarrow> find_map (\<lambda>d. first_of (dd_blocked_by d)) (plan_destinations plan))"

definition block_effect :: "text_context \<Rightarrow> effect_attribution \<Rightarrow> effect" where
  "block_effect t at = EffBlock (lit ''content-policy:block:'' @ tx_uuid t (ea_rule_id at))
     [lit ''CONTENT_POLICY_'' @ native_authority_name (sc_authority (ea_scope at)) @ lit ''_BLOCK'']
     (ea_custom_reason at) None"

definition server_filter_effect :: "text_context \<Rightarrow> paction \<Rightarrow> effect" where
  "server_filter_effect t a = EffAllow (lit ''content-policy:server-filter:'' @ tx_uuid t (ac_id a))
     [lit ''CONTENT_POLICY_SERVER_FILTERED'']"

definition is_server_filters :: "sender_feedback option \<Rightarrow> bool" where
  "is_server_filters f = (case f of Some (ServerFilters n) \<Rightarrow> True | _ \<Rightarrow> False)"

definition content_policy_effects :: "text_context \<Rightarrow> paction \<Rightarrow> content_policy_plan \<Rightarrow> emitted_effect list" where
  "content_policy_effects t a plan =
     (case first_of (plan_blocked_by plan) of None \<Rightarrow> []
      | Some at \<Rightarrow> [native_emitted t at (scope_from_native (ea_scope at)) (block_effect t at)])
     @ (if is_server_filters (plan_feedback plan)
        then (case feedback_attribution plan of None \<Rightarrow> []
          | Some at \<Rightarrow> [native_emitted t at (ac_scope a) (server_filter_effect t a)])
        else [])
     @ concat (map (\<lambda>e. native_side_effects t a e plan) (plan_side_effects plan))"

section \<open>The decision of a plan\<close>

lemma native_emitted_fields [simp]:
  "ee_effect (native_emitted t at s e) = e"
  by (simp add: native_emitted_def)

lemma native_side_effects_no_decision:
  "list_all (\<lambda>x. em_decision x = None) (native_side_effects t a e plan)"
  by (cases "se_action_type e") (simp_all add: native_side_effects_def Let_def infraction_def)

lemma side_effects_no_decision:
  "list_all (\<lambda>x. em_decision x = None) (concat (map (\<lambda>e. native_side_effects t a e plan) es))"
proof (induction es)
  case (Cons e es)
  then show ?case using native_side_effects_no_decision by simp
qed simp

lemma decision_effects_append: "decision_effects (xs @ ys) = decision_effects xs @ decision_effects ys"
  by (induction xs) (auto simp: decision_effects_def map_filter_def)

lemma decision_effects_plan:
  "decision_effects (content_policy_effects t a plan) =
     (case first_of (plan_blocked_by plan) of None \<Rightarrow> []
      | Some at \<Rightarrow> [(DecBlock, native_emitted t at (scope_from_native (ea_scope at)) (block_effect t at))])
     @ (if is_server_filters (plan_feedback plan)
        then (case feedback_attribution plan of None \<Rightarrow> []
          | Some at \<Rightarrow> [(DecAllow, native_emitted t at (ac_scope a) (server_filter_effect t a))])
        else [])"
  using side_effects_no_decision [of t a plan "plan_side_effects plan"]
  by (simp add: content_policy_effects_def decision_effects_append decision_effects_Nil_iff [symmetric] o_def)
     (simp add: decision_effects_def map_filter_def block_effect_def server_filter_effect_def split: option.split)

lemma content_policy_head:
  "plan_blocked_by plan = at # ats \<Longrightarrow> \<exists>es. content_policy_effects t a plan
     = native_emitted t at (scope_from_native (ea_scope at)) (block_effect t at) # es"
  by (simp add: content_policy_effects_def first_of_def)

lemma final_decision_head_block:
  assumes "es = e # rest" "em_decision e = Some DecBlock" "winning es = Some (em_id e)"
  shows "final_decision es = DecBlock"
  using assms by (simp add: final_decision_def)

lemma plan_decision_rule:
  "me_decision (merge_effects (content_policy_effects t a plan))
     = (if plan_blocked_by plan = [] then DecAllow else DecBlock)"
proof (cases "plan_blocked_by plan")
  case (Cons at ats)
  let ?es = "content_policy_effects t a plan"
  let ?b = "native_emitted t at (scope_from_native (ea_scope at)) (block_effect t at)"
  obtain es where es: "?es = ?b # es" using content_policy_head [OF Cons] by blast
  have "max_by_key decision_key (decision_effects ?es) = Some (DecBlock, ?b)"
    using Cons by (simp add: decision_effects_plan first_of_def decision_key_def less_prod_def' less_decision_def
        split: option.split)
  then have "winning ?es = Some (em_id ?b)" by (simp add: winning_def)
  then show ?thesis
    using final_decision_head_block [OF es] Cons by (simp add: merge_effects_fields block_effect_def)
next
  case Nil
  let ?es = "content_policy_effects t a plan"
  have "list_all (\<lambda>e. em_decision e \<in> {None, Some DecAllow})
      (concat (map (\<lambda>e. native_side_effects t a e plan) (plan_side_effects plan)))"
    by (rule list.pred_mono_strong [OF side_effects_no_decision]) simp
  then have "list_all (\<lambda>e. em_decision e \<in> {None, Some DecAllow}) ?es"
    unfolding content_policy_effects_def list_all_append
    using Nil by (simp add: first_of_def server_filter_effect_def split: option.split)
  then have allows: "em_decision e \<in> {None, Some DecAllow}" if "e \<in> set ?es" for e
    using that by (simp only: list_all_iff)
  have "(case Option.bind (List.find P ?es) em_decision of None \<Rightarrow> DecAllow | Some d \<Rightarrow> d) = DecAllow" for P
  proof (cases "List.find P ?es")
    case (Some e)
    then have "e \<in> set ?es" by (metis find_Some_iff nth_mem)
    from allows [OF this] Some show ?thesis by auto
  qed simp
  then have "final_decision ?es = DecAllow"
    unfolding final_decision_def by (cases "winning ?es") simp_all
  then show ?thesis using Nil by (simp add: merge_effects_fields)
qed

end
