(* ===== verification/PolicyEngine.thy ===== *)
theory PolicyEngine
  imports PolicyIr EffectCheck Features NativeEffects
begin

text \<open>
  The policy engine (\<open>src/policy/engine.rs\<close>): an action is checked against the active restrictions
  of its sender and the content policies, the remaining policies run in order, and the effects are
  merged into one result with its trace. What lies outside the source is a parameter: the texts of
  UUIDs and errors, RFC 3339, the protobuf payload, the size of JSON (\<open>engine_context\<close>), and the
  fresh ids, clock readings and the random draw of one evaluation (\<open>draw\<close>).
\<close>

section \<open>The engine\<close>

record active_policy =
  ap_bundle :: policy_bundle
  ap_version :: policy_version
  ap_shadow :: bool

record engine_context =
  en_text :: text_context
  en_features :: feature_context
  en_evaluator :: evaluator_context
  en_parse_rfc3339 :: "rstr \<Rightarrow> date_time option"
  en_decode_payload :: "byte list \<Rightarrow> rstr + prism_payload"
  en_json_size :: json_size

text \<open>
  One evaluation draws a version 4 UUID for a block, two version 7 UUIDs, the current time and a
  random bit; \<open>dr_latency n\<close> is the reading when \<open>n\<close> rules have been traced. \<open>gen_bool\<close> panics on
  a probability outside of 0 to 1.
\<close>

record draw =
  dr_block_id :: uuid
  dr_trace_id :: uuid
  dr_result_id :: uuid
  dr_created_at :: date_time
  dr_total_latency :: u64
  dr_latency :: "nat \<Rightarrow> u64"
  dr_feature_latency :: "invocation_key \<Rightarrow> u64"
  dr_gen_bool :: "f64 \<Rightarrow> bool option"

record policy_engine =
  pe_features :: feature_registry
  pe_runtimes :: "(policy_language, policy_runtime) hash_map"
  pe_content_policy :: "policy_snapshot_store option"
  pe_clean_allow_sample_rate :: f64

datatype engine_error =
  EngineRepository rstr | EnginePayload rstr | EngineEvaluation evaluation_error

definition engine_new :: "feature_registry \<Rightarrow> f64 \<Rightarrow> policy_engine" where
  "engine_new features rate =
     \<lparr>pe_features = features, pe_runtimes = [], pe_content_policy = None, pe_clean_allow_sample_rate = rate\<rparr>"

definition register_content_policy :: "policy_snapshot_store \<Rightarrow> policy_engine \<Rightarrow> policy_engine" where
  "register_content_policy st e = e\<lparr>pe_content_policy := Some st\<rparr>"

definition register_runtime :: "policy_runtime \<Rightarrow> policy_engine \<Rightarrow> policy_engine" where
  "register_runtime r e = e\<lparr>pe_runtimes := hm_insert (rn_language r) r (pe_runtimes e)\<rparr>"

section \<open>Activation and compilation\<close>

definition required_names :: "policy_version \<Rightarrow> (rstr, unit) btree_map" where
  "required_names v = bt_collect (map (\<lambda>r. (fr_name r, ())) (mf_required_features (pv_manifest v)))"

definition provider_activation_issues :: "policy_engine \<Rightarrow> policy_version \<Rightarrow> rstr list" where
  "provider_activation_issues e v =
     (let required = map fst (required_names v)
      in if required = [] then []
         else let health = registry_health (pe_features e);
                  known = map ph_name health
              in map (\<lambda>p. ph_name p @ lit '' is unhealthy'')
                   (filter (\<lambda>p. ph_name p \<in> set required \<and> \<not> ph_healthy p) health)
                 @ map (\<lambda>n. n @ lit '' is not registered'') (filter (\<lambda>n. n \<notin> set known) required))"

definition runtime_unavailable :: diagnostic where
  "runtime_unavailable = \<lparr>dg_severity = SevError, dg_code = lit ''RUNTIME_UNAVAILABLE'',
     dg_message = lit ''the requested policy runtime is not registered'', dg_line = None, dg_column = None\<rparr>"

definition validate_and_compile ::
  "policy_engine \<Rightarrow> policy_language \<Rightarrow> rstr \<Rightarrow> policy_manifest
     \<Rightarrow> runtime_error + diagnostic list \<times> compiled_artifact option" where
  "validate_and_compile e language source m =
     (case map_of (pe_runtimes e) language of
        None \<Rightarrow> Inr ([runtime_unavailable], None)
      | Some r \<Rightarrow>
          let ds = rn_validate r source m
          in if has_error ds then Inr (ds, None)
             else res_bind (rn_compile r source m) (\<lambda>artifact. Inr (ds, Some artifact)))"

definition artifact_of :: "policy_version \<Rightarrow> compiled_artifact" where
  "artifact_of v = \<lparr>ca_language = pv_language v, ca_runtime_version = pv_runtime_version v,
     ca_content_sha256 = pv_artifact_sha256 v, ca_bytes = pv_compiled_artifact v\<rparr>"

definition evaluate_policy_version ::
  "policy_engine \<Rightarrow> policy_version \<Rightarrow> paction \<Rightarrow> feature_snapshot \<Rightarrow> runtime_error + runtime_evaluation list" where
  "evaluate_policy_version e v a features =
     (case map_of (pe_runtimes e) (pv_language v) of
        None \<Rightarrow> Inl (RtWorker (lit ''runtime is not registered''))
      | Some r \<Rightarrow> rn_evaluate r (artifact_of v) a features)"

section \<open>Content policies\<close>

definition attribute_text :: "paction \<Rightarrow> rstr \<Rightarrow> rstr" where
  "attribute_text a name =
     (case Option.bind (json_get name (ac_attributes a)) json_as_str of None \<Rightarrow> [] | Some s \<Rightarrow> s)"

definition presentation_from_action :: "paction \<Rightarrow> presentation" where
  "presentation_from_action a =
     \<lparr>pn_message_content = attribute_text a (lit ''content''),
      pn_display_name = attribute_text a (lit ''display_name''),
      pn_username = attribute_text a (lit ''username''),
      pn_server_name = attribute_text a (lit ''server_name''),
      pn_hub_name = attribute_text a (lit ''hub_name''), pn_url_spans = []\<rparr>"

definition is_hub_message :: "paction \<Rightarrow> bool" where
  "is_hub_message a \<longleftrightarrow> prefix (lit ''hub.message.'') (ac_action_type a)"

definition is_lobby_message :: "paction \<Rightarrow> bool" where
  "is_lobby_message a \<longleftrightarrow> prefix (lit ''lobby.message.'') (ac_action_type a)"

definition action_destinations :: "engine_context \<Rightarrow> paction \<Rightarrow> rstr + destination list" where
  "action_destinations c a = (case ac_prism_payload a of
       None \<Rightarrow> Inr []
     | Some payload \<Rightarrow> res_bind (en_decode_payload c payload) (\<lambda>decoded. Inr
         (map (\<lambda>(i, t). \<lparr>dt_target_index = i, dt_server_id = (case pt_guild_id t of None \<Rightarrow> [] | Some g \<Rightarrow> g)\<rparr>)
            (enumerate 0 (pj_targets decoded)))))"

text \<open>The result and the gate of the side effects; \<open>None\<close> is a panic.\<close>

definition evaluate_content_policy ::
  "engine_context \<Rightarrow> policy_engine \<Rightarrow> paction \<Rightarrow> gate
     \<Rightarrow> ((engine_error + content_policy_plan option) \<times> gate) option" where
  "evaluate_content_policy c e a gate = (case pe_content_policy e of
       None \<Rightarrow> Some (Inr None, gate)
     | Some st \<Rightarrow>
       if (\<not> is_hub_message a \<and> \<not> is_lobby_message a)
          \<or> Option.bind (json_get (lit ''content'') (ac_attributes a)) json_as_str = None
       then Some (Inr None, gate)
       else
         let presentation = presentation_from_action a;
             subject = (case sj_user_id (ac_subject a) of None \<Rightarrow> lit ''anonymous'' | Some i \<Rightarrow> i)
         in Option.bind (analyzed_content_new (ec_unicode (en_evaluator c)) presentation) (\<lambda>analyzed.
           case action_destinations c a of
             Inl m \<Rightarrow> Some (Inl (EnginePayload m), gate)
           | Inr ds \<Rightarrow>
             if is_lobby_message a
             then map_option (\<lambda>(r, g). (map_err EngineEvaluation (res_bind r (\<lambda>p. Inr (Some (PlanCall p)))), g))
               (evaluate_call_for_destinations (en_evaluator c) st subject presentation analyzed ds gate)
             else map_option (\<lambda>(r, g). (map_err EngineEvaluation (res_bind r (\<lambda>p. Inr (Some (PlanHub p)))), g))
               (evaluate_hub (en_evaluator c) st subject (sp_id (ac_scope a)) presentation analyzed ds gate)))"

section \<open>Active restrictions\<close>

definition RESTRICTIONS_ACTIVE :: rstr where
  "RESTRICTIONS_ACTIVE = lit ''restrictions.active''"

definition restriction_requirement :: "paction \<Rightarrow> feature_requirement" where
  "restriction_requirement a =
     \<lparr>fr_name = RESTRICTIONS_ACTIVE, fr_error_behavior = EbHold, fr_deadline_ms = 500,
      fr_maximum_data_handling = ac_data_handling a, fr_configuration = JNull\<rparr>"

definition field_str :: "rstr \<Rightarrow> json \<Rightarrow> rstr option" where
  "field_str k v = Option.bind (json_get k v) json_as_str"

text \<open>A field of the entry, or else a field of its scope.\<close>

definition scope_field :: "json \<Rightarrow> rstr \<Rightarrow> rstr \<Rightarrow> rstr option" where
  "scope_field entry name nested =
     Option.bind (case json_get name entry of
         Some v \<Rightarrow> Some v
       | None \<Rightarrow> Option.bind (json_get (lit ''scope'') entry) (json_get nested)) json_as_str"

definition scope_type_of_name :: "rstr \<Rightarrow> scope_type" where
  "scope_type_of_name s =
     (if s = lit ''HUB'' then StHub else if s = lit ''LOBBY'' then StLobby
      else if s = lit ''PRODUCT'' then StProduct
      else if s = lit ''INCIDENT_OVERLAY'' then StIncidentOverlay else StPlatform)"

definition product_of_name :: "rstr \<Rightarrow> product option" where
  "product_of_name s =
     (if s = lit ''HUB'' then Some ProdHub else if s = lit ''LOBBY'' then Some ProdLobby else None)"

fun product_of_scope :: "scope_type \<Rightarrow> product option" where
  "product_of_scope StHub = Some ProdHub"
| "product_of_scope StLobby = Some ProdLobby"
| "product_of_scope _ = None"

definition restriction_of_entry ::
  "(rstr \<Rightarrow> date_time option) \<Rightarrow> json \<Rightarrow> rstr + active_restriction option" where
  "restriction_of_entry parse entry =
     (if json_as_object entry = None then Inl (lit ''active restriction entry is malformed'')
      else case field_str (lit ''restriction_type'') entry of
          None \<Rightarrow> Inl (lit ''active restriction type is missing'')
        | Some t \<Rightarrow>
          if t \<notin> {lit ''BAN'', lit ''MUTE'', lit ''BLACKLIST''} then Inr None
          else
            let st = scope_type_of_name (case scope_field entry (lit ''scope_type'') (lit ''type'') of
                       None \<Rightarrow> lit ''PLATFORM'' | Some s \<Rightarrow> s)
            in Inr (Some
              \<lparr>ar_id = (case field_str (lit ''id'') entry of None \<Rightarrow> [] | Some i \<Rightarrow> i),
               ar_restriction_type = t,
               ar_scope = \<lparr>sp_scope_type = st,
                 sp_id = (case scope_field entry (lit ''scope_id'') (lit ''id'') of None \<Rightarrow> [] | Some i \<Rightarrow> i),
                 sp_product = (case Option.bind (field_str (lit ''scope_product'') entry) product_of_name of
                     Some p \<Rightarrow> Some p | None \<Rightarrow> product_of_scope st)\<rparr>,
               ar_public_reason = field_str (lit ''public_reason'') entry,
               ar_expires_at = Option.bind (field_str (lit ''expires_at'') entry) parse\<rparr>))"

definition restriction_type_rank :: "rstr \<Rightarrow> nat" where
  "restriction_type_rank t =
     (if t = lit ''BLACKLIST'' then 0 else if t = lit ''BAN'' then 1 else if t = lit ''MUTE'' then 2 else 3)"

definition restriction_key :: "active_restriction \<Rightarrow> nat \<times> nat \<times> rstr" where
  "restriction_key r = (restriction_type_rank (ar_restriction_type r),
     scope_precedence (sp_scope_type (ar_scope r)), ar_id r)"

definition strongest_restriction ::
  "(rstr \<Rightarrow> date_time option) \<Rightarrow> json list \<Rightarrow> rstr + active_restriction option" where
  "strongest_restriction parse entries =
     res_bind (try_map (restriction_of_entry parse) entries)
       (\<lambda>rs. Inr (min_by_key restriction_key (List.map_filter id rs)))"

definition active_restriction_from_snapshot ::
  "(rstr \<Rightarrow> date_time option) \<Rightarrow> feature_snapshot \<Rightarrow> rstr + active_restriction option" where
  "active_restriction_from_snapshot parse snapshot =
     (case Option.bind (Option.bind (map_of snapshot RESTRICTIONS_ACTIVE) fv_value) json_as_array of
        None \<Rightarrow> Inl (lit ''active restriction feature is malformed'')
      | Some entries \<Rightarrow> strongest_restriction parse entries)"

definition builtin_origin :: "paction \<Rightarrow> i32 \<Rightarrow> effect_origin" where
  "builtin_origin a priority =
     \<lparr>eo_policy_bundle_id = nil_uuid, eo_policy_version_id = nil_uuid,
      eo_rule_id = lit ''builtin.moderation'', eo_scope = ac_scope a, eo_priority = priority, eo_mandatory = True\<rparr>"

definition restriction_hold :: "text_context \<Rightarrow> paction \<Rightarrow> emitted_effect" where
  "restriction_hold t a = \<lparr>ee_origin = builtin_origin a 1001,
     ee_effect = EffHold (tx_uuid t (ac_id a) @ lit '':restrictions-active'')
       [lit ''ACTIVE_RESTRICTIONS_UNAVAILABLE''] None\<rparr>"

definition restriction_block :: "text_context \<Rightarrow> paction \<Rightarrow> uuid \<Rightarrow> active_restriction \<Rightarrow> emitted_effect" where
  "restriction_block t a fresh r = \<lparr>ee_origin = builtin_origin a 1000,
     ee_effect = EffBlock (tx_uuid t fresh) [lit ''ACTIVE_'' @ ar_restriction_type r]
       (ar_public_reason r) (Some r)\<rparr>"

text \<open>What the lookup of the active restrictions of a message yields.\<close>

datatype restriction_state = RestrictionsClear | RestrictionsUnavailable | RestrictionActive active_restriction

definition restriction_state_of ::
  "engine_context \<Rightarrow> paction \<Rightarrow> resolved_features \<Rightarrow> restriction_state" where
  "restriction_state_of c a resolved =
     (let snapshot = runtime_snapshot (en_features c) resolved [restriction_requirement a]
      in case map_of snapshot RESTRICTIONS_ACTIVE of
          None \<Rightarrow> RestrictionsUnavailable
        | Some f \<Rightarrow>
            if fv_error f \<noteq> None then RestrictionsUnavailable
            else (case active_restriction_from_snapshot (en_parse_rfc3339 c) snapshot of
                Inl e \<Rightarrow> RestrictionsUnavailable
              | Inr None \<Rightarrow> RestrictionsClear
              | Inr (Some r) \<Rightarrow> RestrictionActive r))"

section \<open>Running the policies\<close>

definition policy_origin :: "active_policy \<Rightarrow> rstr \<Rightarrow> effect_origin" where
  "policy_origin p rule =
     \<lparr>eo_policy_bundle_id = pb_id (ap_bundle p), eo_policy_version_id = pv_id (ap_version p),
      eo_rule_id = rule, eo_scope = pb_scope (ap_bundle p), eo_priority = pb_priority (ap_bundle p),
      eo_mandatory = pb_mandatory (ap_bundle p)\<rparr>"

definition fallback_effects :: "text_context \<Rightarrow> uuid \<Rightarrow> rstr \<Rightarrow> error_behavior \<Rightarrow> effect list" where
  "fallback_effects t version part behavior =
     (let p = tx_uuid t version @ lit '':'' @ part
      in case behavior of
          EbHold \<Rightarrow> [EffHold (p @ lit '':hold'') [lit ''POLICY_DEPENDENCY_UNAVAILABLE''] None]
        | EbReview \<Rightarrow>
            [EffHold (p @ lit '':hold'') [lit ''POLICY_REVIEW_REQUIRED''] None,
             EffRouteReview (p @ lit '':review'') (lit ''policy-errors'') 0 [lit ''POLICY_REVIEW_REQUIRED'']]
        | EbContinue \<Rightarrow> [])"

definition emitted_by :: "active_policy \<Rightarrow> rstr \<Rightarrow> effect list \<Rightarrow> emitted_effect list" where
  "emitted_by p rule es = map (\<lambda>e. \<lparr>ee_origin = policy_origin p rule, ee_effect = e\<rparr>) es"

record run_state =
  ru_emitted :: "emitted_effect list"
  ru_traces :: "rule_trace list"
  ru_versions :: "uuid list"
  ru_terminal_block :: bool
  ru_terminal_hold :: bool
  ru_had_error :: bool

definition skipped_trace :: "active_policy \<Rightarrow> rstr \<Rightarrow> rule_trace" where
  "skipped_trace p reason =
     \<lparr>rt_policy_version_id = pv_id (ap_version p), rt_rule_id = lit ''*'', rt_skipped = True,
      rt_skip_reason = Some reason, rt_conditions = [], rt_emitted_effects = [], rt_error = None,
      rt_latency_micros = 0\<rparr>"

definition ran_trace ::
  "draw \<Rightarrow> active_policy \<Rightarrow> run_state \<Rightarrow> rstr \<Rightarrow> condition_trace list \<Rightarrow> emitted_effect list \<Rightarrow> rstr option \<Rightarrow> rule_trace" where
  "ran_trace d p s rule conditions effects err =
     \<lparr>rt_policy_version_id = pv_id (ap_version p), rt_rule_id = rule, rt_skipped = False,
      rt_skip_reason = None, rt_conditions = conditions, rt_emitted_effects = effects, rt_error = err,
      rt_latency_micros = dr_latency d (length (ru_traces s))\<rparr>"

definition push_skip :: "active_policy \<Rightarrow> rstr \<Rightarrow> run_state \<Rightarrow> run_state" where
  "push_skip p reason s = s\<lparr>ru_traces := ru_traces s @ [skipped_trace p reason]\<rparr>"

text \<open>The effects of one traced rule join the emitted ones.\<close>

definition push_rule ::
  "draw \<Rightarrow> active_policy \<Rightarrow> rstr \<Rightarrow> condition_trace list \<Rightarrow> emitted_effect list \<Rightarrow> rstr option \<Rightarrow> run_state \<Rightarrow> run_state" where
  "push_rule d p rule conditions effects err s =
     s\<lparr>ru_emitted := ru_emitted s @ effects,
       ru_traces := ru_traces s @ [ran_trace d p s rule conditions effects err],
       ru_had_error := (ru_had_error s \<or> err \<noteq> None)\<rparr>"

definition is_block :: "effect \<Rightarrow> bool" where
  "is_block e = (case e of EffBlock i r p a \<Rightarrow> True | _ \<Rightarrow> False)"

definition is_route_review :: "effect \<Rightarrow> bool" where
  "is_route_review e = (case e of EffRouteReview i q p r \<Rightarrow> True | _ \<Rightarrow> False)"

definition first_invalid :: "engine_context \<Rightarrow> paction \<Rightarrow> effect list \<Rightarrow> rstr option" where
  "first_invalid c a es = find_map (\<lambda>e. case validate_effect_for_action (en_json_size c) e a of
     Inl m \<Rightarrow> Some m | Inr u \<Rightarrow> None) es"

definition run_evaluation ::
  "engine_context \<Rightarrow> draw \<Rightarrow> paction \<Rightarrow> active_policy \<Rightarrow> runtime_evaluation \<Rightarrow> run_state \<Rightarrow> run_state" where
  "run_evaluation c d a p ev s = (case first_invalid c a (ev_effects ev) of
       Some m \<Rightarrow>
         push_rule d p (ev_rule_id ev) (ev_conditions ev)
           (emitted_by p (ev_rule_id ev) (fallback_effects (en_text c) (pv_id (ap_version p)) (lit ''malformed_effect'')
              (mf_runtime_error_behavior (pv_manifest (ap_version p)))))
           (Some (lit ''malformed policy effect: '' @ m)) s
     | None \<Rightarrow>
         let has_global_block = sp_scope_type (pb_scope (ap_bundle p)) = StPlatform
               \<and> pb_mandatory (ap_bundle p) \<and> list_ex is_block (ev_effects ev);
             s' = push_rule d p (ev_rule_id ev) (ev_conditions ev)
               (emitted_by p (ev_rule_id ev) (ev_effects ev)) None s
         in s'\<lparr>ru_terminal_block := (ru_terminal_block s' \<or> has_global_block)\<rparr>)"

definition failed_requirement :: "feature_requirement list \<Rightarrow> feature_snapshot \<Rightarrow> feature_requirement option" where
  "failed_requirement rs features = List.find (\<lambda>r. case map_of features (fr_name r) of
     None \<Rightarrow> False | Some v \<Rightarrow> fv_error v \<noteq> None) rs"

definition push_fallback ::
  "engine_context \<Rightarrow> draw \<Rightarrow> active_policy \<Rightarrow> rstr \<Rightarrow> rstr \<Rightarrow> error_behavior \<Rightarrow> rstr \<Rightarrow> run_state \<Rightarrow> run_state" where
  "push_fallback c d p rule part behavior err s =
     push_rule d p rule [] (emitted_by p rule (fallback_effects (en_text c) (pv_id (ap_version p)) part behavior))
       (Some err) s"

definition run_policy ::
  "engine_context \<Rightarrow> draw \<Rightarrow> policy_engine \<Rightarrow> bool \<Rightarrow> paction \<Rightarrow> resolved_features \<Rightarrow> active_policy \<Rightarrow> run_state \<Rightarrow> run_state" where
  "run_policy c d e shadow_only a resolved p s =
     (if ap_shadow p \<noteq> shadow_only then s
      else
        let s = s\<lparr>ru_versions := ru_versions s @ [pv_id (ap_version p)]\<rparr>;
            m = pv_manifest (ap_version p)
        in if ru_terminal_block s then push_skip p (lit ''terminal global mandatory block'') s
        else if ru_terminal_hold s then push_skip p (lit ''active restriction state unavailable'') s
        else if \<not> manifest_accepts m a then push_skip p (lit ''action type or schema version not accepted'') s
        else
          let features = runtime_snapshot (en_features c) resolved (mf_required_features m)
          in case failed_requirement (mf_required_features m) features of
              Some r \<Rightarrow> push_fallback c d p (lit ''feature.error'') (fr_name r) (fr_error_behavior r)
                (lit ''required feature '' @ fr_name r @ lit '' failed'') s
            | None \<Rightarrow>
              (case map_of (pe_runtimes e) (pv_language (ap_version p)) of
                 None \<Rightarrow> push_fallback c d p (lit ''runtime.error'') (lit ''runtime.unregistered'')
                   (mf_runtime_error_behavior m) (lit ''runtime is not registered'') s
               | Some rn \<Rightarrow>
                 (case rn_evaluate rn (artifact_of (ap_version p)) a features of
                    Inr evs \<Rightarrow> fold (run_evaluation c d a p) evs s
                  | Inl err \<Rightarrow> push_fallback c d p (lit ''runtime.error'') (lit ''runtime.error'')
                      (mf_runtime_error_behavior m) (runtime_error_text err) s)))"

section \<open>The evaluation of an action\<close>

definition evaluation_requirements ::
  "bool \<Rightarrow> paction \<Rightarrow> active_policy list \<Rightarrow> feature_requirement list" where
  "evaluation_requirements shadow_only a ps =
     concat (map (\<lambda>p. mf_required_features (pv_manifest (ap_version p)))
       (filter (\<lambda>p. manifest_accepts (pv_manifest (ap_version p)) a) (filter (\<lambda>p. ap_shadow p = shadow_only) ps)))
     @ (if is_hub_message a \<or> is_lobby_message a then [restriction_requirement a] else [])"

definition initial_state ::
  "engine_context \<Rightarrow> draw \<Rightarrow> paction \<Rightarrow> restriction_state \<Rightarrow> content_policy_plan option \<Rightarrow> run_state" where
  "initial_state c d a st plan =
     \<lparr>ru_emitted = (case st of
          RestrictionsUnavailable \<Rightarrow> [restriction_hold (en_text c) a]
        | RestrictionActive r \<Rightarrow> [restriction_block (en_text c) a (dr_block_id d) r]
        | RestrictionsClear \<Rightarrow> (case plan of None \<Rightarrow> [] | Some plan \<Rightarrow> content_policy_effects (en_text c) a plan)),
      ru_traces = [], ru_versions = [],
      ru_terminal_block = (case st of RestrictionActive r \<Rightarrow> True | _ \<Rightarrow> False),
      ru_terminal_hold = (st = RestrictionsUnavailable), ru_had_error = (st = RestrictionsUnavailable)\<rparr>"

definition f64_1 :: f64 where
  "f64_1 = 0x3FF0000000000000"

definition clamp_rate :: "f64 \<Rightarrow> f64" where
  "clamp_rate x = (if f64_lt x f64_0 then f64_0 else if f64_lt f64_1 x then f64_1 else x)"

definition sampled :: "draw \<Rightarrow> f64 \<Rightarrow> bool \<Rightarrow> merged_effects \<Rightarrow> bool option" where
  "sampled d rate had_error m =
     (if had_error \<or> list_ex (\<lambda>x. is_route_review (ee_effect x)) (me_accepted m)
        \<or> me_decision m = DecBlock \<or> me_decision m = DecHold
      then Some True else dr_gen_bool d (clamp_rate rate))"

definition result_of ::
  "draw \<Rightarrow> paction \<Rightarrow> bool \<Rightarrow> content_policy_plan option \<Rightarrow> feature_snapshot \<Rightarrow> run_state \<Rightarrow> bool \<Rightarrow> evaluation_result" where
  "result_of d a shadow_only plan features s smp =
     (let m = merge_effects (ru_emitted s)
      in \<lparr>er_id = dr_result_id d, er_action_id = ac_id a, er_decision = me_decision m,
          er_reason_codes = me_reason_codes m, er_accepted_effects = me_accepted m,
          er_rejected_effects = me_rejected m,
          er_trace = \<lparr>xt_id = dr_trace_id d, xt_action_id = ac_id a,
            xt_action_schema_version = ac_schema_version a, xt_policy_versions = ru_versions s,
            xt_features = features, xt_rules = ru_traces s, xt_accepted_effect_ids = map em_id (me_accepted m),
            xt_rejected_effects = me_rejected m, xt_final_decision = me_decision m,
            xt_reason_codes = me_reason_codes m, xt_total_latency_micros = dr_total_latency d,
            xt_created_at = dr_created_at d, xt_sampled = smp\<rparr>,
          er_shadow = shadow_only, er_content_policy = plan\<rparr>)"

text \<open>
  \<open>evaluate_policies\<close> is the evaluation once the content policies have been consulted and the
  policies are loaded.
\<close>

definition evaluate_policies ::
  "engine_context \<Rightarrow> draw \<Rightarrow> policy_engine \<Rightarrow> bool \<Rightarrow> paction \<Rightarrow> content_policy_plan option \<Rightarrow> active_policy list
     \<Rightarrow> evaluation_result option" where
  "evaluate_policies c d e shadow_only a plan ps =
     Option.bind (resolve_features (en_features c) (dr_feature_latency d) (pe_features e) a
       (evaluation_requirements shadow_only a ps)) (\<lambda>resolved.
       let st = (if is_hub_message a \<or> is_lobby_message a then restriction_state_of c a resolved
                 else RestrictionsClear);
           s = fold (run_policy c d e shadow_only a resolved) ps (initial_state c d a st plan)
       in Option.bind (sampled d (pe_clean_allow_sample_rate e) (ru_had_error s) (merge_effects (ru_emitted s))) (\<lambda>smp.
          Option.bind (trace_snapshot resolved) (\<lambda>features.
            Some (result_of d a shadow_only plan features s smp))))"

definition evaluate_result ::
  "engine_context \<Rightarrow> draw \<Rightarrow> policy_engine \<Rightarrow> (paction \<Rightarrow> rstr + active_policy list) \<Rightarrow> paction \<Rightarrow> bool \<Rightarrow> gate
     \<Rightarrow> ((engine_error + evaluation_result) \<times> gate) option" where
  "evaluate_result c d e active_policies a shadow_only gate =
     Option.bind (if shadow_only then Some (Inr None, gate) else evaluate_content_policy c e a gate) (\<lambda>(r, gate').
       case r of
         Inl err \<Rightarrow> Some (Inl err, gate')
       | Inr plan \<Rightarrow>
         (case (if plan \<noteq> None then Inr [] else map_err EngineRepository (active_policies a)) of
            Inl err \<Rightarrow> Some (Inl err, gate')
          | Inr ps \<Rightarrow> map_option (\<lambda>r. (Inr r, gate')) (evaluate_policies c d e shadow_only a plan ps)))"

section \<open>The effects of the policies\<close>

text \<open>
  What one policy contributes does not depend on the policies before it: the effects of its rules,
  or the effects its manifest asks for when a feature, the runtime or an effect fails.
\<close>

definition evaluation_effects ::
  "engine_context \<Rightarrow> paction \<Rightarrow> active_policy \<Rightarrow> runtime_evaluation \<Rightarrow> emitted_effect list" where
  "evaluation_effects c a p ev = emitted_by p (ev_rule_id ev)
     (if first_invalid c a (ev_effects ev) = None then ev_effects ev
      else fallback_effects (en_text c) (pv_id (ap_version p)) (lit ''malformed_effect'')
             (mf_runtime_error_behavior (pv_manifest (ap_version p))))"

definition evaluation_stops :: "engine_context \<Rightarrow> paction \<Rightarrow> active_policy \<Rightarrow> runtime_evaluation \<Rightarrow> bool" where
  "evaluation_stops c a p ev \<longleftrightarrow> first_invalid c a (ev_effects ev) = None
     \<and> sp_scope_type (pb_scope (ap_bundle p)) = StPlatform \<and> pb_mandatory (ap_bundle p) \<and> list_ex is_block (ev_effects ev)"

datatype policy_run = RunRefused | RunFailed rstr rstr error_behavior | RunEvaluated "runtime_evaluation list"

definition policy_run_of ::
  "engine_context \<Rightarrow> policy_engine \<Rightarrow> paction \<Rightarrow> resolved_features \<Rightarrow> active_policy \<Rightarrow> policy_run" where
  "policy_run_of c e a resolved p =
     (let m = pv_manifest (ap_version p);
          features = runtime_snapshot (en_features c) resolved (mf_required_features m)
      in if \<not> manifest_accepts m a then RunRefused
         else case failed_requirement (mf_required_features m) features of
             Some r \<Rightarrow> RunFailed (lit ''feature.error'') (fr_name r) (fr_error_behavior r)
           | None \<Rightarrow> (case map_of (pe_runtimes e) (pv_language (ap_version p)) of
               None \<Rightarrow> RunFailed (lit ''runtime.error'') (lit ''runtime.unregistered'') (mf_runtime_error_behavior m)
             | Some rn \<Rightarrow> (case rn_evaluate rn (artifact_of (ap_version p)) a features of
                 Inl err \<Rightarrow> RunFailed (lit ''runtime.error'') (lit ''runtime.error'') (mf_runtime_error_behavior m)
               | Inr evs \<Rightarrow> RunEvaluated evs)))"

definition policy_effects ::
  "engine_context \<Rightarrow> policy_engine \<Rightarrow> paction \<Rightarrow> resolved_features \<Rightarrow> active_policy \<Rightarrow> emitted_effect list" where
  "policy_effects c e a resolved p = (case policy_run_of c e a resolved p of
       RunRefused \<Rightarrow> []
     | RunFailed rule part behavior \<Rightarrow>
         emitted_by p rule (fallback_effects (en_text c) (pv_id (ap_version p)) part behavior)
     | RunEvaluated evs \<Rightarrow> concat (map (evaluation_effects c a p) evs))"

definition policy_stops ::
  "engine_context \<Rightarrow> policy_engine \<Rightarrow> paction \<Rightarrow> resolved_features \<Rightarrow> active_policy \<Rightarrow> bool" where
  "policy_stops c e a resolved p = (case policy_run_of c e a resolved p of
       RunEvaluated evs \<Rightarrow> list_ex (evaluation_stops c a p) evs | _ \<Rightarrow> False)"

lemma run_evaluations:
  "ru_emitted (fold (run_evaluation c d a p) evs s) = ru_emitted s @ concat (map (evaluation_effects c a p) evs)
   \<and> ru_versions (fold (run_evaluation c d a p) evs s) = ru_versions s
   \<and> ru_terminal_hold (fold (run_evaluation c d a p) evs s) = ru_terminal_hold s
   \<and> ru_terminal_block (fold (run_evaluation c d a p) evs s)
       = (ru_terminal_block s \<or> list_ex (evaluation_stops c a p) evs)
   \<and> map rt_policy_version_id (ru_traces (fold (run_evaluation c d a p) evs s))
       = map rt_policy_version_id (ru_traces s) @ replicate (length evs) (pv_id (ap_version p))"
proof (induction evs arbitrary: s)
  case (Cons ev evs)
  have "ru_emitted (run_evaluation c d a p ev s) = ru_emitted s @ evaluation_effects c a p ev
    \<and> ru_versions (run_evaluation c d a p ev s) = ru_versions s
    \<and> ru_terminal_hold (run_evaluation c d a p ev s) = ru_terminal_hold s
    \<and> ru_terminal_block (run_evaluation c d a p ev s) = (ru_terminal_block s \<or> evaluation_stops c a p ev)
    \<and> map rt_policy_version_id (ru_traces (run_evaluation c d a p ev s))
       = map rt_policy_version_id (ru_traces s) @ [pv_id (ap_version p)]"
    by (simp add: run_evaluation_def push_rule_def ran_trace_def evaluation_effects_def evaluation_stops_def Let_def
        split: option.split)
  then show ?case using Cons.IH [of "run_evaluation c d a p ev s"] by simp
qed simp

text \<open>One policy of the selected kind, when nothing before it was terminal, and when something was.\<close>

lemma run_policy_open:
  assumes "ap_shadow p = shadow_only" "\<not> ru_terminal_block s" "\<not> ru_terminal_hold s"
  shows "ru_emitted (run_policy c d e shadow_only a resolved p s) = ru_emitted s @ policy_effects c e a resolved p
    \<and> ru_versions (run_policy c d e shadow_only a resolved p s) = ru_versions s @ [pv_id (ap_version p)]
    \<and> \<not> ru_terminal_hold (run_policy c d e shadow_only a resolved p s)
    \<and> ru_terminal_block (run_policy c d e shadow_only a resolved p s) = policy_stops c e a resolved p"
  using assms run_evaluations
  by (auto simp: run_policy_def Let_def policy_effects_def policy_stops_def policy_run_of_def push_skip_def
      push_fallback_def push_rule_def split: option.split sum.split)

lemma run_policy_terminal:
  assumes "ap_shadow p = shadow_only" "ru_terminal_block s \<or> ru_terminal_hold s"
  shows "ru_emitted (run_policy c d e shadow_only a resolved p s) = ru_emitted s
    \<and> ru_versions (run_policy c d e shadow_only a resolved p s) = ru_versions s @ [pv_id (ap_version p)]
    \<and> ru_terminal_hold (run_policy c d e shadow_only a resolved p s) = ru_terminal_hold s
    \<and> ru_terminal_block (run_policy c d e shadow_only a resolved p s) = ru_terminal_block s
    \<and> (\<exists>t. ru_traces (run_policy c d e shadow_only a resolved p s) = ru_traces s @ [t] \<and> rt_skipped t)"
  using assms by (auto simp: run_policy_def Let_def push_skip_def skipped_trace_def)

lemma run_policy_other: "ap_shadow p \<noteq> shadow_only \<Longrightarrow> run_policy c d e shadow_only a resolved p s = s"
  by (simp add: run_policy_def)

text \<open>The policies up to and including the first one that stops the others.\<close>

fun until_first :: "('a \<Rightarrow> bool) \<Rightarrow> 'a list \<Rightarrow> 'a list" where
  "until_first P [] = []"
| "until_first P (x # xs) = x # (if P x then [] else until_first P xs)"

abbreviation selected :: "bool \<Rightarrow> active_policy list \<Rightarrow> active_policy list" where
  "selected shadow_only ps \<equiv> filter (\<lambda>p. ap_shadow p = shadow_only) ps"

abbreviation version_id :: "active_policy \<Rightarrow> uuid" where
  "version_id p \<equiv> pv_id (ap_version p)"

lemma run_policies_terminal:
  assumes "ru_terminal_block s \<or> ru_terminal_hold s"
  shows "ru_emitted (fold (run_policy c d e shadow_only a resolved) ps s) = ru_emitted s
    \<and> ru_versions (fold (run_policy c d e shadow_only a resolved) ps s)
        = ru_versions s @ map version_id (selected shadow_only ps)
    \<and> (list_all rt_skipped (ru_traces s)
        \<longrightarrow> list_all rt_skipped (ru_traces (fold (run_policy c d e shadow_only a resolved) ps s)))"
  using assms
proof (induction ps arbitrary: s)
  case (Cons p ps)
  show ?case
  proof (cases "ap_shadow p = shadow_only")
    case True
    note t = run_policy_terminal [OF True Cons.prems, of c d e a resolved]
    then have "ru_terminal_block (run_policy c d e shadow_only a resolved p s)
        \<or> ru_terminal_hold (run_policy c d e shadow_only a resolved p s)"
      using Cons.prems by simp
    from Cons.IH [OF this] t True show ?thesis by auto
  next
    case False
    with Cons show ?thesis by (simp add: run_policy_other)
  qed
qed simp

lemma run_policies_open:
  assumes "\<not> ru_terminal_block s" "\<not> ru_terminal_hold s"
  shows "ru_emitted (fold (run_policy c d e shadow_only a resolved) ps s)
      = ru_emitted s @ concat (map (policy_effects c e a resolved)
          (until_first (policy_stops c e a resolved) (selected shadow_only ps)))
    \<and> ru_versions (fold (run_policy c d e shadow_only a resolved) ps s)
      = ru_versions s @ map version_id (selected shadow_only ps)"
  using assms
proof (induction ps arbitrary: s)
  case (Cons p ps)
  show ?case
  proof (cases "ap_shadow p = shadow_only")
    case True
    note t = run_policy_open [OF True Cons.prems, of c d e a resolved]
    show ?thesis
    proof (cases "policy_stops c e a resolved p")
      case stops: True
      then have "ru_terminal_block (run_policy c d e shadow_only a resolved p s)
          \<or> ru_terminal_hold (run_policy c d e shadow_only a resolved p s)"
        using t by simp
      from run_policies_terminal [OF this, of c d e shadow_only a resolved ps] t True stops show ?thesis by simp
    next
      case False
      then have "\<not> ru_terminal_block (run_policy c d e shadow_only a resolved p s)"
        "\<not> ru_terminal_hold (run_policy c d e shadow_only a resolved p s)"
        using t by simp_all
      from Cons.IH [OF this] t True False show ?thesis by simp
    qed
  next
    case False
    with Cons show ?thesis by (simp add: run_policy_other)
  qed
qed simp

section \<open>The evaluation and its specification\<close>

text \<open>The effects an evaluation merges, written without its loop.\<close>

definition expected_effects ::
  "engine_context \<Rightarrow> draw \<Rightarrow> policy_engine \<Rightarrow> bool \<Rightarrow> paction \<Rightarrow> restriction_state \<Rightarrow> content_policy_plan option
     \<Rightarrow> resolved_features \<Rightarrow> active_policy list \<Rightarrow> emitted_effect list" where
  "expected_effects c d e shadow_only a st plan resolved ps = (case st of
       RestrictionsUnavailable \<Rightarrow> [restriction_hold (en_text c) a]
     | RestrictionActive r \<Rightarrow> [restriction_block (en_text c) a (dr_block_id d) r]
     | RestrictionsClear \<Rightarrow>
         (case plan of None \<Rightarrow> [] | Some plan \<Rightarrow> content_policy_effects (en_text c) a plan)
         @ concat (map (policy_effects c e a resolved)
             (until_first (policy_stops c e a resolved) (selected shadow_only ps))))"

definition restrictions_of ::
  "engine_context \<Rightarrow> paction \<Rightarrow> resolved_features \<Rightarrow> restriction_state" where
  "restrictions_of c a resolved =
     (if is_hub_message a \<or> is_lobby_message a then restriction_state_of c a resolved else RestrictionsClear)"

lemma run_policies_effects:
  fixes c d e shadow_only a st plan resolved ps
  defines "s \<equiv> fold (run_policy c d e shadow_only a resolved) ps (initial_state c d a st plan)"
  shows "ru_emitted s = expected_effects c d e shadow_only a st plan resolved ps
    \<and> ru_versions s = map version_id (selected shadow_only ps)
    \<and> (st \<noteq> RestrictionsClear \<longrightarrow> list_all rt_skipped (ru_traces s))"
proof (cases "st = RestrictionsClear")
  case True
  then have "\<not> ru_terminal_block (initial_state c d a st plan)" "\<not> ru_terminal_hold (initial_state c d a st plan)"
    by (simp_all add: initial_state_def)
  from run_policies_open [OF this, of c d e shadow_only a resolved ps] True show ?thesis
    by (simp add: s_def expected_effects_def) (simp add: initial_state_def)
next
  case False
  then have "ru_terminal_block (initial_state c d a st plan) \<or> ru_terminal_hold (initial_state c d a st plan)"
    by (cases st) (simp_all add: initial_state_def)
  from run_policies_terminal [OF this, of c d e shadow_only a resolved ps] False show ?thesis
    by (cases st) (simp_all add: s_def expected_effects_def, simp_all add: initial_state_def)
qed

text \<open>The digest is written in hexadecimal: cutting it after twelve characters never panics.\<close>

definition digest_cuts :: "feature_context \<Rightarrow> feature_requirement list \<Rightarrow> bool" where
  "digest_cuts c rs = list_all (\<lambda>r. is_char_boundary (snd (key_of_requirement c r)) 12) rs"

lemma trace_snapshot_total:
  assumes "resolve_features c elapsed reg a rs = Some resolved" and "digest_cuts c rs"
  shows "\<exists>features. trace_snapshot resolved = Some features"
proof -
  have keys: "set (map fst resolved) = set (map (key_of_requirement c) rs)"
    using features_resolved [where c = c and elapsed = elapsed and reg = reg and a = a and rs = rs] assms(1) by simp
  have cut: "\<exists>n. trace_name k = Some n" if "k \<in> set (map fst resolved)" for k
  proof -
    from that keys obtain r where "r \<in> set rs" "k = key_of_requirement c r" by auto
    with assms(2) have "is_char_boundary (snd k) 12" by (simp add: digest_cuts_def list_all_iff)
    then have "split_byte (snd k) 12 \<noteq> None" by (simp add: is_char_boundary_def)
    then show ?thesis by (auto simp: trace_name_def str_to_def)
  qed
  have "map_panic (\<lambda>(k, v). map_option (\<lambda>n. (n, rf_trace v)) (trace_name k)) resolved
      = Some (map (\<lambda>(k, v). (the (trace_name k), rf_trace v)) resolved)"
  proof (rule map_panic_Some)
    fix x assume "x \<in> set resolved"
    moreover obtain k v where "x = (k, v)" by (cases x)
    ultimately show "(case x of (k, v) \<Rightarrow> map_option (\<lambda>n. (n, rf_trace v)) (trace_name k))
        = Some (case x of (k, v) \<Rightarrow> (the (trace_name k), rf_trace v))"
      using cut [of k] by force
  qed
  then show ?thesis by (simp add: trace_snapshot_def)
qed

definition final_state ::
  "engine_context \<Rightarrow> draw \<Rightarrow> policy_engine \<Rightarrow> bool \<Rightarrow> paction \<Rightarrow> resolved_features \<Rightarrow> content_policy_plan option
     \<Rightarrow> active_policy list \<Rightarrow> run_state" where
  "final_state c d e shadow_only a resolved plan ps = fold (run_policy c d e shadow_only a resolved) ps
     (initial_state c d a (restrictions_of c a resolved) plan)"

lemma evaluate_policies_eq:
  assumes "resolve_features (en_features c) (dr_feature_latency d) (pe_features e) a
       (evaluation_requirements shadow_only a ps) = Some resolved"
  shows "evaluate_policies c d e shadow_only a plan ps =
    (let s = final_state c d e shadow_only a resolved plan ps
     in case (sampled d (pe_clean_allow_sample_rate e) (ru_had_error s) (merge_effects (ru_emitted s)),
              trace_snapshot resolved) of
          (Some smp, Some features) \<Rightarrow> Some (result_of d a shadow_only plan features s smp)
        | _ \<Rightarrow> None)"
  unfolding evaluate_policies_def assms bind.simps Let_def restrictions_of_def [symmetric] final_state_def [symmetric]
  by (cases "sampled d (pe_clean_allow_sample_rate e) (ru_had_error (final_state c d e shadow_only a resolved plan ps))
        (merge_effects (ru_emitted (final_state c d e shadow_only a resolved plan ps)))")
     (simp_all split: option.split)

lemma evaluate_policies_outcome:
  assumes "evaluate_policies c d e shadow_only a plan ps = Some r"
  obtains resolved where
    "resolve_features (en_features c) (dr_feature_latency d) (pe_features e) a
       (evaluation_requirements shadow_only a ps) = Some resolved"
    "trace_snapshot resolved = Some (xt_features (er_trace r))"
    "merge_effects (expected_effects c d e shadow_only a (restrictions_of c a resolved) plan resolved ps)
      = \<lparr>me_decision = er_decision r, me_accepted = er_accepted_effects r,
         me_rejected = er_rejected_effects r, me_reason_codes = er_reason_codes r\<rparr>"
    "xt_policy_versions (er_trace r) = map version_id (selected shadow_only ps)"
    "restrictions_of c a resolved \<noteq> RestrictionsClear \<Longrightarrow> list_all rt_skipped (xt_rules (er_trace r))"
proof -
  obtain resolved where res: "resolve_features (en_features c) (dr_feature_latency d) (pe_features e) a
       (evaluation_requirements shadow_only a ps) = Some resolved"
    by (simp add: resolve_features_eq)
  let ?s = "final_state c d e shadow_only a resolved plan ps"
  have run: "ru_emitted ?s = expected_effects c d e shadow_only a (restrictions_of c a resolved) plan resolved ps"
    "ru_versions ?s = map version_id (selected shadow_only ps)"
    "restrictions_of c a resolved \<noteq> RestrictionsClear \<Longrightarrow> list_all rt_skipped (ru_traces ?s)"
    using run_policies_effects [where c = c and d = d and e = e and shadow_only = shadow_only and a = a
      and resolved = resolved and ps = ps and st = "restrictions_of c a resolved" and plan = plan]
    unfolding final_state_def by blast+
  from assms obtain smp features where tr: "trace_snapshot resolved = Some features"
    and r: "r = result_of d a shadow_only plan features ?s smp"
    unfolding evaluate_policies_eq [OF res] Let_def by (auto split: option.splits)
  show thesis
    by (rule that [OF res]) (simp_all add: r tr result_of_def Let_def run)
qed

lemma sampled_total: "dr_gen_bool d (clamp_rate rate) \<noteq> None \<Longrightarrow> \<exists>smp. sampled d rate h m = Some smp"
  unfolding sampled_def by (metis not_None_eq)

text \<open>
  C13 [evaluation_refines_policy_order]: an evaluation does not panic when the draw and the digest
  do not, and its result is the merge of the expected effects: the hold or the block of the
  restriction lookup alone when it is not clear; otherwise the effects of the content policy plan
  followed by what each policy of the selected kind contributes on its own, up to and including
  the first mandatory platform policy that blocks. Every selected policy is recorded.
\<close>

lemma evaluation_refines_policy_order:
  assumes "dr_gen_bool d (clamp_rate (pe_clean_allow_sample_rate e)) \<noteq> None"
    and "digest_cuts (en_features c) (evaluation_requirements shadow_only a ps)"
  shows "\<exists>r resolved. evaluate_policies c d e shadow_only a plan ps = Some r
    \<and> resolve_features (en_features c) (dr_feature_latency d) (pe_features e) a
        (evaluation_requirements shadow_only a ps) = Some resolved
    \<and> merge_effects (expected_effects c d e shadow_only a (restrictions_of c a resolved) plan resolved ps)
      = \<lparr>me_decision = er_decision r, me_accepted = er_accepted_effects r,
         me_rejected = er_rejected_effects r, me_reason_codes = er_reason_codes r\<rparr>
    \<and> xt_policy_versions (er_trace r) = map version_id (selected shadow_only ps)"
proof -
  obtain resolved where res: "resolve_features (en_features c) (dr_feature_latency d) (pe_features e) a
       (evaluation_requirements shadow_only a ps) = Some resolved"
    by (simp add: resolve_features_eq)
  obtain features where tr: "trace_snapshot resolved = Some features"
    using trace_snapshot_total [OF res assms(2)] by blast
  let ?s = "final_state c d e shadow_only a resolved plan ps"
  obtain smp where "sampled d (pe_clean_allow_sample_rate e) (ru_had_error ?s) (merge_effects (ru_emitted ?s)) = Some smp"
    using sampled_total [OF assms(1)] by blast
  then obtain r where r: "evaluate_policies c d e shadow_only a plan ps = Some r"
    unfolding evaluate_policies_eq [OF res] tr by (simp add: Let_def)
  show ?thesis
    by (rule evaluate_policies_outcome [OF r]) (use r in blast)
qed

section \<open>Restrictions\<close>

text \<open>
  What the provider of the active restrictions says of a message, and the condition that no other
  requirement of the evaluation shares its invocation key without asking the same question.
\<close>

definition restriction_answer :: "engine_context \<Rightarrow> policy_engine \<Rightarrow> paction \<Rightarrow> restriction_state" where
  "restriction_answer c e a = (case map_of (pe_features e) RESTRICTIONS_ACTIVE of
       None \<Rightarrow> RestrictionsUnavailable
     | Some p \<Rightarrow> (case fp_resolve p a JNull 500 of
         Some (Inr out) \<Rightarrow> (case json_as_array (po_value out) of
             None \<Rightarrow> RestrictionsUnavailable
           | Some entries \<Rightarrow> (case strongest_restriction (en_parse_rfc3339 c) entries of
               Inl m \<Rightarrow> RestrictionsUnavailable
             | Inr None \<Rightarrow> RestrictionsClear
             | Inr (Some r) \<Rightarrow> RestrictionActive r))
       | _ \<Rightarrow> RestrictionsUnavailable))"

definition restriction_key_unshared :: "feature_context \<Rightarrow> paction \<Rightarrow> feature_requirement list \<Rightarrow> bool" where
  "restriction_key_unshared c a rs = list_all (\<lambda>r.
     key_of_requirement c r = key_of_requirement c (restriction_requirement a) \<longrightarrow>
       fr_deadline_ms r = 500 \<and> fr_maximum_data_handling r = ac_data_handling a \<and> fr_configuration r = JNull) rs"

lemma restriction_state_answer:
  assumes "resolve_features (en_features c) elapsed (pe_features e) a rs = Some resolved"
    and "restriction_requirement a \<in> set rs" and "restriction_key_unshared (en_features c) a rs"
  shows "restriction_state_of c a resolved = restriction_answer c e a"
proof -
  let ?q = "restriction_requirement a"
  let ?k = "key_of_requirement (en_features c) ?q"
  obtain r where r: "List.find (\<lambda>r. key_of_requirement (en_features c) r = ?k) rs = Some r"
    using find_key_Some [OF assms(2)] by blast
  then have "r \<in> set rs" "key_of_requirement (en_features c) r = ?k"
    by (auto simp: find_Some_iff)
  then have q: "fr_deadline_ms r = 500" "fr_maximum_data_handling r = ac_data_handling a" "fr_configuration r = JNull"
    using assms(3) by (simp_all add: restriction_key_unshared_def list_all_iff)
  have k: "fst ?k = RESTRICTIONS_ACTIVE" by (simp add: key_of_requirement_def restriction_requirement_def)
  obtain v where v: "invocation a elapsed (pe_features e) ?k r = Some v" using invocation_Some by blast
  have "map_of (runtime_snapshot (en_features c) resolved [?q]) RESTRICTIONS_ACTIVE = Some (rf_runtime v)"
    using map_of_runtime_snapshot [OF assms(1), of "[?q]"] assms(2) r v
    by (simp add: map_of_resolved [OF assms(1)] restriction_requirement_def)
  moreover have inv: "invoke_provider a r p = (case p of None \<Rightarrow> Inl PeUnavailable | Some p \<Rightarrow>
      (case fp_resolve p a JNull 500 of None \<Rightarrow> Inl PeTimeout | Some r \<Rightarrow> r))" for p
    by (cases p) (simp_all add: invoke_provider_def q max_def word_le_nat_alt)
  ultimately show ?thesis
    using v unfolding invocation_def k inv
    by (auto simp: restriction_state_of_def restriction_answer_def active_restriction_from_snapshot_def
        resolved_value_def Let_def split: option.splits sum.splits)
qed

lemma merge_singleton:
  "em_decision x = Some y \<Longrightarrow> merge_effects [x] = \<lparr>me_decision = y, me_accepted = [x], me_rejected = [],
     me_reason_codes = map fst (collect_reasons [x] [])\<rparr>"
  by (simp add: merge_effects_def final_decision_def winning_def decision_effects_def map_filter_def collect_reasons_def)


end
