(* ===== verification/PolicyEvaluation.thy ===== *)
theory PolicyEvaluation
  imports PolicyEngine
begin

text \<open>
  The operations of the engine that store results (\<open>evaluate\<close>, \<open>evaluate_with_shadow\<close> in
  \<open>src/policy/engine.rs\<close>), the repository they call (the trait and the in-memory implementation of
  \<open>src/policy/repository.rs\<close>), and the properties of the engine as a whole.
\<close>

section \<open>The repository\<close>

datatype persist_outcome = Applied | Duplicate

record 'r policy_repository =
  rp_active_policies :: "paction \<Rightarrow> 'r \<Rightarrow> rstr + active_policy list"
  rp_persist_and_apply :: "paction \<Rightarrow> evaluation_result \<Rightarrow> 'r \<Rightarrow> (rstr + persist_outcome) \<times> 'r"
  rp_persist_shadow_comparison ::
    "paction \<Rightarrow> evaluation_result \<Rightarrow> evaluation_result \<Rightarrow> 'r \<Rightarrow> (rstr + unit) \<times> 'r"

record in_memory_repository =
  im_policies :: "active_policy list"
  im_results :: "(uuid, evaluation_result) hash_map"
  im_shadow_results :: "evaluation_result list"

definition im_active_policies :: "paction \<Rightarrow> in_memory_repository \<Rightarrow> rstr + active_policy list" where
  "im_active_policies a s = Inr (filter (\<lambda>p. applies_to (pb_scope (ap_bundle p)) a) (im_policies s))"

definition im_persist_and_apply ::
  "paction \<Rightarrow> evaluation_result \<Rightarrow> in_memory_repository \<Rightarrow> (rstr + persist_outcome) \<times> in_memory_repository" where
  "im_persist_and_apply a r s =
     (if map_of (im_results s) (er_action_id r) \<noteq> None then (Inr Duplicate, s)
      else (Inr Applied, s\<lparr>im_results := hm_insert (er_action_id r) r (im_results s)\<rparr>))"

definition im_persist_shadow_comparison ::
  "paction \<Rightarrow> evaluation_result \<Rightarrow> evaluation_result \<Rightarrow> in_memory_repository
     \<Rightarrow> (rstr + unit) \<times> in_memory_repository" where
  "im_persist_shadow_comparison a active shadow s =
     (Inr (), s\<lparr>im_shadow_results := im_shadow_results s @ [shadow]\<rparr>)"

definition in_memory :: "in_memory_repository policy_repository" where
  "in_memory = \<lparr>rp_active_policies = im_active_policies, rp_persist_and_apply = im_persist_and_apply,
     rp_persist_shadow_comparison = im_persist_shadow_comparison\<rparr>"

text \<open>
  What a repository owes the engine: a result is applied only when none is stored for its action,
  and is then stored; a duplicate and an error change nothing; recording a shadow result leaves the
  stored results alone.
\<close>

locale repository_contract =
  fixes persist :: "paction \<Rightarrow> evaluation_result \<Rightarrow> 'r \<Rightarrow> (rstr + persist_outcome) \<times> 'r"
    and persist_shadow :: "paction \<Rightarrow> evaluation_result \<Rightarrow> evaluation_result \<Rightarrow> 'r \<Rightarrow> (rstr + unit) \<times> 'r"
    and stored :: "'r \<Rightarrow> uuid \<Rightarrow> evaluation_result option"
  assumes applied: "persist a r s = (Inr Applied, s') \<Longrightarrow>
      stored s (er_action_id r) = None \<and> stored s' = (stored s)(er_action_id r \<mapsto> r)"
    and not_applied: "persist a r s = (o', s') \<Longrightarrow> o' \<noteq> Inr Applied \<Longrightarrow> stored s' = stored s"
    and duplicate: "persist a r s = (Inr Duplicate, s') \<Longrightarrow> stored s (er_action_id r) \<noteq> None"
    and shadow_keeps: "persist_shadow a r r' s = (o'', s') \<Longrightarrow> stored s' = stored s"
begin

lemma stored_stays:
  assumes "persist a r s = (o', s')" and "stored s i = Some x"
  shows "stored s' i = Some x"
proof (cases "o' = Inr Applied")
  case True
  with assms(1) have p: "persist a r s = (Inr Applied, s')" by simp
  from applied [OF p] assms(2) show ?thesis by auto
next
  case False
  with not_applied [OF assms(1)] assms(2) show ?thesis by simp
qed

lemma second_not_applied:
  assumes "persist a r s = (Inr Applied, s')" and "er_action_id r' = er_action_id r"
  shows "fst (persist a' r' s') \<noteq> Inr Applied"
proof
  assume f: "fst (persist a' r' s') = Inr Applied"
  then have p: "persist a' r' s' = (Inr Applied, snd (persist a' r' s'))"
    by (metis prod.collapse)
  from applied [OF p] applied [OF assms(1)] assms(2) show False by simp
qed

text \<open>Over any sequence of results, those applied have distinct actions.\<close>

fun persist_all :: "(paction \<times> evaluation_result) list \<Rightarrow> 'r \<Rightarrow> uuid list \<times> 'r" where
  "persist_all [] s = ([], s)"
| "persist_all ((a, r) # xs) s =
     (case persist a r s of (out, s') \<Rightarrow>
      case persist_all xs s' of (ids, s'') \<Rightarrow>
        (if out = Inr Applied then er_action_id r # ids else ids, s''))"

lemma persist_all_distinct:
  "distinct (fst (persist_all xs s)) \<and> (\<forall>i \<in> set (fst (persist_all xs s)). stored s i = None)"
proof (induction xs arbitrary: s)
  case (Cons x xs)
  obtain a r where x: "x = (a, r)" by (cases x)
  obtain out s' where p: "persist a r s = (out, s')" by (cases "persist a r s")
  obtain ids s'' where q: "persist_all xs s' = (ids, s'')" by (cases "persist_all xs s'")
  have ih: "distinct ids" "\<And>i. i \<in> set ids \<Longrightarrow> stored s' i = None" using Cons.IH [of s'] q by auto
  have fresh: "i \<in> set ids \<Longrightarrow> stored s i = None" for i
    using stored_stays [OF p, of i] ih(2) by (metis not_None_eq)
  show ?case
  proof (cases "out = Inr Applied")
    case True
    then have "stored s (er_action_id r) = None" "stored s' = (stored s)(er_action_id r \<mapsto> r)"
      using applied p by blast+
    then have "er_action_id r \<notin> set ids" using ih(2) by fastforce
    with True show ?thesis using x p q ih(1) fresh \<open>stored s (er_action_id r) = None\<close> by simp
  next
    case False
    then show ?thesis using x p q ih(1) fresh by simp
  qed
qed simp

end

lemma im_repository_contract:
  "repository_contract im_persist_and_apply im_persist_shadow_comparison (\<lambda>s. map_of (im_results s))"
  by unfold_locales (auto simp: im_persist_and_apply_def im_persist_shadow_comparison_def split: if_splits)

interpretation im: repository_contract im_persist_and_apply im_persist_shadow_comparison
  "\<lambda>s. map_of (im_results s)"
  by (rule im_repository_contract)

section \<open>Storing evaluations\<close>

text \<open>The result, the gate of the side effects and the repository; \<open>None\<close> is a panic.\<close>

definition evaluate_action ::
  "engine_context \<Rightarrow> draw \<Rightarrow> policy_engine \<Rightarrow> 'r policy_repository \<Rightarrow> paction \<Rightarrow> bool \<Rightarrow> gate \<times> 'r
     \<Rightarrow> ((engine_error + evaluation_result \<times> persist_outcome) \<times> gate \<times> 'r) option" where
  "evaluate_action c d e rp a shadow_only st = (case st of (gate, s) \<Rightarrow>
     map_option (\<lambda>(r, gate'). case r of
         Inl err \<Rightarrow> (Inl err, gate', s)
       | Inr result \<Rightarrow>
           if shadow_only then (Inr (result, Applied), gate', s)
           else (case rp_persist_and_apply rp a result s of
               (Inl m, s') \<Rightarrow> (Inl (EngineRepository m), gate', s')
             | (Inr out, s') \<Rightarrow> (Inr (result, out), gate', s')))
       (evaluate_result c d e (\<lambda>a. rp_active_policies rp a s) a shadow_only gate))"

definition evaluate_with_shadow ::
  "engine_context \<Rightarrow> draw \<Rightarrow> draw \<Rightarrow> policy_engine \<Rightarrow> 'r policy_repository \<Rightarrow> paction \<Rightarrow> gate \<times> 'r
     \<Rightarrow> ((engine_error + evaluation_result \<times> evaluation_result option \<times> persist_outcome) \<times> gate \<times> 'r) option" where
  "evaluate_with_shadow c d d' e rp a st =
     Option.bind (evaluate_action c d e rp a False st) (\<lambda>(r, gate, s). case r of
         Inl err \<Rightarrow> Some (Inl err, gate, s)
       | Inr (active, out) \<Rightarrow>
           if out = Duplicate \<or> er_content_policy active \<noteq> None then Some (Inr (active, None, out), gate, s)
           else Option.bind (evaluate_result c d' e (\<lambda>a. rp_active_policies rp a s) a True gate) (\<lambda>(r', gate').
             case r' of
               Inl err \<Rightarrow> Some (Inl err, gate', s)
             | Inr shadow \<Rightarrow>
                 if xt_policy_versions (er_trace shadow) = [] then Some (Inr (active, None, out), gate', s)
                 else (case rp_persist_shadow_comparison rp a active shadow s of
                     (Inl m, s') \<Rightarrow> Some (Inl (EngineRepository m), gate', s')
                   | (Inr u, s') \<Rightarrow> Some (Inr (active, Some shadow, out), gate', s'))))"

section \<open>Results\<close>

lemma evaluate_policies_fields:
  assumes "evaluate_policies c d e sh a plan ps = Some r"
  shows "er_action_id r = ac_id a \<and> er_shadow r = sh \<and> er_content_policy r = plan \<and> (ps = [] \<longrightarrow> xt_rules (er_trace r) = [])"
proof -
  obtain resolved where res: "resolve_features (en_features c) (dr_feature_latency d) (pe_features e) a
       (evaluation_requirements sh a ps) = Some resolved"
    by (simp add: resolve_features_eq)
  from assms obtain features smp where "r = result_of d a sh plan features (final_state c d e sh a resolved plan ps) smp"
    unfolding evaluate_policies_eq [OF res] Let_def by (auto split: option.splits)
  then show ?thesis by (simp add: result_of_def Let_def final_state_def initial_state_def)
qed

lemma evaluate_result_cases:
  assumes "evaluate_result c d e f a sh gate = Some (Inr r, gate')"
  obtains plan ps where "evaluate_policies c d e sh a plan ps = Some r"
    "if sh then plan = None else evaluate_content_policy c e a gate = Some (Inr plan, gate')"
    "if plan = None then f a = Inr ps else ps = []"
proof -
  from assms obtain x g where x: "(if sh then Some (Inr None, gate) else evaluate_content_policy c e a gate) = Some (x, g)"
    and rest: "(case x of Inl err \<Rightarrow> Some (Inl err, g)
       | Inr plan \<Rightarrow>
         (case (if plan \<noteq> None then Inr [] else map_err EngineRepository (f a)) of
            Inl err \<Rightarrow> Some (Inl err, g)
          | Inr ps \<Rightarrow> map_option (\<lambda>r. (Inr r, g)) (evaluate_policies c d e sh a plan ps))) = Some (Inr r, gate')"
    unfolding evaluate_result_def by (auto simp only: bind_eq_Some_conv split_paired_Ex prod.case)
  from rest obtain plan where plan: "x = Inr plan" by (cases x) auto
  from rest [unfolded plan] obtain ps where ps: "(if plan \<noteq> None then Inr [] else map_err EngineRepository (f a)) = Inr ps"
    and r: "evaluate_policies c d e sh a plan ps = Some r" and g: "g = gate'"
    by (cases "if plan \<noteq> None then Inr [] else map_err EngineRepository (f a)") auto
  from ps have "if plan = None then f a = Inr ps else ps = []" by (cases "plan = None") auto
  then show thesis
    by (intro that [OF r]) (use x plan g in \<open>auto split: if_splits\<close>)
qed

lemma evaluate_result_fields:
  "evaluate_result c d e f a sh gate = Some (Inr r, gate') \<Longrightarrow> er_action_id r = ac_id a \<and> er_shadow r = sh"
  by (erule evaluate_result_cases) (simp add: evaluate_policies_fields)

lemma content_policy_message:
  "evaluate_content_policy c e a gate = Some (Inr (Some plan), gate') \<Longrightarrow> is_hub_message a \<or> is_lobby_message a"
  by (auto simp: evaluate_content_policy_def split: option.splits if_splits)

text \<open>
  C14 [content_policy_decides]: when the native content policies apply to a message, they are
  authoritative: no other policy is loaded or run, and the decision is that of the restriction
  answer or, when the sender is not restricted, to block exactly when the plan names a blocking
  rule.
\<close>

lemma content_policy_decides:
  assumes "evaluate_result c d e f a sh gate = Some (Inr r, gate')" and "er_content_policy r = Some plan"
  shows "er_decision r = (case restriction_answer c e a of
        RestrictionsUnavailable \<Rightarrow> DecHold
      | RestrictionActive x \<Rightarrow> DecBlock
      | RestrictionsClear \<Rightarrow> if plan_blocked_by plan = [] then DecAllow else DecBlock)
    \<and> xt_policy_versions (er_trace r) = [] \<and> xt_rules (er_trace r) = []"
proof -
  from assms(1) obtain plan' ps where r: "evaluate_policies c d e sh a plan' ps = Some r"
    and cp: "if sh then plan' = None else evaluate_content_policy c e a gate = Some (Inr plan', gate')"
    and ps: "if plan' = None then f a = Inr ps else ps = []"
    by (rule evaluate_result_cases)
  from evaluate_policies_fields [OF r] assms(2) have plan': "plan' = Some plan" by simp
  with cp ps have message: "is_hub_message a \<or> is_lobby_message a" and "ps = []"
    using content_policy_message by (auto split: if_splits)
  from r have r: "evaluate_policies c d e sh a (Some plan) [] = Some r" by (simp add: plan' \<open>ps = []\<close>)
  obtain resolved where res: "resolve_features (en_features c) (dr_feature_latency d) (pe_features e) a
       (evaluation_requirements sh a []) = Some resolved"
    and merged: "merge_effects (expected_effects c d e sh a (restrictions_of c a resolved) (Some plan) resolved [])
      = \<lparr>me_decision = er_decision r, me_accepted = er_accepted_effects r,
         me_rejected = er_rejected_effects r, me_reason_codes = er_reason_codes r\<rparr>"
    and versions: "xt_policy_versions (er_trace r) = map version_id (selected sh [])"
    using evaluate_policies_outcome [OF r] by metis
  have reqs: "evaluation_requirements sh a [] = [restriction_requirement a]"
    using message by (simp add: evaluation_requirements_def)
  have "restriction_key_unshared (en_features c) a [restriction_requirement a]"
    by (simp add: restriction_key_unshared_def restriction_requirement_def)
  then have st: "restrictions_of c a resolved = restriction_answer c e a"
    using restriction_state_answer [OF res] message by (simp add: reqs restrictions_of_def)
  have "er_decision r = me_decision (merge_effects
      (expected_effects c d e sh a (restriction_answer c e a) (Some plan) resolved []))"
    using merged st by simp
  then show ?thesis
    using versions evaluate_policies_fields [OF r]
    by (cases "restriction_answer c e a")
       (simp_all add: expected_effects_def merge_singleton restriction_hold_def restriction_block_def plan_decision_rule)
qed

section \<open>Failures\<close>

lemma decision_le_merged:
  assumes "distinct (map em_id es)" and "x \<in> set es" and "em_decision x = Some y"
  shows "y \<le> me_decision (merge_effects es)"
proof -
  have "y \<in> set (List.map_filter em_decision es)" using assms(2,3) by (force simp: map_filter_def)
  then show ?thesis using merge_decision_max [OF assms(1)] by simp
qed

text \<open>
  when a policy that is reached cannot be evaluated, because a feature it
  requires failed or its runtime is missing or fails, and its manifest does not say to continue,
  the action is at least held, provided that no two of the merged effects share an id.
\<close>

lemma failing_policy_holds:
  assumes "evaluate_policies c d e sh a plan ps = Some r"
    and "resolve_features (en_features c) (dr_feature_latency d) (pe_features e) a
       (evaluation_requirements sh a ps) = Some resolved"
    and "restrictions_of c a resolved = RestrictionsClear"
    and "p \<in> set (until_first (policy_stops c e a resolved) (selected sh ps))"
    and "policy_run_of c e a resolved p = RunFailed rule part behavior" and "behavior \<noteq> EbContinue"
    and "distinct (map em_id (expected_effects c d e sh a RestrictionsClear plan resolved ps))"
  shows "DecHold \<le> er_decision r"
proof -
  have "\<exists>x \<in> set (policy_effects c e a resolved p). em_decision x = Some DecHold"
    using assms(5,6) by (cases behavior) (simp_all add: policy_effects_def fallback_effects_def emitted_by_def Let_def)
  then obtain x where "x \<in> set (expected_effects c d e sh a RestrictionsClear plan resolved ps)"
    and x: "em_decision x = Some DecHold"
    using assms(4) by (auto simp: expected_effects_def)
  from decision_le_merged [OF assms(7) this] show ?thesis
    using evaluate_policies_outcome [OF assms(1)] assms(2,3)
    by (metis merged_effects.select_convs(1) option.inject)
qed

section \<open>Compilation and activation\<close>

text \<open>
  with the declarative runtime registered, compiling a source returns
  an artifact of that language only when validation reports no error, none when it does, and
  otherwise only fails because the source cannot be read or written again.
\<close>

lemma compiled_without_errors:
  "case validate_and_compile (register_runtime (policy_ir_runtime c) e) PolicyIrV1 source m of
      Inl err \<Rightarrow> \<not> has_error (ir_validate c source m) \<and> (\<exists>x. err = malformed x)
    | Inr (ds, None) \<Rightarrow> ds = ir_validate c source m \<and> has_error ds
    | Inr (ds, Some artifact) \<Rightarrow> ds = ir_validate c source m \<and> \<not> has_error ds
        \<and> ca_language artifact = PolicyIrV1 \<and> ca_runtime_version artifact = POLICY_IR_RUNTIME_VERSION"
proof (cases "has_error (ir_validate c source m)")
  case True
  then show ?thesis
    by (simp add: validate_and_compile_def register_runtime_def policy_ir_runtime_def Let_def)
next
  case False
  show ?thesis
  proof (cases "ir_compile c source m")
    case (Inl err)
    then have "err \<noteq> RtValidation ds" for ds using policy_ir.clean_not_refused [OF False] by blast
    with Inl False have "\<exists>x. err = malformed x"
      by (auto simp: ir_compile_def Let_def res_bind_Inl_iff elim!: map_err.elims)
    with Inl False show ?thesis
      by (simp add: validate_and_compile_def register_runtime_def policy_ir_runtime_def Let_def)
  next
    case (Inr artifact)
    with policy_ir.compile_identity [OF Inr] False show ?thesis
      by (simp add: validate_and_compile_def register_runtime_def policy_ir_runtime_def Let_def)
  qed
qed

text \<open>A provider is ready when some health report names it and every report that does is healthy.\<close>

definition provider_ready :: "policy_engine \<Rightarrow> rstr \<Rightarrow> bool" where
  "provider_ready e n \<longleftrightarrow>
     (let reports = filter (\<lambda>h. ph_name h = n) (registry_health (pe_features e))
      in reports \<noteq> [] \<and> list_all ph_healthy reports)"

lemma required_names_keys: "set (map fst (required_names v)) = fr_name ` set (mf_required_features (pv_manifest v))"
  unfolding required_names_def set_keys_bt_collect by (simp add: image_image)

text \<open>
  a version has no activation issue exactly when every feature it requires
  has a provider that is ready.
\<close>

lemma activation_issues:
  "provider_activation_issues e v = []
     \<longleftrightarrow> list_all (\<lambda>r. provider_ready e (fr_name r)) (mf_required_features (pv_manifest v))"
proof (cases "mf_required_features (pv_manifest v) = []")
  case True
  then have "map fst (required_names v) = []" using required_names_keys [of v] by (simp del: map_is_Nil_conv)
  with True show ?thesis by (simp add: provider_activation_issues_def Let_def)
next
  case False
  then have "required_names v \<noteq> []" using required_names_keys [of v] by auto
  then have "provider_activation_issues e v = [] \<longleftrightarrow>
      (\<forall>p \<in> set (registry_health (pe_features e)). ph_name p \<in> set (map fst (required_names v)) \<longrightarrow> ph_healthy p)
      \<and> (\<forall>n \<in> set (map fst (required_names v)). n \<in> ph_name ` set (registry_health (pe_features e)))"
    by (simp add: provider_activation_issues_def Let_def filter_empty_conv)
  also have "\<dots> \<longleftrightarrow> (\<forall>r \<in> set (mf_required_features (pv_manifest v)). provider_ready e (fr_name r))"
    unfolding required_names_keys provider_ready_def Let_def
    by (simp add: list_all_iff filter_empty_conv image_iff) metis
  finally show ?thesis by (simp add: list_all_iff)
qed

section \<open>One application per action\<close>

definition im_persist_all ::
  "(paction \<times> evaluation_result) list \<Rightarrow> in_memory_repository \<Rightarrow> uuid list \<times> in_memory_repository" where
  "im_persist_all = im.persist_all"

text \<open>
  over any sequence of results the repository applies at most one result per
  action, and none for an action that has a stored result.
\<close>

lemma applied_once:
  "distinct (fst (im_persist_all rs s))
   \<and> set (fst (im_persist_all rs s)) \<inter> dom (map_of (im_results s)) = {}"
  unfolding im_persist_all_def using im.persist_all_distinct [of rs s] by (auto simp: dom_def)

text \<open>
  evaluating an action against the in-memory repository never changes its
  policies nor the results of other actions; a real evaluation stores its result when the action
  has none yet and changes nothing otherwise, and a shadow evaluation changes nothing.
\<close>

lemma evaluation_stored:
  "case evaluate_action c d e in_memory a sh (gate, s) of
      None \<Rightarrow> True
    | Some (Inl err, gate', s') \<Rightarrow> s' = s
    | Some (Inr (r, out), gate', s') \<Rightarrow> er_action_id r = ac_id a \<and>
        (if sh then out = Applied \<and> s' = s
         else if map_of (im_results s) (ac_id a) = None
         then out = Applied \<and> s' = s\<lparr>im_results := hm_insert (ac_id a) r (im_results s)\<rparr>
         else out = Duplicate \<and> s' = s)"
proof (cases "evaluate_result c d e (\<lambda>a. rp_active_policies in_memory a s) a sh gate")
  case None
  then show ?thesis by (simp add: evaluate_action_def)
next
  case (Some x)
  obtain res gate' where x: "x = (res, gate')" by (cases x)
  show ?thesis
  proof (cases res)
    case (Inl err)
    with Some x show ?thesis by (simp add: evaluate_action_def)
  next
    case (Inr r)
    with Some x have i: "er_action_id r = ac_id a" using evaluate_result_fields by simp
    show ?thesis
      using Some x Inr i by (simp add: evaluate_action_def in_memory_def im_persist_and_apply_def)
  qed
qed

section \<open>Witnesses\<close>

definition sample_text :: text_context where
  "sample_text = \<lparr>tx_uuid = show_nat, tx_number = (\<lambda>w. unat w)\<rparr>"

text \<open>A digest of the first byte, and bytes that tell a configuration apart that is \<open>true\<close>.\<close>

definition sample_feature_context :: feature_context where
  "sample_feature_context = \<lparr>fx_sha256_hex = (\<lambda>b. replicate 64 (48 + hd b)),
     fx_to_vec = (\<lambda>j. case j of JObject ((k, JBool True) # m) \<Rightarrow> [1] | _ \<Rightarrow> [0]),
     fx_number = (\<lambda>w. unat w)\<rparr>"

definition sample_engine_context :: engine_context where
  "sample_engine_context = \<lparr>en_text = sample_text, en_features = sample_feature_context,
     en_evaluator = sample_evaluator, en_parse_rfc3339 = (\<lambda>s. None),
     en_decode_payload = (\<lambda>b. Inl []), en_json_size = (\<lambda>j. Inr 2)\<rparr>"

definition sample_draw :: draw where
  "sample_draw = \<lparr>dr_block_id = 101, dr_trace_id = 102, dr_result_id = 103, dr_created_at = 5,
     dr_total_latency = 9, dr_latency = (\<lambda>n. 1), dr_feature_latency = (\<lambda>k. 2), dr_gen_bool = (\<lambda>r. Some False)\<rparr>"

definition sample_provider :: "rstr \<Rightarrow> (json \<Rightarrow> provider_error + json) \<Rightarrow> feature_provider" where
  "sample_provider n answer = \<lparr>fp_name = n, fp_version = lit ''1'', fp_category = CatState, fp_cache = CacheNone,
     fp_external = False,
     fp_resolve = (\<lambda>a config ms. Some (case answer config of Inl e \<Rightarrow> Inl e
        | Inr v \<Rightarrow> Inr \<lparr>po_value = v, po_cache_hit = False, po_input_hash = None\<rparr>)),
     fp_redact = (\<lambda>out. JNull),
     fp_health = \<lparr>ph_name = n, ph_version = lit ''1'', ph_healthy = True, ph_status = lit ''READY'', ph_checked_at = 0\<rparr>\<rparr>"

definition ban_entry :: "rstr \<Rightarrow> rstr \<Rightarrow> json" where
  "ban_entry i t = JObject [(lit ''id'', JString i), (lit ''restriction_type'', JString t)]"

definition sample_engine :: "json list \<Rightarrow> policy_engine" where
  "sample_engine entries = engine_new
     [(RESTRICTIONS_ACTIVE, sample_provider RESTRICTIONS_ACTIVE (\<lambda>c. Inr (JArray entries))),
      (lit ''score'', sample_provider (lit ''score'') (\<lambda>c. if c = JBool True then Inr JNull else Inl PeInternal))] f64_0"

definition sample_policy :: "uuid \<Rightarrow> feature_requirement list \<Rightarrow> active_policy" where
  "sample_policy v rs = \<lparr>ap_bundle = \<lparr>pb_id = 50, pb_name = lit ''b'', pb_description = [], pb_scope = platform_scope,
      pb_mandatory = True, pb_priority = 1, pb_active_version_id = Some v, pb_shadow_version_id = None,
      pb_state = BsActive, pb_version = 1, pb_created_at = 0, pb_updated_at = 0\<rparr>,
     ap_version = \<lparr>pv_id = v, pv_bundle_id = 50, pv_version = 1, pv_language = PolicyIrV1,
      pv_runtime_version = POLICY_IR_RUNTIME_VERSION, pv_source = [], pv_compiled_artifact = [1],
      pv_source_sha256 = [], pv_artifact_sha256 = [],
      pv_manifest = \<lparr>mf_accepted_action_types = [], mf_accepted_schema_versions = [], mf_required_features = rs,
        mf_capabilities = [], mf_runtime_error_behavior = EbHold\<rparr>, pv_state = PsActive\<rparr>, ap_shadow = False\<rparr>"

definition score_requirement :: "json \<Rightarrow> error_behavior \<Rightarrow> feature_requirement" where
  "score_requirement config behavior = \<lparr>fr_name = lit ''score'', fr_error_behavior = behavior, fr_deadline_ms = 100,
     fr_maximum_data_handling = Sensitive, fr_configuration = config\<rparr>"


text \<open>A ban and a blacklisting of the sender: the blacklisting decides.\<close>

definition restricted_engine :: policy_engine where
  "restricted_engine = sample_engine [ban_entry (lit ''r1'') (lit ''BAN''), ban_entry (lit ''r2'') (lit ''BLACKLIST'')]"


lemma evaluation_refines_policy_order_witness:
  "\<exists>r. evaluate_policies sample_engine_context sample_draw (sample_engine []) False sample_action None
      [sample_policy 7 [], sample_policy 8 []] = Some r \<and> xt_policy_versions (er_trace r) = [7, 8]"
proof -
  have g: "dr_gen_bool sample_draw (clamp_rate (pe_clean_allow_sample_rate (sample_engine []))) \<noteq> None"
    by (simp add: sample_draw_def)
  have k: "digest_cuts (en_features sample_engine_context)
      (evaluation_requirements False sample_action [sample_policy 7 [], sample_policy 8 []])" by code_simp
  have v: "map version_id (selected False [sample_policy 7 [], sample_policy 8 []]) = [7, 8]" by code_simp
  from evaluation_refines_policy_order [OF g k, of None] v show ?thesis by auto
qed

lemma failing_policy_holds_witness:
  "\<exists>r. evaluate_policies sample_engine_context sample_draw (sample_engine []) False sample_action None
      [sample_policy 7 []] = Some r \<and> DecHold \<le> er_decision r"
proof -
  let ?ps = "[sample_policy 7 []]"
  let ?resolved = "the (resolve_features (en_features sample_engine_context) (dr_feature_latency sample_draw)
      (pe_features (sample_engine [])) sample_action (evaluation_requirements False sample_action ?ps))"
  have e: "evaluate_policies sample_engine_context sample_draw (sample_engine []) False sample_action None ?ps \<noteq> None"
    by code_simp
  then obtain r where r: "evaluate_policies sample_engine_context sample_draw (sample_engine []) False sample_action None ?ps = Some r"
    by blast
  have res: "resolve_features (en_features sample_engine_context) (dr_feature_latency sample_draw)
      (pe_features (sample_engine [])) sample_action (evaluation_requirements False sample_action ?ps) = Some ?resolved"
    by (simp add: resolve_features_eq)
  have clear: "restrictions_of sample_engine_context sample_action ?resolved = RestrictionsClear" by code_simp
  have mem: "sample_policy 7 [] \<in> set (until_first
      (policy_stops sample_engine_context (sample_engine []) sample_action ?resolved) (selected False ?ps))"
    by (simp add: sample_policy_def)
  have fails: "policy_run_of sample_engine_context (sample_engine []) sample_action ?resolved (sample_policy 7 [])
      = RunFailed (lit ''runtime.error'') (lit ''runtime.unregistered'') EbHold"
    by (simp add: policy_run_of_def Let_def sample_policy_def manifest_accepts_def failed_requirement_def
        sample_engine_def engine_new_def)
  have dist: "distinct (map em_id (expected_effects sample_engine_context sample_draw (sample_engine []) False sample_action
      RestrictionsClear None ?resolved ?ps))"
    using fails by (simp add: expected_effects_def sample_policy_def policy_effects_def fallback_effects_def emitted_by_def)
  from failing_policy_holds [OF r res clear mem fails _ dist] r show ?thesis by simp
qed

definition message_action :: "rstr \<Rightarrow> paction" where
  "message_action text = sample_action\<lparr>ac_attributes := JObject [(lit ''content'', JString text)]\<rparr>"

definition blocking_store :: policy_snapshot_store where
  "blocking_store = published_store [(server_policy 1 [] 11 (lit ''spam''))\<lparr>cp_scope := global\<rparr>]"

lemma content_policy_decides_witness:
  "\<exists>r gate'. evaluate_result sample_engine_context sample_draw (register_content_policy blocking_store (sample_engine []))
      (\<lambda>a. Inl []) (message_action (lit ''spam'')) False (new_cooldown, 0) = Some (Inr r, gate')
    \<and> er_decision r = DecBlock \<and> xt_rules (er_trace r) = []"
proof -
  let ?e = "register_content_policy blocking_store (sample_engine [])"
  let ?a = "message_action (lit ''spam'')"
  let ?run = "evaluate_result sample_engine_context sample_draw ?e (\<lambda>a. Inl []) ?a False (new_cooldown, 0)"
  have "case ?run of Some (Inr r, gate') \<Rightarrow> (case er_content_policy r of
      Some plan \<Rightarrow> plan_blocked_by plan \<noteq> [] | None \<Rightarrow> False) | _ \<Rightarrow> False"
    by code_simp
  then obtain r gate' plan where r: "?run = Some (Inr r, gate')" "er_content_policy r = Some plan"
    and b: "plan_blocked_by plan \<noteq> []"
    by (auto split: option.splits sum.splits)
  have "restriction_answer sample_engine_context ?e ?a = RestrictionsClear" by code_simp
  with content_policy_decides [OF r] b r show ?thesis by auto
qed

end
