(* ===== verification/ApprovedDelivery.thy ===== *)
theory ApprovedDelivery
  imports PolicyEvaluation
begin

text \<open>
  The delivery job of an approved message (the functions around
  \<open>build_approved_prism_payload\<close> in \<open>src/policy/repository.rs\<close>): the approved content, the
  overrides of every target for its variant, the length limits, and the deadline of a hold. Reading
  and writing JSON and decoding the payload are parameters (\<open>delivery_context\<close>).
\<close>

unbundle bit_operations_syntax

section \<open>Censored content\<close>

type_synonym replacement = "nat \<times> nat \<times> rstr"

definition censor_replacements :: "evaluation_result \<Rightarrow> replacement list" where
  "censor_replacements r = concat (map (\<lambda>x. case ee_effect x of
       EffCensor i spans replacement codes \<Rightarrow>
         map (\<lambda>s. (unat (ts_start_character s), unat (ts_end_character s), replacement)) spans
     | _ \<Rightarrow> []) (er_accepted_effects r))"

fun check_replacements :: "nat \<Rightarrow> nat \<Rightarrow> nat \<Rightarrow> replacement list \<Rightarrow> rstr + unit" where
  "check_replacements len index prior_end [] = Inr ()"
| "check_replacements len index prior_end ((start, fin, t) # rs) =
     (if \<not> start < fin then Inl (lit ''censor span must not be empty'')
      else if \<not> fin \<le> len then Inl (lit ''censor span is out of bounds'')
      else if \<not> (index = 0 \<or> prior_end \<le> start) then Inl (lit ''censor spans overlap'')
      else check_replacements len (Suc index) fin rs)"

definition splice :: "replacement \<Rightarrow> rstr \<Rightarrow> rstr" where
  "splice x cs = (case x of (start, fin, t) \<Rightarrow> take start cs @ t @ drop fin cs)"

definition apply_censors_to_content :: "rstr \<Rightarrow> replacement list \<Rightarrow> rstr + rstr" where
  "apply_censors_to_content content rs =
     (let sorted = sort_key (\<lambda>(start, fin, t). (start, fin)) rs
      in res_bind (check_replacements (length content) 0 0 sorted)
           (\<lambda>_. Inr (fold splice (rev sorted) content)))"

definition build_approved_content :: "paction \<Rightarrow> evaluation_result \<Rightarrow> rstr + rstr option" where
  "build_approved_content a r =
     (if er_decision r \<noteq> DecAllow \<and> er_decision r \<noteq> DecCensor then Inr None
      else if ac_prism_payload a = None then Inr None
      else case Option.bind (json_get (lit ''content'') (ac_attributes a)) json_as_str of
          None \<Rightarrow> Inl (lit ''approving decision requires canonical string content'')
        | Some content \<Rightarrow>
            if er_decision r = DecAllow then Inr (Some content)
            else if censor_replacements r = []
            then Inl (lit ''censor decision did not include any character spans'')
            else res_bind (apply_censors_to_content content (censor_replacements r)) (\<lambda>s. Inr (Some s)))"

section \<open>Variants\<close>

definition DISCORD_CONTENT_LIMIT :: nat where
  "DISCORD_CONTENT_LIMIT = 2000"

definition truncate_chars :: "rstr \<Rightarrow> nat \<Rightarrow> rstr" where
  "truncate_chars s n = take n s"

definition compose_delivery_content :: "rstr \<Rightarrow> rstr \<Rightarrow> rstr" where
  "compose_delivery_content pre canonical =
     (let prefix_chars = take DISCORD_CONTENT_LIMIT pre;
          remaining = DISCORD_CONTENT_LIMIT - length prefix_chars
      in prefix_chars @ take remaining canonical)"

text \<open>\<open>body[k] = v\<close> on a JSON object.\<close>

fun json_set :: "rstr \<Rightarrow> json \<Rightarrow> json \<Rightarrow> json" where
  "json_set k v (JObject m) = JObject (bt_insert k v m)"
| "json_set k v j = j"

record delivery_context =
  dl_text :: text_context
  dl_decode :: "byte list \<Rightarrow> rstr + prism_payload"
  dl_parse :: "rstr \<Rightarrow> json option"
  dl_write :: "json \<Rightarrow> rstr + rstr"
  dl_as_u64 :: "json_number \<Rightarrow> u64 option"

definition set_content :: "rstr \<Rightarrow> delivery_variant \<Rightarrow> json \<Rightarrow> json" where
  "set_content pre v body =
     json_set (lit ''content'') (JString (compose_delivery_content pre (dv_message_content v))) body"

definition safe_part :: "rstr \<Rightarrow> rstr" where
  "safe_part s = (if s = [] then DEFAULT_SAFE_NAME else s)"

definition set_username :: "rstr \<Rightarrow> json \<Rightarrow> json" where
  "set_username name body = json_set (lit ''username'') (JString (truncate_chars name 80)) body"

definition set_flags :: "delivery_context \<Rightarrow> delivery_variant \<Rightarrow> json \<Rightarrow> json" where
  "set_flags c v body =
     (if dv_suppress_links v
      then let flags = (case json_get (lit ''flags'') body of
                 Some (JNumber n) \<Rightarrow> (case dl_as_u64 c n of None \<Rightarrow> 0 | Some w \<Rightarrow> w) | _ \<Rightarrow> 0)
           in json_set (lit ''flags'') (JNumber (tx_number (dl_text c) (flags OR 4))) body
      else body)"

text \<open>The name shown for the sender: the part that was changed, or else the display name.\<close>

definition changed_user_part :: "paction \<Rightarrow> delivery_variant \<Rightarrow> rstr \<times> rstr" where
  "changed_user_part a v =
     (let orig_display = attribute_text a (lit ''display_name''); orig_user = attribute_text a (lit ''username'')
      in if dv_display_name v \<noteq> orig_display then (dv_display_name v, orig_display)
         else if dv_username v \<noteq> orig_user then (dv_username v, orig_user)
         else if orig_display \<noteq> [] \<or> dv_display_name v \<noteq> [] then (dv_display_name v, orig_display)
         else (dv_username v, orig_user))"

definition hub_user_part :: "paction \<Rightarrow> delivery_variant \<Rightarrow> rstr \<times> rstr" where
  "hub_user_part a v = (case json_get (lit ''use_nicknames'') (ac_attributes a) of
       Some (JBool False) \<Rightarrow> (dv_username v, attribute_text a (lit ''username''))
     | Some (JBool True) \<Rightarrow> (dv_display_name v, attribute_text a (lit ''display_name''))
     | _ \<Rightarrow> changed_user_part a v)"

definition apply_hub_delivery_variant ::
  "delivery_context \<Rightarrow> paction \<Rightarrow> rstr \<Rightarrow> delivery_variant \<Rightarrow> json \<Rightarrow> json" where
  "apply_hub_delivery_variant c a pre v body =
     (let body1 = set_content pre v body
      in case hub_user_part a v of (user_part, orig_user_part) \<Rightarrow>
        let user_changed = user_part \<noteq> orig_user_part;
            server_changed = dv_server_name v \<noteq> attribute_text a (lit ''server_name'');
            body2 = (if user_changed \<or> server_changed
              then set_username (if dv_server_name v = [] then safe_part user_part
                     else safe_part user_part @ lit '' | '' @ dv_server_name v) body1
              else body1)
        in set_flags c v body2)"

definition shows_server_name :: "rstr \<Rightarrow> rstr \<Rightarrow> bool" where
  "shows_server_name orig_server existing \<longleftrightarrow> orig_server \<noteq> []
     \<and> (suffix (lit ''('' @ orig_server @ lit '')'') existing
        \<or> (ch (CHR ''('') \<in> set existing \<and> suffix (lit '')'') existing))"

definition apply_call_delivery_variant ::
  "delivery_context \<Rightarrow> paction \<Rightarrow> rstr \<Rightarrow> delivery_variant \<Rightarrow> json \<Rightarrow> json" where
  "apply_call_delivery_variant c a pre v body =
     (let body1 = set_content pre v body;
          orig_server = attribute_text a (lit ''server_name'');
          user_part = fst (changed_user_part a v);
          user_changed = dv_display_name v \<noteq> attribute_text a (lit ''display_name'')
            \<or> dv_username v \<noteq> attribute_text a (lit ''username'');
          server_changed = dv_server_name v \<noteq> orig_server;
          existing = (case Option.bind (json_get (lit ''username'') body1) json_as_str of None \<Rightarrow> [] | Some s \<Rightarrow> s);
          body2 = (if shows_server_name orig_server existing
            then if user_changed \<or> server_changed
                 then set_username (if dv_server_name v = [] then safe_part user_part
                        else safe_part user_part @ lit '' ('' @ dv_server_name v @ lit '')'') body1
                 else body1
            else if user_changed then set_username (safe_part user_part) body1
            else body1)
      in set_flags c v body2)"

section \<open>Targets\<close>

text \<open>The decisions by target index: \<open>collect\<close> into a map keeps the last one of an index.\<close>

definition decision_at :: "destination_decision list \<Rightarrow> nat \<Rightarrow> destination_decision option" where
  "decision_at ds i = List.find (\<lambda>d. dd_target_index d = i) (rev ds)"

definition target_overrides :: "delivery_context \<Rightarrow> prism_target \<Rightarrow> rstr + json" where
  "target_overrides c t = (case pt_overrides t of
       None \<Rightarrow> Inr (JObject [])
     | Some s \<Rightarrow> (case dl_parse c s of
         None \<Rightarrow> Inl (lit ''Prism target overrides are not valid JSON'')
       | Some j \<Rightarrow> if json_as_object j = None then Inl (lit ''Prism target overrides must be a JSON object'')
                   else Inr j))"

definition deliver_target ::
  "delivery_context \<Rightarrow> (delivery_variant \<Rightarrow> json \<Rightarrow> json) \<Rightarrow> variant_map \<Rightarrow> destination_decision \<Rightarrow> prism_target
     \<Rightarrow> rstr + prism_target" where
  "deliver_target c change variants d t = (case dd_variant_fingerprint d of
       None \<Rightarrow> Inl (lit ''allowed content-policy destination has no delivery variant'')
     | Some fingerprint \<Rightarrow> (case map_of variants fingerprint of
         None \<Rightarrow> Inl (lit ''content-policy delivery variant is missing'')
       | Some v \<Rightarrow> res_bind (target_overrides c t) (\<lambda>overrides.
           res_bind (dl_write c (change v overrides)) (\<lambda>s. Inr (t\<lparr>pt_overrides := Some s\<rparr>)))))"

fun deliver_targets ::
  "delivery_context \<Rightarrow> (delivery_variant \<Rightarrow> json \<Rightarrow> json) \<Rightarrow> destination_decision list \<Rightarrow> variant_map \<Rightarrow> nat
     \<Rightarrow> prism_target list \<Rightarrow> rstr + prism_target list" where
  "deliver_targets c change ds variants i [] = Inr []"
| "deliver_targets c change ds variants i (t # ts) = (case decision_at ds i of
       None \<Rightarrow> deliver_targets c change ds variants (Suc i) ts
     | Some d \<Rightarrow>
         if decision_is_blocked d then deliver_targets c change ds variants (Suc i) ts
         else res_bind (deliver_target c change variants d t) (\<lambda>t'.
              res_bind (deliver_targets c change ds variants (Suc i) ts) (\<lambda>ts'. Inr (t' # ts'))))"

definition content_prefix :: "paction \<Rightarrow> rstr option" where
  "content_prefix a = Option.bind (json_get (lit ''content_prefix'') (ac_attributes a)) json_as_str"

definition plan_variants :: "content_policy_plan \<Rightarrow> variant_map" where
  "plan_variants plan = (case plan of PlanHub p \<Rightarrow> hp_variants p | PlanCall p \<Rightarrow> cp_variants p)"

definition variant_change ::
  "delivery_context \<Rightarrow> paction \<Rightarrow> content_policy_plan \<Rightarrow> delivery_variant \<Rightarrow> json \<Rightarrow> json" where
  "variant_change c a plan =
     (let pre = (case content_prefix a of None \<Rightarrow> [] | Some p \<Rightarrow> p)
      in case plan of PlanHub p \<Rightarrow> apply_hub_delivery_variant c a pre
         | PlanCall p \<Rightarrow> apply_call_delivery_variant c a pre)"

definition apply_content_policy_plan ::
  "delivery_context \<Rightarrow> paction \<Rightarrow> content_policy_plan \<Rightarrow> prism_payload \<Rightarrow> rstr + prism_payload" where
  "apply_content_policy_plan c a plan payload =
     res_bind (deliver_targets c (variant_change c a plan) (plan_destinations plan) (plan_variants plan) 0 (pj_targets payload))
       (\<lambda>ts. Inr (payload\<lparr>pj_targets := ts\<rparr>))"

section \<open>The approved payload\<close>

definition parse_body :: "delivery_context \<Rightarrow> prism_payload \<Rightarrow> rstr + json" where
  "parse_body c payload = ok_or (lit ''Prism content payload is not valid JSON'') (dl_parse c (pj_payload payload))"

definition write_body :: "delivery_context \<Rightarrow> prism_payload \<Rightarrow> json \<Rightarrow> rstr + prism_payload" where
  "write_body c payload body = res_bind (dl_write c body) (\<lambda>s. Inr (payload\<lparr>pj_payload := s\<rparr>))"

definition approve_body ::
  "delivery_context \<Rightarrow> paction \<Rightarrow> evaluation_result \<Rightarrow> rstr option \<Rightarrow> prism_payload \<Rightarrow> rstr + prism_payload" where
  "approve_body c a r approved payload = (case content_prefix a of
       Some pre \<Rightarrow>
         res_bind (parse_body c payload) (\<lambda>body.
         res_bind (ok_or (lit ''approving decision requires canonical content'') approved) (\<lambda>canonical.
           if Option.bind (json_get (lit ''content'') body) json_as_str \<noteq> None
           then write_body c payload
             (json_set (lit ''content'') (JString (compose_delivery_content pre canonical)) body)
           else Inr payload))
     | None \<Rightarrow>
         if er_decision r = DecCensor
         then res_bind (parse_body c payload) (\<lambda>body.
              res_bind (ok_or (lit ''censor decision requires a string content field'')
                (Option.bind (json_get (lit ''content'') body) json_as_str)) (\<lambda>content.
              res_bind (apply_censors_to_content content (censor_replacements r)) (\<lambda>s.
                write_body c payload (json_set (lit ''content'') (JString s) body))))
         else Inr payload)"

definition build_approved_prism_payload ::
  "delivery_context \<Rightarrow> paction \<Rightarrow> evaluation_result \<Rightarrow> rstr option \<Rightarrow> rstr + prism_payload option" where
  "build_approved_prism_payload c a r approved =
     (if er_decision r \<noteq> DecAllow \<and> er_decision r \<noteq> DecCensor then Inr None
      else case ac_prism_payload a of None \<Rightarrow> Inr None
      | Some bytes \<Rightarrow>
        res_bind (dl_decode c bytes) (\<lambda>decoded.
        res_bind (approve_body c a r approved (decoded\<lparr>pj_action_id := Some (tx_uuid (dl_text c) (ac_id a))\<rparr>)) (\<lambda>payload.
          case er_content_policy r of
            None \<Rightarrow> Inr (Some payload)
          | Some plan \<Rightarrow> res_bind (apply_content_policy_plan c a plan payload) (\<lambda>payload'.
              Inr (if pj_targets payload' = [] then None else Some payload')))))"

section \<open>Holds\<close>

definition i64_of_u64 :: "u64 \<Rightarrow> int option" where
  "i64_of_u64 w = (if unat w < 2 ^ 63 then Some (uint w) else None)"

definition min_duration :: "u64 list \<Rightarrow> u64 option" where
  "min_duration ds = min_by_key id ds"

definition hold_durations :: "emitted_effect list \<Rightarrow> u64 list" where
  "hold_durations es = List.map_filter (\<lambda>x. case ee_effect x of EffHold i codes (Some d) \<Rightarrow> Some d | _ \<Rightarrow> None) es"

definition hold_deadline ::
  "(date_time \<Rightarrow> int \<Rightarrow> date_time option) \<Rightarrow> emitted_effect list \<Rightarrow> date_time \<Rightarrow> date_time option" where
  "hold_deadline add_millis es now =
     Option.bind (Option.bind (min_duration (hold_durations es)) i64_of_u64) (add_millis now)"

datatype held_action_resolution = ResApprove | ResReject | ResExpire

fun held_resolution_values :: "held_action_resolution \<Rightarrow> rstr \<times> rstr \<times> rstr" where
  "held_resolution_values ResApprove = (lit ''APPROVED_PENDING_DELIVERY'', lit ''DISMISSED'', lit ''APPROVED'')"
| "held_resolution_values ResReject = (lit ''BLOCKED'', lit ''RESOLVED'', lit ''REJECTED'')"
| "held_resolution_values ResExpire = (lit ''EXPIRED'', lit ''RESOLVED'', lit ''EXPIRED'')"

section \<open>Censorship\<close>

text \<open>The replacements in one pass from the front, and what makes a list of them valid.\<close>

fun replace_from :: "nat \<Rightarrow> rstr \<Rightarrow> replacement list \<Rightarrow> rstr" where
  "replace_from pos cs [] = cs"
| "replace_from pos cs ((s, e, t) # rs) =
     take (s - pos) cs @ t @ replace_from e (drop (e - pos) cs) rs"

fun spans_valid :: "nat \<Rightarrow> nat \<Rightarrow> replacement list \<Rightarrow> bool" where
  "spans_valid prior len [] = True"
| "spans_valid prior len ((s, e, t) # rs) \<longleftrightarrow> prior \<le> s \<and> s < e \<and> e \<le> len \<and> spans_valid e len rs"

lemma check_replacements_iff:
  "check_replacements len index prior rs = Inr () \<longleftrightarrow> spans_valid (if index = 0 then 0 else prior) len rs"
proof (induction rs arbitrary: index prior)
  case (Cons x rs)
  then show ?case by (cases x) auto
qed simp

lemma splice_all:
  "spans_valid (length pre) n rs \<Longrightarrow> n = length pre + length cs
     \<Longrightarrow> fold splice (rev rs) (pre @ cs) = pre @ replace_from (length pre) cs rs"
proof (induction rs arbitrary: pre cs)
  case (Cons x rs)
  obtain s e t where x: "x = (s, e, t)" by (cases x)
  have b: "length pre \<le> s" "s < e" "e \<le> length pre + length cs" "spans_valid e n rs"
    using Cons.prems x by simp_all
  define before where "before = pre @ take (e - length pre) cs"
  have len: "length before = e" using b by (simp add: before_def)
  have split: "pre @ cs = before @ drop (e - length pre) cs" by (simp add: before_def)
  have "fold splice (rev rs) (before @ drop (e - length pre) cs)
      = before @ replace_from e (drop (e - length pre) cs) rs"
    using Cons.IH [of before "drop (e - length pre) cs"] b len Cons.prems(2) by simp
  then have "fold splice (rev (x # rs)) (pre @ cs)
      = splice x (before @ replace_from e (drop (e - length pre) cs) rs)"
    by (simp add: split)
  also have "\<dots> = take s before @ t @ replace_from e (drop (e - length pre) cs) rs"
    using len b by (simp add: splice_def x)
  also have "take s before = pre @ take (s - length pre) cs"
    using b by (simp add: before_def min_def)
  finally show ?case by (simp add: x)
qed simp

definition ordered :: "replacement list \<Rightarrow> replacement list" where
  "ordered rs = sort_key (\<lambda>(s, e, t). (s, e)) rs"

text \<open>
  censoring succeeds exactly when the spans, in order, are not empty, do not
  overlap and lie inside the text; the result then is the text with every span replaced and every
  character outside of the spans kept. Otherwise nothing is approved.
\<close>

lemma content_censored:
  "case apply_censors_to_content content rs of
      Inl m \<Rightarrow> \<not> spans_valid 0 (length content) (ordered rs)
    | Inr s \<Rightarrow> spans_valid 0 (length content) (ordered rs) \<and> s = replace_from 0 content (ordered rs)"
proof (cases "check_replacements (length content) 0 0 (ordered rs)")
  case (Inl m)
  then show ?thesis
    using check_replacements_iff [of "length content" 0 0 "ordered rs"]
    by (simp add: apply_censors_to_content_def Let_def ordered_def)
next
  case (Inr u)
  then show ?thesis
    using check_replacements_iff [of "length content" 0 0 "ordered rs"] splice_all [of "[]" "length content" "ordered rs" content]
    by (simp add: apply_censors_to_content_def Let_def ordered_def)
qed

section \<open>Overrides\<close>

lemma json_get_set: "json_as_object j = Some m \<Longrightarrow> bt_wf m \<Longrightarrow>
    json_get k (json_set l v j) = (if k = l then Some v else json_get k j)"
  by (cases j) auto

definition object_wf :: "json \<Rightarrow> bool" where
  "object_wf j = (case j of JObject m \<Rightarrow> bt_wf m | _ \<Rightarrow> False)"

lemma object_wf_set [simp]: "object_wf j \<Longrightarrow> object_wf (json_set k v j)"
  by (cases j) (simp_all add: object_wf_def)

lemma json_get_set_wf [simp]:
  "object_wf j \<Longrightarrow> json_get k (json_set l v j) = (if k = l then Some v else json_get k j)"
  by (cases j) (simp_all add: object_wf_def)

lemma object_wf_steps [simp]:
  "object_wf j \<Longrightarrow> object_wf (set_content pre v j)"
  "object_wf j \<Longrightarrow> object_wf (set_username n j)"
  "object_wf j \<Longrightarrow> object_wf (set_flags c v j)"
  by (simp_all add: set_content_def set_username_def set_flags_def Let_def)

lemma key_names [simp]:
  "lit ''content'' \<noteq> lit ''username''" "lit ''username'' \<noteq> lit ''content''"
  "lit ''content'' \<noteq> lit ''flags''" "lit ''flags'' \<noteq> lit ''content''"
  "lit ''username'' \<noteq> lit ''flags''" "lit ''flags'' \<noteq> lit ''username''"
  by (simp_all add: lit_def)

text \<open>What a variant makes of the overrides of a target, whichever of the two ways it is applied.\<close>

definition shows_variant :: "rstr \<Rightarrow> delivery_variant \<Rightarrow> json \<Rightarrow> json \<Rightarrow> bool" where
  "shows_variant pre v j j' \<longleftrightarrow>
     json_get (lit ''content'') j' = Some (JString (compose_delivery_content pre (dv_message_content v)))
     \<and> (json_get (lit ''username'') j' = json_get (lit ''username'') j
        \<or> (\<exists>n. json_get (lit ''username'') j' = Some (JString n) \<and> length n \<le> 80))"

lemma hub_shows_variant: "object_wf j \<Longrightarrow> shows_variant pre v j (apply_hub_delivery_variant c a pre v j)"
  by (cases "hub_user_part a v")
     (simp add: shows_variant_def apply_hub_delivery_variant_def Let_def set_flags_def set_username_def
        set_content_def truncate_chars_def)

lemma call_shows_variant: "object_wf j \<Longrightarrow> shows_variant pre v j (apply_call_delivery_variant c a pre v j)"
  by (simp add: shows_variant_def apply_call_delivery_variant_def Let_def set_flags_def set_username_def
        set_content_def truncate_chars_def)

definition action_prefix :: "paction \<Rightarrow> rstr" where
  "action_prefix a = (case content_prefix a of None \<Rightarrow> [] | Some p \<Rightarrow> p)"

lemma variant_change_shows: "object_wf j \<Longrightarrow> shows_variant (action_prefix a) v j (variant_change c a plan v j)"
  by (cases plan) (simp_all add: variant_change_def action_prefix_def Let_def hub_shows_variant call_shows_variant)

lemma content_limit: "length (compose_delivery_content pre s) \<le> DISCORD_CONTENT_LIMIT"
  by (simp add: compose_delivery_content_def Let_def DISCORD_CONTENT_LIMIT_def)

lemma content_complete:
  "length pre + length s \<le> DISCORD_CONTENT_LIMIT \<Longrightarrow> compose_delivery_content pre s = pre @ s"
  by (simp add: compose_delivery_content_def Let_def)

section \<open>Delivered targets\<close>

text \<open>The targets that may receive the message: those with a decision that does not block.\<close>

definition open_decision_at :: "destination_decision list \<Rightarrow> nat \<Rightarrow> bool" where
  "open_decision_at ds i = (case decision_at ds i of None \<Rightarrow> False | Some d \<Rightarrow> \<not> decision_is_blocked d)"

definition open_targets :: "destination_decision list \<Rightarrow> nat \<Rightarrow> prism_target list \<Rightarrow> (nat \<times> prism_target) list" where
  "open_targets ds i ts = filter (\<lambda>(i, t). open_decision_at ds i) (enumerate i ts)"

text \<open>\<open>t'\<close> is \<open>t\<close> with the overrides of its variant.\<close>

definition delivered_as ::
  "delivery_context \<Rightarrow> paction \<Rightarrow> content_policy_plan \<Rightarrow> nat \<times> prism_target \<Rightarrow> prism_target \<Rightarrow> bool" where
  "delivered_as c a plan x t' \<longleftrightarrow>
     (case Option.bind (decision_at (plan_destinations plan) (fst x))
             (\<lambda>d. Option.bind (dd_variant_fingerprint d) (map_of (plan_variants plan))) of
        None \<Rightarrow> False
      | Some v \<Rightarrow> (case target_overrides c (snd x) of
          Inl m \<Rightarrow> False
        | Inr j \<Rightarrow> (let j' = variant_change c a plan v j
            in dl_write c j' = Inr (the (pt_overrides t')) \<and> pt_overrides t' \<noteq> None
               \<and> t' = (snd x)\<lparr>pt_overrides := pt_overrides t'\<rparr>
               \<and> (object_wf j \<longrightarrow> shows_variant (action_prefix a) v j j'))))"

lemma deliver_target_Inr:
  "deliver_target c (variant_change c a plan) (plan_variants plan) d t = Inr t'
     \<Longrightarrow> decision_at (plan_destinations plan) i = Some d \<Longrightarrow> delivered_as c a plan (i, t) t'"
  by (auto simp: deliver_target_def delivered_as_def Let_def variant_change_shows split: option.splits)

lemma deliver_targets_Inr:
  "deliver_targets c (variant_change c a plan) (plan_destinations plan) (plan_variants plan) i ts = Inr ts'
     \<Longrightarrow> list_all2 (delivered_as c a plan) (open_targets (plan_destinations plan) i ts) ts'"
proof (induction ts arbitrary: i ts')
  case Nil
  then show ?case by (simp add: open_targets_def)
next
  case (Cons t ts)
  show ?case
  proof (cases "decision_at (plan_destinations plan) i")
    case None
    with Cons show ?thesis by (simp add: open_targets_def open_decision_at_def)
  next
    case (Some d)
    show ?thesis
    proof (cases "decision_is_blocked d")
      case True
      with Cons Some show ?thesis by (simp add: open_targets_def open_decision_at_def)
    next
      case False
      with Cons.prems Some obtain t' us
        where "deliver_target c (variant_change c a plan) (plan_variants plan) d t = Inr t'"
          "deliver_targets c (variant_change c a plan) (plan_destinations plan) (plan_variants plan) (Suc i) ts = Inr us"
          "ts' = t' # us"
        by auto
      with Cons.IH deliver_target_Inr Some False show ?thesis
        by (simp add: open_targets_def open_decision_at_def)
    qed
  qed
qed

lemma apply_plan_Inr:
  "apply_content_policy_plan c a plan payload = Inr p
     \<Longrightarrow> p = payload\<lparr>pj_targets := pj_targets p\<rparr>
        \<and> list_all2 (delivered_as c a plan)
            (open_targets (plan_destinations plan) 0 (pj_targets payload)) (pj_targets p)"
  by (auto simp: apply_content_policy_plan_def dest: deliver_targets_Inr)

text \<open>
  C8 [targets_match_decisions]: applying a plan to a payload keeps exactly the targets whose
  decision does not block, in their order, and changes nothing of a kept target but its overrides;
  these are the target's own overrides with the content of the variant its decision names, cut to
  the limit, and with a name of at most eighty characters where the name is replaced.
\<close>

lemma targets_match_decisions:
  "case apply_content_policy_plan c a plan payload of
      Inl m \<Rightarrow> True
    | Inr p \<Rightarrow> p = payload\<lparr>pj_targets := pj_targets p\<rparr>
        \<and> list_all2 (delivered_as c a plan)
            (open_targets (plan_destinations plan) 0 (pj_targets payload)) (pj_targets p)"
  using apply_plan_Inr [of c a plan payload] by (auto split: sum.split)

section \<open>Approval\<close>

text \<open>What an approved payload owes to the action and the result it was built from.\<close>

definition payload_of :: "delivery_context \<Rightarrow> paction \<Rightarrow> evaluation_result \<Rightarrow> prism_payload \<Rightarrow> bool" where
  "payload_of c a r p \<longleftrightarrow> er_decision r \<in> {DecAllow, DecCensor} \<and> ac_prism_payload a \<noteq> None
     \<and> pj_action_id p = Some (tx_uuid (dl_text c) (ac_id a))
     \<and> (case er_content_policy r of None \<Rightarrow> True | Some plan \<Rightarrow> pj_targets p \<noteq> [])"

lemma write_body_id: "write_body c payload j = Inr p \<Longrightarrow> pj_action_id p = pj_action_id payload"
  by (auto simp: write_body_def)

lemma approve_body_id: "approve_body c a r approved payload = Inr p \<Longrightarrow> pj_action_id p = pj_action_id payload"
  by (auto simp: approve_body_def dest: write_body_id split: option.splits if_splits)

lemma apply_plan_id: "apply_content_policy_plan c a plan payload = Inr p \<Longrightarrow> pj_action_id p = pj_action_id payload"
  by (auto simp: apply_content_policy_plan_def)

lemma build_payload_of:
  "build_approved_prism_payload c a r approved = Inr (Some p) \<Longrightarrow> payload_of c a r p"
  by (auto simp: build_approved_prism_payload_def payload_of_def dest!: approve_body_id apply_plan_id
      split: if_splits option.splits)

text \<open>
  C18 [only_approved_delivered]: a payload is delivered for an allowed or a censored message only;
  it carries the identifier of the stored action whatever the producer had put there, and under a
  content policy plan it has a target left. An action that is held or blocked delivers nothing.
\<close>

lemma only_approved_delivered:
  "(if er_decision r \<in> {DecAllow, DecCensor} then True
     else build_approved_prism_payload c a r approved = Inr None)
   \<and> (case build_approved_prism_payload c a r approved of
        Inr (Some p) \<Rightarrow> payload_of c a r p | _ \<Rightarrow> True)"
proof (rule conjI)
  show "if er_decision r \<in> {DecAllow, DecCensor} then True
     else build_approved_prism_payload c a r approved = Inr None"
    by (simp add: build_approved_prism_payload_def)
  show "case build_approved_prism_payload c a r approved of
        Inr (Some p) \<Rightarrow> payload_of c a r p | _ \<Rightarrow> True"
    using build_payload_of [of c a r approved] by (auto split: sum.split option.split)
qed

end
