(* ===== verification/PolicyStore.thy ===== *)
theory PolicyStore
  imports ApprovedDelivery
begin

text \<open>
  The stored policies (\<open>PostgresPolicyRepository\<close> in \<open>src/policy/repository.rs\<close>): the tables, what
  every mutation shares (idempotency, audit, outbox) and the operations on bundles, versions,
  fixtures, approvals and shadows. A table is the list of its rows; a statement is the filter or the
  update its SQL says, with the keys, checks and references of \<open>migrations/\<close> as failures. A
  transaction is one step: the rows it reads are locked. The clock and new identifiers are arguments.
\<close>

section \<open>Labels\<close>

text \<open>The columns of a database enum hold its constructors; they are read as their labels.\<close>

fun scope_name :: "scope_type \<Rightarrow> rstr" where
  "scope_name StPlatform = lit ''PLATFORM''"
| "scope_name StProduct = lit ''PRODUCT''"
| "scope_name StHub = lit ''HUB''"
| "scope_name StLobby = lit ''LOBBY''"
| "scope_name StIncidentOverlay = lit ''INCIDENT_OVERLAY''"

datatype repo_error = Refused rstr | RowNotFound | ConstraintViolation | OutOfRange | UnexpectedNull

definition parse_label :: "string \<Rightarrow> (rstr \<times> 'a) list \<Rightarrow> rstr \<Rightarrow> repo_error + 'a" where
  "parse_label message table s = ok_or (Refused (lit message)) (map_of table s)"

definition parse_scope :: "rstr \<Rightarrow> repo_error + scope_type" where
  "parse_scope = parse_label ''unknown scope type''
     [(lit ''PLATFORM'', StPlatform), (lit ''PRODUCT'', StProduct), (lit ''HUB'', StHub),
      (lit ''LOBBY'', StLobby), (lit ''INCIDENT_OVERLAY'', StIncidentOverlay)]"

fun product_name :: "product \<Rightarrow> rstr" where
  "product_name ProdHub = lit ''HUB''"
| "product_name ProdLobby = lit ''LOBBY''"

definition parse_product :: "rstr option \<Rightarrow> repo_error + product option" where
  "parse_product s = (case s of
       None \<Rightarrow> Inr None
     | Some t \<Rightarrow> res_bind (parse_label ''unknown product''
         [(lit ''HUB'', ProdHub), (lit ''LOBBY'', ProdLobby)] t) (\<lambda>p. Inr (Some p)))"

fun language_name :: "policy_language \<Rightarrow> rstr" where
  "language_name PolicyIrV1 = lit ''policy-ir-v1''"
| "language_name LuauV1 = lit ''luau-v1''"

definition parse_language :: "rstr \<Rightarrow> repo_error + policy_language" where
  "parse_language = parse_label ''unknown policy language''
     [(lit ''policy-ir-v1'', PolicyIrV1), (lit ''luau-v1'', LuauV1)]"

fun state_label :: "policy_state \<Rightarrow> rstr" where
  "state_label PsDraft = lit ''DRAFT''"
| "state_label PsValidated = lit ''VALIDATED''"
| "state_label PsShadow = lit ''SHADOW''"
| "state_label PsActive = lit ''ACTIVE''"
| "state_label PsDisabled = lit ''DISABLED''"
| "state_label PsRetired = lit ''RETIRED''"

definition parse_state :: "rstr \<Rightarrow> repo_error + policy_state" where
  "parse_state = parse_label ''unknown policy state''
     [(lit ''DRAFT'', PsDraft), (lit ''VALIDATED'', PsValidated), (lit ''SHADOW'', PsShadow),
      (lit ''ACTIVE'', PsActive), (lit ''DISABLED'', PsDisabled), (lit ''RETIRED'', PsRetired)]"

fun bundle_state_name :: "policy_bundle_state \<Rightarrow> rstr" where
  "bundle_state_name BsActive = lit ''ACTIVE''"
| "bundle_state_name BsDisabled = lit ''DISABLED''"
| "bundle_state_name BsRetired = lit ''RETIRED''"

definition parse_bundle_state :: "rstr \<Rightarrow> repo_error + policy_bundle_state" where
  "parse_bundle_state = parse_label ''unknown policy bundle state''
     [(lit ''ACTIVE'', BsActive), (lit ''DISABLED'', BsDisabled), (lit ''RETIRED'', BsRetired)]"

lemma label_round_trips [simp]:
  "parse_scope (scope_name t) = Inr t"
  "parse_product (map_option product_name p) = Inr p"
  "parse_language (language_name l) = Inr l"
  "parse_state (state_label s) = Inr s"
  "parse_bundle_state (bundle_state_name b) = Inr b"
      apply (cases t; simp add: parse_scope_def parse_label_def ok_or_def lit_def)
     apply (cases p)
      apply (simp add: parse_product_def)
     apply (rename_tac q, case_tac q; simp add: parse_product_def parse_label_def ok_or_def lit_def)
    apply (cases l; simp add: parse_language_def parse_label_def ok_or_def lit_def)
   apply (cases s; simp add: parse_state_def parse_label_def ok_or_def lit_def)
  apply (cases b; simp add: parse_bundle_state_def parse_label_def ok_or_def lit_def)
  done

section \<open>Tables\<close>

record bundle_row =
  br_id :: uuid
  br_name :: rstr
  br_description :: rstr
  br_scope_type :: scope_type
  br_scope_id :: rstr
  br_product :: "rstr option"
  br_mandatory :: bool
  br_priority :: i32
  br_state :: policy_bundle_state
  br_active_version_id :: "uuid option"
  br_shadow_version_id :: "uuid option"
  br_created_by :: rstr
  br_created_at :: date_time
  br_updated_at :: date_time
  br_version :: i64

record version_row =
  vr_id :: uuid
  vr_bundle_id :: uuid
  vr_version :: i32
  vr_language :: policy_language
  vr_runtime_version :: rstr
  vr_source :: rstr
  vr_compiled_artifact :: "byte list option"
  vr_source_sha256 :: rstr
  vr_artifact_sha256 :: "rstr option"
  vr_manifest :: policy_manifest
  vr_state :: policy_state
  vr_diagnostics :: json
  vr_fixture_revision :: i64
  vr_created_by :: rstr
  vr_validated_at :: "date_time option"
  vr_published_at :: "date_time option"

record fixture_row =
  fx_id :: uuid
  fx_policy_version_id :: uuid
  fx_name :: rstr
  fx_action :: paction
  fx_features :: feature_snapshot
  fx_expected_effects :: "effect list"
  fx_committed :: bool
  fx_created_at :: date_time
  fx_updated_at :: date_time
  fx_version :: i64

record test_run_row =
  tr_id :: uuid
  tr_policy_version_id :: uuid
  tr_passed :: bool
  tr_results :: json
  tr_fixture_revision :: i64
  tr_created_by :: rstr
  tr_created_at :: date_time

record approval_row =
  pa_policy_version_id :: uuid
  pa_administrator_id :: rstr
  pa_approved_at :: date_time

record activation_row =
  av_bundle_id :: uuid
  av_from_version_id :: "uuid option"
  av_to_version_id :: uuid
  av_activation_type :: rstr
  av_activated_by :: rstr

record request_context =
  rc_request_id :: rstr
  rc_actor_id :: rstr
  rc_actor_type :: i32
  rc_service_principal :: rstr
  rc_idempotency_key :: rstr
  rc_trace_id :: rstr

record idempotency_row =
  mi_service_principal :: rstr
  mi_actor_id :: rstr
  mi_idempotency_key :: rstr
  mi_operation :: rstr
  mi_resource_id :: uuid

record audit_row =
  al_request_id :: rstr
  al_actor_id :: rstr
  al_actor_type :: rstr
  al_action :: rstr
  al_resource_type :: rstr
  al_resource_id :: rstr
  al_before :: "json option"
  al_after :: "json option"
  al_trace_id :: "rstr option"

text \<open>The event of a row of the outbox, before its encoding.\<close>

record cache_invalidated =
  ci_bundle_id :: rstr
  ci_active_policy_version_id :: rstr
  ci_bundle_version :: u64

record outbox_row =
  ob_aggregate_type :: rstr
  ob_aggregate_id :: uuid
  ob_topic :: rstr
  ob_event_type :: rstr
  ob_partition_key :: rstr
  ob_payload :: "cache_invalidated + byte list"

record policy_tables =
  db_bundles :: "bundle_row list"
  db_versions :: "version_row list"
  db_fixtures :: "fixture_row list"
  db_test_runs :: "test_run_row list"
  db_approvals :: "approval_row list"
  db_activations :: "activation_row list"
  db_idempotency :: "idempotency_row list"
  db_audit :: "audit_row list"
  db_outbox :: "outbox_row list"

section \<open>Statements\<close>

definition ensure_that :: "bool \<Rightarrow> string \<Rightarrow> repo_error + unit" where
  "ensure_that b message = (if b then Inr () else Inl (Refused (lit message)))"

definition constraint :: "bool \<Rightarrow> repo_error + unit" where
  "constraint b = (if b then Inr () else Inl ConstraintViolation)"

definition fetch_one :: "('r \<Rightarrow> bool) \<Rightarrow> 'r list \<Rightarrow> repo_error + 'r" where
  "fetch_one p rows = ok_or RowNotFound (List.find p rows)"

definition rows_affected :: "('r \<Rightarrow> bool) \<Rightarrow> 'r list \<Rightarrow> nat" where
  "rows_affected p rows = length (filter p rows)"

definition update_rows :: "('r \<Rightarrow> bool) \<Rightarrow> ('r \<Rightarrow> 'r) \<Rightarrow> 'r list \<Rightarrow> 'r list" where
  "update_rows p f rows = map (\<lambda>r. if p r then f r else r) rows"

text \<open>A statement that increases a \<open>BIGINT\<close> column fails at its largest value.\<close>

definition can_increase :: "i64 \<Rightarrow> bool" where
  "can_increase v \<longleftrightarrow> sint v < 2 ^ 63 - 1"

definition update_increasing ::
  "('r \<Rightarrow> bool) \<Rightarrow> ('r \<Rightarrow> i64) \<Rightarrow> ('r \<Rightarrow> 'r) \<Rightarrow> 'r list \<Rightarrow> repo_error + 'r list" where
  "update_increasing p column f rows =
     (if list_all (\<lambda>r. can_increase (column r)) (filter p rows) then Inr (update_rows p f rows) else Inl OutOfRange)"

section \<open>Shared by all mutations\<close>

record store_context =
  st_text :: text_context
  st_i64 :: "i64 \<Rightarrow> json_number"
  st_i32 :: "i32 \<Rightarrow> json_number"
  st_sha256 :: "byte list \<Rightarrow> rstr"
  st_invalidation_topic :: rstr

definition actor_type_name :: "i32 \<Rightarrow> rstr" where
  "actor_type_name t = (if t = 1 then lit ''HUMAN'' else if t = 2 then lit ''SERVICE''
     else if t = 3 then lit ''POLICY'' else lit ''UNSPECIFIED'')"

definition insert_audit ::
  "request_context \<Rightarrow> string \<Rightarrow> string \<Rightarrow> rstr \<Rightarrow> json option \<Rightarrow> json option \<Rightarrow> policy_tables \<Rightarrow> policy_tables" where
  "insert_audit x action resource_type resource_id before after db =
     db\<lparr>db_audit := db_audit db @ [\<lparr>al_request_id = rc_request_id x,
        al_actor_id = rc_actor_id x, al_actor_type = actor_type_name (rc_actor_type x), al_action = lit action, al_resource_type = lit resource_type,
        al_resource_id = resource_id, al_before = before, al_after = after,
        al_trace_id = (if rc_trace_id x = [] then None else Some (rc_trace_id x))\<rparr>]\<rparr>"

definition insert_outbox ::
  "string \<Rightarrow> uuid \<Rightarrow> rstr \<Rightarrow> string \<Rightarrow> rstr \<Rightarrow> cache_invalidated + byte list \<Rightarrow> policy_tables \<Rightarrow> policy_tables" where
  "insert_outbox aggregate_type aggregate_id topic event_type key payload db =
     db\<lparr>db_outbox := db_outbox db @ [\<lparr>ob_aggregate_type = lit aggregate_type, ob_aggregate_id = aggregate_id,
        ob_topic = topic, ob_event_type = lit event_type, ob_partition_key = key, ob_payload = payload\<rparr>]\<rparr>"

datatype claim = Claimed policy_tables | Existing uuid

definition same_key :: "request_context \<Rightarrow> idempotency_row \<Rightarrow> bool" where
  "same_key x r \<longleftrightarrow> mi_service_principal r = rc_service_principal x
     \<and> mi_actor_id r = rc_actor_id x \<and> mi_idempotency_key r = rc_idempotency_key x"

definition claim_policy_idempotency ::
  "request_context \<Rightarrow> string \<Rightarrow> uuid \<Rightarrow> policy_tables \<Rightarrow> repo_error + claim" where
  "claim_policy_idempotency x operation resource_id db = (case List.find (same_key x) (db_idempotency db) of
       None \<Rightarrow> Inr (Claimed (db\<lparr>db_idempotency := db_idempotency db
         @ [\<lparr>mi_service_principal = rc_service_principal x, mi_actor_id = rc_actor_id x,
             mi_idempotency_key = rc_idempotency_key x, mi_operation = lit operation,
             mi_resource_id = resource_id\<rparr>]\<rparr>))
     | Some r \<Rightarrow> if mi_operation r = lit operation then Inr (Existing (mi_resource_id r))
         else Inl (Refused (lit ''idempotency key was already used for a different operation'')))"

text \<open>
  A mutation claims its key, does its statements and commits; an earlier claim of the key rolls back
  and reads what was made then, and a failure rolls back too. What is returned is read afterwards.
\<close>

definition mutation ::
  "request_context \<Rightarrow> string \<Rightarrow> uuid \<Rightarrow> (uuid \<Rightarrow> policy_tables \<Rightarrow> repo_error + 'a)
     \<Rightarrow> (policy_tables \<Rightarrow> repo_error + policy_tables \<times> 'b) \<Rightarrow> ('b \<Rightarrow> policy_tables \<Rightarrow> repo_error + 'a)
     \<Rightarrow> policy_tables \<Rightarrow> policy_tables \<times> (repo_error + 'a)" where
  "mutation x operation resource_id replay statements result db =
     (case claim_policy_idempotency x operation resource_id db of
        Inl e \<Rightarrow> (db, Inl e)
      | Inr (Existing existing) \<Rightarrow> (db, replay existing db)
      | Inr (Claimed db1) \<Rightarrow> (case statements db1 of
          Inl e \<Rightarrow> (db, Inl e)
        | Inr (db2, b) \<Rightarrow> (db2, result b db2)))"

section \<open>Bundles\<close>

text \<open>\<open>str::trim\<close>: the characters with the property \<open>White_Space\<close> are cut at both ends.\<close>

definition is_whitespace :: "rchar \<Rightarrow> bool" where
  "is_whitespace c \<longleftrightarrow> (9 \<le> c \<and> c \<le> 13) \<or> (0x2000 \<le> c \<and> c \<le> 0x200A)
     \<or> c \<in> {32, 0x85, 0xA0, 0x1680, 0x2028, 0x2029, 0x202F, 0x205F, 0x3000}"

definition str_trim :: "rstr \<Rightarrow> rstr" where
  "str_trim s = rev (dropWhile is_whitespace (rev (dropWhile is_whitespace s)))"

definition validate_scope :: "scope \<Rightarrow> repo_error + unit" where
  "validate_scope s = (case sp_scope_type s of
       StPlatform \<Rightarrow> res_bind (ensure_that (sp_id s = []) ''platform scope id must be empty'')
         (\<lambda>_. ensure_that (sp_product s = None) ''platform scope cannot declare a product'')
     | StProduct \<Rightarrow> res_bind (ensure_that (sp_id s = []) ''product scope id must be empty'')
         (\<lambda>_. ensure_that (sp_product s \<noteq> None) ''product scope requires a product'')
     | StHub \<Rightarrow> res_bind (ensure_that (str_trim (sp_id s) \<noteq> []) ''hub scope id is required'')
         (\<lambda>_. ensure_that (sp_product s = Some ProdHub) ''hub scope requires HUB product'')
     | StLobby \<Rightarrow> res_bind (ensure_that (str_trim (sp_id s) \<noteq> []) ''lobby scope id is required'')
         (\<lambda>_. ensure_that (sp_product s = Some ProdLobby) ''lobby scope requires LOBBY product'')
     | StIncidentOverlay \<Rightarrow>
         ensure_that (str_trim (sp_id s) \<noteq> []) ''incident overlay scope id is required'')"

definition validate_bundle_fields :: "rstr \<Rightarrow> rstr \<Rightarrow> scope \<Rightarrow> i32 \<Rightarrow> repo_error + unit" where
  "validate_bundle_fields name description s priority =
     res_bind (ensure_that (str_trim name \<noteq> [] \<and> byte_len (str_trim name) \<le> 100)
       ''policy bundle name must be between 1 and 100 characters'') (\<lambda>_.
     res_bind (ensure_that (byte_len (str_trim description) \<le> 2000)
       ''policy bundle description is too long'') (\<lambda>_.
     res_bind (ensure_that (0 \<le> sint priority \<and> sint priority \<le> 10000)
       ''policy bundle priority must be between 0 and 10000'') (\<lambda>_.
     validate_scope s)))"

definition bundle_from_row :: "bundle_row \<Rightarrow> repo_error + policy_bundle" where
  "bundle_from_row r =
     res_bind (parse_scope (scope_name (br_scope_type r))) (\<lambda>scope_type.
     res_bind (parse_product (br_product r)) (\<lambda>product.
     res_bind (parse_bundle_state (bundle_state_name (br_state r))) (\<lambda>state.
       Inr \<lparr>pb_id = br_id r, pb_name = br_name r, pb_description = br_description r,
          pb_scope = \<lparr>sp_scope_type = scope_type, sp_id = br_scope_id r, sp_product = product\<rparr>,
          pb_mandatory = br_mandatory r, pb_priority = br_priority r,
          pb_active_version_id = br_active_version_id r, pb_shadow_version_id = br_shadow_version_id r,
          pb_state = state, pb_version = br_version r,
          pb_created_at = br_created_at r, pb_updated_at = br_updated_at r\<rparr>)))"

definition load_bundle :: "uuid \<Rightarrow> policy_tables \<Rightarrow> repo_error + policy_bundle" where
  "load_bundle i db = res_bind (fetch_one (\<lambda>r. br_id r = i) (db_bundles db)) bundle_from_row"

definition json_object :: "(string \<times> json) list \<Rightarrow> json" where
  "json_object kvs = JObject (bt_collect (map (\<lambda>(k, v). (lit k, v)) kvs))"

definition scope_json :: "scope \<Rightarrow> json" where
  "scope_json s = json_object [(''scope_type'', JString (scope_name (sp_scope_type s))), (''id'', JString (sp_id s)),
     (''product'', case sp_product s of None \<Rightarrow> JNull | Some p \<Rightarrow> JString (product_name p))]"

definition bundle_audit_json :: "store_context \<Rightarrow> policy_bundle \<Rightarrow> json" where
  "bundle_audit_json c b = json_object [(''id'', JString (tx_uuid (st_text c) (pb_id b))), (''name'', JString (pb_name b)),
     (''description'', JString (pb_description b)), (''scope'', scope_json (pb_scope b)),
     (''mandatory'', JBool (pb_mandatory b)), (''priority'', JNumber (st_i32 c (pb_priority b))),
     (''state'', JString (bundle_state_name (pb_state b))), (''version'', JNumber (st_i64 c (pb_version b)))]"

definition same_bundle_name :: "scope_type \<Rightarrow> rstr \<Rightarrow> rstr option \<Rightarrow> rstr \<Rightarrow> bundle_row \<Rightarrow> bool" where
  "same_bundle_name t scope_id product name r \<longleftrightarrow>
     br_scope_type r = t \<and> br_scope_id r = scope_id \<and> br_product r = product \<and> br_name r = name"

definition insert_bundle :: "bundle_row \<Rightarrow> policy_tables \<Rightarrow> repo_error + policy_tables" where
  "insert_bundle r db =
     res_bind (constraint (list_all (\<lambda>q. br_id q \<noteq> br_id r
        \<and> \<not> same_bundle_name (br_scope_type r) (br_scope_id r) (br_product r) (br_name r) q) (db_bundles db)))
       (\<lambda>_. Inr (db\<lparr>db_bundles := db_bundles db @ [r]\<rparr>))"

definition create_bundle ::
  "store_context \<Rightarrow> date_time \<Rightarrow> uuid \<Rightarrow> rstr \<Rightarrow> rstr \<Rightarrow> scope \<Rightarrow> bool \<Rightarrow> i32 \<Rightarrow> request_context
     \<Rightarrow> policy_tables \<Rightarrow> policy_tables \<times> (repo_error + policy_bundle)" where
  "create_bundle c now i name description s mandatory priority x db =
     (case validate_bundle_fields name description s priority of
        Inl e \<Rightarrow> (db, Inl e)
      | Inr _ \<Rightarrow> mutation x ''CREATE_POLICY_BUNDLE'' i load_bundle
          (\<lambda>db. res_bind (insert_bundle
             \<lparr>br_id = i, br_name = str_trim name, br_description = str_trim description,
              br_scope_type = sp_scope_type s, br_scope_id = sp_id s,
              br_product = map_option product_name (sp_product s), br_mandatory = mandatory,
              br_priority = priority, br_state = BsActive, br_active_version_id = None,
              br_shadow_version_id = None, br_created_by = rc_actor_id x, br_created_at = now,
              br_updated_at = now, br_version = 1\<rparr> db)
           (\<lambda>db. Inr (insert_audit x ''CREATE_POLICY_BUNDLE'' ''POLICY_BUNDLE'' (tx_uuid (st_text c) i) None
             (Some (json_object [(''name'', JString (str_trim name)), (''scope'', scope_json s),
               (''mandatory'', JBool mandatory), (''priority'', JNumber (st_i32 c priority)),
               (''state'', JString (lit ''ACTIVE''))])) db, ())))
          (\<lambda>_. load_bundle i) db)"

text \<open>The event that tells the caches of the policies of a changed bundle.\<close>

definition invalidate_bundle :: "store_context \<Rightarrow> uuid \<Rightarrow> rstr \<Rightarrow> i64 \<Rightarrow> policy_tables \<Rightarrow> policy_tables" where
  "invalidate_bundle c i active version db =
     insert_outbox ''POLICY_BUNDLE'' i (st_invalidation_topic c) ''interchat.trust-safety.policy.invalidated.v2''
       (tx_uuid (st_text c) i) (Inl \<lparr>ci_bundle_id = tx_uuid (st_text c) i, ci_active_policy_version_id = active,
          ci_bundle_version = version\<rparr>) db"

text \<open>
  The update reads the bundle before its transaction begins: \<open>update_bundle_from current\<close> is what
  follows that read, and \<open>update_bundle\<close> the whole when nothing comes between.
\<close>

definition update_bundle_check ::
  "policy_bundle \<Rightarrow> rstr \<Rightarrow> rstr \<Rightarrow> bool option \<Rightarrow> i32 \<Rightarrow> repo_error + unit" where
  "update_bundle_check current name description mandatory priority =
     res_bind (validate_bundle_fields name description (pb_scope current) priority) (\<lambda>_.
       if mandatory = None \<or> mandatory = Some (pb_mandatory current) then Inr ()
       else ensure_that (pb_active_version_id current = None \<and> pb_shadow_version_id current = None)
         ''policy bundle mandatory flag cannot change after versions are activated'')"

definition or_current :: "'a \<Rightarrow> 'a option \<Rightarrow> 'a" where
  "or_current current x = (case x of None \<Rightarrow> current | Some y \<Rightarrow> y)"

definition update_bundle_row ::
  "date_time \<Rightarrow> uuid \<Rightarrow> rstr \<Rightarrow> rstr \<Rightarrow> bool \<Rightarrow> i32 \<Rightarrow> i64 \<Rightarrow> policy_tables \<Rightarrow> repo_error + policy_tables" where
  "update_bundle_row now i name description mandatory priority expected db =
     (let p = (\<lambda>r. br_id r = i \<and> br_version r = expected \<and> br_state r \<noteq> BsRetired)
      in res_bind (update_increasing p br_version
             (\<lambda>r. r\<lparr>br_name := name, br_description := description, br_mandatory := mandatory,
                br_priority := priority, br_version := br_version r + 1, br_updated_at := now\<rparr>) (db_bundles db)) (\<lambda>rows.
         res_bind (constraint (list_all (\<lambda>r. list_all (\<lambda>q. br_id q = br_id r
             \<or> \<not> same_bundle_name (br_scope_type r) (br_scope_id r) (br_product r) (br_name r) q) rows) rows)) (\<lambda>_.
         res_bind (ensure_that (rows_affected p (db_bundles db) \<noteq> 0)
             ''policy bundle version conflict or is retired'') (\<lambda>_.
           Inr (db\<lparr>db_bundles := rows\<rparr>)))))"

definition update_bundle_from ::
  "store_context \<Rightarrow> date_time \<Rightarrow> policy_bundle \<Rightarrow> uuid \<Rightarrow> rstr option \<Rightarrow> rstr option \<Rightarrow> bool option \<Rightarrow> i32 option
     \<Rightarrow> i64 \<Rightarrow> request_context \<Rightarrow> policy_tables \<Rightarrow> policy_tables \<times> (repo_error + policy_bundle)" where
  "update_bundle_from c now current i name description mandatory priority expected x db =
     (let next_name = or_current (pb_name current) name;
          next_description = or_current (pb_description current) description;
          next_mandatory = or_current (pb_mandatory current) mandatory;
          next_priority = or_current (pb_priority current) priority
      in case update_bundle_check current next_name next_description mandatory next_priority of
           Inl e \<Rightarrow> (db, Inl e)
         | Inr _ \<Rightarrow> mutation x ''UPDATE_POLICY_BUNDLE'' i load_bundle
             (\<lambda>db. res_bind (update_bundle_row now i (str_trim next_name) (str_trim next_description)
                      next_mandatory next_priority expected db)
               (\<lambda>db. Inr (invalidate_bundle c i
                   (case pb_active_version_id current of None \<Rightarrow> [] | Some v \<Rightarrow> tx_uuid (st_text c) v) (expected + 1)
                 (insert_audit x ''UPDATE_POLICY_BUNDLE'' ''POLICY_BUNDLE'' (tx_uuid (st_text c) i)
                   (Some (bundle_audit_json c current))
                   (Some (json_object [(''name'', JString (str_trim next_name)),
                     (''description'', JString (str_trim next_description)), (''mandatory'', JBool next_mandatory),
                     (''priority'', JNumber (st_i32 c next_priority)),
                     (''version'', JNumber (st_i64 c (expected + 1)))])) db), ())))
             (\<lambda>_. load_bundle i) db)"

definition update_bundle ::
  "store_context \<Rightarrow> date_time \<Rightarrow> uuid \<Rightarrow> rstr option \<Rightarrow> rstr option \<Rightarrow> bool option \<Rightarrow> i32 option
     \<Rightarrow> i64 \<Rightarrow> request_context \<Rightarrow> policy_tables \<Rightarrow> policy_tables \<times> (repo_error + policy_bundle)" where
  "update_bundle c now i name description mandatory priority expected x db =
     (case load_bundle i db of
        Inl e \<Rightarrow> (db, Inl e)
      | Inr current \<Rightarrow> update_bundle_from c now current i name description mandatory priority expected x db)"

fun is_legal_bundle_transition :: "policy_bundle_state \<Rightarrow> policy_bundle_state \<Rightarrow> bool" where
  "is_legal_bundle_transition BsActive BsDisabled = True"
| "is_legal_bundle_transition BsActive BsRetired = True"
| "is_legal_bundle_transition BsDisabled BsRetired = True"
| "is_legal_bundle_transition _ _ = False"

definition transition_row ::
  "date_time \<Rightarrow> uuid \<Rightarrow> policy_bundle_state \<Rightarrow> i64 \<Rightarrow> policy_tables \<Rightarrow> repo_error + policy_tables \<times> policy_bundle" where
  "transition_row now i target expected db =
     res_bind (load_bundle i db) (\<lambda>current.
     res_bind (ensure_that (pb_version current = expected) ''policy bundle version conflict'') (\<lambda>_.
     res_bind (ensure_that (is_legal_bundle_transition (pb_state current) target)
       ''illegal policy bundle state transition'') (\<lambda>_.
     res_bind (update_increasing (\<lambda>r. br_id r = i) br_version
         (\<lambda>r. r\<lparr>br_state := target, br_version := br_version r + 1, br_updated_at := now\<rparr>) (db_bundles db)) (\<lambda>rows.
       Inr (db\<lparr>db_bundles := rows\<rparr>, current)))))"

definition transition_bundle ::
  "store_context \<Rightarrow> date_time \<Rightarrow> uuid \<Rightarrow> policy_bundle_state \<Rightarrow> i64 \<Rightarrow> request_context
     \<Rightarrow> policy_tables \<Rightarrow> policy_tables \<times> (repo_error + policy_bundle)" where
  "transition_bundle c now i target expected x db =
     (if target = BsActive then (db, Inl (Refused (lit ''unsupported policy bundle transition'')))
      else let operation = (if target = BsDisabled then ''DISABLE_POLICY_BUNDLE'' else ''RETIRE_POLICY_BUNDLE'')
        in mutation x operation i load_bundle
          (\<lambda>db. res_bind (transition_row now i target expected db) (\<lambda>(db, current).
             Inr (insert_audit x operation ''POLICY_BUNDLE'' (tx_uuid (st_text c) i)
               (Some (bundle_audit_json c current))
               (Some (json_object [(''state'', JString (bundle_state_name target)),
                 (''version'', JNumber (st_i64 c (expected + 1)))]))
               (invalidate_bundle c i [] (expected + 1) db), ())))
          (\<lambda>_. load_bundle i) db)"

section \<open>Versions\<close>

definition version_from_row :: "version_row \<Rightarrow> repo_error + policy_version" where
  "version_from_row r =
     res_bind (parse_language (language_name (vr_language r))) (\<lambda>language.
     res_bind (parse_state (state_label (vr_state r))) (\<lambda>state.
       Inr \<lparr>pv_id = vr_id r, pv_bundle_id = vr_bundle_id r, pv_version = vr_version r, pv_language = language,
          pv_runtime_version = vr_runtime_version r, pv_source = vr_source r,
          pv_compiled_artifact = (case vr_compiled_artifact r of None \<Rightarrow> [] | Some bs \<Rightarrow> bs),
          pv_source_sha256 = vr_source_sha256 r,
          pv_artifact_sha256 = (case vr_artifact_sha256 r of None \<Rightarrow> [] | Some s \<Rightarrow> s),
          pv_manifest = vr_manifest r, pv_state = state\<rparr>))"

definition get_version :: "uuid \<Rightarrow> policy_tables \<Rightarrow> repo_error + policy_version" where
  "get_version i db = res_bind (fetch_one (\<lambda>r. vr_id r = i) (db_versions db)) version_from_row"

text \<open>A mandatory platform policy may not go on after an error.\<close>

definition manifest_permitted :: "scope_type \<Rightarrow> bool \<Rightarrow> policy_manifest \<Rightarrow> bool" where
  "manifest_permitted scope_type mandatory m \<longleftrightarrow> \<not> (scope_type = StPlatform \<and> mandatory)
     \<or> (mf_runtime_error_behavior m \<noteq> EbContinue
        \<and> list_all (\<lambda>q. fr_error_behavior q \<noteq> EbContinue) (mf_required_features m))"

definition next_version_number :: "uuid \<Rightarrow> policy_tables \<Rightarrow> repo_error + i32" where
  "next_version_number bundle db =
     (let numbers = map (\<lambda>r. sint (vr_version r)) (filter (\<lambda>r. vr_bundle_id r = bundle) (db_versions db));
          greatest = (if numbers = [] then 0 else Max (set numbers))
      in if greatest < 2 ^ 31 - 1 then Inr (word_of_int (greatest + 1)) else Inl OutOfRange)"

definition insert_version :: "version_row \<Rightarrow> policy_tables \<Rightarrow> repo_error + policy_tables" where
  "insert_version r db =
     res_bind (constraint (byte_len (vr_source r) \<le> 65536 \<and> length (vr_source_sha256 r) = 64
        \<and> list_all (\<lambda>q. vr_id q \<noteq> vr_id r \<and> \<not> (vr_bundle_id q = vr_bundle_id r
            \<and> (vr_version q = vr_version r \<or> vr_source_sha256 q = vr_source_sha256 r))) (db_versions db)))
       (\<lambda>_. Inr (db\<lparr>db_versions := db_versions db @ [r]\<rparr>))"

definition create_draft_statements ::
  "store_context \<Rightarrow> date_time \<Rightarrow> uuid \<Rightarrow> uuid \<Rightarrow> policy_language \<Rightarrow> rstr \<Rightarrow> policy_manifest \<Rightarrow> request_context
     \<Rightarrow> i64 \<Rightarrow> policy_tables \<Rightarrow> repo_error + policy_tables" where
  "create_draft_statements c now i bundle_id language source manifest x expected db =
     res_bind (fetch_one (\<lambda>r. br_id r = bundle_id) (db_bundles db)) (\<lambda>bundle.
     res_bind (ensure_that (br_version bundle = expected) ''policy bundle version conflict'') (\<lambda>_.
     res_bind (ensure_that (br_state bundle \<noteq> BsRetired) ''retired policy bundle is immutable'') (\<lambda>_.
     res_bind (ensure_that (manifest_permitted (br_scope_type bundle) (br_mandatory bundle) manifest)
       ''global mandatory policies may not continue after provider or runtime errors'') (\<lambda>_.
     res_bind (next_version_number bundle_id db) (\<lambda>number.
     res_bind (insert_version
       \<lparr>vr_id = i, vr_bundle_id = bundle_id, vr_version = number, vr_language = language, vr_runtime_version = [],
        vr_source = source, vr_compiled_artifact = None, vr_source_sha256 = st_sha256 c (str_bytes source),
        vr_artifact_sha256 = None, vr_manifest = manifest, vr_state = PsDraft, vr_diagnostics = JArray [],
        vr_fixture_revision = 0, vr_created_by = rc_actor_id x, vr_validated_at = None,
        vr_published_at = None\<rparr> db) (\<lambda>db.
     res_bind (update_increasing (\<lambda>r. br_id r = bundle_id) br_version
         (\<lambda>r. r\<lparr>br_version := br_version r + 1, br_updated_at := now\<rparr>) (db_bundles db)) (\<lambda>rows.
       Inr (db\<lparr>db_bundles := rows\<rparr>))))))))"

definition create_draft ::
  "store_context \<Rightarrow> date_time \<Rightarrow> uuid \<Rightarrow> uuid \<Rightarrow> policy_language \<Rightarrow> rstr \<Rightarrow> policy_manifest \<Rightarrow> request_context
     \<Rightarrow> i64 \<Rightarrow> policy_tables \<Rightarrow> policy_tables \<times> (repo_error + policy_version)" where
  "create_draft c now i bundle_id language source manifest x expected =
     mutation x ''CREATE_POLICY_DRAFT'' i get_version
       (\<lambda>db. res_bind (create_draft_statements c now i bundle_id language source manifest x expected db)
          (\<lambda>db. Inr (insert_audit x ''CREATE_POLICY_DRAFT'' ''POLICY_VERSION'' (tx_uuid (st_text c) i) None None db, ())))
       (\<lambda>_. get_version i)"

text \<open>The audit row of an operation on a version, which keeps no states.\<close>

definition audit_version :: "store_context \<Rightarrow> request_context \<Rightarrow> string \<Rightarrow> uuid \<Rightarrow> policy_tables \<Rightarrow> policy_tables" where
  "audit_version c x operation i = insert_audit x operation ''POLICY_VERSION'' (tx_uuid (st_text c) i) None None"

definition mark_validated_statements ::
  "date_time \<Rightarrow> uuid \<Rightarrow> rstr \<Rightarrow> byte list \<Rightarrow> rstr \<Rightarrow> json \<Rightarrow> policy_tables \<Rightarrow> repo_error + policy_tables" where
  "mark_validated_statements now i runtime_version artifact artifact_sha256 diagnostics db =
     (let p = (\<lambda>r. vr_id r = i \<and> vr_state r = PsDraft);
          rows = update_rows p (\<lambda>r. r\<lparr>vr_runtime_version := runtime_version, vr_compiled_artifact := Some artifact,
            vr_artifact_sha256 := Some artifact_sha256, vr_diagnostics := diagnostics, vr_state := PsValidated,
            vr_validated_at := Some now\<rparr>) (db_versions db)
      in res_bind (constraint (rows_affected p (db_versions db) = 0 \<or> length artifact_sha256 = 64)) (\<lambda>_.
         res_bind (ensure_that (rows_affected p (db_versions db) = 1) ''policy version is not a draft'') (\<lambda>_.
           Inr (db\<lparr>db_versions := rows\<rparr>))))"

definition mark_validated ::
  "store_context \<Rightarrow> date_time \<Rightarrow> uuid \<Rightarrow> rstr \<Rightarrow> byte list \<Rightarrow> rstr \<Rightarrow> json \<Rightarrow> request_context
     \<Rightarrow> policy_tables \<Rightarrow> policy_tables \<times> (repo_error + policy_version)" where
  "mark_validated c now i runtime_version artifact artifact_sha256 diagnostics x =
     mutation x ''VALIDATE_POLICY'' i get_version
       (\<lambda>db. res_bind (mark_validated_statements now i runtime_version artifact artifact_sha256 diagnostics db)
          (\<lambda>db. Inr (audit_version c x ''VALIDATE_POLICY'' i db, ())))
       (\<lambda>_. get_version i)"

section \<open>Fixtures\<close>

definition ensure_fixture_version_mutable :: "uuid \<Rightarrow> policy_tables \<Rightarrow> repo_error + unit" where
  "ensure_fixture_version_mutable version db =
     res_bind (fetch_one (\<lambda>r. vr_id r = version) (db_versions db)) (\<lambda>r.
       ensure_that (vr_published_at r = None \<and> (vr_state r = PsDraft \<or> vr_state r = PsValidated))
         ''published policy fixtures are immutable'')"

definition bump_fixture_revision :: "uuid \<Rightarrow> policy_tables \<Rightarrow> repo_error + policy_tables" where
  "bump_fixture_revision version db =
     res_bind (update_increasing (\<lambda>r. vr_id r = version) vr_fixture_revision
         (\<lambda>r. r\<lparr>vr_fixture_revision := vr_fixture_revision r + 1\<rparr>) (db_versions db)) (\<lambda>rows.
       Inr (db\<lparr>db_versions := rows\<rparr>))"

definition stored_fixture :: "uuid \<Rightarrow> policy_tables \<Rightarrow> repo_error + fixture_row" where
  "stored_fixture i db = fetch_one (\<lambda>r. fx_id r = i) (db_fixtures db)"

definition audit_fixture :: "store_context \<Rightarrow> request_context \<Rightarrow> string \<Rightarrow> uuid \<Rightarrow> policy_tables \<Rightarrow> policy_tables" where
  "audit_fixture c x operation i = insert_audit x operation ''POLICY_FIXTURE'' (tx_uuid (st_text c) i) None None"

definition same_fixture_name :: "fixture_row \<Rightarrow> fixture_row \<Rightarrow> bool" where
  "same_fixture_name r q \<longleftrightarrow> fx_policy_version_id q = fx_policy_version_id r \<and> fx_name q = fx_name r"

definition create_fixture ::
  "store_context \<Rightarrow> date_time \<Rightarrow> uuid \<Rightarrow> uuid \<Rightarrow> rstr \<Rightarrow> paction \<Rightarrow> feature_snapshot \<Rightarrow> effect list \<Rightarrow> request_context
     \<Rightarrow> policy_tables \<Rightarrow> policy_tables \<times> (repo_error + fixture_row)" where
  "create_fixture c now i version name a features wanted x db =
     (if str_trim name = [] then (db, Inl (Refused (lit ''fixture name is required'')))
      else mutation x ''CREATE_POLICY_FIXTURE'' i stored_fixture
        (\<lambda>db. res_bind (ensure_fixture_version_mutable version db) (\<lambda>_.
           let r = \<lparr>fx_id = i, fx_policy_version_id = version, fx_name = str_trim name, fx_action = a,
                 fx_features = features, fx_expected_effects = wanted, fx_committed = True,
                 fx_created_at = now, fx_updated_at = now, fx_version = 1\<rparr>
           in res_bind (constraint (list_all (\<lambda>q. fx_id q \<noteq> i \<and> \<not> same_fixture_name r q) (db_fixtures db))) (\<lambda>_.
              res_bind (bump_fixture_revision version (db\<lparr>db_fixtures := db_fixtures db @ [r]\<rparr>)) (\<lambda>db.
                Inr (audit_fixture c x ''CREATE_POLICY_FIXTURE'' i db, ())))))
        (\<lambda>_. stored_fixture i) db)"

definition update_fixture ::
  "store_context \<Rightarrow> date_time \<Rightarrow> uuid \<Rightarrow> rstr \<Rightarrow> paction \<Rightarrow> feature_snapshot \<Rightarrow> effect list \<Rightarrow> i64 \<Rightarrow> request_context
     \<Rightarrow> policy_tables \<Rightarrow> policy_tables \<times> (repo_error + fixture_row)" where
  "update_fixture c now i name a features wanted expected x db =
     (if str_trim name = [] then (db, Inl (Refused (lit ''fixture name is required'')))
      else mutation x ''UPDATE_POLICY_FIXTURE'' i stored_fixture
        (\<lambda>db. res_bind (stored_fixture i db) (\<lambda>old.
           res_bind (ensure_fixture_version_mutable (fx_policy_version_id old) db) (\<lambda>_.
           let p = (\<lambda>r. fx_id r = i \<and> fx_version r = expected)
           in res_bind (update_increasing p fx_version
                (\<lambda>r. r\<lparr>fx_name := str_trim name, fx_action := a, fx_features := features,
                   fx_expected_effects := wanted, fx_version := fx_version r + 1, fx_updated_at := now\<rparr>)
                (db_fixtures db)) (\<lambda>rows.
              res_bind (constraint (list_all (\<lambda>r. list_all (\<lambda>q. fx_id q = fx_id r \<or> \<not> same_fixture_name r q) rows) rows)) (\<lambda>_.
              res_bind (ensure_that (rows_affected p (db_fixtures db) = 1) ''policy fixture version conflict'') (\<lambda>_.
              res_bind (bump_fixture_revision (fx_policy_version_id old) (db\<lparr>db_fixtures := rows\<rparr>)) (\<lambda>db.
                Inr (audit_fixture c x ''UPDATE_POLICY_FIXTURE'' i db, ()))))))))
        (\<lambda>_. stored_fixture i) db)"

definition delete_fixture ::
  "store_context \<Rightarrow> uuid \<Rightarrow> i64 \<Rightarrow> request_context \<Rightarrow> policy_tables \<Rightarrow> policy_tables \<times> (repo_error + unit)" where
  "delete_fixture c i expected x =
     mutation x ''DELETE_POLICY_FIXTURE'' i (\<lambda>_ _. Inr ())
       (\<lambda>db. res_bind (stored_fixture i db) (\<lambda>old.
          res_bind (ensure_fixture_version_mutable (fx_policy_version_id old) db) (\<lambda>_.
          let p = (\<lambda>r. fx_id r = i \<and> fx_version r = expected)
          in res_bind (ensure_that (rows_affected p (db_fixtures db) = 1) ''policy fixture version conflict'') (\<lambda>_.
             res_bind (bump_fixture_revision (fx_policy_version_id old)
                (db\<lparr>db_fixtures := filter (\<lambda>r. \<not> p r) (db_fixtures db)\<rparr>)) (\<lambda>db.
               Inr (audit_fixture c x ''DELETE_POLICY_FIXTURE'' i db, ()))))))
       (\<lambda>_ _. Inr ())"

text \<open>The run is recorded with the revision of the fixtures at the time; an unknown version records none.\<close>

definition record_test_run ::
  "date_time \<Rightarrow> uuid \<Rightarrow> uuid \<Rightarrow> bool \<Rightarrow> json \<Rightarrow> request_context \<Rightarrow> policy_tables \<Rightarrow> policy_tables \<times> (repo_error + unit)" where
  "record_test_run now i version passed results x =
     mutation x ''RUN_POLICY_TESTS'' i (\<lambda>_ _. Inr ())
       (\<lambda>db. let rows = map (\<lambda>r. \<lparr>tr_id = i, tr_policy_version_id = version, tr_passed = passed,
             tr_results = results, tr_fixture_revision = vr_fixture_revision r, tr_created_by = rc_actor_id x,
             tr_created_at = now\<rparr>) (filter (\<lambda>r. vr_id r = version) (db_versions db))
          in res_bind (constraint (rows = [] \<or> list_all (\<lambda>q. tr_id q \<noteq> i) (db_test_runs db))) (\<lambda>_.
             Inr (db\<lparr>db_test_runs := db_test_runs db @ rows\<rparr>, ())))
       (\<lambda>_ _. Inr ())"

section \<open>Publication and approval\<close>

text \<open>The result of the last test run of the fixtures as they are now.\<close>

definition last_run :: "test_run_row list \<Rightarrow> test_run_row option" where
  "last_run rows = (case rows of [] \<Rightarrow> None
     | r # rs \<Rightarrow> Some (fold (\<lambda>q best. if tr_created_at best < tr_created_at q then q else best) rs r))"

definition fixtures_passed :: "version_row \<Rightarrow> policy_tables \<Rightarrow> bool" where
  "fixtures_passed v db \<longleftrightarrow>
     map_option tr_passed (last_run (filter (\<lambda>t. tr_policy_version_id t = vr_id v
        \<and> tr_fixture_revision t = vr_fixture_revision v) (db_test_runs db))) = Some True"

definition publish_statements :: "date_time \<Rightarrow> uuid \<Rightarrow> i64 \<Rightarrow> policy_tables \<Rightarrow> repo_error + policy_tables" where
  "publish_statements now i expected db =
     res_bind (fetch_one (\<lambda>r. vr_id r = i) (db_versions db)) (\<lambda>version.
     res_bind (ensure_that (vr_state version = PsValidated) ''policy version has not been validated'') (\<lambda>_.
     res_bind (fetch_one (\<lambda>r. br_id r = vr_bundle_id version) (db_bundles db)) (\<lambda>bundle.
     res_bind (ensure_that (br_version bundle = expected) ''policy bundle version conflict'') (\<lambda>_.
     res_bind (ensure_that
         (rows_affected (\<lambda>r. fx_policy_version_id r = i \<and> fx_committed r) (db_fixtures db) = 0
           \<or> fixtures_passed version db) ''committed policy fixtures have not passed'') (\<lambda>_.
       Inr (db\<lparr>db_versions := update_rows (\<lambda>r. vr_id r = i)
         (\<lambda>r. r\<lparr>vr_published_at := Some (or_current now (vr_published_at r))\<rparr>) (db_versions db)\<rparr>))))))"

definition publish ::
  "store_context \<Rightarrow> date_time \<Rightarrow> uuid \<Rightarrow> request_context \<Rightarrow> i64
     \<Rightarrow> policy_tables \<Rightarrow> policy_tables \<times> (repo_error + policy_version)" where
  "publish c now i x expected =
     mutation x ''PUBLISH_POLICY_VERSION'' i get_version
       (\<lambda>db. res_bind (publish_statements now i expected db)
          (\<lambda>db. Inr (audit_version c x ''PUBLISH_POLICY_VERSION'' i db, ())))
       (\<lambda>_. get_version i)"

definition is_approval :: "uuid \<Rightarrow> rstr \<Rightarrow> approval_row \<Rightarrow> bool" where
  "is_approval version administrator r \<longleftrightarrow>
     pa_policy_version_id r = version \<and> pa_administrator_id r = administrator"

definition approval :: "uuid \<Rightarrow> rstr \<Rightarrow> policy_tables \<Rightarrow> repo_error + date_time" where
  "approval version administrator db =
     res_bind (fetch_one (is_approval version administrator) (db_approvals db)) (\<lambda>r. Inr (pa_approved_at r))"

text \<open>\<open>ON CONFLICT DO UPDATE\<close> keeps the row and the instant of an earlier approval.\<close>

definition insert_approval :: "date_time \<Rightarrow> uuid \<Rightarrow> rstr \<Rightarrow> policy_tables \<Rightarrow> policy_tables \<times> date_time" where
  "insert_approval now version administrator db =
     (case List.find (is_approval version administrator) (db_approvals db) of
        Some r \<Rightarrow> (db, pa_approved_at r)
      | None \<Rightarrow> (db\<lparr>db_approvals := db_approvals db @ [\<lparr>pa_policy_version_id = version,
          pa_administrator_id = administrator, pa_approved_at = now\<rparr>]\<rparr>, now))"

definition approve_statements ::
  "date_time \<Rightarrow> uuid \<Rightarrow> rstr \<Rightarrow> policy_tables \<Rightarrow> repo_error + policy_tables \<times> date_time" where
  "approve_statements now i administrator db =
     res_bind (fetch_one (\<lambda>r. vr_id r = i) (db_versions db)) (\<lambda>version.
     res_bind (fetch_one (\<lambda>r. br_id r = vr_bundle_id version) (db_bundles db)) (\<lambda>bundle.
     res_bind (ensure_that (br_scope_type bundle = StPlatform \<and> br_mandatory bundle)
       ''only mandatory platform policies require administrator approval'') (\<lambda>_.
     res_bind (ensure_that (vr_published_at version \<noteq> None) ''policy version has not been published'') (\<lambda>_.
       Inr (insert_approval now i administrator db)))))"

definition approve ::
  "store_context \<Rightarrow> date_time \<Rightarrow> uuid \<Rightarrow> request_context
     \<Rightarrow> policy_tables \<Rightarrow> policy_tables \<times> (repo_error + date_time)" where
  "approve c now i x =
     mutation x ''APPROVE_POLICY_VERSION'' i (\<lambda>existing. approval existing (rc_actor_id x))
       (\<lambda>db. res_bind (approve_statements now i (rc_actor_id x) db)
          (\<lambda>(db, at). Inr (audit_version c x ''APPROVE_POLICY_VERSION'' i db, at)))
       (\<lambda>at _. Inr at)"

section \<open>Shadows and activation\<close>

definition audit_bundle :: "store_context \<Rightarrow> request_context \<Rightarrow> string \<Rightarrow> uuid \<Rightarrow> policy_tables \<Rightarrow> policy_tables" where
  "audit_bundle c x operation i = insert_audit x operation ''POLICY_BUNDLE'' (tx_uuid (st_text c) i) None None"

definition set_version_state :: "(version_row \<Rightarrow> bool) \<Rightarrow> policy_state \<Rightarrow> policy_tables \<Rightarrow> policy_tables" where
  "set_version_state p s db = db\<lparr>db_versions := update_rows p (\<lambda>r. r\<lparr>vr_state := s\<rparr>) (db_versions db)\<rparr>"

text \<open>A row of \<open>policy_activation\<close> refers to an existing version.\<close>

definition insert_activation ::
  "uuid \<Rightarrow> uuid option \<Rightarrow> uuid \<Rightarrow> string \<Rightarrow> rstr \<Rightarrow> policy_tables \<Rightarrow> repo_error + policy_tables" where
  "insert_activation bundle from to activation_type by db =
     res_bind (constraint (rows_affected (\<lambda>r. vr_id r = to) (db_versions db) \<noteq> 0)) (\<lambda>_.
       Inr (db\<lparr>db_activations := db_activations db @ [\<lparr>av_bundle_id = bundle, av_from_version_id = from,
          av_to_version_id = to, av_activation_type = lit activation_type, av_activated_by = by\<rparr>]\<rparr>))"

definition in_bundle :: "uuid \<Rightarrow> uuid \<Rightarrow> version_row \<Rightarrow> bool" where
  "in_bundle version bundle r \<longleftrightarrow> vr_id r = version \<and> vr_bundle_id r = bundle"

definition move_shadow :: "bool \<Rightarrow> uuid \<Rightarrow> uuid option \<Rightarrow> policy_tables \<Rightarrow> policy_tables" where
  "move_shadow enabled target previous db =
     (if enabled then set_version_state (\<lambda>r. vr_id r = target \<and> vr_state r = PsValidated) PsShadow db
      else case previous of None \<Rightarrow> db
        | Some p \<Rightarrow> set_version_state (\<lambda>r. vr_id r = p \<and> vr_state r = PsShadow) PsValidated db)"

definition set_shadow_statements ::
  "date_time \<Rightarrow> uuid \<Rightarrow> uuid \<Rightarrow> bool \<Rightarrow> rstr \<Rightarrow> i64 \<Rightarrow> policy_tables \<Rightarrow> repo_error + policy_tables" where
  "set_shadow_statements now bundle_id target enabled actor expected db =
     res_bind (fetch_one (\<lambda>r. br_id r = bundle_id) (db_bundles db)) (\<lambda>bundle.
     res_bind (ensure_that (br_version bundle = expected) ''policy bundle version conflict'') (\<lambda>_.
     res_bind (if enabled
       then res_bind (fetch_one (in_bundle target bundle_id) (db_versions db)) (\<lambda>r.
         ensure_that (vr_published_at r \<noteq> None) ''policy version must be published before shadow mode'')
       else Inr ()) (\<lambda>_.
     res_bind (update_increasing (\<lambda>r. br_id r = bundle_id) br_version
       (\<lambda>r. r\<lparr>br_shadow_version_id := (if enabled then Some target else None),
          br_version := br_version r + 1, br_updated_at := now\<rparr>) (db_bundles db)) (\<lambda>rows.
     insert_activation bundle_id (br_shadow_version_id bundle) target
       (if enabled then ''SHADOW_START'' else ''SHADOW_STOP'') actor
       (move_shadow enabled target (br_shadow_version_id bundle) (db\<lparr>db_bundles := rows\<rparr>))))))"

definition set_shadow ::
  "store_context \<Rightarrow> date_time \<Rightarrow> uuid \<Rightarrow> uuid \<Rightarrow> bool \<Rightarrow> request_context \<Rightarrow> i64
     \<Rightarrow> policy_tables \<Rightarrow> policy_tables \<times> (repo_error + policy_bundle)" where
  "set_shadow c now bundle_id target enabled x expected =
     mutation x ''SET_SHADOW_MODE'' bundle_id load_bundle
       (\<lambda>db. res_bind (set_shadow_statements now bundle_id target enabled (rc_actor_id x) expected db)
          (\<lambda>db. Inr (audit_bundle c x (if enabled then ''SHADOW_START'' else ''SHADOW_STOP'') bundle_id db, ())))
       (\<lambda>_. load_bundle bundle_id)"

definition activation_operation :: "rstr \<Rightarrow> string option" where
  "activation_operation t = (if t = lit ''ACTIVATE'' then Some ''ACTIVATE_POLICY_VERSION''
     else if t = lit ''ROLLBACK'' then Some ''ROLLBACK_POLICY'' else None)"

text \<open>The administrators that approved a version, each counted once.\<close>

definition administrators :: "uuid \<Rightarrow> policy_tables \<Rightarrow> rstr list" where
  "administrators version db =
     remdups (map pa_administrator_id (filter (\<lambda>r. pa_policy_version_id r = version) (db_approvals db)))"

definition activatable :: "policy_state \<Rightarrow> bool" where
  "activatable s \<longleftrightarrow> s = PsValidated \<or> s = PsShadow \<or> s = PsActive \<or> s = PsRetired"

definition activation_checks :: "uuid \<Rightarrow> uuid \<Rightarrow> i64 \<Rightarrow> policy_tables \<Rightarrow> repo_error + bundle_row" where
  "activation_checks bundle_id target expected db =
     res_bind (fetch_one (\<lambda>r. br_id r = bundle_id) (db_bundles db)) (\<lambda>bundle.
     res_bind (ensure_that (br_version bundle = expected) ''policy bundle version conflict'') (\<lambda>_.
     res_bind (fetch_one (in_bundle target bundle_id) (db_versions db)) (\<lambda>version.
     res_bind (ensure_that (activatable (vr_state version)) ''target policy version is not publishable'') (\<lambda>_.
     res_bind (ensure_that (vr_published_at version \<noteq> None) ''target policy version has not been published'') (\<lambda>_.
     res_bind (ensure_that (\<not> (br_scope_type bundle = StPlatform \<and> br_mandatory bundle)
         \<or> 2 \<le> length (administrators target db))
       ''global mandatory policy activation requires two distinct administrators'') (\<lambda>_. Inr bundle))))))"

definition retire_previous :: "uuid option \<Rightarrow> uuid \<Rightarrow> policy_tables \<Rightarrow> policy_tables" where
  "retire_previous previous target db = (case previous of
       None \<Rightarrow> db
     | Some p \<Rightarrow> if p = target then db else set_version_state (\<lambda>r. vr_id r = p) PsRetired db)"

definition activate_statements ::
  "date_time \<Rightarrow> uuid \<Rightarrow> uuid \<Rightarrow> string \<Rightarrow> rstr \<Rightarrow> i64 \<Rightarrow> policy_tables \<Rightarrow> repo_error + policy_tables" where
  "activate_statements now bundle_id target activation_type actor expected db =
     res_bind (activation_checks bundle_id target expected db) (\<lambda>bundle.
     res_bind (update_increasing (\<lambda>r. br_id r = bundle_id) br_version
       (\<lambda>r. r\<lparr>br_active_version_id := Some target,
          br_shadow_version_id := (if br_shadow_version_id r = Some target then None else br_shadow_version_id r),
          br_version := br_version r + 1, br_updated_at := now\<rparr>) (db_bundles db)) (\<lambda>rows.
     let db1 = db\<lparr>db_bundles := rows, db_versions := update_rows (\<lambda>r. vr_id r = target)
            (\<lambda>r. r\<lparr>vr_state := PsActive, vr_published_at := Some (or_current now (vr_published_at r))\<rparr>)
            (db_versions db)\<rparr>
     in insert_activation bundle_id (br_active_version_id bundle) target activation_type actor
          (retire_previous (br_active_version_id bundle) target db1)))"

definition activate ::
  "store_context \<Rightarrow> date_time \<Rightarrow> uuid \<Rightarrow> uuid \<Rightarrow> request_context \<Rightarrow> i64 \<Rightarrow> string
     \<Rightarrow> policy_tables \<Rightarrow> policy_tables \<times> (repo_error + policy_bundle)" where
  "activate c now bundle_id target x expected activation_type db =
     (case activation_operation (lit activation_type) of
        None \<Rightarrow> (db, Inl (Refused (lit ''invalid policy activation type'')))
      | Some operation \<Rightarrow> mutation x operation bundle_id load_bundle
          (\<lambda>db. res_bind (activate_statements now bundle_id target activation_type (rc_actor_id x) expected db)
             (\<lambda>db. Inr (invalidate_bundle c bundle_id (tx_uuid (st_text c) target) (expected + 1)
                (audit_bundle c x activation_type bundle_id db), ())))
          (\<lambda>_. load_bundle bundle_id) db)"

section \<open>The policies of an action\<close>

text \<open>
  The join of the bundles with their active and their shadow version. Comparing with a column that is
  null gives null, which does not read as a \<open>bool\<close>.
\<close>

definition joined :: "bundle_row \<Rightarrow> version_row \<Rightarrow> bool" where
  "joined b v \<longleftrightarrow> br_active_version_id b = Some (vr_id v) \<or> br_shadow_version_id b = Some (vr_id v)"

definition row_order :: "bundle_row \<times> version_row \<Rightarrow> nat \<times> int \<times> int" where
  "row_order x = (case x of (b, v) \<Rightarrow> (scope_precedence (br_scope_type b), sint (br_priority b), sint (vr_version v)))"

definition policy_rows :: "policy_tables \<Rightarrow> (bundle_row \<times> version_row) list" where
  "policy_rows db = sort_key row_order (concat (map (\<lambda>b. map (Pair b) (filter (joined b) (db_versions db)))
     (filter (\<lambda>b. br_state b = BsActive) (db_bundles db))))"

definition is_shadow :: "bundle_row \<Rightarrow> version_row \<Rightarrow> repo_error + bool" where
  "is_shadow b v = (case br_shadow_version_id b of None \<Rightarrow> Inl UnexpectedNull | Some s \<Rightarrow> Inr (vr_id v = s))"

definition policy_of_row :: "paction \<Rightarrow> bundle_row \<times> version_row \<Rightarrow> repo_error + active_policy option" where
  "policy_of_row a x = (case x of (b, v) \<Rightarrow>
     res_bind (bundle_from_row b) (\<lambda>bundle.
       if \<not> applies_to (pb_scope bundle) a then Inr None
       else res_bind (version_from_row v) (\<lambda>version.
            res_bind (is_shadow b v) (\<lambda>shadow.
              Inr (Some \<lparr>ap_bundle = bundle, ap_version = version\<lparr>pv_bundle_id := br_id b\<rparr>, ap_shadow = shadow\<rparr>)))))"

definition stored_active_policies :: "policy_tables \<Rightarrow> paction \<Rightarrow> repo_error + active_policy list" where
  "stored_active_policies db a = res_bind (try_map (policy_of_row a) (policy_rows db)) (\<lambda>ps.
     Inr (List.map_filter (\<lambda>x. x) ps))"

end
