(* ===== verification/PolicyLifecycle.thy ===== *)
theory PolicyLifecycle
  imports PolicyStore
begin

text \<open>
  The life of a policy: the requests that change the tables of \<open>PolicyStore\<close>, the states they reach
  from a given one, and what holds in all of these.
\<close>

section \<open>Requests\<close>

datatype policy_request =
  CreateBundle rstr rstr scope bool i32
| UpdateBundle uuid "rstr option" "rstr option" "bool option" "i32 option" i64
| TransitionBundle uuid policy_bundle_state i64
| CreateDraft uuid policy_language rstr policy_manifest i64
| MarkValidated uuid rstr "byte list" rstr json
| CreateFixture uuid rstr paction feature_snapshot "effect list"
| UpdateFixture uuid rstr paction feature_snapshot "effect list" i64
| DeleteFixture uuid i64
| RecordTestRun uuid bool json
| Publish uuid i64
| Approve uuid
| SetShadow uuid uuid bool i64
| Activate uuid uuid i64 string

text \<open>A request comes with its context, the clock and the identifier that is made for it.\<close>

fun serve :: "store_context \<Rightarrow> request_context \<Rightarrow> date_time \<Rightarrow> uuid \<Rightarrow> policy_request \<Rightarrow> policy_tables \<Rightarrow> policy_tables" where
  "serve c x now i (CreateBundle n d s m p) db = fst (create_bundle c now i n d s m p x db)"
| "serve c x now i (UpdateBundle b n d m p v) db = fst (update_bundle c now b n d m p v x db)"
| "serve c x now i (TransitionBundle b s v) db = fst (transition_bundle c now b s v x db)"
| "serve c x now i (CreateDraft b l s m v) db = fst (create_draft c now i b l s m x v db)"
| "serve c x now i (MarkValidated t r a h d) db = fst (mark_validated c now t r a h d x db)"
| "serve c x now i (CreateFixture t n a f w) db = fst (create_fixture c now i t n a f w x db)"
| "serve c x now i (UpdateFixture j n a f w v) db = fst (update_fixture c now j n a f w v x db)"
| "serve c x now i (DeleteFixture j v) db = fst (delete_fixture c j v x db)"
| "serve c x now i (RecordTestRun t p r) db = fst (record_test_run now i t p r x db)"
| "serve c x now i (Publish t v) db = fst (publish c now t x v db)"
| "serve c x now i (Approve t) db = fst (approve c now t x db)"
| "serve c x now i (SetShadow b t e v) db = fst (set_shadow c now b t e x v db)"
| "serve c x now i (Activate b t v k) db = fst (activate c now b t x v k db)"

inductive reaches :: "store_context \<Rightarrow> policy_tables \<Rightarrow> policy_tables \<Rightarrow> bool" for c where
  start: "reaches c db db"
| request: "reaches c db db' \<Longrightarrow> reaches c db (serve c x now i q db')"

section \<open>Rows by identifier\<close>

definition bundle_of :: "policy_tables \<Rightarrow> uuid \<Rightarrow> bundle_row option" where
  "bundle_of db i = List.find (\<lambda>r. br_id r = i) (db_bundles db)"

definition version_of :: "policy_tables \<Rightarrow> uuid \<Rightarrow> version_row option" where
  "version_of db i = List.find (\<lambda>r. vr_id r = i) (db_versions db)"

lemma find_append_one:
  "List.find p (rs @ [r]) = (case List.find p rs of None \<Rightarrow> if p r then Some r else None | Some q \<Rightarrow> Some q)"
  by (induction rs) auto

lemma find_update_rows:
  "(\<And>r. g (f r) = g r) \<Longrightarrow> List.find (\<lambda>r. g r = i) (update_rows p f rs)
     = map_option (\<lambda>r. if p r then f r else r) (List.find (\<lambda>r. g r = i) rs)"
  by (induction rs) (auto simp: update_rows_def)

lemma find_none: "list_all (\<lambda>q. g q \<noteq> i \<and> R q) rs \<Longrightarrow> List.find (\<lambda>r. g r = i) rs = None"
  by (induction rs) auto

lemma bundle_of_id: "bundle_of db i = Some b \<Longrightarrow> br_id b = i"
  by (auto simp: bundle_of_def find_Some_iff)

lemma version_of_id: "version_of db i = Some v \<Longrightarrow> vr_id v = i"
  by (auto simp: version_of_def find_Some_iff)

lemma fetch_bundle [simp]:
  "fetch_one (\<lambda>r. br_id r = i) (db_bundles db) = Inr b \<longleftrightarrow> bundle_of db i = Some b"
  by (simp add: fetch_one_def bundle_of_def)

lemma fetch_version [simp]:
  "fetch_one (\<lambda>r. vr_id r = i) (db_versions db) = Inr v \<longleftrightarrow> version_of db i = Some v"
  by (simp add: fetch_one_def version_of_def)

lemma ensure_that_Inr [simp]: "ensure_that b m = Inr u \<longleftrightarrow> b"
  by (simp add: ensure_that_def)

lemma constraint_Inr [simp]: "constraint b = Inr u \<longleftrightarrow> b"
  by (simp add: constraint_def)

lemma update_increasing_Inr:
  "update_increasing p g f rs = Inr rows \<longleftrightarrow>
     rows = update_rows p f rs \<and> list_all (\<lambda>r. can_increase (g r)) (filter p rs)"
  by (auto simp: update_increasing_def)

section \<open>What a mutation does to the tables\<close>

lemma mutation_commits:
  assumes "fst (mutation x operation i replay statements result db) = db'"
  obtains "db' = db"
  | b where "statements (db\<lparr>db_idempotency := db_idempotency db @
        [\<lparr>mi_service_principal = rc_service_principal x, mi_actor_id = rc_actor_id x,
          mi_idempotency_key = rc_idempotency_key x, mi_operation = lit operation, mi_resource_id = i\<rparr>]\<rparr>) = Inr (db', b)"
  using assms by (auto simp: mutation_def claim_policy_idempotency_def split: sum.splits option.splits claim.splits if_splits)

text \<open>
  The part of the tables a policy's life is about, up to what no invariant depends on; a predicate on
  it is kept by a mutation when its statements keep it.
\<close>

definition same_life :: "policy_tables \<Rightarrow> policy_tables \<Rightarrow> bool" where
  "same_life db db' \<longleftrightarrow> db_bundles db' = db_bundles db \<and> db_versions db' = db_versions db
     \<and> db_approvals db' = db_approvals db"

locale life_predicate =
  fixes holds :: "policy_tables \<Rightarrow> bool"
  assumes same: "\<And>db db'. same_life db db' \<Longrightarrow> holds db \<Longrightarrow> holds db'"
begin

lemma mutation_keeps:
  assumes db: "holds db" and keep: "\<And>db1 db2 b. same_life db db1 \<Longrightarrow> holds db1 \<Longrightarrow> statements db1 = Inr (db2, b) \<Longrightarrow> holds db2"
  shows "holds (fst (mutation x operation i replay statements result db))"
proof -
  let ?claimed = "db\<lparr>db_idempotency := db_idempotency db @
        [\<lparr>mi_service_principal = rc_service_principal x, mi_actor_id = rc_actor_id x,
          mi_idempotency_key = rc_idempotency_key x, mi_operation = lit operation, mi_resource_id = i\<rparr>]\<rparr>"
  from db have "holds ?claimed" by (rule same [rotated]) (simp add: same_life_def)
  moreover have "same_life db ?claimed" by (simp add: same_life_def)
  ultimately show ?thesis
    using db keep by (cases rule: mutation_commits [OF refl, of x operation i replay statements result db]) (metis | blast)+
qed

lemma audit_keeps [simp]: "holds (insert_audit x a t r b d db) \<longleftrightarrow> holds db"
  by (auto simp: insert_audit_def same_life_def elim!: same [rotated])

lemma outbox_keeps [simp]: "holds (insert_outbox a i t e k p db) \<longleftrightarrow> holds db"
  by (auto simp: insert_outbox_def same_life_def elim!: same [rotated])

lemma audits_keep [simp]:
  "holds (audit_version c x a i db) \<longleftrightarrow> holds db" "holds (audit_fixture c x a i db) \<longleftrightarrow> holds db"
  "holds (audit_bundle c x a i db) \<longleftrightarrow> holds db" "holds (invalidate_bundle c i t v db) \<longleftrightarrow> holds db"
  by (simp_all add: audit_version_def audit_fixture_def audit_bundle_def invalidate_bundle_def)

end

section \<open>The invariant\<close>

text \<open>What the state of a version says of its columns.\<close>

definition version_ok :: "version_row \<Rightarrow> bool" where
  "version_ok v \<longleftrightarrow> vr_state v \<noteq> PsDisabled
     \<and> (vr_state v = PsDraft \<longrightarrow> vr_published_at v = None)
     \<and> (vr_state v \<noteq> PsDraft \<longrightarrow> vr_compiled_artifact v \<noteq> None \<and> vr_validated_at v \<noteq> None)
     \<and> (vr_state v \<in> {PsShadow, PsActive, PsRetired} \<longrightarrow> vr_published_at v \<noteq> None)"

definition active_ok :: "policy_tables \<Rightarrow> bool" where
  "active_ok db \<longleftrightarrow> (\<forall>i b t. bundle_of db i = Some b \<longrightarrow> br_active_version_id b = Some t \<longrightarrow>
     (\<exists>v. version_of db t = Some v \<and> vr_bundle_id v = i \<and> vr_state v = PsActive))"

definition sole_ok :: "policy_tables \<Rightarrow> bool" where
  "sole_ok db \<longleftrightarrow> (\<forall>t v. version_of db t = Some v \<longrightarrow> vr_state v = PsActive \<longrightarrow>
     (\<exists>b. bundle_of db (vr_bundle_id v) = Some b \<and> br_active_version_id b = Some t))"

definition published_in :: "policy_tables \<Rightarrow> uuid \<Rightarrow> uuid \<Rightarrow> bool" where
  "published_in db i t \<longleftrightarrow> (\<exists>v. version_of db t = Some v \<and> vr_bundle_id v = i \<and> vr_published_at v \<noteq> None)"

definition shadow_ok :: "policy_tables \<Rightarrow> bool" where
  "shadow_ok db \<longleftrightarrow> (\<forall>i b t. bundle_of db i = Some b \<longrightarrow> br_shadow_version_id b = Some t \<longrightarrow> published_in db i t)"

definition versions_ok :: "policy_tables \<Rightarrow> bool" where
  "versions_ok db \<longleftrightarrow> (\<forall>t v. version_of db t = Some v \<longrightarrow> version_ok v)"

text \<open>The active version of a mandatory platform bundle has two administrators, or was there at first.\<close>

definition needs_approval :: "bundle_row \<Rightarrow> bool" where
  "needs_approval b \<longleftrightarrow> br_scope_type b = StPlatform \<and> br_mandatory b"

definition approved_ok :: "uuid list \<Rightarrow> policy_tables \<Rightarrow> bool" where
  "approved_ok early db \<longleftrightarrow> (\<forall>i b t. bundle_of db i = Some b \<longrightarrow> br_active_version_id b = Some t \<longrightarrow>
     needs_approval b \<longrightarrow> t \<in> set early \<or> 2 \<le> length (administrators t db))"

definition keys_ok :: "policy_tables \<Rightarrow> bool" where
  "keys_ok db \<longleftrightarrow> distinct (map br_id (db_bundles db)) \<and> distinct (map vr_id (db_versions db))"

definition life_ok :: "uuid list \<Rightarrow> policy_tables \<Rightarrow> bool" where
  "life_ok early db \<longleftrightarrow> keys_ok db \<and> active_ok db \<and> sole_ok db \<and> shadow_ok db \<and> versions_ok db \<and> approved_ok early db"

named_theorems life_defs

lemmas [life_defs] = life_ok_def keys_ok_def active_ok_def sole_ok_def shadow_ok_def versions_ok_def approved_ok_def
  published_in_def needs_approval_def

interpretation life: life_predicate "life_ok early" for early
  by unfold_locales (simp add: same_life_def life_defs bundle_of_def version_of_def administrators_def)

lemma active_version: "life_ok early db \<Longrightarrow> bundle_of db i = Some b \<Longrightarrow> br_active_version_id b = Some t \<Longrightarrow>
    \<exists>v. version_of db t = Some v \<and> vr_bundle_id v = i \<and> vr_state v = PsActive"
  unfolding life_ok_def active_ok_def by blast

lemma sole_version: "life_ok early db \<Longrightarrow> version_of db t = Some v \<Longrightarrow> vr_state v = PsActive \<Longrightarrow>
    \<exists>b. bundle_of db (vr_bundle_id v) = Some b \<and> br_active_version_id b = Some t"
  unfolding life_ok_def sole_ok_def by blast

lemma shadow_version: "life_ok early db \<Longrightarrow> bundle_of db i = Some b \<Longrightarrow> br_shadow_version_id b = Some t \<Longrightarrow>
    published_in db i t"
  unfolding life_ok_def shadow_ok_def by blast

lemma approved_version: "life_ok early db \<Longrightarrow> bundle_of db i = Some b \<Longrightarrow> br_active_version_id b = Some t \<Longrightarrow>
    needs_approval b \<Longrightarrow> t \<in> set early \<or> 2 \<le> length (administrators t db)"
  unfolding life_ok_def approved_ok_def by blast

lemma version_is_ok: "life_ok early db \<Longrightarrow> version_of db t = Some v \<Longrightarrow> version_ok v"
  unfolding life_ok_def versions_ok_def by blast

section \<open>Steps that activate nothing\<close>

fun bundle_step :: "bundle_row option \<Rightarrow> bundle_row option \<Rightarrow> bool" where
  "bundle_step None None = True"
| "bundle_step None (Some b) \<longleftrightarrow> br_active_version_id b = None"
| "bundle_step (Some b) (Some b') \<longleftrightarrow> br_active_version_id b' = br_active_version_id b
     \<and> br_scope_type b' = br_scope_type b
     \<and> (br_mandatory b' \<longrightarrow> br_mandatory b \<or> br_active_version_id b = None)"
| "bundle_step _ _ = False"

fun version_step :: "version_row option \<Rightarrow> version_row option \<Rightarrow> bool" where
  "version_step None None = True"
| "version_step None (Some v) \<longleftrightarrow> vr_state v \<noteq> PsActive \<and> version_ok v"
| "version_step (Some v) (Some v') \<longleftrightarrow> (vr_state v' = PsActive \<longleftrightarrow> vr_state v = PsActive)
     \<and> vr_bundle_id v' = vr_bundle_id v \<and> (vr_published_at v \<noteq> None \<longrightarrow> vr_published_at v' \<noteq> None)
     \<and> (version_ok v \<longrightarrow> version_ok v')"
| "version_step _ _ = False"

lemma bundle_step_Some2: "bundle_step x (Some b') \<Longrightarrow> br_active_version_id b' = Some t \<Longrightarrow>
    \<exists>b. x = Some b \<and> br_active_version_id b = Some t \<and> (needs_approval b' \<longrightarrow> needs_approval b)"
  by (cases x) (auto simp: needs_approval_def)

lemma bundle_step_Some1: "bundle_step (Some b) y \<Longrightarrow>
    \<exists>b'. y = Some b' \<and> br_active_version_id b' = br_active_version_id b"
  by (cases y) auto

lemma version_step_Some1: "version_step (Some v) y \<Longrightarrow>
    \<exists>v'. y = Some v' \<and> (vr_state v' = PsActive \<longleftrightarrow> vr_state v = PsActive) \<and> vr_bundle_id v' = vr_bundle_id v
      \<and> (vr_published_at v \<noteq> None \<longrightarrow> vr_published_at v' \<noteq> None)"
  by (cases y) auto

lemma version_step_Some2: "version_step x (Some v') \<Longrightarrow> vr_state v' = PsActive \<Longrightarrow>
    \<exists>v. x = Some v \<and> vr_state v = PsActive \<and> vr_bundle_id v' = vr_bundle_id v"
  by (cases x) auto

lemma version_step_ok: "version_step x (Some v') \<Longrightarrow> (\<And>v. x = Some v \<Longrightarrow> version_ok v) \<Longrightarrow> version_ok v'"
  by (cases x) auto

lemma life_frame:
  assumes ok: "life_ok early db" and keys: "keys_ok db'"
    and bundles: "\<And>i. bundle_step (bundle_of db i) (bundle_of db' i)"
    and versions: "\<And>t. version_step (version_of db t) (version_of db' t)"
    and shadows: "\<And>i b t. bundle_of db' i = Some b \<Longrightarrow> br_shadow_version_id b = Some t \<Longrightarrow>
        (\<exists>b0. bundle_of db i = Some b0 \<and> br_shadow_version_id b0 = Some t) \<or> published_in db' i t"
    and approvals: "\<And>t. length (administrators t db) \<le> length (administrators t db')"
  shows "life_ok early db'"
proof -
  have "active_ok db'"
    unfolding active_ok_def
  proof (intro allI impI)
    fix i b' t assume b': "bundle_of db' i = Some b'" "br_active_version_id b' = Some t"
    with bundle_step_Some2 bundles [of i] obtain b where "bundle_of db i = Some b" "br_active_version_id b = Some t" by metis
    with ok obtain v where "version_of db t = Some v" "vr_bundle_id v = i" "vr_state v = PsActive"
      using active_version by blast
    with version_step_Some1 versions [of t]
    show "\<exists>v. version_of db' t = Some v \<and> vr_bundle_id v = i \<and> vr_state v = PsActive" by metis
  qed
  moreover have "sole_ok db'"
    unfolding sole_ok_def
  proof (intro allI impI)
    fix t v' assume "version_of db' t = Some v'" "vr_state v' = PsActive"
    with version_step_Some2 versions [of t]
    obtain v where "version_of db t = Some v" "vr_state v = PsActive" and v: "vr_bundle_id v' = vr_bundle_id v" by metis
    with ok obtain b where "bundle_of db (vr_bundle_id v) = Some b" "br_active_version_id b = Some t"
      using sole_version by blast
    with bundle_step_Some1 bundles [of "vr_bundle_id v"] v
    show "\<exists>b. bundle_of db' (vr_bundle_id v') = Some b \<and> br_active_version_id b = Some t" by metis
  qed
  moreover have "shadow_ok db'"
    unfolding shadow_ok_def
  proof (intro allI impI)
    fix i b' t assume b': "bundle_of db' i = Some b'" "br_shadow_version_id b' = Some t"
    have "published_in db' i t" if "bundle_of db i = Some b0" "br_shadow_version_id b0 = Some t" for b0
    proof -
      from that ok obtain v where "version_of db t = Some v" "vr_bundle_id v = i" "vr_published_at v \<noteq> None"
        using shadow_version unfolding published_in_def by blast
      with version_step_Some1 versions [of t] show ?thesis unfolding published_in_def by metis
    qed
    with shadows [OF b'] show "published_in db' i t" by blast
  qed
  moreover have "versions_ok db'"
    unfolding versions_ok_def using version_is_ok [OF ok] version_step_ok versions by metis
  moreover have "approved_ok early db'"
    unfolding approved_ok_def
  proof (intro allI impI)
    fix i b' t assume "bundle_of db' i = Some b'" "br_active_version_id b' = Some t" "needs_approval b'"
    with bundle_step_Some2 bundles [of i]
    obtain b where "bundle_of db i = Some b" "br_active_version_id b = Some t" "needs_approval b" by metis
    with ok have "t \<in> set early \<or> 2 \<le> length (administrators t db)" by (rule approved_version)
    with approvals [of t] show "t \<in> set early \<or> 2 \<le> length (administrators t db')" by linarith
  qed
  ultimately show ?thesis using keys by (simp add: life_ok_def)
qed

section \<open>Every request keeps the invariant\<close>

lemma bundle_of_other [simp]:
  "bundle_of (db\<lparr>db_versions := vs\<rparr>) i = bundle_of db i" "bundle_of (db\<lparr>db_fixtures := fs\<rparr>) i = bundle_of db i"
  "bundle_of (db\<lparr>db_test_runs := ts\<rparr>) i = bundle_of db i" "bundle_of (db\<lparr>db_approvals := as\<rparr>) i = bundle_of db i"
  "bundle_of (db\<lparr>db_activations := acs\<rparr>) i = bundle_of db i"
  by (simp_all add: bundle_of_def)

lemma version_of_other [simp]:
  "version_of (db\<lparr>db_bundles := bs\<rparr>) i = version_of db i" "version_of (db\<lparr>db_fixtures := fs\<rparr>) i = version_of db i"
  "version_of (db\<lparr>db_test_runs := ts\<rparr>) i = version_of db i" "version_of (db\<lparr>db_approvals := as\<rparr>) i = version_of db i"
  "version_of (db\<lparr>db_activations := acs\<rparr>) i = version_of db i"
  by (simp_all add: version_of_def)

lemma administrators_other [simp]:
  "administrators t (db\<lparr>db_bundles := bs\<rparr>) = administrators t db"
  "administrators t (db\<lparr>db_versions := vs\<rparr>) = administrators t db"
  by (simp_all add: administrators_def)

lemma bundle_of_update:
  "(\<And>r. br_id (f r) = br_id r) \<Longrightarrow> bundle_of (db\<lparr>db_bundles := update_rows p f (db_bundles db')\<rparr>) i
     = map_option (\<lambda>r. if p r then f r else r) (bundle_of db' i)"
  by (simp add: bundle_of_def find_update_rows)

lemma version_of_update:
  "(\<And>r. vr_id (f r) = vr_id r) \<Longrightarrow> version_of (db\<lparr>db_versions := update_rows p f (db_versions db')\<rparr>) i
     = map_option (\<lambda>r. if p r then f r else r) (version_of db' i)"
  by (simp add: version_of_def find_update_rows)

lemma find_rows [simp]:
  "List.find (\<lambda>r. br_id r = i) (db_bundles db) = bundle_of db i"
  "List.find (\<lambda>r. vr_id r = i) (db_versions db) = version_of db i"
  by (simp_all add: bundle_of_def version_of_def)

lemma bundle_step_refl [simp]: "bundle_step x x"
  by (cases x) auto

lemma version_step_refl [simp]: "version_step (Some v) (Some v)" "version_step None None"
  by auto

lemma map_update_rows: "(\<And>r. g (f r) = g r) \<Longrightarrow> map g (update_rows p f rs) = map g rs"
  by (simp add: update_rows_def)

lemma life_keys: "life_ok early db \<Longrightarrow> keys_ok db"
  by (simp add: life_ok_def)

lemma life_update_bundles:
  assumes ok: "life_ok early db" and id: "\<And>r. br_id (f r) = br_id r"
    and step: "\<And>r. p r \<Longrightarrow> bundle_of db (br_id r) = Some r \<Longrightarrow> bundle_step (Some r) (Some (f r))"
    and shadow: "\<And>r t. p r \<Longrightarrow> bundle_of db (br_id r) = Some r \<Longrightarrow> br_shadow_version_id (f r) = Some t \<Longrightarrow>
      br_shadow_version_id r = Some t \<or> published_in db (br_id r) t"
  shows "life_ok early (db\<lparr>db_bundles := update_rows p f (db_bundles db)\<rparr>)" (is "life_ok early ?db")
proof (rule life_frame [OF ok])
  show "keys_ok ?db" using life_keys [OF ok] by (simp add: keys_ok_def map_update_rows id)
next
  fix i show "bundle_step (bundle_of db i) (bundle_of ?db i)"
    using step bundle_of_id by (cases "bundle_of db i") (auto simp: bundle_of_update id simp del: bundle_step.simps(3))
next
  fix t show "version_step (version_of db t) (version_of ?db t)" by (cases "version_of db t") simp_all
next
  fix i b t assume b: "bundle_of ?db i = Some b" "br_shadow_version_id b = Some t"
  then obtain r where r: "bundle_of db i = Some r" "b = (if p r then f r else r)" by (auto simp: bundle_of_update id)
  with b shadow [of r t] bundle_of_id [OF r(1)]
  show "(\<exists>b0. bundle_of db i = Some b0 \<and> br_shadow_version_id b0 = Some t) \<or> published_in ?db i t"
    by (auto simp: published_in_def split: if_splits)
qed simp

lemma life_update_versions:
  assumes ok: "life_ok early db" and id: "\<And>r. vr_id (f r) = vr_id r"
    and step: "\<And>v. p v \<Longrightarrow> version_of db (vr_id v) = Some v \<Longrightarrow> version_step (Some v) (Some (f v))"
  shows "life_ok early (db\<lparr>db_versions := update_rows p f (db_versions db)\<rparr>)" (is "life_ok early ?db")
proof (rule life_frame [OF ok])
  show "keys_ok ?db" using life_keys [OF ok] by (simp add: keys_ok_def map_update_rows id)
next
  fix i show "bundle_step (bundle_of db i) (bundle_of ?db i)" by simp
next
  fix t show "version_step (version_of db t) (version_of ?db t)"
    using step version_of_id by (cases "version_of db t") (auto simp: version_of_update id simp del: version_step.simps(3))
qed simp_all

lemma life_other [simp]:
  "life_ok early (db\<lparr>db_fixtures := fs\<rparr>) \<longleftrightarrow> life_ok early db"
  "life_ok early (db\<lparr>db_test_runs := ts\<rparr>) \<longleftrightarrow> life_ok early db"
  "life_ok early (db\<lparr>db_activations := acs\<rparr>) \<longleftrightarrow> life_ok early db"
  by (auto simp: same_life_def elim!: life.same [rotated])

lemma life_insert_bundle:
  assumes ok: "life_ok early db" and ins: "insert_bundle r db = Inr db'"
    and fresh: "br_active_version_id r = None" "br_shadow_version_id r = None"
  shows "life_ok early db'"
proof (rule life_frame [OF ok])
  show "keys_ok db'"
    using ins life_keys [OF ok] by (auto simp: insert_bundle_def keys_ok_def list_all_iff) metis
  have new: "bundle_of db' i = (if i = br_id r then Some r else bundle_of db i)" for i
    using ins find_none [of br_id "br_id r" _ "db_bundles db"]
    by (auto simp: insert_bundle_def bundle_of_def find_append_one simp del: find_rows split: option.split)
  have none: "bundle_of db (br_id r) = None"
    using ins find_none [of br_id "br_id r" _ "db_bundles db"] by (auto simp: insert_bundle_def)
  show "bundle_step (bundle_of db i) (bundle_of db' i)" for i using none fresh by (auto simp: new)
  show "version_step (version_of db t) (version_of db' t)" for t
    using ins by (cases "version_of db t") (auto simp: insert_bundle_def)
  show "length (administrators t db) \<le> length (administrators t db')" for t
    using ins by (auto simp: insert_bundle_def)
  show "(\<exists>b0. bundle_of db i = Some b0 \<and> br_shadow_version_id b0 = Some t) \<or> published_in db' i t"
    if "bundle_of db' i = Some b" "br_shadow_version_id b = Some t" for i b t
    using that fresh by (auto simp: new split: if_splits)
qed

lemma life_insert_version:
  assumes ok: "life_ok early db" and ins: "insert_version r db = Inr db'"
    and fresh: "vr_state r = PsDraft" "vr_published_at r = None"
  shows "life_ok early db'"
proof (rule life_frame [OF ok])
  show "keys_ok db'"
    using ins life_keys [OF ok] by (auto simp: insert_version_def keys_ok_def list_all_iff) metis
  have new: "version_of db' t = (if t = vr_id r then Some r else version_of db t)" for t
    using ins find_none [of vr_id "vr_id r" _ "db_versions db"]
    by (auto simp: insert_version_def version_of_def find_append_one simp del: find_rows split: option.split)
  have none: "version_of db (vr_id r) = None"
    using ins find_none [of vr_id "vr_id r" _ "db_versions db"] by (auto simp: insert_version_def)
  show "version_step (version_of db t) (version_of db' t)" for t
    using none fresh by (cases "version_of db t") (auto simp: new version_ok_def)
  show "bundle_step (bundle_of db i) (bundle_of db' i)" for i using ins by (auto simp: insert_version_def)
  show "length (administrators t db) \<le> length (administrators t db')" for t
    using ins by (auto simp: insert_version_def)
  show "(\<exists>b0. bundle_of db i = Some b0 \<and> br_shadow_version_id b0 = Some t) \<or> published_in db' i t"
    if "bundle_of db' i = Some b" "br_shadow_version_id b = Some t" for i b t
    using that ins by (auto simp: insert_version_def)
qed

text \<open>One lemma for each operation; only the last activates a version.\<close>

lemma create_bundle_keeps: "life_ok early db \<Longrightarrow> life_ok early (fst (create_bundle c now i n d s m p x db))"
  by (auto simp: create_bundle_def split: sum.split intro!: life.mutation_keeps)
    (rule life_insert_bundle, assumption+, simp_all)

lemma load_bundle_of: "load_bundle i db = Inr cur \<Longrightarrow> \<exists>b. bundle_of db i = Some b
    \<and> pb_mandatory cur = br_mandatory b \<and> pb_active_version_id cur = br_active_version_id b
    \<and> pb_version cur = br_version b \<and> pb_state cur = br_state b"
  by (auto simp: load_bundle_def bundle_from_row_def)

lemma update_bundle_row_keeps:
  assumes "life_ok early db" "update_bundle_row now i n d m p v db = Inr db'"
    and "\<And>b. bundle_of db i = Some b \<Longrightarrow> m = br_mandatory b \<or> br_active_version_id b = None"
  shows "life_ok early db'"
  using assms by (auto simp: update_bundle_row_def Let_def update_increasing_Inr intro!: life_update_bundles)

lemma same_life_bundle: "same_life db db' \<Longrightarrow> bundle_of db' i = bundle_of db i"
  by (simp add: same_life_def bundle_of_def del: find_rows)

lemma update_bundle_keeps: "life_ok early db \<Longrightarrow> life_ok early (fst (update_bundle c now i n d m p v x db))"
proof (cases "load_bundle i db")
  case (Inr cur)
  assume ok: "life_ok early db"
  obtain b where b: "bundle_of db i = Some b" "pb_mandatory cur = br_mandatory b"
    "pb_active_version_id cur = br_active_version_id b" using load_bundle_of [OF Inr] by blast
  have mandatory: "or_current (pb_mandatory cur) m = br_mandatory b \<or> br_active_version_id b = None"
    if "update_bundle_check cur n' d' m p' = Inr u" for n' d' p' u
    using that b by (auto simp: update_bundle_check_def or_current_def split: option.splits if_splits)
  show ?thesis
    unfolding update_bundle_def update_bundle_from_def Inr Let_def
    using ok
    by (auto split: sum.split intro!: life.mutation_keeps)
      (rule update_bundle_row_keeps, assumption, assumption, drule mandatory, simp add: same_life_bundle b)
qed (simp add: update_bundle_def)

lemma transition_bundle_keeps: "life_ok early db \<Longrightarrow> life_ok early (fst (transition_bundle c now i s v x db))"
  by (auto simp: transition_bundle_def transition_row_def Let_def update_increasing_Inr
      intro!: life.mutation_keeps life_update_bundles)

lemma bump_bundle_keeps:
  "life_ok early db \<Longrightarrow> life_ok early (db\<lparr>db_bundles := update_rows (\<lambda>r. br_id r = i)
      (\<lambda>r. r\<lparr>br_version := br_version r + 1, br_updated_at := now\<rparr>) (db_bundles db)\<rparr>)"
  by (rule life_update_bundles) simp_all

lemma create_draft_statements_keeps:
  "life_ok early db \<Longrightarrow> create_draft_statements c now i b l s m x v db = Inr db' \<Longrightarrow> life_ok early db'"
  by (clarsimp simp: create_draft_statements_def update_increasing_Inr)
    (rule bump_bundle_keeps, rule life_insert_version, assumption+, simp_all)

lemma create_draft_keeps: "life_ok early db \<Longrightarrow> life_ok early (fst (create_draft c now i b l s m x v db))"
  unfolding create_draft_def
  by (erule life.mutation_keeps) (auto dest: create_draft_statements_keeps)

lemma mark_validated_keeps: "life_ok early db \<Longrightarrow> life_ok early (fst (mark_validated c now i r a h d x db))"
  by (auto simp: mark_validated_def mark_validated_statements_def Let_def version_ok_def
      intro!: life.mutation_keeps life_update_versions)

lemma bump_keeps: "life_ok early db \<Longrightarrow> bump_fixture_revision t db = Inr db' \<Longrightarrow> life_ok early db'"
  by (auto simp: bump_fixture_revision_def update_increasing_Inr version_ok_def intro!: life_update_versions)

lemma fixtures_keep:
  assumes "life_ok early db"
  shows "life_ok early (fst (create_fixture c now i t n a f w x db))"
    and "life_ok early (fst (update_fixture c now i n a f w v x db))"
    and "life_ok early (fst (delete_fixture c i v x db))"
    and "life_ok early (fst (record_test_run now i t p r x db))"
  using assms
  by (auto simp: create_fixture_def update_fixture_def delete_fixture_def record_test_run_def Let_def
      intro!: life.mutation_keeps)
    (rule bump_keeps [rotated], assumption, simp)+

lemma publish_keeps: "life_ok early db \<Longrightarrow> life_ok early (fst (publish c now i x v db))"
  by (auto simp: publish_def publish_statements_def version_ok_def intro!: life.mutation_keeps life_update_versions
      dest: version_of_id)

lemma administrators_insert: "length (administrators t db) \<le> length (administrators t (fst (insert_approval now v w db)))"
  by (auto simp: insert_approval_def administrators_def length_remdups_card_conv intro!: card_mono split: option.split)

lemma insert_approval_other [simp]:
  "bundle_of (fst (insert_approval now v w db)) i = bundle_of db i"
  "version_of (fst (insert_approval now v w db)) t = version_of db t"
  "keys_ok (fst (insert_approval now v w db)) = keys_ok db"
  by (auto simp: insert_approval_def keys_ok_def split: option.split)

lemma approve_keeps: "life_ok early db \<Longrightarrow> life_ok early (fst (approve c now i x db))"
proof -
  have "life_ok early (fst (insert_approval now i w db))" if "life_ok early db" for w db
    by (rule life_frame [OF that])
      (use life_keys [OF that] in \<open>auto simp: administrators_insert published_in_def\<close>,
        metis option.exhaust version_step_refl)
  then have "life_ok early db2" if "insert_approval now i w db1 = (db2, d)" "life_ok early db1" for w db1 db2 d
    using that by (metis fst_conv)
  then show "life_ok early db \<Longrightarrow> life_ok early (fst (approve c now i x db))"
    by (auto simp: approve_def approve_statements_def intro!: life.mutation_keeps)
qed

lemma set_state_keeps:
  "life_ok early db \<Longrightarrow> (\<And>v. p v \<Longrightarrow> version_of db (vr_id v) = Some v \<Longrightarrow>
      version_step (Some v) (Some (v\<lparr>vr_state := s\<rparr>))) \<Longrightarrow> life_ok early (set_version_state p s db)"
  unfolding set_version_state_def by (rule life_update_versions) simp_all

lemma insert_activation_keeps: "insert_activation b f t k w db = Inr db' \<Longrightarrow> life_ok early db \<Longrightarrow> life_ok early db'"
  by (auto simp: insert_activation_def)

lemma find_member: "List.find p xs = Some y \<Longrightarrow> y \<in> set xs \<and> p y"
  by (induction xs) (auto split: if_splits)

lemma fetch_in_bundle:
  "keys_ok db \<Longrightarrow> fetch_one (in_bundle t i) (db_versions db) = Inr v
     \<Longrightarrow> version_of db t = Some v \<and> vr_bundle_id v = i"
proof -
  have *: "List.find (in_bundle t i) vs = Some v \<Longrightarrow> distinct (map vr_id vs) \<Longrightarrow>
      List.find (\<lambda>r. vr_id r = t) vs = Some v \<and> vr_bundle_id v = i" for vs
  proof (induction vs)
    case (Cons r vs)
    show ?case
    proof (cases "in_bundle t i r")
      case True
      with Cons.prems show ?thesis by (simp add: in_bundle_def)
    next
      case False
      with Cons.prems have v: "List.find (in_bundle t i) vs = Some v" by simp
      from find_member [OF v] Cons.prems(2) have "vr_id r \<noteq> t" by (auto simp: in_bundle_def)
      with Cons.IH [OF v] Cons.prems(2) show ?thesis by simp
    qed
  qed simp
  assume "keys_ok db" "fetch_one (in_bundle t i) (db_versions db) = Inr v"
  with * [of "db_versions db"] show ?thesis by (simp add: fetch_one_def keys_ok_def)
qed

lemma set_shadow_statements_keeps:
  assumes ok: "life_ok early db" and st: "set_shadow_statements now i t e w v db = Inr db'"
  shows "life_ok early db'"
proof -
  let ?db = "db\<lparr>db_bundles := update_rows (\<lambda>r. br_id r = i)
      (\<lambda>r. r\<lparr>br_shadow_version_id := (if e then Some t else None), br_version := br_version r + 1,
         br_updated_at := now\<rparr>) (db_bundles db)\<rparr>"
  have "published_in db i t" if e
    using st that fetch_in_bundle [OF life_keys [OF ok], of t i] by (auto simp: set_shadow_statements_def published_in_def)
  then have db: "life_ok early ?db"
    by (intro life_update_bundles [OF ok]) (auto split: if_splits)
  have "life_ok early (move_shadow e t p ?db)" for p
  proof (cases e)
    case True
    have "version_step (Some r) (Some (r\<lparr>vr_state := PsShadow\<rparr>))"
      if "vr_id r = t \<and> vr_state r = PsValidated" "version_of ?db (vr_id r) = Some r" for r
      using st that True fetch_in_bundle [OF life_keys [OF ok], of t i]
      by (auto simp: set_shadow_statements_def version_ok_def)
    with True set_state_keeps [OF db, of "\<lambda>r. vr_id r = t \<and> vr_state r = PsValidated" PsShadow]
    show ?thesis by (simp add: move_shadow_def)
  next
    case False
    have "life_ok early (set_version_state (\<lambda>r. vr_id r = p \<and> vr_state r = PsShadow) PsValidated ?db)" for p
      by (rule set_state_keeps [OF db]) (auto simp: version_ok_def)
    with False db show ?thesis by (auto simp: move_shadow_def split: option.split)
  qed
  with st show ?thesis
    by (auto simp: set_shadow_statements_def update_increasing_Inr elim!: insert_activation_keeps)
qed

lemma set_shadow_keeps: "life_ok early db \<Longrightarrow> life_ok early (fst (set_shadow c now i t e x v db))"
  unfolding set_shadow_def
  by (erule life.mutation_keeps) (auto dest: set_shadow_statements_keeps)

lemma life_activate:
  assumes ok: "life_ok early db" and keys: "keys_ok db'"
    and b: "bundle_of db i = Some b" and u: "version_of db t = Some u" "vr_bundle_id u = i"
    and B: "\<And>j. bundle_of db' j = (if j = i then Some b' else bundle_of db j)"
    and V: "\<And>s. version_of db' s = (if s = t then Some u' else if br_active_version_id b = Some s
        then map_option (\<lambda>r. r\<lparr>vr_state := PsRetired\<rparr>) (version_of db s) else version_of db s)"
    and b': "br_active_version_id b' = Some t" "br_shadow_version_id b' \<in> {None, br_shadow_version_id b}"
    and u': "vr_state u' = PsActive" "vr_bundle_id u' = i" "version_ok u'"
    and approved: "needs_approval b' \<Longrightarrow> 2 \<le> length (administrators t db)"
    and administrators: "\<And>s. administrators s db' = administrators s db"
  shows "life_ok early db'"
proof -
  have other: "vr_bundle_id v = j \<and> vr_state v = PsActive \<longrightarrow> version_of db' s = Some v"
    if "version_of db s = Some v" "j \<noteq> i" for s v j
  proof
    assume v: "vr_bundle_id v = j \<and> vr_state v = PsActive"
    with that u have "s \<noteq> t" by auto
    moreover have "br_active_version_id b \<noteq> Some s"
      using active_version [OF ok b] v that by fastforce
    ultimately show "version_of db' s = Some v" using that by (simp add: V)
  qed
  have published: "published_in db' j s" if "published_in db j s" for j s
    using that u u' by (auto simp: published_in_def V version_ok_def)
  have "active_ok db'"
    unfolding active_ok_def
  proof (intro allI impI)
    fix j c s assume c: "bundle_of db' j = Some c" "br_active_version_id c = Some s"
    show "\<exists>v. version_of db' s = Some v \<and> vr_bundle_id v = j \<and> vr_state v = PsActive"
    proof (cases "j = i")
      case True
      with c b' u' show ?thesis by (auto simp: B V)
    next
      case False
      with c active_version [OF ok, of j c s] other show ?thesis by (auto simp: B)
    qed
  qed
  moreover have "sole_ok db'"
    unfolding sole_ok_def
  proof (intro allI impI)
    fix s v assume v: "version_of db' s = Some v" "vr_state v = PsActive"
    show "\<exists>c. bundle_of db' (vr_bundle_id v) = Some c \<and> br_active_version_id c = Some s"
    proof (cases "s = t")
      case True
      with v u' b' show ?thesis by (auto simp: B V)
    next
      case False
      with v have "version_of db s = Some v" "br_active_version_id b \<noteq> Some s" by (auto simp: V split: if_splits)
      with sole_version [OF ok _ v(2)] b show ?thesis by (auto simp: B)
    qed
  qed
  moreover have "shadow_ok db'"
    unfolding shadow_ok_def
  proof (intro allI impI)
    fix j c s assume c: "bundle_of db' j = Some c" "br_shadow_version_id c = Some s"
    then obtain c0 where "bundle_of db j = Some c0" "br_shadow_version_id c0 = Some s"
      using b b' by (auto simp: B split: if_splits)
    then show "published_in db' j s" using shadow_version [OF ok] published by blast
  qed
  moreover have "versions_ok db'"
    using version_is_ok [OF ok] active_version [OF ok b] u' unfolding versions_ok_def
    by (auto simp: V version_ok_def split: if_splits)
  moreover have "approved_ok early db'"
    using approved_version [OF ok] approved b' unfolding approved_ok_def
    by (auto simp: B administrators split: if_splits)
  ultimately show ?thesis using keys by (simp add: life_ok_def)
qed

lemma activation_checks_Inr:
  assumes "keys_ok db" "activation_checks i t v db = Inr b"
  obtains u where "bundle_of db i = Some b" "version_of db t = Some u" "vr_bundle_id u = i"
    "activatable (vr_state u)" "vr_published_at u \<noteq> None" "br_version b = v"
    "needs_approval b \<longrightarrow> 2 \<le> length (administrators t db)"
  using assms fetch_in_bundle [of db t i] by (auto simp: activation_checks_def needs_approval_def)

lemma retire_previous_views [simp]:
  "bundle_of (retire_previous p t db) j = bundle_of db j"
  "administrators s (retire_previous p t db) = administrators s db"
  "keys_ok (retire_previous p t db) = keys_ok db"
  by (auto simp: retire_previous_def set_version_state_def keys_ok_def map_update_rows split: option.split)

lemma version_of_set_state:
  "version_of (set_version_state p s db) t = map_option (\<lambda>r. if p r then r\<lparr>vr_state := s\<rparr> else r) (version_of db t)"
  unfolding set_version_state_def by (rule version_of_update) simp

lemma version_of_retire:
  "version_of (retire_previous p t db) s = (if p = Some s \<and> s \<noteq> t
     then map_option (\<lambda>r. r\<lparr>vr_state := PsRetired\<rparr>) (version_of db s) else version_of db s)"
  by (cases "version_of db s") (auto simp: retire_previous_def version_of_set_state dest: version_of_id split: option.split)

lemma insert_activation_views:
  "insert_activation b f t k w db = Inr db' \<Longrightarrow> bundle_of db' j = bundle_of db j
     \<and> version_of db' s = version_of db s \<and> administrators s db' = administrators s db \<and> keys_ok db' = keys_ok db"
  by (auto simp: insert_activation_def administrators_def keys_ok_def)

lemma activate_statements_keeps:
  assumes ok: "life_ok early db" and st: "activate_statements now i t k w v db = Inr db'"
  shows "life_ok early db'"
proof -
  let ?F = "\<lambda>r. r\<lparr>br_active_version_id := Some t,
      br_shadow_version_id := (if br_shadow_version_id r = Some t then None else br_shadow_version_id r),
      br_version := br_version r + 1, br_updated_at := now\<rparr>"
  let ?G = "\<lambda>r. r\<lparr>vr_state := PsActive, vr_published_at := Some (or_current now (vr_published_at r))\<rparr>"
  let ?db = "db\<lparr>db_bundles := update_rows (\<lambda>r. br_id r = i) ?F (db_bundles db),
      db_versions := update_rows (\<lambda>r. vr_id r = t) ?G (db_versions db)\<rparr>"
  from st obtain b where checks: "activation_checks i t v db = Inr b"
    and ins: "insert_activation i (br_active_version_id b) t k w (retire_previous (br_active_version_id b) t ?db) = Inr db'"
    by (auto simp: activate_statements_def update_increasing_Inr Let_def)
  obtain u where b: "bundle_of db i = Some b" and u: "version_of db t = Some u" "vr_bundle_id u = i"
    "activatable (vr_state u)" "vr_published_at u \<noteq> None"
    and approved: "needs_approval b \<longrightarrow> 2 \<le> length (administrators t db)"
    using activation_checks_Inr [OF life_keys [OF ok] checks] by metis
  note views = insert_activation_views [OF ins, unfolded retire_previous_views]
  have "keys_ok ?db" using life_keys [OF ok] by (simp add: keys_ok_def map_update_rows)
  with views have keys: "keys_ok db'" by simp
  have "bundle_of ?db j = (if j = i then Some (?F b) else bundle_of db j)" for j
    using b bundle_of_id [of db j] by (cases "bundle_of db j") (auto simp: bundle_of_update)
  with views have B: "bundle_of db' j = (if j = i then Some (?F b) else bundle_of db j)" for j by simp
  have "version_of ?db s = (if s = t then Some (?G u) else version_of db s)" for s
    using u(1) version_of_id [of db s] by (cases "version_of db s") (auto simp: version_of_update)
  with views have V: "version_of db' s = (if s = t then Some (?G u) else if br_active_version_id b = Some s
      then map_option (\<lambda>r. r\<lparr>vr_state := PsRetired\<rparr>) (version_of db s) else version_of db s)" for s
    by (simp add: version_of_retire)
  have "version_ok (?G u)" using u version_is_ok [OF ok u(1)] by (auto simp: version_ok_def activatable_def)
  with views u(2) approved show ?thesis
    by (intro life_activate [OF ok keys b u(1,2) B V]) (simp_all add: needs_approval_def)
qed

lemma activate_keeps: "life_ok early db \<Longrightarrow> life_ok early (fst (activate c now i t x v k db))"
  unfolding activate_def
  by (auto split: option.split intro!: life.mutation_keeps) (rule activate_statements_keeps, assumption+)

lemma serve_keeps: "life_ok early db \<Longrightarrow> life_ok early (serve c x now i q db)"
  by (cases q) (simp_all add: create_bundle_keeps update_bundle_keeps transition_bundle_keeps create_draft_keeps
      mark_validated_keeps fixtures_keep publish_keeps approve_keeps set_shadow_keeps activate_keeps)

lemma reaches_keeps: "reaches c db db' \<Longrightarrow> life_ok early db \<Longrightarrow> life_ok early db'"
  by (induction rule: reaches.induct) (simp_all add: serve_keeps)

text \<open>The tables with no rows, and some context to make requests in.\<close>

definition empty_tables :: policy_tables where
  "empty_tables = \<lparr>db_bundles = [], db_versions = [], db_fixtures = [], db_test_runs = [], db_approvals = [],
     db_activations = [], db_idempotency = [], db_audit = [], db_outbox = []\<rparr>"

lemma empty_life: "life_ok [] empty_tables"
  by (simp add: life_defs empty_tables_def bundle_of_def version_of_def)

definition some_request :: request_context where
  "some_request = \<lparr>rc_request_id = [], rc_actor_id = lit ''admin'', rc_actor_type = 1, rc_service_principal = [],
     rc_idempotency_key = lit ''key'', rc_trace_id = []\<rparr>"

definition some_store :: store_context where
  "some_store = \<lparr>st_text = \<lparr>tx_uuid = (\<lambda>i. replicate i 48), tx_number = unat\<rparr>, st_i64 = unat, st_i32 = unat,
     st_sha256 = (\<lambda>bs. replicate 64 48), st_invalidation_topic = []\<rparr>"

text \<open>
  C2 [lifecycle_invariant]: whatever requests come, the active version of a bundle is its own, is
  published, and is the only one of the bundle that is active; a shadow version is published and its
  bundle's own; the columns of a version agree with its state; and the active version of a mandatory
  platform bundle has the approval of two administrators, unless it was active from the start.
\<close>

lemma lifecycle_invariant: "life_ok early db \<Longrightarrow> reaches c db db' \<Longrightarrow> life_ok early db'"
  using reaches_keeps by blast

lemma lifecycle_invariant_witness:
  "life_ok [] (serve some_store some_request 5 1
     (CreateBundle (lit ''name'') [] \<lparr>sp_scope_type = StPlatform, sp_id = [], sp_product = None\<rparr> True 0) empty_tables)"
  by (rule lifecycle_invariant [OF empty_life reaches.request [OF reaches.start]])

section \<open>One effect for each key\<close>

definition key_used :: "request_context \<Rightarrow> policy_tables \<Rightarrow> bool" where
  "key_used x db \<longleftrightarrow> List.find (same_key x) (db_idempotency db) \<noteq> None"

lemma mutation_used: "key_used x db \<Longrightarrow> fst (mutation x operation i replay statements result db) = db"
  by (auto simp: mutation_def claim_policy_idempotency_def key_used_def split: option.splits)

text \<open>Statements leave the keys alone, so that a mutation that changed anything has used its key.\<close>

definition same_keys :: "policy_tables \<Rightarrow> policy_tables \<Rightarrow> bool" where
  "same_keys db db' \<longleftrightarrow> db_idempotency db' = db_idempotency db"

definition claims :: "request_context \<Rightarrow> policy_tables \<Rightarrow> policy_tables \<Rightarrow> bool" where
  "claims x db db' \<longleftrightarrow> db' = db \<or> (\<exists>r. db_idempotency db' = db_idempotency db @ [r] \<and> same_key x r)"

lemma claims_refl [simp]: "claims x db db"
  by (simp add: claims_def)

lemma mutation_claims:
  assumes "\<And>db1 db2 b. statements db1 = Inr (db2, b) \<Longrightarrow> same_keys db1 db2"
  shows "claims x db (fst (mutation x operation i replay statements result db))"
proof (cases rule: mutation_commits [OF refl, of x operation i replay statements result db])
  case (2 b)
  then show ?thesis using assms [OF 2] by (simp add: claims_def same_keys_def same_key_def)
qed simp

lemma claims_uses: "claims x db db' \<Longrightarrow> db' = db \<or> key_used x db'"
  by (auto simp: claims_def key_used_def find_append_one split: option.splits)

lemma claims_keeps: "claims y db db' \<Longrightarrow> key_used x db \<Longrightarrow> key_used x db'"
  by (auto simp: claims_def key_used_def find_append_one split: option.splits)

lemma same_keys_log [simp]:
  "db_idempotency (insert_audit x a t r b d db) = db_idempotency db"
  "db_idempotency (insert_outbox a i tp ev ky pl db) = db_idempotency db"
  "db_idempotency (audit_version c x a i db) = db_idempotency db"
  "db_idempotency (audit_fixture c x a i db) = db_idempotency db"
  "db_idempotency (audit_bundle c x a i db) = db_idempotency db"
  "db_idempotency (invalidate_bundle c i r v db) = db_idempotency db"
  "db_idempotency (set_version_state p s db) = db_idempotency db"
  "db_idempotency (retire_previous q tv db) = db_idempotency db"
  "db_idempotency (move_shadow en tv q db) = db_idempotency db"
  by (simp_all add: retire_previous_def move_shadow_def insert_audit_def insert_outbox_def audit_version_def audit_fixture_def audit_bundle_def
      invalidate_bundle_def set_version_state_def split: option.split)

lemma same_keys_statements:
  "insert_bundle row db = Inr db' \<Longrightarrow> db_idempotency db' = db_idempotency db"
  "update_bundle_row now i n d m p v db = Inr db' \<Longrightarrow> db_idempotency db' = db_idempotency db"
  "transition_row now i s v db = Inr (db', cur) \<Longrightarrow> db_idempotency db' = db_idempotency db"
  "create_draft_statements c now i b l src mf x v db = Inr db' \<Longrightarrow> db_idempotency db' = db_idempotency db"
  "mark_validated_statements now i r a h js db = Inr db' \<Longrightarrow> db_idempotency db' = db_idempotency db"
  "bump_fixture_revision t db = Inr db' \<Longrightarrow> db_idempotency db' = db_idempotency db"
  "publish_statements now i v db = Inr db' \<Longrightarrow> db_idempotency db' = db_idempotency db"
  "insert_approval now t w db = (db', at) \<Longrightarrow> db_idempotency db' = db_idempotency db"
  "insert_activation b f t k w db = Inr db' \<Longrightarrow> db_idempotency db' = db_idempotency db"
  by (auto simp: insert_bundle_def update_bundle_row_def transition_row_def create_draft_statements_def
      insert_version_def mark_validated_statements_def bump_fixture_revision_def publish_statements_def
      insert_approval_def insert_activation_def Let_def split: option.splits)

lemma same_keys_two [elim]: "same_keys db db' \<Longrightarrow> same_keys db' db2 \<Longrightarrow> same_keys db db2"
  by (simp add: same_keys_def)

lemma serve_claims: "claims x db (serve c x now i q db)"
proof (cases q)
  case (CreateBundle n d s m p)
  then show ?thesis
    by (auto simp: create_bundle_def same_keys_def split: sum.split intro!: mutation_claims)
      (drule same_keys_statements(1), simp)+
next
  case (UpdateBundle b n d m p v)
  then show ?thesis
    by (auto simp: update_bundle_def update_bundle_from_def Let_def same_keys_def
        split: sum.split intro!: mutation_claims)
      (drule same_keys_statements(2), simp)+
next
  case (TransitionBundle b s v)
  then show ?thesis
    by (auto simp: transition_bundle_def Let_def same_keys_def intro!: mutation_claims)
      (drule same_keys_statements(3), simp)+
next
  case (CreateDraft b l s m v)
  then show ?thesis
    by (auto simp: create_draft_def same_keys_def intro!: mutation_claims)
      (drule same_keys_statements(4), simp)+
next
  case (MarkValidated t r a h d)
  then show ?thesis
    by (auto simp: mark_validated_def same_keys_def intro!: mutation_claims)
      (drule same_keys_statements(5), simp)+
next
  case (CreateFixture t n a f w)
  then show ?thesis
    by (auto simp: create_fixture_def same_keys_def Let_def intro!: mutation_claims)
      (drule same_keys_statements(6), simp)+
next
  case (UpdateFixture j n a f w v)
  then show ?thesis
    by (auto simp: update_fixture_def same_keys_def Let_def intro!: mutation_claims)
      (drule same_keys_statements(6), simp)+
next
  case (DeleteFixture j v)
  then show ?thesis
    by (auto simp: delete_fixture_def same_keys_def Let_def intro!: mutation_claims)
      (drule same_keys_statements(6), simp)+
next
  case (RecordTestRun t p r)
  then show ?thesis
    by (auto simp: record_test_run_def same_keys_def Let_def intro!: mutation_claims)
next
  case (Publish t v)
  then show ?thesis
    by (auto simp: publish_def same_keys_def intro!: mutation_claims)
      (drule same_keys_statements(7), simp)+
next
  case (Approve t)
  then show ?thesis
    by (auto simp: approve_def approve_statements_def same_keys_def intro!: mutation_claims)
      (drule same_keys_statements(8), simp)+
next
  case (SetShadow b t e v)
  then show ?thesis
    by (auto simp: set_shadow_def set_shadow_statements_def same_keys_def update_increasing_Inr intro!: mutation_claims)
      (drule same_keys_statements(9), simp)+
next
  case (Activate b t v k)
  then show ?thesis
    by (auto simp: activate_def activate_statements_def same_keys_def update_increasing_Inr Let_def
        split: option.split intro!: mutation_claims) (drule same_keys_statements(9), simp)+
qed

lemma serve_used: "key_used x db \<Longrightarrow> serve c x now i q db = db"
  by (cases q) (simp_all add: create_bundle_def update_bundle_def update_bundle_from_def transition_bundle_def
      create_draft_def mark_validated_def create_fixture_def update_fixture_def delete_fixture_def
      record_test_run_def publish_def approve_def set_shadow_def activate_def Let_def mutation_used
      split: sum.split option.split)

lemma reaches_key: "reaches c db db' \<Longrightarrow> key_used x db \<Longrightarrow> key_used x db'"
  by (induction rule: reaches.induct) (blast intro: claims_keeps serve_claims)+



section \<open>What never changes in a version\<close>

definition version_kept :: "version_row \<Rightarrow> version_row \<Rightarrow> bool" where
  "version_kept v v' \<longleftrightarrow> vr_bundle_id v' = vr_bundle_id v \<and> vr_version v' = vr_version v
     \<and> vr_language v' = vr_language v \<and> vr_source v' = vr_source v \<and> vr_source_sha256 v' = vr_source_sha256 v
     \<and> vr_manifest v' = vr_manifest v \<and> vr_created_by v' = vr_created_by v
     \<and> (vr_state v \<noteq> PsDraft \<longrightarrow> vr_state v' \<noteq> PsDraft \<and> vr_runtime_version v' = vr_runtime_version v
        \<and> vr_compiled_artifact v' = vr_compiled_artifact v \<and> vr_artifact_sha256 v' = vr_artifact_sha256 v
        \<and> vr_validated_at v' = vr_validated_at v)
     \<and> (vr_published_at v \<noteq> None \<longrightarrow> vr_published_at v' = vr_published_at v)"

definition versions_kept :: "policy_tables \<Rightarrow> policy_tables \<Rightarrow> bool" where
  "versions_kept db db' \<longleftrightarrow> (\<forall>t v. version_of db t = Some v \<longrightarrow>
     (\<exists>v'. version_of db' t = Some v' \<and> version_kept v v'))"

lemma versions_kept_refl [simp]: "versions_kept db db"
  by (simp add: versions_kept_def version_kept_def)

lemma version_kept_trans: "version_kept v v1 \<Longrightarrow> version_kept v1 v2 \<Longrightarrow> version_kept v v2"
  by (auto simp: version_kept_def)

lemma versions_kept_trans: "versions_kept db db1 \<Longrightarrow> versions_kept db1 db2 \<Longrightarrow> versions_kept db db2"
  unfolding versions_kept_def by (metis version_kept_trans)

interpretation kept: life_predicate "versions_kept db" for db
  by unfold_locales (simp add: versions_kept_def same_life_def version_of_def del: find_rows)

lemma kept_other [simp]:
  "versions_kept db (db'\<lparr>db_bundles := bs\<rparr>) \<longleftrightarrow> versions_kept db db'"
  "versions_kept db (db'\<lparr>db_fixtures := fs\<rparr>) \<longleftrightarrow> versions_kept db db'"
  "versions_kept db (db'\<lparr>db_test_runs := ts\<rparr>) \<longleftrightarrow> versions_kept db db'"
  "versions_kept db (db'\<lparr>db_activations := acs\<rparr>) \<longleftrightarrow> versions_kept db db'"
  "versions_kept db (db'\<lparr>db_approvals := as\<rparr>) \<longleftrightarrow> versions_kept db db'"
  "versions_kept (db\<lparr>db_bundles := bs\<rparr>) db' \<longleftrightarrow> versions_kept db db'"
  "versions_kept (db\<lparr>db_fixtures := fs\<rparr>) db' \<longleftrightarrow> versions_kept db db'"
  by (simp_all add: versions_kept_def)

lemma kept_update:
  "(\<And>r. vr_id (f r) = vr_id r) \<Longrightarrow> (\<And>v. p v \<Longrightarrow> version_kept v (f v))
     \<Longrightarrow> versions_kept db (db\<lparr>db_versions := update_rows p f (db_versions db)\<rparr>)"
  by (auto simp: versions_kept_def version_of_update version_kept_def)

lemma kept_state: "s \<noteq> PsDraft \<Longrightarrow> versions_kept db (set_version_state p s db)"
  unfolding set_version_state_def by (rule kept_update) (simp_all add: version_kept_def)

lemma kept_insert: "insert_version r db = Inr db' \<Longrightarrow> versions_kept db db'"
  by (auto simp: insert_version_def versions_kept_def version_of_def find_append_one version_kept_def
      simp del: find_rows)

lemma kept_move [simp]: "versions_kept db (move_shadow e t p db)"
  by (auto simp: move_shadow_def kept_state split: option.split)

lemma kept_retire [simp]: "versions_kept db (retire_previous p t db)"
  by (auto simp: retire_previous_def kept_state split: option.split)

lemma kept_statements:
  "insert_bundle row db = Inr db' \<Longrightarrow> versions_kept db db'"
  "update_bundle_row now i n d m p v db = Inr db' \<Longrightarrow> versions_kept db db'"
  "transition_row now i s v db = Inr (db', cur) \<Longrightarrow> versions_kept db db'"
  "create_draft_statements c now i b l src mf x v db = Inr db' \<Longrightarrow> versions_kept db db'"
  "mark_validated_statements now i r a h js db = Inr db' \<Longrightarrow> versions_kept db db'"
  "bump_fixture_revision t db = Inr db' \<Longrightarrow> versions_kept db db'"
  "publish_statements now i v db = Inr db' \<Longrightarrow> versions_kept db db'"
  "insert_approval now t w db = (db', at) \<Longrightarrow> versions_kept db db'"
  "insert_activation b f t k w db = Inr db' \<Longrightarrow> versions_kept db db'"
  by (auto simp: insert_bundle_def update_bundle_row_def transition_row_def create_draft_statements_def
      mark_validated_statements_def bump_fixture_revision_def publish_statements_def version_kept_def or_current_def
      insert_approval_def insert_activation_def Let_def update_increasing_Inr
      intro!: kept_update dest: kept_insert split: option.splits)

lemma kept_set_shadow: "set_shadow_statements now i t e w v db = Inr db' \<Longrightarrow> versions_kept db db'"
proof (clarsimp simp: set_shadow_statements_def update_increasing_Inr)
  fix b k rows
  assume "insert_activation i (br_shadow_version_id b) t k w (move_shadow e t (br_shadow_version_id b) (db\<lparr>db_bundles := rows\<rparr>)) = Inr db'"
  from versions_kept_trans [OF kept_move kept_statements(9) [OF this]] show "versions_kept db db'" by simp
qed

lemma kept_activate: "activate_statements now i t k w v db = Inr db' \<Longrightarrow> versions_kept db db'"
proof (clarsimp simp: activate_statements_def update_increasing_Inr Let_def)
  fix b F
  let ?db = "db\<lparr>db_bundles := update_rows (\<lambda>r. br_id r = i) F (db_bundles db),
    db_versions := update_rows (\<lambda>r. vr_id r = t)
      (\<lambda>r. r\<lparr>vr_state := PsActive, vr_published_at := Some (or_current now (vr_published_at r))\<rparr>) (db_versions db)\<rparr>"
  assume *: "insert_activation i (br_active_version_id b) t k w (retire_previous (br_active_version_id b) t ?db) = Inr db'"
  have "versions_kept (db\<lparr>db_bundles := update_rows (\<lambda>r. br_id r = i) F (db_bundles db)\<rparr>) ?db"
    using kept_update [where db = "db\<lparr>db_bundles := update_rows (\<lambda>r. br_id r = i) F (db_bundles db)\<rparr>"
        and f = "\<lambda>r. r\<lparr>vr_state := PsActive, vr_published_at := Some (or_current now (vr_published_at r))\<rparr>"]
    by (simp add: version_kept_def or_current_def split: option.split)
  then have "versions_kept db ?db" by (simp only: kept_other)
  from versions_kept_trans [OF this versions_kept_trans [OF kept_retire kept_statements(9) [OF *]]]
  show "versions_kept db db'" .
qed

lemma mutation_kept:
  assumes "\<And>db1 db2 b. statements db1 = Inr (db2, b) \<Longrightarrow> versions_kept db1 db2"
  shows "versions_kept db (fst (mutation x operation i replay statements result db))"
  by (rule kept.mutation_keeps) (auto dest: assms intro: versions_kept_trans)

lemma serve_kept: "versions_kept db (serve c x now i q db)"
proof (cases q)
  case (CreateBundle n d s m p)
  then show ?thesis
    by (auto simp: create_bundle_def split: sum.split intro!: mutation_kept) (erule kept_statements(1))
next
  case (UpdateBundle b n d m p v)
  then show ?thesis
    by (auto simp: update_bundle_def update_bundle_from_def Let_def split: sum.split intro!: mutation_kept)
      (erule kept_statements(2))
next
  case (TransitionBundle b s v)
  then show ?thesis
    by (auto simp: transition_bundle_def Let_def intro!: mutation_kept) (erule kept_statements(3))+
next
  case (CreateDraft b l s m v)
  then show ?thesis by (auto simp: create_draft_def intro!: mutation_kept) (erule kept_statements(4))
next
  case (MarkValidated t r a h d)
  then show ?thesis by (auto simp: mark_validated_def intro!: mutation_kept) (erule kept_statements(5))
next
  case (CreateFixture t n a f w)
  then show ?thesis
    by (auto simp: create_fixture_def Let_def intro!: mutation_kept) (drule kept_statements(6), simp)
next
  case (UpdateFixture j n a f w v)
  then show ?thesis
    by (auto simp: update_fixture_def Let_def intro!: mutation_kept) (drule kept_statements(6), simp)
next
  case (DeleteFixture j v)
  then show ?thesis
    by (auto simp: delete_fixture_def Let_def intro!: mutation_kept) (drule kept_statements(6), simp)
next
  case (RecordTestRun t p r)
  then show ?thesis by (auto simp: record_test_run_def Let_def intro!: mutation_kept)
next
  case (Publish t v)
  then show ?thesis by (auto simp: publish_def intro!: mutation_kept) (erule kept_statements(7))
next
  case (Approve t)
  then show ?thesis
    by (auto simp: approve_def approve_statements_def intro!: mutation_kept) (erule kept_statements(8))
next
  case (SetShadow b t e v)
  then show ?thesis by (auto simp: set_shadow_def intro!: mutation_kept) (erule kept_set_shadow)+
next
  case (Activate b t v k)
  then show ?thesis
    by (auto simp: activate_def split: option.split intro!: mutation_kept) (erule kept_activate)
qed

lemma reaches_kept: "reaches c db db' \<Longrightarrow> versions_kept db db'"
  by (induction rule: reaches.induct) (auto intro: versions_kept_trans serve_kept)

text \<open>
  C16 [versions_immutable]: a version never disappears and never changes its bundle, number, language,
  source or manifest; once it is validated its artifact never changes either, nor does it become a
  draft again; and once it is published the instant of its publication stays.
\<close>

lemma versions_immutable:
  "reaches c db db' \<Longrightarrow> version_of db t = Some v \<Longrightarrow>
     case version_of db' t of None \<Rightarrow> False | Some v' \<Rightarrow> version_kept v v'"
  using reaches_kept unfolding versions_kept_def by fastforce

text \<open>A bundle with a validated version, to try requests on.\<close>

definition example_version :: version_row where
  "example_version = \<lparr>vr_id = 7, vr_bundle_id = 3, vr_version = 1, vr_language = PolicyIrV1,
     vr_runtime_version = lit ''1'', vr_source = [], vr_compiled_artifact = Some [], vr_source_sha256 = [],
     vr_artifact_sha256 = Some [],
     vr_manifest = \<lparr>mf_accepted_action_types = [], mf_accepted_schema_versions = [], mf_required_features = [],
        mf_capabilities = [], mf_runtime_error_behavior = EbHold\<rparr>,
     vr_state = PsValidated, vr_diagnostics = JArray [], vr_fixture_revision = 0, vr_created_by = [],
     vr_validated_at = Some 1, vr_published_at = None\<rparr>"

definition example_bundle :: bundle_row where
  "example_bundle = \<lparr>br_id = 3, br_name = lit ''b'', br_description = [], br_scope_type = StPlatform,
     br_scope_id = [], br_product = None, br_mandatory = False, br_priority = 0, br_state = BsActive,
     br_active_version_id = None, br_shadow_version_id = None, br_created_by = [], br_created_at = 0,
     br_updated_at = 0, br_version = 1\<rparr>"

definition example_tables :: policy_tables where
  "example_tables = empty_tables\<lparr>db_bundles := [example_bundle], db_versions := [example_version]\<rparr>"

lemma example_version_of: "version_of example_tables 7 = Some example_version"
  by (simp add: version_of_def example_tables_def empty_tables_def example_version_def del: find_rows)

lemma versions_immutable_witness:
  "case version_of (serve some_store some_request 5 0 (Publish 7 1) example_tables) 7 of
     None \<Rightarrow> False | Some v' \<Rightarrow> version_kept example_version v'"
  by (rule versions_immutable [OF reaches.request [OF reaches.start] example_version_of])

section \<open>Enforced policies\<close>

text \<open>A policy is enforced when it is evaluated and is not a shadow.\<close>

definition enforced_beside_shadow :: "active_policy \<Rightarrow> bool" where
  "enforced_beside_shadow p \<longleftrightarrow> ap_shadow p \<or> (pb_state (ap_bundle p) = BsActive
     \<and> pb_active_version_id (ap_bundle p) = Some (pv_id (ap_version p))
     \<and> pb_shadow_version_id (ap_bundle p) \<noteq> None
     \<and> pb_shadow_version_id (ap_bundle p) \<noteq> pb_active_version_id (ap_bundle p))"

lemma policy_row_members: "(b, v) \<in> set (policy_rows db) \<longleftrightarrow>
    b \<in> set (db_bundles db) \<and> v \<in> set (db_versions db) \<and> br_state b = BsActive \<and> joined b v"
  by (auto simp: policy_rows_def)

lemma policy_of_row_enforced:
  "br_state b = BsActive \<Longrightarrow> joined b v \<Longrightarrow> policy_of_row a (b, v) = Inr (Some p) \<Longrightarrow> enforced_beside_shadow p"
  by (auto simp: policy_of_row_def bundle_from_row_def version_from_row_def is_shadow_def joined_def
      enforced_beside_shadow_def split: if_splits option.splits)

lemma try_map_members: "try_map f xs = Inr ys \<Longrightarrow> y \<in> set ys \<Longrightarrow> \<exists>x\<in>set xs. f x = Inr y"
  by (induction xs arbitrary: ys) auto

lemma stored_policies_enforced:
  assumes "stored_active_policies db a = Inr ps" "p \<in> set ps"
  shows "enforced_beside_shadow p"
proof -
  from assms obtain qs where "try_map (policy_of_row a) (policy_rows db) = Inr qs" "Some p \<in> set qs"
    by (auto simp: stored_active_policies_def List.map_filter_def)
  from try_map_members [OF this] obtain b v where "(b, v) \<in> set (policy_rows db)" "policy_of_row a (b, v) = Inr (Some p)"
    by auto
  then show ?thesis using policy_of_row_enforced by (auto simp: policy_row_members)
qed

text \<open>A row of the join that applies to the action and whose bundle has no shadow.\<close>

definition applies_without_shadow :: "paction \<Rightarrow> bundle_row \<times> version_row \<Rightarrow> bool" where
  "applies_without_shadow a x \<longleftrightarrow> br_shadow_version_id (fst x) = None
     \<and> (case bundle_from_row (fst x) of Inl e \<Rightarrow> False | Inr b \<Rightarrow> applies_to (pb_scope b) a)"

lemma without_shadow_fails: "applies_without_shadow a x \<Longrightarrow> \<exists>e. policy_of_row a x = Inl e"
  by (cases x) (auto simp: applies_without_shadow_def policy_of_row_def is_shadow_def version_from_row_def
      split: sum.splits)

lemma try_map_fails: "x \<in> set xs \<Longrightarrow> f x = Inl e \<Longrightarrow> \<exists>e'. try_map f xs = Inl e'"
proof (induction xs)
  case (Cons y ys)
  then show ?case by (cases "f y"; cases "try_map f ys") auto
qed simp

lemma stored_policies_fail:
  "list_ex (applies_without_shadow a) (policy_rows db) \<Longrightarrow> \<exists>e. stored_active_policies db a = Inl e"
  using without_shadow_fails try_map_fails [of _ "policy_rows db" "policy_of_row a"]
  by (fastforce simp: list_ex_iff stored_active_policies_def)

text \<open>
  C17 [enforced_needs_shadow]: the policies of an action are enforced only for a bundle that also has a
  shadow, and a shadow other than the active version: when a bundle that applies has no shadow the
  whole query fails, and when its shadow is the active version itself the policy counts as a shadow.
\<close>

lemma enforced_needs_shadow:
  "case stored_active_policies db a of
      Inl e \<Rightarrow> True
    | Inr ps \<Rightarrow> list_all enforced_beside_shadow ps \<and> list_all (\<lambda>x. \<not> applies_without_shadow a x) (policy_rows db)"
proof (cases "stored_active_policies db a")
  case (Inr ps)
  with stored_policies_fail [of a db] have "list_all (\<lambda>x. \<not> applies_without_shadow a x) (policy_rows db)"
    by (auto simp: list_ex_iff list_all_iff)
  with Inr stored_policies_enforced [OF Inr] show ?thesis by (simp add: list_all_iff)
qed simp

end
