(* ===== verification/HeldActions.thy ===== *)
theory HeldActions
  imports PolicyLifecycle
begin

text \<open>
  The life of a stored action after its decision (\<open>src/policy/repository.rs\<close>): a held action is
  approved, rejected or expires, and an approved one is delivered or fails. The tables are the inbox,
  the decisions and the review items beside the shared ones; states are kept as their labels.
  Opening a sealed payload and decoding it are parameters.
\<close>

section \<open>Tables\<close>

record inbox_row =
  ib_action_id :: uuid
  ib_scope_type :: scope_type
  ib_scope_id :: rstr
  ib_prism_payload_ciphertext :: "byte list option"
  ib_state :: rstr
  ib_hold_until :: "date_time option"
  ib_resolved_by :: "rstr option"
  ib_resolution_reason :: "rstr option"
  ib_last_error_code :: "rstr option"
  ib_processed_at :: "date_time option"
  ib_version :: i64

record decision_row =
  dr_id :: uuid
  dr_action_id :: uuid

record review_row =
  rv_id :: uuid
  rv_decision_id :: "uuid option"
  rv_status :: rstr
  rv_resolution :: "rstr option"
  rv_resolved_by :: "rstr option"
  rv_version :: i64

record action_tables =
  at_inbox :: "inbox_row list"
  at_decisions :: "decision_row list"
  at_reviews :: "review_row list"
  at_shared :: policy_tables

record held_action_record =
  ha_action_id :: uuid
  ha_decision_id :: uuid
  ha_scope :: scope
  ha_state :: rstr
  ha_hold_until :: "date_time option"
  ha_version :: i64
  ha_resolved_by :: "rstr option"
  ha_resolution_reason :: "rstr option"
  ha_resolved_review_item_ids :: "uuid list"

record action_context =
  ac_store :: store_context
  ac_open :: "byte list \<Rightarrow> rstr + byte list"
  ac_decode :: "byte list \<Rightarrow> rstr + prism_payload"
  ac_prism_topic :: rstr
  ac_time :: "date_time \<Rightarrow> json"

section \<open>Operations\<close>

definition scope_partition_key :: "scope \<Rightarrow> rstr" where
  "scope_partition_key s = scope_name (sp_scope_type s) @ lit '':'' @ sp_id s"

text \<open>The join of the inbox with the decisions.\<close>

definition decided :: "action_tables \<Rightarrow> (inbox_row \<times> decision_row) list" where
  "decided db = concat (map (\<lambda>a. map (Pair a) (filter (\<lambda>d. dr_action_id d = ib_action_id a) (at_decisions db)))
     (at_inbox db))"

definition held_action_from_row :: "inbox_row \<times> decision_row \<Rightarrow> uuid list \<Rightarrow> repo_error + held_action_record" where
  "held_action_from_row x reviews = (case x of (a, d) \<Rightarrow>
     res_bind (parse_scope (scope_name (ib_scope_type a))) (\<lambda>t.
       Inr \<lparr>ha_action_id = ib_action_id a, ha_decision_id = dr_id d,
         ha_scope = \<lparr>sp_scope_type = t, sp_id = ib_scope_id a, sp_product = (case t of
            StHub \<Rightarrow> Some ProdHub | StLobby \<Rightarrow> Some ProdLobby | _ \<Rightarrow> None)\<rparr>,
         ha_state = ib_state a, ha_hold_until = ib_hold_until a, ha_version = ib_version a,
         ha_resolved_by = ib_resolved_by a, ha_resolution_reason = ib_resolution_reason a,
         ha_resolved_review_item_ids = reviews\<rparr>))"

definition get_held_action :: "uuid \<Rightarrow> action_tables \<Rightarrow> repo_error + held_action_record" where
  "get_held_action i db =
     res_bind (fetch_one (\<lambda>(a, d). ib_action_id a = i) (decided db)) (\<lambda>(a, d).
       held_action_from_row (a, d) (sort (map rv_id (filter (\<lambda>r. rv_decision_id r = Some (dr_id d)
         \<and> rv_status r \<noteq> lit ''PENDING'') (at_reviews db)))))"

definition held_action_id_for_review_item :: "uuid \<Rightarrow> action_tables \<Rightarrow> repo_error + uuid" where
  "held_action_id_for_review_item i db =
     res_bind (fetch_one (\<lambda>r. rv_id r = i \<and> rv_decision_id r \<noteq> None) (at_reviews db)) (\<lambda>r.
     res_bind (fetch_one (\<lambda>d. rv_decision_id r = Some (dr_id d)) (at_decisions db)) (\<lambda>d. Inr (dr_action_id d)))"

definition optional_json :: "('a \<Rightarrow> json) \<Rightarrow> 'a option \<Rightarrow> json" where
  "optional_json f x = (case x of None \<Rightarrow> JNull | Some y \<Rightarrow> f y)"

definition held_action_audit_json :: "action_context \<Rightarrow> held_action_record \<Rightarrow> json" where
  "held_action_audit_json c r = (let u = tx_uuid (st_text (ac_store c)) in json_object
     [(''action_id'', JString (u (ha_action_id r))), (''decision_id'', JString (u (ha_decision_id r))),
      (''state'', JString (ha_state r)), (''hold_until'', optional_json (ac_time c) (ha_hold_until r)),
      (''version'', JNumber (st_i64 (ac_store c) (ha_version r))),
      (''resolved_by'', optional_json JString (ha_resolved_by r)),
      (''resolution_reason'', optional_json JString (ha_resolution_reason r)),
      (''resolved_review_item_ids'', JArray (map (\<lambda>i. JString (u i)) (ha_resolved_review_item_ids r)))])"

text \<open>The job that delivers the payload of an approved action: the payload as it was stored.\<close>

definition release_payload ::
  "action_context \<Rightarrow> held_action_record \<Rightarrow> byte list option \<Rightarrow> policy_tables \<Rightarrow> repo_error + policy_tables" where
  "release_payload c r encrypted db = (case encrypted of
       None \<Rightarrow> Inr db
     | Some sealed \<Rightarrow> (case ac_open c sealed of
         Inl e \<Rightarrow> Inl (Refused e)
       | Inr payload \<Rightarrow> (case ac_decode c payload of
           Inl e \<Rightarrow> Inl (Refused (lit ''stored Prism payload is invalid''))
         | Inr _ \<Rightarrow> Inr (insert_outbox ''PRISM_JOB'' (ha_decision_id r) (ac_prism_topic c) ''fun.interchat.prism.job''
             (scope_partition_key (ha_scope r)) (Inr payload) db))))"

definition resolve_inbox ::
  "date_time \<Rightarrow> uuid \<Rightarrow> rstr \<Rightarrow> rstr \<Rightarrow> rstr \<Rightarrow> (inbox_row \<Rightarrow> bool) \<Rightarrow> inbox_row list \<Rightarrow> repo_error + inbox_row list" where
  "resolve_inbox now i state by reason p rows =
     update_increasing (\<lambda>a. ib_action_id a = i \<and> ib_state a = lit ''HELD'' \<and> p a) ib_version
       (\<lambda>a. a\<lparr>ib_state := state, ib_resolved_by := Some by, ib_resolution_reason := Some reason,
          ib_processed_at := Some now, ib_version := ib_version a + 1\<rparr>) rows"

definition pending_review :: "uuid \<Rightarrow> review_row \<Rightarrow> bool" where
  "pending_review decision r \<longleftrightarrow> rv_decision_id r = Some decision \<and> rv_status r = lit ''PENDING''"

definition resolve_reviews ::
  "uuid \<Rightarrow> rstr \<Rightarrow> rstr \<Rightarrow> rstr \<Rightarrow> review_row list \<Rightarrow> repo_error + review_row list" where
  "resolve_reviews decision status resolution by rows =
     update_increasing (pending_review decision) rv_version
       (\<lambda>r. r\<lparr>rv_status := status, rv_resolution := Some resolution, rv_resolved_by := Some by,
          rv_version := rv_version r + 1\<rparr>) rows"

definition adjudicate_statements ::
  "action_context \<Rightarrow> date_time \<Rightarrow> request_context \<Rightarrow> uuid \<Rightarrow> held_action_resolution \<Rightarrow> rstr \<Rightarrow> i64
     \<Rightarrow> action_tables \<Rightarrow> repo_error + action_tables \<times> held_action_record" where
  "adjudicate_statements c now x i resolution reason expected db =
     res_bind (fetch_one (\<lambda>(a, d). ib_action_id a = i) (decided db)) (\<lambda>(a, d).
     res_bind (held_action_from_row (a, d) []) (\<lambda>before.
     res_bind (ensure_that (ha_state before = lit ''HELD'') ''action is not awaiting adjudication'') (\<lambda>_.
     res_bind (ensure_that (ha_version before = expected) ''held action version conflict'') (\<lambda>_.
     case held_resolution_values resolution of (state, review_status, resolution_name) \<Rightarrow>
     res_bind (if resolution = ResApprove
         then release_payload c before (ib_prism_payload_ciphertext a) (at_shared db)
         else Inr (at_shared db)) (\<lambda>shared.
     res_bind (resolve_inbox now i state (rc_actor_id x) reason (\<lambda>a. ib_version a = expected) (at_inbox db)) (\<lambda>inbox.
     res_bind (ensure_that (rows_affected (\<lambda>a. ib_action_id a = i \<and> ib_state a = lit ''HELD'' \<and> ib_version a = expected)
         (at_inbox db) = 1) ''held action version conflict'') (\<lambda>_.
     res_bind (resolve_reviews (dr_id d) review_status resolution_name (rc_actor_id x) (at_reviews db)) (\<lambda>reviews.
     let after = before\<lparr>ha_state := state, ha_version := ha_version before + 1, ha_resolved_by := Some (rc_actor_id x),
           ha_resolution_reason := Some reason,
           ha_resolved_review_item_ids := map rv_id (filter (pending_review (dr_id d)) (at_reviews db))\<rparr>
     in Inr (db\<lparr>at_inbox := inbox, at_reviews := reviews,
          at_shared := insert_audit x ''ADJUDICATE_HELD_ACTION'' ''HELD_ACTION''
            (tx_uuid (st_text (ac_store c)) i) (Some (held_action_audit_json c before))
            (Some (held_action_audit_json c after)) shared\<rparr>, after)))))))))"

definition adjudicate_held_action ::
  "action_context \<Rightarrow> date_time \<Rightarrow> request_context \<Rightarrow> uuid \<Rightarrow> held_action_resolution \<Rightarrow> rstr \<Rightarrow> i64
     \<Rightarrow> action_tables \<Rightarrow> action_tables \<times> (repo_error + held_action_record)" where
  "adjudicate_held_action c now x i resolution reason expected db =
     (if str_trim reason = [] then (db, Inl (Refused (lit ''resolution reason is required'')))
      else if 2000 < byte_len reason then (db, Inl (Refused (lit ''resolution reason is too long'')))
      else case claim_policy_idempotency x ''ADJUDICATE_HELD_ACTION'' i (at_shared db) of
        Inl e \<Rightarrow> (db, Inl e)
      | Inr (Existing existing) \<Rightarrow>
          if existing \<noteq> i then (db, Inl (Refused (lit ''idempotency key was used for another action'')))
          else (db, get_held_action i db)
      | Inr (Claimed shared) \<Rightarrow>
          (case adjudicate_statements c now x i resolution reason expected (db\<lparr>at_shared := shared\<rparr>) of
             Inl e \<Rightarrow> (db, Inl e)
           | Inr (db', r) \<Rightarrow> (db', Inr r)))"

text \<open>The worker that lets holds expire; rows that another transaction has locked are skipped.\<close>

definition expiry_worker :: rstr where
  "expiry_worker = lit ''polarizer-expiry-worker''"

definition expiry_context :: "action_context \<Rightarrow> rstr \<Rightarrow> uuid \<Rightarrow> request_context" where
  "expiry_context c request i = \<lparr>rc_request_id = request, rc_actor_id = expiry_worker, rc_actor_type = 2,
     rc_service_principal = lit ''polarizer'',
     rc_idempotency_key = lit ''expire-held:'' @ tx_uuid (st_text (ac_store c)) i, rc_trace_id = []\<rparr>"

definition due_holds :: "date_time \<Rightarrow> uuid list \<Rightarrow> int \<Rightarrow> action_tables \<Rightarrow> (inbox_row \<times> decision_row) list" where
  "due_holds now locked limit db = take (nat (min 1000 (max 1 limit)))
     (sort_key (\<lambda>(a, d). ib_hold_until a) (filter (\<lambda>(a, d). ib_state a = lit ''HELD''
        \<and> (case ib_hold_until a of None \<Rightarrow> False | Some t \<Rightarrow> t \<le> now) \<and> ib_action_id a \<notin> set locked) (decided db)))"

definition expire_one ::
  "action_context \<Rightarrow> date_time \<Rightarrow> rstr \<Rightarrow> inbox_row \<times> decision_row \<Rightarrow> action_tables \<Rightarrow> repo_error + action_tables" where
  "expire_one c now request x db = (case x of (a, d) \<Rightarrow>
     res_bind (resolve_inbox now (ib_action_id a) (lit ''EXPIRED'') expiry_worker
       (lit ''hold maximum duration elapsed'') (\<lambda>_. True) (at_inbox db)) (\<lambda>inbox.
     res_bind (resolve_reviews (dr_id d) (lit ''RESOLVED'') (lit ''EXPIRED'') expiry_worker (at_reviews db)) (\<lambda>reviews.
       Inr (db\<lparr>at_inbox := inbox, at_reviews := reviews,
         at_shared := insert_audit (expiry_context c request (ib_action_id a)) ''EXPIRE_HELD_ACTION'' ''HELD_ACTION''
           (tx_uuid (st_text (ac_store c)) (ib_action_id a)) None
           (Some (json_object [(''state'', JString (lit ''EXPIRED'')),
              (''decision_id'', JString (tx_uuid (st_text (ac_store c)) (dr_id d)))])) (at_shared db)\<rparr>))))"

fun expire_all ::
  "action_context \<Rightarrow> date_time \<Rightarrow> rstr list \<Rightarrow> (inbox_row \<times> decision_row) list \<Rightarrow> action_tables
     \<Rightarrow> repo_error + action_tables" where
  "expire_all c now (request # requests) (x # xs) db =
     res_bind (expire_one c now request x db) (expire_all c now requests xs)"
| "expire_all c now _ _ db = Inr db"

definition expire_due_held_actions ::
  "action_context \<Rightarrow> date_time \<Rightarrow> uuid list \<Rightarrow> (nat \<Rightarrow> rstr) \<Rightarrow> int \<Rightarrow> action_tables \<Rightarrow> action_tables \<times> (repo_error + nat)" where
  "expire_due_held_actions c now locked requests limit db =
     (let rows = due_holds now locked limit db
      in case expire_all c now (map requests [0..<length rows]) rows db of
           Inl e \<Rightarrow> (db, Inl e) | Inr db' \<Rightarrow> (db', Inr (length rows)))"

text \<open>What became of a delivery. The same report may come again.\<close>

definition awaits_delivery :: "uuid \<Rightarrow> rstr \<Rightarrow> inbox_row \<Rightarrow> bool" where
  "awaits_delivery i state a \<longleftrightarrow> ib_action_id a = i \<and> (ib_state a = lit ''APPROVED_PENDING_DELIVERY''
     \<or> (state = lit ''ACTIVE'' \<and> ib_state a = lit ''DELIVERY_FAILED''))"

definition apply_delivery_callback ::
  "date_time \<Rightarrow> uuid \<Rightarrow> rstr \<Rightarrow> rstr option \<Rightarrow> action_tables \<Rightarrow> action_tables \<times> (repo_error + bool)" where
  "apply_delivery_callback now i state failure_code db =
     (if state \<noteq> lit ''ACTIVE'' \<and> state \<noteq> lit ''DELIVERY_FAILED''
      then (db, Inl (Refused (lit ''invalid delivery callback state'')))
      else let db' = db\<lparr>at_inbox := update_rows (awaits_delivery i state)
             (\<lambda>a. a\<lparr>ib_state := state, ib_last_error_code := failure_code, ib_processed_at := Some now\<rparr>) (at_inbox db)\<rparr>
        in if rows_affected (awaits_delivery i state) (at_inbox db) = 1 then (db', Inr True)
           else (db', Inr (map_option ib_state (List.find (\<lambda>a. ib_action_id a = i) (at_inbox db')) = Some state)))"

section \<open>Steps\<close>

datatype action_request =
  Adjudicate uuid held_action_resolution rstr i64
| ExpireDue "uuid list" "nat \<Rightarrow> rstr" int
| DeliveryCallback uuid rstr "rstr option"

fun act :: "action_context \<Rightarrow> request_context \<Rightarrow> date_time \<Rightarrow> action_request \<Rightarrow> action_tables \<Rightarrow> action_tables" where
  "act c x now (Adjudicate i r reason v) db = fst (adjudicate_held_action c now x i r reason v db)"
| "act c x now (ExpireDue locked requests limit) db = fst (expire_due_held_actions c now locked requests limit db)"
| "act c x now (DeliveryCallback i s code) db = fst (apply_delivery_callback now i s code db)"

inductive acts :: "action_context \<Rightarrow> action_tables \<Rightarrow> action_tables \<Rightarrow> bool" for c where
  start: "acts c db db"
| request: "acts c db db' \<Longrightarrow> acts c db (act c x now q db')"

text \<open>The moves of a state; the states a message never leaves to be delivered.\<close>

definition legal_move :: "rstr \<Rightarrow> rstr \<Rightarrow> bool" where
  "legal_move s s' \<longleftrightarrow> s' = s
     \<or> (s = lit ''HELD'' \<and> s' \<in> {lit ''APPROVED_PENDING_DELIVERY'', lit ''BLOCKED'', lit ''EXPIRED''})
     \<or> (s = lit ''APPROVED_PENDING_DELIVERY'' \<and> s' \<in> {lit ''ACTIVE'', lit ''DELIVERY_FAILED''})
     \<or> (s = lit ''DELIVERY_FAILED'' \<and> s' = lit ''ACTIVE'')"

definition moved :: "inbox_row \<Rightarrow> inbox_row \<Rightarrow> bool" where
  "moved a a' \<longleftrightarrow> ib_action_id a' = ib_action_id a \<and> legal_move (ib_state a) (ib_state a')"

definition withheld :: "rstr \<Rightarrow> bool" where
  "withheld s \<longleftrightarrow> s \<in> {lit ''HELD'', lit ''BLOCKED'', lit ''EXPIRED''}"

lemma moved_refl [simp]: "moved a a"
  by (simp add: moved_def legal_move_def)

lemma moved_rows: "(\<And>a. p a \<Longrightarrow> moved a (f a)) \<Longrightarrow> list_all2 moved rows (update_rows p f rows)"
  by (simp add: update_rows_def list_all2_conv_all_nth)

lemma moved_all_refl [simp]: "list_all2 moved rows rows"
  by (simp add: list_all2_conv_all_nth)

lemma resolve_inbox_rows: "resolve_inbox now i s w reason p rows = Inr rows' \<Longrightarrow>
    rows' = update_rows (\<lambda>a. ib_action_id a = i \<and> ib_state a = lit ''HELD'' \<and> p a)
      (\<lambda>a. a\<lparr>ib_state := s, ib_resolved_by := Some w, ib_resolution_reason := Some reason,
          ib_processed_at := Some now, ib_version := ib_version a + 1\<rparr>) rows"
  by (simp add: resolve_inbox_def update_increasing_Inr)

lemma resolution_moves: "held_resolution_values r = (s, rs, rn) \<Longrightarrow> legal_move (lit ''HELD'') s"
  by (cases r) (auto simp: legal_move_def)

lemma adjudicate_commits:
  assumes "adjudicate_statements c now x i r reason v db = Inr (db', h)"
  obtains a d before shared s rs rn where
    "(a, d) \<in> set (decided db)" "ib_action_id a = i" "ib_state a = lit ''HELD''" "ib_version a = v"
    "held_action_from_row (a, d) [] = Inr before"
    "(if r = ResApprove then release_payload c before (ib_prism_payload_ciphertext a) (at_shared db)
      else Inr (at_shared db)) = Inr shared"
    "held_resolution_values r = (s, rs, rn)"
    "at_inbox db' = update_rows (\<lambda>a. ib_action_id a = i \<and> ib_state a = lit ''HELD'' \<and> ib_version a = v)
      (\<lambda>a. a\<lparr>ib_state := s, ib_resolved_by := Some (rc_actor_id x), ib_resolution_reason := Some reason,
          ib_processed_at := Some now, ib_version := ib_version a + 1\<rparr>) (at_inbox db)"
    "db_outbox (at_shared db') = db_outbox shared" "at_decisions db' = at_decisions db"
proof -
  obtain s rs rn where hv: "held_resolution_values r = (s, rs, rn)" by (cases "held_resolution_values r")
  from assms obtain a d before shared where "(a, d) \<in> set (decided db)" "ib_action_id a = i"
    "held_action_from_row (a, d) [] = Inr before" "ha_state before = lit ''HELD''" "ha_version before = v"
    "(if r = ResApprove then release_payload c before (ib_prism_payload_ciphertext a) (at_shared db)
      else Inr (at_shared db)) = Inr shared"
    "at_inbox db' = update_rows (\<lambda>a. ib_action_id a = i \<and> ib_state a = lit ''HELD'' \<and> ib_version a = v)
      (\<lambda>a. a\<lparr>ib_state := s, ib_resolved_by := Some (rc_actor_id x), ib_resolution_reason := Some reason,
          ib_processed_at := Some now, ib_version := ib_version a + 1\<rparr>) (at_inbox db)"
    "db_outbox (at_shared db') = db_outbox shared" "at_decisions db' = at_decisions db"
    unfolding adjudicate_statements_def hv Let_def res_bind_Inr_iff prod.case fetch_one_def ok_or_Inr_iff
    by (elim exE conjE) (clarsimp dest!: resolve_inbox_rows find_member simp: insert_audit_def)
  moreover from this have "ib_state a = lit ''HELD''" "ib_version a = v" by (auto simp: held_action_from_row_def)
  ultimately show thesis using that hv by blast
qed

lemma adjudicate_moves:
  assumes "adjudicate_statements c now x i r reason v db = Inr (db', h)"
  shows "list_all2 moved (at_inbox db) (at_inbox db')"
  using assms by (rule adjudicate_commits) (auto simp: moved_def dest!: resolution_moves intro!: moved_rows)

text \<open>The rows an expiry changes: held ones, which become expired.\<close>

definition expired_to :: "inbox_row \<Rightarrow> inbox_row \<Rightarrow> bool" where
  "expired_to a a' \<longleftrightarrow> ib_action_id a' = ib_action_id a
     \<and> (ib_state a' = ib_state a \<or> ib_state a = lit ''HELD'' \<and> ib_state a' = lit ''EXPIRED'')"

lemma expired_rows: "(\<And>a. p a \<Longrightarrow> expired_to a (f a)) \<Longrightarrow> list_all2 expired_to rows (update_rows p f rows)"
  by (auto simp: update_rows_def list_all2_conv_all_nth expired_to_def)

lemma expired_trans: "expired_to a b \<Longrightarrow> expired_to b d \<Longrightarrow> expired_to a d"
  by (auto simp: expired_to_def)

lemma expire_one_moves: "expire_one c now q x db = Inr db' \<Longrightarrow> list_all2 expired_to (at_inbox db) (at_inbox db')"
  by (auto simp: expire_one_def expired_to_def dest!: resolve_inbox_rows split: prod.splits intro!: expired_rows)

lemma expire_all_moves: "expire_all c now qs xs db = Inr db' \<Longrightarrow> list_all2 expired_to (at_inbox db) (at_inbox db')"
proof (induction c now qs xs db rule: expire_all.induct)
  case (1 c now q qs x xs db)
  then obtain db1 where "expire_one c now q x db = Inr db1" "expire_all c now qs xs db1 = Inr db'" by auto
  from expire_one_moves [OF this(1)] 1(1) [OF this(2)]
  show ?case by (metis list_all2_trans [of expired_to expired_to expired_to] expired_trans)
qed (auto simp: list_all2_conv_all_nth expired_to_def)

lemma expired_moved: "expired_to a b \<Longrightarrow> moved a b"
  by (auto simp: expired_to_def moved_def legal_move_def)

lemma callback_moves: "list_all2 moved (at_inbox db) (at_inbox (fst (apply_delivery_callback now i s code db)))"
  by (auto simp: apply_delivery_callback_def awaits_delivery_def Let_def moved_def legal_move_def intro!: moved_rows)

text \<open>
  whatever is asked, an action that is held is approved, rejected or expires, an
  approved one becomes delivered or failed, a failed one at most delivered, and no other state
  changes: what was rejected, has expired or is delivered stays so.
\<close>

lemma held_states: "list_all2 moved (at_inbox db) (at_inbox (act c x now q db))"
proof (cases q)
  case (Adjudicate i r reason v)
  then show ?thesis
    by (auto simp: adjudicate_held_action_def split: sum.split claim.split dest: adjudicate_moves)
next
  case (ExpireDue locked requests limit)
  then show ?thesis
    by (auto simp: expire_due_held_actions_def Let_def expired_moved split: sum.split
        dest!: expire_all_moves elim: list_all2_mono)
next
  case (DeliveryCallback i s code)
  then show ?thesis using callback_moves by simp
qed

section \<open>Nothing withheld is delivered\<close>

definition prism_job :: "uuid \<Rightarrow> outbox_row \<Rightarrow> bool" where
  "prism_job decision r \<longleftrightarrow> ob_aggregate_type r = lit ''PRISM_JOB'' \<and> ob_aggregate_id r = decision"

definition withheld_ok :: "action_tables \<Rightarrow> bool" where
  "withheld_ok db \<longleftrightarrow> distinct (map ib_action_id (at_inbox db)) \<and> distinct (map dr_id (at_decisions db))
     \<and> (\<forall>a d. (a, d) \<in> set (decided db) \<longrightarrow> withheld (ib_state a)
          \<longrightarrow> list_all (\<lambda>r. \<not> prism_job (dr_id d) r) (db_outbox (at_shared db)))"

lemma decided_iff: "(a, d) \<in> set (decided db) \<longleftrightarrow>
    a \<in> set (at_inbox db) \<and> d \<in> set (at_decisions db) \<and> dr_action_id d = ib_action_id a"
  by (auto simp: decided_def)

lemma moved_keys: "list_all2 moved rows rows' \<Longrightarrow> map ib_action_id rows' = map ib_action_id rows"
  by (induction rule: list_all2_induct) (auto simp: moved_def)

lemma moved_member: "list_all2 moved rows rows' \<Longrightarrow> a' \<in> set rows' \<Longrightarrow>
    \<exists>a\<in>set rows. moved a a'"
  by (induction rule: list_all2_induct) auto

lemma withheld_before: "moved a a' \<Longrightarrow> withheld (ib_state a') \<Longrightarrow> withheld (ib_state a)"
  by (auto simp: moved_def legal_move_def withheld_def lit_def)

text \<open>A step that sends no job keeps the invariant.\<close>

lemma withheld_frame:
  assumes ok: "withheld_ok db" and rows: "list_all2 moved (at_inbox db) (at_inbox db')"
    and decisions: "at_decisions db' = at_decisions db"
    and outbox: "db_outbox (at_shared db') = db_outbox (at_shared db)"
  shows "withheld_ok db'"
proof -
  have "list_all (\<lambda>r. \<not> prism_job (dr_id d) r) (db_outbox (at_shared db'))"
    if d: "(a', d) \<in> set (decided db')" "withheld (ib_state a')" for a' d
  proof -
    from d moved_member [OF rows, of a'] obtain a where "a \<in> set (at_inbox db)" "moved a a'"
      by (auto simp: decided_iff)
    with d decisions have "(a, d) \<in> set (decided db)" "withheld (ib_state a)"
      using withheld_before by (auto simp: decided_iff moved_def)
    with ok outbox show ?thesis by (auto simp: withheld_ok_def)
  qed
  with ok decisions moved_keys [OF rows] show ?thesis by (auto simp: withheld_ok_def)
qed

lemma release_outbox:
  "release_payload c r encrypted db = Inr db' \<Longrightarrow> db_outbox db' = db_outbox db
     \<or> (\<exists>row. db_outbox db' = db_outbox db @ [row] \<and> ob_aggregate_id row = ha_decision_id r)"
  by (auto simp: release_payload_def insert_outbox_def split: option.splits sum.splits)

lemma adjudicate_withheld:
  assumes ok: "withheld_ok db" and st: "adjudicate_statements c now x i r reason v db = Inr (db', h)"
  shows "withheld_ok db'"
proof (cases "db_outbox (at_shared db') = db_outbox (at_shared db)")
  case True
  from st have "at_decisions db' = at_decisions db" by (rule adjudicate_commits) auto
  with True show ?thesis using withheld_frame [OF ok adjudicate_moves [OF st]] by simp
next
  case False
  note rows = adjudicate_moves [OF st]
  from st obtain a d before shared s rs rn where
    ad: "(a, d) \<in> set (decided db)" "ib_action_id a = i" "ib_state a = lit ''HELD''" "ib_version a = v"
    and before: "held_action_from_row (a, d) [] = Inr before"
    and released: "(if r = ResApprove then release_payload c before (ib_prism_payload_ciphertext a) (at_shared db)
      else Inr (at_shared db)) = Inr shared"
    and hv: "held_resolution_values r = (s, rs, rn)"
    and inbox: "at_inbox db' = update_rows (\<lambda>a. ib_action_id a = i \<and> ib_state a = lit ''HELD'' \<and> ib_version a = v)
      (\<lambda>a. a\<lparr>ib_state := s, ib_resolved_by := Some (rc_actor_id x), ib_resolution_reason := Some reason,
          ib_processed_at := Some now, ib_version := ib_version a + 1\<rparr>) (at_inbox db)"
    and outbox: "db_outbox (at_shared db') = db_outbox shared" and decisions: "at_decisions db' = at_decisions db"
    by (rule adjudicate_commits)
  from released False outbox have approve: "r = ResApprove" by (auto split: if_splits)
  with hv have s: "s = lit ''APPROVED_PENDING_DELIVERY''" by simp
  from before have "ha_decision_id before = dr_id d" by (auto simp: held_action_from_row_def)
  with released approve outbox False obtain row where
    row: "db_outbox (at_shared db') = db_outbox (at_shared db) @ [row]" "ob_aggregate_id row = dr_id d"
    by (auto dest: release_outbox)
  have unique: "b = a" if "b \<in> set (at_inbox db)" "ib_action_id b = i" for b
    using ok ad that by (auto simp: withheld_ok_def decided_iff distinct_map inj_on_def)
  have "list_all (\<lambda>r. \<not> prism_job (dr_id e) r) (db_outbox (at_shared db'))"
    if e: "(b', e) \<in> set (decided db')" "withheld (ib_state b')" for b' e
  proof -
    from e moved_member [OF rows, of b'] obtain b where b: "b \<in> set (at_inbox db)" "moved b b'"
      by (auto simp: decided_iff)
    with e decisions have "(b, e) \<in> set (decided db)" "withheld (ib_state b)"
      using withheld_before by (auto simp: decided_iff moved_def)
    with ok have old: "list_all (\<lambda>r. \<not> prism_job (dr_id e) r) (db_outbox (at_shared db))"
      by (auto simp: withheld_ok_def)
    have "dr_id e \<noteq> dr_id d"
    proof
      assume "dr_id e = dr_id d"
      with ok ad e decisions have "e = d" by (auto simp: withheld_ok_def decided_iff distinct_map inj_on_def)
      with ad e decisions have "ib_action_id b' = i" by (auto simp: decided_iff)
      with e unique ad s have "ib_state b' = lit ''APPROVED_PENDING_DELIVERY''"
        by (auto simp: decided_iff inbox update_rows_def split: if_splits)
      with e(2) show False by (auto simp: withheld_def lit_def)
    qed
    with old row show ?thesis by (auto simp: prism_job_def)
  qed
  with ok decisions moved_keys [OF rows] show ?thesis by (auto simp: withheld_ok_def)
qed

lemma expire_all_shared: "expire_all c now qs xs db = Inr db' \<Longrightarrow> at_decisions db' = at_decisions db
    \<and> db_outbox (at_shared db') = db_outbox (at_shared db)"
proof (induction c now qs xs db rule: expire_all.induct)
  case (1 c now q qs x xs db)
  then obtain db1 where "expire_one c now q x db = Inr db1" "expire_all c now qs xs db1 = Inr db'" by auto
  with 1(1) [OF this(2)] show ?case by (auto simp: expire_one_def insert_audit_def split: prod.splits)
qed auto

lemma act_withheld: "withheld_ok db \<Longrightarrow> withheld_ok (act c x now q db)"
proof (cases q)
  case (Adjudicate i r reason v)
  assume ok: "withheld_ok db"
  have "withheld_ok (db\<lparr>at_shared := shared\<rparr>)" if "claim_policy_idempotency x op i (at_shared db) = Inr (Claimed shared)" for op shared
    using ok that by (auto simp: claim_policy_idempotency_def withheld_ok_def decided_iff split: option.splits if_splits)
  with Adjudicate ok show ?thesis
    by (auto simp: adjudicate_held_action_def split: sum.split claim.split dest: adjudicate_withheld)
next
  case (ExpireDue locked requests limit)
  assume ok: "withheld_ok db"
  define rows where "rows = due_holds now locked limit db"
  have act: "act c x now q db = (case expire_all c now (map requests [0..<length rows]) rows db of
      Inl e \<Rightarrow> db | Inr db' \<Rightarrow> db')"
    by (simp add: ExpireDue expire_due_held_actions_def Let_def rows_def split: sum.split)
  show ?thesis
  proof (cases "expire_all c now (map requests [0..<length rows]) rows db")
    case (Inl e)
    with ok show ?thesis by (simp add: act)
  next
    case (Inr db')
    have "list_all2 moved (at_inbox db) (at_inbox db')"
      using expire_all_moves [OF Inr] expired_moved by (rule list_all2_mono)
    from withheld_frame [OF ok this] expire_all_shared [OF Inr] show ?thesis by (simp add: act Inr)
  qed
next
  case (DeliveryCallback i s code)
  assume ok: "withheld_ok db"
  show ?thesis
    using withheld_frame [OF ok callback_moves] DeliveryCallback by (simp add: apply_delivery_callback_def Let_def)
qed

lemma acts_withheld: "acts c db db' \<Longrightarrow> withheld_ok db \<Longrightarrow> withheld_ok db'"
  by (induction rule: acts.induct) (simp_all add: act_withheld)

definition example_action :: inbox_row where
  "example_action = \<lparr>ib_action_id = 4, ib_scope_type = StHub, ib_scope_id = lit ''hub'',
     ib_prism_payload_ciphertext = Some [1], ib_state = lit ''HELD'', ib_hold_until = Some 9, ib_resolved_by = None,
     ib_resolution_reason = None, ib_last_error_code = None, ib_processed_at = None, ib_version = 1\<rparr>"

definition example_actions :: action_tables where
  "example_actions = \<lparr>at_inbox = [example_action], at_decisions = [\<lparr>dr_id = 6, dr_action_id = 4\<rparr>],
     at_reviews = [], at_shared = empty_tables\<rparr>"

definition some_actions :: action_context where
  "some_actions = \<lparr>ac_store = some_store, ac_open = Inr,
     ac_decode = (\<lambda>bs. Inl []), ac_prism_topic = [], ac_time = (\<lambda>t. JNull)\<rparr>"

lemma example_withheld: "withheld_ok example_actions"
  by (simp add: withheld_ok_def example_actions_def decided_def empty_tables_def)

text \<open>
  C5 [withheld_not_delivered]: through any sequence of adjudications, expiries and delivery reports no
  job to deliver an action is written while the action is held, nor ever when it was rejected or has
  expired.
\<close>

lemma withheld_not_delivered: "withheld_ok db \<Longrightarrow> acts c db db' \<Longrightarrow> withheld_ok db'"
  using acts_withheld by blast

lemma withheld_not_delivered_witness:
  "withheld_ok (act some_actions some_request 20 (ExpireDue [] (\<lambda>i. []) 5) example_actions)"
  by (rule withheld_not_delivered [OF example_withheld acts.request [OF acts.start]])

end
