(* ===== verification/ModerationModel.thy ===== *)
theory ModerationModel
  imports HeldActions
begin

text \<open>
  The data of the moderation repository (\<open>src/moderation/repository.rs\<close>): the protocol messages it
  takes and returns, the names of their enumerations, subjects and scopes, search patterns, the kinds
  of moderation records and the safety score. An enumeration is the \<open>i32\<close> of the protocol; labels of
  the tables are strings, as in the code. Multiplication and addition of floating point numbers are
  parameters; comparisons are exact.
\<close>

section \<open>Messages\<close>

record wire_subject =
  ws_user_id :: rstr
  ws_server_id :: rstr
  ws_message_id :: rstr
  ws_channel_id :: rstr
  ws_report_id :: rstr

record wire_scope =
  wc_type :: i32
  wc_id :: rstr
  wc_product :: i32

record wire_timestamp =
  wt_seconds :: i64
  wt_nanos :: i32

datatype wire_value =
  WireNull
| WireNumber f64
| WireString rstr
| WireBool bool
| WireStruct "(rstr \<times> wire_value) list"
| WireList "wire_value list"

text \<open>What the code takes from libraries: identifiers, instants, numbers, the encoding of commands.\<close>

record moderation_context =
  mc_text :: text_context
  mc_parse_uuid :: "rstr \<Rightarrow> uuid option"
  mc_seconds :: "date_time \<Rightarrow> i64"
  mc_nanos :: "date_time \<Rightarrow> i32"
  mc_from_timestamp :: "i64 \<Rightarrow> u32 \<Rightarrow> date_time option"
  mc_multiply :: "f64 \<Rightarrow> f64 \<Rightarrow> f64"
  mc_add :: "f64 \<Rightarrow> f64 \<Rightarrow> f64"
  mc_json_f64 :: "f64 \<Rightarrow> json"
  mc_numbers :: json_numbers

definition timestamp :: "moderation_context \<Rightarrow> date_time \<Rightarrow> wire_timestamp" where
  "timestamp c t = \<lparr>wt_seconds = mc_seconds c t, wt_nanos = mc_nanos c t\<rparr>"

definition datetime :: "moderation_context \<Rightarrow> wire_timestamp \<Rightarrow> repo_error + date_time" where
  "datetime c t = ok_or (Refused (lit ''timestamp is out of range'')) (mc_from_timestamp c (wt_seconds t) (wt_nanos t))"

text \<open>\<open>value.map(datetime).transpose()?\<close>\<close>

definition optional_datetime :: "moderation_context \<Rightarrow> wire_timestamp option \<Rightarrow> repo_error + date_time option" where
  "optional_datetime c t = (case t of None \<Rightarrow> Inr None | Some x \<Rightarrow> res_bind (datetime c x) (\<lambda>d. Inr (Some d)))"

text \<open>\<open>map(|id| id.to_string()).unwrap_or_default()\<close> and \<open>unwrap_or_default()\<close>\<close>

definition uuid_or_empty :: "moderation_context \<Rightarrow> uuid option \<Rightarrow> rstr" where
  "uuid_or_empty c x = (case x of None \<Rightarrow> [] | Some i \<Rightarrow> tx_uuid (mc_text c) i)"

definition text_or_empty :: "rstr option \<Rightarrow> rstr" where
  "text_or_empty x = (case x of None \<Rightarrow> [] | Some s \<Rightarrow> s)"

definition optional_uuid :: "moderation_context \<Rightarrow> rstr \<Rightarrow> string \<Rightarrow> repo_error + uuid option" where
  "optional_uuid c s field =
     (if s = [] then Inr None
      else case mc_parse_uuid c s of
          None \<Rightarrow> Inl (Refused (lit field @ lit '' must be a UUID''))
        | Some i \<Rightarrow> Inr (Some i))"

fun json_to_value :: "moderation_context \<Rightarrow> json \<Rightarrow> wire_value"
  and json_values :: "moderation_context \<Rightarrow> json list \<Rightarrow> wire_value list"
  and json_members :: "moderation_context \<Rightarrow> (rstr \<times> json) list \<Rightarrow> (rstr \<times> wire_value) list" where
  "json_to_value c JNull = WireNull"
| "json_to_value c (JBool b) = WireBool b"
| "json_to_value c (JNumber n) =
     WireNumber (case number_as_f64 (mc_numbers c) n of None \<Rightarrow> f64_0 | Some x \<Rightarrow> x)"
| "json_to_value c (JString s) = WireString s"
| "json_to_value c (JArray xs) = WireList (json_values c xs)"
| "json_to_value c (JObject m) = WireStruct (json_members c m)"
| "json_values c [] = []"
| "json_values c (x # xs) = json_to_value c x # json_values c xs"
| "json_members c [] = []"
| "json_members c ((k, x) # m) = (k, json_to_value c x) # json_members c m"

definition json_to_struct :: "moderation_context \<Rightarrow> json \<Rightarrow> (rstr \<times> wire_value) list" where
  "json_to_struct c j = (case json_as_object j of None \<Rightarrow> [] | Some m \<Rightarrow> json_members c m)"

section \<open>Subjects and scopes\<close>

definition primary_subject :: "wire_subject \<Rightarrow> bool \<Rightarrow> repo_error + rstr \<times> rstr" where
  "primary_subject s allow_message =
     (if ws_user_id s \<noteq> [] then Inr (lit ''USER'', ws_user_id s)
      else if ws_server_id s \<noteq> [] then Inr (lit ''SERVER'', ws_server_id s)
      else if allow_message \<and> ws_message_id s \<noteq> [] then Inr (lit ''MESSAGE'', ws_message_id s)
      else Inl (Refused (lit ''subject has no supported identifier'')))"

definition empty_subject :: wire_subject where
  "empty_subject = \<lparr>ws_user_id = [], ws_server_id = [], ws_message_id = [], ws_channel_id = [], ws_report_id = []\<rparr>"

definition subject_from_parts :: "rstr \<Rightarrow> rstr \<Rightarrow> wire_subject" where
  "subject_from_parts t i =
     (if t = lit ''USER'' then empty_subject\<lparr>ws_user_id := i\<rparr>
      else if t = lit ''SERVER'' then empty_subject\<lparr>ws_server_id := i\<rparr>
      else if t = lit ''MESSAGE'' then empty_subject\<lparr>ws_message_id := i\<rparr>
      else if t = lit ''REPORT'' then empty_subject\<lparr>ws_report_id := i\<rparr>
      else empty_subject)"

text \<open>\<open>try_from\<close> of a protocol number: the number in the table, or a decoding error.\<close>

definition enum_label :: "string \<Rightarrow> (i32 \<times> rstr) list \<Rightarrow> i32 \<Rightarrow> repo_error + rstr" where
  "enum_label unspecified table v =
     (if v = 0 then Inl (Refused (lit unspecified))
      else ok_or (Refused (lit ''unknown enumeration value'')) (map_of table v))"

definition label_enum :: "(i32 \<times> rstr) list \<Rightarrow> rstr \<Rightarrow> i32" where
  "label_enum table s = (case map_of (map (\<lambda>(v, l). (l, v)) table) s of None \<Rightarrow> 0 | Some v \<Rightarrow> v)"

definition scope_labels :: "(i32 \<times> rstr) list" where
  "scope_labels = [(1, lit ''PLATFORM''), (2, lit ''PRODUCT''), (3, lit ''HUB''), (4, lit ''LOBBY''),
     (5, lit ''INCIDENT_OVERLAY'')]"

definition restriction_labels :: "(i32 \<times> rstr) list" where
  "restriction_labels = [(1, lit ''MUTE''), (2, lit ''BAN''), (3, lit ''BLACKLIST''), (4, lit ''CONTENT_QUARANTINE'')]"

definition infraction_labels :: "(i32 \<times> rstr) list" where
  "infraction_labels = [(1, lit ''WARNING''), (2, lit ''MUTE''), (3, lit ''BAN''), (4, lit ''CONTENT'')]"

definition status_labels :: "(i32 \<times> rstr) list" where
  "status_labels = [(1, lit ''ACTIVE''), (2, lit ''REVOKED''), (3, lit ''EXPIRED''), (4, lit ''PENDING''),
     (5, lit ''RESOLVED''), (6, lit ''DISMISSED'')]"

definition wire_scope_name :: "i32 \<Rightarrow> repo_error + rstr" where
  "wire_scope_name = enum_label ''scope type is required'' scope_labels"

definition scope_from_parts :: "rstr \<Rightarrow> rstr \<Rightarrow> repo_error + wire_scope" where
  "scope_from_parts t i =
     (if label_enum scope_labels t = 0 then Inl (Refused (lit ''invalid stored scope type''))
      else Inr \<lparr>wc_type = label_enum scope_labels t, wc_id = i, wc_product = 0\<rparr>)"

definition restriction_type_name :: "i32 \<Rightarrow> repo_error + rstr" where
  "restriction_type_name = enum_label ''restriction type is required'' restriction_labels"

definition infraction_type_name :: "i32 \<Rightarrow> repo_error + rstr" where
  "infraction_type_name = enum_label ''infraction type is required'' infraction_labels"

definition restriction_type_proto :: "rstr \<Rightarrow> i32" where
  "restriction_type_proto = label_enum restriction_labels"

definition infraction_type_proto :: "rstr \<Rightarrow> i32" where
  "infraction_type_proto = label_enum infraction_labels"

definition status_proto :: "rstr \<Rightarrow> i32" where
  "status_proto = label_enum status_labels"

lemma scope_name_round_trip: "wire_scope_name v = Inr s \<Longrightarrow> scope_from_parts s i = Inr \<lparr>wc_type = v, wc_id = i, wc_product = 0\<rparr>"
  by (auto simp: wire_scope_name_def enum_label_def scope_labels_def scope_from_parts_def label_enum_def ok_or_def
      lit_def split: if_splits)

lemma type_name_round_trips:
  "restriction_type_name v = Inr s \<Longrightarrow> restriction_type_proto s = v"
  "infraction_type_name v = Inr s \<Longrightarrow> infraction_type_proto s = v"
  by (auto simp: restriction_type_name_def infraction_type_name_def restriction_type_proto_def infraction_type_proto_def
      enum_label_def restriction_labels_def infraction_labels_def label_enum_def ok_or_def lit_def split: if_splits)

lemma primary_subject_round_trip:
  "primary_subject s b = Inr (t, i) \<Longrightarrow> primary_subject (subject_from_parts t i) b = Inr (t, i)"
  by (auto simp: primary_subject_def subject_from_parts_def empty_subject_def lit_def split: if_splits)

section \<open>Moderation records\<close>

definition record_kind_labels :: "(i32 \<times> rstr) list" where
  "record_kind_labels = [(1, lit ''BLACKLIST''), (2, lit ''WARNING''), (3, lit ''LOBBY_WARNING''), (4, lit ''LOBBY_BAN'')]"

text \<open>The result is a set of names: the ascending list of its elements.\<close>

definition moderation_kind_names :: "i32 list \<Rightarrow> repo_error + (rstr, unit) btree_map" where
  "moderation_kind_names vs =
     (if vs = [] then Inr (bt_collect (map (\<lambda>(v, l). (l, ())) record_kind_labels))
      else if \<not> list_all (\<lambda>v. v = 0 \<or> map_of record_kind_labels v \<noteq> None) vs
      then Inl (Refused (lit ''unknown enumeration value''))
      else res_bind (try_map (enum_label ''moderation record kind is required'' record_kind_labels) vs)
        (\<lambda>ls. Inr (bt_collect (map (\<lambda>l. (l, ())) ls))))"

definition moderation_record_kind :: "rstr \<Rightarrow> repo_error + i32" where
  "moderation_record_kind s =
     (if label_enum record_kind_labels s = 0 then Inl (Refused (lit ''invalid stored moderation record kind''))
      else Inr (label_enum record_kind_labels s))"

definition classify_infraction_moderation_kind :: "rstr \<Rightarrow> rstr \<Rightarrow> rstr option" where
  "classify_infraction_moderation_kind infraction_type scope_type =
     (if infraction_type = lit ''WARNING''
      then Some (if scope_type = lit ''LOBBY'' then lit ''LOBBY_WARNING'' else lit ''WARNING'')
      else if infraction_type = lit ''BAN'' \<and> (scope_type = lit ''PRODUCT'' \<or> scope_type = lit ''LOBBY'')
      then Some (lit ''LOBBY_BAN'')
      else None)"

definition moderation_record_kind_from_values :: "rstr \<Rightarrow> rstr \<Rightarrow> rstr option \<Rightarrow> rstr \<Rightarrow> repo_error + i32" where
  "moderation_record_kind_from_values resource_type stored_kind infraction_type scope_type =
     moderation_record_kind
       (if resource_type = lit ''INFRACTION''
        then (case Option.bind infraction_type (\<lambda>t. classify_infraction_moderation_kind t scope_type) of
                None \<Rightarrow> stored_kind | Some k \<Rightarrow> k)
        else stored_kind)"

section \<open>Search patterns\<close>

definition replace_char :: "rchar \<Rightarrow> rstr \<Rightarrow> rstr \<Rightarrow> rstr" where
  "replace_char x t s = concat (map (\<lambda>y. if y = x then t else [y]) s)"

definition like_pattern :: "rstr \<Rightarrow> rstr" where
  "like_pattern s = lit ''%''
     @ replace_char (ch (CHR ''_'')) (lit ''!_'') (replace_char (ch (CHR ''%'')) (lit ''!%'')
         (replace_char (ch (CHR ''!'')) (lit ''!!'') s)) @ lit ''%''"

text \<open>
  \<open>ILIKE ... ESCAPE e\<close>: a percent sign stands for any text, an underscore for any character and
  the escape takes the next character literally; \<open>f\<close> folds the case of a character.
\<close>

fun ilike :: "rchar \<Rightarrow> (rchar \<Rightarrow> rchar) \<Rightarrow> rstr \<Rightarrow> rstr \<Rightarrow> bool" where
  "ilike e f [] s = (s = [])"
| "ilike e f (p # ps) s =
     (if p = ch (CHR ''%'')
      then ilike e f ps s \<or> (case s of [] \<Rightarrow> False | c # cs \<Rightarrow> ilike e f (p # ps) cs)
      else if p = ch (CHR ''_'') then (case s of [] \<Rightarrow> False | c # cs \<Rightarrow> ilike e f ps cs)
      else if p = e then (case ps of [] \<Rightarrow> False
        | q # qs \<Rightarrow> (case s of [] \<Rightarrow> False | c # cs \<Rightarrow> f q = f c \<and> ilike e f qs cs))
      else (case s of [] \<Rightarrow> False | c # cs \<Rightarrow> f p = f c \<and> ilike e f ps cs))"

declare ilike.simps(2) [simp del]

definition escaped :: "rchar \<Rightarrow> rstr" where
  "escaped c = (if c \<in> {ch (CHR ''!''), ch (CHR ''%''), ch (CHR ''_'')} then [ch (CHR ''!''), c] else [c])"

lemma like_pattern_escapes: "like_pattern s = lit ''%'' @ concat (map escaped s) @ lit ''%''"
proof -
  have "replace_char (ch (CHR ''_'')) (lit ''!_'') (replace_char (ch (CHR ''%'')) (lit ''!%'')
         (replace_char (ch (CHR ''!'')) (lit ''!!'') s)) = concat (map escaped s)"
    by (induction s) (simp_all add: replace_char_def escaped_def lit_def)
  then show ?thesis by (simp add: like_pattern_def)
qed

lemma ilike_any: "ilike (ch (CHR ''!'')) f (ch (CHR ''%'') # ps) s \<longleftrightarrow> (\<exists>a b. s = a @ b \<and> ilike (ch (CHR ''!'')) f ps b)"
proof (induction s)
  case Nil
  then show ?case by (simp add: ilike.simps(2))
next
  case (Cons c s)
  have "(\<exists>a b. c # s = a @ b \<and> ilike (ch (CHR ''!'')) f ps b) \<longleftrightarrow> ilike (ch (CHR ''!'')) f ps (c # s) \<or> (\<exists>a b. s = a @ b \<and> ilike (ch (CHR ''!'')) f ps b)"
    by (auto simp: Cons_eq_append_conv)
  with Cons show ?case by (subst ilike.simps(2)) simp
qed

lemma ilike_escaped:
  "ilike (ch (CHR ''!'')) f (escaped x @ ps) s \<longleftrightarrow> (case s of [] \<Rightarrow> False | c # cs \<Rightarrow> f x = f c \<and> ilike (ch (CHR ''!'')) f ps cs)"
  by (auto simp: escaped_def ilike.simps(2) split: list.splits)

lemma ilike_literal:
  "ilike (ch (CHR ''!'')) f (concat (map escaped v) @ ps) s \<longleftrightarrow> (\<exists>a b. s = a @ b \<and> map f a = map f v \<and> ilike (ch (CHR ''!'')) f ps b)"
proof (induction v arbitrary: s)
  case Nil
  then show ?case by auto
next
  case (Cons x v)
  show ?case
  proof (cases s)
    case Nil
    then show ?thesis using ilike_escaped [of f x "concat (map escaped v) @ ps" s] by simp
  next
    case (Cons c cs)
    have "(\<exists>a b. c # cs = a @ b \<and> map f a = map f (x # v) \<and> ilike (ch (CHR ''!'')) f ps b)
        \<longleftrightarrow> f x = f c \<and> (\<exists>a b. cs = a @ b \<and> map f a = map f v \<and> ilike (ch (CHR ''!'')) f ps b)"
      (is "?l \<longleftrightarrow> ?r")
    proof
      assume ?l
      then show ?r by (auto simp: Cons_eq_append_conv)
    next
      assume ?r
      then obtain a b where "f x = f c" "cs = a @ b" "map f a = map f v" "ilike (ch (CHR ''!'')) f ps b" by blast
      then show ?l by (intro exI [of _ "c # a"] exI [of _ b]) simp
    qed
    with Cons Cons.IH [of cs] show ?thesis
      using ilike_escaped [of f x "concat (map escaped v) @ ps" s] by simp
  qed
qed

text \<open>C40 [search_is_literal]: a search finds exactly the texts that contain the searched text, letter
  case aside; percent signs, underscores and exclamation marks in it stand for themselves.\<close>

theorem search_is_literal:
  "ilike (ch (CHR ''!'')) f (like_pattern v) s \<longleftrightarrow> (\<exists>a b d. s = a @ b @ d \<and> map f b = map f v)"
proof -
  have p: "like_pattern v = ch (CHR ''%'') # concat (map escaped v) @ [ch (CHR ''%'')]"
    by (simp add: like_pattern_escapes lit_def)
  show ?thesis
    unfolding p ilike_any ilike_literal by auto
qed

section \<open>Safety score\<close>

definition f64_minus_1 :: f64 where
  "f64_minus_1 = 0xBFF0000000000000"

definition f64_10 :: f64 where
  "f64_10 = 0x4024000000000000"

definition f64_30 :: f64 where
  "f64_30 = 0x403E000000000000"

definition f64_60 :: f64 where
  "f64_60 = 0x404E000000000000"

record observation =
  on_signal_type :: rstr
  on_value :: f64
  on_confidence :: f64
  on_weight :: f64
  on_mitigating :: bool

definition contribution :: "moderation_context \<Rightarrow> observation \<Rightarrow> f64" where
  "contribution c r = mc_multiply c (mc_multiply c (mc_multiply c (on_value r) (on_confidence r)) (on_weight r))
     (if on_mitigating r then f64_minus_1 else f64_1)"

fun accumulate ::
  "moderation_context \<Rightarrow> observation list \<Rightarrow> f64 \<Rightarrow> (rstr, nat \<times> f64) btree_map \<Rightarrow> f64 \<times> (rstr, nat \<times> f64) btree_map" where
  "accumulate c [] score breakdown = (score, breakdown)"
| "accumulate c (r # rs) score breakdown =
     accumulate c rs (mc_add c score (contribution c r))
       (bt_entry (on_signal_type r) (\<lambda>old. case (case old of None \<Rightarrow> (0, f64_0) | Some x \<Rightarrow> x) of
          (n, x) \<Rightarrow> (Suc n, mc_add c x (contribution c r))) breakdown)"

definition f64_clamp :: "f64 \<Rightarrow> f64 \<Rightarrow> f64 \<Rightarrow> f64" where
  "f64_clamp low high x = (if f64_lt x low then low else if f64_lt high x then high else x)"

definition score_tier :: "f64 \<Rightarrow> rstr" where
  "score_tier x = (if f64_le f64_60 x then lit ''HIGH_RISK'' else if f64_le f64_30 x then lit ''MEDIUM_RISK''
     else if f64_le f64_10 x then lit ''LOW_RISK'' else lit ''SAFE'')"

definition calculate_safety_score ::
  "moderation_context \<Rightarrow> observation list \<Rightarrow> f64 \<times> rstr \<times> (rstr, nat \<times> f64) btree_map" where
  "calculate_safety_score c rs = (case accumulate c rs f64_0 [] of (raw, breakdown) \<Rightarrow>
     let score = f64_clamp f64_0 f64_100 raw in (score, score_tier score, breakdown))"

lemmas f64_numbers = f64_le_def f64_lt_def f64_is_nan_def f64_key_def f64_negative_def f64_magnitude_def
  f64_infinite_magnitude_def f64_0_def f64_10_def f64_30_def f64_60_def f64_100_def

lemma accumulate_breakdown:
  "bt_wf m \<Longrightarrow> snd (accumulate c rs score m) = m' \<Longrightarrow>
     bt_wf m' \<and> (\<forall>k. (case map_of m' k of None \<Rightarrow> 0 | Some (n, x) \<Rightarrow> n)
        = (case map_of m k of None \<Rightarrow> 0 | Some (n, x) \<Rightarrow> n) + length (filter (\<lambda>r. on_signal_type r = k) rs))"
proof (induction rs arbitrary: score m)
  case Nil
  then show ?case by simp
next
  case (Cons r rs)
  note step = Cons.IH [OF bt_entry_wf [OF Cons.prems(1)] Cons.prems(2) [simplified accumulate.simps]]
  show ?case
    using step by (auto simp: map_of_bt_entry [OF Cons.prems(1)] split: option.splits prod.splits)
qed

lemma clamp_bounds:
  "f64_le f64_0 f64_100 \<Longrightarrow> \<not> f64_is_nan x \<Longrightarrow>
     f64_le f64_0 (f64_clamp f64_0 f64_100 x) \<and> f64_le (f64_clamp f64_0 f64_100 x) f64_100"
  by (auto simp: f64_clamp_def f64_le_def f64_lt_def)

lemma clamp_nan [simp]: "f64_is_nan (f64_clamp f64_0 f64_100 x) = f64_is_nan x"
  by (auto simp: f64_clamp_def f64_numbers)

text \<open>the score lies between 0 and 100 unless the sum of the contributions is not a
  number, which counts as safe; the tier is that of the score, and the breakdown has the number of observations
  of every signal.\<close>

theorem safety_score_correct:
  "case calculate_safety_score c rs of (score, tier, breakdown) \<Rightarrow>
     (if f64_is_nan (fst (accumulate c rs f64_0 [])) then tier = lit ''SAFE''
      else f64_le f64_0 score \<and> f64_le score f64_100)
     \<and> tier = (if f64_le f64_60 score then lit ''HIGH_RISK'' else if f64_le f64_30 score then lit ''MEDIUM_RISK''
               else if f64_le f64_10 score then lit ''LOW_RISK'' else lit ''SAFE'')
     \<and> sorted_wrt (<) (map fst breakdown)
     \<and> (\<forall>k. (case map_of breakdown k of None \<Rightarrow> 0 | Some (n, x) \<Rightarrow> n) = length (filter (\<lambda>r. on_signal_type r = k) rs))"
proof -
  obtain s b where a: "accumulate c rs f64_0 [] = (s, b)" by (cases "accumulate c rs f64_0 []")
  have "f64_le f64_0 f64_100" by (simp add: f64_numbers)
  note bounds = clamp_bounds [OF this, of s]
  have nan: "f64_is_nan s \<Longrightarrow> score_tier (f64_clamp f64_0 f64_100 s) = lit ''SAFE''"
    using f64_nan [of "f64_clamp f64_0 f64_100 s"] by (simp add: score_tier_def)
  have "bt_wf b \<and> (\<forall>k. (case map_of b k of None \<Rightarrow> 0 | Some (n, x) \<Rightarrow> n) = length (filter (\<lambda>r. on_signal_type r = k) rs))"
    using accumulate_breakdown [of "[]" c rs f64_0 b] a by simp
  then show ?thesis
    using bounds nan by (simp add: calculate_safety_score_def a Let_def bt_wf_def score_tier_def)
qed

end
