(* ===== verification/ModerationStore.thy ===== *)
theory ModerationStore
  imports ModerationModel
begin

text \<open>
  The tables of the moderation repository and what its mutations share: the audit and the idempotency
  rows, the registered commands with their outbox rows, the safety observations with the assessment
  derived from them, and the notices to users. Statements are those of \<open>src/moderation/repository.rs\<close>
  and \<open>src/policy/repository.rs\<close> with the keys and checks of \<open>migrations/\<close>. All readings of the
  clock in one operation are one argument, as are the identifiers it draws.
\<close>

section \<open>Tables\<close>

record restriction_row =
  rr_id :: uuid
  rr_subject_type :: rstr
  rr_subject_id :: rstr
  rr_scope_type :: rstr
  rr_scope_id :: rstr
  rr_restriction_type :: rstr
  rr_status :: rstr
  rr_reason :: rstr
  rr_created_by :: rstr
  rr_revoked_by :: "rstr option"
  rr_revoked_reason :: "rstr option"
  rr_starts_at :: date_time
  rr_expires_at :: "date_time option"
  rr_created_at :: date_time
  rr_updated_at :: date_time
  rr_version :: i64
  rr_source_report_id :: "uuid option"

record infraction_row =
  nf_id :: uuid
  nf_subject_type :: rstr
  nf_subject_id :: rstr
  nf_scope_type :: rstr
  nf_scope_id :: rstr
  nf_infraction_type :: rstr
  nf_status :: rstr
  nf_reason :: rstr
  nf_enforcement_restriction_id :: "uuid option"
  nf_created_by :: rstr
  nf_revoked_by :: "rstr option"
  nf_revoked_reason :: "rstr option"
  nf_expires_at :: "date_time option"
  nf_created_at :: date_time
  nf_updated_at :: date_time
  nf_version :: i64
  nf_source_report_id :: "uuid option"

record report_row =
  rq_id :: uuid
  rq_scope_type :: rstr
  rq_scope_id :: rstr
  rq_reporter_id :: rstr
  rq_subject_type :: rstr
  rq_subject_id :: rstr
  rq_report_type :: rstr
  rq_description :: rstr
  rq_context :: json
  rq_status :: rstr
  rq_resolution :: "rstr option"
  rq_resolved_by :: "rstr option"
  rq_resolved_at :: "date_time option"
  rq_created_at :: date_time
  rq_updated_at :: date_time
  rq_version :: i64
  rq_claimed_by :: "rstr option"
  rq_claimed_at :: "date_time option"
  rq_claim_expires_at :: "date_time option"
  rq_last_claim_change_at :: "date_time option"

record appeal_row =
  pl_id :: uuid
  pl_infraction_id :: uuid
  pl_appellant_id :: rstr
  pl_reason :: rstr
  pl_evidence :: json
  pl_status :: rstr
  pl_resolution :: "rstr option"
  pl_resolved_by :: "rstr option"
  pl_resolved_at :: "date_time option"
  pl_created_at :: date_time
  pl_updated_at :: date_time
  pl_version :: i64

record queue_row =
  qi_id :: uuid
  qi_queue :: rstr
  qi_scope_type :: rstr
  qi_scope_id :: rstr
  qi_subject_type :: rstr
  qi_subject_id :: rstr
  qi_priority :: i32
  qi_status :: rstr
  qi_reason_codes :: "rstr list"
  qi_decision_id :: "uuid option"
  qi_assigned_to :: "rstr option"
  qi_resolved_by :: "rstr option"
  qi_resolution :: "rstr option"
  qi_created_at :: date_time
  qi_updated_at :: date_time
  qi_version :: i64

record observation_row =
  sv_id :: uuid
  sv_subject_type :: rstr
  sv_subject_id :: rstr
  sv_scope_type :: rstr
  sv_scope_id :: rstr
  sv_observation :: observation
  sv_source_action_id :: "uuid option"
  sv_metadata :: json
  sv_observed_at :: date_time
  sv_expires_at :: "date_time option"

record assessment_row =
  sa_id :: uuid
  sa_subject_type :: rstr
  sa_subject_id :: rstr
  sa_scope_type :: rstr
  sa_scope_id :: rstr
  sa_score :: f64
  sa_tier :: rstr
  sa_signal_breakdown :: json
  sa_assessed_at :: date_time
  sa_version :: i64

record staff_request_row =
  sq_id :: uuid
  sq_action_type :: rstr
  sq_subject_type :: rstr
  sq_subject_id :: rstr
  sq_scope_type :: rstr
  sq_scope_id :: rstr
  sq_report_id :: "uuid option"
  sq_requested_reason :: rstr
  sq_requested_expires_at :: "date_time option"
  sq_requested_by :: rstr
  sq_requested_at :: date_time
  sq_status :: rstr
  sq_decided_by :: "rstr option"
  sq_decision_reason :: "rstr option"
  sq_decided_at :: "date_time option"
  sq_executed_infraction_id :: "uuid option"
  sq_executed_restriction_id :: "uuid option"
  sq_expires_at :: date_time
  sq_version :: i64

record command_row =
  pc_command_id :: uuid
  pc_decision_id :: "uuid option"
  pc_command_type :: rstr
  pc_idempotency_key :: rstr
  pc_payload :: "byte list"
  pc_retry_safe :: bool

record evidence_row =
  cv_lobby_id :: rstr
  cv_sequence :: i64
  cv_action_id :: uuid

record snapshot_row =
  es_report_id :: uuid
  es_lobby_id :: rstr
  es_first_sequence :: i64
  es_last_sequence :: i64
  es_entry_count :: i64
  es_terminal_action_id :: uuid

text \<open>Of the stored actions only their types are read here, and of the decisions their identifiers.\<close>

record moderation_tables =
  mt_restrictions :: "restriction_row list"
  mt_infractions :: "infraction_row list"
  mt_reports :: "report_row list"
  mt_appeals :: "appeal_row list"
  mt_queue :: "queue_row list"
  mt_observations :: "observation_row list"
  mt_assessments :: "assessment_row list"
  mt_requests :: "staff_request_row list"
  mt_commands :: "command_row list"
  mt_evidence :: "evidence_row list"
  mt_snapshots :: "snapshot_row list"
  mt_actions :: "(uuid \<times> rstr) list"
  mt_decisions :: "uuid list"
  mt_shared :: policy_tables

section \<open>Commands\<close>

record notify_command =
  cn_user_id :: rstr
  cn_template :: rstr
  cn_parameters :: "(rstr, rstr) hash_map"

record delete_command =
  cd_message_id :: rstr
  cd_channel_id :: rstr
  cd_reason_codes :: "rstr list"

record kick_command =
  ck_user_id :: rstr
  ck_server_id :: rstr
  ck_reason_codes :: "rstr list"

record notice_command =
  nc_user_id :: rstr
  nc_kind :: i32
  nc_event :: i32
  nc_scope :: wire_scope
  nc_public_reason :: rstr
  nc_expires_at :: "wire_timestamp option"
  nc_infraction_id :: rstr
  nc_restriction_id :: rstr
  nc_source :: rstr
  nc_source_channel_id :: rstr
  nc_source_message_id :: rstr
  nc_source_user_id :: rstr
  nc_record_version :: u64

datatype command =
  CmdNotify notify_command | CmdDelete delete_command | CmdKick kick_command | CmdModerationNotice notice_command

record command_envelope =
  ce_id :: rstr
  ce_decision_id :: rstr
  ce_idempotency_key :: rstr
  ce_command :: "command option"

text \<open>The structs \<open>RestrictionCursor\<close> and \<open>ModerationRecordCursor\<close>, which are alike.\<close>

record list_cursor =
  lc_sort :: rstr
  lc_created_at :: "date_time option"
  lc_expires_at :: "date_time option"
  lc_id :: uuid

text \<open>
  The repository with its topic, the encoding of a command, the arithmetic of the database on
  instants (nothing when the result is out of range) and that of the library, the sizes and the texts of JSON
  values, the folding of letter case, the upper case of a text, and reading and writing the cursors of lists as JSON.
\<close>

record moderation_repository =
  mr_context :: moderation_context
  mr_command_topic :: rstr
  mr_encode :: "command_envelope \<Rightarrow> byte list"
  mr_after :: "date_time \<Rightarrow> i64 \<Rightarrow> date_time option"
  mr_before :: "date_time \<Rightarrow> i64 \<Rightarrow> date_time option"
  mr_json_size :: "json \<Rightarrow> rstr + nat"
  mr_later :: "date_time \<Rightarrow> nat \<Rightarrow> date_time"
  mr_uppercase :: "rstr \<Rightarrow> rstr"
  mr_fold_case :: "rchar \<Rightarrow> rchar"
  mr_json_text :: "json \<Rightarrow> rstr"
  mr_read_cursor :: "rstr \<Rightarrow> rstr + list_cursor"
  mr_write_cursor :: "list_cursor \<Rightarrow> rstr + rstr"

definition command_type :: "command \<Rightarrow> rstr \<times> bool" where
  "command_type x = (case x of
       CmdNotify n \<Rightarrow> (lit ''NOTIFY'', False)
     | CmdDelete d \<Rightarrow> (lit ''DELETE'', True)
     | CmdKick k \<Rightarrow> (lit ''KICK'', True)
     | CmdModerationNotice n \<Rightarrow> (lit ''MODERATION_NOTICE'', False))"

definition parse_uuid :: "moderation_context \<Rightarrow> rstr \<Rightarrow> repo_error + uuid" where
  "parse_uuid c s = ok_or (Refused (lit ''invalid UUID'')) (mc_parse_uuid c s)"

definition register_command ::
  "moderation_repository \<Rightarrow> command_envelope \<Rightarrow> moderation_tables \<Rightarrow> repo_error + moderation_tables" where
  "register_command r e db =
     res_bind (parse_uuid (mr_context r) (ce_id e)) (\<lambda>i.
     res_bind (if ce_decision_id e = [] then Inr None
       else res_bind (parse_uuid (mr_context r) (ce_decision_id e)) (\<lambda>d. Inr (Some d))) (\<lambda>d.
     case ce_command e of
       None \<Rightarrow> Inl (Refused (lit ''command envelope has no typed command''))
     | Some x \<Rightarrow> (case command_type x of (name, retry_safe) \<Rightarrow>
         res_bind (constraint (i \<notin> set (map pc_command_id (mt_commands db))
             \<and> ce_idempotency_key e \<notin> set (map pc_idempotency_key (mt_commands db))
             \<and> (case d of None \<Rightarrow> True | Some j \<Rightarrow> j \<in> set (mt_decisions db)))) (\<lambda>_.
         Inr (db\<lparr>mt_commands := mt_commands db @ [\<lparr>pc_command_id = i, pc_decision_id = d, pc_command_type = name,
           pc_idempotency_key = ce_idempotency_key e, pc_payload = mr_encode r e, pc_retry_safe = retry_safe\<rparr>]\<rparr>)))))"

section \<open>Shared by all mutations\<close>

definition moderation_audit ::
  "moderation_context \<Rightarrow> request_context \<Rightarrow> string \<Rightarrow> string \<Rightarrow> uuid \<Rightarrow> moderation_tables \<Rightarrow> moderation_tables" where
  "moderation_audit c x action resource_type i db =
     db\<lparr>mt_shared := (mt_shared db)\<lparr>db_audit := db_audit (mt_shared db) @ [\<lparr>al_request_id = rc_request_id x,
        al_actor_id = rc_actor_id x, al_actor_type = actor_type_name (rc_actor_type x), al_action = lit action,
        al_resource_type = lit resource_type, al_resource_id = tx_uuid (mc_text c) i, al_before = None,
        al_after = None, al_trace_id = None\<rparr>]\<rparr>\<rparr>"

definition claim_idempotency ::
  "request_context \<Rightarrow> string \<Rightarrow> uuid \<Rightarrow> moderation_tables \<Rightarrow> repo_error + moderation_tables + uuid" where
  "claim_idempotency x operation i db = (case List.find (same_key x) (db_idempotency (mt_shared db)) of
       None \<Rightarrow> Inr (Inl (db\<lparr>mt_shared := (mt_shared db)\<lparr>db_idempotency := db_idempotency (mt_shared db)
         @ [\<lparr>mi_service_principal = rc_service_principal x, mi_actor_id = rc_actor_id x,
             mi_idempotency_key = rc_idempotency_key x, mi_operation = lit operation, mi_resource_id = i\<rparr>]\<rparr>\<rparr>))
     | Some r \<Rightarrow> if mi_operation r = lit operation then Inr (Inr (mi_resource_id r))
         else Inl (Refused (lit ''idempotency key was already used for a different operation'')))"

text \<open>A transaction: a failure rolls back, and so does an operation that was done before.\<close>

definition transaction ::
  "(moderation_tables \<Rightarrow> repo_error + moderation_tables) \<Rightarrow> (moderation_tables \<Rightarrow> repo_error + 'a)
     \<Rightarrow> moderation_tables \<Rightarrow> moderation_tables \<times> (repo_error + 'a)" where
  "transaction statements result db =
     (case statements db of Inl e \<Rightarrow> (db, Inl e) | Inr db' \<Rightarrow> (db', result db'))"

definition idempotent ::
  "request_context \<Rightarrow> string \<Rightarrow> uuid \<Rightarrow> (moderation_tables \<Rightarrow> repo_error + moderation_tables)
     \<Rightarrow> (uuid \<Rightarrow> moderation_tables \<Rightarrow> repo_error + 'a) \<Rightarrow> moderation_tables \<Rightarrow> moderation_tables \<times> (repo_error + 'a)" where
  "idempotent x operation i statements read db =
     (case claim_idempotency x operation i db of
        Inl e \<Rightarrow> (db, Inl e)
      | Inr (Inr existing) \<Rightarrow> (db, read existing db)
      | Inr (Inl db1) \<Rightarrow> (case statements db1 of Inl e \<Rightarrow> (db, Inl e) | Inr db2 \<Rightarrow> (db2, read i db2)))"

section \<open>Safety observations\<close>

definition observation_ok :: "observation_row \<Rightarrow> bool" where
  "observation_ok r \<longleftrightarrow> sv_subject_type r \<in> {lit ''USER'', lit ''SERVER''} \<and> sv_subject_id r \<noteq> []
     \<and> 1 \<le> length (on_signal_type (sv_observation r)) \<and> length (on_signal_type (sv_observation r)) \<le> 100
     \<and> f64_le f64_0 (on_value (sv_observation r)) \<and> f64_le (on_value (sv_observation r)) f64_100
     \<and> f64_le f64_0 (on_confidence (sv_observation r)) \<and> f64_le (on_confidence (sv_observation r)) f64_1
     \<and> f64_le f64_0 (on_weight (sv_observation r)) \<and> f64_le (on_weight (sv_observation r)) f64_10
     \<and> json_as_object (sv_metadata r) \<noteq> None
     \<and> (case sv_expires_at r of None \<Rightarrow> True | Some t \<Rightarrow> sv_observed_at r < t)"

definition insert_observation :: "observation_row \<Rightarrow> moderation_tables \<Rightarrow> repo_error + moderation_tables" where
  "insert_observation r db =
     res_bind (constraint (observation_ok r \<and> sv_id r \<notin> set (map sv_id (mt_observations db))))
       (\<lambda>_. Inr (db\<lparr>mt_observations := mt_observations db @ [r]\<rparr>))"

text \<open>The subject of an observation and the place it is about.\<close>

type_synonym safety_key = "rstr \<times> rstr \<times> rstr \<times> rstr"

definition live_observations :: "date_time \<Rightarrow> safety_key \<Rightarrow> moderation_tables \<Rightarrow> observation list" where
  "live_observations now k db = map sv_observation (filter (\<lambda>r.
     (sv_subject_type r, sv_subject_id r, sv_scope_type r, sv_scope_id r) = k
     \<and> (case sv_expires_at r of None \<Rightarrow> True | Some t \<Rightarrow> now < t)) (mt_observations db))"

definition assessment_of :: "safety_key \<Rightarrow> assessment_row \<Rightarrow> bool" where
  "assessment_of k r \<longleftrightarrow> (sa_subject_type r, sa_subject_id r, sa_scope_type r, sa_scope_id r) = k"

definition breakdown_json :: "moderation_context \<Rightarrow> (rstr, nat \<times> f64) btree_map \<Rightarrow> json" where
  "breakdown_json c m = JObject (map (\<lambda>(k, n, x). (k, json_object
     [(''count'', JNumber (tx_number (mc_text c) (of_nat n))), (''contribution'', mc_json_f64 c x)])) m)"

text \<open>The upsert: the row of the subject with a new score, or a first one. A score that is not a number fails.\<close>

definition recalculate_safety_assessment ::
  "moderation_context \<Rightarrow> date_time \<Rightarrow> uuid \<Rightarrow> safety_key \<Rightarrow> moderation_tables \<Rightarrow> repo_error + moderation_tables \<times> uuid" where
  "recalculate_safety_assessment c now fresh k db =
     (case calculate_safety_score c (live_observations now k db) of (score, tier, breakdown) \<Rightarrow>
      case k of (subject_type, subject_id, scope_type, scope_id) \<Rightarrow>
      res_bind (constraint (subject_type \<in> {lit ''USER'', lit ''SERVER''} \<and> subject_id \<noteq> []
         \<and> f64_le f64_0 score \<and> f64_le score f64_100)) (\<lambda>_.
      case List.find (assessment_of k) (mt_assessments db) of
        Some old \<Rightarrow>
          res_bind (update_increasing (assessment_of k) sa_version
             (\<lambda>r. r\<lparr>sa_score := score, sa_tier := tier, sa_signal_breakdown := breakdown_json c breakdown,
                sa_assessed_at := now, sa_version := sa_version r + 1\<rparr>) (mt_assessments db))
            (\<lambda>rows. Inr (db\<lparr>mt_assessments := rows\<rparr>, sa_id old))
      | None \<Rightarrow>
          res_bind (constraint (fresh \<notin> set (map sa_id (mt_assessments db)))) (\<lambda>_.
          Inr (db\<lparr>mt_assessments := mt_assessments db @ [\<lparr>sa_id = fresh, sa_subject_type = subject_type,
             sa_subject_id = subject_id, sa_scope_type = scope_type, sa_scope_id = scope_id, sa_score = score,
             sa_tier = tier, sa_signal_breakdown = breakdown_json c breakdown, sa_assessed_at = now,
             sa_version = 1\<rparr>]\<rparr>, fresh))))"

text \<open>The identifiers an operation draws; the assessment's is the default of its column.\<close>

record fresh_ids =
  fi_id :: uuid
  fi_enforcement :: uuid
  fi_observation :: uuid
  fi_assessment :: uuid
  fi_command :: uuid

definition insert_derived_safety_observation ::
  "moderation_context \<Rightarrow> date_time \<Rightarrow> fresh_ids \<Rightarrow> safety_key \<Rightarrow> rstr \<Rightarrow> f64 \<Rightarrow> bool \<Rightarrow> json
     \<Rightarrow> moderation_tables \<Rightarrow> repo_error + moderation_tables \<times> uuid" where
  "insert_derived_safety_observation c now fresh k signal val mitigating metadata db =
     (case k of (subject_type, subject_id, scope_type, scope_id) \<Rightarrow>
      res_bind (insert_observation \<lparr>sv_id = fi_observation fresh, sv_subject_type = subject_type,
         sv_subject_id = subject_id, sv_scope_type = scope_type, sv_scope_id = scope_id,
         sv_observation = \<lparr>on_signal_type = signal, on_value = val, on_confidence = f64_1, on_weight = f64_1,
           on_mitigating = mitigating\<rparr>,
         sv_source_action_id = None, sv_metadata = metadata, sv_observed_at = now, sv_expires_at = None\<rparr> db)
      (recalculate_safety_assessment c now (fi_assessment fresh) k))"

text \<open>What every caller does with it: both rows are audited.\<close>

definition derive_safety ::
  "moderation_context \<Rightarrow> request_context \<Rightarrow> date_time \<Rightarrow> fresh_ids \<Rightarrow> safety_key \<Rightarrow> rstr \<Rightarrow> f64 \<Rightarrow> bool \<Rightarrow> json
     \<Rightarrow> moderation_tables \<Rightarrow> repo_error + moderation_tables" where
  "derive_safety c x now fresh k signal val mitigating metadata db =
     res_bind (insert_derived_safety_observation c now fresh k signal val mitigating metadata db) (\<lambda>(db', assessment).
       Inr (moderation_audit c x ''RECALCULATE_SAFETY_ASSESSMENT'' ''SAFETY_ASSESSMENT'' assessment
         (moderation_audit c x ''DERIVE_SAFETY_OBSERVATION'' ''SAFETY_OBSERVATION'' (fi_observation fresh) db')))"

definition infraction_signal_value :: "rstr \<Rightarrow> f64" where
  "infraction_signal_value t =
     (if t = lit ''WARNING'' then 0x4014000000000000
      else if t = lit ''MUTE'' then 0x402E000000000000
      else if t = lit ''BAN'' then f64_30
      else if t = lit ''CONTENT'' then f64_10
      else f64_0)"

section \<open>Notices\<close>

definition GLOBAL_BLACKLIST_NOTICE :: i32 where
  "GLOBAL_BLACKLIST_NOTICE = 6"

definition infraction_notice_kind :: "bool \<Rightarrow> rstr \<Rightarrow> rstr \<Rightarrow> i32 option" where
  "infraction_notice_kind restricted infraction_type scope_type =
     (if restricted \<and> infraction_type = lit ''BAN'' \<and> scope_type = lit ''PLATFORM'' then Some GLOBAL_BLACKLIST_NOTICE
      else if infraction_type = lit ''WARNING'' \<and> scope_type = lit ''HUB'' then Some 1
      else if infraction_type = lit ''MUTE'' \<and> scope_type = lit ''HUB'' then Some 2
      else if infraction_type = lit ''BAN'' \<and> scope_type = lit ''HUB'' then Some 3
      else if infraction_type = lit ''WARNING'' \<and> scope_type \<in> {lit ''LOBBY'', lit ''PRODUCT''} then Some 4
      else if infraction_type = lit ''BAN'' \<and> scope_type \<in> {lit ''LOBBY'', lit ''PRODUCT''} then Some 5
      else None)"

definition restriction_notice_kind :: "rstr \<Rightarrow> rstr \<Rightarrow> i32 option" where
  "restriction_notice_kind restriction_type scope_type =
     (if restriction_type = lit ''BLACKLIST'' \<and> scope_type = lit ''PLATFORM'' then Some GLOBAL_BLACKLIST_NOTICE
      else if restriction_type = lit ''MUTE'' \<and> scope_type = lit ''HUB'' then Some 2
      else if restriction_type = lit ''BAN'' \<and> scope_type = lit ''HUB'' then Some 3
      else if restriction_type = lit ''BAN'' \<and> scope_type \<in> {lit ''LOBBY'', lit ''PRODUCT''} then Some 5
      else None)"

definition send_notice ::
  "moderation_repository \<Rightarrow> uuid \<Rightarrow> string \<Rightarrow> uuid \<Rightarrow> rstr \<Rightarrow> notice_command \<Rightarrow> moderation_tables
     \<Rightarrow> repo_error + moderation_tables" where
  "send_notice r command_id aggregate_type aggregate_id key notice db =
     (let e = \<lparr>ce_id = tx_uuid (mc_text (mr_context r)) command_id, ce_decision_id = [], ce_idempotency_key = key,
                ce_command = Some (CmdModerationNotice notice)\<rparr>
      in res_bind (register_command r e db) (\<lambda>db'.
           Inr (db'\<lparr>mt_shared := insert_outbox aggregate_type aggregate_id (mr_command_topic r)
             ''interchat.trust-safety.command.v2'' (ce_id e) (Inr (mr_encode r e)) (mt_shared db')\<rparr>)))"

definition insert_manual_moderation_notice ::
  "moderation_repository \<Rightarrow> uuid \<Rightarrow> uuid \<Rightarrow> rstr \<Rightarrow> wire_scope \<Rightarrow> rstr \<Rightarrow> rstr \<Rightarrow> date_time option \<Rightarrow> uuid option
     \<Rightarrow> moderation_tables \<Rightarrow> repo_error + moderation_tables" where
  "insert_manual_moderation_notice r command_id infraction_id user s infraction_type reason expires restriction_id db =
     (let c = mr_context r; u = tx_uuid (mc_text c) infraction_id
      in res_bind (wire_scope_name (wc_type s)) (\<lambda>scope_type.
         case infraction_notice_kind (restriction_id \<noteq> None) infraction_type scope_type of
           None \<Rightarrow> Inr db
         | Some kind \<Rightarrow> send_notice r command_id ''INFRACTION'' infraction_id (lit ''moderation-notice:'' @ u)
             \<lparr>nc_user_id = user, nc_kind = kind, nc_event = 1, nc_scope = s, nc_public_reason = reason,
              nc_expires_at = map_option (timestamp c) expires, nc_infraction_id = u,
              nc_restriction_id = uuid_or_empty c restriction_id, nc_source = lit ''manual'',
              nc_source_channel_id = [], nc_source_message_id = [], nc_source_user_id = user,
              nc_record_version = 1\<rparr> db))"

definition insert_manual_restriction_notice ::
  "moderation_repository \<Rightarrow> uuid \<Rightarrow> uuid \<Rightarrow> rstr \<Rightarrow> wire_scope \<Rightarrow> rstr \<Rightarrow> rstr \<Rightarrow> date_time option \<Rightarrow> i64 \<Rightarrow> i32
     \<Rightarrow> moderation_tables \<Rightarrow> repo_error + moderation_tables" where
  "insert_manual_restriction_notice r command_id restriction_id user s restriction_type reason expires version event db =
     (let c = mr_context r; u = tx_uuid (mc_text c) restriction_id
      in res_bind (wire_scope_name (wc_type s)) (\<lambda>scope_type.
         case restriction_notice_kind restriction_type scope_type of
           None \<Rightarrow> Inr db
         | Some kind \<Rightarrow>
             if sint version < 0 then Inl (Refused (lit ''out of range integral type conversion attempted''))
             else send_notice r command_id ''RESTRICTION'' restriction_id
               (lit ''moderation-notice:restriction:'' @ u @ lit '':'' @ show_nat (unat version))
               \<lparr>nc_user_id = user, nc_kind = kind, nc_event = event, nc_scope = s, nc_public_reason = reason,
                nc_expires_at = map_option (timestamp c) expires, nc_infraction_id = [],
                nc_restriction_id = u, nc_source = lit ''manual'', nc_source_channel_id = [],
                nc_source_message_id = [], nc_source_user_id = user, nc_record_version = version\<rparr> db))"

end
