(* ===== verification/ModerationRecords.thy ===== *)
theory ModerationRecords
  imports ModerationStore
begin

text \<open>
  Restrictions, infractions, appeals and review items (\<open>src/moderation/repository.rs\<close>): creating,
  updating, revoking and resolving them, with the observations, audits and notices of each.
\<close>

section \<open>Reading rows\<close>

record wire_restriction =
  wr_id :: rstr
  wr_subject :: "wire_subject option"
  wr_scope :: "wire_scope option"
  wr_type :: i32
  wr_status :: i32
  wr_reason :: rstr
  wr_created_by :: rstr
  wr_created_at :: "wire_timestamp option"
  wr_expires_at :: "wire_timestamp option"
  wr_version :: u64
  wr_is_active :: bool
  wr_source_report_id :: rstr

record wire_infraction =
  wi_id :: rstr
  wi_subject :: "wire_subject option"
  wi_scope :: "wire_scope option"
  wi_type :: i32
  wi_status :: i32
  wi_reason :: rstr
  wi_created_by :: rstr
  wi_created_at :: "wire_timestamp option"
  wi_expires_at :: "wire_timestamp option"
  wi_version :: u64
  wi_enforcement_restriction_id :: rstr
  wi_is_active :: bool
  wi_source_report_id :: rstr

record wire_appeal =
  wa_id :: rstr
  wa_infraction_id :: rstr
  wa_appellant_id :: rstr
  wa_reason :: rstr
  wa_status :: i32
  wa_resolution :: rstr
  wa_created_at :: "wire_timestamp option"
  wa_resolved_at :: "wire_timestamp option"
  wa_version :: u64

record wire_review_item =
  wv_id :: rstr
  wv_queue :: rstr
  wv_scope :: "wire_scope option"
  wv_subject :: "wire_subject option"
  wv_priority :: i32
  wv_status :: i32
  wv_reason_codes :: "rstr list"
  wv_decision_id :: rstr
  wv_assigned_to :: rstr
  wv_created_at :: "wire_timestamp option"
  wv_version :: u64

definition is_live :: "date_time \<Rightarrow> rstr \<Rightarrow> date_time option \<Rightarrow> bool" where
  "is_live now status expires \<longleftrightarrow> status = lit ''ACTIVE'' \<and> (case expires of None \<Rightarrow> True | Some e \<Rightarrow> now < e)"

definition restriction_from_row ::
  "moderation_context \<Rightarrow> date_time \<Rightarrow> restriction_row \<Rightarrow> repo_error + wire_restriction" where
  "restriction_from_row c now r = res_bind (scope_from_parts (rr_scope_type r) (rr_scope_id r)) (\<lambda>s.
     Inr \<lparr>wr_id = tx_uuid (mc_text c) (rr_id r),
       wr_subject = Some (subject_from_parts (rr_subject_type r) (rr_subject_id r)), wr_scope = Some s,
       wr_type = restriction_type_proto (rr_restriction_type r), wr_status = status_proto (rr_status r),
       wr_reason = rr_reason r, wr_created_by = rr_created_by r, wr_created_at = Some (timestamp c (rr_created_at r)),
       wr_expires_at = map_option (timestamp c) (rr_expires_at r), wr_version = rr_version r,
       wr_is_active = is_live now (rr_status r) (rr_expires_at r),
       wr_source_report_id = uuid_or_empty c (rr_source_report_id r)\<rparr>)"

definition infraction_from_row ::
  "moderation_context \<Rightarrow> date_time \<Rightarrow> infraction_row \<Rightarrow> repo_error + wire_infraction" where
  "infraction_from_row c now r = res_bind (scope_from_parts (nf_scope_type r) (nf_scope_id r)) (\<lambda>s.
     Inr \<lparr>wi_id = tx_uuid (mc_text c) (nf_id r),
       wi_subject = Some (subject_from_parts (nf_subject_type r) (nf_subject_id r)), wi_scope = Some s,
       wi_type = infraction_type_proto (nf_infraction_type r), wi_status = status_proto (nf_status r),
       wi_reason = nf_reason r, wi_created_by = nf_created_by r, wi_created_at = Some (timestamp c (nf_created_at r)),
       wi_expires_at = map_option (timestamp c) (nf_expires_at r), wi_version = nf_version r,
       wi_enforcement_restriction_id = uuid_or_empty c (nf_enforcement_restriction_id r),
       wi_is_active = is_live now (nf_status r) (nf_expires_at r),
       wi_source_report_id = uuid_or_empty c (nf_source_report_id r)\<rparr>)"

definition appeal_from_row :: "moderation_context \<Rightarrow> appeal_row \<Rightarrow> wire_appeal" where
  "appeal_from_row c r = \<lparr>wa_id = tx_uuid (mc_text c) (pl_id r),
     wa_infraction_id = tx_uuid (mc_text c) (pl_infraction_id r), wa_appellant_id = pl_appellant_id r,
     wa_reason = pl_reason r, wa_status = status_proto (pl_status r), wa_resolution = text_or_empty (pl_resolution r),
     wa_created_at = Some (timestamp c (pl_created_at r)),
     wa_resolved_at = map_option (timestamp c) (pl_resolved_at r), wa_version = pl_version r\<rparr>"

definition review_from_row :: "moderation_context \<Rightarrow> queue_row \<Rightarrow> repo_error + wire_review_item" where
  "review_from_row c r = res_bind (scope_from_parts (qi_scope_type r) (qi_scope_id r)) (\<lambda>s.
     Inr \<lparr>wv_id = tx_uuid (mc_text c) (qi_id r), wv_queue = qi_queue r, wv_scope = Some s,
       wv_subject = Some (subject_from_parts (qi_subject_type r) (qi_subject_id r)), wv_priority = qi_priority r,
       wv_status = status_proto (qi_status r), wv_reason_codes = qi_reason_codes r,
       wv_decision_id = uuid_or_empty c (qi_decision_id r), wv_assigned_to = text_or_empty (qi_assigned_to r),
       wv_created_at = Some (timestamp c (qi_created_at r)), wv_version = qi_version r\<rparr>)"

definition get_restriction ::
  "moderation_context \<Rightarrow> date_time \<Rightarrow> uuid \<Rightarrow> moderation_tables \<Rightarrow> repo_error + wire_restriction" where
  "get_restriction c now i db =
     res_bind (fetch_one (\<lambda>r. rr_id r = i) (mt_restrictions db)) (restriction_from_row c now)"

definition get_infraction ::
  "moderation_context \<Rightarrow> date_time \<Rightarrow> uuid \<Rightarrow> moderation_tables \<Rightarrow> repo_error + wire_infraction" where
  "get_infraction c now i db =
     res_bind (fetch_one (\<lambda>r. nf_id r = i) (mt_infractions db)) (infraction_from_row c now)"

definition get_appeal :: "moderation_context \<Rightarrow> uuid \<Rightarrow> moderation_tables \<Rightarrow> repo_error + wire_appeal" where
  "get_appeal c i db = res_bind (fetch_one (\<lambda>r. pl_id r = i) (mt_appeals db)) (\<lambda>r. Inr (appeal_from_row c r))"

definition get_review_item :: "moderation_context \<Rightarrow> uuid \<Rightarrow> moderation_tables \<Rightarrow> repo_error + wire_review_item" where
  "get_review_item c i db = res_bind (fetch_one (\<lambda>r. qi_id r = i) (mt_queue db)) (review_from_row c)"

section \<open>Restrictions\<close>

definition length_ok :: "rstr \<Rightarrow> bool" where
  "length_ok s \<longleftrightarrow> 1 \<le> length s \<and> length s \<le> 2000"

definition restriction_ok :: "restriction_row \<Rightarrow> bool" where
  "restriction_ok r \<longleftrightarrow> rr_subject_type r \<in> {lit ''USER'', lit ''SERVER''}
     \<and> rr_restriction_type r \<in> {lit ''MUTE'', lit ''BAN'', lit ''BLACKLIST'', lit ''CONTENT_QUARANTINE''}
     \<and> length_ok (rr_reason r) \<and> (case rr_expires_at r of None \<Rightarrow> True | Some e \<Rightarrow> rr_starts_at r < e)"

definition same_restriction :: "restriction_row \<Rightarrow> restriction_row \<Rightarrow> bool" where
  "same_restriction r s \<longleftrightarrow> rr_status r = lit ''ACTIVE'' \<and> rr_status s = lit ''ACTIVE''
     \<and> rr_subject_type r = rr_subject_type s \<and> rr_subject_id r = rr_subject_id s
     \<and> rr_scope_type r = rr_scope_type s \<and> rr_scope_id r = rr_scope_id s
     \<and> rr_restriction_type r = rr_restriction_type s"

definition report_exists :: "uuid option \<Rightarrow> moderation_tables \<Rightarrow> bool" where
  "report_exists i db \<longleftrightarrow> (case i of None \<Rightarrow> True | Some j \<Rightarrow> j \<in> set (map rq_id (mt_reports db)))"

definition insert_restriction :: "restriction_row \<Rightarrow> moderation_tables \<Rightarrow> repo_error + moderation_tables" where
  "insert_restriction r db =
     res_bind (constraint (restriction_ok r \<and> rr_id r \<notin> set (map rr_id (mt_restrictions db))
        \<and> \<not> list_ex (same_restriction r) (mt_restrictions db) \<and> report_exists (rr_source_report_id r) db))
       (\<lambda>_. Inr (db\<lparr>mt_restrictions := mt_restrictions db @ [r]\<rparr>))"

definition new_restriction ::
  "date_time \<Rightarrow> uuid \<Rightarrow> safety_key \<Rightarrow> rstr \<Rightarrow> rstr \<Rightarrow> rstr \<Rightarrow> date_time option \<Rightarrow> uuid option \<Rightarrow> restriction_row" where
  "new_restriction now i k restriction_type reason creator expires source =
     (case k of (subject_type, subject_id, scope_type, scope_id) \<Rightarrow>
      \<lparr>rr_id = i, rr_subject_type = subject_type, rr_subject_id = subject_id, rr_scope_type = scope_type,
       rr_scope_id = scope_id, rr_restriction_type = restriction_type, rr_status = lit ''ACTIVE'',
       rr_reason = reason, rr_created_by = creator, rr_revoked_by = None, rr_revoked_reason = None,
       rr_starts_at = now, rr_expires_at = expires, rr_created_at = now, rr_updated_at = now, rr_version = 1,
       rr_source_report_id = source\<rparr>)"

definition create_restriction ::
  "moderation_repository \<Rightarrow> date_time \<Rightarrow> request_context \<Rightarrow> fresh_ids \<Rightarrow> wire_restriction
     \<Rightarrow> moderation_tables \<Rightarrow> moderation_tables \<times> (repo_error + wire_restriction)" where
  "create_restriction r now x fresh w db =
     (let c = mr_context r in
      case res_bind (ok_or (Refused (lit ''restriction subject is required'')) (wr_subject w)) (\<lambda>subject.
           res_bind (primary_subject subject False) (\<lambda>(subject_type, subject_id).
           res_bind (ok_or (Refused (lit ''restriction scope is required'')) (wr_scope w)) (\<lambda>s.
           res_bind (wire_scope_name (wc_type s)) (\<lambda>scope_type.
           res_bind (restriction_type_name (wr_type w)) (\<lambda>restriction_type.
           res_bind (ensure_that (str_trim (wr_reason w) \<noteq> []) ''reason is required'') (\<lambda>_.
           res_bind (optional_datetime c (wr_expires_at w)) (\<lambda>expires.
           res_bind (optional_uuid c (wr_source_report_id w) ''source_report_id'') (\<lambda>source.
             Inr (s, new_restriction now (fi_id fresh) (subject_type, subject_id, scope_type, wc_id s) restriction_type
               (str_trim (wr_reason w)) (rc_actor_id x) expires source)))))))))
      of Inl e \<Rightarrow> (db, Inl e)
      | Inr (s, row) \<Rightarrow>
        idempotent x ''CREATE_RESTRICTION'' (fi_id fresh) (\<lambda>db.
          res_bind (insert_restriction row db) (\<lambda>db1.
          let db2 = moderation_audit c x ''CREATE_RESTRICTION'' ''RESTRICTION'' (fi_id fresh) db1
          in if rr_subject_type row = lit ''USER''
             then insert_manual_restriction_notice r (fi_command fresh) (fi_id fresh) (rr_subject_id row) s
               (rr_restriction_type row) (rr_reason row) (rr_expires_at row) 1 1 db2
             else Inr db2)) (get_restriction c now) db)"

definition revoke_restriction_row :: "date_time \<Rightarrow> rstr \<Rightarrow> rstr \<Rightarrow> restriction_row \<Rightarrow> restriction_row" where
  "revoke_restriction_row now by reason r = r\<lparr>rr_status := lit ''REVOKED'', rr_revoked_by := Some by,
     rr_revoked_reason := Some reason, rr_version := rr_version r + 1, rr_updated_at := now\<rparr>"

text \<open>An update of active restrictions, and the number of rows it reaches.\<close>

definition revoke_restrictions ::
  "(restriction_row \<Rightarrow> bool) \<Rightarrow> date_time \<Rightarrow> rstr \<Rightarrow> rstr \<Rightarrow> moderation_tables \<Rightarrow> repo_error + moderation_tables" where
  "revoke_restrictions p now by reason db =
     res_bind (update_increasing (\<lambda>r. p r \<and> rr_status r = lit ''ACTIVE'') rr_version
       (revoke_restriction_row now by reason) (mt_restrictions db)) (\<lambda>rows. Inr (db\<lparr>mt_restrictions := rows\<rparr>))"

definition restrictions_reached :: "(restriction_row \<Rightarrow> bool) \<Rightarrow> moderation_tables \<Rightarrow> nat" where
  "restrictions_reached p db = rows_affected (\<lambda>r. p r \<and> rr_status r = lit ''ACTIVE'') (mt_restrictions db)"

definition revoke_restriction ::
  "moderation_context \<Rightarrow> date_time \<Rightarrow> request_context \<Rightarrow> uuid \<Rightarrow> rstr \<Rightarrow> i64
     \<Rightarrow> moderation_tables \<Rightarrow> moderation_tables \<times> (repo_error + wire_restriction)" where
  "revoke_restriction c now x i reason expected db =
     (if str_trim reason = [] then (db, Inl (Refused (lit ''revocation reason is required'')))
      else idempotent x ''REVOKE_RESTRICTION'' i (\<lambda>db.
        let p = (\<lambda>r. rr_id r = i \<and> rr_version r = expected)
        in res_bind (revoke_restrictions p now (rc_actor_id x) (str_trim reason) db) (\<lambda>db'.
           res_bind (ensure_that (restrictions_reached p db = 1) ''restriction version conflict'') (\<lambda>_.
           Inr (moderation_audit c x ''REVOKE_RESTRICTION'' ''RESTRICTION'' i db')))) (get_restriction c now) db)"

definition update_restriction_row ::
  "date_time \<Rightarrow> rstr option \<Rightarrow> date_time option option \<Rightarrow> restriction_row \<Rightarrow> restriction_row" where
  "update_restriction_row now reason expires r = r\<lparr>
     rr_reason := (case reason of None \<Rightarrow> rr_reason r | Some s \<Rightarrow> str_trim s),
     rr_expires_at := (case expires of None \<Rightarrow> rr_expires_at r | Some e \<Rightarrow> e),
     rr_version := rr_version r + 1, rr_updated_at := now\<rparr>"

definition update_restriction_check ::
  "date_time \<Rightarrow> rstr option \<Rightarrow> date_time option option \<Rightarrow> i64 \<Rightarrow> repo_error + unit" where
  "update_restriction_check now reason expires expected =
     res_bind (ensure_that (0 < sint expected) ''expected_version is required'') (\<lambda>_.
     res_bind (ensure_that (reason \<noteq> None \<or> expires \<noteq> None) ''update mask is required'') (\<lambda>_.
     res_bind (case reason of None \<Rightarrow> Inr () | Some s \<Rightarrow>
        res_bind (ensure_that (str_trim s \<noteq> []) ''reason is required'') (\<lambda>_.
        ensure_that (length (str_trim s) \<le> 2000) ''invalid reason: must not exceed 2000 characters'')) (\<lambda>_.
     case expires of Some (Some e) \<Rightarrow> ensure_that (now < e) ''expires_at must be in the future'' | _ \<Rightarrow> Inr ())))"

definition update_restriction ::
  "moderation_repository \<Rightarrow> date_time \<Rightarrow> request_context \<Rightarrow> fresh_ids \<Rightarrow> uuid \<Rightarrow> rstr option
     \<Rightarrow> date_time option option \<Rightarrow> i64 \<Rightarrow> moderation_tables \<Rightarrow> moderation_tables \<times> (repo_error + wire_restriction)" where
  "update_restriction r now x fresh i reason expires expected db =
     (let c = mr_context r; p = (\<lambda>r. rr_id r = i \<and> rr_version r = expected \<and> rr_status r = lit ''ACTIVE'') in
      case update_restriction_check now reason expires expected of
        Inl e \<Rightarrow> (db, Inl e)
      | Inr _ \<Rightarrow> idempotent x ''UPDATE_RESTRICTION'' i (\<lambda>db.
          res_bind (update_increasing p rr_version (update_restriction_row now reason expires) (mt_restrictions db)) (\<lambda>rows.
          res_bind (constraint (list_all (\<lambda>r. restriction_ok (update_restriction_row now reason expires r))
             (filter p (mt_restrictions db)))) (\<lambda>_.
          res_bind (ensure_that (rows_affected p (mt_restrictions db) = 1) ''restriction version conflict'') (\<lambda>_.
          let db' = moderation_audit c x ''UPDATE_RESTRICTION'' ''RESTRICTION'' i (db\<lparr>mt_restrictions := rows\<rparr>)
          in res_bind (fetch_one (\<lambda>r. rr_id r = i) rows) (\<lambda>row.
             if rr_subject_type row = lit ''USER''
             then res_bind (scope_from_parts (rr_scope_type row) (rr_scope_id row)) (\<lambda>s.
               insert_manual_restriction_notice r (fi_command fresh) i (rr_subject_id row) s (rr_restriction_type row)
                 (rr_reason row) (rr_expires_at row) (rr_version row) 2 db')
             else Inr db'))))) (get_restriction c now) db)"

section \<open>Infractions\<close>

definition infraction_ok :: "infraction_row \<Rightarrow> bool" where
  "infraction_ok r \<longleftrightarrow> nf_subject_type r \<in> {lit ''USER'', lit ''SERVER'', lit ''MESSAGE''}
     \<and> nf_infraction_type r \<in> {lit ''WARNING'', lit ''MUTE'', lit ''BAN'', lit ''CONTENT''} \<and> length_ok (nf_reason r)"

definition insert_infraction :: "infraction_row \<Rightarrow> moderation_tables \<Rightarrow> repo_error + moderation_tables" where
  "insert_infraction r db =
     res_bind (constraint (infraction_ok r \<and> nf_id r \<notin> set (map nf_id (mt_infractions db))
        \<and> (case nf_enforcement_restriction_id r of None \<Rightarrow> True | Some j \<Rightarrow> j \<in> set (map rr_id (mt_restrictions db)))
        \<and> report_exists (nf_source_report_id r) db))
       (\<lambda>_. Inr (db\<lparr>mt_infractions := mt_infractions db @ [r]\<rparr>))"

definition new_infraction ::
  "date_time \<Rightarrow> uuid \<Rightarrow> safety_key \<Rightarrow> rstr \<Rightarrow> rstr \<Rightarrow> rstr \<Rightarrow> date_time option \<Rightarrow> uuid option \<Rightarrow> uuid option
     \<Rightarrow> infraction_row" where
  "new_infraction now i k infraction_type reason creator expires enforcement source =
     (case k of (subject_type, subject_id, scope_type, scope_id) \<Rightarrow>
      \<lparr>nf_id = i, nf_subject_type = subject_type, nf_subject_id = subject_id, nf_scope_type = scope_type,
       nf_scope_id = scope_id, nf_infraction_type = infraction_type, nf_status = lit ''ACTIVE'', nf_reason = reason,
       nf_enforcement_restriction_id = enforcement, nf_created_by = creator, nf_revoked_by = None,
       nf_revoked_reason = None, nf_expires_at = expires, nf_created_at = now, nf_updated_at = now, nf_version = 1,
       nf_source_report_id = source\<rparr>)"

text \<open>What must restrict the subject of an infraction.\<close>

definition required_enforcement :: "rstr \<Rightarrow> rstr \<Rightarrow> rstr option" where
  "required_enforcement infraction_type scope_type =
     (if infraction_type = lit ''MUTE'' then Some (lit ''MUTE'')
      else if infraction_type = lit ''BAN'' \<and> scope_type = lit ''PLATFORM'' then Some (lit ''BLACKLIST'')
      else if infraction_type = lit ''BAN'' then Some (lit ''BAN'')
      else None)"

definition check_enforcement ::
  "moderation_context \<Rightarrow> safety_key \<Rightarrow> rstr \<Rightarrow> date_time option \<Rightarrow> wire_restriction \<Rightarrow> repo_error + rstr \<times> rstr" where
  "check_enforcement c k expected expires w =
     (case k of (subject_type, subject_id, scope_type, scope_id) \<Rightarrow>
      res_bind (ok_or (Refused (lit ''enforcement subject is required'')) (wr_subject w)) (\<lambda>subject.
      res_bind (primary_subject subject False) (\<lambda>(t, i).
      res_bind (ensure_that (t = subject_type \<and> i = subject_id)
        ''enforcement subject must match infraction subject'') (\<lambda>_.
      res_bind (ok_or (Refused (lit ''enforcement scope is required'')) (wr_scope w)) (\<lambda>s.
      res_bind (wire_scope_name (wc_type s)) (\<lambda>st.
      res_bind (ensure_that (st = scope_type \<and> wc_id s = scope_id)
        ''enforcement scope must match infraction scope'') (\<lambda>_.
      res_bind (restriction_type_name (wr_type w)) (\<lambda>rt.
      res_bind (ensure_that (rt = expected) ''enforcement type must match infraction type'') (\<lambda>_.
      res_bind (ensure_that (str_trim (wr_reason w) \<noteq> []) ''enforcement reason is required'') (\<lambda>_.
      res_bind (optional_datetime c (wr_expires_at w)) (\<lambda>e.
      res_bind (ensure_that (e = expires) ''enforcement expiry must match infraction expiry'') (\<lambda>_.
        Inr (rt, str_trim (wr_reason w))))))))))))))"

definition enforcement_of ::
  "moderation_context \<Rightarrow> safety_key \<Rightarrow> rstr \<Rightarrow> date_time option \<Rightarrow> wire_restriction option
     \<Rightarrow> repo_error + (rstr \<times> rstr) option" where
  "enforcement_of c k infraction_type expires enforcement =
     (case (required_enforcement infraction_type (fst (snd (snd k))), enforcement) of
        (Some expected, Some w) \<Rightarrow> res_bind (check_enforcement c k expected expires w) (\<lambda>e. Inr (Some e))
      | (Some _, None) \<Rightarrow> Inl (Refused (lit ''mute and ban infractions require enforcement''))
      | (None, Some _) \<Rightarrow> Inl (Refused (lit ''warning and content infractions cannot include enforcement''))
      | (None, None) \<Rightarrow> Inr None)"

text \<open>A pending report of the place of the action: of its hub, or claimed by the actor and live.\<close>

definition live_claim :: "date_time \<Rightarrow> rstr \<Rightarrow> report_row \<Rightarrow> bool" where
  "live_claim now who r \<longleftrightarrow> rq_claimed_by r = Some who
     \<and> (case rq_claim_expires_at r of None \<Rightarrow> False | Some e \<Rightarrow> now < e)"

definition case_bound :: "date_time \<Rightarrow> rstr \<Rightarrow> rstr \<Rightarrow> rstr \<Rightarrow> uuid \<Rightarrow> report_row \<Rightarrow> bool" where
  "case_bound now who scope_type scope_id i r \<longleftrightarrow> rq_id r = i \<and> rq_status r = lit ''PENDING''
     \<and> ((rq_scope_type r = lit ''HUB'' \<and> rq_scope_type r = scope_type \<and> rq_scope_id r = scope_id)
        \<or> (live_claim now who r
           \<and> ((rq_scope_type r = scope_type \<and> rq_scope_id r = scope_id)
              \<or> (rq_scope_type r = lit ''LOBBY'' \<and> scope_type \<in> {lit ''PRODUCT'', lit ''PLATFORM''} \<and> scope_id = []))))"

record infraction_request =
  ir_key :: safety_key
  ir_scope :: wire_scope
  ir_infraction_type :: rstr
  ir_reason :: rstr
  ir_expires_at :: "date_time option"
  ir_enforcement :: "(rstr \<times> rstr) option"
  ir_source_report_id :: "uuid option"

definition check_infraction ::
  "moderation_context \<Rightarrow> wire_infraction \<Rightarrow> wire_restriction option \<Rightarrow> repo_error + infraction_request" where
  "check_infraction c w enforcement =
     res_bind (ok_or (Refused (lit ''infraction subject is required'')) (wi_subject w)) (\<lambda>subject.
     res_bind (primary_subject subject True) (\<lambda>(subject_type, subject_id).
     res_bind (ok_or (Refused (lit ''infraction scope is required'')) (wi_scope w)) (\<lambda>s.
     res_bind (wire_scope_name (wc_type s)) (\<lambda>scope_type.
     res_bind (infraction_type_name (wi_type w)) (\<lambda>infraction_type.
     res_bind (ensure_that (str_trim (wi_reason w) \<noteq> []) ''reason is required'') (\<lambda>_.
     res_bind (optional_datetime c (wi_expires_at w)) (\<lambda>expires.
     let k = (subject_type, subject_id, scope_type, wc_id s) in
     res_bind (enforcement_of c k infraction_type expires enforcement) (\<lambda>e.
     res_bind (optional_uuid c (wi_source_report_id w) ''source_report_id'') (\<lambda>source.
       Inr \<lparr>ir_key = k, ir_scope = s, ir_infraction_type = infraction_type, ir_reason = str_trim (wi_reason w),
         ir_expires_at = expires, ir_enforcement = e, ir_source_report_id = source\<rparr>)))))))))"

definition insert_enforcement ::
  "moderation_context \<Rightarrow> date_time \<Rightarrow> request_context \<Rightarrow> fresh_ids \<Rightarrow> infraction_request
     \<Rightarrow> moderation_tables \<Rightarrow> repo_error + moderation_tables" where
  "insert_enforcement c now x fresh q db = (case ir_enforcement q of
       None \<Rightarrow> Inr db
     | Some (restriction_type, reason) \<Rightarrow>
         res_bind (insert_restriction (new_restriction now (fi_enforcement fresh) (ir_key q) restriction_type reason
           (rc_actor_id x) (ir_expires_at q) (ir_source_report_id q)) db) (\<lambda>db'.
         Inr (moderation_audit c x ''CREATE_ENFORCEMENT_RESTRICTION'' ''RESTRICTION'' (fi_enforcement fresh) db')))"

definition create_infraction_statements ::
  "moderation_repository \<Rightarrow> date_time \<Rightarrow> request_context \<Rightarrow> fresh_ids \<Rightarrow> infraction_request
     \<Rightarrow> moderation_tables \<Rightarrow> repo_error + moderation_tables" where
  "create_infraction_statements r now x fresh q db =
     (case ir_key q of (subject_type, subject_id, scope_type, scope_id) \<Rightarrow>
      let c = mr_context r;
          enforcement = (case ir_enforcement q of None \<Rightarrow> None | Some _ \<Rightarrow> Some (fi_enforcement fresh))
      in res_bind (case ir_source_report_id q of None \<Rightarrow> Inr () | Some i \<Rightarrow>
           ensure_that (list_ex (case_bound now (rc_actor_id x) scope_type scope_id i) (mt_reports db))
             ''case-bound action requires a live claim owned by the actor'') (\<lambda>_.
         res_bind (insert_enforcement c now x fresh q db) (\<lambda>db1.
         res_bind (insert_infraction (new_infraction now (fi_id fresh) (ir_key q) (ir_infraction_type q) (ir_reason q)
           (rc_actor_id x) (ir_expires_at q) enforcement (ir_source_report_id q)) db1) (\<lambda>db2.
         res_bind (derive_safety c x now fresh (ir_key q) (lit ''INFRACTION_'' @ ir_infraction_type q)
           (infraction_signal_value (ir_infraction_type q)) False
           (json_object [(''infraction_id'', JString (tx_uuid (mc_text c) (fi_id fresh)))]) db2) (\<lambda>db3.
         let db4 = moderation_audit c x ''CREATE_INFRACTION'' ''INFRACTION'' (fi_id fresh) db3
         in if subject_type = lit ''USER''
            then insert_manual_moderation_notice r (fi_command fresh) (fi_id fresh) subject_id (ir_scope q)
              (ir_infraction_type q) (ir_reason q) (ir_expires_at q) enforcement db4
            else Inr db4)))))"

definition create_infraction ::
  "moderation_repository \<Rightarrow> date_time \<Rightarrow> request_context \<Rightarrow> fresh_ids \<Rightarrow> wire_infraction \<Rightarrow> wire_restriction option
     \<Rightarrow> moderation_tables \<Rightarrow> moderation_tables \<times> (repo_error + wire_infraction)" where
  "create_infraction r now x fresh w enforcement db =
     (case check_infraction (mr_context r) w enforcement of
        Inl e \<Rightarrow> (db, Inl e)
      | Inr q \<Rightarrow> idempotent x ''CREATE_INFRACTION'' (fi_id fresh) (create_infraction_statements r now x fresh q)
          (get_infraction (mr_context r) now) db)"

definition revoke_infraction_row :: "date_time \<Rightarrow> rstr \<Rightarrow> rstr \<Rightarrow> infraction_row \<Rightarrow> infraction_row" where
  "revoke_infraction_row now by reason r = r\<lparr>nf_status := lit ''REVOKED'', nf_revoked_by := Some by,
     nf_revoked_reason := Some reason, nf_version := nf_version r + 1, nf_updated_at := now\<rparr>"

definition revoke_infractions ::
  "(infraction_row \<Rightarrow> bool) \<Rightarrow> date_time \<Rightarrow> rstr \<Rightarrow> rstr \<Rightarrow> moderation_tables \<Rightarrow> repo_error + moderation_tables" where
  "revoke_infractions p now by reason db =
     res_bind (update_increasing (\<lambda>r. p r \<and> nf_status r = lit ''ACTIVE'') nf_version
       (revoke_infraction_row now by reason) (mt_infractions db)) (\<lambda>rows. Inr (db\<lparr>mt_infractions := rows\<rparr>))"

text \<open>The restriction that enforces an infraction is revoked with it, when it is still active.\<close>

definition revoke_enforcement ::
  "moderation_context \<Rightarrow> date_time \<Rightarrow> request_context \<Rightarrow> string \<Rightarrow> rstr \<Rightarrow> uuid option
     \<Rightarrow> moderation_tables \<Rightarrow> repo_error + moderation_tables" where
  "revoke_enforcement c now x action reason i db = (case i of
       None \<Rightarrow> Inr db
     | Some j \<Rightarrow> res_bind (revoke_restrictions (\<lambda>r. rr_id r = j) now (rc_actor_id x) reason db) (\<lambda>db'.
         Inr (if restrictions_reached (\<lambda>r. rr_id r = j) db = 1
              then moderation_audit c x action ''RESTRICTION'' j db' else db')))"

definition nf_key :: "infraction_row \<Rightarrow> safety_key" where
  "nf_key r = (nf_subject_type r, nf_subject_id r, nf_scope_type r, nf_scope_id r)"

definition revoke_infraction_statements ::
  "moderation_context \<Rightarrow> date_time \<Rightarrow> request_context \<Rightarrow> fresh_ids \<Rightarrow> uuid \<Rightarrow> rstr \<Rightarrow> i64
     \<Rightarrow> moderation_tables \<Rightarrow> repo_error + moderation_tables" where
  "revoke_infraction_statements c now x fresh i reason expected db =
     (let p = (\<lambda>r. nf_id r = i \<and> nf_version r = expected)
      in res_bind (revoke_infractions p now (rc_actor_id x) reason db) (\<lambda>db1.
         res_bind (ok_or (Refused (lit ''infraction version conflict''))
           (List.find (\<lambda>r. p r \<and> nf_status r = lit ''ACTIVE'') (mt_infractions db))) (\<lambda>row.
         res_bind (derive_safety c x now fresh (nf_key row)
           (lit ''INFRACTION_'' @ nf_infraction_type row @ lit ''_REVOKED'')
           (infraction_signal_value (nf_infraction_type row)) True
           (json_object [(''infraction_id'', JString (tx_uuid (mc_text c) i)), (''reason'', JString reason)]) db1) (\<lambda>db2.
         res_bind (revoke_enforcement c now x ''REVOKE_ENFORCEMENT_RESTRICTION'' reason
           (nf_enforcement_restriction_id row) db2) (\<lambda>db3.
         Inr (moderation_audit c x ''REVOKE_INFRACTION'' ''INFRACTION'' i db3))))))"

definition revoke_infraction ::
  "moderation_context \<Rightarrow> date_time \<Rightarrow> request_context \<Rightarrow> fresh_ids \<Rightarrow> uuid \<Rightarrow> rstr \<Rightarrow> i64
     \<Rightarrow> moderation_tables \<Rightarrow> moderation_tables \<times> (repo_error + wire_infraction)" where
  "revoke_infraction c now x fresh i reason expected db =
     (if str_trim reason = [] then (db, Inl (Refused (lit ''revocation reason is required'')))
      else idempotent x ''REVOKE_INFRACTION'' i
        (revoke_infraction_statements c now x fresh i (str_trim reason) expected) (get_infraction c now) db)"

text \<open>
  All active infractions of a type, then the restrictions of that type that enforce none revoked. Both
  statements name the parameters \<open>$2\<close> to \<open>$8\<close> and are given seven arguments: the database refuses a
  statement whose parameters are not all supplied.
\<close>

definition supplied :: "nat \<Rightarrow> nat \<Rightarrow> repo_error + unit" where
  "supplied parameters arguments = ensure_that (arguments = parameters) ''wrong number of parameters''"

definition infraction_of :: "safety_key \<Rightarrow> rstr \<Rightarrow> infraction_row \<Rightarrow> bool" where
  "infraction_of k t r \<longleftrightarrow> nf_key r = k \<and> nf_infraction_type r = t"

definition enforces_revoked :: "safety_key \<Rightarrow> rstr \<Rightarrow> moderation_tables \<Rightarrow> uuid \<Rightarrow> bool" where
  "enforces_revoked k t db i \<longleftrightarrow> list_ex (\<lambda>r. nf_enforcement_restriction_id r = Some i \<and> infraction_of k t r
     \<and> nf_status r = lit ''REVOKED'') (mt_infractions db)"

definition loose_restriction :: "safety_key \<Rightarrow> rstr \<Rightarrow> moderation_tables \<Rightarrow> restriction_row \<Rightarrow> bool" where
  "loose_restriction k t db r \<longleftrightarrow> (rr_subject_type r, rr_subject_id r, rr_scope_type r, rr_scope_id r) = k
     \<and> rr_restriction_type r = t \<and> \<not> enforces_revoked k t db (rr_id r)"

definition audit_all ::
  "moderation_context \<Rightarrow> request_context \<Rightarrow> string \<Rightarrow> string \<Rightarrow> uuid list \<Rightarrow> moderation_tables \<Rightarrow> moderation_tables" where
  "audit_all c x action resource_type is db = fold (moderation_audit c x action resource_type) is db"

definition revoke_infractions_by_type ::
  "moderation_context \<Rightarrow> date_time \<Rightarrow> request_context \<Rightarrow> wire_scope \<Rightarrow> wire_subject \<Rightarrow> rstr \<Rightarrow> rstr
     \<Rightarrow> moderation_tables \<Rightarrow> moderation_tables \<times> (repo_error + wire_infraction list \<times> wire_restriction list)" where
  "revoke_infractions_by_type c now x s subject t reason db =
     (case res_bind (ensure_that (str_trim reason \<noteq> []) ''revocation reason is required'') (\<lambda>_.
           res_bind (primary_subject subject True) (\<lambda>(subject_type, subject_id).
           res_bind (wire_scope_name (wc_type s)) (\<lambda>scope_type. Inr (subject_type, subject_id, scope_type, wc_id s))))
      of Inl e \<Rightarrow> (db, Inl e)
      | Inr k \<Rightarrow>
        (case res_bind (supplied 8 7) (\<lambda>_.
           res_bind (revoke_infractions (infraction_of k t) now (rc_actor_id x) (str_trim reason) db) (\<lambda>db1.
           let infraction_ids = map nf_id (filter (\<lambda>r. infraction_of k t r \<and> nf_status r = lit ''ACTIVE'') (mt_infractions db));
               db2 = audit_all c x ''REVOKE_INFRACTION'' ''INFRACTION'' infraction_ids db1;
               restriction_ids = map rr_id (filter (\<lambda>r. loose_restriction k t db2 r \<and> rr_status r = lit ''ACTIVE'')
                 (mt_restrictions db2))
           in res_bind (supplied 8 7) (\<lambda>_.
              res_bind (revoke_restrictions (loose_restriction k t db2) now (rc_actor_id x) (str_trim reason) db2) (\<lambda>db3.
              Inr (audit_all c x ''REVOKE_RESTRICTION'' ''RESTRICTION'' restriction_ids db3, infraction_ids, restriction_ids)))))
         of Inl e \<Rightarrow> (db, Inl e)
         | Inr (db', infraction_ids, restriction_ids) \<Rightarrow>
             (db', res_bind (try_map (\<lambda>i. get_infraction c now i db') infraction_ids) (\<lambda>is.
                   res_bind (try_map (\<lambda>i. get_restriction c now i db') restriction_ids) (\<lambda>rs. Inr (is, rs))))))"

section \<open>Appeals and review items\<close>

definition create_appeal_statements ::
  "moderation_context \<Rightarrow> date_time \<Rightarrow> request_context \<Rightarrow> uuid \<Rightarrow> uuid \<Rightarrow> rstr \<Rightarrow> json
     \<Rightarrow> moderation_tables \<Rightarrow> repo_error + moderation_tables" where
  "create_appeal_statements c now x i target reason evidence db =
     res_bind (fetch_one (\<lambda>r. nf_id r = target) (mt_infractions db)) (\<lambda>r.
     res_bind (ensure_that (nf_subject_type r = lit ''USER'' \<and> nf_subject_id r = rc_actor_id x)
       ''only the affected user may appeal this infraction'') (\<lambda>_.
     res_bind (ensure_that (nf_status r = lit ''ACTIVE'') ''only active infractions may be appealed'') (\<lambda>_.
     res_bind (constraint (i \<notin> set (map pl_id (mt_appeals db))
       \<and> \<not> list_ex (\<lambda>a. pl_infraction_id a = target \<and> pl_appellant_id a = rc_actor_id x) (mt_appeals db))) (\<lambda>_.
     Inr (moderation_audit c x ''CREATE_APPEAL'' ''APPEAL'' i (db\<lparr>mt_appeals := mt_appeals db
       @ [\<lparr>pl_id = i, pl_infraction_id = target, pl_appellant_id = rc_actor_id x, pl_reason = reason,
           pl_evidence = evidence, pl_status = lit ''PENDING'', pl_resolution = None, pl_resolved_by = None,
           pl_resolved_at = None, pl_created_at = now, pl_updated_at = now, pl_version = 1\<rparr>]\<rparr>))))))"

definition json_limit :: "moderation_repository \<Rightarrow> json \<Rightarrow> nat \<Rightarrow> string \<Rightarrow> repo_error + unit" where
  "json_limit r j limit message =
     res_bind (map_err Refused (mr_json_size r j)) (\<lambda>n. ensure_that (n \<le> limit) message)"

definition create_appeal ::
  "moderation_repository \<Rightarrow> date_time \<Rightarrow> request_context \<Rightarrow> fresh_ids \<Rightarrow> uuid \<Rightarrow> rstr \<Rightarrow> json
     \<Rightarrow> moderation_tables \<Rightarrow> moderation_tables \<times> (repo_error + wire_appeal)" where
  "create_appeal r now x fresh target reason evidence db =
     (let c = mr_context r in
      case res_bind (ensure_that (str_trim reason \<noteq> [] \<and> byte_len (str_trim reason) \<le> 4000)
             ''appeal reason must be between 1 and 4000 characters'') (\<lambda>_.
           json_limit r evidence 65536 ''appeal evidence exceeds 64 KiB'')
      of Inl e \<Rightarrow> (db, Inl e)
      | Inr _ \<Rightarrow> idempotent x ''CREATE_APPEAL'' (fi_id fresh)
          (create_appeal_statements c now x (fi_id fresh) target (str_trim reason) evidence) (get_appeal c) db)"

definition resolve_appeal_row :: "date_time \<Rightarrow> rstr \<Rightarrow> rstr \<Rightarrow> rstr \<Rightarrow> appeal_row \<Rightarrow> appeal_row" where
  "resolve_appeal_row now resolution response by r = r\<lparr>pl_status := resolution, pl_resolution := Some response,
     pl_resolved_by := Some by, pl_resolved_at := Some now, pl_version := pl_version r + 1, pl_updated_at := now\<rparr>"

definition accept_appeal ::
  "moderation_context \<Rightarrow> date_time \<Rightarrow> request_context \<Rightarrow> fresh_ids \<Rightarrow> uuid \<Rightarrow> uuid \<Rightarrow> rstr
     \<Rightarrow> moderation_tables \<Rightarrow> repo_error + moderation_tables" where
  "accept_appeal c now x fresh i target response db =
     (let p = (\<lambda>r. nf_id r = target); reason = lit ''Appeal accepted: '' @ response
      in res_bind (revoke_infractions p now (rc_actor_id x) reason db) (\<lambda>db1.
         case List.find (\<lambda>r. p r \<and> nf_status r = lit ''ACTIVE'') (mt_infractions db) of
           None \<Rightarrow> Inr db1
         | Some row \<Rightarrow>
             res_bind (revoke_enforcement c now x ''REVOKE_RESTRICTION_FROM_APPEAL'' reason
               (nf_enforcement_restriction_id row) db1) (\<lambda>db2.
             res_bind (derive_safety c x now fresh (nf_key row) (lit ''APPEAL_ACCEPTED'')
               (infraction_signal_value (nf_infraction_type row)) True
               (json_object [(''appeal_id'', JString (tx_uuid (mc_text c) i)),
                  (''infraction_id'', JString (tx_uuid (mc_text c) target))]) db2) (\<lambda>db3.
             Inr (moderation_audit c x ''REVOKE_INFRACTION_FROM_APPEAL'' ''INFRACTION'' target db3)))))"

definition resolve_appeal_statements ::
  "moderation_context \<Rightarrow> date_time \<Rightarrow> request_context \<Rightarrow> fresh_ids \<Rightarrow> uuid \<Rightarrow> rstr \<Rightarrow> rstr \<Rightarrow> i64
     \<Rightarrow> moderation_tables \<Rightarrow> repo_error + moderation_tables" where
  "resolve_appeal_statements c now x fresh i resolution response expected db =
     (let p = (\<lambda>r. pl_id r = i \<and> pl_version r = expected \<and> pl_status r = lit ''PENDING'')
      in res_bind (update_increasing p pl_version (resolve_appeal_row now resolution response (rc_actor_id x))
           (mt_appeals db)) (\<lambda>rows.
         res_bind (ok_or (Refused (lit ''appeal version conflict'')) (List.find p (mt_appeals db))) (\<lambda>row.
         res_bind (if resolution = lit ''RESOLVED''
           then accept_appeal c now x fresh i (pl_infraction_id row) response (db\<lparr>mt_appeals := rows\<rparr>)
           else Inr (db\<lparr>mt_appeals := rows\<rparr>)) (\<lambda>db'.
         Inr (moderation_audit c x ''RESOLVE_APPEAL'' ''APPEAL'' i db')))))"

definition is_resolution :: "rstr \<Rightarrow> bool" where
  "is_resolution s \<longleftrightarrow> s = lit ''RESOLVED'' \<or> s = lit ''DISMISSED''"

definition resolve_appeal ::
  "moderation_context \<Rightarrow> date_time \<Rightarrow> request_context \<Rightarrow> fresh_ids \<Rightarrow> uuid \<Rightarrow> rstr \<Rightarrow> rstr \<Rightarrow> i64
     \<Rightarrow> moderation_tables \<Rightarrow> moderation_tables \<times> (repo_error + wire_appeal)" where
  "resolve_appeal c now x fresh i resolution response expected db =
     (if \<not> is_resolution resolution then (db, Inl (Refused (lit ''invalid appeal resolution'')))
      else if str_trim response = [] then (db, Inl (Refused (lit ''appeal response is required'')))
      else idempotent x ''RESOLVE_APPEAL'' i
        (resolve_appeal_statements c now x fresh i resolution (str_trim response) expected) (get_appeal c) db)"

definition appeal_scope :: "uuid \<Rightarrow> moderation_tables \<Rightarrow> repo_error + wire_scope" where
  "appeal_scope i db =
     res_bind (fetch_one (\<lambda>a. pl_id a = i \<and> pl_infraction_id a \<in> set (map nf_id (mt_infractions db))) (mt_appeals db)) (\<lambda>a.
     res_bind (fetch_one (\<lambda>r. nf_id r = pl_infraction_id a) (mt_infractions db)) (\<lambda>r.
       scope_from_parts (nf_scope_type r) (nf_scope_id r)))"

definition resolve_review_row :: "date_time \<Rightarrow> rstr \<Rightarrow> rstr \<Rightarrow> queue_row \<Rightarrow> queue_row" where
  "resolve_review_row now resolution by r = r\<lparr>qi_status := resolution, qi_resolution := Some resolution,
     qi_resolved_by := Some by, qi_version := qi_version r + 1, qi_updated_at := now\<rparr>"

definition resolve_review_item ::
  "moderation_context \<Rightarrow> date_time \<Rightarrow> request_context \<Rightarrow> uuid \<Rightarrow> rstr \<Rightarrow> i64
     \<Rightarrow> moderation_tables \<Rightarrow> moderation_tables \<times> (repo_error + wire_review_item)" where
  "resolve_review_item c now x i resolution expected db =
     (let p = (\<lambda>r. qi_id r = i \<and> qi_version r = expected \<and> qi_status r = lit ''PENDING'') in
      if \<not> is_resolution resolution then (db, Inl (Refused (lit ''invalid review resolution'')))
      else idempotent x ''RESOLVE_REVIEW_ITEM'' i (\<lambda>db.
        res_bind (update_increasing p qi_version (resolve_review_row now resolution (rc_actor_id x)) (mt_queue db)) (\<lambda>rows.
        res_bind (ensure_that (rows_affected p (mt_queue db) = 1) ''review item version conflict'') (\<lambda>_.
        Inr (moderation_audit c x ''RESOLVE_REVIEW_ITEM'' ''REVIEW_ITEM'' i (db\<lparr>mt_queue := rows\<rparr>))))) (get_review_item c) db)"

end
