(* ===== verification/ReportCases.thy ===== *)
theory ReportCases
  imports ModerationRecords
begin

text \<open>
  Reports as cases of the staff (\<open>src/moderation/repository.rs\<close>, \<open>src/eventbus.rs\<close>): a report is
  claimed for a while, renewed, released, transferred and resolved; an action on it is requested by
  the holder of the claim and decided by someone else. A change of the staff's rights releases the
  claims, and the expiry worker ends what is over.
\<close>

section \<open>Reading rows\<close>

record wire_evidence =
  we_lobby_id :: rstr
  we_first_sequence :: u64
  we_last_sequence :: u64
  we_entry_count :: u64
  we_terminal_action_id :: rstr

record wire_report =
  wp_id :: rstr
  wp_scope :: "wire_scope option"
  wp_subject :: "wire_subject option"
  wp_reporter_id :: rstr
  wp_type :: rstr
  wp_description :: rstr
  wp_status :: i32
  wp_context :: "(rstr \<times> wire_value) list option"
  wp_created_at :: "wire_timestamp option"
  wp_resolved_by :: rstr
  wp_resolved_at :: "wire_timestamp option"
  wp_version :: u64
  wp_claimed_by :: rstr
  wp_claimed_at :: "wire_timestamp option"
  wp_claim_expires_at :: "wire_timestamp option"
  wp_last_claim_change_at :: "wire_timestamp option"
  wp_evidence_snapshot :: "wire_evidence option"

record wire_staff_request =
  wq_id :: rstr
  wq_action_type :: i32
  wq_subject :: "wire_subject option"
  wq_scope :: "wire_scope option"
  wq_report_id :: rstr
  wq_requested_reason :: rstr
  wq_requested_expires_at :: "wire_timestamp option"
  wq_requested_by :: rstr
  wq_requested_at :: "wire_timestamp option"
  wq_status :: i32
  wq_decided_by :: rstr
  wq_decision_reason :: rstr
  wq_decided_at :: "wire_timestamp option"
  wq_executed_infraction_id :: rstr
  wq_executed_restriction_id :: rstr
  wq_expires_at :: "wire_timestamp option"
  wq_version :: u64

definition evidence_of_row :: "moderation_context \<Rightarrow> snapshot_row \<Rightarrow> wire_evidence" where
  "evidence_of_row c r = \<lparr>we_lobby_id = es_lobby_id r, we_first_sequence = es_first_sequence r,
     we_last_sequence = es_last_sequence r, we_entry_count = es_entry_count r,
     we_terminal_action_id = tx_uuid (mc_text c) (es_terminal_action_id r)\<rparr>"

definition report_from_row ::
  "moderation_context \<Rightarrow> report_row \<Rightarrow> snapshot_row option \<Rightarrow> repo_error + wire_report" where
  "report_from_row c r evidence = res_bind (scope_from_parts (rq_scope_type r) (rq_scope_id r)) (\<lambda>s.
     Inr \<lparr>wp_id = tx_uuid (mc_text c) (rq_id r), wp_scope = Some s,
       wp_subject = Some (subject_from_parts (rq_subject_type r) (rq_subject_id r)),
       wp_reporter_id = rq_reporter_id r, wp_type = rq_report_type r, wp_description = rq_description r,
       wp_status = status_proto (rq_status r), wp_context = Some (json_to_struct c (rq_context r)),
       wp_created_at = Some (timestamp c (rq_created_at r)), wp_resolved_by = text_or_empty (rq_resolved_by r),
       wp_resolved_at = map_option (timestamp c) (rq_resolved_at r), wp_version = rq_version r,
       wp_claimed_by = text_or_empty (rq_claimed_by r), wp_claimed_at = map_option (timestamp c) (rq_claimed_at r),
       wp_claim_expires_at = map_option (timestamp c) (rq_claim_expires_at r),
       wp_last_claim_change_at = map_option (timestamp c) (rq_last_claim_change_at r),
       wp_evidence_snapshot = map_option (evidence_of_row c) evidence\<rparr>)"

definition get_report :: "moderation_context \<Rightarrow> uuid \<Rightarrow> moderation_tables \<Rightarrow> repo_error + wire_report" where
  "get_report c i db = res_bind (fetch_one (\<lambda>r. rq_id r = i) (mt_reports db)) (\<lambda>r.
     report_from_row c r (List.find (\<lambda>e. es_report_id e = i) (mt_snapshots db)))"

definition staff_action_labels :: "(i32 \<times> rstr) list" where
  "staff_action_labels = [(1, lit ''LOBBY_BAN''), (2, lit ''GLOBAL_BLACKLIST'')]"

definition staff_status_labels :: "(i32 \<times> rstr) list" where
  "staff_status_labels = [(1, lit ''PENDING''), (2, lit ''REJECTED''), (3, lit ''EXPIRED''), (4, lit ''EXECUTED''),
     (5, lit ''CANCELLED'')]"

definition staff_action_request_from_row ::
  "moderation_context \<Rightarrow> staff_request_row \<Rightarrow> repo_error + wire_staff_request" where
  "staff_action_request_from_row c r = res_bind (scope_from_parts (sq_scope_type r) (sq_scope_id r)) (\<lambda>s.
     Inr \<lparr>wq_id = tx_uuid (mc_text c) (sq_id r), wq_action_type = label_enum staff_action_labels (sq_action_type r),
       wq_subject = Some (subject_from_parts (sq_subject_type r) (sq_subject_id r)), wq_scope = Some s,
       wq_report_id = uuid_or_empty c (sq_report_id r), wq_requested_reason = sq_requested_reason r,
       wq_requested_expires_at = map_option (timestamp c) (sq_requested_expires_at r),
       wq_requested_by = sq_requested_by r, wq_requested_at = Some (timestamp c (sq_requested_at r)),
       wq_status = label_enum staff_status_labels (sq_status r), wq_decided_by = text_or_empty (sq_decided_by r),
       wq_decision_reason = text_or_empty (sq_decision_reason r),
       wq_decided_at = map_option (timestamp c) (sq_decided_at r),
       wq_executed_infraction_id = uuid_or_empty c (sq_executed_infraction_id r),
       wq_executed_restriction_id = uuid_or_empty c (sq_executed_restriction_id r),
       wq_expires_at = Some (timestamp c (sq_expires_at r)), wq_version = sq_version r\<rparr>)"

definition get_staff_action_request ::
  "moderation_context \<Rightarrow> uuid \<Rightarrow> moderation_tables \<Rightarrow> repo_error + wire_staff_request" where
  "get_staff_action_request c i db =
     res_bind (fetch_one (\<lambda>r. sq_id r = i) (mt_requests db)) (staff_action_request_from_row c)"

definition list_staff_action_requests ::
  "moderation_context \<Rightarrow> rstr option \<Rightarrow> rstr option \<Rightarrow> i64 \<Rightarrow> moderation_tables \<Rightarrow> repo_error + wire_staff_request list" where
  "list_staff_action_requests c status requester limit db =
     (if sint limit < 0 then Inl OutOfRange
      else try_map (staff_action_request_from_row c) (take (nat (sint limit)) (rev (sort_key sq_requested_at
        (rev (filter (\<lambda>r. (case status of None \<Rightarrow> True | Some s \<Rightarrow> sq_status r = s)
          \<and> (case requester of None \<Rightarrow> True | Some w \<Rightarrow> sq_requested_by r = w)) (mt_requests db)))))))"

section \<open>Claims\<close>

text \<open>The arithmetic of the database on instants.\<close>

definition instant :: "date_time option \<Rightarrow> repo_error + date_time" where
  "instant t = ok_or OutOfRange t"

definition claim_is_over :: "date_time \<Rightarrow> report_row \<Rightarrow> bool" where
  "claim_is_over now r \<longleftrightarrow> (case rq_claim_expires_at r of None \<Rightarrow> False | Some e \<Rightarrow> e \<le> now)"

definition report_ok :: "report_row \<Rightarrow> bool" where
  "report_ok r \<longleftrightarrow> (case (rq_claimed_by r, rq_claimed_at r, rq_claim_expires_at r) of
       (None, None, None) \<Rightarrow> True | (Some _, Some t, Some e) \<Rightarrow> t < e | _ \<Rightarrow> False)"

text \<open>An update of reports: the version grows and the checks of the table hold afterwards.\<close>

definition update_reports ::
  "(report_row \<Rightarrow> bool) \<Rightarrow> (report_row \<Rightarrow> report_row) \<Rightarrow> moderation_tables \<Rightarrow> repo_error + moderation_tables" where
  "update_reports p f db =
     res_bind (update_increasing p rq_version f (mt_reports db)) (\<lambda>rows.
     res_bind (constraint (list_all (\<lambda>r. report_ok (f r)) (filter p (mt_reports db)))) (\<lambda>_.
     Inr (db\<lparr>mt_reports := rows\<rparr>)))"

definition take_claim :: "date_time \<Rightarrow> rstr \<Rightarrow> date_time \<Rightarrow> report_row \<Rightarrow> report_row" where
  "take_claim now who expires r = r\<lparr>rq_claimed_by := Some who, rq_claimed_at := Some now,
     rq_claim_expires_at := Some expires, rq_last_claim_change_at := Some now, rq_updated_at := now,
     rq_version := rq_version r + 1\<rparr>"

definition claimable :: "date_time \<Rightarrow> date_time \<Rightarrow> uuid \<Rightarrow> i64 \<Rightarrow> bool \<Rightarrow> report_row \<Rightarrow> bool" where
  "claimable now cooled i expected bypass r \<longleftrightarrow> rq_id r = i \<and> rq_version r = expected \<and> rq_status r = lit ''PENDING''
     \<and> (rq_claimed_by r = None \<or> claim_is_over now r)
     \<and> (bypass \<or> rq_last_claim_change_at r = None \<or> claim_is_over now r
        \<or> (case rq_last_claim_change_at r of None \<Rightarrow> False | Some t \<Rightarrow> t \<le> cooled))"

text \<open>A change of one report, with its message when no row matches.\<close>

definition change_report ::
  "(report_row \<Rightarrow> bool) \<Rightarrow> (report_row \<Rightarrow> report_row) \<Rightarrow> string \<Rightarrow> moderation_tables \<Rightarrow> repo_error + moderation_tables" where
  "change_report p f message db =
     res_bind (update_reports p f db) (\<lambda>db'.
     res_bind (ensure_that (List.find p (mt_reports db) \<noteq> None) message) (\<lambda>_. Inr db'))"

definition claim_report ::
  "moderation_repository \<Rightarrow> date_time \<Rightarrow> request_context \<Rightarrow> uuid \<Rightarrow> i64 \<Rightarrow> i64 \<Rightarrow> i64 \<Rightarrow> bool
     \<Rightarrow> moderation_tables \<Rightarrow> moderation_tables \<times> (repo_error + wire_report)" where
  "claim_report r now x i expected lease cooldown bypass =
     transaction (\<lambda>db.
       res_bind (instant (mr_after r now lease)) (\<lambda>expires.
       res_bind (instant (mr_before r now cooldown)) (\<lambda>cooled.
       res_bind (change_report (claimable now cooled i expected bypass) (take_claim now (rc_actor_id x) expires)
         ''report claim conflict'' db) (\<lambda>db'.
       Inr (moderation_audit (mr_context r) x ''CLAIM_REPORT'' ''REPORT'' i db')))))
     (get_report (mr_context r) i)"

definition renewable :: "date_time \<Rightarrow> date_time \<Rightarrow> uuid \<Rightarrow> i64 \<Rightarrow> rstr \<Rightarrow> report_row \<Rightarrow> bool" where
  "renewable now earlier i expected who r \<longleftrightarrow> rq_id r = i \<and> rq_version r = expected \<and> live_claim now who r
     \<and> rq_updated_at r \<le> earlier"

definition renew_report_claim ::
  "moderation_repository \<Rightarrow> date_time \<Rightarrow> request_context \<Rightarrow> uuid \<Rightarrow> i64 \<Rightarrow> i64
     \<Rightarrow> moderation_tables \<Rightarrow> moderation_tables \<times> (repo_error + wire_report)" where
  "renew_report_claim r now x i expected lease =
     transaction (\<lambda>db.
       res_bind (instant (mr_after r now lease)) (\<lambda>expires.
       res_bind (instant (mr_before r now 300)) (\<lambda>earlier.
       res_bind (change_report (renewable now earlier i expected (rc_actor_id x))
         (\<lambda>r. r\<lparr>rq_claim_expires_at := Some expires, rq_updated_at := now, rq_version := rq_version r + 1\<rparr>)
         ''report renewal conflict or renewal is too frequent'' db) (\<lambda>db'.
       Inr (moderation_audit (mr_context r) x ''RENEW_REPORT_CLAIM'' ''REPORT'' i db')))))
     (get_report (mr_context r) i)"

text \<open>The checks of the table of requests.\<close>

definition request_ok :: "staff_request_row \<Rightarrow> bool" where
  "request_ok r \<longleftrightarrow> sq_action_type r \<in> {lit ''LOBBY_BAN'', lit ''GLOBAL_BLACKLIST''}
     \<and> sq_subject_type r \<in> {lit ''USER'', lit ''SERVER''} \<and> sq_subject_id r \<noteq> [] \<and> length_ok (sq_requested_reason r)
     \<and> sq_requested_by r \<noteq> [] \<and> sq_requested_at r < sq_expires_at r
     \<and> sq_decided_by r \<noteq> Some (sq_requested_by r)
     \<and> (sq_status r = lit ''PENDING'' \<longrightarrow> sq_decided_by r = None \<and> sq_decision_reason r = None \<and> sq_decided_at r = None)"

definition update_requests ::
  "(staff_request_row \<Rightarrow> bool) \<Rightarrow> (staff_request_row \<Rightarrow> staff_request_row) \<Rightarrow> moderation_tables
     \<Rightarrow> repo_error + moderation_tables" where
  "update_requests p f db =
     res_bind (update_increasing p sq_version f (mt_requests db)) (\<lambda>rows.
     res_bind (constraint (list_all (\<lambda>r. request_ok (f r)) (filter p (mt_requests db)))) (\<lambda>_.
     Inr (db\<lparr>mt_requests := rows\<rparr>)))"

definition close_request ::
  "rstr \<Rightarrow> date_time \<Rightarrow> rstr option \<Rightarrow> rstr \<Rightarrow> staff_request_row \<Rightarrow> staff_request_row" where
  "close_request status now by reason r = r\<lparr>sq_status := status, sq_decided_by := by,
     sq_decision_reason := Some reason, sq_decided_at := Some now, sq_version := sq_version r + 1\<rparr>"

definition open_request :: "uuid \<Rightarrow> staff_request_row \<Rightarrow> bool" where
  "open_request report r \<longleftrightarrow> sq_report_id r = Some report \<and> sq_status r = lit ''PENDING''"

definition unclaim_report ::
  "moderation_repository \<Rightarrow> date_time \<Rightarrow> request_context \<Rightarrow> uuid \<Rightarrow> i64
     \<Rightarrow> moderation_tables \<Rightarrow> moderation_tables \<times> (repo_error + wire_report)" where
  "unclaim_report r now x i expected =
     transaction (\<lambda>db.
       res_bind (change_report (\<lambda>r. rq_id r = i \<and> rq_version r = expected \<and> live_claim now (rc_actor_id x) r)
         (\<lambda>r. r\<lparr>rq_claimed_by := None, rq_claimed_at := None, rq_claim_expires_at := None,
            rq_last_claim_change_at := None, rq_updated_at := now, rq_version := rq_version r + 1\<rparr>)
         ''report claim ownership or version conflict'' db) (\<lambda>db1.
       res_bind (update_requests (open_request i)
         (close_request (lit ''CANCELLED'') now (Some (rc_actor_id x)) (lit ''case unclaimed'')) db1) (\<lambda>db2.
       Inr (moderation_audit (mr_context r) x ''UNCLAIM_REPORT'' ''REPORT'' i db2))))
     (get_report (mr_context r) i)"

definition transferable ::
  "date_time \<Rightarrow> date_time \<Rightarrow> uuid \<Rightarrow> i64 \<Rightarrow> bool \<Rightarrow> bool \<Rightarrow> report_row \<Rightarrow> bool" where
  "transferable now cooled i expected require_unclaimed bypass r \<longleftrightarrow>
     rq_id r = i \<and> rq_version r = expected \<and> rq_status r = lit ''PENDING''
     \<and> (\<not> require_unclaimed \<or> rq_claimed_by r = None \<or> claim_is_over now r)
     \<and> (bypass \<or> rq_last_claim_change_at r = None
        \<or> (case rq_last_claim_change_at r of None \<Rightarrow> False | Some t \<Rightarrow> t \<le> cooled))"

definition transfer_report ::
  "moderation_repository \<Rightarrow> date_time \<Rightarrow> request_context \<Rightarrow> uuid \<Rightarrow> rstr \<Rightarrow> i64 \<Rightarrow> i64 \<Rightarrow> i64 \<Rightarrow> bool \<Rightarrow> bool
     \<Rightarrow> moderation_tables \<Rightarrow> moderation_tables \<times> (repo_error + wire_report)" where
  "transfer_report r now x i assignee expected lease cooldown require_unclaimed bypass =
     transaction (\<lambda>db.
       res_bind (instant (mr_after r now lease)) (\<lambda>expires.
       res_bind (instant (mr_before r now cooldown)) (\<lambda>cooled.
       res_bind (change_report (transferable now cooled i expected require_unclaimed bypass)
         (take_claim now assignee expires) ''report assignment or version conflict'' db) (\<lambda>db1.
       res_bind (update_requests (\<lambda>r. open_request i r \<and> sq_requested_by r \<noteq> assignee)
         (close_request (lit ''CANCELLED'') now (Some (rc_actor_id x)) (lit ''case ownership changed'')) db1) (\<lambda>db2.
       Inr (moderation_audit (mr_context r) x (if require_unclaimed then ''ASSIGN_REPORT'' else ''TRANSFER_REPORT'')
         ''REPORT'' i db2))))))
     (get_report (mr_context r) i)"

section \<open>Reports\<close>

text \<open>The evidence of a call up to its end, without a gap.\<close>

definition pin_evidence ::
  "uuid \<Rightarrow> rstr \<Rightarrow> rstr \<Rightarrow> uuid \<Rightarrow> moderation_tables \<Rightarrow> repo_error + moderation_tables" where
  "pin_evidence i scope_type scope_id terminal db =
     res_bind (ensure_that (scope_type = lit ''LOBBY'') ''call evidence is only valid for Lobby reports'') (\<lambda>_.
     res_bind (ok_or (Refused (lit ''terminal call evidence is not available yet''))
       (List.find (\<lambda>e. cv_lobby_id e = scope_id \<and> cv_action_id e = terminal
          \<and> map_of (mt_actions db) (cv_action_id e) \<noteq> None) (mt_evidence db))) (\<lambda>t.
     res_bind (ensure_that (map_of (mt_actions db) terminal = Some (lit ''lobby.call.ended''))
       ''terminal_action_id must reference CALL_ENDED'') (\<lambda>_.
     let events = filter (\<lambda>e. cv_lobby_id e = scope_id \<and> sint (cv_sequence e) \<le> sint (cv_sequence t)) (mt_evidence db)
     in res_bind (ok_or (Refused (lit ''call evidence is empty'')) (min_by_key (\<lambda>e. sint (cv_sequence e)) events)) (\<lambda>first.
        res_bind (ensure_that (int (length events) = sint (cv_sequence t) - sint (cv_sequence first) + 1)
          ''call evidence has a sequence gap'') (\<lambda>_.
        res_bind (constraint (0 < sint (cv_sequence first) \<and> i \<notin> set (map es_report_id (mt_snapshots db)))) (\<lambda>_.
        Inr (db\<lparr>mt_snapshots := mt_snapshots db @ [\<lparr>es_report_id = i, es_lobby_id = scope_id,
          es_first_sequence = cv_sequence first, es_last_sequence = cv_sequence t,
          es_entry_count = of_nat (length events), es_terminal_action_id = terminal\<rparr>]\<rparr>)))))))"

definition is_assessed :: "rstr \<Rightarrow> bool" where
  "is_assessed subject_type \<longleftrightarrow> subject_type = lit ''USER'' \<or> subject_type = lit ''SERVER''"

definition new_report ::
  "date_time \<Rightarrow> uuid \<Rightarrow> safety_key \<Rightarrow> rstr \<Rightarrow> rstr \<Rightarrow> rstr \<Rightarrow> json \<Rightarrow> report_row" where
  "new_report now i k reporter report_type description context =
     (case k of (subject_type, subject_id, scope_type, scope_id) \<Rightarrow>
      \<lparr>rq_id = i, rq_scope_type = scope_type, rq_scope_id = scope_id, rq_reporter_id = reporter,
       rq_subject_type = subject_type, rq_subject_id = subject_id, rq_report_type = report_type,
       rq_description = description, rq_context = context, rq_status = lit ''PENDING'', rq_resolution = None,
       rq_resolved_by = None, rq_resolved_at = None, rq_created_at = now, rq_updated_at = now, rq_version = 1,
       rq_claimed_by = None, rq_claimed_at = None, rq_claim_expires_at = None, rq_last_claim_change_at = None\<rparr>)"

text \<open>The \<open>f64\<close> constants 3 and 5.\<close>

definition f64_3 :: f64 where
  "f64_3 = 0x4008000000000000"

definition f64_5 :: f64 where
  "f64_5 = 0x4014000000000000"

definition create_report_statements ::
  "moderation_context \<Rightarrow> date_time \<Rightarrow> request_context \<Rightarrow> fresh_ids \<Rightarrow> safety_key \<Rightarrow> rstr \<Rightarrow> rstr \<Rightarrow> json \<Rightarrow> uuid option
     \<Rightarrow> moderation_tables \<Rightarrow> repo_error + moderation_tables" where
  "create_report_statements c now x fresh k report_type description context terminal db =
     (case k of (subject_type, subject_id, scope_type, scope_id) \<Rightarrow>
      let i = fi_id fresh
      in res_bind (constraint (i \<notin> set (map rq_id (mt_reports db)))) (\<lambda>_.
         let db1 = db\<lparr>mt_reports := mt_reports db @ [new_report now i k (rc_actor_id x) report_type description context]\<rparr>
         in res_bind (case terminal of None \<Rightarrow> Inr db1 | Some t \<Rightarrow> pin_evidence i scope_type scope_id t db1) (\<lambda>db2.
            res_bind (if is_assessed subject_type
              then derive_safety c x now fresh k (lit ''REPORT_SUBMITTED'') f64_3 False
                (json_object [(''report_id'', JString (tx_uuid (mc_text c) i)), (''report_type'', JString report_type)]) db2
              else Inr db2) (\<lambda>db3.
            Inr (moderation_audit c x ''CREATE_REPORT'' ''REPORT'' i db3)))))"

definition create_report ::
  "moderation_repository \<Rightarrow> date_time \<Rightarrow> request_context \<Rightarrow> fresh_ids \<Rightarrow> wire_scope \<Rightarrow> wire_subject \<Rightarrow> rstr \<Rightarrow> rstr
     \<Rightarrow> json \<Rightarrow> uuid option \<Rightarrow> moderation_tables \<Rightarrow> moderation_tables \<times> (repo_error + wire_report)" where
  "create_report r now x fresh s subject report_type description context terminal db =
     (let c = mr_context r in
      case res_bind (wire_scope_name (wc_type s)) (\<lambda>scope_type.
           res_bind (primary_subject subject True) (\<lambda>(subject_type, subject_id).
           res_bind (ensure_that (str_trim report_type \<noteq> [] \<and> byte_len (str_trim report_type) \<le> 100)
             ''report type must be between 1 and 100 characters'') (\<lambda>_.
           res_bind (ensure_that (byte_len description \<le> 4000) ''report description exceeds 4000 characters'') (\<lambda>_.
           res_bind (json_limit r context 65536 ''report context exceeds 64 KiB'') (\<lambda>_.
             Inr (subject_type, subject_id, scope_type, wc_id s))))))
      of Inl e \<Rightarrow> (db, Inl e)
      | Inr k \<Rightarrow> idempotent x ''CREATE_REPORT'' (fi_id fresh)
          (create_report_statements c now x fresh k (str_trim report_type) (str_trim description) context terminal)
          (get_report c) db)"

definition resolvable :: "date_time \<Rightarrow> uuid \<Rightarrow> i64 \<Rightarrow> rstr \<Rightarrow> report_row \<Rightarrow> bool" where
  "resolvable now i expected who r \<longleftrightarrow> rq_id r = i \<and> rq_version r = expected \<and> rq_status r = lit ''PENDING''
     \<and> (rq_scope_type r = lit ''HUB'' \<or> live_claim now who r)"

definition rq_key :: "report_row \<Rightarrow> safety_key" where
  "rq_key r = (rq_subject_type r, rq_subject_id r, rq_scope_type r, rq_scope_id r)"

definition resolve_report_statements ::
  "moderation_context \<Rightarrow> date_time \<Rightarrow> request_context \<Rightarrow> fresh_ids \<Rightarrow> uuid \<Rightarrow> rstr \<Rightarrow> i64
     \<Rightarrow> moderation_tables \<Rightarrow> repo_error + moderation_tables" where
  "resolve_report_statements c now x fresh i resolution expected db =
     (let p = resolvable now i expected (rc_actor_id x); good = (resolution = lit ''RESOLVED'')
      in res_bind (update_reports p (\<lambda>r. r\<lparr>rq_status := resolution, rq_resolution := Some resolution,
           rq_resolved_by := Some (rc_actor_id x), rq_resolved_at := Some now, rq_version := rq_version r + 1,
           rq_updated_at := now\<rparr>) db) (\<lambda>db1.
         res_bind (ok_or (Refused (lit ''report version conflict'')) (List.find p (mt_reports db))) (\<lambda>row.
         res_bind (if is_assessed (rq_subject_type row)
           then derive_safety c x now fresh (rq_key row)
             (if good then lit ''REPORT_SUBSTANTIATED'' else lit ''REPORT_DISMISSED'')
             (if good then f64_5 else f64_3) (resolution = lit ''DISMISSED'')
             (json_object [(''report_id'', JString (tx_uuid (mc_text c) i))]) db1
           else Inr db1) (\<lambda>db2.
         Inr (moderation_audit c x ''RESOLVE_REPORT'' ''REPORT'' i db2)))))"

definition resolve_report ::
  "moderation_context \<Rightarrow> date_time \<Rightarrow> request_context \<Rightarrow> fresh_ids \<Rightarrow> uuid \<Rightarrow> rstr \<Rightarrow> i64
     \<Rightarrow> moderation_tables \<Rightarrow> moderation_tables \<times> (repo_error + wire_report)" where
  "resolve_report c now x fresh i resolution expected db =
     (if \<not> is_resolution resolution then (db, Inl (Refused (lit ''invalid report resolution'')))
      else idempotent x ''RESOLVE_REPORT'' i (resolve_report_statements c now x fresh i resolution expected)
        (get_report c) db)"

section \<open>Staff action requests\<close>

definition same_request :: "staff_request_row \<Rightarrow> staff_request_row \<Rightarrow> bool" where
  "same_request a b \<longleftrightarrow> sq_status a = lit ''PENDING'' \<and> sq_status b = lit ''PENDING''
     \<and> sq_action_type a = sq_action_type b \<and> sq_subject_type a = sq_subject_type b
     \<and> sq_subject_id a = sq_subject_id b \<and> sq_scope_type a = sq_scope_type b \<and> sq_scope_id a = sq_scope_id b"

definition holds_report :: "date_time \<Rightarrow> rstr \<Rightarrow> uuid \<Rightarrow> moderation_tables \<Rightarrow> bool" where
  "holds_report now who i db \<longleftrightarrow>
     list_ex (\<lambda>r. rq_id r = i \<and> rq_status r = lit ''PENDING'' \<and> live_claim now who r) (mt_reports db)"

definition owner_check :: "date_time \<Rightarrow> rstr \<Rightarrow> uuid option \<Rightarrow> string \<Rightarrow> moderation_tables \<Rightarrow> repo_error + unit" where
  "owner_check now who i message db = (case i of
       None \<Rightarrow> Inr () | Some j \<Rightarrow> ensure_that (holds_report now who j db) message)"

record staff_action =
  ta_action_type :: rstr
  ta_subject_type :: rstr
  ta_subject_id :: rstr
  ta_scope_type :: rstr
  ta_scope_id :: rstr
  ta_report_id :: "uuid option"
  ta_reason :: rstr
  ta_expires_at :: "date_time option"

definition create_request_statements ::
  "moderation_repository \<Rightarrow> date_time \<Rightarrow> request_context \<Rightarrow> uuid \<Rightarrow> staff_action
     \<Rightarrow> moderation_tables \<Rightarrow> repo_error + moderation_tables" where
  "create_request_statements r now x i a db =
     res_bind (owner_check now (rc_actor_id x) (ta_report_id a) ''action request requires a live report claim'' db) (\<lambda>_.
     res_bind (ok_or (Refused (lit ''invalid input value for enum'')) (map_of (map (\<lambda>(v, l). (l, v)) scope_labels)
       (ta_scope_type a))) (\<lambda>_.
     res_bind (instant (mr_after r now 86400)) (\<lambda>expires.
     let row = \<lparr>sq_id = i, sq_action_type = ta_action_type a, sq_subject_type = ta_subject_type a,
           sq_subject_id = ta_subject_id a, sq_scope_type = ta_scope_type a, sq_scope_id = ta_scope_id a,
           sq_report_id = ta_report_id a, sq_requested_reason = ta_reason a, sq_requested_expires_at = ta_expires_at a,
           sq_requested_by = rc_actor_id x, sq_requested_at = now, sq_status = lit ''PENDING'', sq_decided_by = None,
           sq_decision_reason = None, sq_decided_at = None, sq_executed_infraction_id = None,
           sq_executed_restriction_id = None, sq_expires_at = expires, sq_version = 1\<rparr>
     in res_bind (constraint (request_ok row \<and> i \<notin> set (map sq_id (mt_requests db))
          \<and> \<not> list_ex (same_request row) (mt_requests db) \<and> report_exists (ta_report_id a) db)) (\<lambda>_.
        Inr (moderation_audit (mr_context r) x ''CREATE_STAFF_ACTION_REQUEST'' ''STAFF_ACTION_REQUEST'' i
          (db\<lparr>mt_requests := mt_requests db @ [row]\<rparr>))))))"

definition create_staff_action_request ::
  "moderation_repository \<Rightarrow> date_time \<Rightarrow> request_context \<Rightarrow> fresh_ids \<Rightarrow> staff_action
     \<Rightarrow> moderation_tables \<Rightarrow> moderation_tables \<times> (repo_error + wire_staff_request)" where
  "create_staff_action_request r now x fresh a =
     idempotent x ''CREATE_STAFF_ACTION_REQUEST'' (fi_id fresh) (create_request_statements r now x (fi_id fresh) a)
       (get_staff_action_request (mr_context r))"

text \<open>What an approval executes: the restriction and the infraction it enforces, in the requester's name.\<close>

definition execute_request ::
  "moderation_repository \<Rightarrow> date_time \<Rightarrow> request_context \<Rightarrow> fresh_ids \<Rightarrow> staff_request_row
     \<Rightarrow> moderation_tables \<Rightarrow> repo_error + moderation_tables" where
  "execute_request r now x fresh q db =
     (let c = mr_context r; k = (sq_subject_type q, sq_subject_id q, sq_scope_type q, sq_scope_id q)
      in res_bind (insert_restriction (new_restriction now (fi_enforcement fresh) k
           (if sq_action_type q = lit ''GLOBAL_BLACKLIST'' then lit ''BLACKLIST'' else lit ''BAN'')
           (sq_requested_reason q) (sq_requested_by q) (sq_requested_expires_at q) (sq_report_id q)) db) (\<lambda>db1.
         res_bind (insert_infraction (new_infraction now (fi_id fresh) k (lit ''BAN'') (sq_requested_reason q)
           (sq_requested_by q) (sq_requested_expires_at q) (Some (fi_enforcement fresh)) (sq_report_id q)) db1) (\<lambda>db2.
         let db3 = moderation_audit c x ''CREATE_APPROVED_INFRACTION'' ''INFRACTION'' (fi_id fresh)
               (moderation_audit c x ''CREATE_APPROVED_ENFORCEMENT_RESTRICTION'' ''RESTRICTION'' (fi_enforcement fresh) db2)
         in if sq_subject_type q = lit ''USER''
            then res_bind (scope_from_parts (sq_scope_type q) (sq_scope_id q)) (\<lambda>s.
              insert_manual_moderation_notice r (fi_command fresh) (fi_id fresh) (sq_subject_id q) s (lit ''BAN'')
                (sq_requested_reason q) (sq_requested_expires_at q) (Some (fi_enforcement fresh)) db3)
            else Inr db3)))"

definition decide_row ::
  "date_time \<Rightarrow> rstr \<Rightarrow> fresh_ids \<Rightarrow> bool \<Rightarrow> rstr \<Rightarrow> staff_request_row \<Rightarrow> staff_request_row" where
  "decide_row now by fresh approving reason q =
     (close_request (if approving then lit ''EXECUTED'' else lit ''REJECTED'') now (Some by) reason q)
       \<lparr>sq_executed_infraction_id := (if approving then Some (fi_id fresh) else None),
        sq_executed_restriction_id := (if approving then Some (fi_enforcement fresh) else None)\<rparr>"

definition resolve_request_statements ::
  "moderation_repository \<Rightarrow> date_time \<Rightarrow> request_context \<Rightarrow> fresh_ids \<Rightarrow> uuid \<Rightarrow> bool \<Rightarrow> rstr \<Rightarrow> i64
     \<Rightarrow> moderation_tables \<Rightarrow> repo_error + moderation_tables" where
  "resolve_request_statements r now x fresh i approving reason expected db =
     res_bind (ok_or (Refused (lit ''action request version conflict or no longer pending''))
       (List.find (\<lambda>q. sq_id q = i \<and> sq_status q = lit ''PENDING'' \<and> sq_version q = expected) (mt_requests db))) (\<lambda>q.
     res_bind (ensure_that (sq_requested_by q \<noteq> rc_actor_id x) ''requester cannot approve their own action'') (\<lambda>_.
     res_bind (ensure_that (now < sq_expires_at q) ''action request expired'') (\<lambda>_.
     res_bind (owner_check now (sq_requested_by q) (sq_report_id q) ''requester no longer owns a live report claim'' db) (\<lambda>_.
     res_bind (if approving then execute_request r now x fresh q db else Inr db) (\<lambda>db1.
     res_bind (update_requests (\<lambda>q. sq_id q = i) (decide_row now (rc_actor_id x) fresh approving reason) db1) (\<lambda>db2.
     Inr (moderation_audit (mr_context r) x
       (if approving then ''APPROVE_STAFF_ACTION_REQUEST'' else ''REJECT_STAFF_ACTION_REQUEST'')
       ''STAFF_ACTION_REQUEST'' i db2)))))))"

definition resolve_staff_action_request ::
  "moderation_repository \<Rightarrow> date_time \<Rightarrow> request_context \<Rightarrow> fresh_ids \<Rightarrow> uuid \<Rightarrow> bool \<Rightarrow> rstr \<Rightarrow> i64
     \<Rightarrow> moderation_tables \<Rightarrow> moderation_tables \<times> (repo_error + wire_staff_request)" where
  "resolve_staff_action_request r now x fresh i approving reason expected =
     transaction (resolve_request_statements r now x fresh i approving reason expected)
       (get_staff_action_request (mr_context r) i)"

section \<open>Workers\<close>

definition iris :: rstr where
  "iris = lit ''iris''"

text \<open>The audit rows of the workers; their column with metadata is left out.\<close>

definition staff_audit ::
  "moderation_context \<Rightarrow> rstr \<Rightarrow> string \<Rightarrow> string \<Rightarrow> uuid \<Rightarrow> moderation_tables \<Rightarrow> moderation_tables" where
  "staff_audit c event action resource_type i db =
     db\<lparr>mt_shared := (mt_shared db)\<lparr>db_audit := db_audit (mt_shared db) @ [\<lparr>al_request_id = event,
        al_actor_id = iris, al_actor_type = lit ''SERVICE'', al_action = lit action,
        al_resource_type = lit resource_type, al_resource_id = tx_uuid (mc_text c) i, al_before = None,
        al_after = None, al_trace_id = None\<rparr>]\<rparr>\<rparr>"

text \<open>The transaction of one change of a staff member's rights.\<close>

definition staff_authorization_changed ::
  "moderation_context \<Rightarrow> date_time \<Rightarrow> rstr \<Rightarrow> rstr \<Rightarrow> moderation_tables \<Rightarrow> repo_error + moderation_tables" where
  "staff_authorization_changed c now event user db =
     (let mine = (\<lambda>r. rq_claimed_by r = Some user);
          asked = (\<lambda>q. sq_requested_by q = user \<and> sq_status q = lit ''PENDING'' \<and> sq_report_id q \<noteq> None)
      in res_bind (update_reports mine
           (\<lambda>r. r\<lparr>rq_claimed_by := None, rq_claimed_at := None, rq_claim_expires_at := None,
              rq_last_claim_change_at := Some now, rq_updated_at := now, rq_version := rq_version r + 1\<rparr>) db) (\<lambda>db1.
         let db2 = fold (staff_audit c event ''RELEASE_CLAIM_AFTER_STAFF_AUTH_CHANGE'' ''REPORT'')
               (map rq_id (filter mine (mt_reports db))) db1
         in res_bind (update_requests asked
              (close_request (lit ''CANCELLED'') now (Some iris) (lit ''staff authorization changed'')) db2) (\<lambda>db3.
            Inr (fold (staff_audit c event ''CANCEL_ACTION_AFTER_STAFF_AUTH_CHANGE'' ''STAFF_ACTION_REQUEST'')
              (map sq_id (filter asked (mt_requests db))) db3))))"

definition is_due :: "date_time \<Rightarrow> rstr \<Rightarrow> date_time option \<Rightarrow> bool" where
  "is_due now status expires \<longleftrightarrow> status = lit ''ACTIVE'' \<and> (case expires of None \<Rightarrow> False | Some e \<Rightarrow> e \<le> now)"

text \<open>A request whose report is closed or no longer held by the requester.\<close>

definition stale_request :: "date_time \<Rightarrow> moderation_tables \<Rightarrow> staff_request_row \<Rightarrow> bool" where
  "stale_request now db q \<longleftrightarrow> sq_status q = lit ''PENDING''
     \<and> list_ex (\<lambda>r. sq_report_id q = Some (rq_id r) \<and> (rq_status r \<noteq> lit ''PENDING''
          \<or> rq_claimed_by r \<noteq> Some (sq_requested_by q) \<or> claim_is_over now r)) (mt_reports db)"

definition expiry_tick :: "date_time \<Rightarrow> moderation_tables \<Rightarrow> repo_error + moderation_tables" where
  "expiry_tick now db =
     res_bind (update_increasing (\<lambda>r. is_due now (rr_status r) (rr_expires_at r)) rr_version
       (\<lambda>r. r\<lparr>rr_status := lit ''EXPIRED'', rr_version := rr_version r + 1, rr_updated_at := now\<rparr>) (mt_restrictions db)) (\<lambda>rs.
     res_bind (update_increasing (\<lambda>r. is_due now (nf_status r) (nf_expires_at r)) nf_version
       (\<lambda>r. r\<lparr>nf_status := lit ''EXPIRED'', nf_version := nf_version r + 1, nf_updated_at := now\<rparr>) (mt_infractions db)) (\<lambda>fs.
     res_bind (update_requests (\<lambda>q. sq_status q = lit ''PENDING'' \<and> sq_expires_at q \<le> now)
       (\<lambda>q. q\<lparr>sq_status := lit ''EXPIRED'', sq_decision_reason := Some (lit ''approval window expired''),
          sq_decided_at := Some now, sq_version := sq_version q + 1\<rparr>)
       (db\<lparr>mt_restrictions := rs, mt_infractions := fs\<rparr>)) (\<lambda>db1.
     update_requests (stale_request now db1)
       (\<lambda>q. q\<lparr>sq_status := lit ''CANCELLED'',
          sq_decision_reason := Some (lit ''requester no longer owns a live report claim''),
          sq_decided_at := Some now, sq_version := sq_version q + 1\<rparr>) db1)))"

end
