(* ===== verification/ModerationLinks.thy ===== *)
theory ModerationLinks
  imports ReportCases
begin

text \<open>
  Moderation records, the restrictions and infractions the staff work with, and their link to a
  report (\<open>get_moderation_record\<close>, \<open>link_moderation_record_report\<close> and their helpers in
  \<open>src/moderation/repository.rs\<close>). A record and the one it enforces are linked together.
\<close>

section \<open>Records\<close>

datatype resource_type = ResourceUnspecified | ResourceRestriction | ResourceInfraction

datatype wire_resource = WireRestriction wire_restriction | WireInfraction wire_infraction

record moderation_record =
  wm_kind :: i32
  wm_resource :: wire_resource

definition is_blacklist :: "restriction_row \<Rightarrow> bool" where
  "is_blacklist r \<longleftrightarrow> rr_scope_type r = lit ''PLATFORM'' \<and> rr_restriction_type r = lit ''BLACKLIST''"

definition is_staff_infraction :: "infraction_row \<Rightarrow> bool" where
  "is_staff_infraction r \<longleftrightarrow> nf_infraction_type r = lit ''WARNING''
     \<or> (nf_infraction_type r = lit ''BAN'' \<and> nf_scope_type r = lit ''PRODUCT'')"

text \<open>The column \<open>kind\<close> the queries compute for an infraction.\<close>

definition stored_kind :: "infraction_row \<Rightarrow> rstr" where
  "stored_kind r =
     (if nf_infraction_type r = lit ''WARNING'' \<and> nf_scope_type r = lit ''LOBBY'' then lit ''LOBBY_WARNING''
      else if nf_infraction_type r = lit ''BAN'' \<and> nf_scope_type r = lit ''PRODUCT'' then lit ''LOBBY_BAN''
      else lit ''WARNING'')"

definition restriction_record ::
  "moderation_context \<Rightarrow> date_time \<Rightarrow> restriction_row \<Rightarrow> repo_error + moderation_record" where
  "restriction_record c now r =
     res_bind (moderation_record_kind_from_values (lit ''RESTRICTION'') (lit ''BLACKLIST'') None (rr_scope_type r)) (\<lambda>kind.
     res_bind (restriction_from_row c now r) (\<lambda>w. Inr \<lparr>wm_kind = kind, wm_resource = WireRestriction w\<rparr>))"

definition infraction_kind :: "infraction_row \<Rightarrow> repo_error + i32" where
  "infraction_kind r = moderation_record_kind_from_values (lit ''INFRACTION'') (stored_kind r)
     (Some (nf_infraction_type r)) (nf_scope_type r)"

definition infraction_record ::
  "moderation_context \<Rightarrow> date_time \<Rightarrow> infraction_row \<Rightarrow> repo_error + moderation_record" where
  "infraction_record c now r = res_bind (infraction_kind r) (\<lambda>kind.
     res_bind (infraction_from_row c now r) (\<lambda>w. Inr \<lparr>wm_kind = kind, wm_resource = WireInfraction w\<rparr>))"

definition get_moderation_record ::
  "moderation_context \<Rightarrow> date_time \<Rightarrow> resource_type \<Rightarrow> uuid \<Rightarrow> moderation_tables \<Rightarrow> repo_error + moderation_record" where
  "get_moderation_record c now t i db = (case t of
       ResourceRestriction \<Rightarrow>
         res_bind (fetch_one (\<lambda>r. rr_id r = i \<and> is_blacklist r) (mt_restrictions db)) (restriction_record c now)
     | ResourceInfraction \<Rightarrow>
         res_bind (fetch_one (\<lambda>r. nf_id r = i \<and> is_staff_infraction r) (mt_infractions db)) (infraction_record c now)
     | ResourceUnspecified \<Rightarrow> Inl (Refused (lit ''moderation resource type is required'')))"

section \<open>Links\<close>

record link_target =
  lt_resource_type :: resource_type
  lt_id :: uuid
  lt_subject_type :: rstr
  lt_subject_id :: rstr
  lt_scope_type :: rstr
  lt_scope_id :: rstr
  lt_kind :: rstr
  lt_source_report_id :: "uuid option"
  lt_version :: i64
  lt_enforcement_restriction_id :: "uuid option"

definition restriction_target :: "restriction_row \<Rightarrow> link_target" where
  "restriction_target r = \<lparr>lt_resource_type = ResourceRestriction, lt_id = rr_id r,
     lt_subject_type = rr_subject_type r, lt_subject_id = rr_subject_id r, lt_scope_type = rr_scope_type r,
     lt_scope_id = rr_scope_id r, lt_kind = lit ''BLACKLIST'', lt_source_report_id = rr_source_report_id r,
     lt_version = rr_version r, lt_enforcement_restriction_id = None\<rparr>"

definition infraction_target :: "infraction_row \<Rightarrow> repo_error + link_target" where
  "infraction_target r = res_bind (infraction_kind r) (\<lambda>kind.
     Inr \<lparr>lt_resource_type = ResourceInfraction, lt_id = nf_id r, lt_subject_type = nf_subject_type r,
       lt_subject_id = nf_subject_id r, lt_scope_type = nf_scope_type r, lt_scope_id = nf_scope_id r,
       lt_kind = (case map_of record_kind_labels kind of None \<Rightarrow> [] | Some l \<Rightarrow> l),
       lt_source_report_id = nf_source_report_id r, lt_version = nf_version r,
       lt_enforcement_restriction_id = nf_enforcement_restriction_id r\<rparr>)"

definition find_target :: "resource_type \<Rightarrow> uuid \<Rightarrow> moderation_tables \<Rightarrow> repo_error + link_target" where
  "find_target t i db = (case t of
       ResourceRestriction \<Rightarrow>
         res_bind (fetch_one (\<lambda>r. rr_id r = i \<and> is_blacklist r) (mt_restrictions db)) (\<lambda>r. Inr (restriction_target r))
     | ResourceInfraction \<Rightarrow>
         res_bind (fetch_one (\<lambda>r. nf_id r = i \<and> is_staff_infraction r) (mt_infractions db)) infraction_target
     | ResourceUnspecified \<Rightarrow> Inl (Refused (lit ''moderation resource type is required'')))"

definition validate_report_link :: "link_target \<Rightarrow> report_row \<Rightarrow> repo_error + unit" where
  "validate_report_link t r =
     res_bind (ensure_that (lt_subject_type t = rq_subject_type r \<and> lt_subject_id t = rq_subject_id r)
       ''report subject must match moderation record subject'') (\<lambda>_.
     if lt_kind t \<in> {lit ''WARNING'', lit ''LOBBY_WARNING''}
     then ensure_that (lt_scope_type t = rq_scope_type r \<and> lt_scope_id t = rq_scope_id r)
       ''warning report scope must match moderation record scope''
     else Inr ())"

definition ensure_link_compatible :: "uuid option \<Rightarrow> uuid \<Rightarrow> string \<Rightarrow> repo_error + unit" where
  "ensure_link_compatible existing report label =
     (if existing = None \<or> existing = Some report then Inr ()
      else Inl (Refused (lit ''moderation record link conflict: '' @ lit label @ lit '' is linked to a different report'')))"

text \<open>The infractions a restriction enforces, or the restriction that enforces the infraction.\<close>

definition paired_targets :: "link_target \<Rightarrow> moderation_tables \<Rightarrow> repo_error + link_target list" where
  "paired_targets t db = (case lt_resource_type t of
       ResourceRestriction \<Rightarrow>
         try_map infraction_target (filter (\<lambda>r. nf_enforcement_restriction_id r = Some (lt_id t)) (mt_infractions db))
     | _ \<Rightarrow> (case lt_enforcement_restriction_id t of
         None \<Rightarrow> Inr []
       | Some j \<Rightarrow> (case List.find (\<lambda>r. rr_id r = j) (mt_restrictions db) of
           None \<Rightarrow> Inr [] | Some r \<Rightarrow> Inr [restriction_target r])))"

definition set_link ::
  "date_time \<Rightarrow> uuid \<Rightarrow> link_target \<Rightarrow> moderation_tables \<Rightarrow> repo_error + moderation_tables \<times> nat" where
  "set_link now report t db =
     (let pr = (\<lambda>r. rr_id r = lt_id t \<and> rr_version r = lt_version t \<and> rr_source_report_id r = None);
          pf = (\<lambda>r. nf_id r = lt_id t \<and> nf_version r = lt_version t \<and> nf_source_report_id r = None)
      in case lt_resource_type t of
           ResourceRestriction \<Rightarrow>
             res_bind (update_increasing pr rr_version (\<lambda>r. r\<lparr>rr_source_report_id := Some report,
               rr_version := rr_version r + 1, rr_updated_at := now\<rparr>) (mt_restrictions db))
             (\<lambda>rows. Inr (db\<lparr>mt_restrictions := rows\<rparr>, rows_affected pr (mt_restrictions db)))
         | _ \<Rightarrow>
             res_bind (update_increasing pf nf_version (\<lambda>r. r\<lparr>nf_source_report_id := Some report,
               nf_version := nf_version r + 1, nf_updated_at := now\<rparr>) (mt_infractions db))
             (\<lambda>rows. Inr (db\<lparr>mt_infractions := rows\<rparr>, rows_affected pf (mt_infractions db))))"

definition resource_name :: "resource_type \<Rightarrow> string" where
  "resource_name t = (if t = ResourceRestriction then ''RESTRICTION'' else ''INFRACTION'')"

definition link_one ::
  "moderation_context \<Rightarrow> date_time \<Rightarrow> request_context \<Rightarrow> uuid \<Rightarrow> string \<Rightarrow> link_target
     \<Rightarrow> moderation_tables \<Rightarrow> repo_error + moderation_tables" where
  "link_one c now x report message t db =
     (if lt_source_report_id t \<noteq> None then Inr db
      else res_bind (set_link now report t db) (\<lambda>(db', n).
           res_bind (ensure_that (n = 1) message) (\<lambda>_.
           Inr (moderation_audit c x ''LINK_MODERATION_RECORD_REPORT'' (resource_name (lt_resource_type t)) (lt_id t) db'))))"

fun link_all ::
  "moderation_context \<Rightarrow> date_time \<Rightarrow> request_context \<Rightarrow> uuid \<Rightarrow> link_target list
     \<Rightarrow> moderation_tables \<Rightarrow> repo_error + moderation_tables" where
  "link_all c now x report [] db = Inr db"
| "link_all c now x report (t # ts) db =
     res_bind (link_one c now x report ''paired enforcement resource version conflict'' t db) (link_all c now x report ts)"

definition link_statements ::
  "moderation_context \<Rightarrow> date_time \<Rightarrow> request_context \<Rightarrow> resource_type \<Rightarrow> uuid \<Rightarrow> uuid \<Rightarrow> i64
     \<Rightarrow> moderation_tables \<Rightarrow> repo_error + moderation_tables" where
  "link_statements c now x rt i report expected db =
     res_bind (find_target rt i db) (\<lambda>t.
     res_bind (ensure_that (lt_version t = expected) ''moderation record version conflict'') (\<lambda>_.
     res_bind (fetch_one (\<lambda>r. rq_id r = report) (mt_reports db)) (\<lambda>r.
     res_bind (validate_report_link t r) (\<lambda>_.
     res_bind (paired_targets t db) (\<lambda>pairs.
     res_bind (ensure_that (list_all (\<lambda>p. lt_subject_type p = lt_subject_type t \<and> lt_subject_id p = lt_subject_id t) pairs)
       ''paired enforcement resource subject must match moderation record subject'') (\<lambda>_.
     res_bind (ensure_link_compatible (lt_source_report_id t) report ''record'') (\<lambda>_.
     res_bind (try_map (\<lambda>p. ensure_link_compatible (lt_source_report_id p) report ''paired resource'') pairs) (\<lambda>_.
     res_bind (link_one c now x report ''moderation record version conflict'' t db) (\<lambda>db'.
       link_all c now x report pairs db')))))))))"

definition link_moderation_record_report ::
  "moderation_context \<Rightarrow> date_time \<Rightarrow> request_context \<Rightarrow> resource_type \<Rightarrow> uuid \<Rightarrow> uuid \<Rightarrow> i64
     \<Rightarrow> moderation_tables \<Rightarrow> moderation_tables \<times> (repo_error + moderation_record)" where
  "link_moderation_record_report c now x rt i report expected db =
     (if sint expected \<le> 0 then (db, Inl (Refused (lit ''expected_version is required'')))
      else case rt of
        ResourceUnspecified \<Rightarrow> (db, Inl (Refused (lit ''moderation resource type is required'')))
      | ResourceRestriction \<Rightarrow> idempotent x ''LINK_MODERATION_RECORD_REPORT_RESTRICTION'' i
          (link_statements c now x rt i report expected) (get_moderation_record c now rt) db
      | ResourceInfraction \<Rightarrow> idempotent x ''LINK_MODERATION_RECORD_REPORT_INFRACTION'' i
          (link_statements c now x rt i report expected) (get_moderation_record c now rt) db)"

end
