(* ===== verification/ModerationSafety.thy ===== *)
theory ModerationSafety
  imports ModerationLinks
begin

text \<open>
  The safety assessment of a subject as an operation of its own (\<open>record_safety_observation\<close>,
  \<open>recalculate_safety_assessment\<close> and \<open>get_safety_assessment\<close> in \<open>src/moderation/repository.rs\<close>):
  recording a signal, computing the assessment again, and reading it with the live signals.
\<close>

record wire_signal =
  wg_id :: rstr
  wg_type :: rstr
  wg_value :: f64
  wg_confidence :: f64
  wg_weight :: f64
  wg_mitigating :: bool
  wg_observed_at :: "wire_timestamp option"
  wg_expires_at :: "wire_timestamp option"
  wg_source_action_id :: rstr
  wg_metadata :: "(rstr \<times> wire_value) list option"

record wire_assessment =
  wz_id :: rstr
  wz_subject :: "wire_subject option"
  wz_scope :: "wire_scope option"
  wz_score :: f64
  wz_tier :: rstr
  wz_signals :: "wire_signal list"
  wz_assessed_at :: "wire_timestamp option"
  wz_algorithm_version :: rstr
  wz_version :: u64

definition signal_of_row :: "moderation_context \<Rightarrow> observation_row \<Rightarrow> wire_signal" where
  "signal_of_row c r = \<lparr>wg_id = tx_uuid (mc_text c) (sv_id r), wg_type = on_signal_type (sv_observation r),
     wg_value = on_value (sv_observation r), wg_confidence = on_confidence (sv_observation r),
     wg_weight = on_weight (sv_observation r), wg_mitigating = on_mitigating (sv_observation r),
     wg_observed_at = Some (timestamp c (sv_observed_at r)), wg_expires_at = map_option (timestamp c) (sv_expires_at r),
     wg_source_action_id = uuid_or_empty c (sv_source_action_id r),
     wg_metadata = Some (json_to_struct c (sv_metadata r))\<rparr>"

definition observed :: "date_time \<Rightarrow> safety_key \<Rightarrow> observation_row \<Rightarrow> bool" where
  "observed now k r \<longleftrightarrow> (sv_subject_type r, sv_subject_id r, sv_scope_type r, sv_scope_id r) = k
     \<and> (case sv_expires_at r of None \<Rightarrow> True | Some t \<Rightarrow> now < t)"

text \<open>The subject and scope of a request as the columns of the tables.\<close>

definition assessment_key :: "wire_scope \<Rightarrow> wire_subject \<Rightarrow> repo_error + safety_key" where
  "assessment_key s subject =
     res_bind (primary_subject subject False) (\<lambda>(subject_type, subject_id).
     res_bind (wire_scope_name (wc_type s)) (\<lambda>scope_type. Inr (subject_type, subject_id, scope_type, wc_id s)))"

text \<open>The column with the version of the algorithm has the one value the code writes.\<close>

definition get_safety_assessment ::
  "moderation_context \<Rightarrow> date_time \<Rightarrow> wire_scope \<Rightarrow> wire_subject \<Rightarrow> moderation_tables \<Rightarrow> repo_error + wire_assessment" where
  "get_safety_assessment c now s subject db =
     res_bind (assessment_key s subject) (\<lambda>k.
     res_bind (fetch_one (assessment_of k) (mt_assessments db)) (\<lambda>r.
     Inr \<lparr>wz_id = tx_uuid (mc_text c) (sa_id r), wz_subject = Some subject, wz_scope = Some s,
       wz_score = sa_score r, wz_tier = sa_tier r,
       wz_signals = map (signal_of_row c) (rev (sort_key sv_observed_at (rev (filter (observed now k) (mt_observations db))))),
       wz_assessed_at = Some (timestamp c (sa_assessed_at r)), wz_algorithm_version = lit ''risk-weighted-v1'',
       wz_version = sa_version r\<rparr>))"

definition in_range :: "f64 \<Rightarrow> f64 \<Rightarrow> string \<Rightarrow> repo_error + unit" where
  "in_range x high message = ensure_that (f64_is_finite x \<and> f64_le f64_0 x \<and> f64_le x high) message"

definition check_signal ::
  "moderation_repository \<Rightarrow> date_time \<Rightarrow> wire_signal \<Rightarrow> json \<Rightarrow> uuid \<Rightarrow> safety_key \<Rightarrow> repo_error + observation_row" where
  "check_signal r now signal metadata i k =
     (let c = mr_context r; name = mr_uppercase r (str_trim (wg_type signal)) in
      case k of (subject_type, subject_id, scope_type, scope_id) \<Rightarrow>
      res_bind (ensure_that (name \<noteq> [] \<and> byte_len name \<le> 100)
        ''signal type must be between 1 and 100 characters'') (\<lambda>_.
      res_bind (in_range (wg_value signal) f64_100 ''signal value must be between 0 and 100'') (\<lambda>_.
      res_bind (in_range (wg_confidence signal) f64_1 ''signal confidence must be between 0 and 1'') (\<lambda>_.
      res_bind (in_range (wg_weight signal) f64_10 ''signal weight must be between 0 and 10'') (\<lambda>_.
      res_bind (json_limit r metadata 16384 ''signal metadata exceeds 16 KiB'') (\<lambda>_.
      res_bind (optional_datetime c (wg_observed_at signal)) (\<lambda>given.
      let at = (case given of None \<Rightarrow> now | Some t \<Rightarrow> t) in
      res_bind (ensure_that (at \<le> mr_later r now 300) ''signal observation time is too far in the future'') (\<lambda>_.
      res_bind (optional_datetime c (wg_expires_at signal)) (\<lambda>expires.
      res_bind (ensure_that (case expires of None \<Rightarrow> True | Some t \<Rightarrow> at < t)
        ''signal expiry must be after its observation time'') (\<lambda>_.
      res_bind (if wg_source_action_id signal = [] then Inr None
        else res_bind (parse_uuid c (wg_source_action_id signal)) (\<lambda>j. Inr (Some j))) (\<lambda>source.
      Inr \<lparr>sv_id = i, sv_subject_type = subject_type, sv_subject_id = subject_id, sv_scope_type = scope_type,
        sv_scope_id = scope_id, sv_observation = \<lparr>on_signal_type = name, on_value = wg_value signal,
          on_confidence = wg_confidence signal, on_weight = wg_weight signal, on_mitigating = wg_mitigating signal\<rparr>,
        sv_source_action_id = source, sv_metadata = metadata, sv_observed_at = at, sv_expires_at = expires\<rparr>)))))))))))"

definition record_safety_observation ::
  "moderation_repository \<Rightarrow> date_time \<Rightarrow> request_context \<Rightarrow> fresh_ids \<Rightarrow> wire_scope \<Rightarrow> wire_subject \<Rightarrow> wire_signal
     \<Rightarrow> json \<Rightarrow> moderation_tables \<Rightarrow> moderation_tables \<times> (repo_error + wire_assessment)" where
  "record_safety_observation r now x fresh s subject signal metadata db =
     (let c = mr_context r; i = fi_observation fresh in
      case res_bind (assessment_key s subject) (\<lambda>k.
           res_bind (check_signal r now signal metadata i k) (\<lambda>row. Inr (k, row)))
      of Inl e \<Rightarrow> (db, Inl e)
      | Inr (k, row) \<Rightarrow>
        idempotent x ''RECORD_SAFETY_OBSERVATION'' i (\<lambda>db.
          res_bind (insert_observation row db) (\<lambda>db1.
          res_bind (recalculate_safety_assessment c now (fi_assessment fresh) k db1) (\<lambda>(db2, assessment).
          Inr (moderation_audit c x ''RECALCULATE_SAFETY_ASSESSMENT'' ''SAFETY_ASSESSMENT'' assessment
            (moderation_audit c x ''RECORD_SAFETY_OBSERVATION'' ''SAFETY_OBSERVATION'' i db2)))))
          (\<lambda>_. get_safety_assessment c now s subject) db)"

definition recalculate_assessment ::
  "moderation_context \<Rightarrow> date_time \<Rightarrow> request_context \<Rightarrow> fresh_ids \<Rightarrow> wire_scope \<Rightarrow> wire_subject
     \<Rightarrow> moderation_tables \<Rightarrow> moderation_tables \<times> (repo_error + wire_assessment)" where
  "recalculate_assessment c now x fresh s subject db =
     (case assessment_key s subject of
        Inl e \<Rightarrow> (db, Inl e)
      | Inr k \<Rightarrow>
        idempotent x ''RECALCULATE_SAFETY_ASSESSMENT'' (fi_id fresh) (\<lambda>db.
          res_bind (recalculate_safety_assessment c now (fi_assessment fresh) k db) (\<lambda>(db', assessment).
          Inr (moderation_audit c x ''RECALCULATE_SAFETY_ASSESSMENT'' ''SAFETY_ASSESSMENT'' assessment db')))
          (\<lambda>_. get_safety_assessment c now s subject) db)"

text \<open>The score that is stored is the one of the observations that are live.\<close>

lemma find_updated: "List.find p rows = Some row \<Longrightarrow> (\<And>r. p r \<Longrightarrow> p (f r)) \<Longrightarrow> List.find p (update_rows p f rows) = Some (f row)"
  by (induction rows) (auto simp: update_rows_def split: if_splits)

lemma find_appended: "List.find p rows = None \<Longrightarrow> p r \<Longrightarrow> List.find p (rows @ [r]) = Some r"
  by (induction rows) (auto split: if_splits)

lemma recalculated:
  assumes "recalculate_safety_assessment c now j k db = Inr (db', i)"
    and "calculate_safety_score c (live_observations now k db) = (score, tier, breakdown)"
  shows "mt_observations db' = mt_observations db
    \<and> (\<exists>row. List.find (assessment_of k) (mt_assessments db') = Some row \<and> sa_score row = score \<and> sa_tier row = tier)"
proof -
  obtain kt ki kst ksi where k: "k = (kt, ki, kst, ksi)" by (cases k)
  show ?thesis
  proof (cases "List.find (assessment_of k) (mt_assessments db)")
    case None
    from find_appended [OF None [unfolded k]] assms None show ?thesis
      by (auto simp: recalculate_safety_assessment_def k assessment_of_def)
  next
    case (Some old)
    from find_updated [OF Some [unfolded k]] assms Some show ?thesis
      by (auto simp: recalculate_safety_assessment_def k assessment_of_def update_increasing_Inr)
  qed
qed

lemma live_observations_observed: "live_observations now k db = map sv_observation (filter (observed now k) (mt_observations db))"
  unfolding live_observations_def by (rule arg_cong [where f = "map sv_observation"]) (simp add: observed_def cong: filter_cong)

lemma live_observations_audit [simp]: "live_observations now k (moderation_audit c x a t i db) = live_observations now k db"
  by (simp add: live_observations_def moderation_audit_def)

lemma recorded:
  assumes "insert_observation row db = Inr db1" "recalculate_safety_assessment c now j k db1 = Inr (db2, i)"
    and "assessment_key s subject = Inr k"
  shows "\<exists>a score tier breakdown. get_safety_assessment c now s subject db2 = Inr a
    \<and> calculate_safety_score c (live_observations now k db2) = (score, tier, breakdown)
    \<and> wz_score a = score \<and> wz_tier a = tier \<and> list_ex (\<lambda>n. sv_id n = sv_id row) (mt_observations db2)
    \<and> mset (wz_signals a) = mset (map (signal_of_row c) (filter (observed now k) (mt_observations db2)))"
proof -
  obtain score tier breakdown where z: "calculate_safety_score c (live_observations now k db1) = (score, tier, breakdown)"
    by (cases "calculate_safety_score c (live_observations now k db1)")
  from recalculated [OF assms(2) z] obtain r where o: "mt_observations db2 = mt_observations db1"
    and r: "List.find (assessment_of k) (mt_assessments db2) = Some r" "sa_score r = score" "sa_tier r = tier" by blast
  from o have "live_observations now k db2 = live_observations now k db1" by (simp add: live_observations_def)
  with z have "calculate_safety_score c (live_observations now k db2) = (score, tier, breakdown)" by simp
  moreover from assms(1) o have "list_ex (\<lambda>n. sv_id n = sv_id row) (mt_observations db2)"
    by (auto simp: insert_observation_def)
  ultimately show ?thesis using r
    by (auto simp: get_safety_assessment_def assms(3) fetch_one_def ok_or_def)
qed

text \<open>
  C11 [assessment_current]: a refused signal changes nothing; a recorded one is stored, and the answer has the score
  and tier of all signals of the subject that are live afterwards, and lists exactly these.
\<close>

theorem assessment_current:
  "case record_safety_observation r now x fresh s subject signal metadata db of
     (db', Inl e) \<Rightarrow> db' = db
   | (db', Inr a) \<Rightarrow> if db' = db then True else
       (case assessment_key s subject of Inl e \<Rightarrow> False
        | Inr k \<Rightarrow> (case calculate_safety_score (mr_context r) (live_observations now k db') of (score, tier, breakdown) \<Rightarrow>
            wz_score a = score \<and> wz_tier a = tier
            \<and> list_ex (\<lambda>n. sv_id n = fi_observation fresh) (mt_observations db')
            \<and> mset (wz_signals a) = mset (map (signal_of_row (mr_context r)) (filter (observed now k) (mt_observations db')))))"
proof -
  have audit: "get_safety_assessment c now s subject (moderation_audit c1 x1 a1 t1 i1 db1) = get_safety_assessment c now s subject db1"
    "mt_observations (moderation_audit c1 x1 a1 t1 i1 db1) = mt_observations db1" for c c1 x1 a1 t1 i1 db1
    by (simp_all add: get_safety_assessment_def moderation_audit_def)
  show ?thesis
  proof (cases "res_bind (assessment_key s subject) (\<lambda>k. res_bind (check_signal r now signal metadata (fi_observation fresh) k) (\<lambda>row. Inr (k, row)))")
    case (Inl e)
    then show ?thesis by (simp add: record_safety_observation_def Let_def)
  next
    case (Inr p)
    then obtain k row where p: "p = (k, row)" and k: "assessment_key s subject = Inr k"
      and row: "check_signal r now signal metadata (fi_observation fresh) k = Inr row" by auto
    from row have "sv_id row = fi_observation fresh"
      by (cases k) (auto simp: check_signal_def Let_def)
    note start = this record_safety_observation_def Inr p Let_def idempotent_def
    show ?thesis
    proof (cases "claim_idempotency x ''RECORD_SAFETY_OBSERVATION'' (fi_observation fresh) db")
      case (Inl e)
      then show ?thesis by (simp add: start)
    next
      case claim: (Inr claim)
      show ?thesis
      proof (cases claim)
        case (Inr j)
        with claim show ?thesis by (simp add: start split: sum.split)
      next
        case (Inl db1)
        note start = start claim Inl
        show ?thesis
        proof (cases "res_bind (insert_observation row db1) (recalculate_safety_assessment (mr_context r) now (fi_assessment fresh) k)")
          case (Inl e)
          then show ?thesis
            by (cases "insert_observation row db1"; simp add: start res_bind_Inl_iff)
        next
          case (Inr q)
          then obtain db2 db3 i where q: "q = (db3, i)" and 1: "insert_observation row db1 = Inr db2"
            and 2: "recalculate_safety_assessment (mr_context r) now (fi_assessment fresh) k db2 = Inr (db3, i)"
            by (cases q) auto
          obtain a score tier breakdown where a: "get_safety_assessment (mr_context r) now s subject db3 = Inr a"
            and rest: "calculate_safety_score (mr_context r) (live_observations now k db3) = (score, tier, breakdown)"
              "wz_score a = score" "wz_tier a = tier" "list_ex (\<lambda>n. sv_id n = fi_observation fresh) (mt_observations db3)"
              "mset (wz_signals a) = mset (map (signal_of_row (mr_context r)) (filter (observed now k) (mt_observations db3)))"
            using recorded [OF 1 2 k] start(1) by metis
          have "record_safety_observation r now x fresh s subject signal metadata db =
              (moderation_audit (mr_context r) x ''RECALCULATE_SAFETY_ASSESSMENT'' ''SAFETY_ASSESSMENT'' i
                (moderation_audit (mr_context r) x ''RECORD_SAFETY_OBSERVATION'' ''SAFETY_OBSERVATION'' (fi_observation fresh) db3), Inr a)"
            by (simp add: start 1 2 a audit)
          with rest show ?thesis by (simp add: k audit)
        qed
      qed
    qed
  qed
qed

section \<open>A context and tables to try the operations in\<close>

definition sample_moderation :: moderation_context where
  "sample_moderation = \<lparr>mc_text = \<lparr>tx_uuid = (\<lambda>i. replicate (Suc i) 48), tx_number = unat\<rparr>,
     mc_parse_uuid = (\<lambda>s. if s \<noteq> [] \<and> list_all (\<lambda>c. c = 48) s then Some (length s - 1) else None),
     mc_seconds = of_int, mc_nanos = (\<lambda>t. 0), mc_from_timestamp = (\<lambda>s n. Some (sint s)), mc_multiply = (\<lambda>x y. x),
     mc_add = (\<lambda>x y. x), mc_json_f64 = (\<lambda>x. JNull),
     mc_numbers = \<lparr>number_eq = (=), number_as_f64 = (\<lambda>n. None)\<rparr>\<rparr>"

definition sample_moderation_repository :: moderation_repository where
  "sample_moderation_repository = \<lparr>mr_context = sample_moderation, mr_command_topic = lit ''commands'',
     mr_encode = (\<lambda>e. []), mr_after = (\<lambda>t n. Some (t + sint n)), mr_before = (\<lambda>t n. Some (t - sint n)),
     mr_json_size = (\<lambda>j. Inr 2), mr_later = (\<lambda>t n. t + int n), mr_uppercase = (\<lambda>s. s), mr_fold_case = (\<lambda>c. c),
     mr_json_text = (\<lambda>j. []), mr_read_cursor = (\<lambda>s. Inl s), mr_write_cursor = (\<lambda>k. Inr (lc_sort k))\<rparr>"

definition empty_moderation :: moderation_tables where
  "empty_moderation = \<lparr>mt_restrictions = [], mt_infractions = [], mt_reports = [], mt_appeals = [], mt_queue = [],
     mt_observations = [], mt_assessments = [], mt_requests = [], mt_commands = [], mt_evidence = [],
     mt_snapshots = [], mt_actions = [], mt_decisions = [], mt_shared = empty_tables\<rparr>"

end
