(* ===== verification/ModerationLifecycle.thy ===== *)
theory ModerationLifecycle
  imports ModerationSafety
begin

text \<open>
  What holds of the moderation tables through all requests and worker runs. Two locales state what a
  single write may do: \<open>record_rules\<close> for restrictions, infractions, appeals, review items and
  requests, \<open>report_rules\<close> for the reports too. A relation that the writes respect is respected by
  every operation; it is interpreted for the history of the rows, for the invariant of the tables and
  for the claims of reports.
\<close>

section \<open>Requests\<close>

datatype moderation_request =
  CreateRestriction wire_restriction
| RevokeRestriction uuid rstr i64
| UpdateRestriction uuid "rstr option" "date_time option option" i64
| CreateInfraction wire_infraction "wire_restriction option"
| RevokeInfraction uuid rstr i64
| RevokeInfractionsByType wire_scope wire_subject rstr rstr
| CreateAppeal uuid rstr json
| ResolveAppeal uuid rstr rstr i64
| ResolveReviewItem uuid rstr i64
| LinkRecord resource_type uuid uuid i64
| RecordObservation wire_scope wire_subject wire_signal json
| RecalculateAssessment wire_scope wire_subject
| CreateStaffRequest staff_action
| ResolveStaffRequest uuid bool rstr i64
| ExpiryTick
| CreateReport wire_scope wire_subject rstr rstr json "uuid option"
| ResolveReport uuid rstr i64
| ClaimReport uuid i64 i64 i64 bool
| RenewClaim uuid i64 i64
| UnclaimReport uuid i64
| TransferReport uuid rstr i64 i64 i64 bool bool
| StaffAuthorizationChanged rstr rstr

definition worker :: "(moderation_tables \<Rightarrow> repo_error + moderation_tables) \<Rightarrow> moderation_tables \<Rightarrow> moderation_tables" where
  "worker statements db = (case statements db of Inl e \<Rightarrow> db | Inr db' \<Rightarrow> db')"

fun moderate ::
  "moderation_repository \<Rightarrow> date_time \<Rightarrow> request_context \<Rightarrow> fresh_ids \<Rightarrow> moderation_request
     \<Rightarrow> moderation_tables \<Rightarrow> moderation_tables" where
  "moderate r now x fresh (CreateRestriction w) db = fst (create_restriction r now x fresh w db)"
| "moderate r now x fresh (RevokeRestriction i reason v) db = fst (revoke_restriction (mr_context r) now x i reason v db)"
| "moderate r now x fresh (UpdateRestriction i reason e v) db = fst (update_restriction r now x fresh i reason e v db)"
| "moderate r now x fresh (CreateInfraction w e) db = fst (create_infraction r now x fresh w e db)"
| "moderate r now x fresh (RevokeInfraction i reason v) db =
     fst (revoke_infraction (mr_context r) now x fresh i reason v db)"
| "moderate r now x fresh (RevokeInfractionsByType s subject t reason) db =
     fst (revoke_infractions_by_type (mr_context r) now x s subject t reason db)"
| "moderate r now x fresh (CreateAppeal i reason evidence) db = fst (create_appeal r now x fresh i reason evidence db)"
| "moderate r now x fresh (ResolveAppeal i resolution response v) db =
     fst (resolve_appeal (mr_context r) now x fresh i resolution response v db)"
| "moderate r now x fresh (ResolveReviewItem i resolution v) db =
     fst (resolve_review_item (mr_context r) now x i resolution v db)"
| "moderate r now x fresh (LinkRecord t i report v) db =
     fst (link_moderation_record_report (mr_context r) now x t i report v db)"
| "moderate r now x fresh (RecordObservation s subject signal metadata) db =
     fst (record_safety_observation r now x fresh s subject signal metadata db)"
| "moderate r now x fresh (RecalculateAssessment s subject) db =
     fst (recalculate_assessment (mr_context r) now x fresh s subject db)"
| "moderate r now x fresh (CreateStaffRequest a) db = fst (create_staff_action_request r now x fresh a db)"
| "moderate r now x fresh (ResolveStaffRequest i approving reason v) db =
     fst (resolve_staff_action_request r now x fresh i approving reason v db)"
| "moderate r now x fresh ExpiryTick db = worker (expiry_tick now) db"
| "moderate r now x fresh (CreateReport s subject t d j e) db = fst (create_report r now x fresh s subject t d j e db)"
| "moderate r now x fresh (ResolveReport i resolution v) db =
     fst (resolve_report (mr_context r) now x fresh i resolution v db)"
| "moderate r now x fresh (ClaimReport i v lease cooldown bypass) db = fst (claim_report r now x i v lease cooldown bypass db)"
| "moderate r now x fresh (RenewClaim i v lease) db = fst (renew_report_claim r now x i v lease db)"
| "moderate r now x fresh (UnclaimReport i v) db = fst (unclaim_report r now x i v db)"
| "moderate r now x fresh (TransferReport i who v lease cooldown u bypass) db =
     fst (transfer_report r now x i who v lease cooldown u bypass db)"
| "moderate r now x fresh (StaffAuthorizationChanged event user) db =
     worker (staff_authorization_changed (mr_context r) now event user) db"

section \<open>The writes\<close>

text \<open>The tables with a history of their own; the others are derived or append-only.\<close>

definition core ::
  "moderation_tables \<Rightarrow> restriction_row list \<times> infraction_row list \<times> report_row list \<times> appeal_row list
     \<times> queue_row list \<times> staff_request_row list" where
  "core db = (mt_restrictions db, mt_infractions db, mt_reports db, mt_appeals db, mt_queue db, mt_requests db)"

definition rr_key :: "restriction_row \<Rightarrow> safety_key" where
  "rr_key r = (rr_subject_type r, rr_subject_id r, rr_scope_type r, rr_scope_id r)"

definition restriction_identity :: "restriction_row \<Rightarrow> uuid \<times> safety_key \<times> rstr \<times> rstr" where
  "restriction_identity r = (rr_id r, rr_key r, rr_restriction_type r, rr_created_by r)"

definition restriction_settled :: "restriction_row \<Rightarrow> rstr \<times> rstr \<times> date_time option \<times> rstr option" where
  "restriction_settled r = (rr_status r, rr_reason r, rr_expires_at r, rr_revoked_by r)"

definition restriction_change :: "restriction_row \<Rightarrow> restriction_row \<Rightarrow> bool" where
  "restriction_change r s \<longleftrightarrow> restriction_identity s = restriction_identity r \<and> rr_version s = rr_version r + 1
     \<and> (rr_status r \<noteq> lit ''ACTIVE'' \<longrightarrow> restriction_settled s = restriction_settled r)
     \<and> (rr_source_report_id r \<noteq> None \<longrightarrow> rr_source_report_id s = rr_source_report_id r)"

definition infraction_identity :: "infraction_row \<Rightarrow> uuid \<times> safety_key \<times> rstr \<times> rstr \<times> rstr \<times> uuid option" where
  "infraction_identity r =
     (nf_id r, nf_key r, nf_infraction_type r, nf_created_by r, nf_reason r, nf_enforcement_restriction_id r)"

definition infraction_settled :: "infraction_row \<Rightarrow> rstr \<times> rstr option" where
  "infraction_settled r = (nf_status r, nf_revoked_by r)"

definition infraction_change :: "infraction_row \<Rightarrow> infraction_row \<Rightarrow> bool" where
  "infraction_change r s \<longleftrightarrow> infraction_identity s = infraction_identity r \<and> nf_version s = nf_version r + 1
     \<and> (nf_status r \<noteq> lit ''ACTIVE'' \<longrightarrow> infraction_settled s = infraction_settled r)
     \<and> (nf_source_report_id r \<noteq> None \<longrightarrow> nf_source_report_id s = nf_source_report_id r)"

definition appeal_identity :: "appeal_row \<Rightarrow> uuid \<times> uuid \<times> rstr \<times> rstr" where
  "appeal_identity r = (pl_id r, pl_infraction_id r, pl_appellant_id r, pl_reason r)"

definition appeal_change :: "appeal_row \<Rightarrow> appeal_row \<Rightarrow> bool" where
  "appeal_change r s \<longleftrightarrow> appeal_identity s = appeal_identity r \<and> pl_version s = pl_version r + 1
     \<and> pl_status r = lit ''PENDING'' \<and> is_resolution (pl_status s)"

definition queue_identity :: "queue_row \<Rightarrow> uuid \<times> uuid option \<times> i32" where
  "queue_identity r = (qi_id r, qi_decision_id r, qi_priority r)"

definition queue_change :: "queue_row \<Rightarrow> queue_row \<Rightarrow> bool" where
  "queue_change r s \<longleftrightarrow> queue_identity s = queue_identity r \<and> qi_version s = qi_version r + 1
     \<and> qi_status r = lit ''PENDING'' \<and> is_resolution (qi_status s)"

definition report_identity :: "report_row \<Rightarrow> uuid \<times> safety_key \<times> rstr \<times> rstr \<times> rstr \<times> json" where
  "report_identity r = (rq_id r, rq_key r, rq_reporter_id r, rq_report_type r, rq_description r, rq_context r)"

definition report_settled :: "report_row \<Rightarrow> rstr \<times> rstr option \<times> rstr option" where
  "report_settled r = (rq_status r, rq_resolution r, rq_resolved_by r)"

definition report_change :: "report_row \<Rightarrow> report_row \<Rightarrow> bool" where
  "report_change r s \<longleftrightarrow> report_identity s = report_identity r \<and> rq_version s = rq_version r + 1
     \<and> (rq_status r \<noteq> lit ''PENDING'' \<longrightarrow> report_settled s = report_settled r)"

definition sq_key :: "staff_request_row \<Rightarrow> safety_key" where
  "sq_key q = (sq_subject_type q, sq_subject_id q, sq_scope_type q, sq_scope_id q)"

text \<open>An executed request: decided by another than its requester, in whose name the restriction and the
  infraction it enforces are stored.\<close>

definition enforced_by :: "staff_request_row \<Rightarrow> uuid \<Rightarrow> uuid \<Rightarrow> infraction_row \<Rightarrow> bool" where
  "enforced_by q i j f \<longleftrightarrow> nf_id f = i \<and> nf_enforcement_restriction_id f = Some j
     \<and> nf_key f = sq_key q \<and> nf_infraction_type f = lit ''BAN'' \<and> nf_created_by f = sq_requested_by q"

definition restricted_by :: "staff_request_row \<Rightarrow> uuid \<Rightarrow> restriction_row \<Rightarrow> bool" where
  "restricted_by q j r \<longleftrightarrow> rr_id r = j \<and> rr_key r = sq_key q \<and> rr_created_by r = sq_requested_by q
     \<and> rr_restriction_type r = (if sq_action_type q = lit ''GLOBAL_BLACKLIST'' then lit ''BLACKLIST'' else lit ''BAN'')"

definition executed :: "moderation_tables \<Rightarrow> staff_request_row \<Rightarrow> bool" where
  "executed db q \<longleftrightarrow> (case (sq_decided_by q, sq_executed_infraction_id q, sq_executed_restriction_id q) of
       (Some d, Some i, Some j) \<Rightarrow> d \<noteq> sq_requested_by q
         \<and> list_ex (enforced_by q i j) (mt_infractions db) \<and> list_ex (restricted_by q j) (mt_restrictions db)
     | _ \<Rightarrow> False)"

definition request_identity ::
  "staff_request_row \<Rightarrow> uuid \<times> safety_key \<times> rstr \<times> uuid option \<times> rstr \<times> date_time option \<times> rstr" where
  "request_identity q = (sq_id q, sq_key q, sq_action_type q, sq_report_id q, sq_requested_reason q,
     sq_requested_expires_at q, sq_requested_by q)"

definition request_change :: "moderation_tables \<Rightarrow> staff_request_row \<Rightarrow> staff_request_row \<Rightarrow> bool" where
  "request_change db q p \<longleftrightarrow> request_identity p = request_identity q \<and> sq_version p = sq_version q + 1
     \<and> sq_status q = lit ''PENDING'' \<and> sq_status p \<noteq> lit ''PENDING''
     \<and> (sq_status p = lit ''EXECUTED'' \<longrightarrow> executed db p)"

lemmas row_parts = rr_key_def nf_key_def rq_key_def sq_key_def restriction_identity_def restriction_settled_def
  infraction_identity_def infraction_settled_def appeal_identity_def queue_identity_def report_identity_def
  report_settled_def request_identity_def

lemmas row_changes = restriction_change_def infraction_change_def appeal_change_def queue_change_def
  report_change_def request_change_def row_parts

definition requests_distinct :: "moderation_tables \<Rightarrow> bool" where
  "requests_distinct db \<longleftrightarrow> distinct (map sq_id (mt_requests db))"

definition enforcement_stored :: "infraction_row \<Rightarrow> moderation_tables \<Rightarrow> bool" where
  "enforcement_stored f db \<longleftrightarrow> (case nf_enforcement_restriction_id f of None \<Rightarrow> True
     | Some j \<Rightarrow> list_ex (\<lambda>r. rr_id r = j \<and> rr_key r = nf_key f) (mt_restrictions db))"

text \<open>The requests and the worker run that leave the reports alone.\<close>

fun concerns_report :: "moderation_request \<Rightarrow> bool" where
  "concerns_report (CreateReport _ _ _ _ _ _) = True"
| "concerns_report (ResolveReport _ _ _) = True"
| "concerns_report (ClaimReport _ _ _ _ _) = True"
| "concerns_report (RenewClaim _ _ _) = True"
| "concerns_report (UnclaimReport _ _) = True"
| "concerns_report (TransferReport _ _ _ _ _ _ _) = True"
| "concerns_report (StaffAuthorizationChanged _ _) = True"
| "concerns_report _ = False"

section \<open>Rules for records\<close>

locale record_rules =
  fixes rel :: "moderation_tables \<Rightarrow> moderation_tables \<Rightarrow> bool"
  assumes frame: "core db' = core db \<Longrightarrow> rel db db'"
    and trans: "rel a b \<Longrightarrow> rel b d \<Longrightarrow> rel a d"
    and restriction_inserted: "insert_restriction r db = Inr db' \<Longrightarrow> rr_status r = lit ''ACTIVE'' \<Longrightarrow> rel db db'"
    and restrictions_changed: "update_increasing pr rr_version ur (mt_restrictions db) = Inr rs \<Longrightarrow>
      (\<And>r. pr r \<Longrightarrow> restriction_change r (ur r)) \<Longrightarrow> rel db (db\<lparr>mt_restrictions := rs\<rparr>)"
    and infraction_inserted: "insert_infraction f db = Inr db' \<Longrightarrow> nf_status f = lit ''ACTIVE'' \<Longrightarrow>
      enforcement_stored f db \<Longrightarrow> rel db db'"
    and infractions_changed: "update_increasing pf nf_version uf (mt_infractions db) = Inr fs \<Longrightarrow>
      (\<And>f. pf f \<Longrightarrow> infraction_change f (uf f)) \<Longrightarrow> rel db (db\<lparr>mt_infractions := fs\<rparr>)"
    and appeal_inserted: "pl_id l \<notin> set (map pl_id (mt_appeals db)) \<Longrightarrow> rel db (db\<lparr>mt_appeals := mt_appeals db @ [l]\<rparr>)"
    and appeals_changed: "update_increasing pl pl_version ul (mt_appeals db) = Inr ls \<Longrightarrow>
      (\<And>l. pl l \<Longrightarrow> appeal_change l (ul l)) \<Longrightarrow> rel db (db\<lparr>mt_appeals := ls\<rparr>)"
    and queue_changed: "update_increasing pi qi_version ui (mt_queue db) = Inr is \<Longrightarrow>
      (\<And>i. pi i \<Longrightarrow> queue_change i (ui i)) \<Longrightarrow> rel db (db\<lparr>mt_queue := is\<rparr>)"
    and request_inserted: "request_ok q \<Longrightarrow> sq_status q = lit ''PENDING'' \<Longrightarrow> sq_id q \<notin> set (map sq_id (mt_requests db)) \<Longrightarrow>
      \<not> list_ex (same_request q) (mt_requests db) \<Longrightarrow> rel db (db\<lparr>mt_requests := mt_requests db @ [q]\<rparr>)"
    and requests_changed: "update_requests pq uq db = Inr db' \<Longrightarrow>
      (\<And>q. requests_distinct db \<Longrightarrow> q \<in> set (mt_requests db) \<Longrightarrow> pq q \<Longrightarrow> request_change db q (uq q)) \<Longrightarrow> rel db db'"
begin

lemma rel_refl [simp]: "rel db db"
  by (rule frame) simp

lemma audit_rel [simp]: "rel db (moderation_audit c x a t i db)"
  by (rule frame) (simp add: core_def moderation_audit_def)

lemma then_audit: "rel db db' \<Longrightarrow> rel db (moderation_audit c x a t i db')"
  by (rule trans) auto

lemma notice_core: "send_notice r i t a key n db = Inr db' \<Longrightarrow> core db' = core db"
  by (auto simp: send_notice_def register_command_def command_type_def core_def Let_def split: option.splits)

lemma infraction_notice_rel:
  "insert_manual_moderation_notice r ci i u s t reason e ri db = Inr db' \<Longrightarrow> rel db db'"
  by (auto simp: insert_manual_moderation_notice_def Let_def split: option.splits dest: notice_core intro: frame)

lemma restriction_notice_rel:
  "insert_manual_restriction_notice r ci i u s t reason e v ev db = Inr db' \<Longrightarrow> rel db db'"
  by (auto simp: insert_manual_restriction_notice_def Let_def split: option.splits if_splits dest: notice_core intro: frame)

lemma derive_core: "derive_safety c x now fresh k signal v m j db = Inr db' \<Longrightarrow> core db' = core db"
  by (auto simp: derive_safety_def insert_derived_safety_observation_def insert_observation_def
      recalculate_safety_assessment_def core_def moderation_audit_def split: prod.splits option.splits)

lemma derive_rel: "derive_safety c x now fresh k signal v m j db = Inr db' \<Longrightarrow> rel db db'"
  by (rule frame) (rule derive_core)

lemma transaction_rel:
  "(\<And>db'. statements db = Inr db' \<Longrightarrow> rel db db') \<Longrightarrow> rel db (fst (transaction statements result db))"
  by (simp add: transaction_def split: sum.split)

lemma worker_rel: "(\<And>db'. statements db = Inr db' \<Longrightarrow> rel db db') \<Longrightarrow> rel db (worker statements db)"
  by (simp add: worker_def split: sum.split)

lemma idempotent_rel:
  assumes "\<And>db1 db2. statements db1 = Inr db2 \<Longrightarrow> rel db1 db2"
  shows "rel db (fst (idempotent x operation i statements result db))"
proof (cases "claim_idempotency x operation i db")
  case (Inl e)
  then show ?thesis by (simp add: idempotent_def)
next
  case (Inr claim)
  show ?thesis
  proof (cases claim)
    case (Inl db1)
    with Inr have "rel db db1"
      by (intro frame) (auto simp: claim_idempotency_def core_def split: option.splits if_splits)
    with Inr Inl show ?thesis
      by (auto simp: idempotent_def split: sum.split intro: trans dest!: assms)
  next
    case existing: (Inr j)
    with Inr show ?thesis by (simp add: idempotent_def)
  qed
qed

lemma revoke_restrictions_rel: "revoke_restrictions p now w reason db = Inr db' \<Longrightarrow> rel db db'"
  by (auto simp: revoke_restrictions_def revoke_restriction_row_def row_changes
      elim!: restrictions_changed)

lemma revoke_infractions_rel: "revoke_infractions p now w reason db = Inr db' \<Longrightarrow> rel db db'"
  by (auto simp: revoke_infractions_def revoke_infraction_row_def row_changes
      elim!: infractions_changed)

lemma revoke_enforcement_rel: "revoke_enforcement c now x a reason i db = Inr db' \<Longrightarrow> rel db db'"
  by (auto simp: revoke_enforcement_def split: option.splits if_splits dest!: revoke_restrictions_rel intro: then_audit)

lemma created_rel: "insert_restriction (new_restriction now i k t reason who e source) db1 = Inr db2 \<Longrightarrow>
    rel db1 (moderation_audit c x a b j db2)"
  by (rule then_audit, erule restriction_inserted) (simp add: new_restriction_def split: prod.split)

lemma create_restriction_rel: "rel db (fst (create_restriction r now x fresh w db))"
  by (auto simp: create_restriction_def Let_def split: sum.split if_splits intro!: idempotent_rel
      intro: created_rel trans [OF created_rel restriction_notice_rel])

lemma revoke_restriction_rel: "rel db (fst (revoke_restriction c now x i reason v db))"
  by (auto simp: revoke_restriction_def Let_def intro!: idempotent_rel intro: then_audit dest!: revoke_restrictions_rel)

lemma update_restriction_statements:
  assumes "update_increasing p rr_version (update_restriction_row now reason e) (mt_restrictions db) = Inr rows"
    and "p = (\<lambda>r. rr_id r = i \<and> rr_version r = v \<and> rr_status r = lit ''ACTIVE'')"
  shows "rel db (moderation_audit c x a t i (db\<lparr>mt_restrictions := rows\<rparr>))"
  using assms
  by (auto simp: update_restriction_row_def row_changes
      intro!: then_audit elim!: restrictions_changed)

lemma update_restriction_rel: "rel db (fst (update_restriction r now x fresh i reason e v db))"
  by (auto simp: update_restriction_def Let_def split: sum.split if_splits intro!: idempotent_rel
      intro: update_restriction_statements [OF _ refl]
        trans [OF update_restriction_statements [OF _ refl] restriction_notice_rel])

lemma insert_enforcement_rel:
  assumes "insert_enforcement c now x fresh q db = Inr db'"
  shows "rel db db' \<and> enforcement_stored (new_infraction now i (ir_key q) t reason w e
    (case ir_enforcement q of None \<Rightarrow> None | Some _ \<Rightarrow> Some (fi_enforcement fresh)) source) db'"
proof (cases "ir_enforcement q")
  case None
  with assms show ?thesis by (simp add: insert_enforcement_def enforcement_stored_def new_infraction_def split: prod.split)
next
  case (Some f)
  obtain a b d g where k: "ir_key q = (a, b, d, g)" by (cases "ir_key q")
  from assms Some obtain row db1 where row: "row = new_restriction now (fi_enforcement fresh) (ir_key q) (fst f) (snd f)
      (rc_actor_id x) (ir_expires_at q) (ir_source_report_id q)" and ins: "insert_restriction row db = Inr db1"
    and db': "db' = moderation_audit c x ''CREATE_ENFORCEMENT_RESTRICTION'' ''RESTRICTION'' (fi_enforcement fresh) db1"
    by (auto simp: insert_enforcement_def split: prod.splits)
  from ins row k have "rel db db1" by (auto simp: new_restriction_def intro: restriction_inserted)
  moreover from ins row k have "list_ex (\<lambda>r. rr_id r = fi_enforcement fresh \<and> rr_key r = ir_key q) (mt_restrictions db1)"
    by (auto simp: insert_restriction_def new_restriction_def row_changes)
  ultimately show ?thesis using Some k db'
    by (auto simp: enforcement_stored_def new_infraction_def row_changes moderation_audit_def
        intro: trans [OF _ audit_rel [unfolded moderation_audit_def]])
qed

lemma create_infraction_statements_rel:
  assumes "create_infraction_statements r now x fresh q db = Inr db'"
  shows "rel db db'"
proof -
  obtain a b d g where k: "ir_key q = (a, b, d, g)" by (cases "ir_key q")
  define e where "e = (case ir_enforcement q of None \<Rightarrow> None | Some _ \<Rightarrow> Some (fi_enforcement fresh))"
  from assms k obtain db1 db2 db3 where
    1: "insert_enforcement (mr_context r) now x fresh q db = Inr db1" and
    2: "insert_infraction (new_infraction now (fi_id fresh) (ir_key q) (ir_infraction_type q) (ir_reason q)
           (rc_actor_id x) (ir_expires_at q) e (ir_source_report_id q)) db1 = Inr db2" and
    3: "derive_safety (mr_context r) x now fresh (ir_key q) (lit ''INFRACTION_'' @ ir_infraction_type q)
           (infraction_signal_value (ir_infraction_type q)) False
           (json_object [(''infraction_id'', JString (tx_uuid (mc_text (mr_context r)) (fi_id fresh)))]) db2 = Inr db3" and
    4: "db' = moderation_audit (mr_context r) x ''CREATE_INFRACTION'' ''INFRACTION'' (fi_id fresh) db3
      \<or> insert_manual_moderation_notice r (fi_command fresh) (fi_id fresh) b (ir_scope q)
              (ir_infraction_type q) (ir_reason q) (ir_expires_at q) e
         (moderation_audit (mr_context r) x ''CREATE_INFRACTION'' ''INFRACTION'' (fi_id fresh) db3) = Inr db'"
    unfolding create_infraction_statements_def e_def by (auto simp: Let_def split: if_splits)
  from insert_enforcement_rel [OF 1] have "rel db db1" "enforcement_stored (new_infraction now (fi_id fresh) (ir_key q)
      (ir_infraction_type q) (ir_reason q) (rc_actor_id x) (ir_expires_at q) e (ir_source_report_id q)) db1"
    unfolding e_def by blast+
  moreover from 2 have "rel db1 db2" by (rule infraction_inserted) (use calculation(2) in \<open>simp_all add: new_infraction_def k\<close>)
  moreover from 3 have "rel db2 db3" by (rule derive_rel)
  moreover from 4 have "rel db3 db'" by (elim disjE) (auto intro: trans [OF audit_rel infraction_notice_rel])
  ultimately show ?thesis using trans by blast
qed

lemma create_infraction_rel: "rel db (fst (create_infraction r now x fresh w e db))"
  by (auto simp: create_infraction_def split: sum.split intro!: idempotent_rel dest: create_infraction_statements_rel)

lemma revoke_infraction_rel: "rel db (fst (revoke_infraction c now x fresh i reason v db))"
proof -
  have "rel db1 db2" if st: "revoke_infraction_statements c now x fresh i s v db1 = Inr db2" for s db1 db2
  proof -
    from st obtain a b d row where 1: "revoke_infractions (\<lambda>r. nf_id r = i \<and> nf_version r = v) now (rc_actor_id x) s db1 = Inr a"
      and 2: "derive_safety c x now fresh (nf_key row) (lit ''INFRACTION_'' @ nf_infraction_type row @ lit ''_REVOKED'')
         (infraction_signal_value (nf_infraction_type row)) True
         (json_object [(''infraction_id'', JString (tx_uuid (mc_text c) i)), (''reason'', JString s)]) a = Inr b"
      and 3: "revoke_enforcement c now x ''REVOKE_ENFORCEMENT_RESTRICTION'' s (nf_enforcement_restriction_id row) b = Inr d"
      and 4: "db2 = moderation_audit c x ''REVOKE_INFRACTION'' ''INFRACTION'' i d"
      by (auto simp: revoke_infraction_statements_def Let_def)
    show ?thesis unfolding 4
      by (rule trans [OF revoke_infractions_rel [OF 1] trans [OF derive_rel [OF 2] then_audit [OF revoke_enforcement_rel [OF 3]]]])
  qed
  then show ?thesis by (auto simp: revoke_infraction_def intro!: idempotent_rel)
qed

lemma audit_all_rel: "rel db (audit_all c x a t is db)"
  unfolding audit_all_def by (induction "is" arbitrary: db) (auto intro: trans [OF audit_rel])

lemma then_audit_all: "rel db db' \<Longrightarrow> rel db (audit_all c x a t is db')"
  by (rule trans [OF _ audit_all_rel])

lemma revoke_by_type_rel: "rel db (fst (revoke_infractions_by_type c now x s subject t reason db))"
  by (auto simp: revoke_infractions_by_type_def Let_def supplied_def split: sum.split
      dest!: revoke_infractions_rel revoke_restrictions_rel intro: then_audit_all [OF trans [OF then_audit_all]])

lemma recalculate_core: "recalculate_safety_assessment c now j k db = Inr (db', i) \<Longrightarrow> core db' = core db"
  by (auto simp: recalculate_safety_assessment_def core_def split: prod.splits option.splits)

lemma record_observation_rel: "rel db (fst (record_safety_observation r now x fresh s subject signal metadata db))"
proof -
  have "rel db1 db3" if "insert_observation row db1 = Inr db2" "recalculate_safety_assessment c now j k db2 = Inr (db3, i)"
    for row c j k db1 db2 db3 i
    using that recalculate_core by (intro frame) (auto simp: insert_observation_def core_def)
  then show ?thesis
    by (auto simp: record_safety_observation_def Let_def split: sum.split intro!: idempotent_rel then_audit)
qed

lemma recalculate_rel: "rel db (fst (recalculate_assessment c now x fresh s subject db))"
  by (auto simp: recalculate_assessment_def split: sum.split intro!: idempotent_rel then_audit elim: frame [OF recalculate_core])

lemma create_appeal_rel: "rel db (fst (create_appeal r now x fresh i reason evidence db))"
proof -
  have "rel db1 db2" if "create_appeal_statements c now x j i s evidence db1 = Inr db2" for c j s db1 db2
    using that by (auto simp: create_appeal_statements_def intro!: then_audit appeal_inserted)
  then show ?thesis by (auto simp: create_appeal_def Let_def split: sum.split intro!: idempotent_rel)
qed

lemma accept_appeal_rel:
  assumes "accept_appeal c now x fresh i j response db = Inr db'"
  shows "rel db db'"
proof -
  define reason where "reason = lit ''Appeal accepted: '' @ response"
  from assms obtain a where a: "revoke_infractions (\<lambda>r. nf_id r = j) now (rc_actor_id x) reason db = Inr a"
    unfolding accept_appeal_def reason_def by (auto simp: Let_def)
  show ?thesis
  proof (cases "List.find (\<lambda>r. nf_id r = j \<and> nf_status r = lit ''ACTIVE'') (mt_infractions db)")
    case None
    with assms a have "db' = a" unfolding accept_appeal_def reason_def by (auto simp: Let_def)
    with a show ?thesis using revoke_infractions_rel by blast
  next
    case (Some row)
    from assms [unfolded accept_appeal_def Let_def, folded reason_def] a Some obtain b d where 1: "revoke_enforcement c now x ''REVOKE_RESTRICTION_FROM_APPEAL'' reason (nf_enforcement_restriction_id row) a = Inr b"
      and 2: "derive_safety c x now fresh (nf_key row) (lit ''APPEAL_ACCEPTED'')
         (infraction_signal_value (nf_infraction_type row)) True
         (json_object [(''appeal_id'', JString (tx_uuid (mc_text c) i)),
            (''infraction_id'', JString (tx_uuid (mc_text c) j))]) b = Inr d"
      and 3: "db' = moderation_audit c x ''REVOKE_INFRACTION_FROM_APPEAL'' ''INFRACTION'' j d"
      by auto
    show ?thesis unfolding 3
      by (rule trans [OF revoke_infractions_rel [OF a] trans [OF revoke_enforcement_rel [OF 1] then_audit [OF derive_rel [OF 2]]]])
  qed
qed

lemma resolve_appeal_rel: "rel db (fst (resolve_appeal c now x fresh i resolution response v db))"
proof -
  have "rel db1 db2"
    if st: "resolve_appeal_statements c now x fresh i resolution s v db1 = Inr db2" and ok: "is_resolution resolution"
    for s db1 db2
  proof -
    from st obtain as and row :: appeal_row and db' where
      as: "update_increasing (\<lambda>r. pl_id r = i \<and> pl_version r = v \<and> pl_status r = lit ''PENDING'') pl_version
        (resolve_appeal_row now resolution s (rc_actor_id x)) (mt_appeals db1) = Inr as"
      and db': "(if resolution = lit ''RESOLVED'' then accept_appeal c now x fresh i (pl_infraction_id row) s
        (db1\<lparr>mt_appeals := as\<rparr>) else Inr (db1\<lparr>mt_appeals := as\<rparr>)) = Inr db'"
      and db2: "moderation_audit c x ''RESOLVE_APPEAL'' ''APPEAL'' i db' = db2"
      unfolding resolve_appeal_statements_def Let_def res_bind_Inr_iff sum.inject by blast
    from as ok have "rel db1 (db1\<lparr>mt_appeals := as\<rparr>)"
      by (auto simp: resolve_appeal_row_def row_changes elim!: appeals_changed)
    moreover from db' have "rel (db1\<lparr>mt_appeals := as\<rparr>) db'" by (auto split: if_splits dest: accept_appeal_rel)
    ultimately show ?thesis unfolding db2 [symmetric] by (rule then_audit [OF trans])
  qed
  then show ?thesis by (auto simp: resolve_appeal_def intro!: idempotent_rel)
qed

lemma resolve_review_rel: "rel db (fst (resolve_review_item c now x i resolution v db))"
proof -
  have "rel db1 (db1\<lparr>mt_queue := qs\<rparr>)" if "is_resolution resolution"
    "update_increasing (\<lambda>r. qi_id r = i \<and> qi_version r = v \<and> qi_status r = lit ''PENDING'') qi_version
      (resolve_review_row now resolution (rc_actor_id x)) (mt_queue db1) = Inr qs" for db1 qs
    using that by (auto simp: resolve_review_row_def row_changes elim!: queue_changed)
  then show ?thesis by (auto simp: resolve_review_item_def Let_def intro!: idempotent_rel then_audit)
qed

lemma set_link_rel: "set_link now report t db = Inr (db', n) \<Longrightarrow> rel db db'"
  by (cases "lt_resource_type t")
    (auto simp: set_link_def Let_def row_changes
      elim!: restrictions_changed infractions_changed)

lemma link_one_rel: "link_one c now x report message t db = Inr db' \<Longrightarrow> rel db db'"
  by (auto simp: link_one_def split: if_splits dest!: set_link_rel intro: then_audit)

lemma link_all_rel: "link_all c now x report ts db = Inr db' \<Longrightarrow> rel db db'"
  by (induction ts arbitrary: db) (auto dest: link_one_rel intro: trans)

lemma link_rel: "rel db (fst (link_moderation_record_report c now x t i report v db))"
proof -
  have "rel db1 db2" if "link_statements c now x t i report v db1 = Inr db2" for db1 db2
    using that by (auto simp: link_statements_def dest!: link_one_rel link_all_rel intro: trans)
  then show ?thesis
    by (auto simp: link_moderation_record_report_def split: resource_type.split intro!: idempotent_rel)
qed

lemma create_request_rel: "rel db (fst (create_staff_action_request r now x fresh a db))"
proof -
  have "rel db1 db2" if "create_request_statements r now x i a db1 = Inr db2" for i db1 db2
    using that by (auto simp: create_request_statements_def Let_def intro!: then_audit request_inserted)
  then show ?thesis by (auto simp: create_staff_action_request_def intro!: idempotent_rel)
qed

lemma execute_request_rel:
  assumes st: "execute_request r now x fresh q db = Inr db'" and other: "who \<noteq> sq_requested_by q"
  shows "rel db db' \<and> mt_requests db' = mt_requests db
    \<and> executed db' (decide_row now who fresh True reason q)"
proof -
  define k where "k = (sq_subject_type q, sq_subject_id q, sq_scope_type q, sq_scope_id q)"
  define row where "row = new_restriction now (fi_enforcement fresh) k
     (if sq_action_type q = lit ''GLOBAL_BLACKLIST'' then lit ''BLACKLIST'' else lit ''BAN'')
     (sq_requested_reason q) (sq_requested_by q) (sq_requested_expires_at q) (sq_report_id q)"
  define f where "f = new_infraction now (fi_id fresh) k (lit ''BAN'') (sq_requested_reason q)
     (sq_requested_by q) (sq_requested_expires_at q) (Some (fi_enforcement fresh)) (sq_report_id q)"
  define audited where "audited db = moderation_audit (mr_context r) x ''CREATE_APPROVED_INFRACTION'' ''INFRACTION'' (fi_id fresh)
       (moderation_audit (mr_context r) x ''CREATE_APPROVED_ENFORCEMENT_RESTRICTION'' ''RESTRICTION'' (fi_enforcement fresh) db)"
    for db
  from st obtain db1 db2 where 1: "insert_restriction row db = Inr db1" and 2: "insert_infraction f db1 = Inr db2"
    and 4: "(if sq_subject_type q = lit ''USER''
            then res_bind (scope_from_parts (sq_scope_type q) (sq_scope_id q)) (\<lambda>s.
              insert_manual_moderation_notice r (fi_command fresh) (fi_id fresh) (sq_subject_id q) s (lit ''BAN'')
                (sq_requested_reason q) (sq_requested_expires_at q) (Some (fi_enforcement fresh)) (audited db2))
            else Inr (audited db2)) = Inr db'"
    unfolding execute_request_def Let_def k_def [symmetric] row_def [symmetric] f_def [symmetric] audited_def [symmetric]
      res_bind_Inr_iff by blast
  have stored: "mt_restrictions db1 = mt_restrictions db @ [row]" "mt_infractions db2 = mt_infractions db1 @ [f]"
    "mt_restrictions db2 = mt_restrictions db1" "mt_requests db2 = mt_requests db"
    using 1 2 by (auto simp: insert_restriction_def insert_infraction_def)
  have rows: "rr_status row = lit ''ACTIVE''" "rr_id row = fi_enforcement fresh" "rr_key row = k"
    "rr_created_by row = sq_requested_by q"
    "rr_restriction_type row = (if sq_action_type q = lit ''GLOBAL_BLACKLIST'' then lit ''BLACKLIST'' else lit ''BAN'')"
    "nf_status f = lit ''ACTIVE''" "nf_id f = fi_id fresh" "nf_key f = k" "nf_created_by f = sq_requested_by q"
    "nf_infraction_type f = lit ''BAN''" "nf_enforcement_restriction_id f = Some (fi_enforcement fresh)"
    by (simp_all add: row_def f_def k_def new_restriction_def new_infraction_def row_changes)
  have "core db' = core (audited db2)" using 4
    by (auto simp: insert_manual_moderation_notice_def Let_def split: option.splits if_splits dest: notice_core)
  then have c: "core db' = core db2" by (simp add: audited_def core_def moderation_audit_def)
  have "rel db db1" using 1 rows(1) by (rule restriction_inserted)
  moreover have "rel db1 db2" using 2 rows(6) by (rule infraction_inserted) (simp add: enforcement_stored_def rows stored)
  moreover from c have "rel db2 db'" by (rule frame)
  ultimately have "rel db db'" using trans by blast
  moreover have "executed db2 (decide_row now who fresh True reason q)"
    using other by (simp add: executed_def decide_row_def close_request_def enforced_by_def restricted_by_def sq_key_def
      stored rows k_def [symmetric])
  moreover from c have "executed db' q' = executed db2 q'" for q' by (simp add: core_def executed_def cong: option.case_cong)
  ultimately show ?thesis using c stored(4) by (simp add: core_def)
qed

lemma resolve_request_rel: "rel db (fst (resolve_staff_action_request r now x fresh i approving reason v db))"
  unfolding resolve_staff_action_request_def
proof (rule transaction_rel)
  fix db'
  assume "resolve_request_statements r now x fresh i approving reason v db = Inr db'"
  then obtain q db1 db2 where
    q: "List.find (\<lambda>q. sq_id q = i \<and> sq_status q = lit ''PENDING'' \<and> sq_version q = v) (mt_requests db) = Some q"
    and other: "rc_actor_id x \<noteq> sq_requested_by q"
    and ex: "(if approving then execute_request r now x fresh q db else Inr db) = Inr db1"
    and up: "update_requests (\<lambda>q. sq_id q = i) (decide_row now (rc_actor_id x) fresh approving reason) db1 = Inr db2"
    and db': "db' = moderation_audit (mr_context r) x
       (if approving then ''APPROVE_STAFF_ACTION_REQUEST'' else ''REJECT_STAFF_ACTION_REQUEST'') ''STAFF_ACTION_REQUEST'' i db2"
    unfolding resolve_request_statements_def res_bind_Inr_iff by (elim exE conjE) auto
  from q have mem: "q \<in> set (mt_requests db)" "sq_id q = i" "sq_status q = lit ''PENDING''" by (auto dest: find_member)
  have 1: "rel db db1 \<and> mt_requests db1 = mt_requests db
      \<and> (approving \<longrightarrow> executed db1 (decide_row now (rc_actor_id x) fresh True reason q))"
    using ex execute_request_rel [OF _ other] by (auto split: if_splits)
  have "rel db1 db2" using up
  proof (rule requests_changed)
    fix p
    assume "requests_distinct db1" "p \<in> set (mt_requests db1)" "sq_id p = i"
    with 1 mem have "p = q" by (auto simp: requests_distinct_def dest: inj_on_distinct_map inj_onD)
    with 1 mem show "request_change db1 p (decide_row now (rc_actor_id x) fresh approving reason p)"
      by (auto simp: row_changes decide_row_def close_request_def lit_def)
  qed
  with 1 show "rel db db'" unfolding db' by (blast intro: then_audit trans)
qed

lemma expiry_rel: "rel db (worker (expiry_tick now) db)"
proof (rule worker_rel)
  fix db'
  assume st: "expiry_tick now db = Inr db'"
  define close where "close status reason q = q\<lparr>sq_status := status, sq_decision_reason := Some reason,
     sq_decided_at := Some now, sq_version := sq_version q + 1\<rparr>" for status reason :: rstr and q :: staff_request_row
  from st obtain rs fs db1 where
    rs: "update_increasing (\<lambda>r. is_due now (rr_status r) (rr_expires_at r)) rr_version
       (\<lambda>r. r\<lparr>rr_status := lit ''EXPIRED'', rr_version := rr_version r + 1, rr_updated_at := now\<rparr>) (mt_restrictions db) = Inr rs"
    and fs: "update_increasing (\<lambda>r. is_due now (nf_status r) (nf_expires_at r)) nf_version
       (\<lambda>r. r\<lparr>nf_status := lit ''EXPIRED'', nf_version := nf_version r + 1, nf_updated_at := now\<rparr>)
       (mt_infractions (db\<lparr>mt_restrictions := rs\<rparr>)) = Inr fs"
    and db1: "update_requests (\<lambda>q. sq_status q = lit ''PENDING'' \<and> sq_expires_at q \<le> now)
       (close (lit ''EXPIRED'') (lit ''approval window expired'')) (db\<lparr>mt_restrictions := rs, mt_infractions := fs\<rparr>) = Inr db1"
    and db': "update_requests (stale_request now db1)
       (close (lit ''CANCELLED'') (lit ''requester no longer owns a live report claim'')) db1 = Inr db'"
    unfolding expiry_tick_def close_def by auto
  from rs have "rel db (db\<lparr>mt_restrictions := rs\<rparr>)"
    by (rule restrictions_changed) (auto simp: is_due_def row_changes)
  moreover from fs have "rel (db\<lparr>mt_restrictions := rs\<rparr>) (db\<lparr>mt_restrictions := rs, mt_infractions := fs\<rparr>)"
    using infractions_changed [OF fs] by (auto simp: is_due_def row_changes)
  moreover from db1 have "rel (db\<lparr>mt_restrictions := rs, mt_infractions := fs\<rparr>) db1"
    by (rule requests_changed) (auto simp: close_def row_changes lit_def)
  moreover from db' have "rel db1 db'"
    by (rule requests_changed) (auto simp: close_def row_changes stale_request_def lit_def)
  ultimately show "rel db db'" using trans by blast
qed

end

section \<open>Rules for reports\<close>

locale report_rules = record_rules +
  assumes report_inserted: "rq_id p \<notin> set (map rq_id (mt_reports db)) \<Longrightarrow> report_ok p \<Longrightarrow> rq_status p = lit ''PENDING'' \<Longrightarrow>
      rel db (db\<lparr>mt_reports := mt_reports db @ [p]\<rparr>)"
    and reports_changed: "update_reports pp up db = Inr db' \<Longrightarrow> (\<And>p. pp p \<Longrightarrow> report_change p (up p)) \<Longrightarrow> rel db db'"
begin

lemma change_report_rel:
  "change_report p f m db = Inr db' \<Longrightarrow> (\<And>r. p r \<Longrightarrow> report_change r (f r)) \<Longrightarrow> rel db db'"
  by (auto simp: change_report_def intro: reports_changed)

lemma take_claim_change: "report_change r (take_claim now who e r)"
  by (simp add: take_claim_def row_changes)

lemma cancel_change: "sq_status q = lit ''PENDING'' \<Longrightarrow>
    request_change db q (close_request (lit ''CANCELLED'') now who reason q)"
  by (simp add: close_request_def row_changes lit_def)

lemma cancel_rel: "update_requests p (close_request (lit ''CANCELLED'') now who reason) db = Inr db' \<Longrightarrow>
    (\<And>q. p q \<Longrightarrow> sq_status q = lit ''PENDING'') \<Longrightarrow> rel db db'"
  by (erule requests_changed) (blast intro: cancel_change)

lemma claim_rel: "rel db (fst (claim_report r now x i v lease cooldown bypass db))"
  by (auto simp: claim_report_def intro!: transaction_rel then_audit elim!: change_report_rel intro: take_claim_change)

lemma renew_rel: "rel db (fst (renew_report_claim r now x i v lease db))"
  by (auto simp: renew_report_claim_def row_changes
      intro!: transaction_rel then_audit elim!: change_report_rel)

lemma unclaim_rel: "rel db (fst (unclaim_report r now x i v db))"
  by (auto simp: unclaim_report_def row_changes open_request_def
      intro!: transaction_rel then_audit elim!: trans [OF change_report_rel cancel_rel])

lemma transfer_rel: "rel db (fst (transfer_report r now x i who v lease cooldown u bypass db))"
  by (auto simp: transfer_report_def open_request_def intro!: transaction_rel then_audit
      elim!: trans [OF change_report_rel cancel_rel] intro: take_claim_change)

lemma pin_rel: "pin_evidence i t s j db = Inr db' \<Longrightarrow> rel db db'"
  by (rule frame) (auto simp: pin_evidence_def core_def Let_def)

lemma create_report_statements_rel:
  assumes "create_report_statements c now x fresh k t d j e db = Inr db'"
  shows "rel db db'"
proof -
  define db1 where "db1 = db\<lparr>mt_reports := mt_reports db @ [new_report now (fi_id fresh) k (rc_actor_id x) t d j]\<rparr>"
  from assms obtain db2 db3 where new: "fi_id fresh \<notin> set (map rq_id (mt_reports db))"
    and 2: "db2 = db1 \<or> (\<exists>a b f. pin_evidence (fi_id fresh) a b f db1 = Inr db2)"
    and 3: "db3 = db2 \<or> (\<exists>signal v m o'. derive_safety c x now fresh k signal v m o' db2 = Inr db3)"
    and 4: "db' = moderation_audit c x ''CREATE_REPORT'' ''REPORT'' (fi_id fresh) db3"
    unfolding create_report_statements_def db1_def [symmetric] Let_def
    by (auto split: prod.splits option.splits if_splits) (metis | blast)+
  from new have "rel db db1" unfolding db1_def
    by (intro report_inserted) (auto simp: new_report_def report_ok_def split: prod.splits)
  moreover from 2 have "rel db1 db2" by (auto dest: pin_rel)
  moreover from 3 have "rel db2 db3" by (auto dest: derive_rel)
  ultimately show ?thesis unfolding 4 by (blast intro: then_audit trans)
qed

lemma create_report_rel: "rel db (fst (create_report r now x fresh s subject t d j e db))"
  by (auto simp: create_report_def Let_def split: sum.split intro!: idempotent_rel dest: create_report_statements_rel)

lemma resolve_report_rel: "rel db (fst (resolve_report c now x fresh i resolution v db))"
proof -
  have "rel db1 db3" if st: "resolve_report_statements c now x fresh i resolution v db1 = Inr db3"
    and ok: "is_resolution resolution" for db1 db3
  proof -
    from st obtain a b row where
      a: "update_reports (resolvable now i v (rc_actor_id x)) (\<lambda>r. r\<lparr>rq_status := resolution, rq_resolution := Some resolution,
           rq_resolved_by := Some (rc_actor_id x), rq_resolved_at := Some now, rq_version := rq_version r + 1,
           rq_updated_at := now\<rparr>) db1 = Inr a"
      and b: "(if is_assessed (rq_subject_type row) then derive_safety c x now fresh (rq_key row)
             (if resolution = lit ''RESOLVED'' then lit ''REPORT_SUBSTANTIATED'' else lit ''REPORT_DISMISSED'')
             (if resolution = lit ''RESOLVED'' then f64_5 else f64_3) (resolution = lit ''DISMISSED'')
             (json_object [(''report_id'', JString (tx_uuid (mc_text c) i))]) a else Inr a) = Inr b"
      and db3: "db3 = moderation_audit c x ''RESOLVE_REPORT'' ''REPORT'' i b"
      unfolding resolve_report_statements_def Let_def res_bind_Inr_iff by (elim exE conjE) simp
    from a have "rel db1 a"
      by (rule reports_changed) (use ok in \<open>auto simp: resolvable_def row_changes\<close>)
    moreover from b have "rel a b" by (auto split: if_splits dest: derive_rel)
    ultimately show ?thesis unfolding db3 by (blast intro: then_audit trans)
  qed
  then show ?thesis by (auto simp: resolve_report_def intro!: idempotent_rel)
qed

lemma fold_staff_audit_rel: "rel db (fold (staff_audit c event a t) is db)"
proof (induction "is" arbitrary: db)
  case Nil
  then show ?case by simp
next
  case (Cons i "is")
  have "rel db (staff_audit c event a t i db)" by (rule frame) (simp add: core_def staff_audit_def)
  with Cons show ?case by (auto intro: trans)
qed

lemma staff_change_rel: "rel db (worker (staff_authorization_changed c now event user) db)"
proof (rule worker_rel)
  fix db'
  assume "staff_authorization_changed c now event user db = Inr db'"
  then obtain db1 db3 where
    1: "update_reports (\<lambda>r. rq_claimed_by r = Some user)
           (\<lambda>r. r\<lparr>rq_claimed_by := None, rq_claimed_at := None, rq_claim_expires_at := None,
              rq_last_claim_change_at := Some now, rq_updated_at := now, rq_version := rq_version r + 1\<rparr>) db = Inr db1"
    and 2: "update_requests (\<lambda>q. sq_requested_by q = user \<and> sq_status q = lit ''PENDING'' \<and> sq_report_id q \<noteq> None)
      (close_request (lit ''CANCELLED'') now (Some iris) (lit ''staff authorization changed''))
      (fold (staff_audit c event ''RELEASE_CLAIM_AFTER_STAFF_AUTH_CHANGE'' ''REPORT'')
               (map rq_id (filter (\<lambda>r. rq_claimed_by r = Some user) (mt_reports db))) db1) = Inr db3"
    and 3: "\<exists>is. db' = fold (staff_audit c event ''CANCEL_ACTION_AFTER_STAFF_AUTH_CHANGE'' ''STAFF_ACTION_REQUEST'') is db3"
    by (auto simp: staff_authorization_changed_def Let_def)
  from 1 have "rel db db1" by (rule reports_changed) (simp add: row_changes)
  note released = trans [OF this fold_staff_audit_rel]
  from 2 have "rel (fold (staff_audit c event ''RELEASE_CLAIM_AFTER_STAFF_AUTH_CHANGE'' ''REPORT'')
               (map rq_id (filter (\<lambda>r. rq_claimed_by r = Some user) (mt_reports db))) db1) db3"
    by (rule cancel_rel) simp
  from trans [OF released this] 3 show "rel db db'" by (auto intro: trans [OF _ fold_staff_audit_rel])
qed

lemma moderate_rel: "rel db (moderate r now x fresh q db)"
  by (cases q)
    (simp_all add: create_restriction_rel revoke_restriction_rel update_restriction_rel create_infraction_rel
      revoke_infraction_rel revoke_by_type_rel create_appeal_rel resolve_appeal_rel resolve_review_rel link_rel
      record_observation_rel recalculate_rel create_request_rel resolve_request_rel expiry_rel create_report_rel resolve_report_rel claim_rel renew_rel unclaim_rel transfer_rel
      staff_change_rel)

end

section \<open>The history of the rows\<close>

text \<open>Rows are never removed; each is followed by what it became.\<close>

definition grown :: "('r \<Rightarrow> 'r \<Rightarrow> bool) \<Rightarrow> 'r list \<Rightarrow> 'r list \<Rightarrow> bool" where
  "grown becomes xs ys \<longleftrightarrow> length xs \<le> length ys \<and> list_all2 becomes xs (take (length xs) ys)"

text \<open>What a row may become: nothing else, or one with a greater version that keeps what is settled.\<close>

definition restriction_becomes :: "restriction_row \<Rightarrow> restriction_row \<Rightarrow> bool" where
  "restriction_becomes r s \<longleftrightarrow> r = s \<or> sint (rr_version r) < sint (rr_version s)
     \<and> restriction_identity s = restriction_identity r
     \<and> (rr_status r \<noteq> lit ''ACTIVE'' \<longrightarrow> restriction_settled s = restriction_settled r)
     \<and> (rr_source_report_id r \<noteq> None \<longrightarrow> rr_source_report_id s = rr_source_report_id r)"

definition infraction_becomes :: "infraction_row \<Rightarrow> infraction_row \<Rightarrow> bool" where
  "infraction_becomes r s \<longleftrightarrow> r = s \<or> sint (nf_version r) < sint (nf_version s)
     \<and> infraction_identity s = infraction_identity r
     \<and> (nf_status r \<noteq> lit ''ACTIVE'' \<longrightarrow> infraction_settled s = infraction_settled r)
     \<and> (nf_source_report_id r \<noteq> None \<longrightarrow> nf_source_report_id s = nf_source_report_id r)"

definition appeal_becomes :: "appeal_row \<Rightarrow> appeal_row \<Rightarrow> bool" where
  "appeal_becomes r s \<longleftrightarrow> r = s \<or> pl_status r = lit ''PENDING'' \<and> is_resolution (pl_status s)
     \<and> sint (pl_version r) < sint (pl_version s) \<and> appeal_identity s = appeal_identity r"

definition queue_becomes :: "queue_row \<Rightarrow> queue_row \<Rightarrow> bool" where
  "queue_becomes r s \<longleftrightarrow> r = s \<or> qi_status r = lit ''PENDING'' \<and> is_resolution (qi_status s)
     \<and> sint (qi_version r) < sint (qi_version s) \<and> queue_identity s = queue_identity r"

definition request_becomes :: "staff_request_row \<Rightarrow> staff_request_row \<Rightarrow> bool" where
  "request_becomes q p \<longleftrightarrow> q = p \<or> sq_status q = lit ''PENDING'' \<and> sq_status p \<noteq> lit ''PENDING''
     \<and> sint (sq_version q) < sint (sq_version p) \<and> request_identity p = request_identity q"

definition report_becomes :: "report_row \<Rightarrow> report_row \<Rightarrow> bool" where
  "report_becomes r s \<longleftrightarrow> r = s \<or> sint (rq_version r) < sint (rq_version s) \<and> report_identity s = report_identity r
     \<and> (rq_status r \<noteq> lit ''PENDING'' \<longrightarrow> report_settled s = report_settled r)"

lemma settled_status:
  "restriction_settled r = restriction_settled s \<Longrightarrow> rr_status r = rr_status s"
  "infraction_settled f = infraction_settled g \<Longrightarrow> nf_status f = nf_status g"
  "report_settled p = report_settled q \<Longrightarrow> rq_status p = rq_status q"
  by (simp_all add: restriction_settled_def infraction_settled_def report_settled_def)

definition history :: "moderation_tables \<Rightarrow> moderation_tables \<Rightarrow> bool" where
  "history db db' \<longleftrightarrow> grown restriction_becomes (mt_restrictions db) (mt_restrictions db')
     \<and> grown infraction_becomes (mt_infractions db) (mt_infractions db')
     \<and> grown appeal_becomes (mt_appeals db) (mt_appeals db') \<and> grown queue_becomes (mt_queue db) (mt_queue db')
     \<and> grown request_becomes (mt_requests db) (mt_requests db')
     \<and> grown report_becomes (mt_reports db) (mt_reports db')"

lemma grown_same [simp]: "(\<And>x. becomes x x) \<Longrightarrow> grown becomes xs xs"
  by (simp add: grown_def list_all2_refl)

lemma grown_append: "(\<And>x. becomes x x) \<Longrightarrow> grown becomes xs (xs @ ys)"
  by (simp add: grown_def list_all2_refl)

lemma grown_update: "(\<And>x. x \<in> set xs \<Longrightarrow> becomes x (if p x then f x else x)) \<Longrightarrow> grown becomes xs (update_rows p f xs)"
  by (auto simp: grown_def update_rows_def list_all2_conv_all_nth)

lemma grown_trans:
  assumes "grown becomes xs ys" "grown becomes ys zs" "\<And>x y z. becomes x y \<Longrightarrow> becomes y z \<Longrightarrow> becomes x z"
  shows "grown becomes xs zs"
  using assms by (fastforce simp: grown_def list_all2_conv_all_nth)

lemma can_increase_sint: "can_increase v \<Longrightarrow> sint v < sint (v + 1)"
proof -
  assume "can_increase v"
  moreover have "- (2 ^ 63) \<le> sint v" using sint_ge [of v] by simp
  ultimately have "sint (v + 1) = sint v + 1"
    by (simp add: can_increase_def sint_word_ariths signed_take_bit_int_eq_self)
  then show ?thesis by simp
qed

lemma becomes_refl [simp]: "restriction_becomes r r" "infraction_becomes f f" "appeal_becomes l l" "queue_becomes i i"
  "request_becomes q q" "report_becomes p p"
  by (simp_all add: restriction_becomes_def infraction_becomes_def appeal_becomes_def queue_becomes_def
      request_becomes_def report_becomes_def)

lemma becomes_trans:
  "restriction_becomes a b \<Longrightarrow> restriction_becomes b c \<Longrightarrow> restriction_becomes a c"
  "infraction_becomes f g \<Longrightarrow> infraction_becomes g h \<Longrightarrow> infraction_becomes f h"
  "appeal_becomes l m \<Longrightarrow> appeal_becomes m n \<Longrightarrow> appeal_becomes l n"
  "queue_becomes i j \<Longrightarrow> queue_becomes j k \<Longrightarrow> queue_becomes i k"
  "request_becomes q r \<Longrightarrow> request_becomes r s \<Longrightarrow> request_becomes q s"
  "report_becomes t u \<Longrightarrow> report_becomes u v \<Longrightarrow> report_becomes t v"
  unfolding restriction_becomes_def infraction_becomes_def appeal_becomes_def queue_becomes_def request_becomes_def
    report_becomes_def is_resolution_def lit_def
  by (auto dest: settled_status)

lemma change_becomes:
  "restriction_change r r' \<Longrightarrow> can_increase (rr_version r) \<Longrightarrow> restriction_becomes r r'"
  "infraction_change f f' \<Longrightarrow> can_increase (nf_version f) \<Longrightarrow> infraction_becomes f f'"
  "appeal_change l l' \<Longrightarrow> can_increase (pl_version l) \<Longrightarrow> appeal_becomes l l'"
  "queue_change i i' \<Longrightarrow> can_increase (qi_version i) \<Longrightarrow> queue_becomes i i'"
  "request_change db q q' \<Longrightarrow> can_increase (sq_version q) \<Longrightarrow> request_becomes q q'"
  "report_change p p' \<Longrightarrow> can_increase (rq_version p) \<Longrightarrow> report_becomes p p'"
  by (simp_all add: restriction_becomes_def infraction_becomes_def appeal_becomes_def queue_becomes_def
      request_becomes_def report_becomes_def restriction_change_def infraction_change_def appeal_change_def
      queue_change_def report_change_def request_change_def can_increase_sint)

lemma grown_increasing:
  assumes "update_increasing p v f xs = Inr ys" "\<And>x. x \<in> set xs \<Longrightarrow> p x \<Longrightarrow> can_increase (v x) \<Longrightarrow> becomes x (f x)"
    and "\<And>x. becomes x x"
  shows "grown becomes xs ys"
  using assms by (auto simp: update_increasing_Inr list_all_iff intro!: grown_update)

lemma grown_changes:
  "update_increasing p rr_version f xs = Inr ys \<Longrightarrow> (\<And>r. p r \<Longrightarrow> restriction_change r (f r)) \<Longrightarrow> grown restriction_becomes xs ys"
  "update_increasing p1 nf_version f1 xs1 = Inr ys1 \<Longrightarrow> (\<And>r. p1 r \<Longrightarrow> infraction_change r (f1 r)) \<Longrightarrow> grown infraction_becomes xs1 ys1"
  "update_increasing p2 pl_version f2 xs2 = Inr ys2 \<Longrightarrow> (\<And>r. p2 r \<Longrightarrow> appeal_change r (f2 r)) \<Longrightarrow> grown appeal_becomes xs2 ys2"
  "update_increasing p3 qi_version f3 xs3 = Inr ys3 \<Longrightarrow> (\<And>r. p3 r \<Longrightarrow> queue_change r (f3 r)) \<Longrightarrow> grown queue_becomes xs3 ys3"
  "update_increasing p4 rq_version f4 xs4 = Inr ys4 \<Longrightarrow> (\<And>r. p4 r \<Longrightarrow> report_change r (f4 r)) \<Longrightarrow> grown report_becomes xs4 ys4"
  by (erule grown_increasing; simp add: change_becomes)+

lemma history_refl [simp]: "history db db"
  by (simp add: history_def)

lemma history_core: "core db' = core db \<Longrightarrow> history db db'"
  by (simp add: history_def core_def)

lemma history_trans: "history a b \<Longrightarrow> history b d \<Longrightarrow> history a d"
  unfolding history_def by (elim conjE, intro conjI; rule grown_trans, assumption, assumption, blast intro: becomes_trans)

text \<open>The relation: requests keep their keys, and the rows their history.\<close>

definition lasting :: "moderation_tables \<Rightarrow> moderation_tables \<Rightarrow> bool" where
  "lasting db db' \<longleftrightarrow> (requests_distinct db \<longrightarrow> requests_distinct db' \<and> history db db')"

lemma lasting_same_requests: "mt_requests db' = mt_requests db \<Longrightarrow> history db db' \<Longrightarrow> lasting db db'"
  by (simp add: lasting_def requests_distinct_def)

lemma update_requests_Inr: "update_requests p f db = Inr db' \<longleftrightarrow> (\<exists>rows. update_increasing p sq_version f (mt_requests db) = Inr rows
    \<and> list_all (\<lambda>r. request_ok (f r)) (filter p (mt_requests db)) \<and> db' = db\<lparr>mt_requests := rows\<rparr>)"
  by (auto simp: update_requests_def)

lemma update_reports_Inr: "update_reports p f db = Inr db' \<longleftrightarrow> (\<exists>rows. update_increasing p rq_version f (mt_reports db) = Inr rows
    \<and> list_all (\<lambda>r. report_ok (f r)) (filter p (mt_reports db)) \<and> db' = db\<lparr>mt_reports := rows\<rparr>)"
  by (auto simp: update_reports_def)

lemma lasting_requests:
  assumes "update_requests p f db = Inr db'"
    and "\<And>q. requests_distinct db \<Longrightarrow> q \<in> set (mt_requests db) \<Longrightarrow> p q \<Longrightarrow> request_change db q (f q)"
  shows "lasting db db'"
  unfolding lasting_def
proof
  assume d: "requests_distinct db"
  from assms(1) obtain rows where up: "update_increasing p sq_version f (mt_requests db) = Inr rows"
    and db': "db' = db\<lparr>mt_requests := rows\<rparr>" by (auto simp: update_requests_Inr)
  from up have "grown request_becomes (mt_requests db) rows"
    by (rule grown_increasing) (auto intro: change_becomes assms(2) [OF d])
  moreover from up have "map sq_id rows = map sq_id (mt_requests db)"
    using assms(2) [OF d] by (auto simp: update_increasing_Inr update_rows_def request_change_def request_identity_def)
  ultimately show "requests_distinct db' \<and> history db db'" using d by (simp add: requests_distinct_def history_def db')
qed

interpretation lasting: report_rules lasting
proof (unfold_locales, goal_cases)
  case 1
  then show ?case by (intro lasting_same_requests history_core) (simp_all add: core_def)
next
  case 2
  then show ?case by (auto simp: lasting_def intro: history_trans)
next
  case 3
  then show ?case by (intro lasting_same_requests) (auto simp: insert_restriction_def history_def grown_append)
next
  case 4
  then show ?case
    by (intro lasting_same_requests) (auto simp: history_def intro: grown_changes(1))
next
  case 5
  then show ?case by (intro lasting_same_requests) (auto simp: insert_infraction_def history_def grown_append)
next
  case 6
  then show ?case
    by (intro lasting_same_requests) (auto simp: history_def intro: grown_changes(2))
next
  case 7
  then show ?case by (intro lasting_same_requests) (auto simp: history_def grown_append)
next
  case 8
  then show ?case
    by (intro lasting_same_requests) (auto simp: history_def intro: grown_changes(3))
next
  case 9
  then show ?case
    by (intro lasting_same_requests) (auto simp: history_def intro: grown_changes(4))
next
  case 10
  then show ?case by (auto simp: lasting_def requests_distinct_def history_def grown_append)
next
  case 11
  then show ?case by (rule lasting_requests)
next
  case 12
  then show ?case by (intro lasting_same_requests) (auto simp: history_def grown_append)
next
  case 13
  then show ?case
    by (intro lasting_same_requests)
      (auto simp: history_def update_reports_Inr intro: grown_changes(5))
qed

text \<open>
  C4 [record_history]: whatever is asked, no restriction, infraction, appeal, review item, request or report
  disappears; one that changes gets a greater version, what was revoked, expired or resolved stays as it was
  settled, a closed request does not change at all, and a link to a report stays.
\<close>

theorem record_history:
  "if distinct (map sq_id (mt_requests db)) then history db (moderate r now x fresh q db) else True"
  using lasting.moderate_rel [of db r now x fresh q] by (simp add: lasting_def requests_distinct_def)

end
