(* ===== verification/ModerationInvariant.thy ===== *)
theory ModerationInvariant
  imports ModerationLifecycle
begin

text \<open>
  The invariant of the moderation tables, who may end a claim, and what single operations do: the
  rules of the previous theory interpreted for these, and the properties that follow.
\<close>

section \<open>The invariant\<close>

definition pairwise_rows :: "('r \<Rightarrow> uuid) \<Rightarrow> ('r \<Rightarrow> 'r \<Rightarrow> bool) \<Rightarrow> 'r list \<Rightarrow> bool" where
  "pairwise_rows key same rows \<longleftrightarrow> list_all (\<lambda>r. list_all (\<lambda>s. same r s \<longrightarrow> key r = key s) rows) rows"

text \<open>
  Identifiers are unique, at most one active restriction of a kind stands against a subject in a place
  and at most one pending request asks for it, an infraction is enforced by a restriction of the same
  subject in the same place, claims are complete and in order, and an executed request was decided by
  another than its requester and left its restriction and infraction.
\<close>

definition cases_ok :: "moderation_tables \<Rightarrow> bool" where
  "cases_ok db \<longleftrightarrow> distinct (map rr_id (mt_restrictions db)) \<and> distinct (map nf_id (mt_infractions db))
     \<and> distinct (map rq_id (mt_reports db)) \<and> distinct (map pl_id (mt_appeals db))
     \<and> distinct (map sq_id (mt_requests db))
     \<and> pairwise_rows rr_id same_restriction (mt_restrictions db)
     \<and> pairwise_rows sq_id same_request (mt_requests db)
     \<and> list_all (\<lambda>f. enforcement_stored f db) (mt_infractions db)
     \<and> list_all report_ok (mt_reports db) \<and> list_all request_ok (mt_requests db)
     \<and> list_all (\<lambda>q. sq_status q = lit ''EXECUTED'' \<longrightarrow> executed db q) (mt_requests db)"

definition stays_ok :: "moderation_tables \<Rightarrow> moderation_tables \<Rightarrow> bool" where
  "stays_ok db db' \<longleftrightarrow> (cases_ok db \<longrightarrow> cases_ok db')"

lemma pairwise_append:
  assumes "pairwise_rows key same rows" "\<And>a b. same a b \<Longrightarrow> same b a" "\<not> list_ex (same r) rows"
  shows "pairwise_rows key same (rows @ [r])"
  using assms(1,3) assms(2) [of _ r] by (fastforce simp: pairwise_rows_def list_all_iff list_ex_iff)

lemma same_sym: "same_restriction a b \<Longrightarrow> same_restriction b a" "same_request q p \<Longrightarrow> same_request p q"
  by (auto simp: same_restriction_def same_request_def)

lemma pairwise_update: "pairwise_rows key same rows \<Longrightarrow> (\<And>r. r \<in> set rows \<Longrightarrow> p r \<Longrightarrow> key (f r) = key r) \<Longrightarrow>
    (\<And>r s. r \<in> set rows \<Longrightarrow> s \<in> set rows \<Longrightarrow> same (if p r then f r else r) (if p s then f s else s) \<Longrightarrow> same r s) \<Longrightarrow>
    pairwise_rows key same (update_rows p f rows)"
  by (auto simp: pairwise_rows_def list_all_iff update_rows_def)

text \<open>Changed restrictions and infractions still stand for what they stood for.\<close>

definition keeps_identities :: "moderation_tables \<Rightarrow> moderation_tables \<Rightarrow> bool" where
  "keeps_identities db db' \<longleftrightarrow>
     restriction_identity ` set (mt_restrictions db) \<subseteq> restriction_identity ` set (mt_restrictions db')
     \<and> infraction_identity ` set (mt_infractions db) \<subseteq> infraction_identity ` set (mt_infractions db')"

lemma enforcement_stored_kept:
  assumes "enforcement_stored f db" "keeps_identities db db'" "infraction_identity g = infraction_identity f"
  shows "enforcement_stored g db'"
proof (cases "nf_enforcement_restriction_id f")
  case None
  with assms(3) show ?thesis by (simp add: enforcement_stored_def infraction_identity_def)
next
  case (Some j)
  with assms(1) obtain r where "r \<in> set (mt_restrictions db)" "rr_id r = j" "rr_key r = nf_key f"
    by (auto simp: enforcement_stored_def list_ex_iff)
  with assms(2) obtain s where "s \<in> set (mt_restrictions db')" "restriction_identity s = restriction_identity r"
    by (auto simp: keeps_identities_def)
  with Some assms(3) \<open>rr_id r = j\<close> \<open>rr_key r = nf_key f\<close> show ?thesis
    by (auto simp: enforcement_stored_def list_ex_iff infraction_identity_def restriction_identity_def)
qed

lemma executed_kept:
  assumes "executed db q" "keeps_identities db db'"
  shows "executed db' q"
proof -
  from assms(1) obtain d i j f r where q: "sq_decided_by q = Some d" "sq_executed_infraction_id q = Some i"
    "sq_executed_restriction_id q = Some j" "d \<noteq> sq_requested_by q"
    and f: "f \<in> set (mt_infractions db)" "enforced_by q i j f" and r: "r \<in> set (mt_restrictions db)" "restricted_by q j r"
    by (auto simp: executed_def list_ex_iff split: option.splits)
  from assms(2) f(1) r(1) obtain g s where "g \<in> set (mt_infractions db')" "infraction_identity g = infraction_identity f"
    "s \<in> set (mt_restrictions db')" "restriction_identity s = restriction_identity r"
    by (fastforce simp: keeps_identities_def)
  with f(2) r(2) have "enforced_by q i j g" "restricted_by q j s"
    by (auto simp: enforced_by_def restricted_by_def infraction_identity_def restriction_identity_def)
  with q \<open>g \<in> _\<close> \<open>s \<in> _\<close> show ?thesis by (auto simp: executed_def list_ex_iff)
qed

lemma update_identities: "(\<And>r. p r \<Longrightarrow> identity (f r) = identity r) \<Longrightarrow> map identity (update_rows p f rows) = map identity rows"
  by (auto simp: update_rows_def)

lemma restrictions_changed_ok:
  assumes ok: "cases_ok db" and up: "update_increasing p rr_version f (mt_restrictions db) = Inr rows"
    and ch: "\<And>r. p r \<Longrightarrow> restriction_change r (f r)"
  shows "cases_ok (db\<lparr>mt_restrictions := rows\<rparr>)"
proof -
  let ?db = "db\<lparr>mt_restrictions := rows\<rparr>"
  from up have rows: "rows = update_rows p f (mt_restrictions db)" by (simp add: update_increasing_Inr)
  have ids: "map restriction_identity rows = map restriction_identity (mt_restrictions db)"
    unfolding rows using ch by (intro update_identities) (simp add: restriction_change_def)
  then have "map rr_id rows = map rr_id (mt_restrictions db)"
    unfolding rows using ch by (intro update_identities) (simp add: row_changes)
  moreover have "keeps_identities db ?db" using arg_cong [OF ids, of set] by (simp add: keeps_identities_def)
  moreover have "pairwise_rows rr_id same_restriction rows" unfolding rows
  proof (rule pairwise_update)
    fix r s
    have was: "rr_status (if p r then f r else r) = lit ''ACTIVE'' \<Longrightarrow> rr_status r = lit ''ACTIVE''
      \<and> rr_subject_type (if p r then f r else r) = rr_subject_type r \<and> rr_subject_id (if p r then f r else r) = rr_subject_id r
      \<and> rr_scope_type (if p r then f r else r) = rr_scope_type r \<and> rr_scope_id (if p r then f r else r) = rr_scope_id r
      \<and> rr_restriction_type (if p r then f r else r) = rr_restriction_type r" for r
      using ch [of r] by (cases "p r"; cases "rr_status r = lit ''ACTIVE''") (simp_all add: restriction_change_def row_parts)
    assume "same_restriction (if p r then f r else r) (if p s then f s else s)"
    with was [of r] was [of s] show "same_restriction r s" unfolding same_restriction_def by metis
  qed (use ok ch in \<open>auto simp: cases_ok_def row_changes\<close>)
  ultimately show ?thesis using ok
    by (auto simp: cases_ok_def list_all_iff intro: enforcement_stored_kept executed_kept)
qed

lemma infractions_changed_ok:
  assumes ok: "cases_ok db" and up: "update_increasing p nf_version f (mt_infractions db) = Inr rows"
    and ch: "\<And>r. p r \<Longrightarrow> infraction_change r (f r)"
  shows "cases_ok (db\<lparr>mt_infractions := rows\<rparr>)"
proof -
  let ?db = "db\<lparr>mt_infractions := rows\<rparr>"
  from up have rows: "rows = update_rows p f (mt_infractions db)" by (simp add: update_increasing_Inr)
  have ids: "map infraction_identity rows = map infraction_identity (mt_infractions db)"
    unfolding rows using ch by (intro update_identities) (simp add: infraction_change_def)
  have "map nf_id rows = map nf_id (mt_infractions db)"
    unfolding rows using ch by (intro update_identities) (simp add: row_changes)
  moreover have k: "keeps_identities db ?db" using arg_cong [OF ids, of set] by (simp add: keeps_identities_def)
  moreover have "list_all (\<lambda>f. enforcement_stored f ?db) rows"
    unfolding list_all_iff
  proof
    fix g
    assume "g \<in> set rows"
    then obtain r where "r \<in> set (mt_infractions db)" "infraction_identity g = infraction_identity r"
      using ch by (auto simp: rows update_rows_def infraction_change_def)
    with ok k show "enforcement_stored g ?db" by (auto simp: cases_ok_def list_all_iff intro: enforcement_stored_kept)
  qed
  ultimately show ?thesis using ok by (auto simp: cases_ok_def list_all_iff intro: executed_kept)
qed

lemma requests_changed_ok:
  assumes ok: "cases_ok db" and up: "update_requests p f db = Inr db'"
    and ch: "\<And>q. q \<in> set (mt_requests db) \<Longrightarrow> p q \<Longrightarrow> request_change db q (f q)"
  shows "cases_ok db'"
proof -
  from up obtain rows where rows: "rows = update_rows p f (mt_requests db)" and db': "db' = db\<lparr>mt_requests := rows\<rparr>"
    and checks: "list_all (\<lambda>r. request_ok (f r)) (filter p (mt_requests db))"
    by (auto simp: update_requests_Inr update_increasing_Inr)
  have "map sq_id rows = map sq_id (mt_requests db)"
    unfolding rows update_rows_def using ch by (auto simp: row_changes)
  moreover have "pairwise_rows sq_id same_request rows" unfolding rows
    by (rule pairwise_update) (use ok ch in \<open>auto simp: cases_ok_def same_request_def row_changes split: if_splits\<close>)
  moreover have "keeps_identities db db'" by (simp add: keeps_identities_def db')
  moreover have "list_all request_ok rows" using ok checks by (auto simp: rows update_rows_def cases_ok_def list_all_iff)
  moreover have "list_all (\<lambda>q. sq_status q = lit ''EXECUTED'' \<longrightarrow> executed db q) rows"
    using ok ch by (auto simp: rows update_rows_def cases_ok_def list_all_iff request_change_def)
  ultimately show ?thesis using ok
    by (auto simp: cases_ok_def list_all_iff db' intro: executed_kept enforcement_stored_kept)
qed

lemma frame_ok: "core db' = core db \<Longrightarrow> cases_ok db \<Longrightarrow> cases_ok db'"
  by (auto simp: cases_ok_def core_def list_all_iff keeps_identities_def intro: enforcement_stored_kept executed_kept)

lemma restriction_inserted_ok:
  assumes "insert_restriction r db = Inr db'" "cases_ok db"
  shows "cases_ok db'"
proof -
  from assms(1) have db': "db' = db\<lparr>mt_restrictions := mt_restrictions db @ [r]\<rparr>"
    "rr_id r \<notin> set (map rr_id (mt_restrictions db))" "\<not> list_ex (same_restriction r) (mt_restrictions db)"
    by (auto simp: insert_restriction_def)
  then have k: "keeps_identities db db'" by (auto simp: keeps_identities_def)
  have "pairwise_rows rr_id same_restriction (mt_restrictions db @ [r])"
    by (rule pairwise_append [where same = same_restriction]) (use assms(2) db'(3) same_sym in \<open>auto simp: cases_ok_def\<close>)
  moreover have "list_all (\<lambda>f. enforcement_stored f db') (mt_infractions db)"
    "list_all (\<lambda>q. sq_status q = lit ''EXECUTED'' \<longrightarrow> executed db' q) (mt_requests db)"
    using assms(2) k by (auto simp: cases_ok_def list_all_iff intro: enforcement_stored_kept executed_kept)
  ultimately show ?thesis using assms(2) db'(2) unfolding cases_ok_def db'(1) by auto
qed

lemma infraction_inserted_ok:
  assumes "insert_infraction f db = Inr db'" "enforcement_stored f db" "cases_ok db"
  shows "cases_ok db'"
proof -
  from assms(1) have db': "db' = db\<lparr>mt_infractions := mt_infractions db @ [f]\<rparr>" "nf_id f \<notin> nf_id ` set (mt_infractions db)"
    by (auto simp: insert_infraction_def)
  then have k: "keeps_identities db db'" by (auto simp: keeps_identities_def)
  have "list_all (\<lambda>f. enforcement_stored f db') (mt_infractions db @ [f])"
    "list_all (\<lambda>q. sq_status q = lit ''EXECUTED'' \<longrightarrow> executed db' q) (mt_requests db)"
    using assms(2,3) k by (auto simp: cases_ok_def list_all_iff intro: enforcement_stored_kept executed_kept)
  with assms(3) db'(2) show ?thesis unfolding cases_ok_def db'(1) by auto
qed

lemma request_inserted_ok:
  assumes "request_ok q" "sq_status q = lit ''PENDING''" "sq_id q \<notin> set (map sq_id (mt_requests db))"
    "\<not> list_ex (same_request q) (mt_requests db)" "cases_ok db"
  shows "cases_ok (db\<lparr>mt_requests := mt_requests db @ [q]\<rparr>)"
proof -
  have k: "keeps_identities db (db\<lparr>mt_requests := mt_requests db @ [q]\<rparr>)" by (simp add: keeps_identities_def)
  with assms show ?thesis
    by (auto simp: cases_ok_def list_all_iff lit_def intro!: pairwise_append [where same = same_request, OF _ same_sym(2)]
        intro: enforcement_stored_kept executed_kept)
qed

lemma reports_ok: "cases_ok db \<Longrightarrow> distinct (map rq_id rows) \<Longrightarrow> list_all report_ok rows \<Longrightarrow> cases_ok (db\<lparr>mt_reports := rows\<rparr>)"
  "cases_ok db \<Longrightarrow> distinct (map pl_id as) \<Longrightarrow> cases_ok (db\<lparr>mt_appeals := as\<rparr>)" "cases_ok db \<Longrightarrow> cases_ok (db\<lparr>mt_queue := is\<rparr>)"
  by (auto simp: cases_ok_def list_all_iff keeps_identities_def intro: enforcement_stored_kept executed_kept)


lemma reports_changed_ok:
  assumes "update_reports p f db = Inr db'" "\<And>r. p r \<Longrightarrow> report_change r (f r)" "cases_ok db"
  shows "cases_ok db'"
proof -
  from assms(1) have db': "db' = db\<lparr>mt_reports := update_rows p f (mt_reports db)\<rparr>"
    "list_all (\<lambda>r. report_ok (f r)) (filter p (mt_reports db))" by (auto simp: update_reports_Inr update_increasing_Inr)
  have "map rq_id (update_rows p f (mt_reports db)) = map rq_id (mt_reports db)"
    using assms(2) by (auto simp: update_rows_def row_changes)
  moreover have "list_all report_ok (update_rows p f (mt_reports db))"
    using db'(2) assms(3) by (auto simp: update_rows_def list_all_iff cases_ok_def)
  ultimately show ?thesis using assms(3) unfolding db'(1) by (intro reports_ok) (simp_all add: cases_ok_def)
qed

interpretation stays: report_rules stays_ok
proof (unfold_locales, unfold stays_ok_def, goal_cases)
  case 1
  then show ?case by (blast intro: frame_ok)
next
  case 2
  then show ?case by blast
next
  case 3
  then show ?case by (blast intro: restriction_inserted_ok)
next
  case 4
  then show ?case by (blast intro: restrictions_changed_ok)
next
  case 5
  then show ?case by (blast intro: infraction_inserted_ok)
next
  case 6
  then show ?case by (blast intro: infractions_changed_ok)
next
  case (7 l db)
  then show ?case by (intro impI reports_ok(2)) (auto simp: cases_ok_def)
next
  case (8 p f db ls)
  then have "map pl_id ls = map pl_id (mt_appeals db)"
    by (auto simp: update_increasing_Inr update_rows_def row_changes)
  then show ?case by (intro impI reports_ok(2)) (auto simp: cases_ok_def)
next
  case 9
  then show ?case by (intro impI reports_ok(3))
next
  case 10
  then show ?case by (blast intro: request_inserted_ok)
next
  case (11 p f db db')
  then show ?case using requests_changed_ok [OF _ 11(1) 11(2)] by (auto simp: requests_distinct_def cases_ok_def)
next
  case 12
  then show ?case by (intro impI reports_ok(1)) (auto simp: cases_ok_def)
next
  case 13
  then show ?case by (blast intro: reports_changed_ok)
qed

inductive moderations :: "moderation_repository \<Rightarrow> moderation_tables \<Rightarrow> moderation_tables \<Rightarrow> bool" for r where
  start: "moderations r db db"
| request: "moderations r db db' \<Longrightarrow> moderations r db (moderate r now x fresh q db')"

text \<open>
  C3 [moderation_invariant]: through any requests and worker runs identifiers stay unique, at most one active
  restriction of a kind stands against a subject in a place and at most one pending request asks for it, an
  infraction's restriction is of the same subject and place, claims are complete and end after they began, and
  every executed request was decided by another than its requester and left its restriction and infraction.
\<close>

theorem moderation_invariant:
  assumes "moderations r db db'" and "cases_ok db"
  shows "cases_ok db'"
  using assms
proof (induction rule: moderations.induct)
  case (request db db' now x fresh q)
  then show ?case using stays.moderate_rel [of db' r now x fresh q] by (simp add: stays_ok_def)
qed

text \<open>A blacklisting is requested by one member of the staff and approved by another.\<close>

definition staff_member :: "string \<Rightarrow> request_context" where
  "staff_member name = \<lparr>rc_request_id = [], rc_actor_id = lit name, rc_actor_type = 1, rc_service_principal = [],
     rc_idempotency_key = [], rc_trace_id = []\<rparr>"

definition sample_ids :: fresh_ids where
  "sample_ids = \<lparr>fi_id = 1, fi_enforcement = 2, fi_observation = 3, fi_assessment = 4, fi_command = 5\<rparr>"

definition blacklist_server :: staff_action where
  "blacklist_server = \<lparr>ta_action_type = lit ''GLOBAL_BLACKLIST'', ta_subject_type = lit ''SERVER'',
     ta_subject_id = lit ''s'', ta_scope_type = lit ''PLATFORM'', ta_scope_id = [], ta_report_id = None,
     ta_reason = lit ''raids'', ta_expires_at = None\<rparr>"

definition requested_tables :: moderation_tables where
  "requested_tables =
     moderate sample_moderation_repository 0 (staff_member ''a'') sample_ids (CreateStaffRequest blacklist_server)
       empty_moderation"

definition approved_tables :: moderation_tables where
  "approved_tables =
     moderate sample_moderation_repository 5 (staff_member ''b'') sample_ids (ResolveStaffRequest 1 True (lit ''seen'') 1)
       requested_tables"

lemmas sample_defs = sample_moderation_repository_def staff_member_def sample_ids_def blacklist_server_def
  empty_moderation_def empty_tables_def

lemma sample_requested: "\<exists>sh. requested_tables = empty_moderation\<lparr>mt_shared := sh, mt_requests := [\<lparr>sq_id = 1,
     sq_action_type = lit ''GLOBAL_BLACKLIST'', sq_subject_type = lit ''SERVER'', sq_subject_id = lit ''s'',
     sq_scope_type = lit ''PLATFORM'', sq_scope_id = [], sq_report_id = None, sq_requested_reason = lit ''raids'',
     sq_requested_expires_at = None, sq_requested_by = lit ''a'', sq_requested_at = 0, sq_status = lit ''PENDING'',
     sq_decided_by = None, sq_decision_reason = None, sq_decided_at = None, sq_executed_infraction_id = None,
     sq_executed_restriction_id = None, sq_expires_at = 86400, sq_version = 1\<rparr>]\<rparr>"
  by (simp add: requested_tables_def sample_defs create_staff_action_request_def idempotent_def claim_idempotency_def
      create_request_statements_def owner_check_def scope_labels_def ok_or_def instant_def constraint_def request_ok_def
      length_ok_def report_exists_def moderation_audit_def Let_def lit_def)

theorem moderation_invariant_witness:
  "cases_ok approved_tables \<and> map sq_status (mt_requests approved_tables) = [lit ''EXECUTED'']"
proof -
  have "cases_ok empty_moderation" by (simp add: cases_ok_def empty_moderation_def pairwise_rows_def)
  then have "cases_ok approved_tables"
    unfolding approved_tables_def requested_tables_def
    by (rule moderation_invariant [OF moderations.request [OF moderations.request [OF moderations.start]]])
  moreover obtain sh where sh: "requested_tables = empty_moderation\<lparr>mt_shared := sh, mt_requests := [\<lparr>sq_id = 1,
     sq_action_type = lit ''GLOBAL_BLACKLIST'', sq_subject_type = lit ''SERVER'', sq_subject_id = lit ''s'',
     sq_scope_type = lit ''PLATFORM'', sq_scope_id = [], sq_report_id = None, sq_requested_reason = lit ''raids'',
     sq_requested_expires_at = None, sq_requested_by = lit ''a'', sq_requested_at = 0, sq_status = lit ''PENDING'',
     sq_decided_by = None, sq_decision_reason = None, sq_decided_at = None, sq_executed_infraction_id = None,
     sq_executed_restriction_id = None, sq_expires_at = 86400, sq_version = 1\<rparr>]\<rparr>"
    using sample_requested by blast
  have "map sq_status (mt_requests approved_tables) = [lit ''EXECUTED'']"
    unfolding approved_tables_def sh
    by (simp add: sample_defs resolve_staff_action_request_def transaction_def
        resolve_request_statements_def owner_check_def ok_or_def execute_request_def insert_restriction_def
        constraint_def restriction_ok_def length_ok_def new_restriction_def report_exists_def insert_infraction_def
        infraction_ok_def new_infraction_def moderation_audit_def update_requests_def update_increasing_def
        can_increase_def request_ok_def decide_row_def close_request_def update_rows_def ensure_that_def Let_def lit_def)
  ultimately show ?thesis ..
qed

section \<open>Who ends a claim\<close>

definition reports_untouched :: "moderation_tables \<Rightarrow> moderation_tables \<Rightarrow> bool" where
  "reports_untouched db db' \<longleftrightarrow> mt_reports db' = mt_reports db"

interpretation same_reports: record_rules reports_untouched
  by unfold_locales
    (auto simp: reports_untouched_def core_def insert_restriction_def insert_infraction_def update_requests_Inr)

fun gives_up :: "moderation_request \<Rightarrow> rstr \<Rightarrow> uuid \<Rightarrow> rstr \<Rightarrow> bool" where
  "gives_up (UnclaimReport j v) actor i who \<longleftrightarrow> j = i \<and> actor = who"
| "gives_up (TransferReport j assignee v lease cooldown require_unclaimed bypass) actor i who \<longleftrightarrow> j = i \<and> \<not> require_unclaimed"
| "gives_up (StaffAuthorizationChanged event user) actor i who \<longleftrightarrow> user = who"
| "gives_up _ actor i who \<longleftrightarrow> False"

definition claims_kept ::
  "date_time \<Rightarrow> rstr \<Rightarrow> (uuid \<Rightarrow> bool) \<Rightarrow> report_row list \<Rightarrow> report_row list \<Rightarrow> bool" where
  "claims_kept now who ended rows rows' \<longleftrightarrow> list_all (\<lambda>r. if live_claim now who r \<and> \<not> ended (rq_id r)
     then list_ex (\<lambda>s. rq_id s = rq_id r \<and> rq_claimed_by s = Some who) rows' else True) rows"

lemma claims_kept_same [simp]: "claims_kept now who ended rows rows"
  by (auto simp: claims_kept_def list_all_iff list_ex_iff live_claim_def)

lemma untouched_kept: "reports_untouched db db' \<Longrightarrow> claims_kept now who ended (mt_reports db) (mt_reports db')"
  by (simp add: reports_untouched_def)

lemma claims_kept_append: "claims_kept now who ended rows (rows @ [r])"
  by (auto simp: claims_kept_def list_all_iff list_ex_iff live_claim_def)

lemma claims_kept_update:
  assumes "update_reports p f db = Inr db'"
    and "\<And>r. p r \<Longrightarrow> live_claim now who r \<Longrightarrow> \<not> ended (rq_id r) \<Longrightarrow> rq_id (f r) = rq_id r \<and> rq_claimed_by (f r) = Some who"
  shows "claims_kept now who ended (mt_reports db) (mt_reports db')"
  unfolding claims_kept_def list_all_iff
proof
  fix r
  assume r: "r \<in> set (mt_reports db)"
  from assms(1) have "db' = db\<lparr>mt_reports := update_rows p f (mt_reports db)\<rparr>"
    by (auto simp: update_reports_Inr update_increasing_Inr)
  then have "set (mt_reports db') = (\<lambda>r. if p r then f r else r) ` set (mt_reports db)" by (simp add: update_rows_def)
  with imageI [OF r] have "(if p r then f r else r) \<in> set (mt_reports db')" by (simp only:)
  moreover have "live_claim now who r \<and> \<not> ended (rq_id r) \<Longrightarrow>
      rq_id (if p r then f r else r) = rq_id r \<and> rq_claimed_by (if p r then f r else r) = Some who"
    using assms(2) [of r] by (simp add: live_claim_def)
  ultimately show "if live_claim now who r \<and> \<not> ended (rq_id r)
     then list_ex (\<lambda>s. rq_id s = rq_id r \<and> rq_claimed_by s = Some who) (mt_reports db') else True"
    unfolding list_ex_iff by (split if_split) blast
qed

lemma not_over: "live_claim now who r \<Longrightarrow> \<not> claim_is_over now r \<and> rq_claimed_by r = Some who"
  by (auto simp: live_claim_def claim_is_over_def split: option.splits)

lemma take_claim_kept: "claimable now cooled i v bypass r \<Longrightarrow> live_claim now who r \<Longrightarrow> False"
  by (auto dest: not_over simp: claimable_def)

lemma transfer_kept: "transferable now cooled i v u bypass r \<Longrightarrow> live_claim now who r \<Longrightarrow> rq_id r = i \<and> \<not> u"
  by (auto dest: not_over simp: transferable_def)

lemma transaction_reports:
  "(\<And>db'. statements db = Inr db' \<Longrightarrow> claims_kept now who ended (mt_reports db) (mt_reports db')) \<Longrightarrow>
   claims_kept now who ended (mt_reports db) (mt_reports (fst (transaction statements result db)))"
  by (simp add: transaction_def split: sum.split)

lemma idempotent_reports:
  assumes "\<And>db1 db2. mt_reports db1 = mt_reports db \<Longrightarrow> statements db1 = Inr db2 \<Longrightarrow>
     claims_kept now who ended (mt_reports db1) (mt_reports db2)"
  shows "claims_kept now who ended (mt_reports db) (mt_reports (fst (idempotent x operation i statements result db)))"
proof (cases "claim_idempotency x operation i db")
  case (Inl e)
  then show ?thesis by (simp add: idempotent_def)
next
  case (Inr claim)
  show ?thesis
  proof (cases claim)
    case (Inl db1)
    with Inr have "mt_reports db1 = mt_reports db" by (auto simp: claim_idempotency_def split: option.splits if_splits)
    with Inr Inl assms [of db1] show ?thesis by (simp add: idempotent_def split: sum.split)
  next
    case existing: (Inr j)
    with Inr show ?thesis by (simp add: idempotent_def)
  qed
qed

text \<open>The writes beside the one on the reports.\<close>

lemma other_writes:
  "mt_reports (moderation_audit c x a t i db) = mt_reports db"
  "update_requests p f db = Inr db' \<Longrightarrow> mt_reports db' = mt_reports db"
  "mt_reports (fold (staff_audit c event a t) is db) = mt_reports db"
  "derive_safety c x now fresh k signal v m j db = Inr db' \<Longrightarrow> mt_reports db' = mt_reports db"
  "pin_evidence i s1 s2 u db = Inr db' \<Longrightarrow> mt_reports db' = mt_reports db"
proof -
  show "mt_reports (fold (staff_audit c event a t) is db) = mt_reports db"
    by (induction "is" arbitrary: db) (simp_all add: staff_audit_def)
qed (auto simp: moderation_audit_def update_requests_Inr pin_evidence_def Let_def dest: same_reports.derive_core simp: core_def)

lemma change_report_kept:
  assumes "change_report p f m db = Inr db'"
    and "\<And>r. p r \<Longrightarrow> live_claim now who r \<Longrightarrow> \<not> ended (rq_id r) \<Longrightarrow> rq_id (f r) = rq_id r \<and> rq_claimed_by (f r) = Some who"
  shows "claims_kept now who ended (mt_reports db) (mt_reports db')"
  using assms by (auto simp: change_report_def intro: claims_kept_update)

lemma live_claim_unique: "live_claim now who r \<Longrightarrow> live_claim now v r \<Longrightarrow> v = who"
  by (simp add: live_claim_def)

lemma claims_kept_before: "mt_reports db' = rows \<Longrightarrow> claims_kept now who ended rows0 rows \<Longrightarrow>
    claims_kept now who ended rows0 (mt_reports db')"
  by simp

lemma claim_keeps: "claims_kept now who ended (mt_reports db) (mt_reports (fst (claim_report r now x i v lease cooldown bypass db)))"
  by (auto simp: claim_report_def other_writes(1) intro!: transaction_reports elim!: change_report_kept dest!: take_claim_kept [where who = who])

lemma renew_keeps: "claims_kept now who ended (mt_reports db) (mt_reports (fst (renew_report_claim r now x i v lease db)))"
  by (auto simp: renew_report_claim_def other_writes(1) live_claim_def intro!: transaction_reports elim!: change_report_kept)

lemma unclaim_keeps: "claims_kept now who (\<lambda>j. i = j \<and> rc_actor_id x = who) (mt_reports db)
    (mt_reports (fst (unclaim_report r now x i v db)))"
  by (auto simp: unclaim_report_def other_writes(1,2) live_claim_def intro!: transaction_reports elim!: change_report_kept)

lemma transfer_keeps: "claims_kept now who (\<lambda>j. i = j \<and> \<not> u) (mt_reports db)
    (mt_reports (fst (transfer_report r now x i a v lease cooldown u bypass db)))"
  by (auto simp: transfer_report_def other_writes(1,2) dest!: transfer_kept [where who = who]
      intro!: transaction_reports elim!: change_report_kept)

lemma create_report_appends:
  assumes "create_report_statements c now x fresh k u v j e db1 = Inr db3"
  shows "claims_kept now who ended (mt_reports db1) (mt_reports db3)"
proof -
  obtain st sid sct scid where k: "k = (st, sid, sct, scid)" by (cases k)
  define db2 where "db2 = db1\<lparr>mt_reports := mt_reports db1 @ [new_report now (fi_id fresh) k (rc_actor_id x) u v j]\<rparr>"
  from assms obtain a b where
    a: "(case e of None \<Rightarrow> Inr db2 | Some t \<Rightarrow> pin_evidence (fi_id fresh) sct scid t db2) = Inr a"
    and b: "(if is_assessed st then derive_safety c x now fresh k (lit ''REPORT_SUBMITTED'') f64_3 False
          (json_object [(''report_id'', JString (tx_uuid (mc_text c) (fi_id fresh))), (''report_type'', JString u)]) a
        else Inr a) = Inr b"
    and d: "db3 = moderation_audit c x ''CREATE_REPORT'' ''REPORT'' (fi_id fresh) b"
    unfolding create_report_statements_def db2_def [symmetric] Let_def
    by (auto simp: k db2_def)
  from a have "mt_reports a = mt_reports db2" by (cases e) (auto dest: other_writes(5))
  moreover from b have "mt_reports b = mt_reports a" by (auto split: if_splits dest: other_writes(4))
  ultimately have "mt_reports db3 = mt_reports db1 @ [new_report now (fi_id fresh) k (rc_actor_id x) u v j]"
    by (simp add: d other_writes(1) db2_def)
  then show ?thesis by (simp only: claims_kept_append)
qed

lemma create_report_keeps: "claims_kept now who ended (mt_reports db)
    (mt_reports (fst (create_report r now x fresh s subject t d j e db)))"
proof -
  have "claims_kept now who ended (mt_reports db) (mt_reports (fst
      (idempotent x operation i (create_report_statements c now x fresh k u v j e) result db)))" for operation i c k u v result
    by (rule idempotent_reports) (drule create_report_appends, simp only:)
  then show ?thesis by (simp add: create_report_def Let_def split: sum.split) blast
qed

lemma resolve_report_keeps: "claims_kept now who ended (mt_reports db)
    (mt_reports (fst (resolve_report c now x fresh i resolution v db)))"
proof -
  have "claims_kept now who ended (mt_reports db1) (mt_reports db2)"
    if st: "resolve_report_statements c now x fresh i resolution v db1 = Inr db2" for db1 db2
  proof -
    from st obtain a b row where
      a: "update_reports (resolvable now i v (rc_actor_id x)) (\<lambda>r. r\<lparr>rq_status := resolution, rq_resolution := Some resolution,
           rq_resolved_by := Some (rc_actor_id x), rq_resolved_at := Some now, rq_version := rq_version r + 1,
           rq_updated_at := now\<rparr>) db1 = Inr a"
      and b: "(if is_assessed (rq_subject_type row) then derive_safety c x now fresh (rq_key row)
             (if resolution = lit ''RESOLVED'' then lit ''REPORT_SUBSTANTIATED'' else lit ''REPORT_DISMISSED'')
             (if resolution = lit ''RESOLVED'' then f64_5 else f64_3) (resolution = lit ''DISMISSED'')
             (json_object [(''report_id'', JString (tx_uuid (mc_text c) i))]) a else Inr a) = Inr b"
      and db2: "db2 = moderation_audit c x ''RESOLVE_REPORT'' ''REPORT'' i b"
      unfolding resolve_report_statements_def Let_def res_bind_Inr_iff by (elim exE conjE) simp
    from b have "mt_reports db2 = mt_reports a"
      by (auto simp: db2 other_writes(1) split: if_splits dest: other_writes(4))
    moreover from a have "claims_kept now who ended (mt_reports db1) (mt_reports a)"
      by (rule claims_kept_update) (simp add: live_claim_def)
    ultimately show ?thesis by simp
  qed
  then show ?thesis by (auto simp: resolve_report_def intro!: idempotent_reports)
qed

lemma staff_change_keeps: "claims_kept now who (\<lambda>j. user = who) (mt_reports db)
    (mt_reports (worker (staff_authorization_changed c now event user) db))"
proof (cases "staff_authorization_changed c now event user db")
  case (Inl e)
  then show ?thesis by (simp add: worker_def)
next
  case (Inr db')
  from Inr obtain db1 where
    up: "update_reports (\<lambda>r. rq_claimed_by r = Some user)
           (\<lambda>r. r\<lparr>rq_claimed_by := None, rq_claimed_at := None, rq_claim_expires_at := None,
              rq_last_claim_change_at := Some now, rq_updated_at := now, rq_version := rq_version r + 1\<rparr>) db = Inr db1"
    and "mt_reports db' = mt_reports db1"
    by (auto simp: staff_authorization_changed_def Let_def other_writes(3) dest!: other_writes(2))
  note this(2) moreover from up have "claims_kept now who (\<lambda>j. user = who) (mt_reports db) (mt_reports db1)"
    by (rule claims_kept_update) (simp add: live_claim_def)
  ultimately show ?thesis using Inr by (simp add: worker_def)
qed

lemma moderate_keeps_claims:
  "claims_kept now who (\<lambda>j. gives_up q (rc_actor_id x) j who) (mt_reports db) (mt_reports (moderate r now x fresh q db))"
  by (cases q)
    (simp_all add: untouched_kept same_reports.create_restriction_rel same_reports.revoke_restriction_rel
      same_reports.update_restriction_rel same_reports.create_infraction_rel same_reports.revoke_infraction_rel
      same_reports.revoke_by_type_rel same_reports.create_appeal_rel same_reports.resolve_appeal_rel
      same_reports.record_observation_rel same_reports.recalculate_rel
      same_reports.resolve_review_rel same_reports.link_rel same_reports.create_request_rel
      same_reports.resolve_request_rel same_reports.expiry_rel create_report_keeps resolve_report_keeps claim_keeps
      renew_keeps unclaim_keeps transfer_keeps staff_change_keeps)

text \<open>
  C6 [live_claim_kept]: whatever is asked at an instant, a report whose claim is live then keeps its holder, unless
  the holder gives it back, it is transferred, or the holder's rights have changed. No claim takes it over.
\<close>

theorem live_claim_kept:
  "list_all (\<lambda>p. if live_claim now who p \<and> \<not> gives_up q (rc_actor_id x) (rq_id p) who
     then list_ex (\<lambda>s. rq_id s = rq_id p \<and> rq_claimed_by s = Some who) (mt_reports (moderate r now x fresh q db))
     else True) (mt_reports db)"
  using moderate_keeps_claims [of now who q x db r fresh] by (simp add: claims_kept_def)

section \<open>Single operations\<close>

lemma transaction_fails: "(\<And>db'. statements db = Inr db' \<Longrightarrow> False) \<Longrightarrow>
    \<exists>e. transaction statements result db = (db, Inl e)"
  by (cases "statements db") (auto simp: transaction_def)

lemma change_report_requests: "change_report p f m db = Inr db' \<Longrightarrow> mt_requests db' = mt_requests db"
  by (auto simp: change_report_def update_reports_Inr)

text \<open>
  C38 [own_request_keeps_claim]: the holder of a report who has asked for an action on it cannot give the report back
  while the request is pending: closing the request in the holder's name breaks the rule of the table that nobody
  decides on their own request, and the release is rolled back.
\<close>

theorem own_request_keeps_claim:
  "if list_ex (\<lambda>q. open_request i q \<and> sq_requested_by q = rc_actor_id x) (mt_requests db)
   then fst (unclaim_report r now x i v db) = db
      \<and> (case snd (unclaim_report r now x i v db) of Inl e \<Rightarrow> True | Inr w \<Rightarrow> False)
   else True"
proof -
  have "\<exists>e. unclaim_report r now x i v db = (db, Inl e)"
    if own: "list_ex (\<lambda>q. open_request i q \<and> sq_requested_by q = rc_actor_id x) (mt_requests db)"
    unfolding unclaim_report_def
  proof (rule transaction_fails)
    fix db'
    assume "res_bind (change_report (\<lambda>r. rq_id r = i \<and> rq_version r = v \<and> live_claim now (rc_actor_id x) r)
         (\<lambda>r. r\<lparr>rq_claimed_by := None, rq_claimed_at := None, rq_claim_expires_at := None,
            rq_last_claim_change_at := None, rq_updated_at := now, rq_version := rq_version r + 1\<rparr>)
         ''report claim ownership or version conflict'' db) (\<lambda>db1.
       res_bind (update_requests (open_request i)
         (close_request (lit ''CANCELLED'') now (Some (rc_actor_id x)) (lit ''case unclaimed'')) db1) (\<lambda>db2.
       Inr (moderation_audit (mr_context r) x ''UNCLAIM_REPORT'' ''REPORT'' i db2))) = Inr db'"
    then obtain db1 db2 where "mt_requests db1 = mt_requests db"
      and "update_requests (open_request i)
         (close_request (lit ''CANCELLED'') now (Some (rc_actor_id x)) (lit ''case unclaimed'')) db1 = Inr db2"
      unfolding res_bind_Inr_iff by (blast dest: change_report_requests)
    with own show False
      by (auto simp: update_requests_Inr list_all_iff list_ex_iff request_ok_def close_request_def)
  qed
  then show ?thesis by force
qed

text \<open>
  C39 [message_infraction_refused]: an infraction against a message is never recorded, although its checks admit a
  message as subject and so does the table of infractions: every infraction adds a safety observation, and these are
  about users and servers only.
\<close>

theorem message_infraction_refused:
  "case wi_subject w of None \<Rightarrow> True | Some subject \<Rightarrow>
     if ws_user_id subject = [] \<and> ws_server_id subject = []
     then fst (create_infraction r now x fresh w e db) = db else True"
proof -
  have "fst (create_infraction r now x fresh w e db) = db"
    if s: "wi_subject w = Some subject" and no: "ws_user_id subject = []" "ws_server_id subject = []" for subject
  proof (cases "check_infraction (mr_context r) w e")
    case (Inl err)
    then show ?thesis by (simp add: create_infraction_def)
  next
    case (Inr q)
    then have key: "fst (ir_key q) = lit ''MESSAGE''"
      using s no by (auto simp: check_infraction_def ModerationModel.primary_subject_def ok_or_def Let_def split: if_splits)
    have "create_infraction_statements r now x fresh q db1 \<noteq> Inr db2" for db1 db2
      using key by (cases "ir_key q")
        (auto simp: create_infraction_statements_def Let_def derive_safety_def insert_derived_safety_observation_def
          insert_observation_def observation_ok_def lit_def)
    then show ?thesis
      by (auto simp: create_infraction_def Inr idempotent_def split: sum.split)
  qed
  then show ?thesis by (auto split: option.split)
qed

text \<open>
  revoking all infractions of a type fails for every subject, scope and type, and changes
  nothing: the statement names eight parameters and is given seven.
\<close>

theorem pardon_by_type_fails:
  "case revoke_infractions_by_type c now x s subject t reason db of
     (db', Inl e) \<Rightarrow> db' = db | (db', Inr rows) \<Rightarrow> False"
  by (auto simp: revoke_infractions_by_type_def supplied_def ensure_that_def split: sum.split)

lemma derive_rows: "derive_safety c x now fresh k signal v m j db = Inr db' \<Longrightarrow>
    mt_restrictions db' = mt_restrictions db \<and> mt_infractions db' = mt_infractions db"
  by (drule stays.derive_core) (simp add: core_def)

lemma enforcement_revoked:
  assumes "revoke_enforcement c now x action reason j db = Inr db'"
  shows "mt_infractions db' = mt_infractions db
    \<and> (case j of None \<Rightarrow> True | Some k \<Rightarrow> list_all (\<lambda>r. rr_id r \<noteq> k \<or> rr_status r \<noteq> lit ''ACTIVE'') (mt_restrictions db'))"
proof (cases j)
  case None
  with assms show ?thesis by (simp add: revoke_enforcement_def)
next
  case (Some k)
  with assms obtain db1 where 1: "revoke_restrictions (\<lambda>r. rr_id r = k) now (rc_actor_id x) reason db = Inr db1"
    and "db' = db1 \<or> db' = moderation_audit c x action ''RESTRICTION'' k db1"
    unfolding revoke_enforcement_def by (auto split: if_splits)
  then have same: "mt_restrictions db' = mt_restrictions db1" "mt_infractions db' = mt_infractions db1"
    by (auto simp: moderation_audit_def)
  from 1 have rows: "mt_restrictions db1 = update_rows (\<lambda>r. rr_id r = k \<and> rr_status r = lit ''ACTIVE'')
       (revoke_restriction_row now (rc_actor_id x) reason) (mt_restrictions db)" and "mt_infractions db1 = mt_infractions db"
    unfolding revoke_restrictions_def by (auto simp: update_increasing_Inr)
  moreover have "rr_id r \<noteq> k \<or> rr_status r \<noteq> lit ''ACTIVE''" if "r \<in> set (mt_restrictions db1)" for r
  proof -
    from that obtain y where y: "r = (if rr_id y = k \<and> rr_status y = lit ''ACTIVE''
        then revoke_restriction_row now (rc_actor_id x) reason y else y)"
      unfolding rows update_rows_def set_map by blast
    show ?thesis
    proof (cases "rr_id y = k \<and> rr_status y = lit ''ACTIVE''")
      case True
      then show ?thesis by (simp add: y revoke_restriction_row_def lit_def)
    next
      case False
      then show ?thesis unfolding y if_not_P [OF False] by blast
    qed
  qed
  ultimately show ?thesis using Some by (simp add: same list_all_iff)
qed

lemma idempotent_cases: "fst (idempotent x operation j statements result db) = db
    \<or> (\<exists>db1. statements db1 = Inr (fst (idempotent x operation j statements result db)))"
  by (auto simp: idempotent_def split: sum.split)

definition infraction_lifted :: "uuid \<Rightarrow> i64 \<Rightarrow> rstr \<Rightarrow> rstr \<Rightarrow> moderation_tables \<Rightarrow> bool" where
  "infraction_lifted i v who reason db \<longleftrightarrow> list_ex (\<lambda>f. nf_id f = i \<and> nf_version f = v \<and> nf_status f = lit ''REVOKED''
     \<and> nf_revoked_by f = Some who \<and> nf_revoked_reason f = Some reason
     \<and> (case nf_enforcement_restriction_id f of None \<Rightarrow> True
        | Some j \<Rightarrow> list_all (\<lambda>r. rr_id r \<noteq> j \<or> rr_status r \<noteq> lit ''ACTIVE'') (mt_restrictions db))) (mt_infractions db)"

text \<open>
  C10 [enforcement_lifted]: when an infraction is revoked, it is stored as revoked by the actor with the next version,
  and the restriction that enforced it is active no longer.
\<close>

theorem enforcement_lifted:
  "let db' = fst (revoke_infraction c now x fresh i reason v db)
   in if db' = db then True else infraction_lifted i (v + 1) (rc_actor_id x) (str_trim reason) db'"
proof -
  have lifted: "infraction_lifted i (v + 1) (rc_actor_id x) (str_trim reason) db2"
    if st: "revoke_infraction_statements c now x fresh i (str_trim reason) v db1 = Inr db2" for db1 db2
  proof -
    from st obtain a b d and row :: infraction_row where
      a: "revoke_infractions (\<lambda>r. nf_id r = i \<and> nf_version r = v) now (rc_actor_id x) (str_trim reason) db1 = Inr a"
      and row: "List.find (\<lambda>r. (nf_id r = i \<and> nf_version r = v) \<and> nf_status r = lit ''ACTIVE'') (mt_infractions db1) = Some row"
      and b: "mt_infractions b = mt_infractions a"
      and d: "revoke_enforcement c now x ''REVOKE_ENFORCEMENT_RESTRICTION'' (str_trim reason)
           (nf_enforcement_restriction_id row) b = Inr d"
      and db2: "db2 = moderation_audit c x ''REVOKE_INFRACTION'' ''INFRACTION'' i d"
      unfolding revoke_infraction_statements_def Let_def
      by (auto simp: ok_or_def split: option.splits dest: derive_rows)
    let ?f = "revoke_infraction_row now (rc_actor_id x) (str_trim reason) row"
    from find_member [OF row] a have "?f \<in> set (mt_infractions a)"
      by (auto simp: revoke_infractions_def update_increasing_Inr update_rows_def)
    with b enforcement_revoked [OF d] have "?f \<in> set (mt_infractions d)" by simp
    with find_member [OF row] enforcement_revoked [OF d] show ?thesis
      by (auto simp: infraction_lifted_def db2 moderation_audit_def list_ex_iff revoke_infraction_row_def
          intro!: bexI [of _ ?f] split: option.splits)
  qed
  have "fst (revoke_infraction c now x fresh i reason v db) = db
      \<or> infraction_lifted i (v + 1) (rc_actor_id x) (str_trim reason) (fst (revoke_infraction c now x fresh i reason v db))"
    unfolding revoke_infraction_def using lifted
      idempotent_cases [of x "''REVOKE_INFRACTION''" i "revoke_infraction_statements c now x fresh i (str_trim reason) v" "get_infraction c now" db]
    by (cases "str_trim reason = []") (simp_all only: if_True if_False fst_conv simp_thms, blast)
  then show ?thesis by (auto simp only: Let_def split: if_split)
qed

end
