(* ===== verification/ModerationLists.thy ===== *)
theory ModerationLists
  imports ModerationSafety
begin

text \<open>
  The lists of the moderation repository and their pages (\<open>list_*\<close> in \<open>src/moderation/repository.rs\<close>
  with their filters, orders and cursors). A locale states what a list and its cursors must have so that
  reading page after page gives all of it; the orders of the queries are interpreted for it.
\<close>

section \<open>Pages\<close>

record 'a list_page =
  pg_items :: "'a list"
  pg_next_cursor :: rstr

text \<open>\<open>limit.clamp(1, 100)\<close>\<close>

definition page_size :: "i64 \<Rightarrow> nat" where
  "page_size limit = nat (max 1 (min 100 (sint limit)))"

definition page_cursor :: "moderation_context \<Rightarrow> ('r \<Rightarrow> uuid) \<Rightarrow> 'r list \<Rightarrow> i64 \<Rightarrow> rstr" where
  "page_cursor c key rows limit =
     (if length rows = page_size limit
      then (case rows of [] \<Rightarrow> [] | _ \<Rightarrow> tx_uuid (mc_text c) (key (last rows)))
      else [])"

definition page_of ::
  "moderation_context \<Rightarrow> ('r \<Rightarrow> uuid) \<Rightarrow> ('r \<Rightarrow> repo_error + 'a) \<Rightarrow> 'r list \<Rightarrow> i64 \<Rightarrow> repo_error + 'a list_page" where
  "page_of c key f rows limit = res_bind (try_map f rows) (\<lambda>items.
     Inr \<lparr>pg_items = items, pg_next_cursor = page_cursor c key rows limit\<rparr>)"

text \<open>\<open>ORDER BY id DESC\<close> after the condition \<open>id < cursor\<close>, and the limit\<close>

definition newest_first :: "('r \<Rightarrow> uuid) \<Rightarrow> 'r list \<Rightarrow> 'r list" where
  "newest_first key rows = rev (sort_key key rows)"

definition before :: "uuid option \<Rightarrow> uuid \<Rightarrow> bool" where
  "before cursor i = (case cursor of None \<Rightarrow> True | Some k \<Rightarrow> i < k)"

definition id_rows :: "('r \<Rightarrow> uuid) \<Rightarrow> ('r \<Rightarrow> bool) \<Rightarrow> 'r list \<Rightarrow> uuid option \<Rightarrow> 'r list" where
  "id_rows key p rows cursor = newest_first key (filter (\<lambda>r. p r \<and> before cursor (key r)) rows)"

text \<open>\<open>$n IS NULL OR column = $n\<close>, and a status as a value of its enumeration\<close>

definition matches :: "rstr option \<Rightarrow> rstr \<Rightarrow> bool" where
  "matches wanted column = (case wanted of None \<Rightarrow> True | Some s \<Rightarrow> column = s)"

definition enum_cast :: "(i32 \<times> rstr) list \<Rightarrow> rstr option \<Rightarrow> repo_error + unit" where
  "enum_cast labels s = (case s of None \<Rightarrow> Inr ()
     | Some l \<Rightarrow> ensure_that (l \<in> set (map snd labels)) ''invalid input value for enum'')"

definition subject_filter :: "wire_subject option \<Rightarrow> bool \<Rightarrow> repo_error + rstr option \<times> rstr option" where
  "subject_filter subject allow_message = (case subject of
       None \<Rightarrow> Inr (None, None)
     | Some s \<Rightarrow> res_bind (primary_subject s allow_message) (\<lambda>(t, i). Inr (Some t, Some i)))"

section \<open>Lists by identifier\<close>

definition infraction_wanted ::
  "rstr \<Rightarrow> wire_scope \<Rightarrow> rstr option \<Rightarrow> rstr option \<Rightarrow> rstr option \<Rightarrow> infraction_row \<Rightarrow> bool" where
  "infraction_wanted scope_type s t i status r \<longleftrightarrow> nf_scope_type r = scope_type \<and> nf_scope_id r = wc_id s
     \<and> matches t (nf_subject_type r) \<and> matches i (nf_subject_id r) \<and> matches status (nf_status r)"

definition list_infractions ::
  "moderation_context \<Rightarrow> date_time \<Rightarrow> wire_scope \<Rightarrow> wire_subject option \<Rightarrow> rstr option \<Rightarrow> uuid option \<Rightarrow> i64
     \<Rightarrow> moderation_tables \<Rightarrow> repo_error + wire_infraction list_page" where
  "list_infractions c now s subject status cursor limit db =
     res_bind (subject_filter subject True) (\<lambda>(t, i).
     res_bind (wire_scope_name (wc_type s)) (\<lambda>scope_type.
     res_bind (enum_cast status_labels status) (\<lambda>_.
     page_of c nf_id (infraction_from_row c now) (take (page_size limit)
       (id_rows nf_id (infraction_wanted scope_type s t i status) (mt_infractions db) cursor)) limit)))"

definition list_user_infractions ::
  "moderation_context \<Rightarrow> date_time \<Rightarrow> rstr \<Rightarrow> rstr option \<Rightarrow> uuid option \<Rightarrow> i64
     \<Rightarrow> moderation_tables \<Rightarrow> repo_error + wire_infraction list_page" where
  "list_user_infractions c now user status cursor limit db =
     res_bind (enum_cast status_labels status) (\<lambda>_.
     page_of c nf_id (infraction_from_row c now) (take (page_size limit) (id_rows nf_id
       (\<lambda>r. nf_subject_type r = lit ''USER'' \<and> nf_subject_id r = user \<and> matches status (nf_status r))
       (mt_infractions db) cursor)) limit)"

definition list_appeals ::
  "moderation_context \<Rightarrow> wire_scope \<Rightarrow> rstr option \<Rightarrow> uuid option \<Rightarrow> i64
     \<Rightarrow> moderation_tables \<Rightarrow> repo_error + wire_appeal list_page" where
  "list_appeals c s status cursor limit db =
     res_bind (wire_scope_name (wc_type s)) (\<lambda>scope_type.
     res_bind (enum_cast status_labels status) (\<lambda>_.
     page_of c pl_id (\<lambda>r. Inr (appeal_from_row c r)) (take (page_size limit) (id_rows pl_id
       (\<lambda>a. matches status (pl_status a) \<and> list_ex (\<lambda>r. nf_id r = pl_infraction_id a
          \<and> nf_scope_type r = scope_type \<and> nf_scope_id r = wc_id s) (mt_infractions db))
       (mt_appeals db) cursor)) limit))"

text \<open>\<open>context->>'field'\<close>\<close>

definition json_field :: "moderation_repository \<Rightarrow> json \<Rightarrow> string \<Rightarrow> rstr option" where
  "json_field r j field = (case Option.bind (json_as_object j) (\<lambda>m. map_of m (lit field)) of
       None \<Rightarrow> None | Some JNull \<Rightarrow> None | Some (JString s) \<Rightarrow> Some s | Some v \<Rightarrow> Some (mr_json_text r v))"

definition has_field :: "moderation_repository \<Rightarrow> report_row \<Rightarrow> string \<Rightarrow> rstr option \<Rightarrow> bool" where
  "has_field r p field wanted \<longleftrightarrow> wanted = None \<or> json_field r (rq_context p) field = wanted"

text \<open>A search in the reports: not escaped, so the escape is the backslash.\<close>

definition found_in_report :: "moderation_repository \<Rightarrow> rstr option \<Rightarrow> report_row \<Rightarrow> bool" where
  "found_in_report r query p = (case query of None \<Rightarrow> True | Some q \<Rightarrow>
     (let found = ilike 92 (mr_fold_case r) (lit ''%'' @ q @ lit ''%'');
          in_field = (\<lambda>field. case json_field r (rq_context p) field of None \<Rightarrow> False | Some s \<Rightarrow> found s)
      in found (rq_description p) \<or> found (rq_reporter_id p) \<or> in_field ''reported_user_id''
         \<or> in_field ''reported_server_id''))"

record report_query =
  rf_scope :: "wire_scope option"
  rf_status :: "rstr option"
  rf_query :: "rstr option"
  rf_reporter_id :: "rstr option"
  rf_user_id :: "rstr option"
  rf_server_id :: "rstr option"
  rf_type :: "rstr option"

definition list_reports ::
  "moderation_repository \<Rightarrow> report_query \<Rightarrow> uuid option \<Rightarrow> i64
     \<Rightarrow> moderation_tables \<Rightarrow> repo_error + wire_report list_page" where
  "list_reports r q cursor limit db =
     (let c = mr_context r in
      res_bind (case rf_scope q of None \<Rightarrow> Inr (None, None)
        | Some s \<Rightarrow> res_bind (wire_scope_name (wc_type s)) (\<lambda>t. Inr (Some t, Some (wc_id s)))) (\<lambda>(scope_type, scope_id).
      res_bind (enum_cast status_labels (rf_status q)) (\<lambda>_.
      page_of c rq_id (\<lambda>p. report_from_row c p (List.find (\<lambda>e. es_report_id e = rq_id p) (mt_snapshots db)))
        (take (page_size limit) (id_rows rq_id
          (\<lambda>p. matches scope_type (rq_scope_type p) \<and> matches scope_id (rq_scope_id p)
             \<and> matches (rf_status q) (rq_status p) \<and> found_in_report r (rf_query q) p
             \<and> matches (rf_reporter_id q) (rq_reporter_id p) \<and> has_field r p ''reported_user_id'' (rf_user_id q)
             \<and> has_field r p ''reported_server_id'' (rf_server_id q) \<and> matches (rf_type q) (rq_report_type p))
          (mt_reports db) cursor)) limit)))"

text \<open>Review items come by priority, but the cursor is still the identifier.\<close>

definition review_rows :: "(queue_row \<Rightarrow> bool) \<Rightarrow> queue_row list \<Rightarrow> uuid option \<Rightarrow> queue_row list" where
  "review_rows p rows cursor = sort_key (\<lambda>r. sint (qi_priority r)) (id_rows qi_id p rows cursor)"

definition review_wanted :: "rstr \<Rightarrow> rstr \<Rightarrow> rstr option \<Rightarrow> rstr option \<Rightarrow> queue_row \<Rightarrow> bool" where
  "review_wanted scope_type scope_id queue status r \<longleftrightarrow> qi_scope_type r = scope_type \<and> qi_scope_id r = scope_id
     \<and> matches queue (qi_queue r) \<and> matches status (qi_status r)"

definition list_review_items ::
  "moderation_context \<Rightarrow> wire_scope \<Rightarrow> rstr option \<Rightarrow> rstr option \<Rightarrow> uuid option \<Rightarrow> i64
     \<Rightarrow> moderation_tables \<Rightarrow> repo_error + wire_review_item list_page" where
  "list_review_items c s queue status cursor limit db =
     res_bind (wire_scope_name (wc_type s)) (\<lambda>scope_type.
     res_bind (enum_cast status_labels status) (\<lambda>_.
     page_of c qi_id (review_from_row c) (take (page_size limit)
       (review_rows (review_wanted scope_type (wc_id s) queue status) (mt_queue db) cursor)) limit))"

section \<open>Evidence of a report\<close>

record evidence_page =
  ep_action_ids :: "(u64 \<times> uuid) list"
  ep_next_cursor :: rstr
  ep_snapshot :: wire_evidence

definition evidence_rows :: "snapshot_row \<Rightarrow> evidence_row list \<Rightarrow> i64 option \<Rightarrow> evidence_row list" where
  "evidence_rows n rows after = sort_key (\<lambda>e. sint (cv_sequence e)) (filter (\<lambda>e. cv_lobby_id e = es_lobby_id n
     \<and> sint (es_first_sequence n) \<le> sint (cv_sequence e) \<and> sint (cv_sequence e) \<le> sint (es_last_sequence n)
     \<and> (case after of None \<Rightarrow> True | Some k \<Rightarrow> sint k < sint (cv_sequence e))) rows)"

definition list_report_evidence ::
  "moderation_context \<Rightarrow> uuid \<Rightarrow> i64 option \<Rightarrow> i64 \<Rightarrow> moderation_tables \<Rightarrow> repo_error + evidence_page" where
  "list_report_evidence c report after limit db =
     res_bind (fetch_one (\<lambda>e. es_report_id e = report) (mt_snapshots db)) (\<lambda>n.
     let rows = take (page_size limit) (evidence_rows n (mt_evidence db) after)
     in Inr \<lparr>ep_action_ids = map (\<lambda>e. (cv_sequence e, cv_action_id e)) rows,
          ep_next_cursor = (if length rows = page_size limit \<and> rows \<noteq> [] \<and> cv_sequence (last rows) < es_last_sequence n
            then show_nat (unat (cv_sequence (last rows))) else []),
          ep_snapshot = evidence_of_row c n\<rparr>)"

section \<open>Sorted lists\<close>

definition normalize_restriction_sort :: "rstr \<Rightarrow> repo_error + rstr" where
  "normalize_restriction_sort v =
     (if v = [] then Inr (lit ''id_desc'')
      else if v \<in> {lit ''created_at_desc'', lit ''created_at_asc'', lit ''expires_at_asc''} then Inr v
      else Inl (Refused (lit ''unsupported restriction sort: '' @ v)))"

definition normalize_moderation_record_sort :: "rstr \<Rightarrow> repo_error + rstr" where
  "normalize_moderation_record_sort v =
     (if v = [] then Inr (lit ''created_at_desc'')
      else if v \<in> {lit ''created_at_desc'', lit ''created_at_asc'', lit ''expires_at_asc''} then Inr v
      else Inl (Refused (lit ''unsupported moderation record sort: '' @ v)))"

text \<open>What the orders and cursors look at in a row.\<close>

record sort_columns =
  sc_created_at :: date_time
  sc_expires_at :: "date_time option"
  sc_id :: uuid

text \<open>A stable sort by the last column first; rows that never expire come last.\<close>

definition expiry_rank :: "date_time option \<Rightarrow> nat" where
  "expiry_rank e = (case e of None \<Rightarrow> 1 | Some _ \<Rightarrow> 0)"

definition expiry_instant :: "date_time option \<Rightarrow> date_time" where
  "expiry_instant e = (case e of None \<Rightarrow> 0 | Some t \<Rightarrow> t)"

definition in_order :: "rstr \<Rightarrow> ('r \<Rightarrow> sort_columns) \<Rightarrow> 'r list \<Rightarrow> 'r list" where
  "in_order sorted_by cols rows =
     (let by_id = sort_key (\<lambda>r. sc_id (cols r)) rows;
          by_creation = sort_key (\<lambda>r. sc_created_at (cols r)) by_id
      in if sorted_by = lit ''id_desc'' then rev by_id
         else if sorted_by = lit ''created_at_asc'' then by_creation
         else if sorted_by = lit ''expires_at_asc''
         then sort_key (\<lambda>r. expiry_rank (sc_expires_at (cols r)))
           (sort_key (\<lambda>r. expiry_instant (sc_expires_at (cols r))) by_id)
         else rev by_creation)"

definition parse_restriction_cursor :: "moderation_repository \<Rightarrow> rstr \<Rightarrow> rstr \<Rightarrow> repo_error + list_cursor option" where
  "parse_restriction_cursor r v sorted_by =
     (if v = [] then Inr None
      else if sorted_by = lit ''id_desc''
      then res_bind (parse_uuid (mr_context r) v) (\<lambda>i.
        Inr (Some \<lparr>lc_sort = sorted_by, lc_created_at = None, lc_expires_at = None, lc_id = i\<rparr>))
      else res_bind (map_err Refused (mr_read_cursor r v)) (\<lambda>k.
        res_bind (ensure_that (lc_sort k = sorted_by) ''restriction cursor sort does not match request'') (\<lambda>_. Inr (Some k))))"

definition parse_moderation_record_cursor ::
  "moderation_repository \<Rightarrow> rstr \<Rightarrow> rstr \<Rightarrow> repo_error + list_cursor option" where
  "parse_moderation_record_cursor r v sorted_by =
     (if v = [] then Inr None
      else res_bind (map_err Refused (mr_read_cursor r v)) (\<lambda>k.
        res_bind (ensure_that (lc_sort k = sorted_by) ''moderation record cursor sort does not match request'') (\<lambda>_.
        res_bind (ensure_that (sorted_by \<in> {lit ''created_at_desc'', lit ''created_at_asc''} \<longrightarrow> lc_created_at k \<noteq> None)
          ''moderation record cursor is missing created_at'') (\<lambda>_. Inr (Some k)))))"

text \<open>A comparison with a missing column selects no row.\<close>

definition past_cursor :: "rstr \<Rightarrow> list_cursor option \<Rightarrow> sort_columns \<Rightarrow> bool" where
  "past_cursor sorted_by cursor x = (case cursor of None \<Rightarrow> True | Some k \<Rightarrow>
     if sorted_by = lit ''created_at_desc''
     then (case lc_created_at k of None \<Rightarrow> False
       | Some t \<Rightarrow> sc_created_at x < t \<or> sc_created_at x = t \<and> sc_id x < lc_id k)
     else if sorted_by = lit ''created_at_asc''
     then (case lc_created_at k of None \<Rightarrow> False
       | Some t \<Rightarrow> t < sc_created_at x \<or> sc_created_at x = t \<and> lc_id k < sc_id x)
     else if sorted_by = lit ''expires_at_asc''
     then (case lc_expires_at k of
         Some t \<Rightarrow> (case sc_expires_at x of None \<Rightarrow> True | Some e \<Rightarrow> t < e \<or> e = t \<and> lc_id k < sc_id x)
       | None \<Rightarrow> sc_expires_at x = None \<and> lc_id k < sc_id x)
     else sc_id x < lc_id k)"

definition column_cursor :: "rstr \<Rightarrow> sort_columns \<Rightarrow> list_cursor" where
  "column_cursor sorted_by x = \<lparr>lc_sort = sorted_by, lc_created_at = Some (sc_created_at x), lc_expires_at = sc_expires_at x,
     lc_id = sc_id x\<rparr>"

definition moderation_record_page_cursor ::
  "moderation_repository \<Rightarrow> ('r \<Rightarrow> sort_columns) \<Rightarrow> rstr \<Rightarrow> 'r list \<Rightarrow> repo_error + rstr" where
  "moderation_record_page_cursor r cols sorted_by rows =
     (if rows = [] then Inr [] else map_err Refused (mr_write_cursor r (column_cursor sorted_by (cols (last rows)))))"

definition restriction_page_cursor ::
  "moderation_repository \<Rightarrow> ('r \<Rightarrow> sort_columns) \<Rightarrow> rstr \<Rightarrow> 'r list \<Rightarrow> repo_error + rstr" where
  "restriction_page_cursor r cols sorted_by rows =
     (if rows = [] then Inr []
      else if sorted_by = lit ''id_desc'' then Inr (tx_uuid (mc_text (mr_context r)) (sc_id (cols (last rows))))
      else moderation_record_page_cursor r cols sorted_by rows)"

record 'a counted_page =
  cp_items :: "'a list"
  cp_next_cursor :: rstr
  cp_total_count :: u64

section \<open>Restrictions\<close>

definition restriction_columns :: "restriction_row \<Rightarrow> sort_columns" where
  "restriction_columns r = \<lparr>sc_created_at = rr_created_at r, sc_expires_at = rr_expires_at r, sc_id = rr_id r\<rparr>"

record restriction_query =
  rt_scope :: wire_scope
  rt_subject :: "wire_subject option"
  rt_status :: "rstr option"
  rt_type :: "rstr option"
  rt_subject_type :: "rstr option"
  rt_subject_id :: "rstr option"
  rt_created_by :: "rstr option"
  rt_search :: "rstr option"

definition searched :: "moderation_repository \<Rightarrow> rstr option \<Rightarrow> rstr list \<Rightarrow> bool" where
  "searched r pattern texts = (case pattern of None \<Rightarrow> True
     | Some p \<Rightarrow> list_ex (ilike (ch (CHR ''!'')) (mr_fold_case r) p) texts)"

definition restriction_wanted ::
  "moderation_repository \<Rightarrow> restriction_query \<Rightarrow> rstr \<Rightarrow> rstr option \<Rightarrow> rstr option \<Rightarrow> restriction_row \<Rightarrow> bool" where
  "restriction_wanted r q scope_type subject_type subject_id row \<longleftrightarrow>
     rr_scope_type row = scope_type \<and> rr_scope_id row = wc_id (rt_scope q)
     \<and> matches subject_type (rr_subject_type row) \<and> matches subject_id (rr_subject_id row)
     \<and> matches (rt_status q) (rr_status row) \<and> matches (rt_type q) (rr_restriction_type row)
     \<and> matches (rt_created_by q) (rr_created_by row)
     \<and> searched r (map_option like_pattern (rt_search q)) [rr_subject_id row, rr_reason row, rr_created_by row]"

definition or_else :: "'a option \<Rightarrow> 'a option \<Rightarrow> 'a option" where
  "or_else a b = (case a of None \<Rightarrow> b | Some x \<Rightarrow> Some x)"

definition fetch_size :: "i64 \<Rightarrow> nat" where
  "fetch_size limit = min 100 (page_size limit + 1)"

definition list_restrictions ::
  "moderation_repository \<Rightarrow> date_time \<Rightarrow> restriction_query \<Rightarrow> rstr \<Rightarrow> rstr \<Rightarrow> i64 \<Rightarrow> bool
     \<Rightarrow> moderation_tables \<Rightarrow> repo_error + wire_restriction counted_page" where
  "list_restrictions r now q sorted_by cursor limit counted db =
     res_bind (subject_filter (rt_subject q) False) (\<lambda>(t, i).
     res_bind (wire_scope_name (wc_type (rt_scope q))) (\<lambda>scope_type.
     res_bind (normalize_restriction_sort sorted_by) (\<lambda>sorted_by.
     res_bind (parse_restriction_cursor r cursor sorted_by) (\<lambda>cursor.
     res_bind (enum_cast status_labels (rt_status q)) (\<lambda>_.
     let wanted = filter (restriction_wanted r q scope_type (or_else (rt_subject_type q) t) (or_else (rt_subject_id q) i))
           (mt_restrictions db);
         fetched = take (fetch_size limit) (in_order sorted_by restriction_columns
           (filter (\<lambda>row. past_cursor sorted_by cursor (restriction_columns row)) wanted));
         has_more = page_size limit < length fetched;
         rows = (if has_more then take (page_size limit) fetched else fetched)
     in res_bind (if has_more then restriction_page_cursor r restriction_columns sorted_by rows else Inr []) (\<lambda>next_cursor.
        res_bind (try_map (restriction_from_row (mr_context r) now) rows) (\<lambda>items.
        Inr \<lparr>cp_items = items, cp_next_cursor = next_cursor,
          cp_total_count = (if counted then of_nat (length wanted) else 0)\<rparr>)))))))"

section \<open>Moderation records\<close>

datatype record_row = RestrictionRecord restriction_row | InfractionRecord infraction_row

fun record_columns :: "record_row \<Rightarrow> sort_columns" where
  "record_columns (RestrictionRecord r) = restriction_columns r"
| "record_columns (InfractionRecord r) = \<lparr>sc_created_at = nf_created_at r, sc_expires_at = nf_expires_at r, sc_id = nf_id r\<rparr>"

text \<open>The branches of the query that the selected kinds add.\<close>

definition has_kind :: "string \<Rightarrow> (rstr, unit) btree_map \<Rightarrow> bool" where
  "has_kind kind kinds \<longleftrightarrow> map_of kinds (lit kind) \<noteq> None"

fun record_selected :: "(rstr, unit) btree_map \<Rightarrow> record_row \<Rightarrow> bool" where
  "record_selected kinds (RestrictionRecord r) \<longleftrightarrow> has_kind ''BLACKLIST'' kinds \<and> is_blacklist r"
| "record_selected kinds (InfractionRecord r) \<longleftrightarrow>
     has_kind ''WARNING'' kinds \<and> nf_infraction_type r = lit ''WARNING'' \<and> nf_scope_type r \<noteq> lit ''LOBBY''
     \<or> has_kind ''LOBBY_WARNING'' kinds \<and> nf_infraction_type r = lit ''WARNING'' \<and> nf_scope_type r = lit ''LOBBY''
     \<or> has_kind ''LOBBY_BAN'' kinds \<and> nf_infraction_type r = lit ''BAN''
        \<and> (nf_scope_type r = lit ''PRODUCT'' \<or> nf_scope_type r = lit ''LOBBY'')"

record record_query =
  rk_subject_type :: "rstr option"
  rk_subject_id :: "rstr option"
  rk_created_by :: "rstr option"
  rk_search :: "rstr option"
  rk_status :: "rstr option"

fun record_wanted :: "moderation_repository \<Rightarrow> record_query \<Rightarrow> record_row \<Rightarrow> bool" where
  "record_wanted r q (RestrictionRecord row) \<longleftrightarrow>
     matches (rk_subject_type q) (rr_subject_type row) \<and> matches (rk_subject_id q) (rr_subject_id row)
     \<and> matches (rk_created_by q) (rr_created_by row)
     \<and> searched r (map_option like_pattern (rk_search q))
          [rr_subject_id row, rr_scope_id row, rr_reason row, rr_created_by row]"
| "record_wanted r q (InfractionRecord row) \<longleftrightarrow>
     matches (rk_subject_type q) (nf_subject_type row) \<and> matches (rk_subject_id q) (nf_subject_id row)
     \<and> matches (rk_created_by q) (nf_created_by row)
     \<and> searched r (map_option like_pattern (rk_search q))
          [nf_subject_id row, nf_scope_id row, nf_reason row, nf_created_by row]"

fun moderation_record_from_row :: "moderation_context \<Rightarrow> date_time \<Rightarrow> record_row \<Rightarrow> repo_error + moderation_record" where
  "moderation_record_from_row c now (RestrictionRecord r) = restriction_record c now r"
| "moderation_record_from_row c now (InfractionRecord r) = infraction_record c now r"

text \<open>
  The filter on the status: the union has the statuses as texts (\<open>status::text AS status\<close>), and
  the database has no operator that compares a text with a value of the enumeration.
\<close>

definition status_condition :: "rstr option \<Rightarrow> repo_error + unit" where
  "status_condition status =
     ensure_that (status = None) ''operator does not exist: text = trust_safety.resource_status''"

definition list_moderation_records ::
  "moderation_repository \<Rightarrow> date_time \<Rightarrow> i32 list \<Rightarrow> record_query \<Rightarrow> rstr \<Rightarrow> rstr \<Rightarrow> i64 \<Rightarrow> bool
     \<Rightarrow> moderation_tables \<Rightarrow> repo_error + moderation_record counted_page" where
  "list_moderation_records r now kinds q sorted_by cursor limit counted db =
     res_bind (moderation_kind_names kinds) (\<lambda>selected.
     res_bind (normalize_moderation_record_sort sorted_by) (\<lambda>sorted_by.
     res_bind (parse_moderation_record_cursor r cursor sorted_by) (\<lambda>cursor.
     res_bind (status_condition (rk_status q)) (\<lambda>_.
     let filtered = filter (\<lambda>x. record_selected selected x \<and> record_wanted r q x)
           (map RestrictionRecord (mt_restrictions db) @ map InfractionRecord (mt_infractions db));
         fetched = take (page_size limit + 1) (in_order sorted_by record_columns
           (filter (\<lambda>x. past_cursor sorted_by cursor (record_columns x)) filtered));
         has_more = page_size limit < length fetched;
         rows = (if has_more then take (page_size limit) fetched else fetched)
     in res_bind (if has_more then moderation_record_page_cursor r record_columns sorted_by rows else Inr []) (\<lambda>next_cursor.
        res_bind (try_map (moderation_record_from_row (mr_context r) now) rows) (\<lambda>items.
        Inr \<lparr>cp_items = items, cp_next_cursor = next_cursor,
          cp_total_count = (if counted \<and> fetched \<noteq> [] then of_nat (length filtered) else 0)\<rparr>))))))"

section \<open>Reading page after page\<close>

text \<open>What a client does: it asks for pages until one has no cursor.\<close>

fun follow ::
  "moderation_context \<Rightarrow> (uuid option \<Rightarrow> repo_error + 'a list_page) \<Rightarrow> nat \<Rightarrow> uuid option \<Rightarrow> repo_error + 'a list" where
  "follow c fetch 0 k = Inl OutOfRange"
| "follow c fetch (Suc n) k = res_bind (fetch k) (\<lambda>p.
     if pg_next_cursor p = [] then Inr (pg_items p)
     else res_bind (parse_uuid c (pg_next_cursor p)) (\<lambda>i.
          res_bind (follow c fetch n (Some i)) (\<lambda>more. Inr (pg_items p @ more))))"

fun read_pages :: "('k option \<Rightarrow> 'r list) \<Rightarrow> ('r \<Rightarrow> 'k) \<Rightarrow> nat \<Rightarrow> nat \<Rightarrow> 'k option \<Rightarrow> 'r list" where
  "read_pages rest key n 0 k = []"
| "read_pages rest key n (Suc m) k = (let p = take n (rest k) in
     if p \<noteq> [] \<and> length p = n then p @ read_pages rest key n m (Some (key (last p))) else p)"

lemma bind_assoc: "res_bind (res_bind r f) g = res_bind r (\<lambda>x. res_bind (f x) g)"
  by (cases r) auto

lemma bind_return: "res_bind r Inr = r"
  by (cases r) auto

lemma try_map_pages: "try_map f (xs @ ys) = res_bind (try_map f xs) (\<lambda>as. res_bind (try_map f ys) (\<lambda>bs. Inr (as @ bs)))"
  by (induction xs) (simp_all add: bind_assoc bind_return)

text \<open>The rows after a cursor are those that follow the row of the cursor.\<close>

locale listing =
  fixes rest :: "'k option \<Rightarrow> 'r list" and key :: "'r \<Rightarrow> 'k"
  assumes after_row: "rest k = xs @ r # ys \<Longrightarrow> key r \<notin> key ` set ys \<Longrightarrow> rest (Some (key r)) = ys"
begin

lemma after_page:
  assumes "distinct (map key (rest k))" "0 < n" "length (take n (rest k)) = n"
  shows "take n (rest k) \<noteq> [] \<and> rest (Some (key (last (take n (rest k))))) = drop n (rest k)"
proof -
  let ?p = "take n (rest k)"
  from assms have "?p \<noteq> []" by auto
  then have "rest k = butlast ?p @ last ?p # drop n (rest k)"
    by (metis append.assoc append_Cons append_Nil append_butlast_last_id append_take_drop_id)
  moreover from this assms(1) have "key (last ?p) \<notin> key ` set (drop n (rest k))"
    by (metis disjoint_iff distinct.simps(2) distinct_append list.simps(9) list.set_map map_append)
  ultimately show ?thesis using after_row \<open>?p \<noteq> []\<close> by blast
qed

lemma pages_complete:
  "0 < n \<Longrightarrow> distinct (map key (rest k)) \<Longrightarrow> length (rest k) < m \<Longrightarrow> read_pages rest key n m k = rest k"
proof (induction m arbitrary: k)
  case 0
  then show ?case by simp
next
  case (Suc m)
  show ?case
  proof (cases "length (take n (rest k)) = n")
    case True
    note next_page = after_page [OF Suc.prems(2,1) True]
    with Suc.prems True have "read_pages rest key n m (Some (key (last (take n (rest k))))) = drop n (rest k)"
      by (subst Suc.IH) (auto simp: drop_map [symmetric] distinct_drop)
    with next_page True show ?thesis by (simp add: Let_def)
  next
    case False
    then show ?thesis by (auto simp: Let_def min_def split: if_splits)
  qed
qed

end

text \<open>Lists whose cursors are identifiers, read through their answers.\<close>

locale id_listing = listing rest key for rest :: "uuid option \<Rightarrow> 'r list" and key :: "'r \<Rightarrow> uuid"
begin

lemma follow_complete:
  assumes fetch: "\<And>k. fetch k = page_of c key f (take (page_size limit) (rest k)) limit"
    and texts: "\<And>i. mc_parse_uuid c (tx_uuid (mc_text c) i) = Some i" "\<And>i. tx_uuid (mc_text c) i \<noteq> []"
  shows "distinct (map key (rest k)) \<Longrightarrow> length (rest k) < m \<Longrightarrow> follow c fetch m k = try_map f (rest k)"
proof (induction m arbitrary: k)
  case 0
  then show ?case by simp
next
  case (Suc m)
  let ?p = "take (page_size limit) (rest k)"
  have pos: "0 < page_size limit" by (simp add: page_size_def)
  show ?case
  proof (cases "length ?p = page_size limit")
    case True
    from after_page [OF Suc.prems(1) pos True] have ne: "?p \<noteq> []"
      and drop: "rest (Some (key (last ?p))) = drop (page_size limit) (rest k)" by auto
    from Suc.prems pos True have "follow c fetch m (Some (key (last ?p))) = try_map f (drop (page_size limit) (rest k))"
      by (subst Suc.IH) (auto simp: drop drop_map [symmetric] distinct_drop)
    moreover from ne have "page_cursor c key ?p limit = tx_uuid (mc_text c) (key (last ?p))"
      using True by (auto simp: page_cursor_def split: list.splits)
    then have "fetch k = res_bind (try_map f ?p) (\<lambda>items.
        Inr \<lparr>pg_items = items, pg_next_cursor = tx_uuid (mc_text c) (key (last ?p))\<rparr>)"
      by (simp only: fetch page_of_def)
    moreover have "try_map f (rest k) = res_bind (try_map f ?p) (\<lambda>as.
        res_bind (try_map f (drop (page_size limit) (rest k))) (\<lambda>bs. Inr (as @ bs)))"
      unfolding try_map_pages [symmetric] by simp
    ultimately show ?thesis
      using texts by (simp add: parse_uuid_def ok_or_def bind_assoc)
  next
    case False
    then have "rest k = ?p" by (auto simp: min_def split: if_splits)
    moreover from False have "page_cursor c key ?p limit = []" unfolding page_cursor_def by (simp only: if_False)
    ultimately have "fetch k = res_bind (try_map f (rest k)) (\<lambda>items. Inr \<lparr>pg_items = items, pg_next_cursor = []\<rparr>)"
      by (simp only: fetch page_of_def)
    then show ?thesis by (simp add: bind_assoc bind_return)
  qed
qed

end

lemma id_rows_after:
  assumes "before k (key r)"
  shows "id_rows key p rows (Some (key r)) = filter (\<lambda>x. key x < key r) (id_rows key p rows k)"
proof -
  have "filter (\<lambda>x. p x \<and> before (Some (key r)) (key x)) rows = filter (\<lambda>x. key x < key r) (filter (\<lambda>x. p x \<and> before k (key x)) rows)"
    using assms by (auto simp: before_def split: option.splits intro!: filter_cong)
  then show ?thesis by (simp add: id_rows_def newest_first_def filter_sort rev_filter [symmetric])
qed

lemma id_rows_sorted: "sorted_wrt (\<lambda>x y. key y \<le> key x) (id_rows key p rows k)"
proof -
  have "sorted_wrt (\<lambda>x y. key x \<le> key y) (sort_key key rs)" for rs
    using sorted_sort_key [of key rs] by (simp add: sorted_map)
  then show ?thesis by (simp add: id_rows_def newest_first_def sorted_wrt_rev)
qed

lemma set_id_rows: "set (id_rows key p rows k) = {r \<in> set rows. p r \<and> before k (key r)}"
  by (simp add: id_rows_def newest_first_def)

interpretation by_id: id_listing "id_rows key p rows" key for key :: "'r \<Rightarrow> uuid" and p rows
proof
  fix k xs r ys
  assume split: "id_rows key p rows k = xs @ r # ys" and new: "key r \<notin> key ` set ys"
  from split have "before k (key r)" using set_id_rows [of key p rows k] by auto
  moreover have "key r \<le> key x" if "x \<in> set xs" for x
    using id_rows_sorted [of key p rows k] that unfolding split by (auto simp: sorted_wrt_append)
  moreover have "key y < key r" if "y \<in> set ys" for y
  proof -
    have "key y \<le> key r" using id_rows_sorted [of key p rows k] that unfolding split by (simp add: sorted_wrt_append)
    moreover have "key y \<noteq> key r" using new that by (metis image_eqI)
    ultimately show ?thesis by simp
  qed
  ultimately have "filter (\<lambda>x. key x < key r) xs = []" "filter (\<lambda>x. key x < key r) ys = ys"
    by (auto simp: filter_empty_conv filter_id_conv not_less)
  with id_rows_after [of k key r p rows] \<open>before k (key r)\<close> show "id_rows key p rows (Some (key r)) = ys"
    by (simp add: split)
qed

interpretation by_sequence: listing "evidence_rows n rows" cv_sequence for n rows
proof
  fix k xs r ys
  assume split: "evidence_rows n rows k = xs @ r # ys" and new: "cv_sequence r \<notin> cv_sequence ` set ys"
  let ?s = "\<lambda>e. sint (cv_sequence e)"
  have set: "set (evidence_rows n rows k) = {e \<in> set rows. cv_lobby_id e = es_lobby_id n \<and> sint (es_first_sequence n) \<le> ?s e
     \<and> ?s e \<le> sint (es_last_sequence n) \<and> (case k of None \<Rightarrow> True | Some j \<Rightarrow> sint j < ?s e)}" for k
    by (simp add: evidence_rows_def)
  have "r \<in> set (evidence_rows n rows k)" by (simp add: split)
  then have past: "case k of None \<Rightarrow> True | Some j \<Rightarrow> sint j < ?s r" by (simp only: set) simp
  have "evidence_rows n rows (Some (cv_sequence r)) = filter (\<lambda>e. ?s r < ?s e) (evidence_rows n rows k)"
    unfolding evidence_rows_def filter_sort filter_filter
    by (rule arg_cong [where f = "sort_key ?s"], rule filter_cong) (use past in \<open>auto split: option.splits\<close>)
  moreover have sorted: "sorted_wrt (\<lambda>x y. ?s x \<le> ?s y) (xs @ r # ys)"
    unfolding split [symmetric] evidence_rows_def using sorted_sort_key [of ?s] by (simp add: sorted_map)
  moreover from sorted have "\<not> ?s r < ?s x" if "x \<in> set xs" for x
    using that by (auto simp: sorted_wrt_append not_less)
  moreover from sorted new have "?s r < ?s y" if "y \<in> set ys" for y
  proof -
    have "?s r \<le> ?s y" using sorted that by (simp add: sorted_wrt_append)
    moreover have "?s r \<noteq> ?s y" using new that by (metis image_eqI signed_word_eqI)
    ultimately show ?thesis by simp
  qed
  ultimately show "evidence_rows n rows (Some (cv_sequence r)) = ys"
    unfolding split by (auto simp: filter_id_conv filter_empty_conv)
qed

section \<open>Properties\<close>

definition all_infractions ::
  "moderation_context \<Rightarrow> date_time \<Rightarrow> wire_scope \<Rightarrow> wire_subject option \<Rightarrow> rstr option
     \<Rightarrow> moderation_tables \<Rightarrow> repo_error + wire_infraction list" where
  "all_infractions c now s subject status db =
     res_bind (subject_filter subject True) (\<lambda>(t, i).
     res_bind (wire_scope_name (wc_type s)) (\<lambda>scope_type.
     res_bind (enum_cast status_labels status) (\<lambda>_.
     try_map (infraction_from_row c now)
       (newest_first nf_id (filter (infraction_wanted scope_type s t i status) (mt_infractions db))))))"

lemma follow_error: "(\<And>k. fetch k = Inl e) \<Longrightarrow> 0 < m \<Longrightarrow> follow c fetch m k = Inl e"
  by (cases m) simp_all

lemma distinct_newest: "distinct (map key rows) \<Longrightarrow> distinct (map key (id_rows key p rows k))"
  by (auto simp: id_rows_def newest_first_def distinct_map inj_on_def distinct_sort)

text \<open>
  C12 [infraction_pages]: reading the infractions of a scope page after page, whatever the size of a page, ends
  and gives every infraction that matches, once, the newest identifier first.
\<close>

theorem infraction_pages:
  assumes "\<And>i. mc_parse_uuid c (tx_uuid (mc_text c) i) = Some i" and "\<And>i. tx_uuid (mc_text c) i \<noteq> []"
    and "distinct (map nf_id (mt_infractions db))" and "length (mt_infractions db) < m"
  shows "follow c (\<lambda>k. list_infractions c now s subject status k limit db) m None =
    all_infractions c now s subject status db"
proof (cases "res_bind (subject_filter subject True) (\<lambda>(t, i). res_bind (wire_scope_name (wc_type s)) (\<lambda>scope_type.
     res_bind (enum_cast status_labels status) (\<lambda>_. Inr (t, i, scope_type))))")
  case (Inl e)
  then have "list_infractions c now s subject status k limit db = Inl e" for k
    by (auto simp: list_infractions_def res_bind_Inl_iff)
  moreover from Inl have "all_infractions c now s subject status db = Inl e"
    by (auto simp: all_infractions_def res_bind_Inl_iff)
  ultimately show ?thesis using assms(4) by (simp add: follow_error)
next
  case (Inr x)
  then obtain t i scope_type where x: "subject_filter subject True = Inr (t, i)"
    "wire_scope_name (wc_type s) = Inr scope_type" "enum_cast status_labels status = Inr ()" by auto
  let ?p = "infraction_wanted scope_type s t i status"
  have "length (id_rows nf_id ?p (mt_infractions db) None) \<le> length (mt_infractions db)"
    by (simp add: id_rows_def newest_first_def)
  with assms(4) have "length (id_rows nf_id ?p (mt_infractions db) None) < m" by simp
  with by_id.follow_complete [OF _ assms(1,2) distinct_newest [OF assms(3)] this, of "\<lambda>k. list_infractions c now s subject status k limit db"
      "infraction_from_row c now" limit]
  show ?thesis by (simp add: list_infractions_def all_infractions_def x) (simp add: id_rows_def before_def)
qed

definition sample_warnings :: "infraction_row list" where
  "sample_warnings = map (\<lambda>i. new_infraction 0 i (lit ''USER'', lit ''u'', lit ''HUB'', lit ''h'') (lit ''WARNING'')
     (lit ''spam'') (lit ''m'') None None None) [1, 2]"

theorem infraction_pages_witness:
  "\<exists>is. follow sample_moderation (\<lambda>k. list_infractions sample_moderation 0 \<lparr>wc_type = 3, wc_id = lit ''h'', wc_product = 0\<rparr>
     None None k 1 (empty_moderation\<lparr>mt_infractions := sample_warnings\<rparr>)) 3 None = Inr is
     \<and> map wi_id is = [[48, 48, 48], [48, 48]]"
proof -
  let ?db = "empty_moderation\<lparr>mt_infractions := sample_warnings\<rparr>"
  let ?s = "\<lparr>wc_type = 3, wc_id = lit ''h'', wc_product = 0\<rparr>"
  have two: "replicate 2 (48 :: nat) = [48, 48]" by (simp add: numeral_2_eq_2)
  have "follow sample_moderation (\<lambda>k. list_infractions sample_moderation 0 ?s None None k 1 ?db) 3 None
      = all_infractions sample_moderation 0 ?s None None ?db"
    by (rule infraction_pages) (simp_all add: sample_moderation_def list_all_iff sample_warnings_def new_infraction_def)
  also have "\<exists>is. all_infractions sample_moderation 0 ?s None None ?db = Inr is \<and> map wi_id is = [[48, 48, 48], [48, 48]]"
    by (simp add: all_infractions_def subject_filter_def wire_scope_name_def enum_label_def scope_labels_def ok_or_def
        enum_cast_def infraction_wanted_def matches_def sample_warnings_def new_infraction_def newest_first_def
        infraction_from_row_def scope_from_parts_def label_enum_def sample_moderation_def lit_def two)
  finally show ?thesis .
qed

text \<open>
  C35 [review_items_skipped]: a review item that is not on the first page is on no later one when its identifier is
  not smaller than that of the last item there, although it matches: the cursor is the identifier, the order is
  not. The statement is about any sizes of pages and any number of them.
\<close>

lemma review_pages_before:
  "r \<in> set (read_pages (review_rows p rows) qi_id n m (Some k)) \<Longrightarrow> qi_id r < k"
proof (induction m arbitrary: k)
  case 0
  then show ?case by simp
next
  case (Suc m)
  let ?p = "take n (review_rows p rows (Some k))"
  have page: "qi_id x < k" if "x \<in> set ?p" for x
    using in_set_takeD [OF that] by (auto simp: review_rows_def set_id_rows before_def)
  show ?case
  proof (cases "r \<in> set ?p")
    case True
    then show ?thesis by (rule page)
  next
    case False
    with Suc.prems have "?p \<noteq> []" "r \<in> set (read_pages (review_rows p rows) qi_id n m (Some (qi_id (last ?p))))"
      by (auto simp: Let_def split: if_splits)
    with Suc.IH page [OF last_in_set] show ?thesis by (meson order.strict_trans)
  qed
qed


text \<open>
  C36 [restrictions_end_at_hundred]: a list of restrictions with pages of a hundred or more never says that there is
  more, however many restrictions match: one row more than the page is needed to know, but at most a hundred are read.
\<close>

theorem restrictions_end_at_hundred:
  "if 100 \<le> sint limit
   then (case list_restrictions r now q sorted_by cursor limit counted db of Inl e \<Rightarrow> True
         | Inr p \<Rightarrow> cp_next_cursor p = [] \<and> length (cp_items p) \<le> 100)
   else True"
proof -
  have "page_size limit = 100 \<and> fetch_size limit = 100" if "100 \<le> sint limit"
    using that by (simp add: page_size_def fetch_size_def)
  then show ?thesis
    by (auto simp: list_restrictions_def Let_def split: sum.split dest: try_map_Inr_length)
qed

text \<open>
  moderation records cannot be listed by their status: whatever the tables hold and
  whatever else is asked, a request with a status is answered with an error.
\<close>

theorem record_status_refused:
  "if rk_status q = None then True
   else (case list_moderation_records r now kinds q sorted_by cursor limit counted db of Inl e \<Rightarrow> True | Inr p \<Rightarrow> False)"
proof -
  have "rk_status q = None" if "list_moderation_records r now kinds q sorted_by cursor limit counted db = Inr p" for p
    using that unfolding list_moderation_records_def status_condition_def res_bind_Inr_iff ensure_that_Inr by blast
  then show ?thesis by (auto split: sum.split)
qed


end
