(* ===== verification/Spec2Isabelle.thy ===== *)
theory Spec2Isabelle
  imports Resolver Delivery Cooldown Matcher Validation Analysis Compiler Snapshot Service ContentEngine Invalidation HeldActions ModerationInvariant ModerationLists
begin

text \<open>
  Polarizer is the trust and safety service of a chat platform. It decides what happens to an action,
  a message above all, before it is delivered, and it keeps the records of the moderators. The code has
  three parts, and so has this development.

  \<^bold>\<open>Native content policies\<close> (\<open>src/content_policy/\<close>). Administrators of the platform, of a hub and of a
  server write policies: rules with patterns, surfaces and actions. A policy is validated, compiled and
  published in a registry; a message is normalised, analysed, matched against the policies on its path
  and gets a plan, what each destination receives and which punishments are asked for.

  \<^item> \<open>Model\<close> (\<open>model.rs\<close>): authorities, surfaces, actions, patterns, rules, limits, as records and datatypes.
  \<^item> \<open>Spans\<close>, \<open>Resolver\<close> (\<open>resolver.rs\<close>): merging byte spans, the decision of one authority, the composition of
    several. The punishments asked for are the strongest; lower layers weaken nothing.
  \<^item> \<open>Delivery\<close> (\<open>delivery.rs\<close>): the text and names a variant delivers, the fingerprint of a variant, the groups of
    destinations that share one. Slicing a string at a wrong place is an error value, and never happens.
  \<^item> \<open>Cooldown\<close> (\<open>cooldown.rs\<close>): the gate that mutes repeated punishments, a state with a queue and a map.
  \<^item> \<open>Normalization\<close>, \<open>Unicode\<close> (\<open>normalization.rs\<close>): normalised text with the byte each character came from.
  \<^item> \<open>Matcher\<close> (\<open>matcher.rs\<close>): patterns, their identifiers, word boundaries, exclusions.
  \<^item> \<open>Validation\<close> (\<open>validation.rs\<close>): parsing of patterns and all checks of a policy, in the order of the code.
  \<^item> \<open>Analysis\<close> (\<open>analysis.rs\<close>): links, domains, e-mail addresses and the variants of the surfaces.
  \<^item> \<open>Compiler\<close> (\<open>compiler.rs\<close>): one matcher per surface and the evaluation of a compiled policy.
  \<^item> \<open>Snapshot\<close>, \<open>Service\<close>, \<open>Invalidation\<close> (\<open>snapshot.rs\<close>, \<open>service.rs\<close>, \<open>invalidation.rs\<close>): the registry with its
    versions and tombstones, loading and reconciling, and the consumer of events. The registry refines the
    abstract rule that the newest version wins.
  \<^item> \<open>ContentEngine\<close> (\<open>engine.rs\<close>): the plan for a message; the locale there states what a registry gives it.

  \<^bold>\<open>Action policies\<close> (\<open>src/policy/\<close>). Every action runs through the published policies of its scope; their effects are
  merged into one decision, stored with its commands, and a held action waits for a moderator.

  \<^item> \<open>PolicyModel\<close> (\<open>model.rs\<close>): scopes, manifests, features, effects, decisions, JSON values, the order of \<open>f64\<close> bits.
  \<^item> \<open>PolicyRuntime\<close>, \<open>PolicyIr\<close> (\<open>runtime.rs\<close>, \<open>ir.rs\<close>): the interface of policy languages and the declarative one.
  \<^item> \<open>Features\<close> (\<open>features/mod.rs\<close>): the registry of features and their resolution.
  \<^item> \<open>Merge\<close>, \<open>EffectCheck\<close>, \<open>NativeEffects\<close> (\<open>merge.rs\<close> and parts of \<open>repository.rs\<close> and \<open>engine.rs\<close>): one decision out of all
    effects, the check of each, and the effects of a content policy plan.
  \<^item> \<open>PolicyEngine\<close>, \<open>PolicyEvaluation\<close> (\<open>engine.rs\<close>): restrictions, content policies, the run of the policies in order
    with its errors, storing and replaying results, shadows, tests.
  \<^item> \<open>PolicyStore\<close>, \<open>PolicyLifecycle\<close> (\<open>repository.rs\<close>): bundles, versions, fixtures, approvals, activation as statements
    on tables, and the invariant that all requests keep.
  \<^item> \<open>ApprovedDelivery\<close>, \<open>HeldActions\<close> (\<open>repository.rs\<close>): the payload of an approved message, and the life of a stored
    action: adjudication, expiry, delivery reports.

  \<^bold>\<open>Moderation\<close> (\<open>src/moderation/repository.rs\<close>, with the workers of \<open>src/eventbus.rs\<close>).

  \<^item> \<open>ModerationModel\<close>: messages of the protocol, enumerations, subjects, search patterns, the safety score.
  \<^item> \<open>ModerationStore\<close>: the tables (\<open>moderation_tables\<close>, one list of rows each), audit, idempotency, commands, observations.
  \<^item> \<open>ModerationRecords\<close>: restrictions, infractions with the restriction that enforces them, appeals, review items.
  \<^item> \<open>ReportCases\<close>: reports, their claims, requests for staff actions, the change of staff rights, the expiry tick.
  \<^item> \<open>ModerationLinks\<close>, \<open>ModerationSafety\<close>: links of records to reports, and the assessments of subjects.
  \<^item> \<open>ModerationLifecycle\<close>: one step function \<open>moderate\<close> over all requests, and the rules that a relation of tables must
    respect (locales \<open>record_rules\<close> and \<open>report_rules\<close>); interpreted for the history of the rows.
  \<^item> \<open>ModerationInvariant\<close>: the rules interpreted for the invariant of the tables and for the claims; properties of
    single operations.
  \<^item> \<open>ModerationLists\<close>: lists, orders, cursors, and the locale that says when reading page after page gives everything.

  \<^bold>\<open>How the code corresponds.\<close> A struct is a record, an enum a datatype, \<open>Result<T, E>\<close> is \<open>'e + 't\<close> and \<open>?\<close> is \<open>res_bind\<close>.
  Integers keep their width (\<open>64 word\<close>, \<open>32 word\<close>); \<open>usize\<close> is \<open>nat\<close> where it counts elements. A \<open>BTreeMap\<close> is a list
  of pairs in order, a \<open>HashMap\<close> one without repetition. A character is its number, a string a list of them, and a byte
  offset is computed. A table is a list of rows; a statement is a function that fails where a key or check of
  \<open>migrations/\<close> is violated, or a \<open>bigint\<close> version overflows; a transaction keeps the old tables when it fails.
  Readings of the clock and fresh identifiers are arguments of the operations.

  \<^bold>\<open>Lemmas.\<close> Each theory first has the lemmas of its operations (branches, bounds, round trips), then the invariants, then
  the properties; what several theories share is in \<open>Prelude\<close>, \<open>RustStr\<close> and \<open>PolicyLifecycle\<close>.

  \<^bold>\<open>Bounds and fuel.\<close> Loops of the code are recursions with a measure. Fuel appears where a client repeats calls: the
  pages of a list (\<open>follow\<close>) and the rounds of a retry; the theorems give the number that is enough. Limits of the
  code (100 rows of a page, 64 KiB of JSON, 24 hours of a request) are the constants of the definitions.

  \<^bold>\<open>Parameters.\<close> What is not in this repository is an argument: SHA-256, the Unicode tables and case mappings, the text
  and parsing of UUIDs, instants and RFC 3339, JSON numbers and encoders, protobuf encoders, floating point addition
  and multiplication (comparison is defined on the bits), the cipher of sealed payloads and the feature providers.

  \<^bold>\<open>Not modelled.\<close> The automaton library behind the matcher, whose result is specified by the texts it finds; the
  interleaving of statements of concurrent transactions, since the row and advisory locks of the code order them; the
  Luau worker process, the gRPC transport in \<open>src/grpc/service.rs\<close> (decoding, authorisation calls and encoding around
  the operations here), the Kafka clients of \<open>src/eventbus.rs\<close>, image and text classifiers reached over the network
  (\<open>src/nsfw.rs\<close>, \<open>src/policy/features/\<close> other than the registry), generated clients, start-up and metrics. Of the
  repositories, execution traces, statistics, scheduled activations and shadow comparisons are left out.
\<close>

end
